(* ===== verification/Prelude.thy ===== *)
theory Prelude
  imports Main "HOL-Library.Word"
begin

text \<open>
  Shared vocabulary of the development: the values an operation of the program can end in
  (\<open>fault\<close>, \<open>res\<close>), sequencing of operations that can fail (\<open>rbind\<close>, \<open>rguard\<close>, \<open>rfold\<close>), checked
  access to \<open>std::vector\<close> (\<open>vec_at\<close>, \<open>vec_set\<close>) and the arithmetic macros that every component uses.
  The collection \<open>res_simps\<close> turns a successful run of sequenced operations into the successful
  runs of its parts.
\<close>

unbundle bit_operations_syntax

named_theorems res_simps "inversion of sequenced fallible operations"

section \<open>Results\<close>

text \<open>
  How an operation of the simulator can stop: \<open>panic(...)\<close> with its message, an exception of the
  C++ library (\<open>std::out_of_range\<close> from \<open>at\<close> and the like), undefined behaviour, or a loop that is
  still running after the number of iterations the model grants it.
\<close>

datatype fault = Panic string | Throws string | Undefined string | NoReturn string

type_synonym 'a res = "fault + 'a"

fun rbind :: "'err + 'val \<Rightarrow> ('val \<Rightarrow> 'err + 'out) \<Rightarrow> 'err + 'out" where
  "rbind (Inl flt) cont = Inl flt"
| "rbind (Inr v) cont = cont v"

definition rguard :: "bool \<Rightarrow> 'e \<Rightarrow> 'e + unit" where
  "rguard c e = (if c then Inr () else Inl e)"

text \<open>How a run failed, if it did.\<close>

fun fault_of :: "'e + 'a \<Rightarrow> 'e option" where
  "fault_of (Inl e) = Some e"
| "fault_of (Inr x) = None"

lemma fault_of_Some_iff: "fault_of m = Some e \<longleftrightarrow> m = Inl e"
  by (cases m) auto

lemma rbind_Inr_iff [res_simps]: "rbind m f = Inr y \<longleftrightarrow> (\<exists>x. m = Inr x \<and> f x = Inr y)"
  by (cases m) auto

lemma rbind_Inl_iff: "rbind m f = Inl e \<longleftrightarrow> m = Inl e \<or> (\<exists>x. m = Inr x \<and> f x = Inl e)"
  by (cases m) auto

lemma rbind_assoc: "rbind (rbind m f) g = rbind m (\<lambda>x. rbind (f x) g)"
  by (cases m) auto

lemma rbind_Inr [simp]: "rbind m Inr = m"
  by (cases m) auto

lemma rguard_Inr_iff [res_simps]: "rguard c e = Inr u \<longleftrightarrow> c"
  by (auto simp: rguard_def)

lemma rguard_True [simp]: "rguard True e = Inr ()"
  by (simp add: rguard_def)

lemma rguard_False [simp]: "rguard False e = Inl e"
  by (simp add: rguard_def)

lemma rbind_cong [fundef_cong]:
  "m = m' \<Longrightarrow> (\<And>x. m' = Inr x \<Longrightarrow> f x = g x) \<Longrightarrow> rbind m f = rbind m' g"
  by (cases m') auto

text \<open>A loop over a list whose body can fail.\<close>

fun rfold :: "('x \<Rightarrow> 's \<Rightarrow> 'e + 's) \<Rightarrow> 'x list \<Rightarrow> 's \<Rightarrow> 'e + 's" where
  "rfold f [] s = Inr s"
| "rfold f (x # xs) s = rbind (f x s) (rfold f xs)"

lemma rfold_Nil_fun [simp]: "rfold f [] = Inr"
  by (simp add: fun_eq_iff)

lemma rfold_single [simp]: "rfold f [x] = f x"
  by (simp add: fun_eq_iff)

lemma rfold_append: "rfold f (xs @ ys) s = rbind (rfold f xs s) (rfold f ys)"
proof (induction xs arbitrary: s)
  case (Cons x xs)
  then have "rfold f (xs @ ys) = (\<lambda>s. rbind (rfold f xs s) (rfold f ys))" by (simp add: fun_eq_iff)
  then show ?case by (simp add: rbind_assoc)
qed simp

lemma rfold_invariant:
  assumes "rfold f xs s = Inr s'" and "P s"
    and "\<And>x s s'. x \<in> set xs \<Longrightarrow> P s \<Longrightarrow> f x s = Inr s' \<Longrightarrow> P s'"
  shows "P s'"
  using assms by (induction xs arbitrary: s) (auto simp: res_simps)

lemma rfold_total:
  assumes "P s" and "\<And>x s. x \<in> set xs \<Longrightarrow> P s \<Longrightarrow> \<exists>s'. f x s = Inr s' \<and> P s'"
  shows "\<exists>s'. rfold f xs s = Inr s' \<and> P s'"
  using assms
proof (induction xs arbitrary: s)
  case (Cons x xs)
  from Cons.prems(1) Cons.prems(2)[of x s] obtain t where t: "f x s = Inr t" "P t" by auto
  have "\<exists>s'. rfold f xs t = Inr s' \<and> P s'"
    using t(2) Cons.prems(2) by (intro Cons.IH) auto
  then show ?case using t(1) by simp
qed simp

text \<open>Counting loops \<open>for (i = 0; i < n; i++)\<close>: an invariant indexed by the loop variable.\<close>

lemma rfold_upt_invariant:
  assumes "rfold f [0..<n] s = Inr s'" and "I 0 s"
    and "\<And>i s s'. i < n \<Longrightarrow> I i s \<Longrightarrow> f i s = Inr s' \<Longrightarrow> I (Suc i) s'"
  shows "I n s'"
  using assms
proof (induction n arbitrary: s')
  case (Suc n)
  from Suc.prems(1) obtain t where t: "rfold f [0..<n] s = Inr t" "f n t = Inr s'"
    by (auto simp: rfold_append res_simps)
  have "I n t" using Suc.IH[OF t(1) Suc.prems(2)] Suc.prems(3) by simp
  then show ?case using Suc.prems(3) t(2) by blast
qed simp

lemma rfold_upt_total:
  assumes "I 0 s" and "\<And>i s. i < n \<Longrightarrow> I i s \<Longrightarrow> \<exists>s'. f i s = Inr s' \<and> I (Suc i) s'"
  shows "\<exists>s'. rfold f [0..<n] s = Inr s' \<and> I n s'"
  using assms
proof (induction n)
  case (Suc n)
  have "\<exists>t. rfold f [0..<n] s = Inr t \<and> I n t" by (rule Suc.IH[OF Suc.prems(1)]) (simp add: Suc.prems(2))
  then obtain t where t: "rfold f [0..<n] s = Inr t" "I n t" by blast
  obtain s' where "f n t = Inr s'" "I (Suc n) s'" using Suc.prems(2)[OF lessI t(2)] by blast
  then show ?case using t(1) by (auto simp: rfold_append)
qed simp

section \<open>Vectors\<close>

definition vec_at :: "'a list \<Rightarrow> nat \<Rightarrow> 'a res" where
  "vec_at xs i = (if i < length xs then Inr (xs ! i) else Inl (Throws ''vector::at''))"

lemma vec_at_Inr_iff [res_simps]: "vec_at xs i = Inr x \<longleftrightarrow> i < length xs \<and> x = xs ! i"
  by (auto simp: vec_at_def)

lemma vec_at_ok [simp]: "i < length xs \<Longrightarrow> vec_at xs i = Inr (xs ! i)"
  by (simp add: vec_at_def)

lemma nth_list_update_if: "i < length xs \<Longrightarrow> xs[i := v] ! j = (if i = j then v else xs ! j)"
  by simp

section \<open>Machine integers\<close>

text \<open>Naturals reduced to the width the code stores them in.\<close>

definition wrap64 :: "nat \<Rightarrow> nat" where "wrap64 n = n mod 18446744073709551616"
definition wrap32 :: "nat \<Rightarrow> nat" where "wrap32 n = n mod 4294967296"

type_synonym u8 = "8 word"
type_synonym u32 = "32 word"
type_synonym u64 = "64 word"

text \<open>
  The macro \<open>DIVCEIL(x, y)\<close> is \<open>((x)-1) / (y) + 1\<close>.  On an unsigned operand the subtraction wraps
  at 0; \<open>divceil\<close> is the macro on operands the caller has shown to be positive.
\<close>

definition DIVCEIL :: "'a::len word \<Rightarrow> 'a word \<Rightarrow> 'a word" where
  "DIVCEIL x y = (x - 1) div y + 1"

definition divceil :: "nat \<Rightarrow> nat \<Rightarrow> nat" where
  "divceil x y = (x - 1) div y + 1"

lemma divceil_mult_ge: "0 < y \<Longrightarrow> x \<le> divceil x y * y"
  unfolding divceil_def using dividend_less_div_times[of y "x - 1"] by simp

lemma divceil_least: "0 < x \<Longrightarrow> 0 < y \<Longrightarrow> divceil x y * y < x + y"
proof -
  assume "0 < x" "0 < y"
  moreover have "(x - 1) div y * y \<le> x - 1" by simp
  ultimately have "(x - 1) div y * y < x" by linarith
  then show ?thesis by (simp add: divceil_def)
qed

lemma divceil_unique:
  assumes "0 < x" "0 < y" "x \<le> n * y" "n * y < x + y"
  shows "divceil x y = n"
proof -
  have "n > 0" using assms by (cases n) auto
  moreover have "(x - 1) div y = n - 1"
  proof (rule div_nat_eqI)
    show "y * (n - 1) \<le> x - 1" using assms \<open>n > 0\<close> by (cases n) (auto simp: algebra_simps)
    show "x - 1 < y * Suc (n - 1)" using assms \<open>n > 0\<close> by (cases n) (auto simp: algebra_simps)
  qed
  ultimately show ?thesis by (simp add: divceil_def)
qed

lemma unat_DIVCEIL:
  assumes "x \<noteq> 0" "y \<noteq> 0"
  shows "unat (DIVCEIL x y :: 'a::len word) = divceil (unat x) (unat y)"
proof -
  have 1: "unat (x - 1) = unat x - 1"
    using assms(1) by (metis unat_minus_one)
  have "unat (x - 1) div unat y + 1 \<le> unat x"
  proof -
    have "unat (x - 1) div unat y \<le> unat (x - 1)" by simp
    moreover have "0 < unat x" using assms(1) by (simp add: unat_gt_0)
    ultimately show ?thesis using 1 by linarith
  qed
  moreover have "unat x < 2 ^ LENGTH('a)" by simp
  ultimately have "unat (x - 1) div unat y + 1 < 2 ^ LENGTH('a)" by (rule le_less_trans)
  then have "unat ((x - 1) div y) + unat (1::'a word) < 2 ^ LENGTH('a)"
    unfolding unat_div by simp
  then show ?thesis
    unfolding DIVCEIL_def divceil_def by (simp add: unat_add_lem[THEN iffD1] unat_div 1)
qed

end
