(* ===== verification/Bits.thy ===== *)
theory Bits
  imports Prelude
begin

text \<open>
  \<open>util/bitset.cc\<close> and the bit counter of \<open>util/algorithm.hh\<close>.  A \<open>Bitset\<close> keeps \<open>dataSize\<close> bits in
  \<open>allocSize\<close> bytes; the record below has the same three members, the heap array as a list of bytes.
  The well-formedness predicate \<open>bs_wf\<close> holds the two facts every operation relies on: the array
  has the allocated length, and the padding bits of the last byte are zero (\<open>count\<close>, \<open>none\<close> and the
  comparison read whole bytes).  The abstract value of a bitset is the list \<open>bs_bits\<close> of its bits;
  each operation is characterised on it.
\<close>

section \<open>Counting the bits of a byte\<close>

text \<open>\<open>popcount<uint8_t>\<close>: the constants are \<open>255/3\<close>, \<open>255/15*3\<close> and \<open>255/255*15\<close>, the last shift is by 0.\<close>

definition popcount8 :: "u8 \<Rightarrow> u8" where
  "popcount8 v0 =
     (let v1 = v0 - (drop_bit 1 v0 AND 0x55);
          v2 = (v1 AND 0x33) + (drop_bit 2 v1 AND 0x33);
          v3 = (v2 + drop_bit 4 v2) AND 0x0F
      in drop_bit 0 (v3 * 1))"

definition byte_bits :: "u8 \<Rightarrow> bool list" where
  "byte_bits v = map (bit v) [0..<8]"

section \<open>The bitset\<close>

record bitset =
  bs_data :: "u8 list"
  bs_dataSize :: nat
  bs_allocSize :: nat

definition bs_empty :: bitset where
  "bs_empty = \<lparr>bs_data = [], bs_dataSize = 0, bs_allocSize = 0\<rparr>"

definition bs_new :: "nat \<Rightarrow> bitset" where
  "bs_new n =
     (if 0 < n then \<lparr>bs_data = replicate (divceil n 8) 0, bs_dataSize = n,
                     bs_allocSize = divceil n 8\<rparr>
      else bs_empty)"

definition bs_test :: "bitset \<Rightarrow> nat \<Rightarrow> bool" where
  "bs_test b idx = ((bs_data b ! (idx div 8)) AND push_bit (idx mod 8) 1 \<noteq> 0)"

definition bs_all :: "bitset \<Rightarrow> bool" where
  "bs_all b =
     (let mask = push_bit (bs_dataSize b + 8 - bs_allocSize b * 8) 0xFF;
          ret = fold (\<lambda>i r. r AND bs_data b ! i) [0..<bs_allocSize b - 1] 0xFF
      in ret AND (bs_data b ! (bs_allocSize b - 1) OR mask) = (0xFF :: u8))"

definition bs_none :: "bitset \<Rightarrow> bool" where
  "bs_none b = (fold (\<lambda>i r. r OR bs_data b ! i) [0..<bs_allocSize b] 0 = (0 :: u8))"

definition bs_any :: "bitset \<Rightarrow> bool" where
  "bs_any b = (\<not> bs_none b)"

definition bs_count :: "bitset \<Rightarrow> nat" where
  "bs_count b = fold (\<lambda>i c. c + unat (popcount8 (bs_data b ! i))) [0..<bs_allocSize b] 0"

definition bs_size :: "bitset \<Rightarrow> nat" where
  "bs_size b = bs_dataSize b"

definition bs_set_all :: "bitset \<Rightarrow> bitset" where
  "bs_set_all b =
     (let mask = drop_bit (bs_allocSize b * 8 - bs_dataSize b) 0xFF;
          d = fold (\<lambda>i d. d[i := 0xFF]) [0..<bs_allocSize b - 1] (bs_data b)
      in b\<lparr>bs_data := d[bs_allocSize b - 1 := mask]\<rparr>)"

definition bs_set :: "bitset \<Rightarrow> nat \<Rightarrow> bool \<Rightarrow> bitset" where
  "bs_set b idx value =
     (let k = idx div 8;
          d1 = (bs_data b)[k := (bs_data b ! k) AND NOT (push_bit (idx mod 8) 1)];
          d2 = (if value then d1[k := (d1 ! k) OR push_bit (idx mod 8) 1] else d1)
      in b\<lparr>bs_data := d2\<rparr>)"

definition bs_reset_all :: "bitset \<Rightarrow> bitset" where
  "bs_reset_all b = b\<lparr>bs_data := fold (\<lambda>i d. d[i := 0]) [0..<bs_allocSize b] (bs_data b)\<rparr>"

definition bs_reset :: "bitset \<Rightarrow> nat \<Rightarrow> bitset" where
  "bs_reset b idx =
     b\<lparr>bs_data := (bs_data b)[idx div 8 := (bs_data b ! (idx div 8)) AND NOT (push_bit (idx mod 8) 1)]\<rparr>"

definition bs_flip_all :: "bitset \<Rightarrow> bitset" where
  "bs_flip_all b =
     (let mask = drop_bit (bs_allocSize b * 8 - bs_dataSize b) 0xFF;
          d = fold (\<lambda>i d. d[i := NOT (d ! i)]) [0..<bs_allocSize b] (bs_data b);
          k = bs_allocSize b - 1
      in b\<lparr>bs_data := d[k := (d ! k) AND mask]\<rparr>)"

definition bs_flip :: "bitset \<Rightarrow> nat \<Rightarrow> bitset" where
  "bs_flip b idx =
     (let k = idx div 8; m = push_bit (idx mod 8) 1; v = bs_data b ! k
      in b\<lparr>bs_data := (bs_data b)[k := (NOT v AND m) OR (v AND NOT m)]\<rparr>)"

text \<open>The compound assignments panic when the sizes differ; \<open>bs_zip\<close> is their common loop.\<close>

definition bs_zip :: "(u8 \<Rightarrow> u8 \<Rightarrow> u8) \<Rightarrow> bitset \<Rightarrow> bitset \<Rightarrow> bitset res" where
  "bs_zip f b c =
     (if bs_dataSize b \<noteq> bs_dataSize c then Inl (Panic ''Size does not match'')
      else Inr (b\<lparr>bs_data := fold (\<lambda>i d. d[i := f (d ! i) (bs_data c ! i)]) [0..<bs_allocSize b] (bs_data b)\<rparr>))"

definition bs_and :: "bitset \<Rightarrow> bitset \<Rightarrow> bitset res" where
  "bs_and = bs_zip (\<lambda>x y. x AND y)"

definition bs_or :: "bitset \<Rightarrow> bitset \<Rightarrow> bitset res" where
  "bs_or = bs_zip (\<lambda>x y. x OR y)"

definition bs_xor :: "bitset \<Rightarrow> bitset \<Rightarrow> bitset res" where
  "bs_xor = bs_zip (\<lambda>x y. x XOR y)"

definition bs_not :: "bitset \<Rightarrow> bitset" where
  "bs_not b = bs_flip_all b"

definition bs_eq :: "bitset \<Rightarrow> bitset \<Rightarrow> bool res" where
  "bs_eq b c =
     (if bs_dataSize b \<noteq> bs_dataSize c then Inl (Panic ''Size does not match'')
      else Inr (list_all (\<lambda>i. bs_data b ! i = bs_data c ! i) [0..<bs_allocSize b]))"

section \<open>Well-formed bitsets and their bits\<close>

definition bs_wf :: "bitset \<Rightarrow> bool" where
  "bs_wf b \<longleftrightarrow> 0 < bs_dataSize b \<and> bs_allocSize b = divceil (bs_dataSize b) 8
     \<and> length (bs_data b) = bs_allocSize b
     \<and> (\<forall>i < bs_allocSize b * 8. bs_dataSize b \<le> i \<longrightarrow> \<not> bit (bs_data b ! (i div 8)) (i mod 8))"

definition bs_bits :: "bitset \<Rightarrow> bool list" where
  "bs_bits b = map (bs_test b) [0..<bs_dataSize b]"

text \<open>Loops over the byte array.\<close>

lemma fold_upt_update:
  assumes "n \<le> length d"
  shows "length (fold (\<lambda>i d. d[i := g i (d ! i)]) [0..<n] d) = length d"
    and "j < length d \<Longrightarrow> fold (\<lambda>i d. d[i := g i (d ! i)]) [0..<n] d ! j = (if j < n then g j (d ! j) else d ! j)"
proof -
  have "length (fold (\<lambda>i d. d[i := g i (d ! i)]) [0..<n] d) = length d \<and>
        (\<forall>j < length d. fold (\<lambda>i d. d[i := g i (d ! i)]) [0..<n] d ! j = (if j < n then g j (d ! j) else d ! j))"
    using assms by (induction n) (auto simp: nth_list_update less_Suc_eq)
  then show "length (fold (\<lambda>i d. d[i := g i (d ! i)]) [0..<n] d) = length d"
    and "j < length d \<Longrightarrow> fold (\<lambda>i d. d[i := g i (d ! i)]) [0..<n] d ! j = (if j < n then g j (d ! j) else d ! j)"
    by auto
qed

lemma bit_fold_or:
  "bit (fold (\<lambda>i r. r OR f i) [0..<n] (r0::'a::len word)) k \<longleftrightarrow> bit r0 k \<or> (\<exists>i<n. bit (f i) k)"
  by (induction n) (auto simp: bit_or_iff less_Suc_eq)

lemma bit_fold_and:
  "bit (fold (\<lambda>i r. r AND f i) [0..<n] (r0::'a::len word)) k \<longleftrightarrow> bit r0 k \<and> (\<forall>i<n. bit (f i) k)"
  by (induction n) (auto simp: bit_and_iff less_Suc_eq)

lemma byte_eq_iff: "(v::u8) = w \<longleftrightarrow> (\<forall>k<8. bit v k = bit w k)"
  by (auto intro: bit_word_eqI)


lemma bit_AND_single: "(v AND push_bit k 1 \<noteq> (0::u8)) \<longleftrightarrow> k < 8 \<and> bit v k"
proof (cases "k < 8 \<and> bit v k")
  case True
  then have "bit (v AND push_bit k 1) k" by (simp add: bit_simps)
  then show ?thesis using True by auto
next
  case False
  then have "v AND push_bit k 1 = 0"
    by (intro bit_eqI) (auto simp: bit_simps)
  then show ?thesis using False by auto
qed

lemma bs_test_bit: "bs_test b i = bit (bs_data b ! (i div 8)) (i mod 8)"
  unfolding bs_test_def bit_AND_single by simp

lemma bs_alloc_bounds:
  assumes "bs_wf b"
  shows "bs_dataSize b \<le> bs_allocSize b * 8" and "bs_allocSize b * 8 < bs_dataSize b + 8"
    and "0 < bs_allocSize b" and "i < bs_dataSize b \<Longrightarrow> i div 8 < bs_allocSize b"
    and "i < bs_dataSize b \<Longrightarrow> i div 8 < length (bs_data b)"
proof -
  show 1: "bs_dataSize b \<le> bs_allocSize b * 8" "bs_allocSize b * 8 < bs_dataSize b + 8"
    using assms divceil_mult_ge[of 8 "bs_dataSize b"] divceil_least[of "bs_dataSize b" 8]
    by (auto simp: bs_wf_def)
  show "0 < bs_allocSize b" using assms by (simp add: bs_wf_def divceil_def)
  show 2: "i < bs_dataSize b \<Longrightarrow> i div 8 < bs_allocSize b" using 1 by linarith
  then show "i < bs_dataSize b \<Longrightarrow> i div 8 < length (bs_data b)" using assms by (simp add: bs_wf_def)
qed

lemma bs_padding:
  assumes "bs_wf b" "bs_dataSize b \<le> i" "i < bs_allocSize b * 8"
  shows "\<not> bs_test b i"
  using assms by (auto simp: bs_wf_def bs_test_bit)

lemma all_bytes_iff: "(\<forall>i < n * (8::nat). P i) \<longleftrightarrow> (\<forall>k < n. \<forall>j < 8. P (k * 8 + j))"
proof
  assume *: "\<forall>k < n. \<forall>j < 8. P (k * 8 + j)"
  show "\<forall>i < n * 8. P i"
  proof (intro allI impI)
    fix i :: nat assume "i < n * 8"
    then have "i div 8 < n" by linarith
    with * have "P (i div 8 * 8 + i mod 8)" by (meson mod_less_divisor zero_less_numeral)
    then show "P i" by (simp only: div_mult_mod_eq)
  qed
qed auto

lemma bs_wf_intro:
  assumes "0 < bs_dataSize b" "bs_allocSize b = divceil (bs_dataSize b) 8"
    "length (bs_data b) = bs_allocSize b"
    "\<And>i. i < bs_allocSize b * 8 \<Longrightarrow> bs_dataSize b \<le> i \<Longrightarrow> \<not> bs_test b i"
  shows "bs_wf b"
  using assms by (auto simp: bs_wf_def bs_test_bit)

section \<open>Behaviour of the operations\<close>

text \<open>Frame facts shared by the proofs: sizes never change.\<close>

lemma bs_sizes [simp]:
  "bs_dataSize (bs_set b i v) = bs_dataSize b" "bs_allocSize (bs_set b i v) = bs_allocSize b"
  "bs_dataSize (bs_reset b i) = bs_dataSize b" "bs_allocSize (bs_reset b i) = bs_allocSize b"
  "bs_dataSize (bs_flip b i) = bs_dataSize b" "bs_allocSize (bs_flip b i) = bs_allocSize b"
  "bs_dataSize (bs_set_all b) = bs_dataSize b" "bs_allocSize (bs_set_all b) = bs_allocSize b"
  "bs_dataSize (bs_reset_all b) = bs_dataSize b" "bs_allocSize (bs_reset_all b) = bs_allocSize b"
  "bs_dataSize (bs_flip_all b) = bs_dataSize b" "bs_allocSize (bs_flip_all b) = bs_allocSize b"
  by (simp_all add: bs_set_def bs_reset_def bs_flip_def bs_set_all_def bs_reset_all_def
      bs_flip_all_def Let_def)

lemma bs_new_wf: "0 < n \<Longrightarrow> bs_wf (bs_new n)"
  by (intro bs_wf_intro) (auto simp: bs_new_def bs_test_bit)

lemma bs_new_test: "i < n \<Longrightarrow> \<not> bs_test (bs_new n) i"
proof -
  assume "i < n"
  then have "i div 8 < divceil n 8" using divceil_mult_ge[of 8 n] by linarith
  then show ?thesis using \<open>i < n\<close> by (simp add: bs_new_def bs_test_bit)
qed

lemma bs_new_size [simp]: "bs_dataSize (bs_new n) = n"
  by (simp add: bs_new_def bs_empty_def)

lemma div_mod_8_eq: "i div 8 = j div 8 \<Longrightarrow> i mod 8 = j mod 8 \<Longrightarrow> i = (j::nat)"
  by (metis mult_div_mod_eq)

lemma bs_test_update:
  assumes "i div 8 < length (bs_data b)"
  shows "bs_test (b\<lparr>bs_data := (bs_data b)[i div 8 := v]\<rparr>) j =
     (if j div 8 = i div 8 then bit v (j mod 8) else bs_test b j)"
  using assms by (auto simp: bs_test_bit)

lemma bs_test_set_raw:
  assumes "i div 8 < length (bs_data b)"
  shows "bs_test (bs_set b i v) j = (if j = i then v else bs_test b j)"
  using assms div_mod_8_eq[of i j]
  by (auto simp: bs_set_def Let_def bs_test_bit bit_simps nth_list_update)

lemma bs_reset_eq_set: "bs_reset b i = bs_set b i False"
  by (simp add: bs_reset_def bs_set_def Let_def)

lemma bs_test_flip_raw:
  assumes "i div 8 < length (bs_data b)"
  shows "bs_test (bs_flip b i) j = (if j = i then \<not> bs_test b j else bs_test b j)"
  using assms div_mod_8_eq[of i j]
  by (auto simp: bs_flip_def Let_def bs_test_bit bit_simps nth_list_update)

lemma bs_test_set [simp]:
  "bs_wf b \<Longrightarrow> i < bs_dataSize b \<Longrightarrow> bs_test (bs_set b i v) j = (if j = i then v else bs_test b j)"
  by (rule bs_test_set_raw) (rule bs_alloc_bounds)

lemma bs_test_reset [simp]:
  "bs_wf b \<Longrightarrow> i < bs_dataSize b \<Longrightarrow> bs_test (bs_reset b i) j = (j \<noteq> i \<and> bs_test b j)"
  by (simp add: bs_reset_eq_set)

lemma bs_test_flip [simp]:
  "bs_wf b \<Longrightarrow> i < bs_dataSize b \<Longrightarrow> bs_test (bs_flip b i) j = (if j = i then \<not> bs_test b j else bs_test b j)"
  by (rule bs_test_flip_raw) (rule bs_alloc_bounds)

lemma bs_set_wf [simp]: "bs_wf b \<Longrightarrow> i < bs_dataSize b \<Longrightarrow> bs_wf (bs_set b i v)"
  by (rule bs_wf_intro) (auto simp: bs_padding, auto simp: bs_wf_def bs_set_def Let_def)

lemma bs_reset_wf [simp]: "bs_wf b \<Longrightarrow> i < bs_dataSize b \<Longrightarrow> bs_wf (bs_reset b i)"
  by (simp add: bs_reset_eq_set)

lemma bs_flip_wf [simp]: "bs_wf b \<Longrightarrow> i < bs_dataSize b \<Longrightarrow> bs_wf (bs_flip b i)"
  by (rule bs_wf_intro) (auto simp: bs_padding, auto simp: bs_wf_def bs_flip_def Let_def)


lemma bs_wf_intro_bytes:
  assumes "bs_wf b" "bs_dataSize c = bs_dataSize b" "bs_allocSize c = bs_allocSize b"
    "length (bs_data c) = length (bs_data b)"
    "\<And>k j. k < bs_allocSize b \<Longrightarrow> j < 8 \<Longrightarrow> bit (bs_data c ! k) j \<Longrightarrow> k * 8 + j < bs_dataSize b"
  shows "bs_wf c"
proof -
  have "\<not> bit (bs_data c ! (i div 8)) (i mod 8)" if "i < bs_allocSize b * 8" "bs_dataSize b \<le> i" for i
  proof
    assume "bit (bs_data c ! (i div 8)) (i mod 8)"
    then have "i div 8 * 8 + i mod 8 < bs_dataSize b"
      using that(1) by (intro assms(5)) (auto simp: less_mult_imp_div_less)
    then show False using that(2) by simp
  qed
  then show ?thesis using assms(1-4) by (auto simp: bs_wf_def)
qed

text \<open>The whole-bitset operations.\<close>

lemma bs_reset_all_data:
  "k < bs_allocSize b \<Longrightarrow> bs_data (bs_reset_all b) ! k = 0"
  "length (bs_data (bs_reset_all b)) = length (bs_data b)" if "bs_wf b"
proof -
  note len = that[unfolded bs_wf_def]
  note upd = fold_upt_update[where n="bs_allocSize b" and d="bs_data b" and g="\<lambda>_ _. 0"]
  show "length (bs_data (bs_reset_all b)) = length (bs_data b)"
    using len upd by (simp add: bs_reset_all_def)
  show "bs_data (bs_reset_all b) ! k = 0" if "k < bs_allocSize b"
    using len upd(2)[where j=k] that by (simp add: bs_reset_all_def)
qed

lemma bs_test_reset_all [simp]: "bs_wf b \<Longrightarrow> i < bs_dataSize b \<Longrightarrow> \<not> bs_test (bs_reset_all b) i"
  by (simp add: bs_test_bit bs_reset_all_data bs_alloc_bounds)

lemma bs_reset_all_wf [simp]: "bs_wf b \<Longrightarrow> bs_wf (bs_reset_all b)"
  by (rule bs_wf_intro_bytes[of b]) (auto simp: bs_reset_all_data)

text \<open>The mask \<open>0xFF >> (allocSize * 8 - dataSize)\<close> keeps the bits of the last byte that are in use.\<close>

lemma bit_0xFF [simp]: "bit (255 :: int) k \<longleftrightarrow> k < 8"
proof -
  have eq: "(255 :: int) = mask 8" by (simp add: mask_eq_exp_minus_1)
  show ?thesis unfolding eq by (auto simp: bit_mask_iff)
qed

lemma bit_tail_mask: "bit (drop_bit n (0xFF :: u8)) k \<longleftrightarrow> k + n < 8"
  by (auto simp: bit_drop_bit_eq add.commute)

lemma bs_in_use:
  assumes "bs_wf b" "k < bs_allocSize b" "j < 8"
  shows "k * 8 + j < bs_dataSize b \<longleftrightarrow>
    k < bs_allocSize b - 1 \<or> j + (bs_allocSize b * 8 - bs_dataSize b) < 8"
  using bs_alloc_bounds(1-3)[OF assms(1)] assms(2,3) by (cases "k < bs_allocSize b - 1") auto

lemma bs_set_all_bit:
  assumes "bs_wf b" "k < bs_allocSize b" "j < 8"
  shows "bit (bs_data (bs_set_all b) ! k) j \<longleftrightarrow> k * 8 + j < bs_dataSize b"
proof -
  let ?n = "bs_allocSize b"
  have len: "length (bs_data b) = ?n" using assms(1) by (simp add: bs_wf_def)
  have "bit (0xFF :: u8) j" using assms(3) bit_tail_mask[of 0 j] by simp
  then show ?thesis
    using assms(2) bs_in_use[OF assms] len fold_upt_update[where n="?n - 1" and d="bs_data b" and g="\<lambda>_ _. 0xFF"]
    by (auto simp: bs_set_all_def Let_def nth_list_update bit_tail_mask)
qed

lemma bs_set_all_len [simp]: "bs_wf b \<Longrightarrow> length (bs_data (bs_set_all b)) = length (bs_data b)"
  using fold_upt_update[where n="bs_allocSize b - 1" and d="bs_data b" and g="\<lambda>_ _. 0xFF"]
  by (simp add: bs_set_all_def Let_def bs_wf_def)

lemma bs_test_set_all [simp]: "bs_wf b \<Longrightarrow> i < bs_dataSize b \<Longrightarrow> bs_test (bs_set_all b) i"
  by (simp add: bs_test_bit bs_set_all_bit bs_alloc_bounds)

lemma bs_set_all_wf [simp]: "bs_wf b \<Longrightarrow> bs_wf (bs_set_all b)"
  by (rule bs_wf_intro_bytes[of b]) (auto simp: bs_set_all_bit)

lemma bs_flip_all_bit:
  assumes "bs_wf b" "k < bs_allocSize b" "j < 8"
  shows "bit (bs_data (bs_flip_all b) ! k) j \<longleftrightarrow> k * 8 + j < bs_dataSize b \<and> \<not> bit (bs_data b ! k) j"
proof -
  let ?n = "bs_allocSize b"
  have len: "length (bs_data b) = ?n" using assms(1) by (simp add: bs_wf_def)
  show ?thesis
    using assms(2,3) bs_in_use[OF assms] len fold_upt_update[where n="?n" and d="bs_data b" and g="\<lambda>_ v. NOT v"]
    by (auto simp: bs_flip_all_def Let_def nth_list_update bit_tail_mask bit_not_iff bit_and_iff)
qed

lemma bs_flip_all_len [simp]: "bs_wf b \<Longrightarrow> length (bs_data (bs_flip_all b)) = length (bs_data b)"
  using fold_upt_update[where n="bs_allocSize b" and d="bs_data b" and g="\<lambda>_ v. NOT v"]
  by (simp add: bs_flip_all_def Let_def bs_wf_def)

lemma bs_test_flip_all [simp]:
  "bs_wf b \<Longrightarrow> i < bs_dataSize b \<Longrightarrow> bs_test (bs_flip_all b) i = (\<not> bs_test b i)"
  by (simp add: bs_test_bit bs_flip_all_bit bs_alloc_bounds)

lemma bs_flip_all_wf [simp]: "bs_wf b \<Longrightarrow> bs_wf (bs_flip_all b)"
  by (rule bs_wf_intro_bytes[of b]) (auto simp: bs_flip_all_bit)

lemma bs_none_iff: "bs_wf b \<Longrightarrow> bs_none b \<longleftrightarrow> (\<forall>i < bs_dataSize b. \<not> bs_test b i)"
proof -
  assume wf: "bs_wf b"
  have "bs_none b \<longleftrightarrow> (\<forall>k < bs_allocSize b. \<forall>j < 8. \<not> bit (bs_data b ! k) j)"
    unfolding bs_none_def byte_eq_iff by (auto simp: bit_fold_or)
  also have "\<dots> \<longleftrightarrow> (\<forall>i < bs_allocSize b * 8. \<not> bs_test b i)"
    by (simp add: all_bytes_iff bs_test_bit)
  also have "\<dots> \<longleftrightarrow> (\<forall>i < bs_dataSize b. \<not> bs_test b i)"
    using bs_padding[OF wf] bs_alloc_bounds(1)[OF wf] by (meson leI less_le_trans)
  finally show ?thesis .
qed

lemma bs_any_iff: "bs_wf b \<Longrightarrow> bs_any b \<longleftrightarrow> (\<exists>i < bs_dataSize b. bs_test b i)"
  by (simp add: bs_any_def bs_none_iff)

lemma bs_all_iff: "bs_wf b \<Longrightarrow> bs_all b \<longleftrightarrow> (\<forall>i < bs_dataSize b. bs_test b i)"
proof -
  assume wf: "bs_wf b"
  let ?n = "bs_allocSize b"
  note bnd = bs_alloc_bounds(1-3)[OF wf]
  have "bs_all b \<longleftrightarrow> (\<forall>j < 8. (\<forall>k < ?n - 1. bit (bs_data b ! k) j) \<and>
      (bit (bs_data b ! (?n - 1)) j \<or> bs_dataSize b \<le> (?n - 1) * 8 + j))"
    unfolding bs_all_def byte_eq_iff Let_def
    using bnd by (auto simp: bit_fold_and bit_or_iff bit_and_iff bit_push_bit_iff)
  also have "\<dots> \<longleftrightarrow> (\<forall>k < ?n. \<forall>j < 8. k * 8 + j < bs_dataSize b \<longrightarrow> bs_test b (k * 8 + j))"
  proof -
    have inner: "k * 8 + j < bs_dataSize b" if "k < ?n - 1" "j < 8" for k j using that bnd by linarith
    have split: "(\<forall>k < ?n. Q k) \<longleftrightarrow> (\<forall>k < ?n - 1. Q k) \<and> Q (?n - 1)" for Q
      using bnd(3) by (cases ?n) (auto simp: less_Suc_eq)
    show ?thesis unfolding split by (auto simp: bs_test_bit inner not_le)
  qed
  also have "\<dots> \<longleftrightarrow> (\<forall>i < ?n * 8. i < bs_dataSize b \<longrightarrow> bs_test b i)"
    by (simp add: all_bytes_iff)
  also have "\<dots> \<longleftrightarrow> (\<forall>i < bs_dataSize b. bs_test b i)"
    using bnd by auto
  finally show ?thesis .
qed


section \<open>Counting\<close>

text \<open>All 256 bytes, in four ranges that are checked in parallel.\<close>

definition popcount8_ok :: "nat \<Rightarrow> bool" where
  "popcount8_ok n = (unat (popcount8 (word_of_nat n)) = count_list (byte_bits (word_of_nat n)) True)"

lemma popcount8_table_0: "list_all popcount8_ok [0..<64]"
  by code_simp

lemma popcount8_table_64: "list_all popcount8_ok [64..<128]"
  by code_simp

lemma popcount8_table_128: "list_all popcount8_ok [128..<192]"
  by code_simp

lemma popcount8_table_192: "list_all popcount8_ok [192..<256]"
  by code_simp

lemma popcount8_count: "unat (popcount8 v) = count_list (byte_bits v) True"
proof -
  have "unat v < 256" using unsigned_less[of v] by simp
  then have "unat v \<in> set ([0..<64] @ [64..<128] @ [128..<192] @ [192..<256])"
    unfolding set_append set_upt Un_iff atLeastLessThan_iff by linarith
  then have "popcount8_ok (unat v)"
    using popcount8_table_0 popcount8_table_64 popcount8_table_128 popcount8_table_192
    unfolding list_all_iff set_append by blast
  then show ?thesis by (simp add: popcount8_ok_def)
qed

lemma count_list_map_upt: "count_list (map P [0..<n]) True = card {i. i < n \<and> P i}"
proof (induction n)
  case (Suc n)
  have step: "{k. k < Suc n \<and> P k} = (if P n then insert n {k. k < n \<and> P k} else {k. k < n \<and> P k})"
    using less_Suc_eq by auto
  show ?case unfolding step using Suc by simp
qed simp

lemma count_bytes:
  "count_list (map P [0..<n * 8]) True = fold (\<lambda>i c. c + count_list (map (\<lambda>j. P (i * 8 + j)) [0..<8]) True) [0..<n] (0::nat)"
proof (induction n)
  case (Suc n)
  have "[0..<Suc n * 8] = [0..<n * 8] @ map (\<lambda>j. n * 8 + j) [0..<8]"
    by (rule nth_equalityI) (auto simp: nth_append)
  then show ?case using Suc by (simp add: comp_def)
qed simp

lemma bs_count_raw:
  "length (bs_data b) = bs_allocSize b \<Longrightarrow> bs_count b = count_list (map (bs_test b) [0..<bs_allocSize b * 8]) True"
  unfolding count_bytes bs_count_def popcount8_count
proof (rule fold_cong)
  fix k assume "k \<in> set [0..<bs_allocSize b]"
  have eq: "map (bit (bs_data b ! k)) [0..<8] = map (\<lambda>j. bs_test b (k * 8 + j)) [0..<8]"
    by (rule map_cong) (auto simp: bs_test_bit)
  show "(\<lambda>c. c + count_list (byte_bits (bs_data b ! k)) True) =
      (\<lambda>c. c + count_list (map (\<lambda>j. bs_test b (k * 8 + j)) [0..<8]) True)"
    unfolding byte_bits_def eq by (rule refl)
qed auto

lemma bs_count_bits: "bs_wf b \<Longrightarrow> bs_count b = count_list (bs_bits b) True"
proof -
  assume wf: "bs_wf b"
  have "{i. i < bs_allocSize b * 8 \<and> bs_test b i} = {i. i < bs_dataSize b \<and> bs_test b i}"
    using bs_padding[OF wf] bs_alloc_bounds(1)[OF wf] by (auto simp: not_less intro: ccontr)
  then show ?thesis
    using wf by (simp add: bs_count_raw bs_bits_def count_list_map_upt bs_wf_def)
qed

lemma bs_count_card: "bs_wf b \<Longrightarrow> bs_count b = card {i. i < bs_dataSize b \<and> bs_test b i}"
  by (simp add: bs_count_bits bs_bits_def count_list_map_upt)

section \<open>Operations on two bitsets\<close>

lemma bs_zip_ok:
  assumes "bs_wf b" "bs_wf c" "bs_dataSize b = bs_dataSize c"
    and f: "\<And>x y k. bit (f x y) k = g (bit x k) (bit y k)" and g: "\<not> g False False"
  shows "\<exists>d. bs_zip f b c = Inr d \<and> bs_wf d \<and> bs_dataSize d = bs_dataSize b \<and>
    (\<forall>i < bs_dataSize b. bs_test d i = g (bs_test b i) (bs_test c i))"
proof -
  let ?l = "fold (\<lambda>i d. d[i := f (d ! i) (bs_data c ! i)]) [0..<bs_allocSize b] (bs_data b)"
  let ?d = "b\<lparr>bs_data := ?l\<rparr>"
  have len: "length (bs_data b) = bs_allocSize b" "length (bs_data c) = bs_allocSize b"
    using assms(1-3) by (auto simp: bs_wf_def)
  note upd = fold_upt_update[where n="bs_allocSize b" and d="bs_data b" and g="\<lambda>i v. f v (bs_data c ! i)"]
  have l: "length ?l = bs_allocSize b" "\<And>k. k < bs_allocSize b \<Longrightarrow> ?l ! k = f (bs_data b ! k) (bs_data c ! k)"
    using upd len by auto
  have "bs_wf ?d"
  proof (rule bs_wf_intro_bytes[OF assms(1)])
    fix k j assume kj: "k < bs_allocSize b" "j < 8" "bit (bs_data ?d ! k) j"
    then have "bs_test b (k * 8 + j) \<or> bs_test c (k * 8 + j)"
      using l g by (auto simp: f bs_test_bit) (metis (full_types))
    moreover have "k * 8 + j < bs_allocSize b * 8" using kj by simp
    moreover have "bs_allocSize c = bs_allocSize b" using assms by (simp add: bs_wf_def)
    ultimately show "k * 8 + j < bs_dataSize b"
      using bs_padding[OF assms(1)] bs_padding[OF assms(2)] assms(3) by (metis linorder_not_le)
  qed (simp_all add: l len)
  moreover have "bs_test ?d i = g (bs_test b i) (bs_test c i)" if "i < bs_dataSize b" for i
    using that l(2) bs_alloc_bounds(4)[OF assms(1) that] by (simp add: bs_test_bit f)
  ultimately show ?thesis using assms(3) by (auto simp: bs_zip_def)
qed

lemma bs_zip_mismatch: "bs_dataSize b \<noteq> bs_dataSize c \<Longrightarrow> bs_zip f b c = Inl (Panic ''Size does not match'')"
  by (simp add: bs_zip_def)

lemmas bs_or_ok = bs_zip_ok[where f="\<lambda>x y. x OR y" and g="(\<or>)", folded bs_or_def, simplified bit_or_iff, simplified]
lemmas bs_and_ok = bs_zip_ok[where f="\<lambda>x y. x AND y" and g="(\<and>)", folded bs_and_def, simplified bit_and_iff, simplified]
lemmas bs_xor_ok = bs_zip_ok[where f="\<lambda>x y. x XOR y" and g="(\<noteq>)", folded bs_xor_def, simplified bit_xor_iff, simplified]

section \<open>Refinement to lists of bits\<close>

lemma bs_bits_length [simp]: "length (bs_bits b) = bs_dataSize b"
  by (simp add: bs_bits_def)

lemma bs_bits_nth [simp]: "i < bs_dataSize b \<Longrightarrow> bs_bits b ! i = bs_test b i"
  by (simp add: bs_bits_def)

lemma bs_bits_new: "bs_bits (bs_new n) = replicate n False"
  by (rule nth_equalityI) (auto simp: bs_new_test)

lemma bs_bits_set: "bs_wf b \<Longrightarrow> i < bs_dataSize b \<Longrightarrow> bs_bits (bs_set b i v) = (bs_bits b)[i := v]"
  by (rule nth_equalityI) (auto simp: nth_list_update)

lemma bs_bits_flip: "bs_wf b \<Longrightarrow> i < bs_dataSize b \<Longrightarrow> bs_bits (bs_flip b i) = (bs_bits b)[i := \<not> bs_bits b ! i]"
  by (rule nth_equalityI) (auto simp: nth_list_update)

lemma bs_bits_set_all: "bs_wf b \<Longrightarrow> bs_bits (bs_set_all b) = replicate (bs_dataSize b) True"
  by (rule nth_equalityI) auto

lemma bs_bits_reset_all: "bs_wf b \<Longrightarrow> bs_bits (bs_reset_all b) = replicate (bs_dataSize b) False"
  by (rule nth_equalityI) auto

lemma bs_bits_flip_all: "bs_wf b \<Longrightarrow> bs_bits (bs_flip_all b) = map Not (bs_bits b)"
  by (rule nth_equalityI) auto

lemma bs_bits_or:
  assumes "bs_wf b" "bs_wf c" "bs_dataSize b = bs_dataSize c"
  shows "\<exists>d. bs_or b c = Inr d \<and> bs_wf d \<and> bs_bits d = map2 (\<or>) (bs_bits b) (bs_bits c)"
proof -
  obtain d where "bs_or b c = Inr d" "bs_wf d" "bs_dataSize d = bs_dataSize b"
    "\<forall>i < bs_dataSize b. bs_test d i = (bs_test b i \<or> bs_test c i)"
    using bs_or_ok[OF assms] assms(3) by auto
  moreover from this have "bs_bits d = map2 (\<or>) (bs_bits b) (bs_bits c)"
    using assms(3) by (intro nth_equalityI) auto
  ultimately show ?thesis by blast
qed

lemma bs_wf_ext: "bs_wf b \<Longrightarrow> bs_wf c \<Longrightarrow> bs_bits b = bs_bits c \<Longrightarrow> bs_data b = bs_data c"
proof -
  assume wf: "bs_wf b" "bs_wf c" and eq: "bs_bits b = bs_bits c"
  have sz: "bs_dataSize b = bs_dataSize c" using eq by (metis bs_bits_length)
  have al: "bs_allocSize b = bs_allocSize c" using wf sz by (simp add: bs_wf_def)
  have t: "bs_test b i = bs_test c i" if "i < bs_allocSize b * 8" for i
  proof (cases "i < bs_dataSize b")
    case True then show ?thesis using eq sz by (metis bs_bits_nth)
  next
    case False then show ?thesis using that al sz bs_padding[OF wf(1)] bs_padding[OF wf(2)] by simp
  qed
  show ?thesis
  proof (rule nth_equalityI)
    show "length (bs_data b) = length (bs_data c)" using wf al by (simp add: bs_wf_def)
    fix k assume k: "k < length (bs_data b)"
    show "bs_data b ! k = bs_data c ! k"
      unfolding byte_eq_iff
    proof (intro allI impI)
      fix j :: nat assume "j < 8"
      then show "bit (bs_data b ! k) j = bit (bs_data c ! k) j"
        using t[of "k * 8 + j"] k wf by (simp add: bs_test_bit bs_wf_def)
    qed
  qed
qed

lemma bs_eq_iff:
  assumes "bs_wf b" "bs_wf c" "bs_dataSize b = bs_dataSize c"
  shows "bs_eq b c = Inr (bs_bits b = bs_bits c)"
proof -
  have len: "length (bs_data b) = bs_allocSize b" "length (bs_data c) = bs_allocSize b"
    using assms by (auto simp: bs_wf_def)
  have "list_all (\<lambda>i. bs_data b ! i = bs_data c ! i) [0..<bs_allocSize b] \<longleftrightarrow> bs_data b = bs_data c"
    using len by (auto simp: list_all_iff list_eq_iff_nth_eq)
  also have "\<dots> \<longleftrightarrow> bs_bits b = bs_bits c"
  proof
    assume "bs_data b = bs_data c"
    then show "bs_bits b = bs_bits c" using assms(3) by (intro nth_equalityI) (auto simp: bs_test_bit)
  qed (use assms bs_wf_ext in blast)
  finally show ?thesis using assms(3) by (simp add: bs_eq_def)
qed

end
