(* ===== verification/Blocks.thy ===== *)
theory Blocks
  imports Bits
begin

text \<open>
  \<open>ftl/common/block.cc\<close>: one physical (super)block of the FTL.  The class keeps its page state in one
  of two representations: two bitsets over the pages and one LPN per page when there is a single I/O
  unit per page, and per page two bitsets over the I/O units and an LPN row when there are several.
  The record has both, as the class has; a null pointer is the empty value.

  The observers \<open>blk_valid\<close>, \<open>blk_erased\<close>, \<open>blk_lpn\<close> and \<open>blk_next\<close> hide the representation.  The locale
  \<open>flash_block\<close> states the NAND contract over observers (program only erased slots in order, invalidate
  clears one slot, erase resets all) and derives what collections of blocks rely on; it is interpreted
  on the class.
\<close>

section \<open>The class\<close>

record block =
  b_idx :: nat
  b_pageCount :: nat
  b_ioUnitInPage :: nat
  b_pNextWritePageIndex :: "nat list"
  b_pValidBits :: bitset
  b_pErasedBits :: bitset
  b_pLPNs :: "nat list"
  b_validBits :: "bitset list"
  b_erasedBits :: "bitset list"
  b_ppLPNs :: "nat list list"
  b_lastAccessed :: nat
  b_eraseCount :: nat

definition blk_erase :: "block \<Rightarrow> block" where
  "blk_erase b =
     (let b1 = (if b_ioUnitInPage b = 1
                then b\<lparr>b_pValidBits := bs_reset_all (b_pValidBits b),
                       b_pErasedBits := bs_set_all (b_pErasedBits b)\<rparr>
                else b\<lparr>b_validBits := map bs_reset_all (b_validBits b),
                       b_erasedBits := map bs_set_all (b_erasedBits b)\<rparr>)
      in b1\<lparr>b_pNextWritePageIndex := replicate (b_ioUnitInPage b) 0,
            b_eraseCount := b_eraseCount b + 1\<rparr>)"

definition blk_new :: "nat \<Rightarrow> nat \<Rightarrow> nat \<Rightarrow> block res" where
  "blk_new blockIdx count ioUnit =
     (let b0 = \<lparr>b_idx = blockIdx, b_pageCount = count, b_ioUnitInPage = ioUnit,
                b_pNextWritePageIndex = [], b_pValidBits = bs_empty, b_pErasedBits = bs_empty,
                b_pLPNs = [], b_validBits = [], b_erasedBits = [], b_ppLPNs = [],
                b_lastAccessed = 0, b_eraseCount = 0\<rparr>
      in rbind
        (if ioUnit = 1 then
           Inr (b0\<lparr>b_pValidBits := bs_new count, b_pErasedBits := bs_new count,
                   b_pLPNs := replicate count 0\<rparr>)
         else if ioUnit > 1 then
           Inr (b0\<lparr>b_validBits := replicate count (bs_new ioUnit),
                   b_erasedBits := replicate count (bs_new ioUnit),
                   b_ppLPNs := replicate count (replicate ioUnit 0)\<rparr>)
         else Inl (Panic ''Invalid I/O unit in page''))
        (\<lambda>b1. let b2 = b1\<lparr>b_pNextWritePageIndex := replicate ioUnit 0\<rparr>
               in Inr ((blk_erase b2)\<lparr>b_eraseCount := 0\<rparr>)))"

text \<open>The copy constructor builds a fresh block and copies every member except \<open>lastAccessed\<close>.\<close>

definition blk_copy :: "block \<Rightarrow> block res" where
  "blk_copy old =
     rbind (blk_new (b_idx old) (b_pageCount old) (b_ioUnitInPage old))
       (\<lambda>b. let b1 = (if b_ioUnitInPage b = 1
                       then b\<lparr>b_pValidBits := b_pValidBits old, b_pErasedBits := b_pErasedBits old,
                              b_pLPNs := b_pLPNs old\<rparr>
                       else b\<lparr>b_validBits := b_validBits old, b_erasedBits := b_erasedBits old,
                              b_ppLPNs := b_ppLPNs old\<rparr>)
             in Inr (b1\<lparr>b_pNextWritePageIndex := b_pNextWritePageIndex old,
                        b_eraseCount := b_eraseCount old\<rparr>))"

definition blk_getBlockIndex :: "block \<Rightarrow> nat" where
  "blk_getBlockIndex b = b_idx b"

definition blk_getLastAccessedTime :: "block \<Rightarrow> nat" where
  "blk_getLastAccessedTime b = b_lastAccessed b"

definition blk_getEraseCount :: "block \<Rightarrow> nat" where
  "blk_getEraseCount b = b_eraseCount b"

definition blk_getValidPageCount :: "block \<Rightarrow> nat" where
  "blk_getValidPageCount b =
     (if b_ioUnitInPage b = 1 then bs_count (b_pValidBits b)
      else fold (\<lambda>iter ret. if bs_any iter then ret + 1 else ret) (b_validBits b) 0)"

definition blk_getValidPageCountRaw :: "block \<Rightarrow> nat" where
  "blk_getValidPageCountRaw b =
     (if b_ioUnitInPage b = 1 then bs_count (b_pValidBits b)
      else fold (\<lambda>iter ret. ret + bs_count iter) (b_validBits b) 0)"

definition blk_getDirtyPageCount :: "block \<Rightarrow> nat res" where
  "blk_getDirtyPageCount b =
     (if b_ioUnitInPage b = 1 then
        rbind (bs_or (b_pValidBits b) (b_pErasedBits b)) (\<lambda>u. Inr (bs_count (bs_not u)))
      else
        rfold (\<lambda>i ret. rbind (vec_at (b_validBits b) i) (\<lambda>v.
                        rbind (vec_at (b_erasedBits b) i) (\<lambda>e.
                        rbind (bs_or v e) (\<lambda>u.
                        Inr (if bs_any (bs_not u) then ret + 1 else ret)))))
              [0..<b_pageCount b] 0)"

definition blk_getNextWritePageIndexMax :: "block \<Rightarrow> nat" where
  "blk_getNextWritePageIndexMax b =
     fold (\<lambda>i idx. if idx < b_pNextWritePageIndex b ! i then b_pNextWritePageIndex b ! i else idx)
       [0..<b_ioUnitInPage b] 0"

definition blk_getNextWritePageIndex :: "block \<Rightarrow> nat \<Rightarrow> nat" where
  "blk_getNextWritePageIndex b idx = b_pNextWritePageIndex b ! idx"

text \<open>
  \<open>getPageInfo\<close> fills the caller's LPN vector and I/O map; the result has both and the returned flag.
  With one I/O unit per page the map is set without looking at the valid bit.
\<close>

definition blk_getPageInfo :: "block \<Rightarrow> nat \<Rightarrow> bitset \<Rightarrow> (bool \<times> nat list \<times> bitset) res" where
  "blk_getPageInfo b pageIndex iomap =
     (if b_ioUnitInPage b = 1 \<and> bs_size iomap = 1 then
        (if pageIndex < length (b_pLPNs b)
         then (let m = bs_set_all iomap in Inr (bs_any m, [b_pLPNs b ! pageIndex], m))
         else Inl (Undefined ''pLPNs''))
      else if bs_size iomap = b_ioUnitInPage b then
        rbind (vec_at (b_validBits b) pageIndex) (\<lambda>m. Inr (bs_any m, b_ppLPNs b ! pageIndex, m))
      else Inl (Panic ''I/O map size mismatch''))"

definition blk_read :: "block \<Rightarrow> nat \<Rightarrow> nat \<Rightarrow> nat \<Rightarrow> (bool \<times> block) res" where
  "blk_read b pageIndex idx tick =
     rbind
       (if b_ioUnitInPage b = 1 \<and> idx = 0 then
          (if pageIndex < b_pageCount b then Inr (bs_test (b_pValidBits b) pageIndex)
           else Inl (Undefined ''pValidBits''))
        else if idx < b_ioUnitInPage b then
          rbind (vec_at (b_validBits b) pageIndex) (\<lambda>v. Inr (bs_test v idx))
        else Inl (Panic ''I/O map size mismatch''))
       (\<lambda>r. Inr (r, if r then b\<lparr>b_lastAccessed := tick\<rparr> else b))"

text \<open>The statements \<open>write\<close> executes once the slot is known to be erased and in order.\<close>

definition blk_program :: "block \<Rightarrow> nat \<Rightarrow> nat \<Rightarrow> nat \<Rightarrow> nat \<Rightarrow> block" where
  "blk_program b pageIndex lpn idx tick =
     (let b1 = b\<lparr>b_lastAccessed := tick\<rparr>;
          b2 = (if b_ioUnitInPage b1 = 1
                then b1\<lparr>b_pErasedBits := bs_reset (b_pErasedBits b1) pageIndex,
                        b_pValidBits := bs_set (b_pValidBits b1) pageIndex True,
                        b_pLPNs := (b_pLPNs b1)[pageIndex := lpn]\<rparr>
                else b1\<lparr>b_erasedBits := (b_erasedBits b1)[pageIndex := bs_reset (b_erasedBits b1 ! pageIndex) idx],
                        b_validBits := (b_validBits b1)[pageIndex := bs_set (b_validBits b1 ! pageIndex) idx True],
                        b_ppLPNs := (b_ppLPNs b1)[pageIndex := (b_ppLPNs b1 ! pageIndex)[idx := lpn]]\<rparr>)
      in b2\<lparr>b_pNextWritePageIndex := (b_pNextWritePageIndex b2)[idx := pageIndex + 1]\<rparr>)"

definition blk_write :: "block \<Rightarrow> nat \<Rightarrow> nat \<Rightarrow> nat \<Rightarrow> nat \<Rightarrow> (bool \<times> block) res" where
  "blk_write b pageIndex lpn idx tick =
     rbind
       (if b_ioUnitInPage b = 1 \<and> idx = 0 then
          (if pageIndex < b_pageCount b then Inr (bs_test (b_pErasedBits b) pageIndex)
           else Inl (Undefined ''pErasedBits''))
        else if idx < b_ioUnitInPage b then
          rbind (vec_at (b_erasedBits b) pageIndex) (\<lambda>e. Inr (bs_test e idx))
        else Inl (Panic ''I/O map size mismatch''))
       (\<lambda>w. if w then
          (if pageIndex < b_pNextWritePageIndex b ! idx
           then Inl (Panic ''Write to block should sequential'')
           else Inr (True, blk_program b pageIndex lpn idx tick))
        else Inl (Panic ''Write to non erased page''))"

definition blk_clear :: "block \<Rightarrow> nat \<Rightarrow> nat \<Rightarrow> block" where
  "blk_clear b pageIndex idx =
     (if b_ioUnitInPage b = 1 then b\<lparr>b_pValidBits := bs_reset (b_pValidBits b) pageIndex\<rparr>
      else b\<lparr>b_validBits := (b_validBits b)[pageIndex := bs_reset (b_validBits b ! pageIndex) idx]\<rparr>)"

definition blk_invalidate :: "block \<Rightarrow> nat \<Rightarrow> nat \<Rightarrow> block res" where
  "blk_invalidate b pageIndex idx =
     (if b_ioUnitInPage b = 1 then
        (if pageIndex < b_pageCount b then Inr (blk_clear b pageIndex idx)
         else Inl (Undefined ''pValidBits''))
      else rbind (vec_at (b_validBits b) pageIndex) (\<lambda>v.
        if idx < b_ioUnitInPage b then Inr (blk_clear b pageIndex idx)
        else Inl (Undefined ''validBits'')))"

section \<open>Observers and well-formedness\<close>

definition blk_valid :: "block \<Rightarrow> nat \<Rightarrow> nat \<Rightarrow> bool" where
  "blk_valid b p i = (if b_ioUnitInPage b = 1 then bs_test (b_pValidBits b) p
                      else bs_test (b_validBits b ! p) i)"

definition blk_erased :: "block \<Rightarrow> nat \<Rightarrow> nat \<Rightarrow> bool" where
  "blk_erased b p i = (if b_ioUnitInPage b = 1 then bs_test (b_pErasedBits b) p
                       else bs_test (b_erasedBits b ! p) i)"

definition blk_lpn :: "block \<Rightarrow> nat \<Rightarrow> nat \<Rightarrow> nat" where
  "blk_lpn b p i = (if b_ioUnitInPage b = 1 then b_pLPNs b ! p else b_ppLPNs b ! p ! i)"

definition blk_next :: "block \<Rightarrow> nat \<Rightarrow> nat" where
  "blk_next b i = b_pNextWritePageIndex b ! i"

text \<open>The representation invariant.\<close>

definition blk_rep :: "block \<Rightarrow> bool" where
  "blk_rep b \<longleftrightarrow>
     0 < b_ioUnitInPage b \<and> 0 < b_pageCount b \<and> length (b_pNextWritePageIndex b) = b_ioUnitInPage b \<and>
     (if b_ioUnitInPage b = 1 then
        bs_wf (b_pValidBits b) \<and> bs_dataSize (b_pValidBits b) = b_pageCount b \<and>
        bs_wf (b_pErasedBits b) \<and> bs_dataSize (b_pErasedBits b) = b_pageCount b \<and>
        length (b_pLPNs b) = b_pageCount b
      else
        length (b_validBits b) = b_pageCount b \<and> length (b_erasedBits b) = b_pageCount b \<and>
        length (b_ppLPNs b) = b_pageCount b \<and>
        (\<forall>p < b_pageCount b. bs_wf (b_validBits b ! p) \<and> bs_dataSize (b_validBits b ! p) = b_ioUnitInPage b \<and>
           bs_wf (b_erasedBits b ! p) \<and> bs_dataSize (b_erasedBits b ! p) = b_ioUnitInPage b \<and>
           length (b_ppLPNs b ! p) = b_ioUnitInPage b))"

text \<open>
  The NAND discipline: no slot is both valid and erased, every slot at or above an I/O unit's write
  pointer is erased, and the pointer stays within the block.
\<close>

definition blk_inv :: "block \<Rightarrow> bool" where
  "blk_inv b \<longleftrightarrow> blk_rep b \<and>
     (\<forall>p < b_pageCount b. \<forall>i < b_ioUnitInPage b.
        \<not> (blk_valid b p i \<and> blk_erased b p i) \<and> (blk_next b i \<le> p \<longrightarrow> blk_erased b p i)) \<and>
     (\<forall>i < b_ioUnitInPage b. blk_next b i \<le> b_pageCount b)"


lemmas blk_obs = blk_valid_def blk_erased_def blk_lpn_def blk_next_def

lemma blk_inv_rep: "blk_inv b \<Longrightarrow> blk_rep b"
  by (simp add: blk_inv_def)

text \<open>The page counters and the read time are not part of what the observers see.\<close>

lemma blk_obs_frame [simp]:
  "blk_valid (b\<lparr>b_lastAccessed := t\<rparr>) = blk_valid b" "blk_erased (b\<lparr>b_lastAccessed := t\<rparr>) = blk_erased b"
  "blk_lpn (b\<lparr>b_lastAccessed := t\<rparr>) = blk_lpn b" "blk_next (b\<lparr>b_lastAccessed := t\<rparr>) = blk_next b"
  "blk_valid (b\<lparr>b_eraseCount := n\<rparr>) = blk_valid b" "blk_erased (b\<lparr>b_eraseCount := n\<rparr>) = blk_erased b"
  "blk_lpn (b\<lparr>b_eraseCount := n\<rparr>) = blk_lpn b" "blk_next (b\<lparr>b_eraseCount := n\<rparr>) = blk_next b"
  "blk_rep (b\<lparr>b_lastAccessed := t\<rparr>) = blk_rep b" "blk_rep (b\<lparr>b_eraseCount := n\<rparr>) = blk_rep b"
  by (auto simp: blk_obs blk_rep_def fun_eq_iff)

lemma blk_inv_frame [simp]:
  "blk_inv (b\<lparr>b_lastAccessed := t\<rparr>) = blk_inv b" "blk_inv (b\<lparr>b_eraseCount := n\<rparr>) = blk_inv b"
  by (auto simp: blk_inv_def)

section \<open>Reading\<close>

lemma blk_read_ok:
  assumes "blk_rep b" "p < b_pageCount b" "i < b_ioUnitInPage b"
  shows "blk_read b p i t = Inr (blk_valid b p i, if blk_valid b p i then b\<lparr>b_lastAccessed := t\<rparr> else b)"
  using assms by (cases "b_ioUnitInPage b = 1") (auto simp: blk_read_def blk_rep_def blk_valid_def)

lemma blk_read_bad_unit: "b_ioUnitInPage b \<le> i \<Longrightarrow> blk_read b p i t = Inl (Panic ''I/O map size mismatch'')"
  by (auto simp: blk_read_def)

section \<open>Programming\<close>

lemma blk_program_dims [simp]:
  "b_idx (blk_program b p l i t) = b_idx b" "b_pageCount (blk_program b p l i t) = b_pageCount b"
  "b_ioUnitInPage (blk_program b p l i t) = b_ioUnitInPage b"
  "b_eraseCount (blk_program b p l i t) = b_eraseCount b" "b_lastAccessed (blk_program b p l i t) = t"
  by (simp_all add: blk_program_def Let_def)

lemma blk_program_rep [simp]:
  assumes "blk_rep b" "p < b_pageCount b" "i < b_ioUnitInPage b"
  shows "blk_rep (blk_program b p l i t)"
  using assms by (cases "b_ioUnitInPage b = 1") (auto simp: blk_program_def blk_rep_def Let_def nth_list_update)

lemma blk_program_obs:
  assumes "blk_rep b" "p < b_pageCount b" "i < b_ioUnitInPage b" "q < b_pageCount b" "j < b_ioUnitInPage b"
  shows "blk_valid (blk_program b p l i t) q j = (blk_valid b q j \<or> q = p \<and> j = i)"
    and "blk_erased (blk_program b p l i t) q j = (blk_erased b q j \<and> \<not> (q = p \<and> j = i))"
    and "blk_lpn (blk_program b p l i t) q j = (if q = p \<and> j = i then l else blk_lpn b q j)"
    and "blk_next (blk_program b p l i t) j = (if j = i then Suc p else blk_next b j)"
  using assms
  by (cases "b_ioUnitInPage b = 1"; auto simp: blk_program_def blk_rep_def blk_obs Let_def nth_list_update)+

lemma blk_program_next:
  assumes "blk_rep b" "i < b_ioUnitInPage b"
  shows "blk_next (blk_program b p l i t) j = (if j = i then Suc p else blk_next b j)"
  using assms by (auto simp: blk_program_def blk_rep_def blk_next_def Let_def nth_list_update)

lemma blk_write_eq:
  assumes "blk_rep b" "p < b_pageCount b" "i < b_ioUnitInPage b"
  shows "blk_write b p l i t =
    (if \<not> blk_erased b p i then Inl (Panic ''Write to non erased page'')
     else if p < blk_next b i then Inl (Panic ''Write to block should sequential'')
     else Inr (True, blk_program b p l i t))"
  using assms by (cases "b_ioUnitInPage b = 1") (auto simp: blk_write_def blk_rep_def blk_obs)

lemma blk_write_bad_unit: "b_ioUnitInPage b \<le> i \<Longrightarrow> blk_write b p l i t = Inl (Panic ''I/O map size mismatch'')"
  by (auto simp: blk_write_def)

lemma blk_program_inv:
  assumes "blk_inv b" "p < b_pageCount b" "i < b_ioUnitInPage b" "blk_next b i \<le> p"
  shows "blk_inv (blk_program b p l i t)"
  using assms by (auto simp: blk_inv_def blk_program_obs)

section \<open>Invalidating\<close>

lemma blk_clear_dims [simp]:
  "b_idx (blk_clear b p i) = b_idx b" "b_pageCount (blk_clear b p i) = b_pageCount b"
  "b_ioUnitInPage (blk_clear b p i) = b_ioUnitInPage b" "b_eraseCount (blk_clear b p i) = b_eraseCount b"
  "b_lastAccessed (blk_clear b p i) = b_lastAccessed b"
  "blk_erased (blk_clear b p i) = blk_erased b" "blk_lpn (blk_clear b p i) = blk_lpn b"
  "blk_next (blk_clear b p i) = blk_next b"
  by (auto simp: blk_clear_def blk_obs fun_eq_iff)

lemma blk_clear_rep [simp]:
  assumes "blk_rep b" "p < b_pageCount b" "i < b_ioUnitInPage b"
  shows "blk_rep (blk_clear b p i)"
  using assms by (cases "b_ioUnitInPage b = 1") (auto simp: blk_clear_def blk_rep_def nth_list_update)

lemma blk_clear_valid:
  assumes "blk_rep b" "p < b_pageCount b" "i < b_ioUnitInPage b" "q < b_pageCount b" "j < b_ioUnitInPage b"
  shows "blk_valid (blk_clear b p i) q j = (blk_valid b q j \<and> \<not> (q = p \<and> j = i))"
  using assms by (cases "b_ioUnitInPage b = 1") (auto simp: blk_clear_def blk_rep_def blk_obs nth_list_update)

lemma blk_invalidate_eq:
  assumes "blk_rep b" "p < b_pageCount b" "i < b_ioUnitInPage b"
  shows "blk_invalidate b p i = Inr (blk_clear b p i)"
  using assms by (cases "b_ioUnitInPage b = 1") (auto simp: blk_invalidate_def blk_rep_def)

lemma blk_clear_inv:
  assumes "blk_inv b" "p < b_pageCount b" "i < b_ioUnitInPage b"
  shows "blk_inv (blk_clear b p i)"
  using assms by (auto simp: blk_inv_def blk_clear_valid)

section \<open>Erasing and construction\<close>

lemma blk_erase_obs [simp]:
  "b_idx (blk_erase b) = b_idx b" "b_pageCount (blk_erase b) = b_pageCount b"
  "b_ioUnitInPage (blk_erase b) = b_ioUnitInPage b" "b_eraseCount (blk_erase b) = Suc (b_eraseCount b)"
  "b_lastAccessed (blk_erase b) = b_lastAccessed b"
  by (simp_all add: blk_erase_def Let_def)

lemma blk_erase_ok:
  assumes "blk_rep b"
  shows "blk_rep (blk_erase b)"
    and "p < b_pageCount b \<Longrightarrow> i < b_ioUnitInPage b \<Longrightarrow> \<not> blk_valid (blk_erase b) p i"
    and "p < b_pageCount b \<Longrightarrow> i < b_ioUnitInPage b \<Longrightarrow> blk_erased (blk_erase b) p i"
    and "i < b_ioUnitInPage b \<Longrightarrow> blk_next (blk_erase b) i = 0"
    and "blk_inv (blk_erase b)"
proof -
  show 1: "blk_rep (blk_erase b)"
    using assms by (auto simp: blk_erase_def blk_rep_def Let_def)
  show 2: "\<not> blk_valid (blk_erase b) p i" if "p < b_pageCount b" "i < b_ioUnitInPage b" for p i
    using that assms by (auto simp: blk_erase_def blk_rep_def Let_def blk_obs)
  show 3: "blk_erased (blk_erase b) p i" if "p < b_pageCount b" "i < b_ioUnitInPage b" for p i
    using that assms by (auto simp: blk_erase_def blk_rep_def Let_def blk_obs)
  show 4: "blk_next (blk_erase b) i = 0" if "i < b_ioUnitInPage b" for i
    using that assms by (auto simp: blk_erase_def blk_rep_def Let_def blk_obs)
  show "blk_inv (blk_erase b)" using 1 2 3 4 by (auto simp: blk_inv_def)
qed

lemma blk_new_ok:
  assumes "0 < n" "0 < io"
  obtains b where "blk_new k n io = Inr b" "blk_inv b" "b_idx b = k" "b_pageCount b = n"
    "b_ioUnitInPage b = io" "b_eraseCount b = 0" "b_lastAccessed b = 0"
    "\<And>p i. p < n \<Longrightarrow> i < io \<Longrightarrow> \<not> blk_valid b p i" "\<And>p i. p < n \<Longrightarrow> i < io \<Longrightarrow> blk_erased b p i"
    "\<And>i. i < io \<Longrightarrow> blk_next b i = 0"
proof -
  define b0 where "b0 = \<lparr>b_idx = k, b_pageCount = n, b_ioUnitInPage = io,
     b_pNextWritePageIndex = replicate io 0,
     b_pValidBits = (if io = 1 then bs_new n else bs_empty),
     b_pErasedBits = (if io = 1 then bs_new n else bs_empty),
     b_pLPNs = (if io = 1 then replicate n 0 else []),
     b_validBits = (if io = 1 then [] else replicate n (bs_new io)),
     b_erasedBits = (if io = 1 then [] else replicate n (bs_new io)),
     b_ppLPNs = (if io = 1 then [] else replicate n (replicate io 0)),
     b_lastAccessed = 0, b_eraseCount = 0\<rparr>"
  have rep: "blk_rep b0"
    using assms by (auto simp: blk_rep_def b0_def bs_new_wf)
  have new: "blk_new k n io = Inr ((blk_erase b0)\<lparr>b_eraseCount := 0\<rparr>)"
    using assms by (auto simp: blk_new_def b0_def Let_def)
  have dims: "b_pageCount b0 = n" "b_ioUnitInPage b0 = io" "b_idx b0 = k" "b_lastAccessed b0 = 0"
    by (auto simp: b0_def)
  show ?thesis
    by (rule that[OF new]) (auto simp: dims blk_erase_ok[OF rep] blk_erase_ok(2-4)[OF rep, unfolded dims])
qed

lemma blk_new_no_unit: "blk_new k n 0 = Inl (Panic ''Invalid I/O unit in page'')"
  by (simp add: blk_new_def Let_def)


section \<open>Counters\<close>

lemma fold_count_if: "fold (\<lambda>x n. if P x then n + 1 else n) xs (k::nat) = k + length (filter P xs)"
  by (induction xs arbitrary: k) auto

lemma length_filter_nth_card: "length (filter P xs) = card {p. p < length xs \<and> P (xs ! p)}"
  by (simp add: length_filter_conv_card)

lemma blk_getValidPageCount_card:
  assumes "blk_rep b"
  shows "blk_getValidPageCount b =
    card {p. p < b_pageCount b \<and> (\<exists>i < b_ioUnitInPage b. blk_valid b p i)}"
proof (cases "b_ioUnitInPage b = 1")
  case True
  then show ?thesis
    using assms by (simp add: blk_getValidPageCount_def blk_valid_def blk_rep_def bs_count_card)
next
  case False
  have "{p. p < length (b_validBits b) \<and> bs_any (b_validBits b ! p)} =
        {p. p < b_pageCount b \<and> (\<exists>i < b_ioUnitInPage b. blk_valid b p i)}"
    using False assms by (auto simp: blk_rep_def blk_valid_def bs_any_iff)
  then show ?thesis
    using False by (simp add: blk_getValidPageCount_def fold_count_if length_filter_nth_card)
qed

lemma blk_getValidPageCount_0:
  "blk_rep b \<Longrightarrow> blk_getValidPageCount b = 0 \<longleftrightarrow>
     (\<forall>p < b_pageCount b. \<forall>i < b_ioUnitInPage b. \<not> blk_valid b p i)"
  by (auto simp: blk_getValidPageCount_card)

lemma fold_sum_upt: "fold (\<lambda>x n. n + f x) xs (k::nat) = k + sum_list (map f xs)"
  by (induction xs arbitrary: k) auto

lemma blk_getValidPageCountRaw_sum:
  assumes "blk_rep b"
  shows "blk_getValidPageCountRaw b =
    (\<Sum>p < b_pageCount b. card {i. i < b_ioUnitInPage b \<and> blk_valid b p i})"
proof (cases "b_ioUnitInPage b = 1")
  case True
  have "card {i. i < b_ioUnitInPage b \<and> blk_valid b p i} = (if bs_test (b_pValidBits b) p then 1 else 0)" for p
    using True by (auto simp: blk_valid_def)
  moreover have "(\<Sum>p < n. if P p then 1 else 0) = card {p. p < n \<and> P p}" for n :: nat and P
    unfolding count_list_map_upt[symmetric] by (induction n) auto
  ultimately show ?thesis
    using True assms by (simp add: blk_getValidPageCountRaw_def blk_rep_def bs_count_card)
next
  case False
  have len: "length (b_validBits b) = b_pageCount b" using False assms by (simp add: blk_rep_def)
  have "sum_list (map bs_count (b_validBits b)) = (\<Sum>p < b_pageCount b. bs_count (b_validBits b ! p))"
    using len by (simp add: sum_list_sum_nth atLeast0LessThan)
  also have "\<dots> = (\<Sum>p < b_pageCount b. card {i. i < b_ioUnitInPage b \<and> blk_valid b p i})"
    using False assms by (intro sum.cong) (auto simp: blk_rep_def blk_valid_def bs_count_card)
  finally show ?thesis using False by (simp add: blk_getValidPageCountRaw_def fold_sum_upt)
qed

lemma fold_max_upt:
  "fold (\<lambda>i idx. if idx < f i then f i else idx) [0..<n] (0::nat) = m \<Longrightarrow>
     (\<forall>i < n. f i \<le> m) \<and> (m = 0 \<or> (\<exists>i < n. f i = m))"
proof (induction n arbitrary: m)
  case (Suc n)
  then show ?case by (auto simp: less_Suc_eq split: if_splits)
qed simp

lemma blk_next_max:
  assumes "i < b_ioUnitInPage b"
  shows "blk_next b i \<le> blk_getNextWritePageIndexMax b"
  using fold_max_upt[of "\<lambda>i. b_pNextWritePageIndex b ! i" "b_ioUnitInPage b", OF refl] assms
  by (auto simp: blk_getNextWritePageIndexMax_def blk_next_def)

lemma blk_next_max_attained:
  assumes "0 < blk_getNextWritePageIndexMax b"
  shows "\<exists>i < b_ioUnitInPage b. blk_next b i = blk_getNextWritePageIndexMax b"
  using fold_max_upt[of "\<lambda>i. b_pNextWritePageIndex b ! i" "b_ioUnitInPage b", OF refl] assms
  by (auto simp: blk_getNextWritePageIndexMax_def blk_next_def)

lemma blk_next_max_le: "blk_inv b \<Longrightarrow> blk_getNextWritePageIndexMax b \<le> b_pageCount b"
  using blk_next_max_attained[of b] by (cases "blk_getNextWritePageIndexMax b") (auto simp: blk_inv_def)

lemma blk_getPageInfo_ok:
  assumes "blk_rep b" "p < b_pageCount b" "1 < b_ioUnitInPage b" "bs_dataSize m = b_ioUnitInPage b"
  obtains v where "blk_getPageInfo b p m = Inr ((\<exists>i < b_ioUnitInPage b. blk_valid b p i), b_ppLPNs b ! p, v)"
    "bs_wf v" "bs_dataSize v = b_ioUnitInPage b" "bs_test v = blk_valid b p"
    "length (b_ppLPNs b ! p) = b_ioUnitInPage b" "(!) (b_ppLPNs b ! p) = blk_lpn b p"
proof -
  let ?v = "b_validBits b ! p"
  have rep: "length (b_validBits b) = b_pageCount b" "bs_wf ?v" "bs_dataSize ?v = b_ioUnitInPage b"
    "length (b_ppLPNs b ! p) = b_ioUnitInPage b"
    using assms by (auto simp: blk_rep_def)
  have val: "bs_test ?v = blk_valid b p" using assms(3) by (simp add: blk_valid_def fun_eq_iff)
  have "bs_any ?v = (\<exists>i < b_ioUnitInPage b. blk_valid b p i)"
    using bs_any_iff[OF rep(2)] rep(3) val by simp
  then have "blk_getPageInfo b p m = Inr ((\<exists>i < b_ioUnitInPage b. blk_valid b p i), b_ppLPNs b ! p, ?v)"
    using assms rep by (simp add: blk_getPageInfo_def bs_size_def)
  moreover have "(!) (b_ppLPNs b ! p) = blk_lpn b p" using assms(3) by (simp add: blk_lpn_def fun_eq_iff)
  ultimately show ?thesis using that rep val by blast
qed

lemma blk_getDirtyPageCount_card:
  assumes "blk_rep b"
  shows "blk_getDirtyPageCount b = Inr (card {p. p < b_pageCount b \<and>
    (\<exists>i < b_ioUnitInPage b. \<not> blk_valid b p i \<and> \<not> blk_erased b p i)})"
proof (cases "b_ioUnitInPage b = 1")
  case True
  obtain u where u: "bs_or (b_pValidBits b) (b_pErasedBits b) = Inr u" "bs_wf u" "bs_dataSize u = b_pageCount b"
    "\<forall>p < b_pageCount b. bs_test u p = (bs_test (b_pValidBits b) p \<or> bs_test (b_pErasedBits b) p)"
  proof -
    have wf: "bs_wf (b_pValidBits b)" "bs_wf (b_pErasedBits b)"
      "bs_dataSize (b_pValidBits b) = b_pageCount b" "bs_dataSize (b_pErasedBits b) = b_pageCount b"
      using True assms by (auto simp: blk_rep_def)
    show ?thesis using bs_or_ok[OF wf(1,2)] wf(3,4) that by (metis (no_types))
  qed
  have "bs_count (bs_not u) = card {p. p < b_pageCount b \<and> \<not> bs_test u p}"
    using u(2,3) by (simp add: bs_not_def bs_count_card) (metis (no_types, lifting) bs_test_flip_all)
  also have "{p. p < b_pageCount b \<and> \<not> bs_test u p} = {p. p < b_pageCount b \<and>
    (\<exists>i < b_ioUnitInPage b. \<not> blk_valid b p i \<and> \<not> blk_erased b p i)}"
    using u(4) True by (auto simp: blk_valid_def blk_erased_def)
  finally show ?thesis using True u(1) by (simp add: blk_getDirtyPageCount_def)
next
  case False
  let ?D = "\<lambda>p. \<exists>i < b_ioUnitInPage b. \<not> blk_valid b p i \<and> \<not> blk_erased b p i"
  let ?f = "\<lambda>i ret. rbind (vec_at (b_validBits b) i) (\<lambda>v. rbind (vec_at (b_erasedBits b) i) (\<lambda>e.
     rbind (bs_or v e) (\<lambda>u. Inr (if bs_any (bs_not u) then ret + 1 else ret))))"
  have step: "?f p ret = Inr (if ?D p then ret + 1 else ret)" if p: "p < b_pageCount b" for p ret
  proof -
    obtain u where "bs_or (b_validBits b ! p) (b_erasedBits b ! p) = Inr u" "bs_wf u"
      "bs_dataSize u = b_ioUnitInPage b"
      "\<forall>i < b_ioUnitInPage b. bs_test u i = (bs_test (b_validBits b ! p) i \<or> bs_test (b_erasedBits b ! p) i)"
    proof -
      have wf: "bs_wf (b_validBits b ! p)" "bs_wf (b_erasedBits b ! p)"
        "bs_dataSize (b_validBits b ! p) = b_ioUnitInPage b" "bs_dataSize (b_erasedBits b ! p) = b_ioUnitInPage b"
        using p False assms by (auto simp: blk_rep_def)
      show ?thesis using bs_or_ok[OF wf(1,2)] wf(3,4) that by (metis (no_types))
    qed
    then show ?thesis
      using p False assms by (auto simp: blk_rep_def bs_not_def bs_any_iff blk_valid_def blk_erased_def)
  qed
  have "rfold ?f [0..<n] k = Inr (k + length (filter ?D [0..<n]))" if "n \<le> b_pageCount b" for n k
    using that by (induction n) (auto simp: rfold_append step)
  moreover have "length (filter ?D [0..<b_pageCount b]) = card {p. p < b_pageCount b \<and> ?D p}"
    by (simp add: length_filter_nth_card cong: conj_cong)
  ultimately show ?thesis using False by (simp add: blk_getDirtyPageCount_def)
qed

section \<open>The flash-block contract\<close>

text \<open>
  \<open>phys_of\<close> is the physical half of a flash translation layer: which logical page each (block, page,
  unit) slot of a collection of blocks holds a valid copy of.
\<close>

definition phys_of ::
  "('b \<Rightarrow> nat) \<Rightarrow> ('b \<Rightarrow> nat) \<Rightarrow> ('b \<Rightarrow> nat \<Rightarrow> nat \<Rightarrow> bool) \<Rightarrow> ('b \<Rightarrow> nat \<Rightarrow> nat \<Rightarrow> nat) \<Rightarrow>
   (nat \<rightharpoonup> 'b) \<Rightarrow> nat \<times> nat \<times> nat \<Rightarrow> nat option" where
  "phys_of pages units valid own m = (\<lambda>(k, p, i).
     case m k of None \<Rightarrow> None
     | Some b \<Rightarrow> if p < pages b \<and> i < units b \<and> valid b p i then Some (own b p i) else None)"

locale flash_block =
  fixes inv :: "'b \<Rightarrow> bool" and pages units :: "'b \<Rightarrow> nat"
    and valid erased :: "'b \<Rightarrow> nat \<Rightarrow> nat \<Rightarrow> bool"
    and own :: "'b \<Rightarrow> nat \<Rightarrow> nat \<Rightarrow> nat" and ptr :: "'b \<Rightarrow> nat \<Rightarrow> nat"
    and program :: "'b \<Rightarrow> nat \<Rightarrow> nat \<Rightarrow> nat \<Rightarrow> nat \<Rightarrow> 'b"
    and clear :: "'b \<Rightarrow> nat \<Rightarrow> nat \<Rightarrow> 'b" and wipe :: "'b \<Rightarrow> 'b"
  assumes dims: "pages (program b p l i t) = pages b" "units (program b p l i t) = units b"
      "pages (clear b p i) = pages b" "units (clear b p i) = units b"
      "pages (wipe b) = pages b" "units (wipe b) = units b"
    and inv_program: "\<lbrakk>inv b; p < pages b; i < units b; ptr b i \<le> p\<rbrakk> \<Longrightarrow> inv (program b p l i t)"
    and inv_clear: "\<lbrakk>inv b; p < pages b; i < units b\<rbrakk> \<Longrightarrow> inv (clear b p i)"
    and inv_wipe: "inv b \<Longrightarrow> inv (wipe b)"
    and frontier: "\<lbrakk>inv b; p < pages b; i < units b; ptr b i \<le> p\<rbrakk> \<Longrightarrow> erased b p i \<and> \<not> valid b p i"
    and valid_program: "\<lbrakk>inv b; p < pages b; i < units b; q < pages b; j < units b\<rbrakk> \<Longrightarrow>
      valid (program b p l i t) q j = (valid b q j \<or> q = p \<and> j = i)"
    and own_program: "\<lbrakk>inv b; p < pages b; i < units b; q < pages b; j < units b\<rbrakk> \<Longrightarrow>
      own (program b p l i t) q j = (if q = p \<and> j = i then l else own b q j)"
    and valid_clear: "\<lbrakk>inv b; p < pages b; i < units b; q < pages b; j < units b\<rbrakk> \<Longrightarrow>
      valid (clear b p i) q j = (valid b q j \<and> \<not> (q = p \<and> j = i))"
    and own_clear: "own (clear b p i) = own b"
    and valid_wipe: "\<lbrakk>inv b; p < pages b; i < units b\<rbrakk> \<Longrightarrow> \<not> valid (wipe b) p i"
    and ptr_wipe: "\<lbrakk>inv b; i < units b\<rbrakk> \<Longrightarrow> ptr (wipe b) i = 0"
begin

lemma phys_program:
  assumes "m k = Some b" "inv b" "p < pages b" "i < units b"
  shows "phys_of pages units valid own (m(k \<mapsto> program b p l i t)) =
    (phys_of pages units valid own m)((k, p, i) \<mapsto> l)"
  using assms by (auto simp: phys_of_def fun_eq_iff dims valid_program own_program)

lemma phys_clear:
  assumes "m k = Some b" "inv b" "p < pages b" "i < units b"
  shows "phys_of pages units valid own (m(k \<mapsto> clear b p i)) =
    (phys_of pages units valid own m)((k, p, i) := None)"
  using assms by (auto simp: phys_of_def fun_eq_iff dims valid_clear own_clear)

lemma phys_drop:
  assumes "m k = Some b" "\<forall>p < pages b. \<forall>i < units b. \<not> valid b p i"
  shows "phys_of pages units valid own (m(k := None)) = phys_of pages units valid own m"
  using assms by (auto simp: phys_of_def fun_eq_iff)

lemma phys_add:
  assumes "m k = None" "\<forall>p < pages b. \<forall>i < units b. \<not> valid b p i"
  shows "phys_of pages units valid own (m(k \<mapsto> b)) = phys_of pages units valid own m"
  using assms by (auto simp: phys_of_def fun_eq_iff)

text \<open>A slot at the write pointer is free, so programming it never overwrites a valid copy.\<close>

lemma phys_frontier:
  assumes "m k = Some b" "inv b" "i < units b" "ptr b i \<le> p"
  shows "phys_of pages units valid own m (k, p, i) = None"
  using assms frontier[of b p i] by (auto simp: phys_of_def)

lemma wiped_is_free:
  assumes "inv b" "p < pages b" "i < units b"
  shows "erased (wipe b) p i \<and> \<not> valid (wipe b) p i"
  using assms frontier[of "wipe b" p i] by (simp add: inv_wipe dims ptr_wipe)

end

interpretation blk: flash_block blk_inv b_pageCount b_ioUnitInPage blk_valid blk_erased blk_lpn blk_next
  blk_program blk_clear blk_erase
  by unfold_locales
    (auto simp: blk_program_inv blk_clear_inv blk_erase_ok blk_program_obs blk_clear_valid blk_inv_rep,
     auto simp: blk_inv_def)

text \<open>The physical map of the program's blocks.\<close>

definition phys :: "(nat \<rightharpoonup> block) \<Rightarrow> nat \<times> nat \<times> nat \<Rightarrow> nat option" where
  "phys m = phys_of b_pageCount b_ioUnitInPage blk_valid blk_lpn m"

lemmas phys_program = blk.phys_program[folded phys_def]
lemmas phys_clear = blk.phys_clear[folded phys_def]
lemmas phys_drop = blk.phys_drop[folded phys_def]
lemmas phys_add = blk.phys_add[folded phys_def]
lemmas phys_frontier = blk.phys_frontier[folded phys_def]

lemma phys_Some_iff:
  "phys m (k, p, i) = Some l \<longleftrightarrow> (\<exists>b. m k = Some b \<and> p < b_pageCount b \<and> i < b_ioUnitInPage b \<and>
     blk_valid b p i \<and> blk_lpn b p i = l)"
  by (auto simp: phys_def phys_of_def split: option.splits)

lemma phys_same_obs:
  assumes "m k = Some b" "b_pageCount b' = b_pageCount b" "b_ioUnitInPage b' = b_ioUnitInPage b"
    "blk_valid b' = blk_valid b" "blk_lpn b' = blk_lpn b"
  shows "phys (m(k \<mapsto> b')) = phys m"
  using assms by (auto simp: phys_def phys_of_def fun_eq_iff)

end
