(* ===== verification/Floats.thy ===== *)
theory Floats
  imports Prelude Complex_Main
begin

text \<open>
  The \<open>float\<close> and \<open>double\<close> arithmetic the program uses for ratios, weights and latencies: a finite
  value is a rational, an operation is the exact one followed by rounding to \<open>p\<close> significant bits,
  ties to even (\<open>p = 24\<close> for \<open>float\<close>, 53 for \<open>double\<close>).  Infinities and NaN are kept because the
  cost-benefit weight produces them.  The exponent range is unbounded and the sign of zero is not kept:
  the quantities here (block counts, page counts, ticks) are far from the range of either format.
\<close>

datatype fl = Fin rat | PInf | NInf | NaN

fun ilog2 :: "nat \<Rightarrow> nat" where
  "ilog2 n = (if n < 2 then 0 else Suc (ilog2 (n div 2)))"

declare ilog2.simps [simp del]

text \<open>\<open>2\<close> to an integer power, as a rational.\<close>

definition pow2 :: "int \<Rightarrow> rat" where
  "pow2 e = (if 0 \<le> e then 2 ^ nat e else 1 / 2 ^ nat (- e))"

text \<open>The exponent of a positive rational: the integer \<open>e\<close> with \<open>2\<^sup>e \<le> x < 2\<^sup>e\<^sup>+\<^sup>1\<close>.\<close>

definition flog2 :: "rat \<Rightarrow> int" where
  "flog2 x = (case quotient_of x of (n, d) \<Rightarrow>
     let e = int (ilog2 (nat n)) - int (ilog2 (nat d)) in if pow2 e \<le> x then e else e - 1)"

definition rne :: "rat \<Rightarrow> int" where
  "rne y = (let q = \<lfloor>y\<rfloor>; f = y - of_int q in
     if f < 1 / 2 then q else if f > 1 / 2 then q + 1 else if even q then q else q + 1)"

definition rnd_pos :: "nat \<Rightarrow> rat \<Rightarrow> rat" where
  "rnd_pos p x = (let u = pow2 (flog2 x - (int p - 1)) in of_int (rne (x / u)) * u)"

definition rnd :: "nat \<Rightarrow> rat \<Rightarrow> rat" where
  "rnd p x = (if x = 0 then 0 else if 0 < x then rnd_pos p x else - rnd_pos p (- x))"

definition fl_of_nat :: "nat \<Rightarrow> nat \<Rightarrow> fl" where
  "fl_of_nat p n = Fin (rnd p (of_nat n))"

fun fl_neg :: "fl \<Rightarrow> fl" where
  "fl_neg (Fin x) = Fin (- x)"
| "fl_neg PInf = NInf"
| "fl_neg NInf = PInf"
| "fl_neg NaN = NaN"

fun fl_add :: "nat \<Rightarrow> fl \<Rightarrow> fl \<Rightarrow> fl" where
  "fl_add p (Fin x) (Fin y) = Fin (rnd p (x + y))"
| "fl_add p (Fin x) y = y"
| "fl_add p x (Fin y) = x"
| "fl_add p PInf PInf = PInf"
| "fl_add p NInf NInf = NInf"
| "fl_add p _ _ = NaN"

definition fl_sub :: "nat \<Rightarrow> fl \<Rightarrow> fl \<Rightarrow> fl" where
  "fl_sub p x y = fl_add p x (fl_neg y)"

fun fl_mul :: "nat \<Rightarrow> fl \<Rightarrow> fl \<Rightarrow> fl" where
  "fl_mul p (Fin x) (Fin y) = Fin (rnd p (x * y))"
| "fl_mul p NaN y = NaN"
| "fl_mul p x NaN = NaN"
| "fl_mul p (Fin x) PInf = (if x = 0 then NaN else if 0 < x then PInf else NInf)"
| "fl_mul p (Fin x) NInf = (if x = 0 then NaN else if 0 < x then NInf else PInf)"
| "fl_mul p PInf (Fin y) = (if y = 0 then NaN else if 0 < y then PInf else NInf)"
| "fl_mul p NInf (Fin y) = (if y = 0 then NaN else if 0 < y then NInf else PInf)"
| "fl_mul p PInf PInf = PInf"
| "fl_mul p PInf NInf = NInf"
| "fl_mul p NInf PInf = NInf"
| "fl_mul p NInf NInf = PInf"

fun fl_div :: "nat \<Rightarrow> fl \<Rightarrow> fl \<Rightarrow> fl" where
  "fl_div p (Fin x) (Fin y) =
     (if y = 0 then (if x = 0 then NaN else if 0 < x then PInf else NInf) else Fin (rnd p (x / y)))"
| "fl_div p NaN y = NaN"
| "fl_div p x NaN = NaN"
| "fl_div p (Fin x) _ = Fin 0"
| "fl_div p PInf (Fin y) = (if 0 \<le> y then PInf else NInf)"
| "fl_div p NInf (Fin y) = (if 0 \<le> y then NInf else PInf)"
| "fl_div p _ _ = NaN"

text \<open>The comparison \<open><\<close>: false whenever a NaN is involved.\<close>

fun fl_less :: "fl \<Rightarrow> fl \<Rightarrow> bool" where
  "fl_less (Fin x) (Fin y) = (x < y)"
| "fl_less (Fin x) PInf = True"
| "fl_less NInf (Fin y) = True"
| "fl_less NInf PInf = True"
| "fl_less _ _ = False"

text \<open>Conversion to an unsigned integer truncates; on a negative value or a non-finite one it is undefined.\<close>

fun fl_to_nat :: "fl \<Rightarrow> nat res" where
  "fl_to_nat (Fin x) = (if 0 \<le> x then Inr (nat \<lfloor>x\<rfloor>) else if - 1 < x then Inr 0
                         else Inl (Undefined ''float to unsigned''))"
| "fl_to_nat _ = Inl (Undefined ''float to unsigned'')"

section \<open>Rounding\<close>

lemma pow2_pos [simp]: "0 < pow2 e"
  by (simp add: pow2_def)

lemma pow2_nonzero [simp]: "pow2 e \<noteq> 0"
  using pow2_pos[of e] by linarith

lemma pow2_Suc: "pow2 (e + 1) = 2 * pow2 e"
proof -
  consider "0 \<le> e" | "e = - 1" | "e < - 1" by linarith
  then show ?thesis
  proof cases
    case 1
    then show ?thesis by (simp add: pow2_def nat_add_distrib)
  next
    case 3
    then have "nat (- e) = Suc (nat (- (e + 1)))" by simp
    then show ?thesis using 3 by (simp add: pow2_def)
  qed (simp add: pow2_def)
qed

lemma pow2_add_nat: "pow2 (e + int n) = 2 ^ n * pow2 e"
proof (induction n)
  case (Suc n)
  have "e + int (Suc n) = (e + int n) + 1" by simp
  then show ?case using Suc by (simp only: pow2_Suc) simp
qed simp

lemma pow2_of_nat: "pow2 (int n) = 2 ^ n"
  by (simp add: pow2_def)

lemma pow2_add: "pow2 (a + b) = pow2 a * pow2 b"
proof (cases "0 \<le> b")
  case True
  then obtain n where "b = int n" by (metis nonneg_int_cases)
  then show ?thesis by (simp add: pow2_add_nat pow2_of_nat)
next
  case False
  then obtain n where b: "b = - int n" by (metis nonneg_int_cases linear neg_0_le_iff_le minus_minus)
  have "pow2 ((a + b) + int n) = 2 ^ n * pow2 (a + b)" by (rule pow2_add_nat)
  moreover have "pow2 (b + int n) = 2 ^ n * pow2 b" by (rule pow2_add_nat)
  ultimately show ?thesis using b by (simp add: pow2_def[of 0] field_simps)
qed

lemma pow2_mono: "a \<le> b \<Longrightarrow> pow2 a \<le> pow2 b"
proof -
  assume "a \<le> b"
  then have "pow2 b = 2 ^ nat (b - a) * pow2 a" using pow2_add_nat[of a "nat (b - a)"] by simp
  moreover have "pow2 a \<le> 2 ^ nat (b - a) * pow2 a" by simp
  ultimately show ?thesis by simp
qed

lemma pow2_less_iff: "pow2 a < pow2 b \<longleftrightarrow> a < b"
proof
  assume "pow2 a < pow2 b"
  then show "a < b" using pow2_mono[of b a] by (meson not_le)
next
  assume "a < b"
  then have "pow2 (a + 1) \<le> pow2 b" by (intro pow2_mono) simp
  moreover have "pow2 a < pow2 (a + 1)" by (simp add: pow2_Suc)
  ultimately show "pow2 a < pow2 b" by linarith
qed

lemma ilog2_bounds: "0 < n \<Longrightarrow> 2 ^ ilog2 n \<le> n \<and> n < 2 ^ Suc (ilog2 n)"
proof (induction n rule: ilog2.induct)
  case (1 n)
  show ?case
  proof (cases "n < 2")
    case True
    then show ?thesis using 1(2) by (simp add: ilog2.simps)
  next
    case False
    then have "2 ^ ilog2 (n div 2) \<le> n div 2 \<and> n div 2 < 2 ^ Suc (ilog2 (n div 2))" using 1(1) by simp
    then show ?thesis using False by (simp add: ilog2.simps[of n]) linarith
  qed
qed

lemma rat_of_pos_int:
  assumes "0 < n" "2 ^ k \<le> nat n" "nat n < 2 ^ m"
  shows "(2::rat) ^ k \<le> of_int n" "of_int n < (2::rat) ^ m"
proof -
  have "of_int n = (of_nat (nat n) :: rat)" using assms(1) by simp
  moreover have "(of_nat (2 ^ k) :: rat) \<le> of_nat (nat n)" using assms(2) by (rule of_nat_mono)
  moreover have "(of_nat (nat n) :: rat) < of_nat (2 ^ m)" using assms(3) by (simp only: of_nat_less_iff)
  ultimately show "(2::rat) ^ k \<le> of_int n" "of_int n < (2::rat) ^ m"
    by (simp_all only: of_nat_power of_nat_numeral)
qed

lemma flog2_bounds:
  assumes "0 < x"
  shows "pow2 (flog2 x) \<le> x" and "x < pow2 (flog2 x + 1)"
proof -
  obtain n d where nd: "quotient_of x = (n, d)" by force
  have x: "x = of_int n / of_int d" using quotient_of_div[OF nd] .
  have d: "0 < d" using quotient_of_denom_pos[OF nd] .
  have n: "0 < n" using assms x d by (simp add: zero_less_divide_iff)
  let ?a = "ilog2 (nat n)" and ?b = "ilog2 (nat d)"
  let ?e = "int ?a - int ?b"
  have a: "2 ^ ?a \<le> nat n" "nat n < 2 ^ Suc ?a" using ilog2_bounds[of "nat n"] n by auto
  have b: "2 ^ ?b \<le> nat d" "nat d < 2 ^ Suc ?b" using ilog2_bounds[of "nat d"] d by auto
  have a': "(2::rat) ^ ?a \<le> of_int n" "of_int n < (2::rat) ^ Suc ?a"
    using rat_of_pos_int[OF n a] .
  have b': "(2::rat) ^ ?b \<le> of_int d" "of_int d < (2::rat) ^ Suc ?b"
    using rat_of_pos_int[OF d b] .
  have e: "pow2 ?e * 2 ^ ?b = 2 ^ ?a"
    using pow2_add_nat[of "?e" ?b] by (simp add: pow2_of_nat mult.commute)
  have fl: "flog2 x = (if pow2 ?e \<le> x then ?e else ?e - 1)"
    by (simp add: flog2_def nd)
  have "x * of_int d = of_int n" using x d by simp
  have up: "x < pow2 (?e + 1)"
  proof -
    have "x * 2 ^ ?b \<le> x * of_int d" using b'(1) assms by (intro mult_left_mono) auto
    also have "\<dots> < 2 * 2 ^ ?a" using a'(2) \<open>x * of_int d = of_int n\<close> by simp
    also have "\<dots> = (2 * pow2 ?e) * 2 ^ ?b" using e by simp
    finally show ?thesis by (simp add: pow2_Suc)
  qed
  have lo: "pow2 ?e < 2 * x"
  proof -
    have "pow2 ?e * 2 ^ ?b \<le> x * of_int d" using e a'(1) \<open>x * of_int d = of_int n\<close> by simp
    also have "\<dots> < x * 2 ^ Suc ?b" using b'(2) assms by (intro mult_strict_left_mono) auto
    finally have "pow2 ?e * 2 ^ ?b < (2 * x) * 2 ^ ?b" by (simp add: mult.commute mult.left_commute)
    then show ?thesis by simp
  qed
  have half: "2 * pow2 (?e - 1) = pow2 ?e" using pow2_Suc[of "?e - 1"] by simp
  show "pow2 (flog2 x) \<le> x" using fl lo half by (auto split: if_splits)
  show "x < pow2 (flog2 x + 1)" using fl up by (auto split: if_splits)
qed

lemma flog2_unique:
  assumes "pow2 e \<le> x" "x < pow2 (e + 1)"
  shows "flog2 x = e"
proof -
  have x: "0 < x" using assms(1) pow2_pos[of e] by linarith
  have "pow2 e < pow2 (flog2 x + 1)" using assms(1) flog2_bounds(2)[OF x] by linarith
  moreover have "pow2 (flog2 x) < pow2 (e + 1)" using assms(2) flog2_bounds(1)[OF x] by linarith
  ultimately show ?thesis by (simp add: pow2_less_iff)
qed

lemma flog2_mono: "0 < x \<Longrightarrow> x \<le> y \<Longrightarrow> flog2 x \<le> flog2 y"
proof -
  assume "0 < x" "x \<le> y"
  then have "pow2 (flog2 x) < pow2 (flog2 y + 1)"
    using flog2_bounds(1)[of x] flog2_bounds(2)[of y] by linarith
  then show ?thesis by (simp add: pow2_less_iff)
qed

lemma rne_of_int [simp]: "rne (of_int k) = k"
  by (simp add: rne_def)

lemma rne_bounds: "\<lfloor>y\<rfloor> \<le> rne y" "rne y \<le> \<lfloor>y\<rfloor> + 1"
  by (auto simp: rne_def Let_def)

lemma rne_mono: "y \<le> z \<Longrightarrow> rne y \<le> rne z"
proof -
  assume "y \<le> z"
  then have "\<lfloor>y\<rfloor> \<le> \<lfloor>z\<rfloor>" by (rule floor_mono)
  then consider "\<lfloor>y\<rfloor> + 1 \<le> \<lfloor>z\<rfloor>" | "\<lfloor>y\<rfloor> = \<lfloor>z\<rfloor>" by linarith
  then show ?thesis
  proof cases
    case 1
    then show ?thesis using rne_bounds[of y] rne_bounds[of z] by linarith
  next
    case 2
    then show ?thesis using \<open>y \<le> z\<close> by (auto simp: rne_def Let_def)
  qed
qed

lemma rnd_pos_range:
  assumes "0 < x" "0 < p"
  shows "pow2 (flog2 x) \<le> rnd_pos p x" and "rnd_pos p x \<le> pow2 (flog2 x + 1)"
proof -
  let ?e = "flog2 x" let ?u = "pow2 (?e - (int p - 1))"
  have p: "int (p - 1) = int p - 1" using assms(2) by (simp add: of_nat_diff)
  have lo: "pow2 ?e = of_int (2 ^ (p - 1)) * ?u"
    using pow2_add_nat[of "?e - (int p - 1)" "p - 1"] p by simp
  have hi: "pow2 (?e + 1) = of_int (2 ^ p) * ?u"
    using pow2_add_nat[of "?e - (int p - 1)" p] by (simp add: algebra_simps)
  have "of_int (2 ^ (p - 1)) \<le> x / ?u" using flog2_bounds(1)[OF assms(1)] lo by (simp add: pos_le_divide_eq)
  then have "rne (of_int (2 ^ (p - 1))) \<le> rne (x / ?u)" by (rule rne_mono)
  then have l: "(2::int) ^ (p - 1) \<le> rne (x / ?u)" by (simp only: rne_of_int)
  have "x / ?u \<le> of_int (2 ^ p)" using flog2_bounds(2)[OF assms(1)] hi by (simp add: pos_divide_le_eq)
  then have "rne (x / ?u) \<le> rne (of_int (2 ^ p))" by (rule rne_mono)
  then have h: "rne (x / ?u) \<le> (2::int) ^ p" by (simp only: rne_of_int)
  show "pow2 ?e \<le> rnd_pos p x" unfolding lo rnd_pos_def Let_def
    using l by (intro mult_right_mono) (simp_all only: of_int_le_iff less_imp_le pow2_pos)
  show "rnd_pos p x \<le> pow2 (?e + 1)" unfolding hi rnd_pos_def Let_def
    using h by (intro mult_right_mono) (simp_all only: of_int_le_iff less_imp_le pow2_pos)
qed

lemma rnd_pos_mono:
  assumes "0 < x" "x \<le> y" "0 < p"
  shows "rnd_pos p x \<le> rnd_pos p y"
proof (cases "flog2 x = flog2 y")
  case True
  have "rne (x / pow2 (flog2 x - (int p - 1))) \<le> rne (y / pow2 (flog2 x - (int p - 1)))"
    using assms(2) by (intro rne_mono divide_right_mono) (auto simp: less_imp_le)
  then show ?thesis unfolding rnd_pos_def Let_def True
    by (intro mult_right_mono) (auto simp: less_imp_le True)
next
  case False
  then have "flog2 x + 1 \<le> flog2 y" using flog2_mono[OF assms(1,2)] by linarith
  then have "pow2 (flog2 x + 1) \<le> pow2 (flog2 y)" by (rule pow2_mono)
  then show ?thesis
    using rnd_pos_range(2)[OF assms(1,3)] rnd_pos_range(1)[of y p] assms by linarith
qed

lemma rnd_mono: "x \<le> y \<Longrightarrow> 0 < p \<Longrightarrow> rnd p x \<le> rnd p y"
proof -
  assume xy: "x \<le> y" and p: "0 < p"
  have pos: "0 < rnd_pos p z" if "0 < z" for z
    using rnd_pos_range(1)[OF that p] pow2_pos[of "flog2 z"] by linarith
  consider "0 < x" | "x \<le> 0" "0 \<le> y" | "y < 0" using xy by linarith
  then show ?thesis
  proof cases
    case 1 then show ?thesis using xy p rnd_pos_mono[of x y p] by (simp add: rnd_def)
  next
    case 2 then show ?thesis using pos[of "- x"] pos[of y] by (auto simp: rnd_def)
  next
    case 3 then show ?thesis using xy p rnd_pos_mono[of "- y" "- x" p] by (simp add: rnd_def)
  qed
qed

lemma rnd_nat_exact:
  assumes "n < 2 ^ p" "0 < p"
  shows "rnd p (of_nat n) = of_nat n"
proof (cases "n = 0")
  case False
  let ?e = "flog2 (of_nat n)"
  have n: "(0::rat) < of_nat n" using False by simp
  have "of_nat n < (2::rat) ^ p" using assms(1) by (metis of_nat_less_iff of_nat_numeral of_nat_power)
  then have "pow2 ?e < pow2 (int p)" using flog2_bounds(1)[OF n]
    unfolding pow2_of_nat by linarith
  then have e: "?e \<le> int p - 1" by (simp add: pow2_less_iff)
  define k where "k = nat (int p - 1 - ?e)"
  have "pow2 (?e - (int p - 1)) * 2 ^ k = 1"
    using pow2_add_nat[of "?e - (int p - 1)" k] e by (simp add: k_def pow2_def[of 0] mult.commute)
  then have u: "pow2 (?e - (int p - 1)) = 1 / 2 ^ k" by (simp add: field_simps)
  have "rne (of_nat n / pow2 (?e - (int p - 1))) = int n * 2 ^ k"
    using rne_of_int[of "int n * 2 ^ k"] by (simp add: u)
  then show ?thesis using n by (simp add: rnd_def rnd_pos_def Let_def u)
qed (simp add: rnd_def)

lemma fl_of_nat_exact: "n < 2 ^ p \<Longrightarrow> 0 < p \<Longrightarrow> fl_of_nat p n = Fin (of_nat n)"
  by (simp add: fl_of_nat_def rnd_nat_exact)

text \<open>A rounded value compares with a representable threshold as the exact value does, one way.\<close>

lemma rnd_less_imp: "rnd p x < t \<Longrightarrow> rnd p t = t \<Longrightarrow> 0 < p \<Longrightarrow> x < t"
  using rnd_mono[of t x p] by (metis not_le)

end
