(* ===== verification/Requests.thy ===== *)
theory Requests
  imports Blocks Floats
begin

text \<open>
  \<open>util/def.hh\<close> and \<open>util/def.cc\<close>: the requests the layers hand to each other, with the constructors
  that turn a request of one layer into a request of the next; and \<open>lower\<close>, the operations a layer
  calls on the layers below it (flash array, DRAM, CPU model, random generator).  In the code the layers
  below are virtual methods of \<open>PAL\<close>, \<open>AbstractDRAM\<close> and \<open>CPU\<close> objects whose state is theirs; here
  their joint state is the world \<open>'w\<close>, and every call returns the new tick and the new world.
\<close>

record lpn_range =
  slpn :: nat
  nlp :: nat

record hil_request =
  h_reqID :: nat
  h_reqSubID :: nat
  h_offset :: nat
  h_length :: nat
  h_range :: lpn_range
  h_finishedAt :: nat
  h_context :: nat

record icl_request =
  i_reqID :: nat
  i_reqSubID :: nat
  i_offset :: nat
  i_length :: nat
  i_range :: lpn_range

record ftl_request =
  f_reqID :: nat
  f_reqSubID :: nat
  f_lpn :: nat
  f_ioFlag :: bitset

record pal_request =
  p_reqID :: nat
  p_reqSubID :: nat
  p_blockIndex :: nat
  p_pageIndex :: nat
  p_ioFlag :: bitset

definition icl_of_hil :: "hil_request \<Rightarrow> icl_request" where
  "icl_of_hil r = \<lparr>i_reqID = h_reqID r, i_reqSubID = h_reqSubID r, i_offset = h_offset r,
                   i_length = h_length r, i_range = h_range r\<rparr>"

definition ftl_request_new :: "nat \<Rightarrow> ftl_request" where
  "ftl_request_new iocount = \<lparr>f_reqID = 0, f_reqSubID = 0, f_lpn = 0, f_ioFlag = bs_new iocount\<rparr>"

definition ftl_of_icl :: "nat \<Rightarrow> icl_request \<Rightarrow> ftl_request" where
  "ftl_of_icl iocount r =
     \<lparr>f_reqID = i_reqID r, f_reqSubID = i_reqSubID r, f_lpn = slpn (i_range r) div iocount,
      f_ioFlag = bs_set (bs_new iocount) (slpn (i_range r) mod iocount) True\<rparr>"

definition pal_request_new :: "nat \<Rightarrow> pal_request" where
  "pal_request_new iocount =
     \<lparr>p_reqID = 0, p_reqSubID = 0, p_blockIndex = 0, p_pageIndex = 0, p_ioFlag = bs_new iocount\<rparr>"

definition pal_of_ftl :: "ftl_request \<Rightarrow> pal_request" where
  "pal_of_ftl r = \<lparr>p_reqID = f_reqID r, p_reqSubID = f_reqSubID r, p_blockIndex = 0, p_pageIndex = 0,
                   p_ioFlag = f_ioFlag r\<rparr>"

text \<open>The namespaces and functions of \<open>cpu/def.hh\<close> that the modelled layers charge time to.\<close>

datatype cpu_ns = CPU_FTL | CPU_PAGE_MAPPING | CPU_ICL | CPU_GENERIC_CACHE | CPU_HIL

datatype cpu_fn = FN_READ | FN_WRITE | FN_FLUSH | FN_TRIM | FN_FORMAT | FN_READ_INTERNAL
  | FN_WRITE_INTERNAL | FN_ERASE_INTERNAL | FN_TRIM_INTERNAL | FN_SELECT_VICTIM_BLOCK
  | FN_DO_GARBAGE_COLLECTION

text \<open>
  \<open>ll_dram_read\<close> and \<open>ll_dram_write\<close> take an address, a size and a tick; \<open>ll_random n\<close> draws from
  \<open>std::uniform_int_distribution<uint64_t>(0, n)\<close>.
\<close>

record 'w lower =
  ll_pal_read :: "pal_request \<Rightarrow> nat \<Rightarrow> 'w \<Rightarrow> (nat \<times> 'w) res"
  ll_pal_write :: "pal_request \<Rightarrow> nat \<Rightarrow> 'w \<Rightarrow> (nat \<times> 'w) res"
  ll_pal_erase :: "pal_request \<Rightarrow> nat \<Rightarrow> 'w \<Rightarrow> (nat \<times> 'w) res"
  ll_dram_read :: "nat \<Rightarrow> nat \<Rightarrow> nat \<Rightarrow> 'w \<Rightarrow> (nat \<times> 'w) res"
  ll_dram_write :: "nat \<Rightarrow> nat \<Rightarrow> nat \<Rightarrow> 'w \<Rightarrow> (nat \<times> 'w) res"
  ll_cpu :: "cpu_ns \<Rightarrow> cpu_fn \<Rightarrow> 'w \<Rightarrow> nat \<times> 'w"
  ll_random :: "nat \<Rightarrow> 'w \<Rightarrow> nat \<times> 'w"

text \<open>The lower layers answer every call, never before the tick they were called at.\<close>

definition timed :: "(nat \<Rightarrow> 'w \<Rightarrow> (nat \<times> 'w) res) \<Rightarrow> bool" where
  "timed f \<longleftrightarrow> (\<forall>t w. \<exists>t' w'. f t w = Inr (t', w') \<and> t \<le> t')"

definition lower_ok :: "'w lower \<Rightarrow> bool" where
  "lower_ok L \<longleftrightarrow> (\<forall>r. timed (ll_pal_read L r)) \<and> (\<forall>r. timed (ll_pal_write L r)) \<and>
     (\<forall>r. timed (ll_pal_erase L r)) \<and> (\<forall>a n. timed (ll_dram_read L a n)) \<and>
     (\<forall>a n. timed (ll_dram_write L a n))"

lemma lower_okD:
  assumes "lower_ok L"
  shows "\<exists>t' w'. ll_pal_read L r t w = Inr (t', w') \<and> t \<le> t'"
    "\<exists>t' w'. ll_pal_write L r t w = Inr (t', w') \<and> t \<le> t'"
    "\<exists>t' w'. ll_pal_erase L r t w = Inr (t', w') \<and> t \<le> t'"
    "\<exists>t' w'. ll_dram_read L a n t w = Inr (t', w') \<and> t \<le> t'"
    "\<exists>t' w'. ll_dram_write L a n t w = Inr (t', w') \<and> t \<le> t'"
  using assms by (auto simp: lower_ok_def timed_def)

text \<open>Charging CPU time to a running tick.\<close>

definition cpu_charge :: "'w lower \<Rightarrow> cpu_ns \<Rightarrow> cpu_fn \<Rightarrow> nat \<Rightarrow> 'w \<Rightarrow> nat \<times> 'w" where
  "cpu_charge L ns fn tick w = (let (d, w') = ll_cpu L ns fn w in (tick + d, w'))"

text \<open>A call that only happens under a condition.\<close>

definition io_if :: "bool \<Rightarrow> (nat \<Rightarrow> 'w \<Rightarrow> (nat \<times> 'w) res) \<Rightarrow> nat \<Rightarrow> 'w \<Rightarrow> (nat \<times> 'w) res" where
  "io_if c f t w = (if c then f t w else Inr (t, w))"

lemma timed_io_if: "timed f \<Longrightarrow> timed (io_if c f)"
  by (auto simp: timed_def io_if_def)

lemma timed_seq: "timed f \<Longrightarrow> timed g \<Longrightarrow> timed (\<lambda>t w. rbind (f t w) (\<lambda>(t, w). g t w))"
  unfolding timed_def by (metis (no_types, lifting) le_trans prod.case rbind.simps(2))

lemma timedD: "timed f \<Longrightarrow> \<exists>t' w'. f t w = Inr (t', w') \<and> t \<le> t'"
  by (simp add: timed_def)

lemma lower_ok_timed:
  assumes "lower_ok L"
  shows "timed (ll_pal_read L r)" "timed (ll_pal_write L r)" "timed (ll_pal_erase L r)"
    "timed (ll_dram_read L a n)" "timed (ll_dram_write L a n)"
  using assms by (auto simp: lower_ok_def)

text \<open>Lower layers that take a fixed time, for concrete runs.\<close>

definition lower_fixed :: "nat \<Rightarrow> nat \<Rightarrow> unit lower" where
  "lower_fixed flash dram =
     \<lparr>ll_pal_read = (\<lambda>r t w. Inr (t + flash, w)), ll_pal_write = (\<lambda>r t w. Inr (t + flash, w)),
      ll_pal_erase = (\<lambda>r t w. Inr (t + flash, w)), ll_dram_read = (\<lambda>a n t w. Inr (t + dram, w)),
      ll_dram_write = (\<lambda>a n t w. Inr (t + dram, w)), ll_cpu = (\<lambda>ns fn w. (0, w)),
      ll_random = (\<lambda>n w. (0, w))\<rparr>"

lemma lower_fixed_ok: "lower_ok (lower_fixed a b)"
  by (simp add: lower_ok_def timed_def lower_fixed_def)

end
