(* ===== verification/PageMap.thy ===== *)
theory PageMap
  imports Requests "HOL-Library.Multiset"
begin

text \<open>
  \<open>ftl/page_mapping.cc\<close>: the page-level flash translation layer.  This theory holds the state of the
  class, the environment it runs in and every operation, in the order of the source; the invariant and
  the theorems are in \<open>PageMapInv\<close> and \<open>PageMapGC\<close>.

  The state record has the members of \<open>PageMapping\<close>.  What the source leaves to its environment is in
  \<open>ftl_env\<close>: the lower layers, the parameters, the configuration values, the iteration order of the two
  \<open>std::unordered_map\<close>s, and \<open>std::sort\<close> (which is not stable, so ties may come out in any order).
\<close>

record ftl_param =
  totalPhysicalBlocks :: nat
  totalLogicalBlocks :: nat
  pagesInBlock :: nat
  pageSize :: nat
  ioUnitInPage :: nat
  pageCountToMaxPerf :: nat

datatype evict_policy = POLICY_GREEDY | POLICY_COST_BENEFIT | POLICY_RANDOM | POLICY_DCHOICE | POLICY_OTHER

record ftl_conf =
  c_gcThreshold :: fl
  c_badBlockThreshold :: nat
  c_fillingMode :: nat
  c_fillRatio :: fl
  c_invalidRatio :: fl
  c_gcMode :: nat
  c_reclaimBlock :: nat
  c_reclaimThreshold :: fl
  c_evictPolicy :: evict_policy
  c_dChoice :: nat
  c_randomTweak :: bool

type_synonym mapping_list = "(nat \<times> nat) list"

record pm_stat =
  gcCount :: nat
  reclaimedBlocks :: nat
  validSuperPageCopies :: nat
  validPageCopies :: nat

record pm_state =
  pm_table :: "nat \<rightharpoonup> mapping_list"
  pm_blocks :: "nat \<rightharpoonup> block"
  pm_freeBlocks :: "block list"
  pm_nFreeBlocks :: nat
  pm_lastFreeBlock :: "nat list"
  pm_lastFreeBlockIOMap :: bitset
  pm_lastFreeBlockIndex :: nat
  pm_bReclaimMore :: bool
  pm_bRandomTweak :: bool
  pm_bitsetSize :: nat
  pm_stat :: pm_stat
  pm_totalLogicalPages :: nat
  pm_mappedLogicalPages :: nat
  pm_freePhysicalBlocks :: nat

record 'w ftl_env =
  e_low :: "'w lower"
  e_param :: ftl_param
  e_conf :: ftl_conf
  e_blockOrder :: "(nat \<rightharpoonup> block) \<Rightarrow> nat list"
  e_tableOrder :: "(nat \<rightharpoonup> mapping_list) \<Rightarrow> nat list"
  e_sort :: "(nat \<times> fl) list \<Rightarrow> (nat \<times> fl) list"
  e_draws :: nat

definition pm_stat0 :: pm_stat where
  "pm_stat0 = \<lparr>gcCount = 0, reclaimedBlocks = 0, validSuperPageCopies = 0, validPageCopies = 0\<rparr>"

abbreviation U32MAX :: nat where "U32MAX \<equiv> 4294967295"

text \<open>Looking a block up and panicking with the caller's message when it is not in use.\<close>

definition pm_find :: "pm_state \<Rightarrow> nat \<Rightarrow> fault \<Rightarrow> block res" where
  "pm_find s k e = (case pm_blocks s k of None \<Rightarrow> Inl e | Some b \<Rightarrow> Inr b)"

lemma pm_find_Inr_iff [res_simps]: "pm_find s k e = Inr b \<longleftrightarrow> pm_blocks s k = Some b"
  by (auto simp: pm_find_def split: option.splits)

abbreviation set_block :: "nat \<Rightarrow> block \<Rightarrow> pm_state \<Rightarrow> pm_state" where
  "set_block k b s \<equiv> s\<lparr>pm_blocks := (pm_blocks s)(k \<mapsto> b)\<rparr>"

section \<open>Free blocks\<close>

definition pm_freeBlockRatio :: "ftl_param \<Rightarrow> pm_state \<Rightarrow> fl" where
  "pm_freeBlockRatio P s = fl_div 24 (fl_of_nat 24 (pm_nFreeBlocks s)) (fl_of_nat 24 (totalPhysicalBlocks P))"

definition pm_convertBlockIdx :: "ftl_param \<Rightarrow> nat \<Rightarrow> nat" where
  "pm_convertBlockIdx P blockIdx = blockIdx mod pageCountToMaxPerf P"

text \<open>
  \<open>getFreeBlock\<close>: the first free block of the wanted residue class, else the first one.
  \<open>pm_searchFree\<close> is the list search with the list that remains after \<open>erase(iter)\<close>.
\<close>

fun pm_searchFree :: "nat \<Rightarrow> nat \<Rightarrow> block list \<Rightarrow> (block \<times> block list) option" where
  "pm_searchFree n idx [] = None"
| "pm_searchFree n idx (b # bs) =
     (if blk_getBlockIndex b mod n = idx then Some (b, bs)
      else map_option (\<lambda>(x, xs). (x, b # xs)) (pm_searchFree n idx bs))"

definition pm_pickFree :: "ftl_param \<Rightarrow> nat \<Rightarrow> block list \<Rightarrow> (block \<times> block list) res" where
  "pm_pickFree P idx bs =
     (case pm_searchFree (pageCountToMaxPerf P) idx bs of
        Some r \<Rightarrow> Inr r
      | None \<Rightarrow> (case bs of [] \<Rightarrow> Inl (Undefined ''freeBlocks.begin()'') | b # xs \<Rightarrow> Inr (b, xs)))"

definition pm_getFreeBlock :: "ftl_param \<Rightarrow> nat \<Rightarrow> pm_state \<Rightarrow> (nat \<times> pm_state) res" where
  "pm_getFreeBlock P idx s =
     (if idx \<ge> pageCountToMaxPerf P then Inl (Panic ''Index out of range'')
      else if pm_nFreeBlocks s > 0 then
        rbind (pm_pickFree P idx (pm_freeBlocks s)) (\<lambda>(b, rest).
          let blockIndex = blk_getBlockIndex b in
          if pm_blocks s blockIndex \<noteq> None then Inl (Panic ''Corrupted'')
          else Inr (blockIndex,
            s\<lparr>pm_blocks := (pm_blocks s)(blockIndex \<mapsto> b), pm_freeBlocks := rest,
              pm_nFreeBlocks := pm_nFreeBlocks s - 1\<rparr>))
      else Inl (Panic ''No free block left''))"

definition pm_advance :: "ftl_param \<Rightarrow> bitset \<Rightarrow> pm_state \<Rightarrow> pm_state res" where
  "pm_advance P iomap s =
     rbind (if \<not> pm_bRandomTweak s then Inr True
            else rbind (bs_and (pm_lastFreeBlockIOMap s) iomap) (\<lambda>x. Inr (bs_any x)))
       (\<lambda>step. if step then
            (let i = pm_lastFreeBlockIndex s + 1
             in Inr (s\<lparr>pm_lastFreeBlockIndex := (if i = pageCountToMaxPerf P then 0 else i),
                       pm_lastFreeBlockIOMap := iomap\<rparr>))
          else rbind (bs_or (pm_lastFreeBlockIOMap s) iomap)
                 (\<lambda>m. Inr (s\<lparr>pm_lastFreeBlockIOMap := m\<rparr>)))"

definition pm_getLastFreeBlock :: "ftl_param \<Rightarrow> bitset \<Rightarrow> pm_state \<Rightarrow> (nat \<times> pm_state) res" where
  "pm_getLastFreeBlock P iomap s0 =
     rbind (pm_advance P iomap s0) (\<lambda>s.
     rbind (vec_at (pm_lastFreeBlock s) (pm_lastFreeBlockIndex s)) (\<lambda>k.
     rbind (pm_find s k (Panic ''Corrupted'')) (\<lambda>freeBlock.
       if blk_getNextWritePageIndexMax freeBlock = pagesInBlock P then
         rbind (pm_getFreeBlock P (pm_lastFreeBlockIndex s) s) (\<lambda>(n, s1).
           Inr (n, s1\<lparr>pm_lastFreeBlock := (pm_lastFreeBlock s1)[pm_lastFreeBlockIndex s1 := n],
                      pm_bReclaimMore := True\<rparr>))
       else Inr (k, s))))"

section \<open>Victim selection\<close>

text \<open>The weight of a block; only full blocks are candidates.\<close>

definition pm_weight :: "ftl_param \<Rightarrow> evict_policy \<Rightarrow> nat \<Rightarrow> block \<Rightarrow> fl" where
  "pm_weight P policy tick b =
     (if policy = POLICY_COST_BENEFIT then
        (let temp = fl_div 24 (fl_of_nat 24 (blk_getValidPageCountRaw b)) (fl_of_nat 24 (pagesInBlock P))
         in fl_div 24 temp (fl_mul 24 (fl_sub 24 (Fin 1) temp)
              (fl_of_nat 24 ((tick + 2 ^ 64 - blk_getLastAccessedTime b) mod 2 ^ 64))))
      else fl_of_nat 24 (blk_getValidPageCountRaw b))"

definition pm_calculateVictimWeight ::
  "'w ftl_env \<Rightarrow> evict_policy \<Rightarrow> nat \<Rightarrow> pm_state \<Rightarrow> (nat \<times> fl) list res" where
  "pm_calculateVictimWeight E policy tick s =
     (if policy = POLICY_OTHER then Inl (Panic ''Invalid evict policy'')
      else Inr (concat (map (\<lambda>k. case pm_blocks s k of None \<Rightarrow> []
             | Some b \<Rightarrow> if blk_getNextWritePageIndexMax b \<noteq> pagesInBlock (e_param E) then []
                         else [(k, pm_weight (e_param E) policy tick b)])
           (e_blockOrder E (pm_blocks s)))))"

text \<open>
  The sampling loop of \<open>POLICY_RANDOM\<close> and \<open>POLICY_DCHOICE\<close>: it draws until enough distinct candidates
  are selected.  \<open>fuel\<close> bounds the number of draws; running out of it is the outcome \<open>NoReturn\<close>.
\<close>

fun pm_sample :: "'w lower \<Rightarrow> nat \<Rightarrow> nat \<Rightarrow> (nat \<times> fl) list \<Rightarrow> (nat \<times> fl) list \<Rightarrow> 'w \<Rightarrow>
    ((nat \<times> fl) list \<times> 'w) res" where
  "pm_sample L fuel randomRange weight selected w =
     (if length selected < randomRange then
        (case fuel of 0 \<Rightarrow> Inl (NoReturn ''victim sampling'')
         | Suc f \<Rightarrow>
            (let (idx, w1) = ll_random L ((length weight + 2 ^ 64 - 1) mod 2 ^ 64) w
             in rbind (vec_at weight idx) (\<lambda>x.
                  if fst x < U32MAX
                  then pm_sample L f randomRange (weight[idx := (U32MAX, snd x)]) (selected @ [x]) w1
                  else pm_sample L f randomRange weight selected w1)))
      else Inr (selected, w))"

declare pm_sample.simps [simp del]

definition pm_reclaimTarget :: "'w ftl_env \<Rightarrow> pm_state \<Rightarrow> nat res" where
  "pm_reclaimTarget E s =
     rbind (if c_gcMode (e_conf E) = 0 then Inr (c_reclaimBlock (e_conf E))
            else if c_gcMode (e_conf E) = 1 then
              fl_to_nat (fl_sub 24
                (fl_mul 24 (fl_of_nat 24 (totalPhysicalBlocks (e_param E))) (c_reclaimThreshold (e_conf E)))
                (fl_of_nat 24 (pm_nFreeBlocks s)))
            else Inl (Panic ''Invalid GC mode''))
       (\<lambda>n. Inr (if pm_bReclaimMore s then n + pageCountToMaxPerf (e_param E) else n))"

definition pm_selectVictimBlock ::
  "'w ftl_env \<Rightarrow> nat \<Rightarrow> pm_state \<Rightarrow> 'w \<Rightarrow> (nat list \<times> nat \<times> pm_state \<times> 'w) res" where
  "pm_selectVictimBlock E tick s w =
     (let policy = c_evictPolicy (e_conf E) in
      rbind (pm_reclaimTarget E s) (\<lambda>nBlocks.
      let s1 = s\<lparr>pm_bReclaimMore := False\<rparr> in
      rbind (pm_calculateVictimWeight E policy tick s1) (\<lambda>weight.
      rbind (if policy = POLICY_RANDOM \<or> policy = POLICY_DCHOICE then
               pm_sample (e_low E) (e_draws E)
                 (if policy = POLICY_RANDOM then nBlocks else c_dChoice (e_conf E) * nBlocks) weight [] w
             else Inr (weight, w)) (\<lambda>(cand, w1).
      let sorted = e_sort E cand;
          victims = map fst (take nBlocks sorted);
          (tick', w2) = cpu_charge (e_low E) CPU_PAGE_MAPPING FN_SELECT_VICTIM_BLOCK tick w1
      in Inr (victims, tick', s1, w2)))))"


section \<open>Read and erase\<close>

text \<open>
  A logical page's table entry is its I/O units' (block, page) pairs; an entry outside the physical
  range is unmapped.  The DRAM access is to the entry itself, identified by its LPN.
\<close>

definition pm_mapped :: "ftl_param \<Rightarrow> nat \<times> nat \<Rightarrow> bool" where
  "pm_mapped P m \<longleftrightarrow> fst m < totalPhysicalBlocks P \<and> snd m < pagesInBlock P"

definition pm_entryBytes :: "pm_state \<Rightarrow> bitset \<Rightarrow> nat" where
  "pm_entryBytes s flag = (if pm_bRandomTweak s then 8 * bs_count flag else 8)"

text \<open>The I/O flag of the request sent to the PAL for unit \<open>idx\<close>.\<close>

definition pm_unitFlag :: "pm_state \<Rightarrow> bitset \<Rightarrow> nat \<Rightarrow> bitset" where
  "pm_unitFlag s flag idx =
     (if pm_bRandomTweak s then bs_set (bs_reset_all flag) idx True else bs_set_all flag)"

definition pm_selects :: "pm_state \<Rightarrow> bitset \<Rightarrow> nat \<Rightarrow> bool" where
  "pm_selects s flag idx \<longleftrightarrow> bs_test flag idx \<or> \<not> pm_bRandomTweak s"

definition pm_readUnit :: "'w ftl_env \<Rightarrow> ftl_request \<Rightarrow> mapping_list \<Rightarrow> nat \<Rightarrow> nat \<Rightarrow>
    pm_state \<times> 'w \<times> nat \<Rightarrow> (pm_state \<times> 'w \<times> nat) res" where
  "pm_readUnit E req ml tick idx = (\<lambda>(s, w, finishedAt).
     if pm_selects s (f_ioFlag req) idx then
       rbind (vec_at ml idx) (\<lambda>m.
         if pm_mapped (e_param E) m then
           rbind (pm_find s (fst m) (Panic ''Block is not in use'')) (\<lambda>b.
           rbind (blk_read b (snd m) idx tick) (\<lambda>(ok, b').
           rbind (ll_pal_read (e_low E) ((pal_of_ftl req)\<lparr>p_blockIndex := fst m, p_pageIndex := snd m,
                    p_ioFlag := pm_unitFlag s (f_ioFlag req) idx\<rparr>) tick w) (\<lambda>(beginAt, w').
             Inr (set_block (fst m) b' s, w', max finishedAt beginAt))))
         else Inr (s, w, finishedAt))
     else Inr (s, w, finishedAt))"

definition pm_readInternal :: "'w ftl_env \<Rightarrow> ftl_request \<Rightarrow> nat \<Rightarrow> pm_state \<Rightarrow> 'w \<Rightarrow>
    (nat \<times> pm_state \<times> 'w) res" where
  "pm_readInternal E req tick0 s w0 =
     (case pm_table s (f_lpn req) of
        None \<Rightarrow> Inr (tick0, s, w0)
      | Some ml \<Rightarrow>
          rbind (ll_dram_read (e_low E) (f_lpn req) (pm_entryBytes s (f_ioFlag req)) tick0 w0) (\<lambda>(tick, w1).
          rbind (rfold (pm_readUnit E req ml tick) [0..<pm_bitsetSize s] (s, w1, tick0)) (\<lambda>(s', w2, finishedAt).
            let (t, w3) = cpu_charge (e_low E) CPU_PAGE_MAPPING FN_READ_INTERNAL finishedAt w2
            in Inr (t, s', w3))))"

text \<open>
  \<open>eraseInternal\<close> puts the erased block back before the first block (from the end) that has been
  erased at most as often; on an empty list the source steps back from \<open>end()\<close>, which is undefined.
\<close>

fun emplace_rev :: "block \<Rightarrow> block list \<Rightarrow> block list" where
  "emplace_rev b [] = [b]"
| "emplace_rev b (x # xs) =
     (if blk_getEraseCount x \<le> blk_getEraseCount b then b # x # xs else x # emplace_rev b xs)"

definition pm_emplaceFree :: "block \<Rightarrow> block list \<Rightarrow> block list res" where
  "pm_emplaceFree b xs = (if xs = [] then Inl (Undefined ''freeBlocks.end()--'')
                          else Inr (rev (emplace_rev b (rev xs))))"

definition pm_eraseInternal :: "'w ftl_env \<Rightarrow> pal_request \<Rightarrow> nat \<Rightarrow> pm_state \<Rightarrow> 'w \<Rightarrow>
    (nat \<times> pm_state \<times> 'w) res" where
  "pm_eraseInternal E req tick s w =
     rbind (pm_find s (p_blockIndex req) (Panic ''No such block'')) (\<lambda>b.
       if blk_getValidPageCount b \<noteq> 0 then Inl (Panic ''There are valid pages in victim block'')
       else
         let b' = blk_erase b in
         rbind (ll_pal_erase (e_low E) req tick w) (\<lambda>(t1, w1).
         rbind (if blk_getEraseCount b' < c_badBlockThreshold (e_conf E)
                then rbind (pm_emplaceFree b' (pm_freeBlocks s)) (\<lambda>fr.
                       Inr (s\<lparr>pm_freeBlocks := fr, pm_nFreeBlocks := pm_nFreeBlocks s + 1\<rparr>))
                else Inr s) (\<lambda>s1.
           let (t2, w2) = cpu_charge (e_low E) CPU_PAGE_MAPPING FN_ERASE_INTERNAL t1 w1
           in Inr (t2, s1\<lparr>pm_blocks := (pm_blocks s1)(p_blockIndex req := None)\<rparr>, w2))))"

section \<open>Garbage collection\<close>

text \<open>
  The first half of \<open>doGarbageCollection\<close> moves the valid units of every victim page in the table and
  the blocks and only collects PAL requests; the second half issues them.  \<open>gc_ctx\<close> is the state that
  half threads: tables, world, tick, and the two request lists (the erase list is the victims).
\<close>

type_synonym 'w gc_ctx = "pm_state \<times> 'w \<times> nat \<times> pal_request list \<times> pal_request list"

definition pm_gcUnit :: "'w ftl_env \<Rightarrow> nat \<Rightarrow> nat \<Rightarrow> nat \<Rightarrow> nat \<Rightarrow> nat list \<Rightarrow> bitset \<Rightarrow> nat \<Rightarrow>
    'w gc_ctx \<Rightarrow> 'w gc_ctx res" where
  "pm_gcUnit E beginAt victim freeBlock pageIndex lpns bm idx = (\<lambda>(s, w, tick, rr, wr).
     if bs_test bm idx then
       rbind (pm_find s victim (Panic ''Invalid block'')) (\<lambda>vb.
       rbind (blk_invalidate vb pageIndex idx) (\<lambda>vb'.
       let s1 = set_block victim vb' s in
       rbind (vec_at lpns idx) (\<lambda>lpn.
       rbind (case pm_table s1 lpn of None \<Rightarrow> Inl (Panic ''Invalid mapping table entry'') | Some ml \<Rightarrow> Inr ml) (\<lambda>ml.
       rbind (ll_dram_read (e_low E) lpn (8 * ioUnitInPage (e_param E)) tick w) (\<lambda>(tick1, w1).
       rbind (vec_at ml idx) (\<lambda>_.
       rbind (pm_find s1 freeBlock (Undefined ''freeBlock'')) (\<lambda>fb.
       let newPageIdx = blk_getNextWritePageIndex fb idx;
           s2 = s1\<lparr>pm_table := (pm_table s1)(lpn \<mapsto> ml[idx := (freeBlock, newPageIdx)])\<rparr> in
       rbind (blk_write fb newPageIdx lpn idx beginAt) (\<lambda>(_, fb').
       let s3 = set_block freeBlock fb' s2;
           req = \<lparr>p_reqID = 0, p_reqSubID = 0, p_blockIndex = freeBlock, p_pageIndex = newPageIdx,
                  p_ioFlag = pm_unitFlag s bm idx\<rparr>;
           s4 = s3\<lparr>pm_stat := (pm_stat s3)\<lparr>validPageCopies := validPageCopies (pm_stat s3) + 1\<rparr>\<rparr>
       in Inr (s4, w1, tick1, rr, wr @ [req])))))))))
     else Inr (s, w, tick, rr, wr))"

definition pm_gcPage :: "'w ftl_env \<Rightarrow> nat \<Rightarrow> nat \<Rightarrow> nat \<Rightarrow> 'w gc_ctx \<Rightarrow> 'w gc_ctx res" where
  "pm_gcPage E beginAt victim pageIndex = (\<lambda>(s, w, tick, rr, wr).
     rbind (pm_find s victim (Panic ''Invalid block'')) (\<lambda>vb.
     rbind (blk_getPageInfo vb pageIndex (bs_new (ioUnitInPage (e_param E)))) (\<lambda>(any, lpns, bm0).
       if any then
         let bm = (if pm_bRandomTweak s then bm0 else bs_set_all bm0) in
         rbind (pm_getLastFreeBlock (e_param E) bm s) (\<lambda>(freeBlock, s1).
         rbind (pm_find s1 freeBlock (Undefined ''blocks.end()'')) (\<lambda>_.
         let req = \<lparr>p_reqID = 0, p_reqSubID = 0, p_blockIndex = victim, p_pageIndex = pageIndex, p_ioFlag = bm\<rparr> in
         rbind (rfold (pm_gcUnit E beginAt victim freeBlock pageIndex lpns bm) [0..<pm_bitsetSize s1]
                  (s1, w, tick, rr @ [req], wr)) (\<lambda>(s2, w2, tick2, rr2, wr2).
           Inr (s2\<lparr>pm_stat := (pm_stat s2)\<lparr>validSuperPageCopies := validSuperPageCopies (pm_stat s2) + 1\<rparr>\<rparr>,
                w2, tick2, rr2, wr2))))
       else Inr (s, w, tick, rr, wr))))"

definition pm_gcBlock :: "'w ftl_env \<Rightarrow> nat \<Rightarrow> nat \<Rightarrow> 'w gc_ctx \<Rightarrow> 'w gc_ctx res" where
  "pm_gcBlock E beginAt victim = (\<lambda>(s, w, tick, rr, wr).
     rbind (pm_find s victim (Panic ''Invalid block'')) (\<lambda>_.
       rfold (pm_gcPage E beginAt victim) [0..<pagesInBlock (e_param E)] (s, w, tick, rr, wr)))"

text \<open>Issuing a list of requests, each at the same tick, and keeping the latest completion.\<close>

definition pm_issue :: "(pal_request \<Rightarrow> nat \<Rightarrow> 'w \<Rightarrow> (nat \<times> 'w) res) \<Rightarrow> nat \<Rightarrow> pal_request list \<Rightarrow>
    nat \<times> 'w \<Rightarrow> (nat \<times> 'w) res" where
  "pm_issue f beginAt =
     rfold (\<lambda>r (fin, w). rbind (f r beginAt w) (\<lambda>(t, w'). Inr (max fin t, w')))"

definition pm_eraseAll :: "'w ftl_env \<Rightarrow> nat \<Rightarrow> nat list \<Rightarrow> nat \<times> pm_state \<times> 'w \<Rightarrow>
    (nat \<times> pm_state \<times> 'w) res" where
  "pm_eraseAll E beginAt =
     rfold (\<lambda>k (fin, s, w).
       rbind (pm_eraseInternal E \<lparr>p_reqID = 0, p_reqSubID = 0, p_blockIndex = k, p_pageIndex = 0,
                p_ioFlag = bs_set_all (bs_new (ioUnitInPage (e_param E)))\<rparr> beginAt s w) (\<lambda>(t, s', w').
         Inr (max fin t, s', w')))"

definition pm_doGarbageCollection :: "'w ftl_env \<Rightarrow> nat list \<Rightarrow> nat \<Rightarrow> pm_state \<Rightarrow> 'w \<Rightarrow>
    (nat \<times> pm_state \<times> 'w) res" where
  "pm_doGarbageCollection E victims tick0 s w =
     (if victims = [] then Inr (tick0, s, w)
      else
        rbind (rfold (pm_gcBlock E tick0) victims (s, w, tick0, [], [])) (\<lambda>(s1, w1, tick, rr, wr).
        rbind (pm_issue (ll_pal_read (e_low E)) tick rr (tick0, w1)) (\<lambda>(readFinishedAt, w2).
        rbind (pm_issue (ll_pal_write (e_low E)) readFinishedAt wr (tick0, w2)) (\<lambda>(writeFinishedAt, w3).
        rbind (pm_eraseAll E readFinishedAt victims (tick0, s1, w3)) (\<lambda>(eraseFinishedAt, s2, w4).
          let (t, w5) = cpu_charge (e_low E) CPU_PAGE_MAPPING FN_DO_GARBAGE_COLLECTION
                          (max writeFinishedAt eraseFinishedAt) w4
          in Inr (t, s2, w5))))))"


section \<open>Write\<close>

text \<open>Marking the old copies of the written units invalid.\<close>

definition pm_invalidateOld :: "ftl_param \<Rightarrow> bitset \<Rightarrow> mapping_list \<Rightarrow> nat \<Rightarrow> pm_state \<Rightarrow> pm_state res" where
  "pm_invalidateOld P flag ml idx s =
     (if pm_selects s flag idx then
        rbind (vec_at ml idx) (\<lambda>m.
          if pm_mapped P m then
            rbind (pm_find s (fst m) (Undefined ''blocks.end()'')) (\<lambda>b.
            rbind (blk_invalidate b (snd m) idx) (\<lambda>b'. Inr (set_block (fst m) b' s)))
          else Inr s)
      else Inr s)"

definition pm_writeUnit :: "'w ftl_env \<Rightarrow> ftl_request \<Rightarrow> bool \<Rightarrow> nat \<Rightarrow> bool \<Rightarrow> nat \<Rightarrow> nat \<Rightarrow>
    pm_state \<times> 'w \<times> nat \<Rightarrow> (pm_state \<times> 'w \<times> nat) res" where
  "pm_writeUnit E req sendToPAL k readBeforeWrite tick idx = (\<lambda>(s, w, finishedAt).
     if pm_selects s (f_ioFlag req) idx then
       rbind (pm_find s k (Undefined ''blocks.end()'')) (\<lambda>b.
       let pageIndex = blk_getNextWritePageIndex b idx in
       rbind (case pm_table s (f_lpn req) of None \<Rightarrow> Inl (Undefined ''table.end()'') | Some ml \<Rightarrow> Inr ml) (\<lambda>ml.
       rbind (vec_at ml idx) (\<lambda>m.
       rbind (blk_write b pageIndex (f_lpn req) idx tick) (\<lambda>(_, b').
       rbind (io_if (readBeforeWrite \<and> sendToPAL)
                (ll_pal_read (e_low E) ((pal_of_ftl req)\<lparr>p_blockIndex := fst m, p_pageIndex := snd m,
                     p_ioFlag := bs_flip_all (f_ioFlag req)\<rparr>)) tick w) (\<lambda>(t1, w1).
       let s1 = (set_block k b' s)\<lparr>pm_table := (pm_table s)(f_lpn req \<mapsto> ml[idx := (k, pageIndex)])\<rparr> in
       rbind (io_if sendToPAL
                (ll_pal_write (e_low E) ((pal_of_ftl req)\<lparr>p_blockIndex := k, p_pageIndex := pageIndex,
                     p_ioFlag := pm_unitFlag s (f_ioFlag req) idx\<rparr>)) t1 w1) (\<lambda>(t2, w2).
         Inr (s1, w2, max finishedAt t2)))))))
     else Inr (s, w, finishedAt))"

text \<open>
  \<open>writeInternal\<close> up to the garbage collection: invalidate or create the entry, take the open block,
  charge the table access and write the units.
\<close>

definition pm_prepareEntry :: "ftl_param \<Rightarrow> ftl_request \<Rightarrow> pm_state \<Rightarrow> pm_state res" where
  "pm_prepareEntry P req s =
     (case pm_table s (f_lpn req) of
        Some ml \<Rightarrow> rfold (pm_invalidateOld P (f_ioFlag req) ml) [0..<pm_bitsetSize s] s
      | None \<Rightarrow> Inr (s\<lparr>pm_table := (pm_table s)(f_lpn req \<mapsto>
                  replicate (pm_bitsetSize s) (totalPhysicalBlocks P, pagesInBlock P))\<rparr>))"

definition pm_writePages :: "'w ftl_env \<Rightarrow> ftl_request \<Rightarrow> bool \<Rightarrow> nat \<Rightarrow> pm_state \<Rightarrow> 'w \<Rightarrow>
    (nat \<times> pm_state \<times> 'w) res" where
  "pm_writePages E req sendToPAL tick0 s0 w0 =
     rbind (pm_prepareEntry (e_param E) req s0) (\<lambda>s1.
     rbind (pm_getLastFreeBlock (e_param E) (f_ioFlag req) s1) (\<lambda>(k, s2).
     rbind (pm_find s2 k (Panic ''No such block'')) (\<lambda>_.
     rbind (io_if sendToPAL (\<lambda>t w.
              rbind (ll_dram_read (e_low E) (f_lpn req) (pm_entryBytes s2 (f_ioFlag req)) t w) (\<lambda>(t, w).
                ll_dram_write (e_low E) (f_lpn req) (pm_entryBytes s2 (f_ioFlag req)) t w)) tick0 w0) (\<lambda>(tick, w1).
     let readBeforeWrite = (\<not> pm_bRandomTweak s2 \<and> \<not> bs_all (f_ioFlag req)) in
     rbind (rfold (pm_writeUnit E req sendToPAL k readBeforeWrite tick) [0..<pm_bitsetSize s2] (s2, w1, tick0))
       (\<lambda>(s3, w2, finishedAt).
       let (t, w3) = (if sendToPAL then cpu_charge (e_low E) CPU_PAGE_MAPPING FN_WRITE_INTERNAL finishedAt w2
                      else (tick, w2))
       in Inr (t, s3, w3))))))"

definition pm_gcNeeded :: "'w ftl_env \<Rightarrow> pm_state \<Rightarrow> bool" where
  "pm_gcNeeded E s = fl_less (pm_freeBlockRatio (e_param E) s) (c_gcThreshold (e_conf E))"

text \<open>The time the collection takes stays in a local variable of the source: the caller's tick is not advanced.\<close>

definition pm_collectIfNeeded :: "'w ftl_env \<Rightarrow> bool \<Rightarrow> nat \<Rightarrow> pm_state \<Rightarrow> 'w \<Rightarrow> (pm_state \<times> 'w) res" where
  "pm_collectIfNeeded E sendToPAL tick s w =
     (if pm_gcNeeded E s then
        (if \<not> sendToPAL then Inl (Panic ''ftl: GC triggered while in initialization'')
         else
           rbind (pm_selectVictimBlock E tick s w) (\<lambda>(victims, beginAt, s1, w1).
           rbind (pm_doGarbageCollection E victims beginAt s1 w1) (\<lambda>(_, s2, w2).
             Inr (s2\<lparr>pm_stat := (pm_stat s2)\<lparr>gcCount := gcCount (pm_stat s2) + 1,
                        reclaimedBlocks := reclaimedBlocks (pm_stat s2) + length victims\<rparr>\<rparr>, w2))))
      else Inr (s, w))"

definition pm_writeInternal :: "'w ftl_env \<Rightarrow> ftl_request \<Rightarrow> bool \<Rightarrow> nat \<Rightarrow> pm_state \<Rightarrow> 'w \<Rightarrow>
    (nat \<times> pm_state \<times> 'w) res" where
  "pm_writeInternal E req sendToPAL tick0 s0 w0 =
     rbind (pm_writePages E req sendToPAL tick0 s0 w0) (\<lambda>(t, s1, w1).
     rbind (pm_collectIfNeeded E sendToPAL t s1 w1) (\<lambda>(s2, w2). Inr (t, s2, w2)))"

section \<open>Trim and format\<close>

text \<open>Unlike read and write, trim and format do not check that a unit is mapped.\<close>

definition pm_trimUnit :: "mapping_list \<Rightarrow> nat \<Rightarrow> pm_state \<Rightarrow> pm_state res" where
  "pm_trimUnit ml idx s =
     rbind (vec_at ml idx) (\<lambda>m.
     rbind (pm_find s (fst m) (Panic ''Block is not in use'')) (\<lambda>b.
     rbind (blk_invalidate b (snd m) idx) (\<lambda>b'. Inr (set_block (fst m) b' s))))"

definition pm_trimInternal :: "'w ftl_env \<Rightarrow> ftl_request \<Rightarrow> nat \<Rightarrow> pm_state \<Rightarrow> 'w \<Rightarrow>
    (nat \<times> pm_state \<times> 'w) res" where
  "pm_trimInternal E req tick0 s w0 =
     (case pm_table s (f_lpn req) of
        None \<Rightarrow> Inr (tick0, s, w0)
      | Some ml \<Rightarrow>
          rbind (ll_dram_read (e_low E) (f_lpn req) (pm_entryBytes s (f_ioFlag req)) tick0 w0) (\<lambda>(tick, w1).
          rbind (rfold (pm_trimUnit ml) [0..<pm_bitsetSize s] s) (\<lambda>s1.
            let (t, w2) = cpu_charge (e_low E) CPU_PAGE_MAPPING FN_TRIM_INTERNAL tick w1
            in Inr (t, s1\<lparr>pm_table := (pm_table s1)(f_lpn req := None)\<rparr>, w2))))"

definition pm_formatEntry :: "lpn_range \<Rightarrow> nat \<Rightarrow> pm_state \<times> nat list \<Rightarrow> (pm_state \<times> nat list) res" where
  "pm_formatEntry rg lpn = (\<lambda>(s, found).
     case pm_table s lpn of
       None \<Rightarrow> Inr (s, found)
     | Some ml \<Rightarrow>
         if slpn rg \<le> lpn \<and> lpn < slpn rg + nlp rg then
           rbind (rfold (pm_trimUnit ml) [0..<pm_bitsetSize s] s) (\<lambda>s1.
             Inr (s1\<lparr>pm_table := (pm_table s1)(lpn := None)\<rparr>,
                  found @ map (\<lambda>i. fst (ml ! i)) [0..<pm_bitsetSize s]))
         else Inr (s, found))"

definition pm_format :: "'w ftl_env \<Rightarrow> lpn_range \<Rightarrow> nat \<Rightarrow> pm_state \<Rightarrow> 'w \<Rightarrow> (nat \<times> pm_state \<times> 'w) res" where
  "pm_format E rg tick s w =
     rbind (rfold (pm_formatEntry rg) (e_tableOrder E (pm_table s)) (s, [])) (\<lambda>(s1, found).
     rbind (pm_doGarbageCollection E (remdups_adj (sort found)) tick s1 w) (\<lambda>(t, s2, w2).
       let (t', w3) = cpu_charge (e_low E) CPU_PAGE_MAPPING FN_FORMAT t w2 in Inr (t', s2, w3)))"

section \<open>The interface of the class\<close>

definition pm_read :: "'w ftl_env \<Rightarrow> ftl_request \<Rightarrow> nat \<Rightarrow> pm_state \<Rightarrow> 'w \<Rightarrow> (nat \<times> pm_state \<times> 'w) res" where
  "pm_read E req tick s w =
     rbind (if bs_count (f_ioFlag req) > 0 then pm_readInternal E req tick s w else Inr (tick, s, w))
       (\<lambda>(t, s', w'). let (t', w'') = cpu_charge (e_low E) CPU_PAGE_MAPPING FN_READ t w' in Inr (t', s', w''))"

definition pm_write :: "'w ftl_env \<Rightarrow> ftl_request \<Rightarrow> nat \<Rightarrow> pm_state \<Rightarrow> 'w \<Rightarrow> (nat \<times> pm_state \<times> 'w) res" where
  "pm_write E req tick s w =
     rbind (if bs_count (f_ioFlag req) > 0 then pm_writeInternal E req True tick s w else Inr (tick, s, w))
       (\<lambda>(t, s', w'). let (t', w'') = cpu_charge (e_low E) CPU_PAGE_MAPPING FN_WRITE t w' in Inr (t', s', w''))"

definition pm_trim :: "'w ftl_env \<Rightarrow> ftl_request \<Rightarrow> nat \<Rightarrow> pm_state \<Rightarrow> 'w \<Rightarrow> (nat \<times> pm_state \<times> 'w) res" where
  "pm_trim E req tick s w =
     rbind (pm_trimInternal E req tick s w)
       (\<lambda>(t, s', w'). let (t', w'') = cpu_charge (e_low E) CPU_PAGE_MAPPING FN_TRIM t w' in Inr (t', s', w''))"

definition pm_getStatus :: "'w ftl_env \<Rightarrow> nat \<Rightarrow> nat \<Rightarrow> pm_state \<Rightarrow> pm_state" where
  "pm_getStatus E lpnBegin lpnEnd s =
     s\<lparr>pm_freePhysicalBlocks := pm_nFreeBlocks s,
       pm_mappedLogicalPages :=
         (if lpnBegin = 0 \<and> lpnEnd \<ge> pm_totalLogicalPages s then length (e_tableOrder E (pm_table s))
          else length (filter (\<lambda>lpn. pm_table s lpn \<noteq> None) [lpnBegin..<lpnEnd]))\<rparr>"

definition pm_calculateTotalPages :: "'w ftl_env \<Rightarrow> pm_state \<Rightarrow> (nat \<times> nat) res" where
  "pm_calculateTotalPages E s =
     rfold (\<lambda>k (valid, invalid). case pm_blocks s k of None \<Rightarrow> Inr (valid, invalid)
       | Some b \<Rightarrow> rbind (blk_getDirtyPageCount b) (\<lambda>d.
           Inr (valid + blk_getValidPageCount b, invalid + d)))
       (e_blockOrder E (pm_blocks s)) (0, 0)"

definition pm_calculateWearLeveling :: "'w ftl_env \<Rightarrow> pm_state \<Rightarrow> fl" where
  "pm_calculateWearLeveling E s =
     (let used = map (\<lambda>k. case pm_blocks s k of None \<Rightarrow> 0 | Some b \<Rightarrow> blk_getEraseCount b)
                   (e_blockOrder E (pm_blocks s));
          free = takeWhile (\<lambda>n. n \<noteq> 0) (map blk_getEraseCount (rev (pm_freeBlocks s)));
          total = sum_list (used @ free);
          squares = sum_list (map (\<lambda>n. n * n) (used @ free))
      in if squares = 0 then Fin (- 1)
         else fl_div 24 (fl_mul 24 (fl_of_nat 24 total) (fl_of_nat 24 total))
                (fl_of_nat 24 (totalLogicalBlocks (e_param E) * squares)))"

definition pm_resetStatValues :: "pm_state \<Rightarrow> pm_state" where
  "pm_resetStatValues s = s\<lparr>pm_stat := pm_stat0\<rparr>"

section \<open>Construction and warm-up\<close>

definition pm_new :: "'w ftl_env \<Rightarrow> pm_state res" where
  "pm_new E =
     (let P = e_param E in
      rbind (rfold (\<lambda>i bs. rbind (blk_new i (pagesInBlock P) (ioUnitInPage P)) (\<lambda>b. Inr (bs @ [b])))
               [0..<totalPhysicalBlocks P] []) (\<lambda>free.
      rbind (rfold (\<lambda>i s. rbind (pm_getFreeBlock P i s) (\<lambda>(k, s').
               Inr (s'\<lparr>pm_lastFreeBlock := (pm_lastFreeBlock s')[i := k]\<rparr>)))
               [0..<pageCountToMaxPerf P]
               \<lparr>pm_table = Map.empty, pm_blocks = Map.empty, pm_freeBlocks = free,
                pm_nFreeBlocks = totalPhysicalBlocks P,
                pm_lastFreeBlock = replicate (pageCountToMaxPerf P) 0,
                pm_lastFreeBlockIOMap = bs_new (ioUnitInPage P), pm_lastFreeBlockIndex = 0,
                pm_bReclaimMore = False, pm_bRandomTweak = c_randomTweak (e_conf E),
                pm_bitsetSize = (if c_randomTweak (e_conf E) then ioUnitInPage P else 1),
                pm_stat = pm_stat0, pm_totalLogicalPages = totalLogicalBlocks P * pagesInBlock P,
                pm_mappedLogicalPages = 0, pm_freePhysicalBlocks = 0\<rparr>) Inr))"

text \<open>Writing one page of the warm-up: tick 0, no PAL traffic.\<close>

definition pm_warm :: "'w ftl_env \<Rightarrow> nat \<Rightarrow> pm_state \<times> 'w \<Rightarrow> (pm_state \<times> 'w) res" where
  "pm_warm E lpn = (\<lambda>(s, w).
     rbind (pm_writeInternal E ((ftl_request_new (ioUnitInPage (e_param E)))\<lparr>f_lpn := lpn,
              f_ioFlag := bs_set_all (bs_new (ioUnitInPage (e_param E)))\<rparr>) False 0 s w)
       (\<lambda>(_, s', w'). Inr (s', w')))"

definition pm_warmSequential :: "'w ftl_env \<Rightarrow> nat \<Rightarrow> pm_state \<times> 'w \<Rightarrow> (pm_state \<times> 'w) res" where
  "pm_warmSequential E n = rfold (pm_warm E) [0..<n]"

definition pm_warmRandom :: "'w ftl_env \<Rightarrow> nat \<Rightarrow> nat \<Rightarrow> pm_state \<times> 'w \<Rightarrow> (pm_state \<times> 'w) res" where
  "pm_warmRandom E n bound =
     rfold (\<lambda>_ (s, w). let (lpn, w') = ll_random (e_low E) ((bound + 2 ^ 64 - 1) mod 2 ^ 64) w
                       in pm_warm E lpn (s, w')) [0..<n]"

definition pm_warmCounts :: "'w ftl_env \<Rightarrow> (nat \<times> nat) res" where
  "pm_warmCounts E =
     (let P = e_param E; C = e_conf E; nTotal = fl_of_nat 24 (totalLogicalBlocks P * pagesInBlock P) in
      rbind (fl_to_nat (fl_mul 24 nTotal (c_fillRatio C))) (\<lambda>nWarm.
      rbind (fl_to_nat (fl_mul 24 nTotal (c_invalidRatio C))) (\<lambda>nInval.
      rbind (fl_to_nat (fl_mul 24 (fl_of_nat 24 (pagesInBlock P))
               (fl_sub 24 (fl_mul 24 (fl_of_nat 24 (totalPhysicalBlocks P)) (fl_sub 24 (Fin 1) (c_gcThreshold C)))
                          (fl_of_nat 24 (pageCountToMaxPerf P))))) (\<lambda>maxPages.
        Inr (nWarm, if nWarm + nInval > maxPages then (maxPages + 2 ^ 64 - nWarm) mod 2 ^ 64 else nInval)))))"

definition pm_initialize :: "'w ftl_env \<Rightarrow> pm_state \<Rightarrow> 'w \<Rightarrow> (bool \<times> pm_state \<times> 'w) res" where
  "pm_initialize E s w =
     (let mode = c_fillingMode (e_conf E);
          nTotal = totalLogicalBlocks (e_param E) * pagesInBlock (e_param E) in
      rbind (pm_warmCounts E) (\<lambda>(nWarm, nInval).
      rbind (if mode = 0 \<or> mode = 1 then pm_warmSequential E nWarm (s, w)
             else pm_warmRandom E nWarm nTotal (s, w)) (\<lambda>s1.
      rbind (if mode = 0 then pm_warmSequential E nInval s1
             else if mode = 1 then pm_warmRandom E nInval nWarm s1
             else pm_warmRandom E nInval nTotal s1) (\<lambda>(s2, w2).
      rbind (pm_calculateTotalPages E s2) (\<lambda>_. Inr (True, s2, w2))))))"

end
