(* ===== verification/PageMapInv.thy ===== *)
theory PageMapInv
  imports PageMap
begin

text \<open>
  The invariant of the page-level FTL and its preservation by writes, trims and reads.

  The mapping table is read as a partial map \<open>logi\<close> from (LPN, unit) to (block, page), the blocks as a
  partial map \<open>phys\<close> from (block, page, unit) to LPN.  The heart of the invariant, \<open>pm_cons\<close>, says that the
  two are inverse to each other: every mapped unit has a valid copy that names it, and every valid
  copy on flash is the one the table points to.  \<open>pm_cons X\<close> is the intermediate form inside an
  operation, in which the units of \<open>X\<close> have lost their old copy and not yet got the new one.
\<close>

section \<open>The invariant\<close>

definition logi :: "ftl_param \<Rightarrow> (nat \<rightharpoonup> mapping_list) \<Rightarrow> nat \<times> nat \<Rightarrow> (nat \<times> nat) option" where
  "logi P tbl = (\<lambda>(l, i). case tbl l of None \<Rightarrow> None
     | Some ml \<Rightarrow> if i < length ml \<and> pm_mapped P (ml ! i) then Some (ml ! i) else None)"

definition blk_fits :: "ftl_param \<Rightarrow> block \<Rightarrow> bool" where
  "blk_fits P b \<longleftrightarrow> blk_inv b \<and> b_pageCount b = pagesInBlock P \<and> b_ioUnitInPage b = ioUnitInPage P
     \<and> b_idx b < totalPhysicalBlocks P"

definition blk_clean :: "block \<Rightarrow> bool" where
  "blk_clean b \<longleftrightarrow> (\<forall>p < b_pageCount b. \<forall>i < b_ioUnitInPage b. \<not> blk_valid b p i) \<and>
     (\<forall>i < b_ioUnitInPage b. blk_next b i = 0)"

definition ftl_param_ok :: "ftl_param \<Rightarrow> bool" where
  "ftl_param_ok P \<longleftrightarrow> 0 < pagesInBlock P \<and> 0 < ioUnitInPage P \<and> 0 < pageCountToMaxPerf P"

definition pm_shape :: "ftl_param \<Rightarrow> pm_state \<Rightarrow> bool" where
  "pm_shape P s \<longleftrightarrow> ftl_param_ok P
     \<and> pm_bitsetSize s = (if pm_bRandomTweak s then ioUnitInPage P else 1)
     \<and> length (pm_lastFreeBlock s) = pageCountToMaxPerf P
     \<and> pm_lastFreeBlockIndex s < pageCountToMaxPerf P
     \<and> bs_wf (pm_lastFreeBlockIOMap s) \<and> bs_dataSize (pm_lastFreeBlockIOMap s) = ioUnitInPage P
     \<and> (\<forall>k b. pm_blocks s k = Some b \<longrightarrow> blk_fits P b \<and> b_idx b = k)
     \<and> (\<forall>b \<in> set (pm_freeBlocks s). blk_fits P b \<and> blk_clean b \<and> pm_blocks s (b_idx b) = None)
     \<and> distinct (map b_idx (pm_freeBlocks s))
     \<and> pm_nFreeBlocks s = length (pm_freeBlocks s)
     \<and> (\<forall>l ml. pm_table s l = Some ml \<longrightarrow> length ml = pm_bitsetSize s)"

definition inverse_off :: "(nat \<times> nat) set \<Rightarrow> (nat \<times> nat \<times> nat \<Rightarrow> nat option) \<Rightarrow>
    (nat \<times> nat \<Rightarrow> (nat \<times> nat) option) \<Rightarrow> bool" where
  "inverse_off X ph lo \<longleftrightarrow>
     (\<forall>k p i l. ph (k, p, i) = Some l \<longleftrightarrow> lo (l, i) = Some (k, p) \<and> (l, i) \<notin> X)"

definition pm_cons :: "ftl_param \<Rightarrow> (nat \<times> nat) set \<Rightarrow> pm_state \<Rightarrow> bool" where
  "pm_cons P X s \<longleftrightarrow> inverse_off X (phys (pm_blocks s)) (logi P (pm_table s))"

definition pm_inv :: "ftl_param \<Rightarrow> pm_state \<Rightarrow> bool" where
  "pm_inv P s \<longleftrightarrow> pm_shape P s \<and> pm_cons P {} s"

text \<open>Every parallel slot has an open block.\<close>

definition pm_open :: "ftl_param \<Rightarrow> pm_state \<Rightarrow> bool" where
  "pm_open P s \<longleftrightarrow> (\<forall>i < pageCountToMaxPerf P. pm_blocks s (pm_lastFreeBlock s ! i) \<noteq> None)"

lemma pm_shapeD:
  assumes "pm_shape P s"
  shows "ftl_param_ok P" "pm_bitsetSize s = (if pm_bRandomTweak s then ioUnitInPage P else 1)"
    "length (pm_lastFreeBlock s) = pageCountToMaxPerf P" "pm_lastFreeBlockIndex s < pageCountToMaxPerf P"
    "bs_wf (pm_lastFreeBlockIOMap s)" "bs_dataSize (pm_lastFreeBlockIOMap s) = ioUnitInPage P"
    "pm_blocks s k = Some b \<Longrightarrow> blk_fits P b \<and> b_idx b = k"
    "b \<in> set (pm_freeBlocks s) \<Longrightarrow> blk_fits P b \<and> blk_clean b \<and> pm_blocks s (b_idx b) = None"
    "distinct (map b_idx (pm_freeBlocks s))" "pm_nFreeBlocks s = length (pm_freeBlocks s)"
    "pm_table s l = Some ml \<Longrightarrow> length ml = pm_bitsetSize s"
  using assms by (auto simp: pm_shape_def)

lemma blk_fitsD:
  assumes "blk_fits P b"
  shows "blk_inv b" "blk_rep b" "b_pageCount b = pagesInBlock P" "b_ioUnitInPage b = ioUnitInPage P"
    "b_idx b < totalPhysicalBlocks P"
  using assms by (auto simp: blk_fits_def blk_inv_rep)

lemma pm_units: "pm_shape P s \<Longrightarrow> i < pm_bitsetSize s \<Longrightarrow> i < ioUnitInPage P"
  using pm_shapeD(1,2)[of P s] by (auto simp: ftl_param_ok_def split: if_splits)

lemma logi_Some_iff:
  "logi P tbl (l, i) = Some m \<longleftrightarrow> (\<exists>ml. tbl l = Some ml \<and> i < length ml \<and> m = ml ! i \<and> pm_mapped P m)"
  by (auto simp: logi_def split: option.splits)

text \<open>Replacing a block by one with the same owner slots, and updating one table slot.\<close>

lemma pm_shape_set_block:
  assumes "pm_shape P s" "pm_blocks s k = Some b" "blk_fits P b'" "b_idx b' = b_idx b"
  shows "pm_shape P (set_block k b' s)"
  using assms by (auto simp: pm_shape_def)

lemma pm_shape_set_table:
  assumes "pm_shape P s" "length ml = pm_bitsetSize s"
  shows "pm_shape P (s\<lparr>pm_table := (pm_table s)(l \<mapsto> ml)\<rparr>)"
  using assms by (simp add: pm_shape_def)

lemma logi_update:
  assumes "tbl l = Some ml" "i < length ml" "pm_mapped P m"
  shows "logi P (tbl(l \<mapsto> ml[i := m])) = (logi P tbl)((l, i) \<mapsto> m)"
  using assms by (auto simp: logi_def fun_eq_iff nth_list_update split: option.splits)

lemma logi_new_entry:
  assumes "tbl l = None"
  shows "logi P (tbl(l \<mapsto> replicate n (totalPhysicalBlocks P, pagesInBlock P))) = logi P tbl"
  using assms by (auto simp: logi_def fun_eq_iff pm_mapped_def split: option.splits)

lemma logi_drop_entry: "logi P (tbl(l := None)) = (\<lambda>(l', i). if l' = l then None else logi P tbl (l', i))"
  by (auto simp: logi_def fun_eq_iff)

section \<open>Taking a free block\<close>

lemma pm_searchFree_mset: "pm_searchFree n i bs = Some (b, rest) \<Longrightarrow> mset bs = add_mset b (mset rest)"
  by (induction bs arbitrary: rest) (auto split: if_splits)

lemma pm_pickFree_ok:
  assumes "bs \<noteq> []"
  obtains b rest where "pm_pickFree P i bs = Inr (b, rest)" "mset bs = add_mset b (mset rest)"
proof (cases "pm_searchFree (pageCountToMaxPerf P) i bs")
  case None
  then show ?thesis using assms that by (cases bs) (auto simp: pm_pickFree_def)
next
  case (Some r)
  then show ?thesis using that pm_searchFree_mset by (cases r) (auto simp: pm_pickFree_def)
qed

lemma pm_getFreeBlock_ok:
  assumes sh: "pm_shape P s" and i: "i < pageCountToMaxPerf P" and n: "0 < pm_nFreeBlocks s"
  obtains b fr where "pm_getFreeBlock P i s = Inr (b_idx b,
      s\<lparr>pm_blocks := (pm_blocks s)(b_idx b \<mapsto> b), pm_freeBlocks := fr, pm_nFreeBlocks := pm_nFreeBlocks s - 1\<rparr>)"
    "b \<in> set (pm_freeBlocks s)" "mset (pm_freeBlocks s) = add_mset b (mset fr)"
proof -
  have ne: "pm_freeBlocks s \<noteq> []" using n pm_shapeD(10)[OF sh] by auto
  obtain b fr where b: "pm_pickFree P i (pm_freeBlocks s) = Inr (b, fr)"
    "mset (pm_freeBlocks s) = add_mset b (mset fr)" by (rule pm_pickFree_ok[OF ne])
  have bin: "b \<in> set (pm_freeBlocks s)" using b(2) by (metis set_mset_mset union_single_eq_member)
  then have "pm_blocks s (b_idx b) = None" using pm_shapeD(8)[OF sh] by blast
  then show ?thesis
    using b bin i n by (intro that[of b fr]) (simp_all add: pm_getFreeBlock_def blk_getBlockIndex_def Let_def)
qed

lemma pm_shape_take_free:
  assumes sh: "pm_shape P s" and b: "mset (pm_freeBlocks s) = add_mset b (mset fr)"
  shows "pm_shape P (s\<lparr>pm_blocks := (pm_blocks s)(b_idx b \<mapsto> b), pm_freeBlocks := fr,
      pm_nFreeBlocks := pm_nFreeBlocks s - 1\<rparr>)"
proof -
  have set: "set (pm_freeBlocks s) = insert b (set fr)" using b by (metis set_mset_add_mset_insert set_mset_mset)
  have "mset (map b_idx (pm_freeBlocks s)) = mset (map b_idx (b # fr))" using b by simp
  then have d: "distinct (map b_idx (b # fr))"
    using pm_shapeD(9)[OF sh] by (metis mset_eq_imp_distinct_iff)
  have len: "length (pm_freeBlocks s) = Suc (length fr)" using b by (metis size_add_mset size_mset)
  have fb: "blk_fits P b" using pm_shapeD(8)[OF sh, of b] set by simp
  have new: "pm_blocks s (b_idx b) = None" using pm_shapeD(8)[OF sh, of b] set by simp
  have fr: "blk_fits P c \<and> blk_clean c \<and> pm_blocks s (b_idx c) = None \<and> b_idx c \<noteq> b_idx b" if "c \<in> set fr" for c
    using pm_shapeD(8)[OF sh, of c] set d that by (auto simp: image_iff)
  show ?thesis
    using sh fb new fr d len unfolding pm_shape_def by (simp split: if_splits)
qed

lemma phys_take_free:
  assumes "pm_shape P s" "b \<in> set (pm_freeBlocks s)"
  shows "phys ((pm_blocks s)(b_idx b \<mapsto> b)) = phys (pm_blocks s)"
  using pm_shapeD(8)[OF assms] by (intro phys_add) (auto simp: blk_clean_def)


section \<open>Choosing the open block\<close>

lemma pm_advance_ok:
  assumes sh: "pm_shape P s" and f: "bs_wf flag" "bs_dataSize flag = ioUnitInPage P"
  obtains j m where "pm_advance P flag s = Inr (s\<lparr>pm_lastFreeBlockIndex := j, pm_lastFreeBlockIOMap := m\<rparr>)"
    "j < pageCountToMaxPerf P" "bs_wf m" "bs_dataSize m = ioUnitInPage P"
proof -
  let ?m = "pm_lastFreeBlockIOMap s" and ?j = "pm_lastFreeBlockIndex s"
  note m = pm_shapeD(5,6)[OF sh] and j = pm_shapeD(4)[OF sh]
  have sz: "bs_dataSize ?m = bs_dataSize flag" using m f by simp
  obtain a where a: "bs_and ?m flag = Inr a" using bs_and_ok[OF m(1) f(1) sz] by blast
  obtain o' where o: "bs_or ?m flag = Inr o'" "bs_wf o'" "bs_dataSize o' = ioUnitInPage P"
    using bs_or_ok[OF m(1) f(1) sz] m(2) by auto
  show ?thesis
  proof (cases "\<not> pm_bRandomTweak s \<or> bs_any a")
    case True
    then show ?thesis
      using a f j by (intro that[where j = "if ?j + 1 = pageCountToMaxPerf P then 0 else ?j + 1" and m = flag])
        (auto simp: pm_advance_def Let_def)
  next
    case False
    then show ?thesis using a o j by (intro that[where j = ?j and m = o']) (auto simp: pm_advance_def)
  qed
qed

lemma pm_shape_set_open:
  assumes "pm_shape P s"
  shows "pm_shape P (s\<lparr>pm_lastFreeBlock := (pm_lastFreeBlock s)[j := n], pm_bReclaimMore := r\<rparr>)"
  using assms by (simp add: pm_shape_def)

text \<open>
  What the callers of \<open>getLastFreeBlock\<close> need: an in-use block with room in every unit, nothing
  unmapped, nothing moved.
\<close>

definition pm_opened :: "ftl_param \<Rightarrow> pm_state \<Rightarrow> nat \<Rightarrow> pm_state \<Rightarrow> bool" where
  "pm_opened P s k s' \<longleftrightarrow> pm_shape P s' \<and> pm_table s' = pm_table s \<and> pm_bitsetSize s' = pm_bitsetSize s \<and>
     pm_bRandomTweak s' = pm_bRandomTweak s \<and> phys (pm_blocks s') = phys (pm_blocks s) \<and>
     pm_blocks s \<subseteq>\<^sub>m pm_blocks s' \<and> pm_stat s' = pm_stat s \<and>
     pm_nFreeBlocks s' \<le> pm_nFreeBlocks s \<and> pm_nFreeBlocks s \<le> Suc (pm_nFreeBlocks s') \<and>
     (\<exists>b. pm_blocks s' k = Some b \<and> blk_getNextWritePageIndexMax b < pagesInBlock P)"

lemma blk_clean_next_max: "blk_clean b \<Longrightarrow> blk_getNextWritePageIndexMax b = 0"
  using blk_next_max_attained[of b] by (cases "blk_getNextWritePageIndexMax b") (auto simp: blk_clean_def)

lemma map_le_fresh: "m k = None \<Longrightarrow> m \<subseteq>\<^sub>m m(k \<mapsto> b)"
  by (auto simp: map_le_def)

lemma pm_getLastFreeBlock_cases:
  assumes sh: "pm_shape P s" and f: "bs_wf flag" "bs_dataSize flag = ioUnitInPage P"
  shows "(\<exists>k s'. pm_getLastFreeBlock P flag s = Inr (k, s') \<and> pm_opened P s k s' \<and> (pm_open P s \<longrightarrow> pm_open P s'))
     \<or> (\<not> pm_open P s \<and> pm_getLastFreeBlock P flag s = Inl (Panic ''Corrupted''))
     \<or> (pm_nFreeBlocks s = 0 \<and> pm_getLastFreeBlock P flag s = Inl (Panic ''No free block left''))"
proof -
  obtain j m where adv: "pm_advance P flag s = Inr (s\<lparr>pm_lastFreeBlockIndex := j, pm_lastFreeBlockIOMap := m\<rparr>)"
    and j: "j < pageCountToMaxPerf P" and m: "bs_wf m" "bs_dataSize m = ioUnitInPage P"
    by (rule pm_advance_ok[OF sh f])
  define t where "t = s\<lparr>pm_lastFreeBlockIndex := j, pm_lastFreeBlockIOMap := m\<rparr>"
  have t: "pm_shape P t" using sh j m by (simp add: t_def pm_shape_def)
  have tf: "pm_table t = pm_table s" "pm_blocks t = pm_blocks s" "pm_bitsetSize t = pm_bitsetSize s"
    "pm_bRandomTweak t = pm_bRandomTweak s" "pm_nFreeBlocks t = pm_nFreeBlocks s" "pm_stat t = pm_stat s"
    "pm_lastFreeBlock t = pm_lastFreeBlock s" "pm_lastFreeBlockIndex t = j" "pm_freeBlocks t = pm_freeBlocks s"
    by (simp_all add: t_def)
  have len: "j < length (pm_lastFreeBlock s)" using j pm_shapeD(3)[OF sh] by simp
  let ?k = "pm_lastFreeBlock s ! j"
  have run: "pm_getLastFreeBlock P flag s = rbind (pm_find t ?k (Panic ''Corrupted'')) (\<lambda>freeBlock.
       if blk_getNextWritePageIndexMax freeBlock = pagesInBlock P then
         rbind (pm_getFreeBlock P j t) (\<lambda>(n, s1).
           Inr (n, s1\<lparr>pm_lastFreeBlock := (pm_lastFreeBlock s1)[pm_lastFreeBlockIndex s1 := n], pm_bReclaimMore := True\<rparr>))
       else Inr (?k, t))"
    using adv len by (simp add: pm_getLastFreeBlock_def t_def[symmetric] tf cong: if_cong)
  show ?thesis
  proof (cases "pm_blocks s ?k")
    case None
    then show ?thesis using run j by (auto simp: pm_find_def tf pm_open_def)
  next
    case (Some b)
    have fb: "blk_fits P b" using pm_shapeD(7)[OF sh Some] by simp
    show ?thesis
    proof (cases "blk_getNextWritePageIndexMax b = pagesInBlock P")
      case False
      then have "blk_getNextWritePageIndexMax b < pagesInBlock P"
        using blk_next_max_le[of b] blk_fitsD[OF fb] by simp
      then have "pm_opened P s ?k t" using t Some by (simp add: pm_opened_def tf)
      moreover have "pm_getLastFreeBlock P flag s = Inr (?k, t)" using run False Some by (simp add: pm_find_def tf)
      moreover have "pm_open P s \<longrightarrow> pm_open P t" by (simp add: pm_open_def tf)
      ultimately show ?thesis by blast
    next
      case full: True
      show ?thesis
      proof (cases "pm_nFreeBlocks s = 0")
        case True
        then show ?thesis using run full Some j by (simp add: pm_find_def tf pm_getFreeBlock_def)
      next
        case False
        then have "0 < pm_nFreeBlocks t" by (simp add: tf)
        then obtain c fr where c: "pm_getFreeBlock P j t = Inr (b_idx c,
            t\<lparr>pm_blocks := (pm_blocks t)(b_idx c \<mapsto> c), pm_freeBlocks := fr, pm_nFreeBlocks := pm_nFreeBlocks t - 1\<rparr>)"
          "c \<in> set (pm_freeBlocks t)" "mset (pm_freeBlocks t) = add_mset c (mset fr)"
          by (rule pm_getFreeBlock_ok[OF t j])
        let ?u = "t\<lparr>pm_blocks := (pm_blocks t)(b_idx c \<mapsto> c), pm_freeBlocks := fr, pm_nFreeBlocks := pm_nFreeBlocks t - 1\<rparr>"
        let ?s' = "?u\<lparr>pm_lastFreeBlock := (pm_lastFreeBlock ?u)[pm_lastFreeBlockIndex ?u := b_idx c], pm_bReclaimMore := True\<rparr>"
        have "pm_find t ?k (Panic ''Corrupted'') = Inr b" using Some by (simp add: pm_find_def tf)
        then have r: "pm_getLastFreeBlock P flag s = Inr (b_idx c, ?s')"
          unfolding run using full by (simp only: rbind.simps c(1) if_True prod.case simp_thms)
        have u: "pm_shape P ?u" by (rule pm_shape_take_free[OF t c(3)])
        have s': "pm_shape P ?s'" by (rule pm_shape_set_open[OF u])
        have ph: "phys ((pm_blocks t)(b_idx c \<mapsto> c)) = phys (pm_blocks t)" by (rule phys_take_free[OF t c(2)])
        note cc = pm_shapeD(8)[OF t c(2)]
        have "0 < pagesInBlock P" using pm_shapeD(1)[OF sh] by (simp add: ftl_param_ok_def)
        then have opd: "pm_opened P s (b_idx c) ?s'"
          using s' ph cc False by (simp add: pm_opened_def tf blk_clean_next_max map_le_fresh)
        have op: "pm_open P s \<longrightarrow> pm_open P ?s'"
          using j len by (auto simp: pm_open_def tf nth_list_update)
        show ?thesis using r opd op by blast
      qed
    qed
  qed
qed

lemma pm_getLastFreeBlock_ok:
  assumes "pm_shape P s" "bs_wf flag" "bs_dataSize flag = ioUnitInPage P" "pm_open P s" "0 < pm_nFreeBlocks s"
  obtains k s' where "pm_getLastFreeBlock P flag s = Inr (k, s')" "pm_opened P s k s'" "pm_open P s'"
  using pm_getLastFreeBlock_cases[OF assms(1,2,3)] assms(4,5) by auto

lemma pm_getLastFreeBlock_Inr:
  assumes "pm_shape P s" "bs_wf flag" "bs_dataSize flag = ioUnitInPage P"
    "pm_getLastFreeBlock P flag s = Inr (k, s')"
  shows "pm_opened P s k s'" "pm_open P s \<Longrightarrow> pm_open P s'"
  using pm_getLastFreeBlock_cases[OF assms(1,2,3)] assms(4) by auto

lemma pm_opened_cons: "pm_opened P s k s' \<Longrightarrow> pm_cons P X s' = pm_cons P X s"
  by (simp add: pm_opened_def pm_cons_def)


section \<open>Dropping and writing one unit\<close>

lemma inverse_off_drop:
  assumes "inverse_off X ph lo" "lo (l, i) = Some (k, p)" "(l, i) \<notin> X"
  shows "inverse_off (insert (l, i) X) (ph((k, p, i) := None)) lo"
  unfolding inverse_off_def
proof (intro allI)
  fix k' p' i' l'
  have a: "ph (k', p', i') = Some l' \<longleftrightarrow> lo (l', i') = Some (k', p') \<and> (l', i') \<notin> X"
    using assms(1) by (simp add: inverse_off_def)
  have b: "ph (k, p, i) = Some l" using assms by (simp add: inverse_off_def)
  show "(ph((k, p, i) := None)) (k', p', i') = Some l' \<longleftrightarrow> lo (l', i') = Some (k', p') \<and> (l', i') \<notin> insert (l, i) X"
    using a b assms(2) by (cases "(k', p', i') = (k, p, i)") auto
qed

lemma inverse_off_add:
  assumes "inverse_off X ph lo" "ph (k, p, i) = None" "(l, i) \<in> X"
  shows "inverse_off (X - {(l, i)}) (ph((k, p, i) \<mapsto> l)) (lo((l, i) \<mapsto> (k, p)))"
  unfolding inverse_off_def
proof (intro allI)
  fix k' p' i' l'
  have a: "ph (k', p', i') = Some l' \<longleftrightarrow> lo (l', i') = Some (k', p') \<and> (l', i') \<notin> X"
    using assms(1) by (simp add: inverse_off_def)
  have b: "\<not> (lo (l', i) = Some (k, p) \<and> (l', i) \<notin> X)"
  proof
    assume "lo (l', i) = Some (k, p) \<and> (l', i) \<notin> X"
    then have "ph (k, p, i) = Some l'" using assms(1) by (simp add: inverse_off_def)
    then show False using assms(2) by simp
  qed
  show "(ph((k, p, i) \<mapsto> l)) (k', p', i') = Some l' \<longleftrightarrow>
      (lo((l, i) \<mapsto> (k, p))) (l', i') = Some (k', p') \<and> (l', i') \<notin> X - {(l, i)}"
    using a b assms(3) by (cases "(k', p', i') = (k, p, i)"; cases "(l', i') = (l, i)") auto
qed

text \<open>The two elementary steps of every operation, on the table and the blocks together.\<close>

lemma pm_clear_slot:
  assumes sh: "pm_shape P s" and c: "pm_cons P X s"
    and m: "logi P (pm_table s) (l, i) = Some (k, p)" and x: "(l, i) \<notin> X"
  obtains b where "pm_blocks s k = Some b" "blk_invalidate b p i = Inr (blk_clear b p i)"
    "pm_shape P (set_block k (blk_clear b p i) s)" "pm_cons P (insert (l, i) X) (set_block k (blk_clear b p i) s)"
proof -
  have "phys (pm_blocks s) (k, p, i) = Some l" using c m x by (simp add: pm_cons_def inverse_off_def)
  then obtain b where b: "pm_blocks s k = Some b" "p < b_pageCount b" "i < b_ioUnitInPage b"
    by (auto simp: phys_Some_iff)
  note fb = pm_shapeD(7)[OF sh b(1)] and fd = blk_fitsD[OF conjunct1[OF pm_shapeD(7)[OF sh b(1)]]]
  have fit: "blk_fits P (blk_clear b p i)"
    using fb b blk_clear_inv[of b p i] by (simp add: blk_fits_def)
  have ph: "phys ((pm_blocks s)(k \<mapsto> blk_clear b p i)) = (phys (pm_blocks s))((k, p, i) := None)"
    by (rule phys_clear) (use b fd in auto)
  show ?thesis
  proof (rule that[OF b(1)])
    show "blk_invalidate b p i = Inr (blk_clear b p i)" using blk_invalidate_eq[of b p i] b fd by simp
    show "pm_shape P (set_block k (blk_clear b p i) s)" by (rule pm_shape_set_block[OF sh b(1) fit]) simp
    show "pm_cons P (insert (l, i) X) (set_block k (blk_clear b p i) s)"
      using inverse_off_drop[OF c[unfolded pm_cons_def] m x] by (simp add: pm_cons_def ph)
  qed
qed

lemma pm_program_slot:
  fixes t :: nat
  assumes sh: "pm_shape P s" and c: "pm_cons P X s" and x: "(l, i) \<in> X"
    and ml: "pm_table s l = Some ml" and i: "i < pm_bitsetSize s"
    and b: "pm_blocks s k = Some b" and room: "blk_next b i < pagesInBlock P"
  defines "p \<equiv> blk_next b i"
  defines "s' \<equiv> (set_block k (blk_program b p l i t) s)\<lparr>pm_table := (pm_table s)(l \<mapsto> ml[i := (k, p)])\<rparr>"
  shows "blk_write b p l i t = Inr (True, blk_program b p l i t)" "pm_shape P s'" "pm_cons P (X - {(l, i)}) s'"
    "logi P (pm_table s') = (logi P (pm_table s))((l, i) \<mapsto> (k, p))" "phys (pm_blocks s) (k, p, i) = None"
proof -
  note fb = pm_shapeD(7)[OF sh b] and fd = blk_fitsD[OF conjunct1[OF pm_shapeD(7)[OF sh b]]]
  have iu: "i < b_ioUnitInPage b" using pm_units[OF sh i] fd by simp
  have p: "p < b_pageCount b" using room fd by (simp add: p_def)
  have er: "blk_erased b p i" using fd(1) p iu by (auto simp: blk_inv_def p_def)
  show "blk_write b p l i t = Inr (True, blk_program b p l i t)"
    using blk_write_eq[OF fd(2) p iu] er by (simp add: p_def)
  have fit: "blk_fits P (blk_program b p l i t)"
    using fb p iu blk_program_inv[of b p i] by (simp add: blk_fits_def p_def)
  have sh1: "pm_shape P (set_block k (blk_program b p l i t) s)" by (rule pm_shape_set_block[OF sh b fit]) simp
  have len: "length ml = pm_bitsetSize s" by (rule pm_shapeD(11)[OF sh ml])
  show "pm_shape P s'" unfolding s'_def
    using pm_shape_set_table[OF sh1, of "ml[i := (k, p)]" l] len by simp
  have ph: "phys ((pm_blocks s)(k \<mapsto> blk_program b p l i t)) = (phys (pm_blocks s))((k, p, i) \<mapsto> l)"
    by (rule phys_program) (use b fd p iu in \<open>auto simp: p_def\<close>)
  have lo: "logi P ((pm_table s)(l \<mapsto> ml[i := (k, p)])) = (logi P (pm_table s))((l, i) \<mapsto> (k, p))"
    by (rule logi_update) (use ml i len fd fb room in \<open>auto simp: pm_mapped_def p_def\<close>)
  then show "logi P (pm_table s') = (logi P (pm_table s))((l, i) \<mapsto> (k, p))" by (simp add: s'_def)
  show fr: "phys (pm_blocks s) (k, p, i) = None"
    by (rule phys_frontier[of "pm_blocks s" k b]) (use b fd iu in \<open>auto simp: p_def\<close>)
  show "pm_cons P (X - {(l, i)}) s'"
    using inverse_off_add[OF c[unfolded pm_cons_def] fr x] by (simp add: pm_cons_def s'_def ph lo)
qed


section \<open>Writing a page\<close>

text \<open>What the loops over the units leave alone.\<close>

definition pm_same :: "pm_state \<Rightarrow> pm_state \<Rightarrow> bool" where
  "pm_same s s' \<longleftrightarrow> pm_bitsetSize s' = pm_bitsetSize s \<and> pm_bRandomTweak s' = pm_bRandomTweak s \<and>
     pm_lastFreeBlock s' = pm_lastFreeBlock s \<and> pm_nFreeBlocks s' = pm_nFreeBlocks s \<and>
     dom (pm_blocks s') = dom (pm_blocks s)"

lemma pm_same_refl [simp]: "pm_same s s"
  by (simp add: pm_same_def)

lemma pm_same_trans: "pm_same s t \<Longrightarrow> pm_same t u \<Longrightarrow> pm_same s u"
  by (simp add: pm_same_def)

lemma pm_same_set_block: "pm_blocks s k = Some b \<Longrightarrow> pm_same s (set_block k b' s)"
  by (auto simp: pm_same_def)

lemma pm_same_open: "pm_same s s' \<Longrightarrow> pm_open P s' = pm_open P s"
  unfolding pm_same_def pm_open_def by (metis domIff)

lemma pm_same_table [simp]: "pm_same s (s'\<lparr>pm_table := t\<rparr>) = pm_same s s'"
  by (simp add: pm_same_def)

lemma pm_same_stat [simp]: "pm_same s (s'\<lparr>pm_stat := t\<rparr>) = pm_same s s'"
  by (simp add: pm_same_def)

lemma pm_selects_same: "pm_same s s' \<Longrightarrow> pm_selects s' = pm_selects s"
  by (simp add: pm_same_def pm_selects_def fun_eq_iff)

text \<open>The units of an LPN that a request with the given flag writes, from index \<open>lo\<close> up to \<open>hi\<close>.\<close>

definition pm_units_of :: "pm_state \<Rightarrow> bitset \<Rightarrow> nat \<Rightarrow> nat \<Rightarrow> nat \<Rightarrow> (nat \<times> nat) set" where
  "pm_units_of s flag l lo hi = {(l, i) | i. lo \<le> i \<and> i < hi \<and> pm_selects s flag i}"

lemma pm_units_of_empty [simp]: "pm_units_of s flag l n n = {}"
  by (auto simp: pm_units_of_def)

lemma pm_units_of_Suc:
  "pm_units_of s flag l 0 (Suc i) =
     (if pm_selects s flag i then insert (l, i) (pm_units_of s flag l 0 i) else pm_units_of s flag l 0 i)"
  by (auto simp: pm_units_of_def less_Suc_eq)

lemma pm_units_of_drop:
  assumes "i < n"
  shows "pm_units_of s flag l (Suc i) n =
     (if pm_selects s flag i then pm_units_of s flag l i n - {(l, i)} else pm_units_of s flag l i n)"
  using assms by (auto simp: pm_units_of_def Suc_le_eq le_less)

lemma pm_cons_more:
  assumes "pm_cons P X s" "logi P (pm_table s) x = None"
  shows "pm_cons P (insert x X) s"
  using assms by (auto simp: pm_cons_def inverse_off_def)

lemma pm_invalidateOld_ok:
  assumes sh: "pm_shape P s" and c: "pm_cons P X s" and ml: "pm_table s l = Some ml"
    and i: "i < pm_bitsetSize s" and x: "(l, i) \<notin> X" and sel: "pm_selects s flag i"
  shows "\<exists>s'. pm_invalidateOld P flag ml i s = Inr s' \<and> pm_shape P s' \<and> pm_cons P (insert (l, i) X) s' \<and>
     pm_same s s' \<and> pm_table s' = pm_table s"
proof -
  have len: "i < length ml" using pm_shapeD(11)[OF sh ml] i by simp
  obtain k p where kp: "ml ! i = (k, p)" by (cases "ml ! i")
  show ?thesis
  proof (cases "pm_mapped P (k, p)")
    case True
    then have "logi P (pm_table s) (l, i) = Some (k, p)" using ml len kp by (simp add: logi_Some_iff)
    from pm_clear_slot[OF sh c this x] obtain b where b: "pm_blocks s k = Some b"
      "blk_invalidate b p i = Inr (blk_clear b p i)" "pm_shape P (set_block k (blk_clear b p i) s)"
      "pm_cons P (insert (l, i) X) (set_block k (blk_clear b p i) s)" by blast
    have "pm_invalidateOld P flag ml i s = Inr (set_block k (blk_clear b p i) s)"
      using sel len kp True b(1,2) by (simp add: pm_invalidateOld_def pm_find_def)
    then show ?thesis using b pm_same_set_block[OF b(1)] by auto
  next
    case False
    then have "logi P (pm_table s) (l, i) = None" using ml kp by (simp add: logi_def)
    then have "pm_cons P (insert (l, i) X) s" by (rule pm_cons_more[OF c])
    moreover have "pm_invalidateOld P flag ml i s = Inr s"
      using sel len kp False by (simp add: pm_invalidateOld_def)
    ultimately show ?thesis using sh by auto
  qed
qed

text \<open>After the first step the entry exists and its selected units have no copy.\<close>

lemma pm_prepareEntry_ok:
  assumes inv: "pm_inv P s"
  shows "\<exists>s'. pm_prepareEntry P req s = Inr s' \<and> pm_shape P s' \<and>
     pm_cons P (pm_units_of s (f_ioFlag req) (f_lpn req) 0 (pm_bitsetSize s)) s' \<and>
     pm_same s s' \<and> logi P (pm_table s') = logi P (pm_table s) \<and> pm_table s' (f_lpn req) \<noteq> None \<and>
     dom (pm_table s') = insert (f_lpn req) (dom (pm_table s))"
proof -
  let ?l = "f_lpn req" and ?f = "f_ioFlag req" and ?Z = "pm_bitsetSize s"
  have sh: "pm_shape P s" and c: "pm_cons P {} s" using inv by (auto simp: pm_inv_def)
  show ?thesis
  proof (cases "pm_table s ?l")
    case (Some ml)
    define I where "I i s' \<longleftrightarrow> pm_shape P s' \<and> pm_cons P (pm_units_of s ?f ?l 0 i) s' \<and> pm_same s s' \<and>
        pm_table s' = pm_table s" for i s'
    have "\<exists>s'. rfold (pm_invalidateOld P ?f ml) [0..<?Z] s = Inr s' \<and> I ?Z s'"
    proof (rule rfold_upt_total)
      show "I 0 s" using sh c by (simp add: I_def)
      fix i t assume i: "i < ?Z" and t: "I i t"
      have sel: "pm_selects t = pm_selects s" using t pm_selects_same by (auto simp: I_def)
      show "\<exists>s'. pm_invalidateOld P ?f ml i t = Inr s' \<and> I (Suc i) s'"
      proof (cases "pm_selects t ?f i")
        case True
        have "\<exists>s'. pm_invalidateOld P ?f ml i t = Inr s' \<and> pm_shape P s' \<and>
            pm_cons P (insert (?l, i) (pm_units_of s ?f ?l 0 i)) s' \<and> pm_same t s' \<and> pm_table s' = pm_table t"
          by (rule pm_invalidateOld_ok) (use t i True Some in \<open>auto simp: I_def pm_same_def pm_units_of_def\<close>)
        then show ?thesis using t True sel pm_same_trans by (auto simp: I_def pm_units_of_Suc)
      next
        case False
        then have "pm_invalidateOld P ?f ml i t = Inr t" by (simp add: pm_invalidateOld_def)
        then show ?thesis using t False sel by (auto simp: I_def pm_units_of_Suc)
      qed
    qed
    then show ?thesis using Some by (auto simp: pm_prepareEntry_def I_def)
  next
    case None
    let ?ml = "replicate ?Z (totalPhysicalBlocks P, pagesInBlock P)"
    let ?t = "s\<lparr>pm_table := (pm_table s)(?l \<mapsto> ?ml)\<rparr>"
    have sh': "pm_shape P ?t" by (rule pm_shape_set_table[OF sh]) simp
    have lo: "logi P (pm_table ?t) = logi P (pm_table s)" using logi_new_entry[of "pm_table s" ?l] None by simp
    have no: "logi P (pm_table s) (?l, i) = None" for i using None by (simp add: logi_def)
    have "pm_cons P (pm_units_of s ?f ?l 0 ?Z) ?t"
      using c no lo by (auto simp: pm_cons_def inverse_off_def pm_units_of_def)
    then show ?thesis using None sh' lo by (auto simp: pm_prepareEntry_def)
  qed
qed


text \<open>
  The programming loop.  \<open>pm_writing\<close> is its invariant before unit \<open>i\<close>: the units below \<open>i\<close> are mapped
  to the open block \<open>k\<close> at the write pointers the block \<open>b0\<close> had at the start, the units from \<open>i\<close> on
  have no copy yet, and the block has room for them.
\<close>

definition pm_written :: "pm_state \<Rightarrow> bitset \<Rightarrow> nat \<Rightarrow> nat \<Rightarrow> block \<Rightarrow> nat \<Rightarrow>
    (nat \<times> nat \<Rightarrow> (nat \<times> nat) option) \<Rightarrow> nat \<times> nat \<Rightarrow> (nat \<times> nat) option" where
  "pm_written s flag l k b0 i lo =
     (\<lambda>x. if x \<in> pm_units_of s flag l 0 i then Some (k, blk_next b0 (snd x)) else lo x)"

definition pm_writing :: "ftl_param \<Rightarrow> ftl_request \<Rightarrow> nat \<Rightarrow> block \<Rightarrow> pm_state \<Rightarrow> nat \<Rightarrow> pm_state \<Rightarrow> bool" where
  "pm_writing P req k b0 s0 i s \<longleftrightarrow> pm_shape P s \<and> pm_same s0 s \<and>
     pm_cons P (pm_units_of s0 (f_ioFlag req) (f_lpn req) i (pm_bitsetSize s0)) s \<and>
     dom (pm_table s) = dom (pm_table s0) \<and>
     logi P (pm_table s) = pm_written s0 (f_ioFlag req) (f_lpn req) k b0 i (logi P (pm_table s0)) \<and>
     (\<exists>b. pm_blocks s k = Some b \<and>
        (\<forall>j < ioUnitInPage P. i \<le> j \<longrightarrow> blk_next b j = blk_next b0 j) \<and>
        (\<forall>j < ioUnitInPage P. blk_next b j \<le> pagesInBlock P))"

lemma pm_writeUnit_ok:
  assumes L: "lower_ok (e_low E)" and i: "i < pm_bitsetSize s0"
    and w: "pm_writing (e_param E) req k b0 s0 i s"
    and room: "\<forall>j < ioUnitInPage (e_param E). blk_next b0 j < pagesInBlock (e_param E)"
    and ne: "pm_table s0 (f_lpn req) \<noteq> None"
  shows "\<exists>s' w' t'. pm_writeUnit E req sendToPAL k rbw tick i (s, w, fin) = Inr (s', w', t') \<and>
     pm_writing (e_param E) req k b0 s0 (Suc i) s' \<and> fin \<le> t'"
proof -
  let ?P = "e_param E" and ?l = "f_lpn req" and ?f = "f_ioFlag req"
  have sh: "pm_shape ?P s" and same: "pm_same s0 s" and dm: "dom (pm_table s) = dom (pm_table s0)"
    and c: "pm_cons ?P (pm_units_of s0 ?f ?l i (pm_bitsetSize s0)) s"
    and lo: "logi ?P (pm_table s) = pm_written s0 ?f ?l k b0 i (logi ?P (pm_table s0))"
    using w by (auto simp: pm_writing_def)
  obtain b where b: "pm_blocks s k = Some b" "\<And>j. j < ioUnitInPage ?P \<Longrightarrow> i \<le> j \<Longrightarrow> blk_next b j = blk_next b0 j"
    "\<And>j. j < ioUnitInPage ?P \<Longrightarrow> blk_next b j \<le> pagesInBlock ?P"
    using w by (auto simp: pm_writing_def)
  have sel: "pm_selects s ?f i = pm_selects s0 ?f i" using pm_selects_same[OF same] by simp
  have Z: "i < pm_bitsetSize s" using i same by (simp add: pm_same_def)
  have iu: "i < ioUnitInPage ?P" by (rule pm_units[OF sh Z])
  show ?thesis
  proof (cases "pm_selects s0 ?f i")
    case False
    then show ?thesis using w sel i
      by (auto simp: pm_writeUnit_def pm_writing_def pm_units_of_drop pm_units_of_Suc pm_written_def)
  next
    case True
    obtain ml where ml: "pm_table s ?l = Some ml" using ne dm by blast
    have len: "i < length ml" using pm_shapeD(11)[OF sh ml] Z by simp
    have nx: "blk_next b i = blk_next b0 i" using b(2) iu by simp
    have rm: "blk_next b i < pagesInBlock ?P" using nx room iu by simp
    have x: "(?l, i) \<in> pm_units_of s0 ?f ?l i (pm_bitsetSize s0)" using True i by (simp add: pm_units_of_def)
    note st = pm_program_slot(1-4)[OF sh c x ml Z b(1) rm, where t = tick]
    let ?b' = "blk_program b (blk_next b i) ?l i tick"
    let ?s' = "(set_block k ?b' s)\<lparr>pm_table := (pm_table s)(?l \<mapsto> ml[i := (k, blk_next b i)])\<rparr>"
    note fd = blk_fitsD[OF conjunct1[OF pm_shapeD(7)[OF sh b(1)]]]
    have wr: "pm_writing ?P req k b0 s0 (Suc i) ?s'"
      unfolding pm_writing_def
    proof (intro conjI)
      show "pm_shape ?P ?s'" by (rule st(2))
      show "pm_same s0 ?s'" using pm_same_trans[OF same pm_same_set_block[OF b(1)]] by simp
      show "pm_cons ?P (pm_units_of s0 ?f ?l (Suc i) (pm_bitsetSize s0)) ?s'"
        using st(3) True by (simp only: pm_units_of_drop[OF i] if_True)
      show "dom (pm_table ?s') = dom (pm_table s0)" using dm ml by auto
      show "logi ?P (pm_table ?s') = pm_written s0 ?f ?l k b0 (Suc i) (logi ?P (pm_table s0))"
        unfolding st(4) lo using True nx by (auto simp: pm_written_def pm_units_of_Suc fun_eq_iff)
      show "\<exists>b. pm_blocks ?s' k = Some b \<and>
          (\<forall>j < ioUnitInPage ?P. Suc i \<le> j \<longrightarrow> blk_next b j = blk_next b0 j) \<and>
          (\<forall>j < ioUnitInPage ?P. blk_next b j \<le> pagesInBlock ?P)"
        using b(2,3) rm iu fd by (auto simp: blk_program_obs)
    qed
    obtain t1 w1 where r1: "io_if (rbw \<and> sendToPAL) (ll_pal_read (e_low E)
        ((pal_of_ftl req)\<lparr>p_blockIndex := fst (ml ! i), p_pageIndex := snd (ml ! i),
          p_ioFlag := bs_flip_all ?f\<rparr>)) tick w = Inr (t1, w1)"
      using timedD[OF timed_io_if[OF lower_ok_timed(1)[OF L]]] by metis
    obtain t2 w2 where r2: "io_if sendToPAL (ll_pal_write (e_low E)
        ((pal_of_ftl req)\<lparr>p_blockIndex := k, p_pageIndex := blk_next b i,
          p_ioFlag := pm_unitFlag s ?f i\<rparr>)) t1 w1 = Inr (t2, w2)"
      using timedD[OF timed_io_if[OF lower_ok_timed(2)[OF L]]] by metis
    have nxi: "blk_getNextWritePageIndex b i = blk_next b i"
      by (simp add: blk_getNextWritePageIndex_def blk_next_def)
    have "pm_writeUnit E req sendToPAL k rbw tick i (s, w, fin) = Inr (?s', w2, max fin t2)"
      unfolding pm_writeUnit_def
      using True sel b(1) ml len st(1) r1 r2
      by (simp add: pm_find_def nxi Let_def)
    then show ?thesis using wr by auto
  qed
qed


text \<open>
  The whole of \<open>writeInternal\<close> before the collection.  With an open block and a free block at hand it
  always succeeds; exactly the selected units of the LPN move, each to a slot that held no valid copy.
\<close>

definition pm_wrote :: "ftl_param \<Rightarrow> ftl_request \<Rightarrow> pm_state \<Rightarrow> pm_state \<Rightarrow> bool" where
  "pm_wrote P req s s' \<longleftrightarrow>
     (\<forall>l i. \<not> (l = f_lpn req \<and> i < pm_bitsetSize s \<and> pm_selects s (f_ioFlag req) i) \<longrightarrow>
        logi P (pm_table s') (l, i) = logi P (pm_table s) (l, i)) \<and>
     (\<forall>i < pm_bitsetSize s. pm_selects s (f_ioFlag req) i \<longrightarrow>
        (\<exists>k p. logi P (pm_table s') (f_lpn req, i) = Some (k, p) \<and>
           (phys (pm_blocks s) (k, p, i) = None \<or> phys (pm_blocks s) (k, p, i) = Some (f_lpn req)))) \<and>
     dom (pm_table s') = insert (f_lpn req) (dom (pm_table s)) \<and>
     pm_bitsetSize s' = pm_bitsetSize s \<and> pm_bRandomTweak s' = pm_bRandomTweak s \<and>
     pm_nFreeBlocks s \<le> Suc (pm_nFreeBlocks s')"

lemma pm_inv_copy: "pm_inv P s \<Longrightarrow> logi P (pm_table s) (l, i) = Some (k, p) \<longleftrightarrow> phys (pm_blocks s) (k, p, i) = Some l"
  by (simp add: pm_inv_def pm_cons_def inverse_off_def)

lemma pm_writePages_ok:
  assumes inv: "pm_inv (e_param E) s" and L: "lower_ok (e_low E)"
    and f: "bs_wf (f_ioFlag req)" "bs_dataSize (f_ioFlag req) = ioUnitInPage (e_param E)"
    and open_: "pm_open (e_param E) s" "0 < pm_nFreeBlocks s"
  shows "\<exists>t s' w'. pm_writePages E req send tick s w = Inr (t, s', w') \<and> pm_inv (e_param E) s' \<and>
     pm_open (e_param E) s' \<and> pm_wrote (e_param E) req s s' \<and> (send \<longrightarrow> tick \<le> t)"
proof -
  let ?P = "e_param E" and ?l = "f_lpn req" and ?f = "f_ioFlag req" and ?Z = "pm_bitsetSize s"
  obtain s1 where s1: "pm_prepareEntry ?P req s = Inr s1" "pm_shape ?P s1"
    "pm_cons ?P (pm_units_of s ?f ?l 0 ?Z) s1" "pm_same s s1" "logi ?P (pm_table s1) = logi ?P (pm_table s)"
    "pm_table s1 ?l \<noteq> None" "dom (pm_table s1) = insert ?l (dom (pm_table s))"
    using pm_prepareEntry_ok[OF inv] by blast
  have o1: "pm_open ?P s1" using pm_same_open[OF s1(4)] open_ by simp
  have n1: "0 < pm_nFreeBlocks s1" using s1(4) open_ by (simp add: pm_same_def)
  obtain k s2 where s2: "pm_getLastFreeBlock ?P ?f s1 = Inr (k, s2)" "pm_opened ?P s1 k s2" "pm_open ?P s2"
    by (rule pm_getLastFreeBlock_ok[OF s1(2) f o1 n1])
  obtain b0 where b0: "pm_blocks s2 k = Some b0" "blk_getNextWritePageIndexMax b0 < pagesInBlock ?P"
    using s2(2) by (auto simp: pm_opened_def)
  have sh2: "pm_shape ?P s2" and t2: "pm_table s2 = pm_table s1" and Z2: "pm_bitsetSize s2 = ?Z"
    and tw2: "pm_bRandomTweak s2 = pm_bRandomTweak s" and p2: "phys (pm_blocks s2) = phys (pm_blocks s1)"
    using s2(2) s1(4) by (auto simp: pm_opened_def pm_same_def)
  note fd = blk_fitsD[OF conjunct1[OF pm_shapeD(7)[OF sh2 b0(1)]]]
  have room: "\<forall>j < ioUnitInPage ?P. blk_next b0 j < pagesInBlock ?P"
    using blk_next_max[of _ b0] b0(2) fd by (metis le_less_trans)
  have uo: "pm_units_of s2 = pm_units_of s" using tw2 by (simp add: pm_units_of_def pm_selects_def fun_eq_iff)
  have c2: "pm_cons ?P (pm_units_of s2 ?f ?l 0 (pm_bitsetSize s2)) s2"
    using s1(3) pm_opened_cons[OF s2(2)] uo Z2 by simp
  have w0: "pm_writing ?P req k b0 s2 0 s2"
    using sh2 c2 b0 room by (auto simp: pm_writing_def pm_written_def less_imp_le)
  have ne2: "pm_table s2 ?l \<noteq> None" using t2 s1(6) by simp
  obtain td wd where dram: "io_if send (\<lambda>t w. rbind (ll_dram_read (e_low E) ?l (pm_entryBytes s2 ?f) t w) (\<lambda>(t, w).
        ll_dram_write (e_low E) ?l (pm_entryBytes s2 ?f) t w)) tick w = Inr (td, wd)"
    using timedD[OF timed_io_if[OF timed_seq[OF lower_ok_timed(4)[OF L] lower_ok_timed(5)[OF L]]]] by metis
  let ?rbw = "\<not> pm_bRandomTweak s2 \<and> \<not> bs_all ?f"
  define I where "I i x \<longleftrightarrow> (case x of (s', w', fin) \<Rightarrow> pm_writing ?P req k b0 s2 i s' \<and> tick \<le> fin)" for i and x :: "pm_state \<times> 'a \<times> nat"
  have "\<exists>x. rfold (pm_writeUnit E req send k ?rbw td) [0..<pm_bitsetSize s2] (s2, wd, tick) = Inr x \<and> I (pm_bitsetSize s2) x"
  proof (rule rfold_upt_total)
    show "I 0 (s2, wd, tick)" using w0 by (simp add: I_def)
    fix i x assume i: "i < pm_bitsetSize s2" and x: "I i x"
    obtain sx wx fx where xx: "x = (sx, wx, fx)" by (cases x)
    show "\<exists>x'. pm_writeUnit E req send k ?rbw td i x = Inr x' \<and> I (Suc i) x'"
      using pm_writeUnit_ok[OF L i _ room ne2, where s=sx and sendToPAL=send and rbw="?rbw" and tick=td and w=wx and fin=fx] x le_trans
      unfolding xx I_def by fastforce
  qed
  then obtain s3 w3 fin where r3: "rfold (pm_writeUnit E req send k ?rbw td) [0..<pm_bitsetSize s2] (s2, wd, tick) = Inr (s3, w3, fin)"
    and w3: "pm_writing ?P req k b0 s2 (pm_bitsetSize s2) s3" "tick \<le> fin" by (auto simp: I_def)
  have sh3: "pm_shape ?P s3" and sm3: "pm_same s2 s3" and c3: "pm_cons ?P {} s3"
    and d3: "dom (pm_table s3) = dom (pm_table s2)"
    and l3: "logi ?P (pm_table s3) = pm_written s ?f ?l k b0 ?Z (logi ?P (pm_table s))"
    using w3 uo Z2 t2 s1(5) by (auto simp: pm_writing_def pm_written_def)
  have free: "phys (pm_blocks s2) (k, blk_next b0 i, i) = None" if "i < ?Z" for i
    using phys_frontier[of "pm_blocks s2" k b0 i "blk_next b0 i"] b0 fd pm_units[OF sh2, of i] that Z2 by simp
  have wrote: "pm_wrote ?P req s s3"
    unfolding pm_wrote_def
  proof (intro conjI allI impI)
    fix l i assume "\<not> (l = ?l \<and> i < ?Z \<and> pm_selects s ?f i)"
    then show "logi ?P (pm_table s3) (l, i) = logi ?P (pm_table s) (l, i)"
      unfolding l3 by (auto simp: pm_written_def pm_units_of_def)
  next
    fix i assume i: "i < ?Z" "pm_selects s ?f i"
    have "logi ?P (pm_table s3) (?l, i) = Some (k, blk_next b0 i)"
      unfolding l3 using i by (auto simp: pm_written_def pm_units_of_def)
    moreover have "phys (pm_blocks s) (k, blk_next b0 i, i) = None \<or> phys (pm_blocks s) (k, blk_next b0 i, i) = Some ?l"
    proof (cases "phys (pm_blocks s) (k, blk_next b0 i, i)")
      case (Some l')
      then have lm: "logi ?P (pm_table s) (l', i) = Some (k, blk_next b0 i)" using pm_inv_copy[OF inv] by simp
      have "phys (pm_blocks s1) (k, blk_next b0 i, i) = None" using free[OF i(1)] p2 by simp
      then have "(l', i) \<in> pm_units_of s ?f ?l 0 ?Z"
        using s1(3,5) lm by (auto simp: pm_cons_def inverse_off_def) (metis option.distinct(1))
      then show ?thesis using Some by (simp add: pm_units_of_def)
    qed simp
    ultimately show "\<exists>k p. logi ?P (pm_table s3) (?l, i) = Some (k, p) \<and>
        (phys (pm_blocks s) (k, p, i) = None \<or> phys (pm_blocks s) (k, p, i) = Some ?l)" by blast
  qed (use d3 t2 s1(4,7) sm3 s2(2) in \<open>auto simp: pm_same_def pm_opened_def\<close>)
  have inv3: "pm_inv ?P s3" using sh3 c3 by (simp add: pm_inv_def)
  have o3: "pm_open ?P s3" using pm_same_open[OF sm3] s2(3) by simp
  obtain t w4 where fin: "(if send then cpu_charge (e_low E) CPU_PAGE_MAPPING FN_WRITE_INTERNAL fin w3 else (td, w3)) = (t, w4)"
    by fastforce
  have "send \<longrightarrow> tick \<le> t" using fin w3(2) by (auto simp: cpu_charge_def Let_def split: prod.splits)
  moreover have "pm_writePages E req send tick s w = Inr (t, s3, w4)"
    using s1(1) s2(1) b0(1) dram r3 fin by (simp add: pm_writePages_def pm_find_def Let_def)
  ultimately show ?thesis using inv3 o3 wrote by blast
qed

end
