(* ===== verification/PageMapGC.thy ===== *)
theory PageMapGC
  imports PageMapInv
begin

text \<open>
  Construction, trim and garbage collection of the page-level FTL.  Collection moves every valid unit
  of a victim to the open blocks: the set of mapped logical units does not change, the victims end up
  without valid copies, and the invariant holds again when they have been erased.  The theorems about
  collection assume at least two I/O units per page, the case in which \<open>getPageInfo\<close> reports the valid
  bits of a page.
\<close>

section \<open>Moving one page of a victim\<close>

definition blk_full :: "block \<Rightarrow> bool" where
  "blk_full b \<longleftrightarrow> blk_getNextWritePageIndexMax b = b_pageCount b"

text \<open>No unit of the first \<open>n\<close> pages is valid.\<close>

definition blk_drained :: "nat \<Rightarrow> block \<Rightarrow> bool" where
  "blk_drained n b \<longleftrightarrow> (\<forall>p < n. \<forall>i < b_ioUnitInPage b. \<not> blk_valid b p i)"

lemma blk_clear_next_max [simp]: "blk_getNextWritePageIndexMax (blk_clear b p i) = blk_getNextWritePageIndexMax b"
proof -
  have "b_pNextWritePageIndex (blk_clear b p i) = b_pNextWritePageIndex b" by (simp add: blk_clear_def)
  then show ?thesis by (simp only: blk_getNextWritePageIndexMax_def blk_clear_dims)
qed

lemma pm_inv_stat [simp]: "pm_inv P (s\<lparr>pm_stat := x\<rparr>) = pm_inv P s"
  by (simp add: pm_inv_def pm_shape_def pm_cons_def)

lemma blk_full_clear [simp]: "blk_full (blk_clear b p i) = blk_full b"
  by (simp add: blk_full_def)

lemma blk_drained_clear:
  assumes "blk_rep b" "p < b_pageCount b" "i < b_ioUnitInPage b" "n \<le> b_pageCount b" "blk_drained n b"
  shows "blk_drained n (blk_clear b p i)"
  using assms by (auto simp: blk_drained_def blk_clear_valid)

text \<open>
  \<open>pm_moving\<close> is the invariant of the loop over the units of page \<open>p\<close> of victim \<open>v\<close>: relative to the
  state \<open>s0\<close> before the loop the mapped logical units are the same, the units below \<open>i\<close> of the page are no
  longer valid, the others of the page are untouched, and the destination \<open>k\<close> has room.
\<close>

definition pm_moving :: "ftl_param \<Rightarrow> nat \<Rightarrow> nat \<Rightarrow> nat \<Rightarrow> pm_state \<Rightarrow> nat \<Rightarrow> pm_state \<Rightarrow> bool" where
  "pm_moving P v p k s0 i s \<longleftrightarrow> pm_inv P s \<and> pm_same s0 s \<and>
     dom (logi P (pm_table s)) = dom (logi P (pm_table s0)) \<and> dom (pm_table s) = dom (pm_table s0) \<and>
     (\<forall>u b. pm_blocks s0 u = Some b \<and> u \<noteq> k \<and> u \<noteq> v \<longrightarrow> pm_blocks s u = Some b) \<and>
     (\<exists>b0 b. pm_blocks s0 v = Some b0 \<and> pm_blocks s v = Some b \<and> blk_full b = blk_full b0 \<and>
        (\<forall>q < pagesInBlock P. q \<noteq> p \<longrightarrow> blk_valid b q = blk_valid b0 q) \<and>
        (\<forall>j < ioUnitInPage P. i \<le> j \<longrightarrow> blk_valid b p j = blk_valid b0 p j) \<and>
        (\<forall>j < min i (pm_bitsetSize s0). \<not> blk_valid b p j) \<and> blk_lpn b = blk_lpn b0) \<and>
     (\<exists>b. pm_blocks s k = Some b \<and> (\<forall>j < ioUnitInPage P. i \<le> j \<longrightarrow> blk_next b j < pagesInBlock P))"

lemma blk_clear_valid_other_page:
  assumes "blk_rep b" "p < b_pageCount b" "i < b_ioUnitInPage b" "q < b_pageCount b" "q \<noteq> p"
  shows "blk_valid (blk_clear b p i) q = blk_valid b q"
  using assms by (cases "b_ioUnitInPage b = 1") (auto simp: blk_clear_def blk_rep_def blk_obs fun_eq_iff)

lemma pm_gcUnit_ok:
  assumes L: "lower_ok (e_low E)" and i: "i < pm_bitsetSize s0" and kv: "k \<noteq> v" and p: "p < pagesInBlock (e_param E)"
    and m: "pm_moving (e_param E) v p k s0 i s"
    and b0: "pm_blocks s0 v = Some b0"
    and bm: "bs_test bm i \<longleftrightarrow> blk_valid b0 p i" and lp: "i < length lpns" "blk_valid b0 p i \<Longrightarrow> lpns ! i = blk_lpn b0 p i"
  shows "\<exists>s' w' t' wr'. pm_gcUnit E beginAt v k p lpns bm i (s, w, tick, rr, wr) = Inr (s', w', t', rr, wr') \<and>
     pm_moving (e_param E) v p k s0 (Suc i) s'"
proof -
  let ?P = "e_param E"
  have inv: "pm_inv ?P s" and sh: "pm_shape ?P s" and c: "pm_cons ?P {} s" and same: "pm_same s0 s"
    and dl: "dom (logi ?P (pm_table s)) = dom (logi ?P (pm_table s0))" and dt: "dom (pm_table s) = dom (pm_table s0)"
    and oth: "\<And>u b. pm_blocks s0 u = Some b \<Longrightarrow> u \<noteq> k \<Longrightarrow> u \<noteq> v \<Longrightarrow> pm_blocks s u = Some b"
    using m by (auto simp: pm_moving_def pm_inv_def)
  obtain vb where vb: "pm_blocks s v = Some vb" "blk_full vb = blk_full b0" "blk_lpn vb = blk_lpn b0"
    "\<And>q. q < pagesInBlock ?P \<Longrightarrow> q \<noteq> p \<Longrightarrow> blk_valid vb q = blk_valid b0 q"
    "\<And>j. j < ioUnitInPage ?P \<Longrightarrow> i \<le> j \<Longrightarrow> blk_valid vb p j = blk_valid b0 p j"
    "\<And>j. j < min i (pm_bitsetSize s0) \<Longrightarrow> \<not> blk_valid vb p j"
    using m b0 unfolding pm_moving_def by auto
  obtain kb where kb: "pm_blocks s k = Some kb"
    "\<And>j. j < ioUnitInPage ?P \<Longrightarrow> i \<le> j \<Longrightarrow> blk_next kb j < pagesInBlock ?P"
    using m unfolding pm_moving_def by auto
  have Z: "i < pm_bitsetSize s" using i same by (simp add: pm_same_def)
  have iu: "i < ioUnitInPage ?P" by (rule pm_units[OF sh Z])
  note fv = blk_fitsD[OF conjunct1[OF pm_shapeD(7)[OF sh vb(1)]]]
  have vi: "blk_valid vb p i = blk_valid b0 p i" using vb(5) iu by simp
  show ?thesis
  proof (cases "bs_test bm i")
    case False
    then have "pm_moving ?P v p k s0 (Suc i) s"
      using m bm b0 iu vi vb(1) unfolding pm_moving_def by (auto simp: less_Suc_eq min_def split: if_splits)
    then show ?thesis using False by (auto simp: pm_gcUnit_def)
  next
    case True
    then have val: "blk_valid vb p i" using bm vi by simp
    let ?l = "blk_lpn vb p i"
    have lpn: "lpns ! i = ?l" using lp(2) bm True vb(3) by simp
    have "phys (pm_blocks s) (v, p, i) = Some ?l"
      using val vb(1) p iu fv by (simp add: phys_Some_iff)
    then have lo: "logi ?P (pm_table s) (?l, i) = Some (v, p)" using pm_inv_copy[OF inv] by simp
    then obtain ml where ml: "pm_table s ?l = Some ml" "i < length ml" by (auto simp: logi_Some_iff)
    obtain b' where b': "pm_blocks s v = Some b'" "blk_invalidate b' p i = Inr (blk_clear b' p i)"
      "pm_shape ?P (set_block v (blk_clear b' p i) s)" "pm_cons ?P (insert (?l, i) {}) (set_block v (blk_clear b' p i) s)"
      by (rule pm_clear_slot[OF sh c lo]) auto
    have [simp]: "b' = vb" using b'(1) vb(1) by simp
    let ?s1 = "set_block v (blk_clear vb p i) s"
    have sh1: "pm_shape ?P ?s1" and c1: "pm_cons ?P {(?l, i)} ?s1" using b'(3,4) by simp_all
    have kb1: "pm_blocks ?s1 k = Some kb" using kb(1) kv by simp
    have ml1: "pm_table ?s1 ?l = Some ml" using ml(1) by simp
    have Z1: "i < pm_bitsetSize ?s1" using Z by simp
    have rm: "blk_next kb i < pagesInBlock ?P" using kb(2) iu by simp
    note st = pm_program_slot(1-4)[OF sh1 c1 _ ml1 Z1 kb1 rm, where t = beginAt, simplified]
    let ?kb' = "blk_program kb (blk_next kb i) ?l i beginAt"
    let ?s3 = "(set_block k ?kb' ?s1)\<lparr>pm_table := (pm_table ?s1)(?l \<mapsto> ml[i := (k, blk_next kb i)])\<rparr>"
    let ?s4 = "?s3\<lparr>pm_stat := (pm_stat ?s3)\<lparr>validPageCopies := validPageCopies (pm_stat ?s3) + 1\<rparr>\<rparr>"
    note fk = blk_fitsD[OF conjunct1[OF pm_shapeD(7)[OF sh kb(1)]]]
    have i3: "pm_inv ?P ?s3" unfolding pm_inv_def using st(2,3) by simp
    have mv: "pm_moving ?P v p k s0 (Suc i) ?s4"
      unfolding pm_moving_def
    proof (intro conjI)
      show "pm_inv ?P ?s4" using i3 by simp
      show "pm_same s0 ?s4" using same vb(1) kb(1) kv by (auto simp: pm_same_def)
      show "dom (logi ?P (pm_table ?s4)) = dom (logi ?P (pm_table s0))"
      proof -
        have "(?l, i) \<in> dom (logi ?P (pm_table s))" using lo by blast
        then show ?thesis using st(4) dl by (simp add: insert_absorb)
      qed
      show "dom (pm_table ?s4) = dom (pm_table s0)" using ml(1) dt by auto
      show "\<forall>u b. pm_blocks s0 u = Some b \<and> u \<noteq> k \<and> u \<noteq> v \<longrightarrow> pm_blocks ?s4 u = Some b"
        using oth by simp
      have "\<not> blk_valid (blk_clear vb p i) p j" if "j < min (Suc i) (pm_bitsetSize s0)" for j
      proof -
        have "j < pm_bitsetSize s" using that same by (simp add: pm_same_def)
        then have "j < ioUnitInPage ?P" by (rule pm_units[OF sh])
        then show ?thesis using vb(6)[of j] that fv p iu by (auto simp: blk_clear_valid less_Suc_eq)
      qed
      then show "\<exists>b0 b. pm_blocks s0 v = Some b0 \<and> pm_blocks ?s4 v = Some b \<and> blk_full b = blk_full b0 \<and>
        (\<forall>q < pagesInBlock ?P. q \<noteq> p \<longrightarrow> blk_valid b q = blk_valid b0 q) \<and>
        (\<forall>j < ioUnitInPage ?P. Suc i \<le> j \<longrightarrow> blk_valid b p j = blk_valid b0 p j) \<and>
        (\<forall>j < min (Suc i) (pm_bitsetSize s0). \<not> blk_valid b p j) \<and> blk_lpn b = blk_lpn b0"
        using b0 kv vb(2-5) fv p iu by (auto simp: blk_clear_valid_other_page blk_clear_valid)
      show "\<exists>b. pm_blocks ?s4 k = Some b \<and> (\<forall>j < ioUnitInPage ?P. Suc i \<le> j \<longrightarrow> blk_next b j < pagesInBlock ?P)"
        using kb(2) rm iu fk by (auto simp: blk_program_next)
    qed
    obtain t1 w1 where dr: "ll_dram_read (e_low E) ?l (8 * ioUnitInPage ?P) tick w = Inr (t1, w1)"
      using lower_okD(4)[OF L] by blast
    have nxi: "blk_getNextWritePageIndex kb i = blk_next kb i"
      by (simp add: blk_getNextWritePageIndex_def blk_next_def)
    have "\<exists>wr'. pm_gcUnit E beginAt v k p lpns bm i (s, w, tick, rr, wr) = Inr (?s4, w1, t1, rr, wr')"
      unfolding pm_gcUnit_def
      using True vb(1) b'(2) lp(1) lpn ml dr kb1 st(1) nxi kv
      by (simp add: pm_find_def Let_def)
    then show ?thesis using mv by blast
  qed
qed


section \<open>Draining the victims\<close>

text \<open>Relative to \<open>s\<close>: the invariant, the same mapped units, and full blocks other than \<open>v\<close> untouched.\<close>

definition pm_gcStep :: "ftl_param \<Rightarrow> nat \<Rightarrow> pm_state \<Rightarrow> pm_state \<Rightarrow> bool" where
  "pm_gcStep P v s s' \<longleftrightarrow> pm_inv P s' \<and> dom (logi P (pm_table s')) = dom (logi P (pm_table s)) \<and>
     dom (pm_table s') = dom (pm_table s) \<and>
     pm_bitsetSize s' = pm_bitsetSize s \<and> pm_bRandomTweak s' = pm_bRandomTweak s \<and>
     (\<forall>u b. u \<noteq> v \<and> pm_blocks s u = Some b \<and> blk_full b \<longrightarrow> pm_blocks s' u = Some b)"

definition pm_drained :: "pm_state \<Rightarrow> nat \<Rightarrow> nat \<Rightarrow> bool" where
  "pm_drained s v n \<longleftrightarrow> (\<exists>b. pm_blocks s v = Some b \<and> blk_full b \<and> blk_drained n b)"

lemma pm_gcStep_refl: "pm_inv P s \<Longrightarrow> pm_gcStep P v s s"
  by (simp add: pm_gcStep_def)

lemma pm_gcStep_trans: "pm_gcStep P v s t \<Longrightarrow> pm_gcStep P v t u \<Longrightarrow> pm_gcStep P v s u"
  unfolding pm_gcStep_def by (metis (no_types, lifting))

lemma pm_valid_unit:
  assumes inv: "pm_inv P s" and b: "pm_blocks s v = Some b" and v: "p < pagesInBlock P" "j < ioUnitInPage P" "blk_valid b p j"
  shows "j < pm_bitsetSize s"
proof -
  have sh: "pm_shape P s" using inv by (simp add: pm_inv_def)
  note fd = blk_fitsD[OF conjunct1[OF pm_shapeD(7)[OF sh b]]]
  have "phys (pm_blocks s) (v, p, j) = Some (blk_lpn b p j)" using b v fd by (simp add: phys_Some_iff)
  then have "logi P (pm_table s) (blk_lpn b p j, j) = Some (v, p)" using pm_inv_copy[OF inv] by simp
  then show ?thesis using pm_shapeD(11)[OF sh] by (auto simp: logi_Some_iff)
qed

lemma pm_opened_keeps: "pm_opened P s k s1 \<Longrightarrow> pm_blocks s v = Some vb \<Longrightarrow> pm_blocks s1 v = Some vb"
  unfolding pm_opened_def map_le_def by (metis domI)

lemma pm_gcPage_moved:
  assumes L: "lower_ok (e_low E)" and p: "p < pagesInBlock (e_param E)" and U: "1 < ioUnitInPage (e_param E)"
    and inv: "pm_inv (e_param E) s" and vb: "pm_blocks s v = Some vb" "blk_full vb"
    and any: "\<exists>j < ioUnitInPage (e_param E). blk_valid vb p j"
    and v0: "bs_wf m0" "bs_dataSize m0 = ioUnitInPage (e_param E)" "bs_test m0 = blk_valid vb p"
    and bm: "bm = (if pm_bRandomTweak s then m0 else bs_set_all m0)"
    and lp: "length lpns = ioUnitInPage (e_param E)" "(!) lpns = blk_lpn vb p"
    and g: "pm_getLastFreeBlock (e_param E) bm s = Inr (k, s1)"
  shows "k \<noteq> v" "pm_blocks s1 k \<noteq> None" "\<exists>s2 w2 t2 wr2. rfold (pm_gcUnit E beginAt v k p lpns bm) [0..<pm_bitsetSize s1] (s1, w, tick, rr, wr)
       = Inr (s2, w2, t2, rr, wr2) \<and> pm_moving (e_param E) v p k s1 (pm_bitsetSize s1) s2"
    "pm_opened (e_param E) s k s1"
proof -
  let ?P = "e_param E"
  have sh: "pm_shape ?P s" and c: "pm_cons ?P {} s" using inv by (auto simp: pm_inv_def)
  note fv = blk_fitsD[OF conjunct1[OF pm_shapeD(7)[OF sh vb(1)]]]
  have bmw: "bs_wf bm" "bs_dataSize bm = ioUnitInPage ?P" using v0 by (auto simp: bm)
  show op: "pm_opened ?P s k s1" by (rule pm_getLastFreeBlock_Inr(1)[OF sh bmw g])
  then obtain kb where kb: "pm_blocks s1 k = Some kb" "blk_getNextWritePageIndexMax kb < pagesInBlock ?P"
    by (auto simp: pm_opened_def)
  then show "pm_blocks s1 k \<noteq> None" by simp
  have v1: "pm_blocks s1 v = Some vb" using pm_opened_keeps[OF op vb(1)] .
  then show kv: "k \<noteq> v" using kb vb(2) fv by (auto simp: blk_full_def)
  have sh1: "pm_shape ?P s1" and Z1: "pm_bitsetSize s1 = pm_bitsetSize s" and tw1: "pm_bRandomTweak s1 = pm_bRandomTweak s"
    and inv1: "pm_inv ?P s1"
    using op c pm_opened_cons[OF op] by (auto simp: pm_opened_def pm_inv_def)
  note fk = blk_fitsD[OF conjunct1[OF pm_shapeD(7)[OF sh1 kb(1)]]]
  have sel: "bs_test bm i \<longleftrightarrow> blk_valid vb p i" if i: "i < pm_bitsetSize s1" for i
  proof (cases "pm_bRandomTweak s")
    case True
    then show ?thesis using v0(3) bm by simp
  next
    case False
    then have Zs: "pm_bitsetSize s = 1" using pm_shapeD(2)[OF sh] by simp
    obtain j where j: "j < ioUnitInPage ?P" "blk_valid vb p j" using any by blast
    have "j < pm_bitsetSize s" by (rule pm_valid_unit[OF inv vb(1) p j])
    then have "blk_valid vb p 0" using j Zs by simp
    moreover have "bs_test bm 0" using False v0 U by (simp add: bm)
    ultimately show ?thesis using i Z1 Zs by simp
  qed
  have m0: "pm_moving ?P v p k s1 0 s1"
    unfolding pm_moving_def
  proof (intro conjI)
    show "\<exists>b. pm_blocks s1 k = Some b \<and> (\<forall>j < ioUnitInPage ?P. 0 \<le> j \<longrightarrow> blk_next b j < pagesInBlock ?P)"
      using kb fk blk_next_max[of _ kb] by (metis le_less_trans)
  qed (use inv1 v1 in auto)
  define I where "I i x \<longleftrightarrow> (case x of (s', w', t', rr', wr') \<Rightarrow> pm_moving ?P v p k s1 i s' \<and> rr' = rr)"
    for i and x :: "'a gc_ctx"
  have "\<exists>x. rfold (pm_gcUnit E beginAt v k p lpns bm) [0..<pm_bitsetSize s1] (s1, w, tick, rr, wr) = Inr x \<and> I (pm_bitsetSize s1) x"
  proof (rule rfold_upt_total)
    show "I 0 (s1, w, tick, rr, wr)" using m0 by (simp add: I_def)
    fix i x assume i: "i < pm_bitsetSize s1" and x: "I i x"
    obtain sx wx tx rx yx where xx: "x = (sx, wx, tx, rx, yx)" by (cases x)
    have mx: "pm_moving ?P v p k s1 i sx" "rx = rr" using x by (auto simp: xx I_def)
    have li: "i < length lpns" using lp(1) pm_units[OF sh1 i] by simp
    have ln: "lpns ! i = blk_lpn vb p i" by (simp add: lp(2))
    have "\<exists>s' w' t' wr'. pm_gcUnit E beginAt v k p lpns bm i (sx, wx, tx, rr, yx) = Inr (s', w', t', rr, wr') \<and>
        pm_moving ?P v p k s1 (Suc i) s'"
      by (rule pm_gcUnit_ok[OF L i kv p mx(1) v1 sel[OF i] li ln])
    then obtain s' w' t' wr' where u: "pm_gcUnit E beginAt v k p lpns bm i (sx, wx, tx, rr, yx) = Inr (s', w', t', rr, wr')"
      "pm_moving ?P v p k s1 (Suc i) s'" by blast
    then show "\<exists>x'. pm_gcUnit E beginAt v k p lpns bm i x = Inr x' \<and> I (Suc i) x'"
      by (simp add: xx mx(2) I_def)
  qed
  then show "\<exists>s2 w2 t2 wr2. rfold (pm_gcUnit E beginAt v k p lpns bm) [0..<pm_bitsetSize s1] (s1, w, tick, rr, wr)
       = Inr (s2, w2, t2, rr, wr2) \<and> pm_moving ?P v p k s1 (pm_bitsetSize s1) s2"
    by (auto simp: I_def)
qed

lemma pm_gcPage_ok:
  assumes L: "lower_ok (e_low E)" and p: "p < pagesInBlock (e_param E)" and U: "1 < ioUnitInPage (e_param E)"
    and inv: "pm_inv (e_param E) s" and d: "pm_drained s v p"
    and run: "pm_gcPage E beginAt v p (s, w, tick, rr, wr) = Inr (s', w', t', rr', wr')"
  shows "pm_gcStep (e_param E) v s s' \<and> pm_drained s' v (Suc p)"
proof -
  let ?P = "e_param E"
  have sh: "pm_shape ?P s" using inv by (auto simp: pm_inv_def)
  obtain vb where vb: "pm_blocks s v = Some vb" "blk_full vb" "blk_drained p vb" using d by (auto simp: pm_drained_def)
  note fv = blk_fitsD[OF conjunct1[OF pm_shapeD(7)[OF sh vb(1)]]]
  let ?any = "\<exists>i < b_ioUnitInPage vb. blk_valid vb p i"
  obtain m0 where info: "blk_getPageInfo vb p (bs_new (ioUnitInPage ?P)) = Inr (?any, b_ppLPNs vb ! p, m0)"
    "bs_wf m0" "bs_dataSize m0 = b_ioUnitInPage vb" "bs_test m0 = blk_valid vb p"
    "length (b_ppLPNs vb ! p) = b_ioUnitInPage vb" "(!) (b_ppLPNs vb ! p) = blk_lpn vb p"
    by (rule blk_getPageInfo_ok[of vb p "bs_new (ioUnitInPage ?P)"]) (use fv p U in auto)
  let ?bm = "if pm_bRandomTweak s then m0 else bs_set_all m0"
  show ?thesis
  proof (cases ?any)
    case False
    then have "blk_getPageInfo vb p (bs_new (ioUnitInPage ?P)) = Inr (False, b_ppLPNs vb ! p, m0)"
      using info(1) by simp
    then have "s' = s" using run vb(1) by (simp add: pm_gcPage_def pm_find_def)
    moreover have "blk_drained (Suc p) vb" using vb(3) False by (auto simp: blk_drained_def less_Suc_eq)
    ultimately show ?thesis using pm_gcStep_refl[OF inv] vb by (auto simp: pm_drained_def)
  next
    case True
    have info': "blk_getPageInfo vb p (bs_new (ioUnitInPage ?P)) = Inr (True, b_ppLPNs vb ! p, m0)"
      using info(1) True by simp
    obtain k s1 where g: "pm_getLastFreeBlock ?P ?bm s = Inr (k, s1)"
      using run vb(1) info' by (auto simp: pm_gcPage_def pm_find_def res_simps Let_def)
    let ?req = "\<lparr>p_reqID = 0, p_reqSubID = 0, p_blockIndex = v, p_pageIndex = p, p_ioFlag = ?bm\<rparr>"
    have any: "\<exists>j < ioUnitInPage ?P. blk_valid vb p j" using True fv by simp
    have sz: "bs_dataSize m0 = ioUnitInPage ?P" "length (b_ppLPNs vb ! p) = ioUnitInPage ?P" using info fv by auto
    note mv = pm_gcPage_moved[OF L p U inv vb(1,2) any info(2) sz(1) info(4) refl sz(2) info(6) g]
    obtain kb where kb: "pm_blocks s1 k = Some kb" using mv(2) by blast
    obtain s2 w2 t2 wr2 where m: "rfold (pm_gcUnit E beginAt v k p (b_ppLPNs vb ! p) ?bm) [0..<pm_bitsetSize s1]
        (s1, w, tick, rr @ [?req], wr) = Inr (s2, w2, t2, rr @ [?req], wr2)"
      "pm_moving ?P v p k s1 (pm_bitsetSize s1) s2" using mv(3) by blast
    have s': "s' = s2\<lparr>pm_stat := (pm_stat s2)\<lparr>validSuperPageCopies := validSuperPageCopies (pm_stat s2) + 1\<rparr>\<rparr>"
      using run vb(1) info' g kb m(1) by (simp add: pm_gcPage_def pm_find_def Let_def)
    have v1: "pm_blocks s1 v = Some vb"
      using pm_opened_keeps[OF mv(4) vb(1)] .
    have t1: "pm_table s1 = pm_table s" "pm_bitsetSize s1 = pm_bitsetSize s" "pm_bRandomTweak s1 = pm_bRandomTweak s"
      using mv(4) by (auto simp: pm_opened_def)
    obtain b where b: "pm_blocks s2 v = Some b" "blk_full b"
      "\<And>q. q < pagesInBlock ?P \<Longrightarrow> q \<noteq> p \<Longrightarrow> blk_valid b q = blk_valid vb q"
      "\<And>j. j < pm_bitsetSize s1 \<Longrightarrow> \<not> blk_valid b p j"
      using m(2) v1 vb(2) unfolding pm_moving_def by auto
    have inv2: "pm_inv ?P s2" and dom2: "dom (logi ?P (pm_table s2)) = dom (logi ?P (pm_table s1))"
      "dom (pm_table s2) = dom (pm_table s1)" and sm2: "pm_same s1 s2"
      using m(2) by (auto simp: pm_moving_def)
    have sh2: "pm_shape ?P s2" using inv2 by (simp add: pm_inv_def)
    note fb = blk_fitsD[OF conjunct1[OF pm_shapeD(7)[OF sh2 b(1)]]]
    have "\<not> blk_valid b q j" if "q < Suc p" "j < b_ioUnitInPage b" for q j
    proof (cases "q = p")
      case True
      then show ?thesis using b(4) pm_valid_unit[OF inv2 b(1) p, of j] that fb sm2 by (auto simp: pm_same_def)
    next
      case False
      then show ?thesis using that b(3)[of q] vb(3) p fb fv by (auto simp: blk_drained_def)
    qed
    then have dr: "pm_drained s' v (Suc p)" using b(1,2) by (auto simp: pm_drained_def s' blk_drained_def)
    have "pm_blocks s' u = Some ub" if u: "u \<noteq> v" "pm_blocks s u = Some ub" "blk_full ub" for u ub
    proof -
      have u1: "pm_blocks s1 u = Some ub" using pm_opened_keeps[OF mv(4) u(2)] .
      have "u \<noteq> k"
        using mv(4) u1 u(3) blk_fitsD[OF conjunct1[OF pm_shapeD(7)[OF sh u(2)]]]
        by (auto simp: pm_opened_def blk_full_def)
      then show ?thesis using m(2) u1 u(1) by (simp add: pm_moving_def s')
    qed
    then have "pm_gcStep ?P v s s'"
      using inv2 dom2 t1 sm2 by (auto simp: pm_gcStep_def s' pm_same_def)
    then show ?thesis using dr by simp
  qed
qed


lemma pm_gcBlock_ok:
  assumes L: "lower_ok (e_low E)" and U: "1 < ioUnitInPage (e_param E)"
    and inv: "pm_inv (e_param E) s" and d: "pm_drained s v 0"
    and run: "pm_gcBlock E beginAt v (s, w, tick, rr, wr) = Inr (s', w', t', rr', wr')"
  shows "pm_gcStep (e_param E) v s s' \<and> pm_drained s' v (pagesInBlock (e_param E))"
proof -
  let ?I = "\<lambda>p (x::'a gc_ctx). pm_gcStep (e_param E) v s (fst x) \<and> pm_drained (fst x) v p"
  have r: "rfold (pm_gcPage E beginAt v) [0..<pagesInBlock (e_param E)] (s, w, tick, rr, wr) = Inr (s', w', t', rr', wr')"
    using run by (auto simp: pm_gcBlock_def res_simps)
  have "?I (pagesInBlock (e_param E)) (s', w', t', rr', wr')"
  proof (rule rfold_upt_invariant[OF r])
    show "?I 0 (s, w, tick, rr, wr)" using pm_gcStep_refl[OF inv] d by simp
    fix p x y assume p: "p < pagesInBlock (e_param E)" and x: "?I p x" and y: "pm_gcPage E beginAt v p x = Inr y"
    obtain sx wx tx rx yx where xx: "x = (sx, wx, tx, rx, yx)" by (cases x)
    obtain sy wy ty ry yy where yy: "y = (sy, wy, ty, ry, yy)" by (cases y)
    have "pm_inv (e_param E) sx" using x by (simp add: xx pm_gcStep_def)
    from pm_gcPage_ok[OF L p U this _ y[unfolded xx yy]] x
    show "?I (Suc p) y" using pm_gcStep_trans by (auto simp: xx yy)
  qed
  then show ?thesis by simp
qed

text \<open>All victims: every one is drained and stays so while the later ones are processed.\<close>

lemma pm_gcBlocks_ok:
  assumes L: "lower_ok (e_low E)" and U: "1 < ioUnitInPage (e_param E)"
    and run: "rfold (pm_gcBlock E beginAt) vs (s, w, tick, rr, wr) = Inr (s', w', t', rr', wr')"
    and inv: "pm_inv (e_param E) s" and dist: "distinct vs" and d: "\<forall>v \<in> set vs. pm_drained s v 0"
  shows "pm_inv (e_param E) s' \<and> dom (logi (e_param E) (pm_table s')) = dom (logi (e_param E) (pm_table s)) \<and>
    dom (pm_table s') = dom (pm_table s) \<and>
    pm_bitsetSize s' = pm_bitsetSize s \<and> pm_bRandomTweak s' = pm_bRandomTweak s \<and>
    (\<forall>u b. u \<notin> set vs \<and> pm_blocks s u = Some b \<and> blk_full b \<longrightarrow> pm_blocks s' u = Some b) \<and>
    (\<forall>v \<in> set vs. pm_drained s' v (pagesInBlock (e_param E)))"
  using run inv dist d
proof (induction vs arbitrary: s w tick rr wr)
  case (Cons v vs)
  let ?P = "e_param E"
  obtain s1 w1 t1 rr1 wr1 where a: "pm_gcBlock E beginAt v (s, w, tick, rr, wr) = Inr (s1, w1, t1, rr1, wr1)"
    and b: "rfold (pm_gcBlock E beginAt) vs (s1, w1, t1, rr1, wr1) = Inr (s', w', t', rr', wr')"
    using Cons.prems(1) by (auto simp: res_simps)
  have "pm_drained s v 0" using Cons.prems(4) by simp
  note st = pm_gcBlock_ok[OF L U Cons.prems(2) this a]
  have "\<forall>u \<in> set vs. pm_drained s1 u 0"
  proof
    fix u assume u: "u \<in> set vs"
    then have "u \<noteq> v" using Cons.prems(3) by auto
    moreover obtain b where "pm_blocks s u = Some b" "blk_full b" using Cons.prems(4) u by (auto simp: pm_drained_def)
    ultimately have "pm_blocks s1 u = Some b" "blk_full b" using st by (auto simp: pm_gcStep_def)
    then show "pm_drained s1 u 0" by (simp add: pm_drained_def blk_drained_def)
  qed
  then have ih: "pm_inv ?P s' \<and> dom (logi ?P (pm_table s')) = dom (logi ?P (pm_table s1)) \<and>
    dom (pm_table s') = dom (pm_table s1) \<and>
    pm_bitsetSize s' = pm_bitsetSize s1 \<and> pm_bRandomTweak s' = pm_bRandomTweak s1 \<and>
    (\<forall>u b. u \<notin> set vs \<and> pm_blocks s1 u = Some b \<and> blk_full b \<longrightarrow> pm_blocks s' u = Some b) \<and>
    (\<forall>v \<in> set vs. pm_drained s' v (pagesInBlock ?P))"
    using Cons.IH[OF b] st Cons.prems(3) by (auto simp: pm_gcStep_def)
  obtain bv where bv: "pm_blocks s1 v = Some bv" "blk_full bv" "blk_drained (pagesInBlock ?P) bv"
    using st by (auto simp: pm_drained_def)
  have "pm_drained s' v (pagesInBlock ?P)"
    using ih bv Cons.prems(3) by (auto simp: pm_drained_def)
  then show ?case using ih st by (auto simp: pm_gcStep_def)
qed simp

section \<open>Erasing\<close>

lemma emplace_rev_mset: "mset (emplace_rev b xs) = add_mset b (mset xs)"
  by (induction xs) auto

lemma pm_emplaceFree_mset: "pm_emplaceFree b xs = Inr ys \<Longrightarrow> mset ys = add_mset b (mset xs) \<and> xs \<noteq> []"
  by (auto simp: pm_emplaceFree_def emplace_rev_mset split: if_splits)

lemma blk_fits_erase: "blk_fits P b \<Longrightarrow> blk_fits P (blk_erase b) \<and> blk_clean (blk_erase b)"
  by (auto simp: blk_fits_def blk_clean_def blk_erase_ok blk_inv_rep)

lemma pm_shape_drop_block:
  assumes "pm_shape P s" "pm_blocks s k = Some b"
  shows "pm_shape P (s\<lparr>pm_blocks := (pm_blocks s)(k := None)\<rparr>)"
  using assms by (auto simp: pm_shape_def)

lemma pm_shape_free_block:
  assumes sh: "pm_shape P s" and b: "pm_blocks s (b_idx b) = None" "blk_fits P b" "blk_clean b"
    and ys: "mset ys = add_mset b (mset (pm_freeBlocks s))" and nw: "b_idx b \<notin> b_idx ` set (pm_freeBlocks s)"
  shows "pm_shape P (s\<lparr>pm_freeBlocks := ys, pm_nFreeBlocks := pm_nFreeBlocks s + 1\<rparr>)"
proof -
  have set: "set ys = insert b (set (pm_freeBlocks s))" using ys by (metis set_mset_add_mset_insert set_mset_mset)
  have "mset (map b_idx ys) = mset (map b_idx (b # pm_freeBlocks s))" using ys by simp
  then have d: "distinct (map b_idx ys)"
    using pm_shapeD(9)[OF sh] nw by (metis distinct.simps(2) list.simps(9) mset_eq_imp_distinct_iff set_map)
  have len: "length ys = Suc (length (pm_freeBlocks s))" using ys by (metis size_add_mset size_mset)
  show ?thesis using sh b set d len unfolding pm_shape_def by simp
qed

text \<open>Erasing a drained block: it leaves the block map and, unless worn out, joins the free list.\<close>

lemma pm_eraseInternal_ok:
  assumes inv: "pm_inv P s" and P: "P = e_param E"
    and run: "pm_eraseInternal E req tick s w = Inr (t, s', w')"
  shows "pm_inv P s' \<and> pm_table s' = pm_table s \<and> pm_bitsetSize s' = pm_bitsetSize s \<and>
    pm_bRandomTweak s' = pm_bRandomTweak s \<and>
    pm_blocks s' = (pm_blocks s)(p_blockIndex req := None) \<and>
    (\<exists>b. pm_blocks s (p_blockIndex req) = Some b \<and>
      pm_nFreeBlocks s' = pm_nFreeBlocks s + (if Suc (b_eraseCount b) < c_badBlockThreshold (e_conf E) then 1 else 0))"
proof -
  let ?k = "p_blockIndex req"
  have sh: "pm_shape P s" and c: "pm_cons P {} s" using inv by (auto simp: pm_inv_def)
  obtain b where b: "pm_blocks s ?k = Some b" "blk_getValidPageCount b = 0"
    using run by (auto simp: pm_eraseInternal_def res_simps split: if_splits)
  note pb = pm_shapeD(7)[OF sh b(1)] and fb = blk_fitsD[OF conjunct1[OF pm_shapeD(7)[OF sh b(1)]]]
  let ?b' = "blk_erase b"
  have eb: "blk_fits P ?b'" "blk_clean ?b'" "b_idx ?b' = ?k" using blk_fits_erase[of P b] pb by auto
  let ?d = "s\<lparr>pm_blocks := (pm_blocks s)(?k := None)\<rparr>"
  have shd: "pm_shape P ?d" by (rule pm_shape_drop_block[OF sh b(1)])
  have nv: "\<forall>p < b_pageCount b. \<forall>i < b_ioUnitInPage b. \<not> blk_valid b p i"
    using blk_getValidPageCount_0[OF fb(2)] b(2) by simp
  have ph: "phys ((pm_blocks s)(?k := None)) = phys (pm_blocks s)" using phys_drop[of "pm_blocks s" ?k b] b(1) nv by simp
  have nw: "b_idx ?b' \<notin> b_idx ` set (pm_freeBlocks s)"
  proof
    assume "b_idx ?b' \<in> b_idx ` set (pm_freeBlocks s)"
    then obtain x where "x \<in> set (pm_freeBlocks s)" "b_idx x = ?k" using eb(3) by auto
    then have "pm_blocks s ?k = None" using pm_shapeD(8)[OF sh] by metis
    then show False using b(1) by simp
  qed
  have gc: "blk_getEraseCount ?b' = Suc (b_eraseCount b)" by (simp add: blk_getEraseCount_def)
  show ?thesis
  proof (cases "Suc (b_eraseCount b) < c_badBlockThreshold (e_conf E)")
    case False
    then have "s' = ?d"
      using run b gc by (auto simp: pm_eraseInternal_def res_simps pm_find_def Let_def case_prod_beta)
    then show ?thesis using shd c ph b(1) False by (auto simp: pm_inv_def pm_cons_def)
  next
    case True
    then obtain ys where ys: "pm_emplaceFree ?b' (pm_freeBlocks s) = Inr ys"
      "s' = (s\<lparr>pm_freeBlocks := ys, pm_nFreeBlocks := pm_nFreeBlocks s + 1\<rparr>)\<lparr>pm_blocks := (pm_blocks s)(?k := None)\<rparr>"
      using run b gc by (auto simp: pm_eraseInternal_def res_simps pm_find_def Let_def case_prod_beta)
    have "pm_shape P (?d\<lparr>pm_freeBlocks := ys, pm_nFreeBlocks := pm_nFreeBlocks ?d + 1\<rparr>)"
      by (rule pm_shape_free_block[OF shd _ eb(1,2)]) (use eb(3) nw pm_emplaceFree_mset[OF ys(1)] in auto)
    then have "pm_shape P s'" unfolding ys(2) pm_shape_def by simp
    then show ?thesis using c ph b(1) True ys(2) by (auto simp: pm_inv_def pm_cons_def)
  qed
qed

lemma pm_eraseAll_ok:
  assumes "pm_eraseAll E beginAt vs (fin, s, w) = Inr (t, s', w')" and "pm_inv (e_param E) s"
  shows "pm_inv (e_param E) s' \<and> pm_table s' = pm_table s \<and> pm_bitsetSize s' = pm_bitsetSize s \<and>
    pm_bRandomTweak s' = pm_bRandomTweak s \<and>
    (\<forall>u. pm_blocks s' u = (if u \<in> set vs then None else pm_blocks s u)) \<and> fin \<le> t \<and> pm_nFreeBlocks s \<le> pm_nFreeBlocks s'"
  using assms
proof (induction vs arbitrary: fin s w)
  case Nil
  then show ?case by (auto simp: pm_eraseAll_def)
next
  case (Cons v vs)
  let ?req = "\<lparr>p_reqID = 0, p_reqSubID = 0, p_blockIndex = v, p_pageIndex = 0,
                p_ioFlag = bs_set_all (bs_new (ioUnitInPage (e_param E)))\<rparr>"
  obtain t1 s1 w1 where a: "pm_eraseInternal E ?req beginAt s w = Inr (t1, s1, w1)"
    and b: "pm_eraseAll E beginAt vs (max fin t1, s1, w1) = Inr (t, s', w')"
    using Cons.prems(1) by (auto simp: pm_eraseAll_def res_simps)
  note st = pm_eraseInternal_ok[OF Cons.prems(2) refl a, simplified]
  show ?case using Cons.IH[OF b] st by auto
qed


section \<open>A whole collection\<close>

lemma pm_doGarbageCollection_ok:
  assumes L: "lower_ok (e_low E)" and U: "1 < ioUnitInPage (e_param E)"
    and run: "pm_doGarbageCollection E vs tick s w = Inr (t, s', w')"
    and inv: "pm_inv (e_param E) s" and dist: "distinct vs" and d: "\<forall>v \<in> set vs. pm_drained s v 0"
  shows "pm_inv (e_param E) s' \<and> dom (logi (e_param E) (pm_table s')) = dom (logi (e_param E) (pm_table s)) \<and>
    dom (pm_table s') = dom (pm_table s) \<and> (\<forall>v \<in> set vs. pm_blocks s' v = None) \<and>
    pm_bitsetSize s' = pm_bitsetSize s \<and> pm_bRandomTweak s' = pm_bRandomTweak s \<and> tick \<le> t"
proof (cases "vs = []")
  case True
  then show ?thesis using run inv by (simp add: pm_doGarbageCollection_def)
next
  case False
  obtain s1 w1 t1 rr wr rf w2 wf w3 ef s2 w4 where
    a: "rfold (pm_gcBlock E tick) vs (s, w, tick, [], []) = Inr (s1, w1, t1, rr, wr)"
    and b: "pm_eraseAll E rf vs (tick, s1, w3) = Inr (ef, s2, w4)"
    and c: "(t, s', w') = (case cpu_charge (e_low E) CPU_PAGE_MAPPING FN_DO_GARBAGE_COLLECTION (max wf ef) w4 of (t, w5) \<Rightarrow> (t, s2, w5))"
    using run False by (auto simp: pm_doGarbageCollection_def res_simps Let_def case_prod_beta)
  note st = pm_gcBlocks_ok[OF L U a inv dist d]
  have er: "pm_inv (e_param E) s2 \<and> pm_table s2 = pm_table s1 \<and> pm_bitsetSize s2 = pm_bitsetSize s1 \<and>
    pm_bRandomTweak s2 = pm_bRandomTweak s1 \<and>
    (\<forall>u. pm_blocks s2 u = (if u \<in> set vs then None else pm_blocks s1 u)) \<and> tick \<le> ef \<and> pm_nFreeBlocks s1 \<le> pm_nFreeBlocks s2"
    using pm_eraseAll_ok[OF b] st by blast
  have "s' = s2" "ef \<le> t" using c by (auto simp: cpu_charge_def Let_def case_prod_beta)
  then show ?thesis using st er by auto
qed

section \<open>Choosing victims\<close>

text \<open>What the standard library promises: an iteration visits every key once, a sort is a permutation.\<close>

definition env_ok :: "'w ftl_env \<Rightarrow> bool" where
  "env_ok E \<longleftrightarrow> totalPhysicalBlocks (e_param E) < U32MAX \<and>
     (\<forall>m. dom m \<subseteq> {..< totalPhysicalBlocks (e_param E)} \<longrightarrow>
        distinct (e_blockOrder E m) \<and> set (e_blockOrder E m) = dom m) \<and>
     (\<forall>xs. mset (e_sort E xs) = mset xs)"

lemma pm_shape_dom: "pm_shape P s \<Longrightarrow> dom (pm_blocks s) \<subseteq> {..< totalPhysicalBlocks P}"
  using pm_shapeD(7) blk_fitsD(5) by fastforce

lemma pm_weight_keys:
  assumes E: "env_ok E" and sh: "pm_shape (e_param E) s" and run: "pm_calculateVictimWeight E policy tick s = Inr weight"
  shows "distinct (map fst weight)" "\<And>k. k \<in> set (map fst weight) \<Longrightarrow> pm_drained s k 0 \<and> k < U32MAX"
proof -
  let ?f = "\<lambda>k. case pm_blocks s k of None \<Rightarrow> [] | Some b \<Rightarrow>
     if blk_getNextWritePageIndexMax b \<noteq> pagesInBlock (e_param E) then []
     else [(k, pm_weight (e_param E) policy tick b)]"
  let ?cand = "\<lambda>k. case pm_blocks s k of None \<Rightarrow> False | Some b \<Rightarrow> blk_getNextWritePageIndexMax b = pagesInBlock (e_param E)"
  have w: "weight = concat (map ?f (e_blockOrder E (pm_blocks s)))"
    using run by (auto simp: pm_calculateVictimWeight_def split: if_splits)
  have key: "map fst (concat (map ?f xs)) = filter ?cand xs" for xs
    by (induction xs) (auto split: option.splits)
  have ord: "distinct (e_blockOrder E (pm_blocks s))" "set (e_blockOrder E (pm_blocks s)) = dom (pm_blocks s)"
    using E pm_shape_dom[OF sh] by (auto simp: env_ok_def)
  show "distinct (map fst weight)" unfolding w key using ord(1) by simp
  fix k assume "k \<in> set (map fst weight)"
  then have "?cand k" unfolding w key by simp
  then obtain b where b: "pm_blocks s k = Some b" "blk_getNextWritePageIndexMax b = pagesInBlock (e_param E)"
    by (auto split: option.splits)
  note pb = pm_shapeD(7)[OF sh b(1)]
  have "k < totalPhysicalBlocks (e_param E)" using pb blk_fitsD(5) by auto
  moreover have "pm_drained s k 0"
    using b pb blk_fitsD(3) by (auto simp: pm_drained_def blk_full_def blk_drained_def)
  ultimately show "pm_drained s k 0 \<and> k < U32MAX" using E by (auto simp: env_ok_def)
qed

lemma pm_sample_keys:
  assumes "pm_sample L fuel n weight sel w = Inr (out, w')"
    and "distinct (map fst sel @ map fst (filter (\<lambda>x. fst x < U32MAX) weight))"
  shows "distinct (map fst out) \<and>
    fst ` set out \<subseteq> fst ` set sel \<union> fst ` set (filter (\<lambda>x. fst x < U32MAX) weight)"
  using assms
proof (induction fuel arbitrary: weight sel w)
  case 0
  then show ?case by (auto simp: pm_sample.simps[of L 0] split: if_splits)
next
  case (Suc fuel)
  let ?u = "\<lambda>x::nat \<times> fl. fst x < U32MAX"
  show ?case
  proof (cases "length sel < n")
    case False
    then show ?thesis using Suc.prems by (auto simp: pm_sample.simps[of L "Suc fuel"])
  next
    case True
    obtain idx w1 where dr: "ll_random L ((length weight + 2 ^ 64 - 1) mod 2 ^ 64) w = (idx, w1)" by fastforce
    have idx: "idx < length weight" and rest: "(if ?u (weight ! idx)
        then pm_sample L fuel n (weight[idx := (U32MAX, snd (weight ! idx))]) (sel @ [weight ! idx]) w1
        else pm_sample L fuel n weight sel w1) = Inr (out, w')"
      using Suc.prems(1) True dr by (auto simp: res_simps pm_sample.simps[of L "Suc fuel"])
    show ?thesis
    proof (cases "?u (weight ! idx)")
      case False
      then show ?thesis using Suc.IH[of weight sel w1] rest Suc.prems(2) by simp
    next
      case u: True
      let ?wt = "weight[idx := (U32MAX, snd (weight ! idx))]"
      have a: "filter ?u weight = filter ?u (take idx weight) @ weight ! idx # filter ?u (drop (Suc idx) weight)"
        using u by (subst id_take_nth_drop[OF idx]) simp
      have b: "filter ?u ?wt = filter ?u (take idx weight) @ filter ?u (drop (Suc idx) weight)"
        by (simp add: upd_conv_take_nth_drop[OF idx])
      have r: "pm_sample L fuel n ?wt (sel @ [weight ! idx]) w1 = Inr (out, w')" using rest u by simp
      have d: "distinct (map fst (sel @ [weight ! idx]) @ map fst (filter ?u ?wt))"
        using Suc.prems(2) unfolding a b by auto
      have "fst ` set (sel @ [weight ! idx]) \<union> fst ` set (filter ?u ?wt) = fst ` set sel \<union> fst ` set (filter ?u weight)"
        unfolding a b by auto
      then show ?thesis using Suc.IH[OF r d] by simp
    qed
  qed
qed

lemma pm_selectVictimBlock_ok:
  assumes E: "env_ok E" and inv: "pm_inv (e_param E) s"
    and run: "pm_selectVictimBlock E tick s w = Inr (vs, t, s', w')"
  shows "distinct vs \<and> (\<forall>v \<in> set vs. pm_drained s' v 0) \<and> s' = s\<lparr>pm_bReclaimMore := False\<rparr> \<and> tick \<le> t"
proof -
  let ?s1 = "s\<lparr>pm_bReclaimMore := False\<rparr>" and ?pol = "c_evictPolicy (e_conf E)"
  have sh: "pm_shape (e_param E) ?s1" using inv by (simp add: pm_inv_def pm_shape_def)
  obtain n weight cand w1 where w: "pm_calculateVictimWeight E ?pol tick ?s1 = Inr weight"
    and c: "(if ?pol = POLICY_RANDOM \<or> ?pol = POLICY_DCHOICE
         then pm_sample (e_low E) (e_draws E) (if ?pol = POLICY_RANDOM then n else c_dChoice (e_conf E) * n) weight [] w
         else Inr (weight, w)) = Inr (cand, w1)"
    and v: "vs = map fst (take n (e_sort E cand))" "s' = ?s1"
    and t: "t = fst (cpu_charge (e_low E) CPU_PAGE_MAPPING FN_SELECT_VICTIM_BLOCK tick w1)"
    using run unfolding pm_selectVictimBlock_def Let_def res_simps case_prod_beta by auto
  note wk = pm_weight_keys[OF E sh w]
  have ff: "filter (\<lambda>x. fst x < U32MAX) weight = weight" using wk(2) by (auto intro!: filter_True)
  have ck: "distinct (map fst cand) \<and> fst ` set cand \<subseteq> fst ` set weight"
  proof (cases "?pol = POLICY_RANDOM \<or> ?pol = POLICY_DCHOICE")
    case True
    then have "\<exists>m. pm_sample (e_low E) (e_draws E) m weight [] w = Inr (cand, w1)" using c by auto
    then obtain m where "pm_sample (e_low E) (e_draws E) m weight [] w = Inr (cand, w1)" by blast
    from pm_sample_keys[OF this] show ?thesis using wk(1) ff by simp
  next
    case False
    then show ?thesis using c wk(1) by simp
  qed
  have ms: "mset (e_sort E cand) = mset cand" using E by (simp add: env_ok_def)
  have d: "distinct (map fst (e_sort E cand))"
    using ck ms by (metis mset_eq_imp_distinct_iff mset_map)
  have sv: "set vs \<subseteq> fst ` set cand"
    using v(1) ms set_take_subset[of n "e_sort E cand"] by (metis (no_types, lifting) image_mono list.set_map mset_eq_setD)
  have "distinct vs" using d v(1) by (metis distinct_take take_map)
  moreover have "\<forall>v \<in> set vs. pm_drained s' v 0" using sv ck wk(2) v(2) by fastforce
  ultimately show ?thesis using v(2) t by (simp add: cpu_charge_def Let_def case_prod_beta)
qed

text \<open>
  A write with its collection.  Whatever is collected, the invariant holds afterwards and the mapped
  logical units are those before plus the written ones.
\<close>

lemma pm_writeInternal_ok:
  assumes E: "env_ok E" and L: "lower_ok (e_low E)" and U: "1 < ioUnitInPage (e_param E)"
    and inv: "pm_inv (e_param E) s" and open_: "pm_open (e_param E) s" "0 < pm_nFreeBlocks s"
    and f: "bs_wf (f_ioFlag req)" "bs_dataSize (f_ioFlag req) = ioUnitInPage (e_param E)"
    and run: "pm_writeInternal E req send tick s w = Inr (t, s', w')"
  shows "pm_inv (e_param E) s' \<and>
    dom (logi (e_param E) (pm_table s')) =
      dom (logi (e_param E) (pm_table s)) \<union> pm_units_of s (f_ioFlag req) (f_lpn req) 0 (pm_bitsetSize s) \<and>
    (send \<longrightarrow> tick \<le> t)"
proof -
  let ?P = "e_param E"
  obtain t1 s1 w1 where a: "pm_writePages E req send tick s w = Inr (t1, s1, w1)" "pm_inv ?P s1"
    "pm_wrote ?P req s s1" "send \<longrightarrow> tick \<le> t1"
    using pm_writePages_ok[OF inv L f open_] by blast
  have dom1: "dom (logi ?P (pm_table s1)) = dom (logi ?P (pm_table s)) \<union> pm_units_of s (f_ioFlag req) (f_lpn req) 0 (pm_bitsetSize s)"
  proof (intro set_eqI iffI)
    fix x assume x: "x \<in> dom (logi ?P (pm_table s1))"
    obtain l i where li: "x = (l, i)" by (cases x)
    show "x \<in> dom (logi ?P (pm_table s)) \<union> pm_units_of s (f_ioFlag req) (f_lpn req) 0 (pm_bitsetSize s)"
    proof (cases "l = f_lpn req \<and> i < pm_bitsetSize s \<and> pm_selects s (f_ioFlag req) i")
      case False
      then have "logi ?P (pm_table s1) (l, i) = logi ?P (pm_table s) (l, i)" using a(3) by (simp add: pm_wrote_def)
      then show ?thesis using x li by (auto simp: dom_def)
    qed (simp add: li pm_units_of_def)
  next
    fix x assume x: "x \<in> dom (logi ?P (pm_table s)) \<union> pm_units_of s (f_ioFlag req) (f_lpn req) 0 (pm_bitsetSize s)"
    obtain l i where li: "x = (l, i)" by (cases x)
    show "x \<in> dom (logi ?P (pm_table s1))"
    proof (cases "l = f_lpn req \<and> i < pm_bitsetSize s \<and> pm_selects s (f_ioFlag req) i")
      case True
      then show ?thesis using a(3) li by (auto simp: pm_wrote_def)
    next
      case False
      then have "logi ?P (pm_table s1) (l, i) = logi ?P (pm_table s) (l, i)" using a(3) by (simp add: pm_wrote_def)
      then show ?thesis using x li False by (auto simp: pm_units_of_def dom_def)
    qed
  qed
  obtain w2 where c: "pm_collectIfNeeded E send t1 s1 w1 = Inr (s', w2)" and t: "t = t1"
  proof -
    have "rbind (pm_collectIfNeeded E send t1 s1 w1) (\<lambda>(s2, w2). Inr (t1, s2, w2)) = Inr (t, s', w')"
      using run unfolding pm_writeInternal_def a(1) by (simp only: rbind.simps prod.case)
    then obtain x where x: "pm_collectIfNeeded E send t1 s1 w1 = Inr x"
      "(case x of (s2, w2) \<Rightarrow> Inr (t1, s2, w2)) = (Inr (t, s', w') :: (nat \<times> pm_state \<times> 'a) res)"
      unfolding rbind_Inr_iff by blast
    obtain s2 w2 where "x = (s2, w2)" by (cases x)
    then have "x = (s', w2)" "t = t1" using x(2) by simp_all
    then show ?thesis using x(1) by (intro that[of w2]) simp_all
  qed
  show ?thesis
  proof (cases "pm_gcNeeded E s1")
    case False
    then show ?thesis using c t a dom1 by (auto simp: pm_collectIfNeeded_def)
  next
    case True
    then obtain vs t2 s2 w3 t3 s3 w4 where v: "pm_selectVictimBlock E t1 s1 w1 = Inr (vs, t2, s2, w3)"
      and g: "pm_doGarbageCollection E vs t2 s2 w3 = Inr (t3, s3, w4)"
      and s': "s' = s3\<lparr>pm_stat := (pm_stat s3)\<lparr>gcCount := gcCount (pm_stat s3) + 1,
                        reclaimedBlocks := reclaimedBlocks (pm_stat s3) + length vs\<rparr>\<rparr>"
      using c by (auto simp: pm_collectIfNeeded_def res_simps split: if_splits)
    note sv = pm_selectVictimBlock_ok[OF E a(2) v]
    have "pm_inv ?P s2" using sv a(2) by (simp add: pm_inv_def pm_shape_def pm_cons_def)
    then have gc: "pm_inv ?P s3" "dom (logi ?P (pm_table s3)) = dom (logi ?P (pm_table s2))"
      using pm_doGarbageCollection_ok[OF L U g] sv by blast+
    have "pm_table s2 = pm_table s1" using sv by simp
    then show ?thesis using gc s' dom1 t a(4) by simp
  qed
qed

end
