(* ===== verification/PageMapOps.thy ===== *)
theory PageMapOps
  imports PageMapGC
begin

text \<open>
  The remaining operations of the page-level FTL: construction establishes the invariant with every
  parallel slot open, reads find every mapped unit and change nothing but access times, trims of fully
  mapped pages remove exactly that page.
\<close>

section \<open>Construction\<close>

definition pm_start :: "'w ftl_env \<Rightarrow> block list \<Rightarrow> pm_state" where
  "pm_start E free =
     (let P = e_param E in
      \<lparr>pm_table = Map.empty, pm_blocks = Map.empty, pm_freeBlocks = free,
       pm_nFreeBlocks = totalPhysicalBlocks P,
       pm_lastFreeBlock = replicate (pageCountToMaxPerf P) 0,
       pm_lastFreeBlockIOMap = bs_new (ioUnitInPage P), pm_lastFreeBlockIndex = 0,
       pm_bReclaimMore = False, pm_bRandomTweak = c_randomTweak (e_conf E),
       pm_bitsetSize = (if c_randomTweak (e_conf E) then ioUnitInPage P else 1),
       pm_stat = pm_stat0, pm_totalLogicalPages = totalLogicalBlocks P * pagesInBlock P,
       pm_mappedLogicalPages = 0, pm_freePhysicalBlocks = 0\<rparr>)"

lemma pm_new_blocks:
  assumes "ftl_param_ok P"
  shows "\<exists>bs. rfold (\<lambda>i bs. rbind (blk_new i (pagesInBlock P) (ioUnitInPage P)) (\<lambda>b. Inr (bs @ [b]))) [0..<n] [] = Inr bs \<and>
    map b_idx bs = [0..<n] \<and> (\<forall>b \<in> set bs. blk_inv b \<and> b_pageCount b = pagesInBlock P \<and>
      b_ioUnitInPage b = ioUnitInPage P \<and> b_idx b < n \<and> blk_clean b)"
proof (rule rfold_upt_total[where I = "\<lambda>i bs. map b_idx bs = [0..<i] \<and> (\<forall>b \<in> set bs. blk_inv b \<and>
      b_pageCount b = pagesInBlock P \<and> b_ioUnitInPage b = ioUnitInPage P \<and> b_idx b < i \<and> blk_clean b)"])
  fix i and bs :: "block list"
  assume i: "i < n" and I: "map b_idx bs = [0..<i] \<and> (\<forall>b \<in> set bs. blk_inv b \<and>
      b_pageCount b = pagesInBlock P \<and> b_ioUnitInPage b = ioUnitInPage P \<and> b_idx b < i \<and> blk_clean b)"
  have pos: "0 < pagesInBlock P" "0 < ioUnitInPage P" using assms by (auto simp: ftl_param_ok_def)
  obtain b where b: "blk_new i (pagesInBlock P) (ioUnitInPage P) = Inr b" "blk_inv b" "b_idx b = i"
    "b_pageCount b = pagesInBlock P" "b_ioUnitInPage b = ioUnitInPage P"
    "\<And>p u. p < pagesInBlock P \<Longrightarrow> u < ioUnitInPage P \<Longrightarrow> \<not> blk_valid b p u"
    "\<And>u. u < ioUnitInPage P \<Longrightarrow> blk_next b u = 0"
    by (rule blk_new_ok[OF pos, of i]) blast
  then have "blk_clean b" by (simp add: blk_clean_def)
  then show "\<exists>s'. rbind (blk_new i (pagesInBlock P) (ioUnitInPage P)) (\<lambda>b. Inr (bs @ [b])) = Inr s' \<and>
      map b_idx s' = [0..<Suc i] \<and> (\<forall>b \<in> set s'. blk_inv b \<and> b_pageCount b = pagesInBlock P \<and>
      b_ioUnitInPage b = ioUnitInPage P \<and> b_idx b < Suc i \<and> blk_clean b)"
    using b I by (auto simp: less_Suc_eq)
qed simp

lemma pm_start_inv:
  assumes ok: "ftl_param_ok (e_param E)" and ids: "map b_idx bs = [0..<totalPhysicalBlocks (e_param E)]"
    and bs: "\<forall>b \<in> set bs. blk_inv b \<and> b_pageCount b = pagesInBlock (e_param E) \<and>
      b_ioUnitInPage b = ioUnitInPage (e_param E) \<and> b_idx b < totalPhysicalBlocks (e_param E) \<and> blk_clean b"
  shows "pm_inv (e_param E) (pm_start E bs)"
proof -
  have len: "length bs = totalPhysicalBlocks (e_param E)" using ids by (metis diff_zero length_map length_upt)
  have "pm_shape (e_param E) (pm_start E bs)"
    using ok ids bs len by (simp add: pm_shape_def pm_start_def Let_def ftl_param_ok_def blk_fits_def bs_new_wf)
  moreover have "pm_cons (e_param E) {} (pm_start E bs)"
    by (auto simp: pm_cons_def inverse_off_def pm_start_def Let_def phys_Some_iff logi_def)
  ultimately show ?thesis by (simp add: pm_inv_def)
qed

lemma pm_shape_set_last:
  assumes "pm_shape P s"
  shows "pm_shape P (s\<lparr>pm_lastFreeBlock := (pm_lastFreeBlock s)[j := n]\<rparr>)"
  using assms by (simp add: pm_shape_def)

lemma pm_new_ok:
  assumes ok: "ftl_param_ok (e_param E)" and T: "pageCountToMaxPerf (e_param E) \<le> totalPhysicalBlocks (e_param E)"
  shows "\<exists>s. pm_new E = Inr s \<and> pm_inv (e_param E) s \<and> pm_open (e_param E) s \<and> pm_table s = Map.empty \<and>
    pm_nFreeBlocks s = totalPhysicalBlocks (e_param E) - pageCountToMaxPerf (e_param E) \<and>
    pm_bRandomTweak s = c_randomTweak (e_conf E)"
proof -
  let ?P = "e_param E"
  obtain bs where bs: "rfold (\<lambda>i bs. rbind (blk_new i (pagesInBlock ?P) (ioUnitInPage ?P)) (\<lambda>b. Inr (bs @ [b])))
      [0..<totalPhysicalBlocks ?P] [] = Inr bs" "map b_idx bs = [0..<totalPhysicalBlocks ?P]"
    "\<forall>b \<in> set bs. blk_inv b \<and> b_pageCount b = pagesInBlock ?P \<and>
      b_ioUnitInPage b = ioUnitInPage ?P \<and> b_idx b < totalPhysicalBlocks ?P \<and> blk_clean b"
    using pm_new_blocks[OF ok] by blast
  have i0: "pm_inv ?P (pm_start E bs)" by (rule pm_start_inv[OF ok bs(2,3)])
  let ?f = "\<lambda>i s. rbind (pm_getFreeBlock ?P i s) (\<lambda>(k, s'). Inr (s'\<lparr>pm_lastFreeBlock := (pm_lastFreeBlock s')[i := k]\<rparr>))"
  define I where "I i s \<longleftrightarrow> pm_inv ?P s \<and> pm_table s = Map.empty \<and> pm_nFreeBlocks s = totalPhysicalBlocks ?P - i \<and>
    (\<forall>j < i. pm_blocks s (pm_lastFreeBlock s ! j) \<noteq> None) \<and> pm_bRandomTweak s = c_randomTweak (e_conf E)" for i s
  have "\<exists>s. rfold ?f [0..<pageCountToMaxPerf ?P] (pm_start E bs) = Inr s \<and> I (pageCountToMaxPerf ?P) s"
  proof (rule rfold_upt_total)
    show "I 0 (pm_start E bs)" using i0 by (simp add: I_def pm_start_def Let_def)
    fix i s assume i: "i < pageCountToMaxPerf ?P" and Is: "I i s"
    have sh: "pm_shape ?P s" and c: "pm_cons ?P {} s" and tb: "pm_table s = Map.empty"
      using Is by (auto simp: I_def pm_inv_def)
    have n: "0 < pm_nFreeBlocks s" using Is i T by (simp add: I_def)
    obtain b fr where b: "pm_getFreeBlock ?P i s = Inr (b_idx b, s\<lparr>pm_blocks := (pm_blocks s)(b_idx b \<mapsto> b),
        pm_freeBlocks := fr, pm_nFreeBlocks := pm_nFreeBlocks s - 1\<rparr>)" "b \<in> set (pm_freeBlocks s)"
      "mset (pm_freeBlocks s) = add_mset b (mset fr)"
      by (rule pm_getFreeBlock_ok[OF sh i n])
    let ?u = "s\<lparr>pm_blocks := (pm_blocks s)(b_idx b \<mapsto> b), pm_freeBlocks := fr, pm_nFreeBlocks := pm_nFreeBlocks s - 1\<rparr>"
    let ?s' = "?u\<lparr>pm_lastFreeBlock := (pm_lastFreeBlock ?u)[i := b_idx b]\<rparr>"
    have u: "pm_shape ?P ?u" by (rule pm_shape_take_free[OF sh b(3)])
    have sh': "pm_shape ?P ?s'" by (rule pm_shape_set_last[OF u])
    have ph: "phys ((pm_blocks s)(b_idx b \<mapsto> b)) = phys (pm_blocks s)" by (rule phys_take_free[OF sh b(2)])
    have "pm_inv ?P ?s'" using sh' c ph by (simp add: pm_inv_def pm_cons_def)
    moreover have "\<forall>j < Suc i. pm_blocks ?s' (pm_lastFreeBlock ?s' ! j) \<noteq> None"
      using Is i pm_shapeD(3)[OF sh] by (auto simp: I_def less_Suc_eq nth_list_update)
    ultimately have "I (Suc i) ?s'" using Is by (simp add: I_def)
    then show "\<exists>s'. ?f i s = Inr s' \<and> I (Suc i) s'" using b(1) by simp
  qed
  then obtain s where s: "rfold ?f [0..<pageCountToMaxPerf ?P] (pm_start E bs) = Inr s" "I (pageCountToMaxPerf ?P) s" by blast
  have "pm_new E = rbind (rfold ?f [0..<pageCountToMaxPerf ?P] (pm_start E bs)) Inr"
    using bs(1) by (simp add: pm_new_def pm_start_def Let_def)
  then show ?thesis using s by (simp add: I_def pm_open_def)
qed

section \<open>Reading\<close>

lemma pm_readUnit_ok:
  assumes L: "lower_ok (e_low E)" and inv: "pm_inv (e_param E) s" and ml: "pm_table s l = Some ml"
    and i: "i < pm_bitsetSize s"
  shows "\<exists>s' w' t'. pm_readUnit E req ml tick i (s, w, fin) = Inr (s', w', t') \<and> pm_inv (e_param E) s' \<and>
     pm_same s s' \<and> pm_table s' = pm_table s \<and> phys (pm_blocks s') = phys (pm_blocks s) \<and> fin \<le> t' \<and>
     (pm_selects s (f_ioFlag req) i \<and> pm_mapped (e_param E) (ml ! i) \<longrightarrow> tick \<le> t')"
proof -
  let ?P = "e_param E"
  have sh: "pm_shape ?P s" and c: "pm_cons ?P {} s" using inv by (auto simp: pm_inv_def)
  have len: "i < length ml" using pm_shapeD(11)[OF sh ml] i by simp
  obtain k p where kp: "ml ! i = (k, p)" by (cases "ml ! i")
  show ?thesis
  proof (cases "pm_selects s (f_ioFlag req) i \<and> pm_mapped ?P (k, p)")
    case False
    then show ?thesis using len kp inv by (auto simp: pm_readUnit_def)
  next
    case True
    have "logi ?P (pm_table s) (l, i) = Some (k, p)" using ml len kp True by (simp add: logi_Some_iff)
    then have "phys (pm_blocks s) (k, p, i) = Some l" using pm_inv_copy[OF inv] by simp
    then obtain b where b: "pm_blocks s k = Some b" "p < b_pageCount b" "i < b_ioUnitInPage b" "blk_valid b p i"
      by (auto simp: phys_Some_iff)
    note fd = blk_fitsD[OF conjunct1[OF pm_shapeD(7)[OF sh b(1)]]]
    have fit: "blk_fits ?P (b\<lparr>b_lastAccessed := tick\<rparr>)" using pm_shapeD(7)[OF sh b(1)] by (simp add: blk_fits_def)
    let ?s' = "set_block k (b\<lparr>b_lastAccessed := tick\<rparr>) s"
    have sh': "pm_shape ?P ?s'" by (rule pm_shape_set_block[OF sh b(1) fit]) simp
    have ph: "phys ((pm_blocks s)(k \<mapsto> b\<lparr>b_lastAccessed := tick\<rparr>)) = phys (pm_blocks s)"
      by (rule phys_same_obs[of "pm_blocks s" k b]) (use b in auto)
    have rd: "blk_read b p i tick = Inr (True, b\<lparr>b_lastAccessed := tick\<rparr>)"
      using blk_read_ok[OF fd(2) b(2,3)] b(4) by simp
    obtain t1 w1 where pr: "ll_pal_read (e_low E) ((pal_of_ftl req)\<lparr>p_blockIndex := k, p_pageIndex := p,
        p_ioFlag := pm_unitFlag s (f_ioFlag req) i\<rparr>) tick w = Inr (t1, w1)" "tick \<le> t1"
      using lower_okD(1)[OF L] by blast
    have "pm_readUnit E req ml tick i (s, w, fin) = Inr (?s', w1, max fin t1)"
      using True len kp b(1) rd pr(1) by (simp add: pm_readUnit_def pm_find_def)
    moreover have "pm_inv ?P ?s'" using sh' c ph by (simp add: pm_inv_def pm_cons_def)
    moreover have "pm_same s ?s'" by (rule pm_same_set_block[OF b(1)])
    ultimately show ?thesis using ph pr(2) by (auto simp: max_def)
  qed
qed

lemma pm_readInternal_ok:
  assumes L: "lower_ok (e_low E)" and inv: "pm_inv (e_param E) s"
  shows "\<exists>t s' w'. pm_readInternal E req tick s w = Inr (t, s', w') \<and> pm_inv (e_param E) s' \<and> pm_same s s' \<and>
    pm_table s' = pm_table s \<and> phys (pm_blocks s') = phys (pm_blocks s) \<and> tick \<le> t"
proof (cases "pm_table s (f_lpn req)")
  case None
  then show ?thesis using inv by (simp add: pm_readInternal_def)
next
  case (Some ml)
  obtain t0 w0 where dr: "ll_dram_read (e_low E) (f_lpn req) (pm_entryBytes s (f_ioFlag req)) tick w = Inr (t0, w0)"
    using lower_okD(4)[OF L] by blast
  define I where "I (i::nat) x \<longleftrightarrow> (case x of (s', w', fin) \<Rightarrow> pm_inv (e_param E) s' \<and> pm_same s s' \<and>
     pm_table s' = pm_table s \<and> phys (pm_blocks s') = phys (pm_blocks s) \<and> tick \<le> fin)"
    for i and x :: "pm_state \<times> 'a \<times> nat"
  have "\<exists>x. rfold (pm_readUnit E req ml t0) [0..<pm_bitsetSize s] (s, w0, tick) = Inr x \<and> I (pm_bitsetSize s) x"
  proof (rule rfold_upt_total)
    show "I 0 (s, w0, tick)" using inv by (simp add: I_def)
    fix i x assume i: "i < pm_bitsetSize s" and x: "I i x"
    obtain sx wx fx where xx: "x = (sx, wx, fx)" by (cases x)
    have sx: "pm_inv (e_param E) sx" "pm_same s sx" "pm_table sx = pm_table s" "phys (pm_blocks sx) = phys (pm_blocks s)" "tick \<le> fx"
      using x by (auto simp: xx I_def)
    have mlx: "pm_table sx (f_lpn req) = Some ml" using sx(3) Some by simp
    have ix: "i < pm_bitsetSize sx" using i sx(2) by (simp add: pm_same_def)
    obtain s' w' t' where "pm_readUnit E req ml t0 i (sx, wx, fx) = Inr (s', w', t')" "pm_inv (e_param E) s'"
      "pm_same sx s'" "pm_table s' = pm_table sx" "phys (pm_blocks s') = phys (pm_blocks sx)" "fx \<le> t'"
      using pm_readUnit_ok[OF L sx(1) mlx ix, of req t0 wx fx] by blast
    then show "\<exists>x'. pm_readUnit E req ml t0 i x = Inr x' \<and> I (Suc i) x'"
      using sx pm_same_trans[OF sx(2)] by (auto simp: xx I_def)
  qed
  then obtain s' w' fin where r: "rfold (pm_readUnit E req ml t0) [0..<pm_bitsetSize s] (s, w0, tick) = Inr (s', w', fin)"
    and I: "I (pm_bitsetSize s) (s', w', fin)" by (auto simp: I_def)
  obtain t w2 where ch: "cpu_charge (e_low E) CPU_PAGE_MAPPING FN_READ_INTERNAL fin w' = (t, w2)" "fin \<le> t"
    by (auto simp: cpu_charge_def Let_def case_prod_beta)
  have "pm_readInternal E req tick s w = Inr (t, s', w2)"
    using Some dr r ch(1) by (simp add: pm_readInternal_def Let_def)
  then show ?thesis using I ch(2) by (auto simp: I_def)
qed

section \<open>Trimming\<close>

lemma pm_trimInternal_ok:
  assumes L: "lower_ok (e_low E)" and inv: "pm_inv (e_param E) s"
    and full: "\<forall>i < pm_bitsetSize s. logi (e_param E) (pm_table s) (f_lpn req, i) \<noteq> None"
  shows "\<exists>t s' w'. pm_trimInternal E req tick s w = Inr (t, s', w') \<and> pm_inv (e_param E) s' \<and> pm_same s s' \<and>
    pm_table s' = (pm_table s)(f_lpn req := None) \<and> tick \<le> t"
proof -
  let ?P = "e_param E" and ?l = "f_lpn req" and ?Z = "pm_bitsetSize s"
  have sh: "pm_shape ?P s" and c: "pm_cons ?P {} s" using inv by (auto simp: pm_inv_def)
  show ?thesis
  proof (cases "pm_table s ?l")
    case None
    then have "pm_table s = (pm_table s)(?l := None)" by auto
    then show ?thesis using None inv by (simp add: pm_trimInternal_def)
  next
    case (Some ml)
    obtain t0 w0 where dr: "ll_dram_read (e_low E) ?l (pm_entryBytes s (f_ioFlag req)) tick w = Inr (t0, w0)" "tick \<le> t0"
      using lower_okD(4)[OF L] by blast
    define I where "I i s' \<longleftrightarrow> pm_shape ?P s' \<and> pm_cons ?P {(?l, j) | j. j < i} s' \<and> pm_same s s' \<and> pm_table s' = pm_table s" for i s'
    have "\<exists>s'. rfold (pm_trimUnit ml) [0..<?Z] s = Inr s' \<and> I ?Z s'"
    proof (rule rfold_upt_total)
      show "I 0 s" using sh c by (simp add: I_def)
      fix i t assume i: "i < ?Z" and t: "I i t"
      have sht: "pm_shape ?P t" and ct: "pm_cons ?P {(?l, j) | j. j < i} t" and tt: "pm_table t = pm_table s" and st: "pm_same s t"
        using t by (auto simp: I_def)
      have "logi ?P (pm_table t) (?l, i) \<noteq> None" using full i tt by simp
      then obtain k p where kp: "logi ?P (pm_table t) (?l, i) = Some (k, p)" by auto
      then have mi: "ml ! i = (k, p)" "i < length ml" using Some tt by (auto simp: logi_Some_iff)
      obtain b where b: "pm_blocks t k = Some b" "blk_invalidate b p i = Inr (blk_clear b p i)"
        "pm_shape ?P (set_block k (blk_clear b p i) t)"
        "pm_cons ?P (insert (?l, i) {(?l, j) | j. j < i}) (set_block k (blk_clear b p i) t)"
        by (rule pm_clear_slot[OF sht ct kp]) auto
      have "pm_trimUnit ml i t = Inr (set_block k (blk_clear b p i) t)"
        using mi b(1,2) by (simp add: pm_trimUnit_def pm_find_def)
      moreover have "insert (?l, i) {(?l, j) | j. j < i} = {(?l, j) | j. j < Suc i}" by (auto simp: less_Suc_eq)
      ultimately show "\<exists>s'. pm_trimUnit ml i t = Inr s' \<and> I (Suc i) s'"
        using b(3,4) tt pm_same_trans[OF st pm_same_set_block[OF b(1)]] by (auto simp: I_def)
    qed
    then obtain s1 where s1: "rfold (pm_trimUnit ml) [0..<?Z] s = Inr s1" "pm_shape ?P s1"
      "pm_cons ?P {(?l, j) | j. j < ?Z} s1" "pm_same s s1" "pm_table s1 = pm_table s" by (auto simp: I_def)
    let ?s' = "s1\<lparr>pm_table := (pm_table s1)(?l := None)\<rparr>"
    have "pm_shape ?P ?s'" using s1(2) by (auto simp: pm_shape_def split: if_splits)
    moreover have "pm_cons ?P {} ?s'"
    proof -
      have "(l, i) \<in> {(?l, j) | j. j < ?Z} \<longleftrightarrow> l = ?l" if "logi ?P (pm_table s1) (l, i) = Some m" for l i m
        using that pm_shapeD(11)[OF s1(2)] s1(4) by (auto simp: logi_Some_iff pm_same_def)
      then show ?thesis using s1(3) by (auto simp: pm_cons_def inverse_off_def logi_drop_entry split: if_splits)
    qed
    ultimately have "pm_inv ?P ?s'" by (simp add: pm_inv_def)
    moreover obtain t w2 where ch: "cpu_charge (e_low E) CPU_PAGE_MAPPING FN_TRIM_INTERNAL t0 w0 = (t, w2)" "t0 \<le> t"
      by (auto simp: cpu_charge_def Let_def case_prod_beta)
    moreover have "pm_trimInternal E req tick s w = Inr (t, ?s', w2)"
      using Some dr(1) s1(1) ch(1) by (simp add: pm_trimInternal_def Let_def)
    ultimately show ?thesis using dr(2) s1(4,5) by auto
  qed
qed

end
