(* ===== verification/PageMapDemo.thy ===== *)
theory PageMapDemo
  imports PageMapOps
begin

text \<open>
  Small drives on which the page-level FTL is run: four superblocks of \<open>p\<close> pages with two I/O
  units each, \<open>n\<close> parallel slots, collection of one block when fewer than three quarters of the blocks are
  free, and lower layers that take a fixed time.  The properties use them for their concrete instances,
  and the runs below show where the code stops with a panic.
\<close>

definition demo_param :: "nat \<Rightarrow> nat \<Rightarrow> ftl_param" where
  "demo_param n p = \<lparr>totalPhysicalBlocks = 4, totalLogicalBlocks = 2, pagesInBlock = p, pageSize = 8,
     ioUnitInPage = 2, pageCountToMaxPerf = n\<rparr>"

definition demo_conf :: ftl_conf where
  "demo_conf = \<lparr>c_gcThreshold = Fin (3 / 4), c_badBlockThreshold = 10, c_fillingMode = 0,
     c_fillRatio = Fin 0, c_invalidRatio = Fin 0, c_gcMode = 0, c_reclaimBlock = 1,
     c_reclaimThreshold = Fin (1 / 2), c_evictPolicy = POLICY_GREEDY, c_dChoice = 3, c_randomTweak = True\<rparr>"

definition demo_sort :: "(nat \<times> fl) list \<Rightarrow> (nat \<times> fl) list" where
  "demo_sort xs = foldr (\<lambda>x ys. takeWhile (\<lambda>y. fl_less (snd y) (snd x)) ys @ x # dropWhile (\<lambda>y. fl_less (snd y) (snd x)) ys) xs []"

definition demo_keys :: "(nat \<rightharpoonup> 'a) \<Rightarrow> nat list" where
  "demo_keys m = filter (\<lambda>k. m k \<noteq> None) [0..<4]"

definition demo_env :: "nat \<Rightarrow> nat \<Rightarrow> unit ftl_env" where
  "demo_env n p = \<lparr>e_low = lower_fixed 10 1, e_param = demo_param n p, e_conf = demo_conf,
     e_blockOrder = demo_keys, e_tableOrder = demo_keys, e_sort = demo_sort, e_draws = 8\<rparr>"

definition demo_req :: "nat \<Rightarrow> nat list \<Rightarrow> ftl_request" where
  "demo_req l us = (ftl_request_new 2)\<lparr>f_lpn := l, f_ioFlag := fold (\<lambda>u b. bs_set b u True) us (bs_new 2)\<rparr>"

text \<open>Writing a list of requests one after the other.\<close>

definition demo_writes :: "nat \<Rightarrow> nat \<Rightarrow> ftl_request list \<Rightarrow> pm_state \<Rightarrow> pm_state res" where
  "demo_writes n p = rfold (\<lambda>r s. rbind (pm_write (demo_env n p) r 0 s ()) (\<lambda>(t, s', w). Inr s'))"

lemma demo_sort_mset: "mset (demo_sort xs) = mset xs"
proof (induction xs)
  case (Cons x xs)
  have "mset (takeWhile P ys @ x # dropWhile P ys) = add_mset x (mset ys)" for P ys
    by (metis mset_append mset.simps(2) takeWhile_dropWhile_id union_mset_add_mset_right)
  then show ?case using Cons by (simp add: demo_sort_def)
qed (simp add: demo_sort_def)

lemma demo_keys_ok: "dom m \<subseteq> {..< 4} \<Longrightarrow> distinct (demo_keys m) \<and> set (demo_keys m) = dom m"
  by (auto simp: demo_keys_def)

lemma demo_env_ok: "env_ok (demo_env n p)" "lower_ok (e_low (demo_env n p))"
  "0 < n \<Longrightarrow> 0 < p \<Longrightarrow> ftl_param_ok (e_param (demo_env n p))"
  using demo_keys_ok demo_sort_mset lower_fixed_ok
  by (auto simp: env_ok_def demo_env_def demo_param_def ftl_param_ok_def)

lemma demo_req_lpn [simp]: "f_lpn (demo_req l us) = l"
  by (simp add: demo_req_def)

lemma demo_req_ok: "u < 2 \<Longrightarrow> v < 2 \<Longrightarrow> bs_wf (f_ioFlag (demo_req l [u, v])) \<and> bs_dataSize (f_ioFlag (demo_req l [u, v])) = 2"
  by (simp add: demo_req_def bs_new_wf)



text \<open>A format that hits the open block, then a write.\<close>

lemma demo_format:
  "fault_of (rbind (pm_new (demo_env 1 2)) (\<lambda>s.
     rbind (demo_writes 1 2 [demo_req 0 [0, 1]] s) (\<lambda>s.
     rbind (pm_format (demo_env 1 2) \<lparr>slpn = 0, nlp = 1\<rparr> 0 s ()) (\<lambda>(t, s, w).
       demo_writes 1 2 [demo_req 0 [0, 1]] s)))) = Some (Panic ''Corrupted'')"
  by code_simp

text \<open>A trim of a page of which only one unit was written.\<close>

lemma demo_trim:
  "fault_of (rbind (pm_new (demo_env 1 2)) (\<lambda>s.
     rbind (demo_writes 1 2 [demo_req 1 [0]] s) (\<lambda>s.
       pm_trim (demo_env 1 2) (demo_req 1 [0]) 0 s ()))) = Some (Panic ''Block is not in use'')"
  by code_simp

text \<open>Collection that picks a full block which is still the open block of its slot.\<close>

lemma demo_collect_open:
  "fault_of (rbind (pm_new (demo_env 2 1)) (\<lambda>s.
     demo_writes 2 1 [demo_req 0 [0, 1], demo_req 1 [0, 1]] s))
   = Some (Panic ''Corrupted'')"
  by code_simp


section \<open>Concrete instances of the hypotheses\<close>

lemma demo_param_sel [simp]:
  "e_param (demo_env n p) = demo_param n p" "e_conf (demo_env n p) = demo_conf"
  "totalPhysicalBlocks (demo_param n p) = 4" "pagesInBlock (demo_param n p) = p"
  "ioUnitInPage (demo_param n p) = 2" "pageCountToMaxPerf (demo_param n p) = n" "c_randomTweak demo_conf"
  by (simp_all add: demo_env_def demo_param_def demo_conf_def)

lemma demo_new:
  assumes "0 < n" "n < 4" "0 < p"
  obtains s where "pm_new (demo_env n p) = Inr s" "pm_inv (demo_param n p) s" "pm_open (demo_param n p) s"
    "pm_table s = Map.empty" "0 < pm_nFreeBlocks s" "pm_bRandomTweak s"
  using pm_new_ok[of "demo_env n p"] demo_env_ok(3)[OF assms(1,3)] assms by auto

text \<open>One page written to a drive with one-page blocks: the block is full and can be collected.\<close>

lemma demo_collect_run:
  "fault_of (rbind (pm_new (demo_env 2 1)) (\<lambda>s.
     rbind (pm_writePages (demo_env 2 1) (demo_req 0 [0, 1]) True 0 s ()) (\<lambda>(t, s, w).
     rbind (rguard (case pm_blocks s 0 of None \<Rightarrow> False | Some b \<Rightarrow> blk_full b) (Panic [])) (\<lambda>_.
       pm_doGarbageCollection (demo_env 2 1) [0] t s w)))) = None"
  by code_simp

lemma demo_write_run:
  "fault_of (rbind (pm_new (demo_env 2 1)) (\<lambda>s.
     pm_writeInternal (demo_env 2 1) (demo_req 0 [0, 1]) True 0 s ())) = None"
  by code_simp

lemma demo_written:
  assumes "0 < n" "n < 4" "0 < p"
  obtains s t s' w' where "pm_new (demo_env n p) = Inr s"
    "pm_writePages (demo_env n p) (demo_req 0 [0, 1]) True 0 s () = Inr (t, s', w')"
    "pm_inv (demo_param n p) s'" "pm_open (demo_param n p) s'" "pm_wrote (demo_param n p) (demo_req 0 [0, 1]) s s'"
    "pm_bRandomTweak s" "pm_inv (demo_param n p) s"
proof -
  obtain s where s: "pm_new (demo_env n p) = Inr s" "pm_inv (demo_param n p) s" "pm_open (demo_param n p) s"
    "0 < pm_nFreeBlocks s" "pm_bRandomTweak s" by (rule demo_new[OF assms])
  have f: "bs_wf (f_ioFlag (demo_req 0 [0, 1]))" "bs_dataSize (f_ioFlag (demo_req 0 [0, 1])) = 2"
    using demo_req_ok[of 0 1] by auto
  show ?thesis
    using pm_writePages_ok[of "demo_env n p" s "demo_req 0 [0, 1]" True 0 "()"] s f demo_env_ok(2) that[OF s(1)] by fastforce
qed

end
