(* ===== verification/StreamText.thy ===== *)
theory StreamText
  imports Floats "HOL-Library.Signed_Division"
begin

text \<open>
  Formatted text as the synchronisation protocol uses it: extraction from a \<open>std::istream\<close> (\<open>>>\<close> into
  integers, doubles and strings) and insertion of decimal numbers into a \<open>std::ostream\<close>.  A stream is
  the text still unread, or \<open>None\<close> once \<open>failbit\<close> is set.  An extraction returns the value it stores,
  or \<open>None\<close> when it leaves the variable unmodified (the sentry fails); a failed conversion stores
  zero, an out-of-range one stores the limit, and both set \<open>failbit\<close>.  The lemmas show that a number
  that was printed is read back.
\<close>

type_synonym istream = "string option"

definition is_space :: "char \<Rightarrow> bool" where
  "is_space c \<longleftrightarrow> c = CHR '' '' \<or> c = CHR 0x09 \<or> c = CHR 0x0A \<or> c = CHR 0x0B \<or> c = CHR 0x0C \<or> c = CHR 0x0D"

definition is_digit :: "char \<Rightarrow> bool" where
  "is_digit c \<longleftrightarrow> (48::int) \<le> of_char c \<and> (of_char c :: int) \<le> 57"

definition digits_val :: "string \<Rightarrow> int" where
  "digits_val ds = fold (\<lambda>c v. v * 10 + (of_char c - 48)) ds 0"

section \<open>Extraction\<close>

definition split_sign :: "string \<Rightarrow> bool \<times> string" where
  "split_sign s = (case s of [] \<Rightarrow> (False, [])
     | c # r \<Rightarrow> if c = CHR ''-'' then (True, r) else if c = CHR ''+'' then (False, r) else (False, s))"

definition skip_space :: "string \<Rightarrow> string" where
  "skip_space s = dropWhile is_space s"

text \<open>\<open>ss >> n\<close> for a signed integer type with the limits \<open>lo\<close> and \<open>hi\<close>.\<close>

fun get_signed :: "int \<Rightarrow> int \<Rightarrow> istream \<Rightarrow> int option \<times> istream" where
  "get_signed lo hi None = (None, None)"
| "get_signed lo hi (Some s) =
     (if skip_space s = [] then (None, None)
      else case split_sign (skip_space s) of (neg, body) \<Rightarrow>
        let ds = takeWhile is_digit body; v = (if neg then - digits_val ds else digits_val ds) in
        if ds = [] then (Some 0, None)
        else if v < lo then (Some lo, None)
        else if hi < v then (Some hi, None)
        else (Some v, Some (dropWhile is_digit body)))"

definition LONG_MAX :: int where "LONG_MAX = 9223372036854775807"
definition INT_MAX :: int where "INT_MAX = 2147483647"
definition ULL_MAX :: int where "ULL_MAX = 18446744073709551615"

abbreviation get_long :: "istream \<Rightarrow> int option \<times> istream" where
  "get_long \<equiv> get_signed (- LONG_MAX - 1) LONG_MAX"

abbreviation get_int :: "istream \<Rightarrow> int option \<times> istream" where
  "get_int \<equiv> get_signed (- INT_MAX - 1) INT_MAX"

text \<open>\<open>ss >> n\<close> for \<open>unsigned long long\<close>: a minus sign negates modulo \<open>2\<^sup>6\<^sup>4\<close>.\<close>

fun get_ull :: "istream \<Rightarrow> int option \<times> istream" where
  "get_ull None = (None, None)"
| "get_ull (Some s) =
     (if skip_space s = [] then (None, None)
      else case split_sign (skip_space s) of (neg, body) \<Rightarrow>
        let ds = takeWhile is_digit body; v = digits_val ds in
        if ds = [] then (Some 0, None)
        else if ULL_MAX < v then (Some ULL_MAX, None)
        else (Some (if neg then (- v) mod (ULL_MAX + 1) else v), Some (dropWhile is_digit body)))"

definition pow10 :: "int \<Rightarrow> rat" where
  "pow10 e = (if 0 \<le> e then 10 ^ nat e else 1 / 10 ^ nat (- e))"

definition split_frac :: "string \<Rightarrow> string \<times> string" where
  "split_frac s = (case s of [] \<Rightarrow> ([], [])
     | c # r \<Rightarrow> if c = CHR ''.'' then (takeWhile is_digit r, dropWhile is_digit r) else ([], s))"

text \<open>The exponent part: absent (\<open>Some 0\<close>), present, or without digits (\<open>None\<close>: the conversion fails).\<close>

definition split_exp :: "string \<Rightarrow> int option \<times> string" where
  "split_exp s = (case s of [] \<Rightarrow> (Some 0, [])
     | c # r \<Rightarrow> if c = CHR ''e'' \<or> c = CHR ''E'' then
          (case split_sign r of (neg, body) \<Rightarrow>
             let ds = takeWhile is_digit body in
             (if ds = [] then None else Some (if neg then - digits_val ds else digits_val ds),
              dropWhile is_digit body))
        else (Some 0, s))"

text \<open>\<open>ss >> x\<close> for a double: the decimal numeral, rounded to 53 bits.\<close>

fun get_double :: "istream \<Rightarrow> fl option \<times> istream" where
  "get_double None = (None, None)"
| "get_double (Some s) =
     (if skip_space s = [] then (None, None)
      else case split_sign (skip_space s) of (neg, body) \<Rightarrow>
        let ip = takeWhile is_digit body in
        case split_frac (dropWhile is_digit body) of (fp, r2) \<Rightarrow>
        if ip = [] \<and> fp = [] then (Some (Fin 0), None)
        else case split_exp r2 of
          (None, r3) \<Rightarrow> (Some (Fin 0), None)
        | (Some e, r3) \<Rightarrow>
            let x = rnd 53 (of_int (digits_val (ip @ fp)) * pow10 (e - int (length fp)))
            in (Some (Fin (if neg then - x else x)), Some r3))"

text \<open>\<open>ss >> str\<close>: the next word; an empty string when none is left.\<close>

fun get_word :: "istream \<Rightarrow> string \<times> istream" where
  "get_word None = ([], None)"
| "get_word (Some s) =
     (if skip_space s = [] then ([], None)
      else (takeWhile (\<lambda>c. \<not> is_space c) (skip_space s),
            Some (dropWhile (\<lambda>c. \<not> is_space c) (skip_space s))))"

section \<open>Insertion\<close>

definition digit_char :: "int \<Rightarrow> char" where
  "digit_char d = char_of (48 + d)"

function put_digits :: "int \<Rightarrow> string" where
  "put_digits n = (if n < 10 then [digit_char n] else put_digits (n div 10) @ [digit_char (n mod 10)])"
  by auto
termination by (relation "measure nat") auto

declare put_digits.simps [simp del]

definition put_int :: "int \<Rightarrow> string" where
  "put_int n = (if n < 0 then CHR ''-'' # put_digits (- n) else put_digits n)"

section \<open>Numbers that were printed are read back\<close>

lemma of_char_digit: "0 \<le> d \<Longrightarrow> d < 10 \<Longrightarrow> (of_char (digit_char d) :: int) = 48 + d"
  by (simp add: digit_char_def)

lemma is_digit_char [simp]: "0 \<le> d \<Longrightarrow> d < 10 \<Longrightarrow> is_digit (digit_char d)"
  by (simp add: is_digit_def of_char_digit)

lemma digits_val_snoc: "digits_val (ds @ [c]) = digits_val ds * 10 + (of_char c - 48)"
  by (simp add: digits_val_def)

lemma put_digits_not_Nil [simp]: "put_digits n \<noteq> []"
  by (subst put_digits.simps) simp

lemma put_digits_ok: "0 \<le> n \<Longrightarrow> (\<forall>c \<in> set (put_digits n). is_digit c) \<and> digits_val (put_digits n) = n"
proof (induction n rule: put_digits.induct)
  case (1 n)
  show ?case
  proof (cases "n < 10")
    case True
    then show ?thesis using 1(2)
      by (simp add: put_digits.simps[of n] digits_val_def of_char_digit)
  next
    case False
    then have "0 \<le> n div 10" by simp
    with 1(1)[OF False] have "(\<forall>c \<in> set (put_digits (n div 10)). is_digit c) \<and> digits_val (put_digits (n div 10)) = n div 10"
      by simp
    then show ?thesis using False
      by (simp add: put_digits.simps[of n] digits_val_snoc of_char_digit)
  qed
qed

lemma is_digit_not_space: "is_digit c \<Longrightarrow> \<not> is_space c"
  by (auto simp: is_digit_def is_space_def)

lemma is_digit_not_sign: "is_digit c \<Longrightarrow> c \<noteq> CHR ''-'' \<and> c \<noteq> CHR ''+'' \<and> c \<noteq> CHR ''.''"
  by (auto simp: is_digit_def)

text \<open>Text that does not continue a number: the end, or a separator.\<close>

definition ends_number :: "string \<Rightarrow> bool" where
  "ends_number s \<longleftrightarrow> s = [] \<or> is_space (hd s)"

lemma ends_numberD: "ends_number s \<Longrightarrow> s = [] \<or> (\<exists>c r. s = c # r \<and> is_space c \<and> \<not> is_digit c)"
  by (cases s) (auto simp: ends_number_def dest: is_digit_not_space)

lemma ends_number_space [simp]: "ends_number (CHR '' '' # s)" "ends_number [CHR 0x0A]" "ends_number []"
  by (auto simp: ends_number_def is_space_def)

lemma take_put_digits:
  assumes "0 \<le> n" "ends_number r"
  shows "takeWhile is_digit (put_digits n @ r) = put_digits n" "dropWhile is_digit (put_digits n @ r) = r"
  using put_digits_ok[OF assms(1)] ends_numberD[OF assms(2)] by (auto simp: takeWhile_append dropWhile_append)

lemma split_put_digits: "0 \<le> n \<Longrightarrow> split_sign (put_digits n @ r) = (False, put_digits n @ r)"
  using put_digits_ok[of n] is_digit_not_sign
  by (cases "put_digits n") (auto simp: split_sign_def)

lemma skip_put_digits: "0 \<le> n \<Longrightarrow> skip_space (put_digits n @ r) = put_digits n @ r"
  using put_digits_ok[of n] is_digit_not_space
  by (cases "put_digits n") (auto simp: skip_space_def)

lemma skip_space_blank: "skip_space (CHR '' '' # s) = skip_space s"
  by (simp add: skip_space_def is_space_def)

lemma skip_put_int: "skip_space (put_int n @ r) = put_int n @ r"
  using skip_put_digits[of n r] by (auto simp: put_int_def skip_space_def is_space_def)

lemma split_put_int: "split_sign (put_int n @ r) = (n < 0, put_digits \<bar>n\<bar> @ r)"
  using split_put_digits[of n r] by (auto simp: put_int_def split_sign_def)

lemma put_int_not_Nil [simp]: "put_int n \<noteq> []"
  by (simp add: put_int_def)

lemma get_signed_put:
  assumes "lo \<le> n" "n \<le> hi" "ends_number r"
  shows "get_signed lo hi (Some (CHR '' '' # put_int n @ r)) = (Some n, Some r)"
  using assms take_put_digits[of "\<bar>n\<bar>" r] put_digits_ok[of "\<bar>n\<bar>"]
  by (auto simp: skip_space_blank skip_put_int split_put_int Let_def)

lemma get_ull_put:
  assumes "0 \<le> n" "n \<le> ULL_MAX" "ends_number r"
  shows "get_ull (Some (CHR '' '' # put_int n @ r)) = (Some n, Some r)"
  using assms take_put_digits[of n r] put_digits_ok[of n]
  by (auto simp: skip_space_blank skip_put_int split_put_int Let_def)

lemma get_double_put:
  assumes "0 \<le> n" "ends_number r"
  shows "get_double (Some (CHR '' '' # put_int n @ r)) = (Some (Fin (rnd 53 (of_int n))), Some r)"
proof -
  have frac: "split_frac r = ([], r)" and ex: "split_exp r = (Some 0, r)"
    using ends_numberD[OF assms(2)] by (auto simp: split_frac_def split_exp_def is_space_def)
  show ?thesis
    using assms take_put_digits[of n r] put_digits_ok[of n]
    by (simp add: skip_space_blank skip_put_int split_put_int Let_def frac ex pow10_def)
qed

lemma get_word_put:
  assumes "w \<noteq> []" "\<forall>c \<in> set w. \<not> is_space c" "ends_number r"
  shows "get_word (Some (CHR '' '' # w @ r)) = (w, Some r)"
proof -
  have skip: "skip_space (w @ r) = w @ r" using assms(1,2) by (cases w) (auto simp: skip_space_def)
  have "takeWhile (\<lambda>c. \<not> is_space c) (w @ r) = w" "dropWhile (\<lambda>c. \<not> is_space c) (w @ r) = r"
    using assms(2) ends_numberD[OF assms(3)] by (auto simp: takeWhile_append dropWhile_append)
  then show ?thesis using assms(1) by (simp add: skip_space_blank skip)
qed

lemma put_int_not_space: "c \<in> set (put_int n) \<Longrightarrow> \<not> is_space c"
  using put_digits_ok[of "\<bar>n\<bar>"] is_digit_not_space
  by (auto simp: put_int_def is_space_def split: if_splits)

text \<open>An extraction that succeeds consumes text.\<close>

lemma dropWhile_shorter: "length (dropWhile P s) \<le> length s"
  by (rule length_dropWhile_le)

lemma split_sign_shorter: "split_sign s = (neg, body) \<Longrightarrow> length body \<le> length s"
  by (auto simp: split_sign_def split: list.splits if_splits)

lemma split_frac_shorter: "split_frac t = (fp, r) \<Longrightarrow> length fp + length r \<le> length t"
proof (cases t)
  case (Cons c u)
  have "length (takeWhile is_digit u) + length (dropWhile is_digit u) = length u"
    by (metis takeWhile_dropWhile_id length_append)
  then show "split_frac t = (fp, r) \<Longrightarrow> ?thesis" using Cons by (auto simp: split_frac_def split: if_splits)
qed (simp add: split_frac_def)

lemma get_double_shorter: "get_double (Some s) = (v, Some s') \<Longrightarrow> length s' < length s"
proof -
  assume g: "get_double (Some s) = (v, Some s')"
  obtain neg body where sg: "split_sign (skip_space s) = (neg, body)" by force
  obtain fp r2 where fr: "split_frac (dropWhile is_digit body) = (fp, r2)" by force
  obtain e r3 where ex: "split_exp r2 = (e, r3)" by force
  have l1: "length body \<le> length s"
    using split_sign_shorter[OF sg] dropWhile_shorter[of is_space s] by (simp add: skip_space_def)
  have l3: "length r3 \<le> length r2"
  proof (cases r2)
    case (Cons c r)
    obtain ng bd where sp: "split_sign r = (ng, bd)" by force
    have "length (dropWhile is_digit bd) \<le> length r"
      using split_sign_shorter[OF sp] dropWhile_shorter[of is_digit bd] by simp
    then show ?thesis using ex Cons sp by (auto simp: split_exp_def Let_def split: if_splits)
  qed (use ex in \<open>simp add: split_exp_def\<close>)
  have s': "s' = r3" and ne: "takeWhile is_digit body \<noteq> [] \<or> fp \<noteq> []"
    using g sg fr ex by (auto simp: Let_def split: if_splits option.splits)
  have "length (takeWhile is_digit body) + length (dropWhile is_digit body) = length body"
    by (metis takeWhile_dropWhile_id length_append)
  then have "length r2 < length body"
    using ne split_frac_shorter[OF fr] by (auto simp: length_greater_0_conv[symmetric] simp del: length_greater_0_conv)
  then show ?thesis using l1 l3 s' by simp
qed

lemma get_signed_shorter: "get_signed lo hi st = (v, Some s') \<Longrightarrow> \<exists>s. st = Some s \<and> length s' < length s"
proof -
  assume g: "get_signed lo hi st = (v, Some s')"
  then obtain s where s: "st = Some s" by (cases st) auto
  obtain neg body where sg: "split_sign (skip_space s) = (neg, body)" by force
  have "length body \<le> length s"
    using split_sign_shorter[OF sg] dropWhile_shorter[of is_space s] by (simp add: skip_space_def)
  moreover have "takeWhile is_digit body \<noteq> []" "s' = dropWhile is_digit body"
    using g sg by (auto simp: s Let_def split: if_splits)
  moreover have "length body = length (takeWhile is_digit body) + length (dropWhile is_digit body)"
    by (metis takeWhile_dropWhile_id length_append)
  ultimately show ?thesis using s by (simp add: length_greater_0_conv[symmetric] del: length_greater_0_conv)
qed

end
