(* ===== verification/CmdText.thy ===== *)
theory CmdText
  imports StreamText
begin

text \<open>
  The synchronisation protocol between the simulators and the inter-chiplet bridge
  (\<open>global_define.h\<close>, \<open>sync_protocol.h\<close>): the command structure, the textual form of each command
  and its parser.  The lemmas show that a command that one side writes is the command the other
  side reads.
\<close>

section \<open>Types\<close>

text \<open>\<open>AddrType\<close> is \<open>std::vector<long>\<close>: \<open>DIM_X\<close> and \<open>DIM_Y\<close> index it.\<close>

type_synonym addr = "int list"

abbreviation DIM_X :: "addr \<Rightarrow> int" where "DIM_X a \<equiv> a ! 0"
abbreviation DIM_Y :: "addr \<Rightarrow> int" where "DIM_Y a \<equiv> a ! 1"

definition UNSPECIFIED_ADDR :: "addr \<Rightarrow> bool" where
  "UNSPECIFIED_ADDR a \<longleftrightarrow> DIM_X a < 0 \<and> DIM_Y a < 0"

datatype sync_type = SC_CYCLE | SC_SEND | SC_RECEIVE | SC_BARRIER | SC_LOCK | SC_UNLOCK
  | SC_LAUNCH | SC_WAITLAUNCH | SC_READ | SC_WRITE | SC_SYNC | SC_RESULT

definition SPD_LAUNCH :: int where "SPD_LAUNCH = 65536"
definition SPD_BARRIER :: int where "SPD_BARRIER = 131072"
definition SPD_LOCK :: int where "SPD_LOCK = 262144"
definition SPD_UNLOCK :: int where "SPD_UNLOCK = 524288"

record sync_cmd =
  c_type :: sync_type
  c_cycle :: fl
  c_clock_rate :: fl
  c_src :: addr
  c_dst :: addr
  c_nbytes :: int
  c_desc :: int
  c_res_list :: "string list"
  c_stdin_fd :: int

section \<open>Parsing\<close>

definition CMD_HEAD :: string where "CMD_HEAD = ''[INTERCMD]''"

definition cmd_type_of :: "string \<Rightarrow> sync_type" where
  "cmd_type_of w =
     (if w = ''CYCLE'' then SC_CYCLE else if w = ''SEND'' then SC_SEND
      else if w = ''RECEIVE'' then SC_RECEIVE else if w = ''BARRIER'' then SC_BARRIER
      else if w = ''LOCK'' then SC_LOCK else if w = ''UNLOCK'' then SC_UNLOCK
      else if w = ''LAUNCH'' then SC_LAUNCH else if w = ''WAITLAUNCH'' then SC_WAITLAUNCH
      else if w = ''READ'' then SC_READ else if w = ''WRITE'' then SC_WRITE
      else if w = ''SYNC'' then SC_SYNC else if w = ''RESULT'' then SC_RESULT else SC_CYCLE)"

text \<open>Using a variable that no extraction has stored to is undefined.\<close>

definition stored :: "'a option \<times> istream \<Rightarrow> ('a \<times> istream) res" where
  "stored g = (case g of (None, st) \<Rightarrow> Inl (Undefined ''uninitialised'') | (Some v, st) \<Rightarrow> Inr (v, st))"

definition strip_head :: "string \<Rightarrow> string res" where
  "strip_head m = (if take 10 m = CMD_HEAD then
                     if length m < 11 then Inl (Throws ''substr'') else Inr (drop 11 m)
                   else Inr m)"

primrec get_words :: "nat \<Rightarrow> istream \<Rightarrow> string list \<times> istream" where
  "get_words 0 st = ([], st)"
| "get_words (Suc n) st =
     (case get_word st of (w, st) \<Rightarrow> case get_words n st of (ws, st) \<Rightarrow> (w # ws, st))"

definition parse_cycle :: "sync_type \<Rightarrow> istream \<Rightarrow> (fl \<times> istream) res" where
  "parse_cycle t st = (if t \<in> {SC_CYCLE, SC_READ, SC_WRITE, SC_SYNC} then stored (get_double st)
                       else Inr (Fin 0, st))"

definition parse_addr :: "istream \<Rightarrow> (addr \<times> istream) res" where
  "parse_addr st = rbind (stored (get_long st)) (\<lambda>(x, st).
                   rbind (stored (get_long st)) (\<lambda>(y, st). Inr ([x, y], st)))"

definition parse_src :: "sync_type \<Rightarrow> istream \<Rightarrow> (addr \<times> istream) res" where
  "parse_src t st =
     (if t \<in> {SC_SEND, SC_RECEIVE, SC_BARRIER, SC_LOCK, SC_UNLOCK, SC_LAUNCH, SC_WAITLAUNCH, SC_READ, SC_WRITE}
      then parse_addr st else Inr ([-1, -1], st))"

definition parse_dst :: "sync_type \<Rightarrow> istream \<Rightarrow> (addr \<times> istream) res" where
  "parse_dst t st =
     (if t \<in> {SC_SEND, SC_RECEIVE, SC_LAUNCH, SC_WAITLAUNCH, SC_READ, SC_WRITE} then parse_addr st
      else if t \<in> {SC_BARRIER, SC_LOCK, SC_UNLOCK} then
        rbind (stored (get_long st)) (\<lambda>(x, st). Inr ([x, 0], st))
      else Inr ([-1, -1], st))"

definition parse_size :: "sync_type \<Rightarrow> istream \<Rightarrow> ((int \<times> int) \<times> istream) res" where
  "parse_size t st =
     (if t \<in> {SC_READ, SC_WRITE} then
        rbind (stored (get_int st)) (\<lambda>(n, st). rbind (stored (get_long st)) (\<lambda>(d, st). Inr ((n, d), st)))
      else if t = SC_BARRIER then rbind (stored (get_int st)) (\<lambda>(n, st). Inr ((n, 0), st))
      else Inr ((0, 0), st))"

definition parse_results :: "sync_type \<Rightarrow> istream \<Rightarrow> string list res" where
  "parse_results t st =
     (if t = SC_RESULT then
        rbind (stored (get_int st)) (\<lambda>(n, st). Inr (fst (get_words (nat n) st)))
      else Inr [])"

text \<open>\<open>m_clock_rate\<close> and \<open>m_stdin_fd\<close> are left to the caller, which sets both before any use.\<close>

definition parse_cmd :: "string \<Rightarrow> sync_cmd res" where
  "parse_cmd msg =
     rbind (strip_head msg) (\<lambda>m.
     case get_word (Some m) of (w, st) \<Rightarrow>
     let t = cmd_type_of w in
     rbind (parse_cycle t st) (\<lambda>(cyc, st).
     rbind (parse_src t st) (\<lambda>(src, st).
     rbind (parse_dst t st) (\<lambda>(dst, st).
     rbind (parse_size t st) (\<lambda>((n, d), st).
     rbind (parse_results t st) (\<lambda>rs.
     Inr \<lparr>c_type = t, c_cycle = cyc, c_clock_rate = Fin 0, c_src = src, c_dst = dst, c_nbytes = n,
          c_desc = d, c_res_list = rs, c_stdin_fd = 0\<rparr>))))))"

section \<open>Printing\<close>

definition endl :: string where "endl = [CHR 0x0A]"

text \<open>\<open>os << " " << a << " " << b ...\<close>\<close>

definition put_args :: "int list \<Rightarrow> string" where
  "put_args xs = concat (map (\<lambda>x. CHR '' '' # put_int x) xs)"

definition put_words :: "string list \<Rightarrow> string" where
  "put_words ws = concat (map (\<lambda>w. CHR '' '' # w) ws)"

definition send_cmd :: "string \<Rightarrow> int list \<Rightarrow> string" where
  "send_cmd name xs = CMD_HEAD @ '' '' @ name @ put_args xs @ endl"

definition sendCycleCmd :: "int \<Rightarrow> string" where
  "sendCycleCmd cyc = send_cmd ''CYCLE'' [cyc]"
definition sendSendCmd :: "int \<Rightarrow> int \<Rightarrow> int \<Rightarrow> int \<Rightarrow> string" where
  "sendSendCmd sx sy dx dy = send_cmd ''SEND'' [sx, sy, dx, dy]"
definition sendReceiveCmd :: "int \<Rightarrow> int \<Rightarrow> int \<Rightarrow> int \<Rightarrow> string" where
  "sendReceiveCmd sx sy dx dy = send_cmd ''RECEIVE'' [sx, sy, dx, dy]"
definition sendBarrierCmd :: "int \<Rightarrow> int \<Rightarrow> int \<Rightarrow> int \<Rightarrow> string" where
  "sendBarrierCmd sx sy uid count = send_cmd ''BARRIER'' [sx, sy, uid, count]"
definition sendLockCmd :: "int \<Rightarrow> int \<Rightarrow> int \<Rightarrow> string" where
  "sendLockCmd sx sy uid = send_cmd ''LOCK'' [sx, sy, uid]"
definition sendUnlockCmd :: "int \<Rightarrow> int \<Rightarrow> int \<Rightarrow> string" where
  "sendUnlockCmd sx sy uid = send_cmd ''UNLOCK'' [sx, sy, uid]"
definition sendLaunchCmd :: "int \<Rightarrow> int \<Rightarrow> int \<Rightarrow> int \<Rightarrow> string" where
  "sendLaunchCmd sx sy dx dy = send_cmd ''LAUNCH'' [sx, sy, dx, dy]"
definition sendWaitlaunchCmd :: "int \<Rightarrow> int \<Rightarrow> int \<Rightarrow> int \<Rightarrow> string" where
  "sendWaitlaunchCmd sx sy dx dy = send_cmd ''WAITLAUNCH'' [sx, sy, dx, dy]"
definition sendReadCmd :: "int \<Rightarrow> int \<Rightarrow> int \<Rightarrow> int \<Rightarrow> int \<Rightarrow> int \<Rightarrow> int \<Rightarrow> string" where
  "sendReadCmd cyc sx sy dx dy n d = send_cmd ''READ'' [cyc, sx, sy, dx, dy, n, d]"
definition sendWriteCmd :: "int \<Rightarrow> int \<Rightarrow> int \<Rightarrow> int \<Rightarrow> int \<Rightarrow> int \<Rightarrow> int \<Rightarrow> string" where
  "sendWriteCmd cyc sx sy dx dy n d = send_cmd ''WRITE'' [cyc, sx, sy, dx, dy, n, d]"

text \<open>The answers of the bridge, written to the descriptor of the waiting process.\<close>

definition sendSyncCmd :: "int \<Rightarrow> string" where
  "sendSyncCmd cyc = send_cmd ''SYNC'' [cyc]"
definition sendSyncCmd_desc :: "int \<Rightarrow> int \<Rightarrow> string" where
  "sendSyncCmd_desc cyc d = send_cmd ''SYNC'' [cyc, d]"
definition sendResultCmd :: string where
  "sendResultCmd = send_cmd ''RESULT'' [0]"
definition sendResultCmd_strings :: "string list \<Rightarrow> string" where
  "sendResultCmd_strings ws = CMD_HEAD @ '' RESULT '' @ put_int (int (length ws)) @ put_words ws @ endl"
definition sendResultCmd_longs :: "int list \<Rightarrow> string" where
  "sendResultCmd_longs xs = CMD_HEAD @ '' RESULT '' @ put_int (int (length xs)) @ put_args xs @ endl"

definition pipeName :: "addr \<Rightarrow> addr \<Rightarrow> string" where
  "pipeName s d = ''./buffer'' @ put_int (DIM_X s) @ ''_'' @ put_int (DIM_Y s) @ ''_''
                  @ put_int (DIM_X d) @ ''_'' @ put_int (DIM_Y d)"

section \<open>What is written is read\<close>

definition in_long :: "int \<Rightarrow> bool" where "in_long x \<longleftrightarrow> - LONG_MAX - 1 \<le> x \<and> x \<le> LONG_MAX"
definition in_int :: "int \<Rightarrow> bool" where "in_int x \<longleftrightarrow> - INT_MAX - 1 \<le> x \<and> x \<le> INT_MAX"
definition in_time :: "int \<Rightarrow> bool" where "in_time x \<longleftrightarrow> 0 \<le> x \<and> x \<le> ULL_MAX"

lemma in_int_long: "in_int x \<Longrightarrow> in_long x"
  by (simp add: in_int_def in_long_def INT_MAX_def LONG_MAX_def)

lemma put_args_simps [simp]:
  "put_args [] = []" "put_args (x # xs) = CHR '' '' # put_int x @ put_args xs"
  by (auto simp: put_args_def)

lemma put_words_simps [simp]:
  "put_words [] = []" "put_words (x # xs) = CHR '' '' # x @ put_words xs"
  by (auto simp: put_words_def)

lemma ends_number_endl [simp]: "ends_number endl"
  by (simp add: endl_def)

lemma ends_number_put_args [simp]: "ends_number r \<Longrightarrow> ends_number (put_args xs @ r)"
  by (cases xs) auto

lemma ends_number_put_words [simp]: "ends_number r \<Longrightarrow> ends_number (put_words xs @ r)"
  by (cases xs) auto

lemma get_long_put [simp]:
  "in_long n \<Longrightarrow> ends_number r \<Longrightarrow> stored (get_long (Some (CHR '' '' # put_int n @ r))) = Inr (n, Some r)"
  by (simp add: stored_def get_signed_put in_long_def del: get_signed.simps)

lemma get_int_put [simp]:
  "in_int n \<Longrightarrow> ends_number r \<Longrightarrow> stored (get_int (Some (CHR '' '' # put_int n @ r))) = Inr (n, Some r)"
  by (simp add: stored_def get_signed_put in_int_def del: get_signed.simps)

lemma get_time_put [simp]:
  "in_time n \<Longrightarrow> ends_number r \<Longrightarrow>
   stored (get_double (Some (CHR '' '' # put_int n @ r))) = Inr (Fin (rnd 53 (of_int n)), Some r)"
  by (simp add: stored_def get_double_put in_time_def del: get_double.simps)

lemma parse_addr_put [simp]:
  "in_long x \<Longrightarrow> in_long y \<Longrightarrow> ends_number r \<Longrightarrow>
   parse_addr (Some (CHR '' '' # put_int x @ CHR '' '' # put_int y @ r)) = Inr ([x, y], Some r)"
  by (simp add: parse_addr_def del: get_signed.simps)

lemma get_words_put:
  assumes "\<forall>w \<in> set ws. w \<noteq> [] \<and> (\<forall>c \<in> set w. \<not> is_space c)" "ends_number r"
  shows "get_words (length ws) (Some (put_words ws @ r)) = (ws, Some r)"
  using assms
proof (induction ws)
  case (Cons w ws)
  have "get_word (Some (CHR '' '' # w @ (put_words ws @ r))) = (w, Some (put_words ws @ r))"
    using Cons.prems by (intro get_word_put) auto
  then show ?case using Cons by (simp del: get_word.simps)
qed simp

lemma put_args_words: "put_args xs = put_words (map put_int xs)"
  by (induction xs) auto

text \<open>The head of a message: the marker, and the name of the command.\<close>

definition cmd_name :: "string \<Rightarrow> bool" where
  "cmd_name w \<longleftrightarrow> w \<noteq> [] \<and> (\<forall>c \<in> set w. \<not> is_space c)"

lemma cmd_name_consts [simp]:
  "cmd_name ''CYCLE''" "cmd_name ''SEND''" "cmd_name ''RECEIVE''" "cmd_name ''BARRIER''"
  "cmd_name ''LOCK''" "cmd_name ''UNLOCK''" "cmd_name ''LAUNCH''" "cmd_name ''WAITLAUNCH''"
  "cmd_name ''READ''" "cmd_name ''WRITE''" "cmd_name ''SYNC''" "cmd_name ''RESULT''"
  by (simp_all add: cmd_name_def is_space_def)

lemma strip_head_put: "strip_head (CMD_HEAD @ CHR '' '' # m) = Inr m"
  by (simp add: strip_head_def CMD_HEAD_def)

lemma get_name: "cmd_name w \<Longrightarrow> ends_number r \<Longrightarrow> get_word (Some (w @ r)) = (w, Some r)"
  unfolding cmd_name_def using get_word_put[of w r] unfolding get_word.simps skip_space_blank by blast

definition parse_body :: "sync_type \<Rightarrow> istream \<Rightarrow> sync_cmd res" where
  "parse_body t st =
     rbind (parse_cycle t st) (\<lambda>(cyc, st).
     rbind (parse_src t st) (\<lambda>(src, st).
     rbind (parse_dst t st) (\<lambda>(dst, st).
     rbind (parse_size t st) (\<lambda>((n, d), st).
     rbind (parse_results t st) (\<lambda>rs.
     Inr \<lparr>c_type = t, c_cycle = cyc, c_clock_rate = Fin 0, c_src = src, c_dst = dst, c_nbytes = n,
          c_desc = d, c_res_list = rs, c_stdin_fd = 0\<rparr>)))))"

lemma parse_cmd_named:
  "cmd_name w \<Longrightarrow> ends_number r \<Longrightarrow>
   parse_cmd (CMD_HEAD @ CHR '' '' # w @ r) = parse_body (cmd_type_of w) (Some r)"
  by (simp add: parse_cmd_def strip_head_put get_name parse_body_def Let_def del: get_word.simps)

lemmas parse_parts = parse_cycle_def parse_src_def parse_dst_def parse_size_def parse_results_def

lemma parse_send:
  assumes "cmd_name w"
  shows "parse_cmd (send_cmd w xs) = parse_body (cmd_type_of w) (Some (put_args xs @ endl))"
  using parse_cmd_named[OF assms, of "put_args xs @ endl"] by (simp add: send_cmd_def)

lemma parse_transfer:
  assumes "t \<in> {SC_READ, SC_WRITE}" "in_time cyc" "in_long sx" "in_long sy" "in_long dx" "in_long dy" "in_int n" "in_long d"
  shows "parse_body t (Some (put_args [cyc, sx, sy, dx, dy, n, d] @ endl)) =
     Inr \<lparr>c_type = t, c_cycle = Fin (rnd 53 (of_int cyc)), c_clock_rate = Fin 0, c_src = [sx, sy],
          c_dst = [dx, dy], c_nbytes = n, c_desc = d, c_res_list = [], c_stdin_fd = 0\<rparr>"
  using assms by (auto simp: parse_body_def parse_parts simp del: get_signed.simps get_double.simps)

lemma parse_pair:
  assumes "t \<in> {SC_SEND, SC_RECEIVE, SC_LAUNCH, SC_WAITLAUNCH}" "in_long sx" "in_long sy" "in_long dx" "in_long dy"
  shows "parse_body t (Some (put_args [sx, sy, dx, dy] @ endl)) =
     Inr \<lparr>c_type = t, c_cycle = Fin 0, c_clock_rate = Fin 0, c_src = [sx, sy],
          c_dst = [dx, dy], c_nbytes = 0, c_desc = 0, c_res_list = [], c_stdin_fd = 0\<rparr>"
  using assms by (auto simp: parse_body_def parse_parts simp del: get_signed.simps get_double.simps)

lemma parse_lock:
  assumes "t \<in> {SC_LOCK, SC_UNLOCK}" "in_long sx" "in_long sy" "in_long u"
  shows "parse_body t (Some (put_args [sx, sy, u] @ endl)) =
     Inr \<lparr>c_type = t, c_cycle = Fin 0, c_clock_rate = Fin 0, c_src = [sx, sy],
          c_dst = [u, 0], c_nbytes = 0, c_desc = 0, c_res_list = [], c_stdin_fd = 0\<rparr>"
  using assms by (auto simp: parse_body_def parse_parts simp del: get_signed.simps get_double.simps)

lemma parse_barrier:
  assumes "in_long sx" "in_long sy" "in_long u" "in_int n"
  shows "parse_body SC_BARRIER (Some (put_args [sx, sy, u, n] @ endl)) =
     Inr \<lparr>c_type = SC_BARRIER, c_cycle = Fin 0, c_clock_rate = Fin 0, c_src = [sx, sy],
          c_dst = [u, 0], c_nbytes = n, c_desc = 0, c_res_list = [], c_stdin_fd = 0\<rparr>"
  using assms by (auto simp: parse_body_def parse_parts simp del: get_signed.simps get_double.simps)

lemma parse_timed:
  assumes "t \<in> {SC_CYCLE, SC_SYNC}" "in_time cyc"
  shows "parse_body t (Some (put_args (cyc # xs) @ endl)) =
     Inr \<lparr>c_type = t, c_cycle = Fin (rnd 53 (of_int cyc)), c_clock_rate = Fin 0, c_src = [-1, -1],
          c_dst = [-1, -1], c_nbytes = 0, c_desc = 0, c_res_list = [], c_stdin_fd = 0\<rparr>"
  using assms by (auto simp: parse_body_def parse_parts simp del: get_signed.simps get_double.simps)

lemma parse_result:
  assumes "\<forall>w \<in> set ws. w \<noteq> [] \<and> (\<forall>c \<in> set w. \<not> is_space c)" "in_int (int (length ws))"
  shows "parse_body SC_RESULT (Some (put_args [int (length ws)] @ put_words ws @ endl)) =
     Inr \<lparr>c_type = SC_RESULT, c_cycle = Fin 0, c_clock_rate = Fin 0, c_src = [-1, -1],
          c_dst = [-1, -1], c_nbytes = 0, c_desc = 0, c_res_list = ws, c_stdin_fd = 0\<rparr>"
  using assms get_words_put[OF assms(1), of endl]
  by (simp add: parse_body_def parse_parts del: get_signed.simps)

lemma if_eq_elim: "(if b then x else y) = z \<Longrightarrow> (b \<Longrightarrow> x = z \<Longrightarrow> P) \<Longrightarrow> (\<not> b \<Longrightarrow> y = z \<Longrightarrow> P) \<Longrightarrow> P"
  by (cases b) auto

lemmas send_defs = sendCycleCmd_def sendSendCmd_def sendReceiveCmd_def sendBarrierCmd_def sendLockCmd_def
  sendUnlockCmd_def sendLaunchCmd_def sendWaitlaunchCmd_def sendReadCmd_def sendWriteCmd_def sendSyncCmd_def
  sendSyncCmd_desc_def

lemma parse_result_longs:
  assumes "in_int (int (length xs))"
  shows "parse_cmd (sendResultCmd_longs xs) = Inr \<lparr>c_type = SC_RESULT, c_cycle = Fin 0, c_clock_rate = Fin 0,
    c_src = [-1, -1], c_dst = [-1, -1], c_nbytes = 0, c_desc = 0, c_res_list = map put_int xs, c_stdin_fd = 0\<rparr>"
proof -
  have "parse_cmd (CMD_HEAD @ CHR '' '' # ''RESULT'' @ (put_args [int (length xs)] @ put_words (map put_int xs) @ endl)) =
      parse_body SC_RESULT (Some (put_args [int (length xs)] @ put_words (map put_int xs) @ endl))"
    by (subst parse_cmd_named) (simp_all add: cmd_type_of_def)
  then show ?thesis using parse_result[of "map put_int xs"] assms put_int_not_space
    by (simp add: sendResultCmd_longs_def put_args_words)
qed

text \<open>Every parsed command has two coordinates at either end.\<close>

lemma parse_addr_length: "parse_addr st = Inr (a, st') \<Longrightarrow> length a = 2"
  by (auto simp: parse_addr_def res_simps)

lemma parse_src_length: "parse_src t st = Inr (a, st') \<Longrightarrow> length a = 2"
  unfolding parse_src_def by (erule if_eq_elim) (auto dest: parse_addr_length)

lemma parse_dst_length: "parse_dst t st = Inr (a, st') \<Longrightarrow> length a = 2"
  unfolding parse_dst_def
  by (erule if_eq_elim, erule parse_addr_length, erule if_eq_elim) (auto simp: res_simps simp del: get_signed.simps)

lemma parse_cmd_addr:
  assumes "parse_cmd m = Inr c"
  shows "length (c_src c) = 2 \<and> length (c_dst c) = 2"
proof -
  obtain m' where "strip_head m = Inr m'" using assms by (cases "strip_head m") (auto simp: parse_cmd_def)
  moreover obtain w st where "get_word (Some m') = (w, st)" by force
  ultimately show ?thesis using assms
    by (auto simp: parse_cmd_def Let_def res_simps simp del: get_word.simps dest: parse_src_length parse_dst_length)
qed

end
