(* ===== verification/SimTime.thy ===== *)
theory SimTime
  imports CmdText
begin

text \<open>
  Time inside the inter-chiplet bridge.  \<open>InnerTimeType\<close> is \<open>double\<close> (53-bit \<open>fl\<close>), \<open>TimeType\<close> is
  \<open>unsigned long long\<close>.  A \<open>std::multimap\<close> keyed by time is its list of entries in iteration order:
  insertion goes behind the entries whose key is not greater.  The lemmas give the order facts the
  bridge relies on: adding a delay never moves a cycle backwards, and insertion keeps the order.
\<close>

definition fl_le :: "fl \<Rightarrow> fl \<Rightarrow> bool" where
  "fl_le x y \<longleftrightarrow> fl_less x y \<or> (x = y \<and> x \<noteq> NaN)"

definition fl_of_int :: "int \<Rightarrow> fl" where
  "fl_of_int n = Fin (rnd 53 (of_int n))"

abbreviation cyc_add :: "fl \<Rightarrow> fl \<Rightarrow> fl" where "cyc_add \<equiv> fl_add 53"
abbreviation cyc_sub :: "fl \<Rightarrow> fl \<Rightarrow> fl" where "cyc_sub \<equiv> fl_sub 53"

text \<open>\<open>static_cast<TimeType>(x)\<close>: truncation, undefined outside the range of the target.\<close>

fun to_time :: "fl \<Rightarrow> int res" where
  "to_time (Fin x) = (if - 1 < x \<and> x < of_int (ULL_MAX + 1) then Inr (if x < 0 then 0 else \<lfloor>x\<rfloor>)
                      else Inl (Undefined ''double to unsigned long long''))"
| "to_time _ = Inl (Undefined ''double to unsigned long long'')"

text \<open>Narrowing to \<open>int\<close>, and the conversion of an \<open>int\<close> to \<open>std::size_t\<close> in a comparison.\<close>

definition to_int32 :: "int \<Rightarrow> int" where "to_int32 x = signed_take_bit 31 x"
definition to_size :: "int \<Rightarrow> int" where "to_size x = x mod (ULL_MAX + 1)"

text \<open>\<open>xs[i]\<close> on a \<open>std::vector\<close>: unchecked.\<close>

definition vec_ix :: "'a list \<Rightarrow> nat \<Rightarrow> 'a res" where
  "vec_ix xs i = (if i < length xs then Inr (xs ! i) else Inl (Undefined ''vector index''))"

lemma vec_ix_Inr_iff [res_simps]: "vec_ix xs i = Inr x \<longleftrightarrow> i < length xs \<and> x = xs ! i"
  by (auto simp: vec_ix_def)

lemma vec_ix_ok: "i < length xs \<Longrightarrow> vec_ix xs i = Inr (xs ! i)"
  by (simp add: vec_ix_def)

section \<open>Multimaps keyed by time\<close>

definition mm_insert :: "fl \<Rightarrow> 'a \<Rightarrow> (fl \<times> 'a) list \<Rightarrow> (fl \<times> 'a) list" where
  "mm_insert k v m = takeWhile (\<lambda>e. \<not> fl_less k (fst e)) m @ (k, v) # dropWhile (\<lambda>e. \<not> fl_less k (fst e)) m"

definition mm_sorted :: "(fl \<times> 'a) list \<Rightarrow> bool" where
  "mm_sorted m \<longleftrightarrow> sorted_wrt (\<lambda>a b. fl_le (fst a) (fst b)) m"

lemma set_mm_insert: "set (mm_insert k v m) = insert (k, v) (set m)"
proof -
  let ?P = "\<lambda>e. \<not> fl_less k (fst e)"
  have "set m = set (takeWhile ?P m) \<union> set (dropWhile ?P m)"
    using takeWhile_dropWhile_id[of ?P m] by (metis set_append)
  then show ?thesis by (auto simp: mm_insert_def)
qed

lemma length_mm_insert [simp]: "length (mm_insert k v m) = Suc (length m)"
  by (simp add: mm_insert_def) (metis add_Suc_right length_append takeWhile_dropWhile_id)

lemma fl_le_trans: "fl_le x y \<Longrightarrow> fl_le y z \<Longrightarrow> fl_le x z"
  by (cases x; cases y; cases z) (auto simp: fl_le_def)

lemma fl_le_refl [simp]: "x \<noteq> NaN \<Longrightarrow> fl_le x x"
  by (simp add: fl_le_def)

lemma fl_not_less: "x \<noteq> NaN \<Longrightarrow> y \<noteq> NaN \<Longrightarrow> \<not> fl_less x y \<longleftrightarrow> fl_le y x"
  by (cases x; cases y) (auto simp: fl_le_def)

lemma fl_less_le: "fl_less x y \<Longrightarrow> fl_le x y"
  by (simp add: fl_le_def)

lemma mm_insert_sorted:
  assumes "mm_sorted m" "\<forall>e \<in> set m. fst e \<noteq> NaN" "k \<noteq> NaN"
  shows "mm_sorted (mm_insert k v m)"
  using assms
proof (induction m)
  case (Cons e m)
  have e: "fst e \<noteq> NaN" and m: "\<forall>e' \<in> set m. fl_le (fst e) (fst e')" "mm_sorted m"
    using Cons.prems by (auto simp: mm_sorted_def)
  show ?case
  proof (cases "fl_less k (fst e)")
    case True
    then have "fl_le k (fst e)" by (rule fl_less_le)
    then have "\<forall>e' \<in> set (e # m). fl_le k (fst e')" using m(1) fl_le_trans by auto
    then show ?thesis using True Cons.prems(1) by (simp add: mm_insert_def mm_sorted_def)
  next
    case False
    then have "fl_le (fst e) k" using fl_not_less Cons.prems(3) e by blast
    moreover have "mm_sorted (mm_insert k v m)" using Cons.IH m(2) Cons.prems by simp
    ultimately show ?thesis using False m(1)
      using set_mm_insert[of k v m] by (simp add: mm_insert_def mm_sorted_def)
  qed
qed (simp add: mm_insert_def mm_sorted_def)

lemma mm_insert_last:
  "\<forall>e \<in> set m. \<not> fl_less k (fst e) \<Longrightarrow> mm_insert k v m = m @ [(k, v)]"
  by (simp add: mm_insert_def)

section \<open>Cycles\<close>

lemma rnd_pos_idem:
  assumes "0 < x" "0 < p"
  shows "rnd_pos p (rnd_pos p x) = rnd_pos p x"
proof -
  let ?e = "flog2 x" let ?u = "pow2 (?e - (int p - 1))" let ?m = "rne (x / ?u)"
  have r: "rnd_pos p x = of_int ?m * ?u" by (simp add: rnd_pos_def Let_def)
  have lo: "pow2 ?e \<le> rnd_pos p x" and hi: "rnd_pos p x \<le> pow2 (?e + 1)"
    using rnd_pos_range[OF assms] by auto
  show ?thesis
  proof (cases "rnd_pos p x = pow2 (?e + 1)")
    case False
    then have "flog2 (rnd_pos p x) = ?e" using lo hi by (intro flog2_unique) auto
    then have "rnd_pos p (rnd_pos p x) = of_int (rne (rnd_pos p x / ?u)) * ?u" by (simp add: rnd_pos_def[of p "rnd_pos p x"] Let_def)
    moreover have "rnd_pos p x / ?u = of_int ?m" by (simp add: r)
    ultimately show ?thesis using r by simp
  next
    case True
    let ?w = "pow2 (?e + 1 - (int p - 1))"
    have fl: "flog2 (rnd_pos p x) = ?e + 1"
      unfolding True by (rule flog2_unique) (simp_all add: pow2_less_iff)
    have "pow2 (?e + 1) = pow2 (int (p - 1)) * ?w"
      using assms(2) by (simp add: pow2_add[symmetric] of_nat_diff add.commute)
    then have "rnd_pos p x = of_int (2 ^ (p - 1)) * ?w" unfolding True by (simp only: pow2_of_nat) simp
    then have "rnd_pos p x / ?w = of_int (2 ^ (p - 1))" by (simp only:) simp
    then have q: "rne (rnd_pos p x / ?w) = 2 ^ (p - 1)" by (simp only: rne_of_int)
    have "rnd_pos p (rnd_pos p x) = of_int (rne (rnd_pos p x / ?w)) * ?w"
      unfolding rnd_pos_def[of p "rnd_pos p x"] Let_def fl ..
    also have "\<dots> = of_int (2 ^ (p - 1)) * ?w" unfolding q ..
    also have "\<dots> = rnd_pos p x" by (rule \<open>rnd_pos p x = of_int (2 ^ (p - 1)) * ?w\<close>[symmetric])
    finally show ?thesis .
  qed
qed

lemma rnd_pos_gt: "0 < x \<Longrightarrow> 0 < p \<Longrightarrow> 0 < rnd_pos p x"
  using rnd_pos_range(1)[of x p] pow2_pos[of "flog2 x"] by linarith

lemma rnd_idem [simp]: "0 < p \<Longrightarrow> rnd p (rnd p x) = rnd p x"
  using rnd_pos_idem[of x p] rnd_pos_idem[of "- x" p] rnd_pos_gt[of x p] rnd_pos_gt[of "- x" p]
  by (auto simp: rnd_def)

lemma rnd_0 [simp]: "rnd p 0 = 0"
  by (simp add: rnd_def)

text \<open>A cycle count: a representable number that is not negative.\<close>

fun cycle_ok :: "fl \<Rightarrow> bool" where
  "cycle_ok (Fin x) \<longleftrightarrow> 0 \<le> x \<and> rnd 53 x = x"
| "cycle_ok _ \<longleftrightarrow> False"

lemma cycle_ok_not_NaN: "cycle_ok x \<Longrightarrow> x \<noteq> NaN"
  by (cases x) auto

lemma cycle_ok_add:
  assumes "cycle_ok x" "cycle_ok d"
  shows "cycle_ok (cyc_add x d) \<and> fl_le x (cyc_add x d) \<and> fl_le d (cyc_add x d)"
proof (cases x; cases d)
  fix a b assume "x = Fin a" "d = Fin b"
  then show ?thesis using assms rnd_mono[of a "a + b" 53] rnd_mono[of b "a + b" 53] rnd_mono[of 0 "a + b" 53]
    by (auto simp: fl_le_def)
qed (use assms in auto)

lemma cycle_ok_of_int: "0 \<le> n \<Longrightarrow> cycle_ok (fl_of_int n)"
  using rnd_mono[of 0 "of_int n" 53] by (simp add: fl_of_int_def)

lemma cycle_ok_add_int:
  "cycle_ok x \<Longrightarrow> 0 \<le> n \<Longrightarrow> cycle_ok (cyc_add x (fl_of_int n)) \<and> fl_le x (cyc_add x (fl_of_int n))"
  using cycle_ok_add[of x "fl_of_int n"] cycle_ok_of_int[of n] by simp

lemma cyc_add_mono:
  assumes "cycle_ok x" "cycle_ok y" "cycle_ok d" "fl_le x y"
  shows "fl_le (cyc_add x d) (cyc_add y d)"
proof (cases x; cases y; cases d)
  fix a b c assume "x = Fin a" "y = Fin b" "d = Fin c"
  then show ?thesis using assms rnd_mono[of "a + c" "b + c" 53] by (auto simp: fl_le_def)
qed (use assms in auto)

end
