(* ===== verification/NetDelay.thy ===== *)
theory NetDelay
  imports SimTime
begin

text \<open>
  The traffic record the bridge writes for the network simulator (\<open>net_bench.h\<close>) and the delay
  information it reads back (\<open>net_delay.h\<close>): per source address, and for launch, barrier, lock and
  unlock packets per destination address, a multimap of delay items ordered by cycle.  The lemmas
  give what a lookup, a pop and an insertion do, and the cycles at which a transaction ends.
\<close>

section \<open>Traffic record\<close>

record bench_item =
  bi_src_cycle :: fl
  bi_dst_cycle :: fl
  bi_src :: addr
  bi_dst :: addr
  bi_pac_size :: int
  bi_desc :: int

type_synonym bench_list = "(fl \<times> bench_item) list"

definition PAC_PAYLOAD_BYTE :: int where "PAC_PAYLOAD_BYTE = 8"

text \<open>Flits of a packet of \<open>n\<close> bytes at \<open>unit\<close> bytes per flit, the head flit included.\<close>

definition pac_size :: "int \<Rightarrow> int \<Rightarrow> int" where
  "pac_size n unit = n sdiv unit + (if n smod unit > 0 then 1 else 0) + 1"

text \<open>The flit count both constructors normalise; the product is a signed \<open>int\<close>.\<close>

definition package_size :: "int \<Rightarrow> int res" where
  "package_size flit_num =
     (let f = (if flit_num \<le> 0 then 1 else flit_num) in
      rbind (rguard (PAC_PAYLOAD_BYTE * f \<le> INT_MAX) (Undefined ''int overflow'')) (\<lambda>_.
      Inr (PAC_PAYLOAD_BYTE * f)))"

definition bench_item_pair :: "sync_cmd \<Rightarrow> sync_cmd \<Rightarrow> int \<Rightarrow> bench_item res" where
  "bench_item_pair s d flit_num =
     rbind (package_size flit_num) (\<lambda>ps.
     Inr \<lparr>bi_src_cycle = c_cycle s, bi_dst_cycle = c_cycle d, bi_src = c_src s, bi_dst = c_dst s,
          bi_pac_size = pac_size (c_nbytes s) ps, bi_desc = c_desc s OR c_desc d\<rparr>)"

definition bench_item_cmd :: "sync_cmd \<Rightarrow> int \<Rightarrow> bench_item res" where
  "bench_item_cmd s flit_num =
     rbind (package_size flit_num) (\<lambda>ps.
     Inr \<lparr>bi_src_cycle = c_cycle s, bi_dst_cycle = c_cycle s, bi_src = c_src s, bi_dst = c_dst s,
          bi_pac_size = pac_size (c_nbytes s) PAC_PAYLOAD_BYTE, bi_desc = c_desc s\<rparr>)"

definition bench_insert :: "bench_item \<Rightarrow> bench_list \<Rightarrow> bench_list" where
  "bench_insert it l = mm_insert (bi_src_cycle it) it l"

definition bench_node :: "addr \<Rightarrow> int \<Rightarrow> int" where
  "bench_node a width = DIM_X a + DIM_Y a * width"

definition bench_line :: "fl \<Rightarrow> int \<Rightarrow> bench_item \<Rightarrow> string res" where
  "bench_line clock width it =
     rbind (to_time (fl_mul 53 (bi_src_cycle it) clock)) (\<lambda>sc.
     rbind (to_time (fl_mul 53 (bi_dst_cycle it) clock)) (\<lambda>dc.
     Inr (put_int sc @ put_args [dc, bench_node (bi_src it) width, bench_node (bi_dst it) width,
            bi_pac_size it, bi_desc it] @ endl)))"

definition dumpBench :: "bench_list \<Rightarrow> fl \<Rightarrow> int \<Rightarrow> string res" where
  "dumpBench l clock width =
     rfold (\<lambda>e txt. rbind (bench_line clock width (snd e)) (\<lambda>s. Inr (txt @ s))) l []"

section \<open>Delay items and their maps\<close>

record delay_item =
  di_cycle :: fl
  di_src :: addr
  di_dst :: addr
  di_desc :: int
  di_delay_list :: "fl list"

type_synonym delay_order = "(fl \<times> delay_item) list"
type_synonym delay_map = "addr \<rightharpoonup> delay_order"

definition dm_order :: "delay_map \<Rightarrow> addr \<Rightarrow> delay_order" where
  "dm_order m a = (case m a of None \<Rightarrow> [] | Some l \<Rightarrow> l)"

definition dm_insert :: "addr \<Rightarrow> fl \<Rightarrow> delay_item \<Rightarrow> delay_map \<Rightarrow> delay_map" where
  "dm_insert a cyc it m = m(a \<mapsto> mm_insert cyc it (dm_order m a))"

definition dm_hasAddr :: "addr \<Rightarrow> delay_map \<Rightarrow> bool" where
  "dm_hasAddr a m = (case m a of None \<Rightarrow> False | Some l \<Rightarrow> l \<noteq> [])"

definition di_between :: "addr \<Rightarrow> addr \<Rightarrow> fl \<times> delay_item \<Rightarrow> bool" where
  "di_between s d e \<longleftrightarrow> di_src (snd e) = s \<and> di_dst (snd e) = d"

definition dm_hasPair :: "addr \<Rightarrow> addr \<Rightarrow> addr \<Rightarrow> delay_map \<Rightarrow> bool" where
  "dm_hasPair a s d m = (case m a of None \<Rightarrow> False | Some l \<Rightarrow> list_ex (di_between s d) l)"

text \<open>\<open>None\<close> stands for the default-constructed item the code returns when there is none.\<close>

definition dm_front :: "addr \<Rightarrow> delay_map \<Rightarrow> delay_item option" where
  "dm_front a m = (case m a of None \<Rightarrow> None | Some l \<Rightarrow>
     (case l of [] \<Rightarrow> None | e # _ \<Rightarrow> Some (snd e)))"

definition dm_frontPair :: "addr \<Rightarrow> addr \<Rightarrow> addr \<Rightarrow> delay_map \<Rightarrow> delay_item option" where
  "dm_frontPair a s d m = (case m a of None \<Rightarrow> None | Some l \<Rightarrow>
     map_option snd (find (di_between s d) l))"

definition dm_pop :: "addr \<Rightarrow> delay_map \<Rightarrow> delay_map" where
  "dm_pop a m = (case m a of None \<Rightarrow> m | Some l \<Rightarrow> if l = [] then m else m(a \<mapsto> tl l))"

fun remove_first :: "('a \<Rightarrow> bool) \<Rightarrow> 'a list \<Rightarrow> 'a list" where
  "remove_first P [] = []"
| "remove_first P (x # xs) = (if P x then xs else x # remove_first P xs)"

definition dm_popPair :: "addr \<Rightarrow> addr \<Rightarrow> addr \<Rightarrow> delay_map \<Rightarrow> delay_map" where
  "dm_popPair a s d m = (case m a of None \<Rightarrow> m | Some l \<Rightarrow> m(a \<mapsto> remove_first (di_between s d) l))"

definition dm_checkOrder :: "sync_cmd \<Rightarrow> delay_map \<Rightarrow> bool" where
  "dm_checkOrder c m = (case dm_front (c_src c) m of None \<Rightarrow> True
     | Some it \<Rightarrow> di_src it = c_src c \<and> di_dst it = c_dst c \<and> di_desc it = c_desc c)"

section \<open>Delay information\<close>

record delay_struct =
  ds_item_count :: int
  ds_src :: delay_map
  ds_launch :: delay_map
  ds_barrier :: delay_map
  ds_lock :: delay_map
  ds_unlock :: delay_map

definition ds_new :: delay_struct where
  "ds_new = \<lparr>ds_item_count = 0, ds_src = Map.empty, ds_launch = Map.empty, ds_barrier = Map.empty,
             ds_lock = Map.empty, ds_unlock = Map.empty\<rparr>"

record item_1d =
  od_cycle :: fl
  od_src :: int
  od_dst :: int
  od_desc :: int
  od_delay_list :: "fl list"

primrec read_delays :: "nat \<Rightarrow> istream \<Rightarrow> fl list \<times> istream" where
  "read_delays 0 st = ([], st)"
| "read_delays (Suc n) st =
     (case get_ull st of (v, st) \<Rightarrow> case read_delays n st of (vs, st) \<Rightarrow>
      (case v of None \<Rightarrow> (vs, st) | Some d \<Rightarrow> (fl_of_int d # vs, st)))"

text \<open>\<open>bench_if >> item_onDim\<close>: an item, when the stream has not failed afterwards.\<close>

definition read_item :: "istream \<Rightarrow> item_1d option \<times> istream" where
  "read_item st =
     (case get_double st of (cyc, st) \<Rightarrow>
      case get_long st of (src, st) \<Rightarrow>
      case get_long st of (dst, st) \<Rightarrow>
      case get_long st of (desc, st) \<Rightarrow>
      case get_int st of (cnt, st) \<Rightarrow>
      case read_delays (nat (case cnt of None \<Rightarrow> 0 | Some n \<Rightarrow> n)) st of (ds, st) \<Rightarrow>
      (case (cyc, src, dst, desc, st) of
         (Some cyc, Some src, Some dst, Some desc, Some _) \<Rightarrow>
           Some \<lparr>od_cycle = cyc, od_src = src, od_dst = dst, od_desc = desc, od_delay_list = ds\<rparr>
       | _ \<Rightarrow> None, st))"

text \<open>The address of a node number: \<open>int x = node % width\<close>, \<open>int y = node / width\<close>.\<close>

definition node_addr :: "int \<Rightarrow> int \<Rightarrow> addr res" where
  "node_addr node width =
     rbind (rguard (width \<noteq> 0) (Undefined ''division by zero'')) (\<lambda>_.
     Inr [to_int32 (node smod width), to_int32 (node sdiv width)])"

definition ds_place :: "delay_item \<Rightarrow> delay_struct \<Rightarrow> delay_struct res" where
  "ds_place it ds =
     (let ds = ds\<lparr>ds_item_count := ds_item_count ds + 1,
                 ds_src := dm_insert (di_src it) (di_cycle it) it (ds_src ds)\<rparr>; d = di_desc it in
      if d AND 983040 = 0 then Inr ds
      else rbind (vec_ix (di_delay_list it) 1) (\<lambda>t.
        let e = cyc_add (di_cycle it) t in
        Inr (if d AND SPD_BARRIER \<noteq> 0 then ds\<lparr>ds_barrier := dm_insert (di_dst it) e it (ds_barrier ds)\<rparr>
             else if d AND SPD_LAUNCH \<noteq> 0 then ds\<lparr>ds_launch := dm_insert (di_dst it) e it (ds_launch ds)\<rparr>
             else if d AND SPD_LOCK \<noteq> 0 then ds\<lparr>ds_lock := dm_insert (di_dst it) e it (ds_lock ds)\<rparr>
             else if d AND SPD_UNLOCK \<noteq> 0 then ds\<lparr>ds_unlock := dm_insert (di_dst it) e it (ds_unlock ds)\<rparr>
             else ds)))"

definition ds_convert :: "item_1d \<Rightarrow> fl \<Rightarrow> int \<Rightarrow> delay_item res" where
  "ds_convert o1 clock width =
     rbind (node_addr (od_src o1) width) (\<lambda>src.
     rbind (node_addr (od_dst o1) width) (\<lambda>dst.
     Inr \<lparr>di_cycle = fl_div 53 (od_cycle o1) clock, di_src = src, di_dst = dst, di_desc = od_desc o1,
          di_delay_list = map (\<lambda>t. fl_div 53 t clock) (od_delay_list o1)\<rparr>))"

lemma get_ull_sticky: "get_ull st = (v, Some s') \<Longrightarrow> \<exists>s. st = Some s \<and> length s' \<le> length s"
proof -
  assume g: "get_ull st = (v, Some s')"
  then obtain s where s: "st = Some s" by (cases st) auto
  obtain neg body where sg: "split_sign (skip_space s) = (neg, body)" by force
  have "length body \<le> length s"
    using split_sign_shorter[OF sg] dropWhile_shorter[of is_space s] by (simp add: skip_space_def)
  moreover have "s' = dropWhile is_digit body" using g sg by (auto simp: s Let_def split: if_splits)
  ultimately show ?thesis using s dropWhile_shorter[of is_digit body] by auto
qed

lemma read_delays_sticky: "read_delays n st = (v, Some s') \<Longrightarrow> \<exists>s. st = Some s \<and> length s' \<le> length s"
proof (induction n arbitrary: st v)
  case (Suc n)
  obtain v1 st1 where g: "get_ull st = (v1, st1)" by force
  obtain v2 st2 where r: "read_delays n st1 = (v2, st2)" by force
  have "st2 = Some s'" using Suc.prems g r by (auto split: option.splits)
  then obtain s1 where "st1 = Some s1" "length s' \<le> length s1" using Suc.IH r by blast
  then show ?case using get_ull_sticky[of st v1 s1] g by fastforce
qed simp

lemma read_item_shorter: "read_item st = (it, Some s') \<Longrightarrow> \<exists>s. st = Some s \<and> length s' < length s"
proof -
  assume g: "read_item st = (it, Some s')"
  obtain v1 s1 where 1: "get_double st = (v1, s1)" by force
  obtain v2 s2 where 2: "get_long s1 = (v2, s2)" by force
  obtain v3 s3 where 3: "get_long s2 = (v3, s3)" by force
  obtain v4 s4 where 4: "get_long s3 = (v4, s4)" by force
  obtain v5 s5 where 5: "get_int s4 = (v5, s5)" by force
  obtain v6 s6 where 6: "read_delays (nat (case v5 of None \<Rightarrow> 0 | Some n \<Rightarrow> n)) s5 = (v6, s6)" by force
  have "s6 = Some s'" using g by (simp add: read_item_def 1 2 3 4 5 6 del: get_double.simps get_signed.simps)
  then obtain t5 where t5: "s5 = Some t5" "length s' \<le> length t5" using read_delays_sticky 6 by blast
  obtain t4 where t4: "s4 = Some t4" "length t5 < length t4" using get_signed_shorter[OF 5[unfolded t5(1)]] by blast
  obtain t3 where t3: "s3 = Some t3" "length t4 < length t3" using get_signed_shorter[OF 4[unfolded t4(1)]] by blast
  obtain t2 where t2: "s2 = Some t2" "length t3 < length t2" using get_signed_shorter[OF 3[unfolded t3(1)]] by blast
  obtain t1 where t1: "s1 = Some t1" "length t2 < length t1" using get_signed_shorter[OF 2[unfolded t2(1)]] by blast
  obtain s where s: "st = Some s" using 1 t1(1) by (cases st) auto
  then have "length t1 < length s" using get_double_shorter 1 t1(1) by simp
  then show ?thesis using s t1 t2 t3 t4 t5 by auto
qed

text \<open>The loop of \<open>loadDelayInfo\<close>: it ends at the first item that cannot be read.\<close>

function load_items :: "istream \<Rightarrow> fl \<Rightarrow> int \<Rightarrow> delay_struct \<Rightarrow> delay_struct res" where
  "load_items st clock width ds =
     (case read_item st of
        (Some o1, Some s) \<Rightarrow> rbind (ds_convert o1 clock width) (\<lambda>it. rbind (ds_place it ds) (load_items (Some s) clock width))
      | _ \<Rightarrow> Inr ds)"
  by pat_completeness auto
termination
  by (relation "measure (\<lambda>(st, _). case st of None \<Rightarrow> 0 | Some s \<Rightarrow> length s)")
    (auto dest!: read_item_shorter[OF sym])

declare load_items.simps [simp del]

definition loadDelayInfo :: "istream \<Rightarrow> fl \<Rightarrow> int \<Rightarrow> delay_struct \<Rightarrow> delay_struct res" where
  "loadDelayInfo file clock width ds = load_items file clock width (ds\<lparr>ds_item_count := 0\<rparr>)"

definition clearDelayInfo :: "delay_struct \<Rightarrow> delay_struct" where
  "clearDelayInfo ds = ds\<lparr>ds_src := Map.empty, ds_launch := Map.empty, ds_barrier := Map.empty,
                          ds_lock := Map.empty, ds_unlock := Map.empty\<rparr>"

definition ds_checkOrder :: "sync_cmd \<Rightarrow> delay_struct \<Rightarrow> bool" where
  "ds_checkOrder c ds = dm_checkOrder c (ds_src ds)"

definition hasLaunch :: "addr \<Rightarrow> delay_struct \<Rightarrow> bool" where
  "hasLaunch a ds = dm_hasAddr a (ds_launch ds)"
definition frontLaunchSrc :: "addr \<Rightarrow> delay_struct \<Rightarrow> addr" where
  "frontLaunchSrc a ds = (case dm_front a (ds_launch ds) of None \<Rightarrow> [] | Some it \<Rightarrow> di_src it)"
definition popLaunch :: "addr \<Rightarrow> delay_struct \<Rightarrow> delay_struct" where
  "popLaunch a ds = ds\<lparr>ds_launch := dm_pop a (ds_launch ds)\<rparr>"
definition hasLock :: "addr \<Rightarrow> delay_struct \<Rightarrow> bool" where
  "hasLock a ds = dm_hasAddr a (ds_lock ds)"
definition frontLockSrc :: "addr \<Rightarrow> delay_struct \<Rightarrow> addr" where
  "frontLockSrc a ds = (case dm_front a (ds_lock ds) of None \<Rightarrow> [] | Some it \<Rightarrow> di_src it)"
definition popLock :: "addr \<Rightarrow> delay_struct \<Rightarrow> delay_struct" where
  "popLock a ds = ds\<lparr>ds_lock := dm_pop a (ds_lock ds)\<rparr>"

section \<open>End cycles\<close>

definition defaultEndCycle :: "sync_cmd \<Rightarrow> fl" where
  "defaultEndCycle w = cyc_add (c_cycle w) (fl_of_int (pac_size (c_nbytes w) PAC_PAYLOAD_BYTE))"

definition defaultEndCycle_pair :: "sync_cmd \<Rightarrow> sync_cmd \<Rightarrow> fl \<times> fl" where
  "defaultEndCycle_pair w r =
     (let n = fl_of_int (pac_size (c_nbytes w) PAC_PAYLOAD_BYTE) in
      if fl_le (c_cycle r) (c_cycle w) then (cyc_add (c_cycle w) n, cyc_add (c_cycle w) n)
      else (cyc_add (c_cycle r) n, cyc_add (c_cycle r) n))"

definition sync_flags :: int where
  "sync_flags = (SPD_LAUNCH OR SPD_BARRIER OR SPD_LOCK OR SPD_UNLOCK)"

definition item_end_cycle :: "delay_item \<Rightarrow> sync_cmd \<Rightarrow> sync_cmd \<Rightarrow> (fl \<times> fl) res" where
  "item_end_cycle it w r =
     rbind (vec_ix (di_delay_list it) 0) (\<lambda>src.
     rbind (vec_ix (di_delay_list it) 1) (\<lambda>dst.
     let we = cyc_add (c_cycle w) src; re = cyc_add (c_cycle w) dst;
         re = (if fl_less re (c_cycle r) then c_cycle r else re) in
     if c_desc w AND sync_flags \<noteq> 0 then
       rbind (vec_ix (di_delay_list it) 2) (\<lambda>ack_src.
       rbind (vec_ix (di_delay_list it) 3) (\<lambda>ack_dst.
       let re = cyc_add re ack_src in
       Inr (cyc_add (cyc_sub re ack_src) ack_dst, re)))
     else Inr (we, re)))"

text \<open>The item the code copies; a default-constructed one has no members to read.\<close>

definition front_item :: "addr \<Rightarrow> addr \<Rightarrow> delay_struct \<Rightarrow> delay_item res" where
  "front_item src dst ds = (case dm_frontPair src src dst (ds_src ds) of
     None \<Rightarrow> Inl (Undefined ''empty delay item'') | Some it \<Rightarrow> Inr it)"

definition getEndCycle :: "sync_cmd \<Rightarrow> sync_cmd \<Rightarrow> delay_struct \<Rightarrow> ((fl \<times> fl) \<times> delay_struct) res" where
  "getEndCycle w r ds =
     (if \<not> dm_hasPair (c_src w) (c_src w) (c_dst w) (ds_src ds) then Inr (defaultEndCycle_pair w r, ds)
      else rbind (front_item (c_src w) (c_dst w) ds) (\<lambda>it.
           rbind (item_end_cycle it w r) (\<lambda>p.
           Inr (p, ds\<lparr>ds_src := dm_popPair (c_src w) (c_src w) (c_dst w) (ds_src ds)\<rparr>))))"

definition barrier_item_cycle :: "delay_struct \<Rightarrow> sync_cmd \<Rightarrow> fl res" where
  "barrier_item_cycle ds c =
     (if \<not> dm_hasPair (c_src c) (c_src c) (c_dst c) (ds_src ds) then Inr (defaultEndCycle c)
      else rbind (front_item (c_src c) (c_dst c) ds) (\<lambda>it.
           rbind (vec_ix (di_delay_list it) 1) (\<lambda>t. Inr (cyc_add (di_cycle it) t))))"

definition getBarrierCycle :: "sync_cmd list \<Rightarrow> delay_struct \<Rightarrow> fl res" where
  "getBarrierCycle items ds =
     rfold (\<lambda>c b. rbind (barrier_item_cycle ds c) (\<lambda>t. Inr (if fl_less b t then t else b))) items (Fin 0)"

section \<open>Lookups\<close>

lemma dm_hasAddr_front: "dm_hasAddr a m \<longleftrightarrow> dm_front a m \<noteq> None"
  by (auto simp: dm_hasAddr_def dm_front_def split: option.splits list.splits)

lemma find_eq_None: "find P l = None \<longleftrightarrow> \<not> list_ex P l"
  by (induction l) auto

lemma find_SomeD: "find P l = Some x \<Longrightarrow> P x \<and> x \<in> set l"
  by (induction l) (auto split: if_splits)

lemma dm_hasPair_front: "dm_hasPair a s d m \<longleftrightarrow> dm_frontPair a s d m \<noteq> None"
  by (cases "m a") (simp_all add: dm_hasPair_def dm_frontPair_def find_eq_None)

lemma dm_frontPair_SomeD:
  "dm_frontPair a s d m = Some it \<Longrightarrow> \<exists>l k. m a = Some l \<and> (k, it) \<in> set l \<and> di_src it = s \<and> di_dst it = d"
  by (auto simp: dm_frontPair_def di_between_def dest!: find_SomeD split: option.splits)

lemma mset_remove_first: "x \<in> set (remove_first P l) \<Longrightarrow> x \<in> set l"
  by (induction l) (auto split: if_splits)

lemma length_remove_first: "list_ex P l \<Longrightarrow> length l = Suc (length (remove_first P l))"
  by (induction l) auto

lemma sorted_remove_first: "sorted_wrt R l \<Longrightarrow> sorted_wrt R (remove_first P l)"
  by (induction l) (auto dest: mset_remove_first)

lemma front_item_ok: "dm_hasPair s s d (ds_src ds) \<Longrightarrow> \<exists>it. front_item s d ds = Inr it \<and> dm_frontPair s s d (ds_src ds) = Some it"
  by (auto simp: dm_hasPair_front front_item_def)

section \<open>Invariant of the delay maps\<close>

definition map_inv :: "(addr \<Rightarrow> fl \<times> delay_item \<Rightarrow> bool) \<Rightarrow> delay_map \<Rightarrow> bool" where
  "map_inv P m \<longleftrightarrow> (\<forall>a l. m a = Some l \<longrightarrow> mm_sorted l \<and> (\<forall>e \<in> set l. fst e \<noteq> NaN \<and> P a e))"

definition delays_ok :: "delay_item \<Rightarrow> bool" where
  "delays_ok it \<longleftrightarrow> (\<forall>t \<in> set (di_delay_list it). cycle_ok t)"

text \<open>Every order is sorted; an item is filed under its own source, or destination, and its cycle.\<close>

definition src_filed :: "addr \<Rightarrow> fl \<times> delay_item \<Rightarrow> bool" where
  "src_filed a e \<longleftrightarrow> di_src (snd e) = a \<and> fst e = di_cycle (snd e) \<and> delays_ok (snd e)"

definition dst_filed :: "addr \<Rightarrow> fl \<times> delay_item \<Rightarrow> bool" where
  "dst_filed a e \<longleftrightarrow> di_dst (snd e) = a \<and> delays_ok (snd e)"

definition ds_inv :: "delay_struct \<Rightarrow> bool" where
  "ds_inv ds \<longleftrightarrow> map_inv src_filed (ds_src ds) \<and> map_inv dst_filed (ds_launch ds) \<and>
     map_inv dst_filed (ds_barrier ds) \<and> map_inv dst_filed (ds_lock ds) \<and> map_inv dst_filed (ds_unlock ds)"

lemma map_inv_empty [simp]: "map_inv P Map.empty"
  by (simp add: map_inv_def)

lemma map_inv_insert:
  assumes "map_inv P m" "k \<noteq> NaN" "P a (k, it)"
  shows "map_inv P (dm_insert a k it m)"
proof -
  have "mm_sorted (dm_order m a) \<and> (\<forall>e \<in> set (dm_order m a). fst e \<noteq> NaN \<and> P a e)"
    using assms(1) by (cases "m a") (auto simp: map_inv_def dm_order_def mm_sorted_def)
  then show ?thesis using assms
    by (auto simp: map_inv_def dm_insert_def set_mm_insert intro: mm_insert_sorted)
qed

lemma map_inv_pop: "map_inv P m \<Longrightarrow> map_inv P (dm_pop a m)"
proof -
  assume inv: "map_inv P m"
  show ?thesis
  proof (cases "m a")
    case (Some l)
    show ?thesis
    proof (cases l)
      case (Cons e r)
      then have "mm_sorted (e # r) \<and> (\<forall>e \<in> set (e # r). fst e \<noteq> NaN \<and> P a e)"
        using inv Some unfolding map_inv_def by blast
      then have "mm_sorted r \<and> (\<forall>e \<in> set r. fst e \<noteq> NaN \<and> P a e)" by (simp add: mm_sorted_def)
      then show ?thesis using inv Some Cons by (auto simp: map_inv_def dm_pop_def)
    qed (use inv Some in \<open>simp add: dm_pop_def\<close>)
  qed (use inv in \<open>simp add: dm_pop_def\<close>)
qed

lemma map_inv_popPair: "map_inv P m \<Longrightarrow> map_inv P (dm_popPair a s d m)"
  by (auto simp: map_inv_def dm_popPair_def mm_sorted_def sorted_remove_first dest: mset_remove_first split: option.splits)

lemma ds_inv_new [simp]: "ds_inv ds_new"
  by (simp add: ds_inv_def ds_new_def)

lemma ds_inv_clear: "ds_inv (clearDelayInfo ds)"
  by (simp add: ds_inv_def clearDelayInfo_def)

lemma ds_inv_count [simp]: "ds_inv (ds\<lparr>ds_item_count := n\<rparr>) = ds_inv ds"
  by (simp add: ds_inv_def)

lemma ds_inv_popLaunch: "ds_inv ds \<Longrightarrow> ds_inv (popLaunch a ds)"
  by (simp add: ds_inv_def popLaunch_def map_inv_pop)

lemma ds_inv_popLock: "ds_inv ds \<Longrightarrow> ds_inv (popLock a ds)"
  by (simp add: ds_inv_def popLock_def map_inv_pop)

lemma getEndCycle_inv: "getEndCycle w r ds = Inr (p, ds') \<Longrightarrow> ds_inv ds \<Longrightarrow> ds_inv ds'"
  by (auto simp: getEndCycle_def ds_inv_def map_inv_popPair res_simps split: if_splits)

subsection \<open>Loading\<close>

lemma digits_val_nonneg: "\<forall>c \<in> set ds. is_digit c \<Longrightarrow> 0 \<le> digits_val ds"
  by (induction ds rule: rev_induct) (auto simp: digits_val_def is_digit_def)

lemma takeWhile_digits [simp]: "0 \<le> digits_val (takeWhile is_digit s)"
  by (rule digits_val_nonneg) (auto dest: set_takeWhileD)

lemma get_ull_nonneg: "get_ull st = (Some v, st') \<Longrightarrow> 0 \<le> v"
  by (cases st) (auto simp: Let_def ULL_MAX_def split: if_splits prod.splits)

lemma read_delays_ok: "read_delays n st = (vs, st') \<Longrightarrow> \<forall>t \<in> set vs. cycle_ok t"
proof (induction n arbitrary: st vs)
  case (Suc n)
  obtain v1 st1 where g: "get_ull st = (v1, st1)" by force
  obtain v2 st2 where r: "read_delays n st1 = (v2, st2)" by force
  have "\<forall>t \<in> set v2. cycle_ok t" using Suc.IH r Suc.prems g by (auto split: option.splits)
  then show ?case using Suc.prems g r get_ull_nonneg[of st _ st1]
    by (auto simp: cycle_ok_of_int split: option.splits)
qed simp

lemma get_double_Fin: "get_double st = (Some v, st') \<Longrightarrow> \<exists>x. v = Fin x"
  by (cases st) (auto simp: Let_def split: if_splits prod.splits option.splits)

lemma read_item_ok:
  assumes "read_item st = (Some o1, st')"
  shows "(\<exists>x. od_cycle o1 = Fin x) \<and> (\<forall>t \<in> set (od_delay_list o1). cycle_ok t)"
proof -
  obtain v1 s1 where 1: "get_double st = (v1, s1)" by force
  obtain v2 s2 where 2: "get_long s1 = (v2, s2)" by force
  obtain v3 s3 where 3: "get_long s2 = (v3, s3)" by force
  obtain v4 s4 where 4: "get_long s3 = (v4, s4)" by force
  obtain v5 s5 where 5: "get_int s4 = (v5, s5)" by force
  obtain v6 s6 where 6: "read_delays (nat (case v5 of None \<Rightarrow> 0 | Some n \<Rightarrow> n)) s5 = (v6, s6)" by force
  have "(case (v1, v2, v3, v4, s6) of
      (Some cyc, Some src, Some dst, Some desc, Some _) \<Rightarrow>
        Some \<lparr>od_cycle = cyc, od_src = src, od_dst = dst, od_desc = desc, od_delay_list = v6\<rparr>
    | _ \<Rightarrow> None) = Some o1"
    using assms unfolding read_item_def 1 2 3 4 5 6 prod.case Pair_inject by blast
  then have "v1 = Some (od_cycle o1) \<and> od_delay_list o1 = v6"
    by (cases v1; cases v2; cases v3; cases v4; cases s6) auto
  then show ?thesis using get_double_Fin[of st] 1 read_delays_ok[OF 6] by simp
qed

lemma cycle_ok_div: "cycle_ok t \<Longrightarrow> 0 < c \<Longrightarrow> cycle_ok (fl_div 53 t (Fin c))"
proof (cases t)
  case (Fin x)
  then show "cycle_ok t \<Longrightarrow> 0 < c \<Longrightarrow> ?thesis" using rnd_mono[of 0 "x / c" 53] by simp
qed auto

lemma ds_convert_ok:
  assumes "ds_convert o1 (Fin c) width = Inr it" "0 < c" "od_cycle o1 = Fin x" "\<forall>t \<in> set (od_delay_list o1). cycle_ok t"
  shows "(\<exists>x. di_cycle it = Fin x) \<and> delays_ok it"
proof -
  have "\<forall>t \<in> set (od_delay_list o1). cycle_ok (fl_div 53 t (Fin c))"
    using assms(2,4) cycle_ok_div by blast
  then show ?thesis using assms(1,2,3) by (auto simp: ds_convert_def delays_ok_def res_simps)
qed

lemma cycle_ok_Fin: "cycle_ok t \<Longrightarrow> \<exists>x. t = Fin x"
  by (cases t) auto

lemma ds_place_inv:
  assumes "ds_place it ds = Inr ds'" "ds_inv ds" "di_cycle it = Fin x" "delays_ok it"
  shows "ds_inv ds'"
proof -
  let ?s = "dm_insert (di_src it) (di_cycle it) it (ds_src ds)"
  have src: "map_inv src_filed ?s"
    using assms by (intro map_inv_insert) (auto simp: ds_inv_def src_filed_def)
  have dst: "map_inv dst_filed (dm_insert (di_dst it) (cyc_add (di_cycle it) t) it m)"
    if "map_inv dst_filed m" "t \<in> set (di_delay_list it)" for t m
    using that assms(3,4) by (intro map_inv_insert) (auto simp: dst_filed_def delays_ok_def dest!: cycle_ok_Fin)
  show ?thesis
  proof (cases "di_desc it AND 983040 = 0")
    case True
    then show ?thesis using assms(1,2) src by (auto simp: ds_place_def ds_inv_def Let_def)
  next
    case False
    then have t: "1 < length (di_delay_list it)" using assms(1) by (auto simp: ds_place_def Let_def res_simps)
    then have m: "di_delay_list it ! 1 \<in> set (di_delay_list it)" by simp
    note maps = assms(2)[unfolded ds_inv_def]
    have places: "map_inv dst_filed (dm_insert (di_dst it) (cyc_add (di_cycle it) (di_delay_list it ! 1)) it (f ds))"
      if "map_inv dst_filed (f ds)" for f using that m by (rule dst)
    have "ds_place it ds = Inr ds' \<Longrightarrow> ?thesis"
      using src maps places[of ds_barrier] places[of ds_launch] places[of ds_lock] places[of ds_unlock] False t
      unfolding ds_place_def Let_def vec_ix_def by (simp add: ds_inv_def split: if_splits) auto
    then show ?thesis using assms(1) .
  qed
qed

lemma load_items_inv:
  assumes "load_items st clock width ds = Inr ds'" "clock = Fin c" "0 < c" "ds_inv ds"
  shows "ds_inv ds'"
  using assms
proof (induction st clock width ds rule: load_items.induct)
  case (1 st clock width ds)
  obtain o1 st' where ri: "read_item st = (o1, st')" by force
  show ?case
  proof (cases "o1 = None \<or> st' = None")
    case True
    then have "load_items st clock width ds = Inr ds"
      by (subst load_items.simps) (auto simp: ri split: option.splits)
    then show ?thesis using 1(2,5) by simp
  next
    case False
    then obtain oi s where os: "o1 = Some oi" "st' = Some s" by auto
    obtain it ds1 where st: "ds_convert oi (Fin c) width = Inr it" "ds_place it ds = Inr ds1"
      "load_items (Some s) clock width ds1 = Inr ds'"
      using 1(2) unfolding load_items.simps[of st] ri os 1(3) by (auto simp: res_simps)
    obtain x where "od_cycle oi = Fin x" "\<forall>t \<in> set (od_delay_list oi). cycle_ok t"
      using read_item_ok ri os(1) by blast
    then obtain y where "di_cycle it = Fin y" "delays_ok it" using ds_convert_ok[OF st(1) 1(4)] by blast
    then have inv: "ds_inv ds1" using ds_place_inv[OF st(2) 1(5)] by blast
    show ?thesis
      by (rule 1(1)[OF ri[symmetric] os st(1)[folded 1(3)] st(2) st(3) 1(3,4) inv])
  qed
qed

lemma loadDelayInfo_inv:
  "loadDelayInfo file (Fin c) width ds = Inr ds' \<Longrightarrow> 0 < c \<Longrightarrow> ds_inv ds \<Longrightarrow> ds_inv ds'"
  unfolding loadDelayInfo_def by (rule load_items_inv[of _ _ _ "ds\<lparr>ds_item_count := 0\<rparr>"]) auto

section \<open>Sizes and node numbers\<close>

lemma sdiv_nonneg: "0 \<le> (a::int) \<Longrightarrow> 0 < b \<Longrightarrow> a sdiv b = a div b"
  by (cases "a = 0") (auto simp: signed_divide_int_def sgn_if)

lemma smod_nonneg: "0 \<le> (a::int) \<Longrightarrow> 0 < b \<Longrightarrow> a smod b = a mod b"
  by (cases "a = 0") (auto simp: signed_modulo_int_def sgn_if)

lemma pac_size_eq: "0 \<le> n \<Longrightarrow> 0 < u \<Longrightarrow> pac_size n u = (n + u - 1) div u + 1"
proof -
  assume n: "0 \<le> n" and u: "0 < u"
  have "(n + u - 1) div u = n div u + (if n mod u > 0 then 1 else 0)"
  proof (cases "n mod u = 0")
    case True
    then obtain k where "n = u * k" by auto
    then have "(n + u - 1) div u = k + (u - 1) div u" using u
      by (metis add.commute add_diff_eq div_mult_self4 less_irrefl)
    then show ?thesis using u True \<open>n = u * k\<close> by simp
  next
    case False
    then have pos: "0 < n mod u" using u pos_mod_sign[of u n] by linarith
    have "n + u - 1 = (n mod u - 1) + (n div u + 1) * u"
      by (simp add: algebra_simps)
    then have "(n + u - 1) div u = ((n mod u - 1) + (n div u + 1) * u) div u" by (rule arg_cong)
    also have "\<dots> = (n div u + 1) + (n mod u - 1) div u" using u by (intro div_mult_self1) simp
    finally have "(n + u - 1) div u = (n div u + 1) + (n mod u - 1) div u" .
    moreover have "(n mod u - 1) div u = 0"
      by (rule div_pos_pos_trivial) (use pos pos_mod_bound[OF u, of n] in linarith)+
    ultimately show ?thesis using pos by simp
  qed
  then show ?thesis using n u by (simp add: pac_size_def sdiv_nonneg smod_nonneg)
qed

lemma pac_size_pos: "0 \<le> n \<Longrightarrow> 0 < u \<Longrightarrow> 1 \<le> pac_size n u"
  by (simp add: pac_size_def sdiv_nonneg smod_nonneg pos_imp_zdiv_nonneg_iff)

lemma to_int32_id: "- INT_MAX - 1 \<le> x \<Longrightarrow> x \<le> INT_MAX \<Longrightarrow> to_int32 x = x"
  unfolding to_int32_def by (rule signed_take_bit_int_eq_self) (simp_all add: INT_MAX_def)

lemma node_addr_bench_node:
  assumes "0 \<le> x" "x < w" "0 \<le> y" "x + y * w \<le> INT_MAX"
  shows "node_addr (bench_node [x, y] w) w = Inr [x, y]"
proof -
  have w: "0 < w" using assms by linarith
  have yw: "0 \<le> y * w" using assms w by simp
  have "y \<le> y * w" using assms(3) w by (simp add: mult_le_cancel_left1)
  then have b: "x \<le> INT_MAX" "y \<le> INT_MAX" using assms yw by linarith+
  have d: "(x + y * w) smod w = x" "(x + y * w) sdiv w = y"
    using assms w yw by (simp_all add: sdiv_nonneg smod_nonneg)
  have "to_int32 x = x" "to_int32 y = y"
    using b assms by (simp_all add: to_int32_id INT_MAX_def)
  then show ?thesis using w d by (simp add: node_addr_def bench_node_def)
qed

section \<open>Bounds of the end cycles\<close>

lemma default_end_bounds:
  assumes "cycle_ok (c_cycle w)" "cycle_ok (c_cycle r)" "0 \<le> c_nbytes w"
  shows "case defaultEndCycle_pair w r of (we, re) \<Rightarrow> we = re \<and> cycle_ok we \<and>
           fl_le (c_cycle w) we \<and> fl_le (c_cycle r) we"
proof -
  let ?n = "pac_size (c_nbytes w) PAC_PAYLOAD_BYTE"
  have n: "0 \<le> ?n" using pac_size_pos[OF assms(3), of PAC_PAYLOAD_BYTE] by (simp add: PAC_PAYLOAD_BYTE_def)
  have le: "fl_le (c_cycle w) (c_cycle r)" if "\<not> fl_le (c_cycle r) (c_cycle w)"
    using that assms(1,2) fl_not_less fl_less_le by (metis cycle_ok_not_NaN)
  show ?thesis
    using cycle_ok_add_int[OF assms(1) n] cycle_ok_add_int[OF assms(2) n] le fl_le_trans
    by (auto simp: defaultEndCycle_pair_def Let_def)
qed

lemma item_end_bounds:
  assumes "item_end_cycle it w r = Inr (we, re)" "cycle_ok (c_cycle w)" "cycle_ok (c_cycle r)" "delays_ok it"
  shows "cycle_ok re \<and> fl_le (c_cycle w) re \<and> fl_le (c_cycle r) re \<and>
         (c_desc w AND sync_flags = 0 \<longrightarrow> cycle_ok we \<and> fl_le (c_cycle w) we)"
proof -
  let ?l = "di_delay_list it"
  let ?re = "cyc_add (c_cycle w) (?l ! 1)" let ?m = "if fl_less ?re (c_cycle r) then c_cycle r else ?re"
  have len: "1 < length ?l" "0 < length ?l" using assms(1) by (auto simp: item_end_cycle_def res_simps Let_def)
  have d: "cycle_ok t" if "t \<in> set ?l" for t using that assms(4) by (simp add: delays_ok_def)
  have f: "cycle_ok (cyc_add (c_cycle w) (?l ! i)) \<and> fl_le (c_cycle w) (cyc_add (c_cycle w) (?l ! i))"
    if "i < length ?l" for i using cycle_ok_add[OF assms(2) d] that by simp
  have m: "cycle_ok ?m \<and> fl_le (c_cycle w) ?m \<and> fl_le (c_cycle r) ?m"
    using f[OF len(1)] assms(3) fl_less_le fl_not_less fl_le_trans cycle_ok_not_NaN
    by (smt (verit, best) fl_le_refl)
  show ?thesis
  proof (cases "c_desc w AND sync_flags = 0")
    case True
    then show ?thesis using assms(1) m f[OF len(2)] by (simp add: item_end_cycle_def len[THEN vec_ix_ok] Let_def del: One_nat_def)
  next
    case False
    then have l3: "2 < length ?l" and re: "re = cyc_add ?m (?l ! 2)"
      using assms(1) by (auto simp: item_end_cycle_def res_simps Let_def)
    show ?thesis using cycle_ok_add[OF m[THEN conjunct1] d[OF nth_mem[OF l3]]] m fl_le_trans False
      unfolding re by blast
  qed
qed

lemma front_item_delays: "ds_inv ds \<Longrightarrow> front_item s d ds = Inr it \<Longrightarrow> delays_ok it"
  by (auto simp: front_item_def ds_inv_def map_inv_def src_filed_def dest!: dm_frontPair_SomeD split: option.splits)
    fastforce

lemma getEndCycle_bounds:
  assumes "getEndCycle w r ds = Inr ((we, re), ds')" "ds_inv ds"
    and "cycle_ok (c_cycle w)" "cycle_ok (c_cycle r)" "0 \<le> c_nbytes w"
  shows "cycle_ok re \<and> fl_le (c_cycle w) re \<and> fl_le (c_cycle r) re \<and>
         (c_desc w AND sync_flags = 0 \<longrightarrow> cycle_ok we \<and> fl_le (c_cycle w) we) \<and> ds_inv ds'"
proof -
  have inv: "ds_inv ds'" using getEndCycle_inv assms(1,2) by blast
  show ?thesis
  proof (cases "dm_hasPair (c_src w) (c_src w) (c_dst w) (ds_src ds)")
    case False
    then have "defaultEndCycle_pair w r = (we, re)" using assms(1) by (simp add: getEndCycle_def)
    then have "we = re \<and> cycle_ok we \<and> fl_le (c_cycle w) we \<and> fl_le (c_cycle r) we"
      using default_end_bounds[OF assms(3-5)] by auto
    then show ?thesis using inv by blast
  next
    case True
    then obtain it where it: "front_item (c_src w) (c_dst w) ds = Inr it" "item_end_cycle it w r = Inr (we, re)"
      using assms(1) by (auto simp: getEndCycle_def res_simps)
    show ?thesis using item_end_bounds[OF it(2) assms(3,4) front_item_delays[OF assms(2) it(1)]] inv by blast
  qed
qed

text \<open>The item a transaction takes leaves the map: the next one between the same nodes gets the next item.\<close>

lemma getEndCycle_consumes:
  assumes "getEndCycle w r ds = Inr (p, ds')" "dm_hasPair (c_src w) (c_src w) (c_dst w) (ds_src ds)"
  shows "length (dm_order (ds_src ds) (c_src w)) = Suc (length (dm_order (ds_src ds') (c_src w)))"
proof -
  obtain l where l: "ds_src ds (c_src w) = Some l" "list_ex (di_between (c_src w) (c_dst w)) l"
    using assms(2) by (auto simp: dm_hasPair_def split: option.splits)
  have "ds_src ds' = dm_popPair (c_src w) (c_src w) (c_dst w) (ds_src ds)"
    using assms by (auto simp: getEndCycle_def res_simps)
  then show ?thesis using l length_remove_first[OF l(2)] by (simp add: dm_popPair_def dm_order_def)
qed

lemma barrier_item_ok:
  assumes "barrier_item_cycle ds c = Inr t" "ds_inv ds" "cycle_ok (c_cycle c)" "0 \<le> c_nbytes c"
  shows "t \<noteq> NaN"
proof (cases "dm_hasPair (c_src c) (c_src c) (c_dst c) (ds_src ds)")
  case False
  then have "t = defaultEndCycle c" using assms(1) by (simp add: barrier_item_cycle_def)
  moreover have "0 \<le> pac_size (c_nbytes c) PAC_PAYLOAD_BYTE"
    using pac_size_pos[OF assms(4), of PAC_PAYLOAD_BYTE] by (simp add: PAC_PAYLOAD_BYTE_def)
  ultimately show ?thesis
    using cycle_ok_add_int[OF assms(3)] cycle_ok_not_NaN by (simp add: defaultEndCycle_def)
next
  case True
  then obtain it where it: "front_item (c_src c) (c_dst c) ds = Inr it" "1 < length (di_delay_list it)"
    "t = cyc_add (di_cycle it) (di_delay_list it ! 1)"
    using assms(1) by (auto simp: barrier_item_cycle_def res_simps)
  have ok: "cycle_ok (di_delay_list it ! 1)"
    using front_item_delays[OF assms(2) it(1)] it(2) nth_mem by (fastforce simp: delays_ok_def)
  obtain l k where "ds_src ds (c_src c) = Some l" "(k, it) \<in> set l"
    using it(1) by (auto simp: front_item_def dest!: dm_frontPair_SomeD split: option.splits)
  then have "fst (k, it) \<noteq> NaN \<and> src_filed (c_src c) (k, it)" using assms(2) unfolding ds_inv_def map_inv_def by blast
  then have "di_cycle it \<noteq> NaN" by (auto simp: src_filed_def)
  moreover obtain x where "di_delay_list it ! 1 = Fin x" using cycle_ok_Fin[OF ok] by blast
  ultimately show ?thesis using it(3) by (cases "di_cycle it") (simp_all del: One_nat_def)
qed

text \<open>A barrier is released no earlier than the arrival of any of its packets.\<close>

lemma getBarrierCycle_max:
  assumes "getBarrierCycle items ds = Inr b" "ds_inv ds"
    and "\<forall>c \<in> set items. cycle_ok (c_cycle c) \<and> 0 \<le> c_nbytes c"
  shows "fl_le (Fin 0) b \<and> (\<forall>c \<in> set items. \<exists>t. barrier_item_cycle ds c = Inr t \<and> fl_le t b)"
proof -
  let ?f = "\<lambda>c b. rbind (barrier_item_cycle ds c) (\<lambda>t. Inr (if fl_less b t then t else b))"
  have "rfold ?f xs b0 = Inr b \<Longrightarrow> b0 \<noteq> NaN \<Longrightarrow> set xs \<subseteq> set items \<Longrightarrow>
      fl_le b0 b \<and> (\<forall>c \<in> set xs. \<exists>t. barrier_item_cycle ds c = Inr t \<and> fl_le t b)" for xs b0
  proof (induction xs arbitrary: b0)
    case (Cons c xs)
    obtain t where t: "barrier_item_cycle ds c = Inr t" and
      run: "rfold ?f xs (if fl_less b0 t then t else b0) = Inr b" using Cons.prems(1) by (auto simp: res_simps)
    have nn: "t \<noteq> NaN" using barrier_item_ok[OF t assms(2)] assms(3) Cons.prems(3) by simp
    let ?b = "if fl_less b0 t then t else b0"
    have "fl_le b0 ?b" "fl_le t ?b" "?b \<noteq> NaN"
      using fl_not_less[OF Cons.prems(2) nn] fl_less_le nn Cons.prems(2) by auto
    moreover have "fl_le ?b b \<and> (\<forall>c \<in> set xs. \<exists>t. barrier_item_cycle ds c = Inr t \<and> fl_le t b)"
      using Cons.IH[OF run \<open>?b \<noteq> NaN\<close>] Cons.prems(3) by simp
    ultimately have "fl_le b0 b" "fl_le t b" "\<forall>c \<in> set xs. \<exists>t. barrier_item_cycle ds c = Inr t \<and> fl_le t b"
      using fl_le_trans by blast+
    then show ?case using t by simp
  qed simp
  from this[of items "Fin 0"] assms(1) show ?thesis by (simp add: getBarrierCycle_def)
qed

end
