(* ===== verification/CmdStructs.thy ===== *)
theory CmdStructs
  imports NetDelay
begin

text \<open>
  The structures the bridge keeps between commands (\<open>cmd_handler.h\<close>): the global clock, barriers,
  locks, and the pending commands of the two pairing protocols (READ with WRITE, LAUNCH with
  WAITLAUNCH).  A \<open>std::map\<close> to a list of commands is a partial map; looking a command up with
  \<open>operator[]\<close> creates an empty list, as in the code.  A default-constructed command, returned when
  there is nothing to pop, is \<open>None\<close>.  The locale \<open>pending_store\<close> states what a store of pending
  commands promises and \<open>rendezvous\<close> what two of them give together.
\<close>

section \<open>Clock and barriers\<close>

definition clock_update :: "fl \<Rightarrow> fl \<Rightarrow> fl" where
  "clock_update m c = (if fl_less m c then c else m)"

record barrier_struct =
  bar_count :: "int \<rightharpoonup> int"
  bar_items :: "int \<rightharpoonup> sync_cmd list"

definition bar_new :: barrier_struct where
  "bar_new = \<lparr>bar_count = Map.empty, bar_items = Map.empty\<rparr>"

definition barrierCmd :: "int \<Rightarrow> barrier_struct \<Rightarrow> sync_cmd list" where
  "barrierCmd u b = (case bar_items b u of None \<Rightarrow> [] | Some l \<Rightarrow> l)"

definition bar_declare :: "int \<Rightarrow> int \<Rightarrow> barrier_struct \<Rightarrow> barrier_struct" where
  "bar_declare u n b =
     (if bar_count b u \<noteq> None then (if n > 0 then b\<lparr>bar_count := (bar_count b)(u \<mapsto> n)\<rparr> else b)
      else b\<lparr>bar_count := (bar_count b)(u \<mapsto> n), bar_items := (bar_items b)(u \<mapsto> [])\<rparr>)"

definition insertBarrier :: "int \<Rightarrow> int \<Rightarrow> sync_cmd \<Rightarrow> barrier_struct \<Rightarrow> barrier_struct" where
  "insertBarrier u n c b =
     (let b = bar_declare u n b in b\<lparr>bar_items := (bar_items b)(u \<mapsto> barrierCmd u b @ [c])\<rparr>)"

text \<open>The comparison is between \<open>std::size_t\<close> and \<open>int\<close>: a negative count is converted.\<close>

definition bar_overflow :: "int \<Rightarrow> barrier_struct \<Rightarrow> bool" where
  "bar_overflow u b = (case bar_count b u of None \<Rightarrow> True
     | Some n \<Rightarrow> to_size n \<le> int (length (barrierCmd u b)))"

definition bar_reset :: "int \<Rightarrow> barrier_struct \<Rightarrow> barrier_struct" where
  "bar_reset u b = (if bar_count b u \<noteq> None then b\<lparr>bar_items := (bar_items b)(u \<mapsto> [])\<rparr> else b)"

section \<open>Locks\<close>

record lock_struct =
  lk_set :: "int set"
  lk_last :: "int \<rightharpoonup> sync_cmd"
  lk_cmds :: "int \<rightharpoonup> sync_cmd list"

definition lk_new :: lock_struct where
  "lk_new = \<lparr>lk_set = {}, lk_last = Map.empty, lk_cmds = Map.empty\<rparr>"

definition isLocked :: "int \<Rightarrow> lock_struct \<Rightarrow> bool" where
  "isLocked u k \<longleftrightarrow> u \<in> lk_set k"

definition lk_lock :: "int \<Rightarrow> sync_cmd \<Rightarrow> lock_struct \<Rightarrow> lock_struct" where
  "lk_lock u c k = (if \<not> isLocked u k then k\<lparr>lk_set := insert u (lk_set k), lk_last := (lk_last k)(u \<mapsto> c)\<rparr> else k)"

definition lk_unlock :: "int \<Rightarrow> sync_cmd \<Rightarrow> lock_struct \<Rightarrow> lock_struct" where
  "lk_unlock u c k = (if isLocked u k then k\<lparr>lk_set := lk_set k - {u}, lk_last := (lk_last k)(u \<mapsto> c)\<rparr> else k)"

definition hasLastCmd :: "int \<Rightarrow> lock_struct \<Rightarrow> bool" where
  "hasLastCmd u k \<longleftrightarrow> lk_last k u \<noteq> None"

definition getLastCmd :: "int \<Rightarrow> lock_struct \<Rightarrow> sync_cmd option" where
  "getLastCmd u k = lk_last k u"

definition lk_pending :: "int \<Rightarrow> lock_struct \<Rightarrow> sync_cmd list" where
  "lk_pending u k = (case lk_cmds k u of None \<Rightarrow> [] | Some l \<Rightarrow> l)"

definition insertLockCmd :: "int \<Rightarrow> sync_cmd \<Rightarrow> lock_struct \<Rightarrow> lock_struct" where
  "insertLockCmd u c k = k\<lparr>lk_cmds := (lk_cmds k)(u \<mapsto> lk_pending u k @ [c])\<rparr>"

definition hasLockCmd :: "int \<Rightarrow> lock_struct \<Rightarrow> bool" where
  "hasLockCmd u k \<longleftrightarrow> lk_pending u k \<noteq> []"

definition hasLockCmd_src :: "int \<Rightarrow> addr \<Rightarrow> lock_struct \<Rightarrow> bool" where
  "hasLockCmd_src u s k \<longleftrightarrow> list_ex (\<lambda>c. c_src c = s) (lk_pending u k)"

definition popLockCmd :: "int \<Rightarrow> lock_struct \<Rightarrow> sync_cmd option \<times> lock_struct" where
  "popLockCmd u k = (case lk_pending u k of [] \<Rightarrow> (None, k)
     | c # cs \<Rightarrow> (Some c, k\<lparr>lk_cmds := (lk_cmds k)(u \<mapsto> cs)\<rparr>))"

definition popLockCmd_src :: "int \<Rightarrow> addr \<Rightarrow> lock_struct \<Rightarrow> sync_cmd option \<times> lock_struct" where
  "popLockCmd_src u s k = (case find (\<lambda>c. c_src c = s) (lk_pending u k) of None \<Rightarrow> (None, k)
     | Some c \<Rightarrow> (Some c, k\<lparr>lk_cmds := (lk_cmds k)(u \<mapsto> remove_first (\<lambda>c. c_src c = s) (lk_pending u k))\<rparr>))"

section \<open>Pending commands\<close>

type_synonym pending = "addr \<rightharpoonup> sync_cmd list"

definition pend_list :: "pending \<Rightarrow> addr \<Rightarrow> sync_cmd list" where
  "pend_list p a = (case p a of None \<Rightarrow> [] | Some l \<Rightarrow> l)"

text \<open>The three access patterns of the structures, for a match condition between the command at hand
  and a pending one.\<close>

definition pend_insert :: "sync_cmd \<Rightarrow> pending \<Rightarrow> pending" where
  "pend_insert c p = p(c_dst c \<mapsto> pend_list p (c_dst c) @ [c])"

definition pend_has :: "(sync_cmd \<Rightarrow> sync_cmd \<Rightarrow> bool) \<Rightarrow> sync_cmd \<Rightarrow> pending \<Rightarrow> bool" where
  "pend_has M c p = (case p (c_dst c) of None \<Rightarrow> False | Some l \<Rightarrow> list_ex (M c) l)"

definition pend_pop :: "(sync_cmd \<Rightarrow> sync_cmd \<Rightarrow> bool) \<Rightarrow> sync_cmd \<Rightarrow> pending \<Rightarrow> sync_cmd option \<times> pending" where
  "pend_pop M c p = (let l = pend_list p (c_dst c) in
     (find (M c) l, p(c_dst c \<mapsto> remove_first (M c) l)))"

definition comm_match :: "sync_cmd \<Rightarrow> sync_cmd \<Rightarrow> bool" where
  "comm_match c d \<longleftrightarrow> c_src c = c_src d \<and> c_dst c = c_dst d \<and> c_nbytes c = c_nbytes d \<and> c_desc c = c_desc d"

text \<open>A LAUNCH against a pending WAITLAUNCH, and a WAITLAUNCH against a pending LAUNCH: the source of
  the WAITLAUNCH may be unspecified.\<close>

definition launch_match :: "sync_cmd \<Rightarrow> sync_cmd \<Rightarrow> bool" where
  "launch_match c w = (if UNSPECIFIED_ADDR (c_src w) then c_dst c = c_dst w
                       else c_src c = c_src w \<and> c_dst c = c_dst w)"

definition waitlaunch_match :: "sync_cmd \<Rightarrow> sync_cmd \<Rightarrow> bool" where
  "waitlaunch_match c l = (if UNSPECIFIED_ADDR (c_src c) then c_dst c = c_dst l
                           else c_src c = c_src l \<and> c_dst c = c_dst l)"

record launch_struct =
  la_launch :: pending
  la_wait :: pending

record comm_struct =
  co_read :: pending
  co_write :: pending

definition la_new :: launch_struct where "la_new = \<lparr>la_launch = Map.empty, la_wait = Map.empty\<rparr>"
definition co_new :: comm_struct where "co_new = \<lparr>co_read = Map.empty, co_write = Map.empty\<rparr>"

definition hasMatchWaitlaunch :: "sync_cmd \<Rightarrow> launch_struct \<Rightarrow> bool" where
  "hasMatchWaitlaunch c s = pend_has launch_match c (la_wait s)"
definition popMatchWaitlaunch :: "sync_cmd \<Rightarrow> launch_struct \<Rightarrow> sync_cmd option \<times> launch_struct" where
  "popMatchWaitlaunch c s = (case pend_pop launch_match c (la_wait s) of (r, p) \<Rightarrow> (r, s\<lparr>la_wait := p\<rparr>))"
definition insertWaitlaunch :: "sync_cmd \<Rightarrow> launch_struct \<Rightarrow> launch_struct" where
  "insertWaitlaunch c s = s\<lparr>la_wait := pend_insert c (la_wait s)\<rparr>"
definition hasMatchLaunch :: "sync_cmd \<Rightarrow> launch_struct \<Rightarrow> bool" where
  "hasMatchLaunch c s = pend_has waitlaunch_match c (la_launch s)"
definition popMatchLaunch :: "sync_cmd \<Rightarrow> launch_struct \<Rightarrow> sync_cmd option \<times> launch_struct" where
  "popMatchLaunch c s = (case pend_pop waitlaunch_match c (la_launch s) of (r, p) \<Rightarrow> (r, s\<lparr>la_launch := p\<rparr>))"
definition insertLaunch :: "sync_cmd \<Rightarrow> launch_struct \<Rightarrow> launch_struct" where
  "insertLaunch c s = s\<lparr>la_launch := pend_insert c (la_launch s)\<rparr>"

definition hasMatchWrite :: "sync_cmd \<Rightarrow> comm_struct \<Rightarrow> bool" where
  "hasMatchWrite c s = pend_has comm_match c (co_write s)"
definition popMatchWrite :: "sync_cmd \<Rightarrow> comm_struct \<Rightarrow> sync_cmd option \<times> comm_struct" where
  "popMatchWrite c s = (case pend_pop comm_match c (co_write s) of (r, p) \<Rightarrow> (r, s\<lparr>co_write := p\<rparr>))"
definition insertWrite :: "sync_cmd \<Rightarrow> comm_struct \<Rightarrow> comm_struct" where
  "insertWrite c s = s\<lparr>co_write := pend_insert c (co_write s)\<rparr>"
definition hasMatchRead :: "sync_cmd \<Rightarrow> comm_struct \<Rightarrow> bool" where
  "hasMatchRead c s = pend_has comm_match c (co_read s)"
definition popMatchRead :: "sync_cmd \<Rightarrow> comm_struct \<Rightarrow> sync_cmd option \<times> comm_struct" where
  "popMatchRead c s = (case pend_pop comm_match c (co_read s) of (r, p) \<Rightarrow> (r, s\<lparr>co_read := p\<rparr>))"
definition insertRead :: "sync_cmd \<Rightarrow> comm_struct \<Rightarrow> comm_struct" where
  "insertRead c s = s\<lparr>co_read := pend_insert c (co_read s)\<rparr>"

lemma remove_first_idle: "\<not> list_ex P l \<Longrightarrow> remove_first P l = l"
  by (induction l) auto

section \<open>What a store of pending commands promises\<close>

text \<open>
  \<open>pat s a\<close> lists the commands pending at address \<open>a\<close>, oldest first; \<open>fit c x\<close> says that the pending
  command \<open>x\<close> answers the command \<open>c\<close>; \<open>other\<close> is the rest of the structure, which no operation touches.
\<close>

locale pending_store =
  fixes ins :: "sync_cmd \<Rightarrow> 's \<Rightarrow> 's"
    and has :: "sync_cmd \<Rightarrow> 's \<Rightarrow> bool"
    and pop :: "sync_cmd \<Rightarrow> 's \<Rightarrow> sync_cmd option \<times> 's"
    and pat :: "'s \<Rightarrow> addr \<Rightarrow> sync_cmd list"
    and other :: "'s \<Rightarrow> addr \<Rightarrow> sync_cmd list"
    and fit :: "sync_cmd \<Rightarrow> sync_cmd \<Rightarrow> bool"
  assumes at_ins: "pat (ins c s) a = (if a = c_dst c then pat s a @ [c] else pat s a)"
    and has_iff: "has c s \<longleftrightarrow> list_ex (fit c) (pat s (c_dst c))"
    and fst_pop: "fst (pop c s) = find (fit c) (pat s (c_dst c))"
    and at_pop: "pat (snd (pop c s)) a = (if a = c_dst c then remove_first (fit c) (pat s a) else pat s a)"
    and other_ins: "other (ins c s) = other s"
    and other_pop: "other (snd (pop c s)) = other s"
    and fit_dst: "fit c x \<Longrightarrow> c_dst c = c_dst x"
begin

lemma has_pops: "has c s \<longleftrightarrow> (\<exists>x s'. pop c s = (Some x, s'))"
proof -
  have "has c s \<longleftrightarrow> fst (pop c s) \<noteq> None" by (simp add: has_iff fst_pop find_eq_None)
  then show ?thesis by (cases "pop c s") auto
qed

lemma pop_fits: "pop c s = (Some x, s') \<Longrightarrow> fit c x \<and> x \<in> set (pat s (c_dst c))"
  using fst_pop[of c s, symmetric] by (auto dest: find_SomeD)

lemma pop_shortens: "pop c s = (Some x, s') \<Longrightarrow> length (pat s (c_dst c)) = Suc (length (pat s' (c_dst c)))"
  using has_pops[of c s] has_iff[of c s] at_pop[of c s "c_dst c"] length_remove_first by force

lemma miss_keeps: "\<not> has c s \<Longrightarrow> pat (snd (pop c s)) = pat s"
proof
  fix a
  assume "\<not> has c s"
  then have "\<not> list_ex (fit c) (pat s (c_dst c))" by (simp add: has_iff)
  then have "remove_first (fit c) (pat s (c_dst c)) = pat s (c_dst c)" by (rule remove_first_idle)
  then show "pat (snd (pop c s)) a = pat s a" by (simp add: at_pop)
qed

end

text \<open>
  Two stores of one structure whose commands answer each other, the left ones queried by the right
  ones and the other way round.  The protocol both pairs of the bridge follow: a command that finds
  its counterpart takes it, one that does not waits.
\<close>

locale rendezvous =
  l: pending_store lins lhas lpop lat wat lfit + r: pending_store rins rhas rpop wat lat rfit
  for lins :: "sync_cmd \<Rightarrow> 's \<Rightarrow> 's" and lhas lpop lat lfit rins rhas rpop wat rfit +
  assumes fit_sym: "lfit y x \<longleftrightarrow> rfit x y"
begin

lemma left_waits_alone:
  assumes sep: "\<forall>a. \<forall>x \<in> set (lat s a). \<forall>y \<in> set (wat s a). \<not> rfit x y"
    and miss: "\<not> rhas c s"
  shows "\<forall>a. \<forall>x \<in> set (lat (lins c (snd (rpop c s))) a). \<forall>y \<in> set (wat (lins c (snd (rpop c s))) a). \<not> rfit x y"
proof -
  have "lat (snd (rpop c s)) = lat s" by (rule r.other_pop)
  moreover have "wat (snd (rpop c s)) = wat s" by (rule r.miss_keeps[OF miss])
  moreover have "\<not> rfit c y" if "y \<in> set (wat s (c_dst c))" for y
    using miss that by (auto simp: r.has_iff list_ex_iff)
  ultimately show ?thesis using sep by (auto simp: l.at_ins l.other_ins)
qed

lemma left_takes:
  assumes sep: "\<forall>a. \<forall>x \<in> set (lat s a). \<forall>y \<in> set (wat s a). \<not> rfit x y"
  shows "\<forall>a. \<forall>x \<in> set (lat (snd (rpop c s)) a). \<forall>y \<in> set (wat (snd (rpop c s)) a). \<not> rfit x y"
  using sep mset_remove_first by (fastforce simp: r.other_pop r.at_pop split: if_splits)

lemma right_waits_alone:
  assumes sep: "\<forall>a. \<forall>x \<in> set (lat s a). \<forall>y \<in> set (wat s a). \<not> rfit x y"
    and miss: "\<not> lhas c s"
  shows "\<forall>a. \<forall>x \<in> set (lat (rins c (snd (lpop c s))) a). \<forall>y \<in> set (wat (rins c (snd (lpop c s))) a). \<not> rfit x y"
proof -
  have "wat (snd (lpop c s)) = wat s" by (rule l.other_pop)
  moreover have "lat (snd (lpop c s)) = lat s" by (rule l.miss_keeps[OF miss])
  moreover have "\<not> rfit x c" if "x \<in> set (lat s (c_dst c))" for x
    using miss that by (auto simp: l.has_iff list_ex_iff fit_sym)
  ultimately show ?thesis using sep by (auto simp: r.at_ins r.other_ins)
qed

lemma right_takes:
  assumes sep: "\<forall>a. \<forall>x \<in> set (lat s a). \<forall>y \<in> set (wat s a). \<not> rfit x y"
  shows "\<forall>a. \<forall>x \<in> set (lat (snd (lpop c s)) a). \<forall>y \<in> set (wat (snd (lpop c s)) a). \<not> rfit x y"
  using sep mset_remove_first by (fastforce simp: l.other_pop l.at_pop split: if_splits)

end

lemma pend_list_insert: "pend_list (pend_insert c p) a = (if a = c_dst c then pend_list p a @ [c] else pend_list p a)"
  by (simp add: pend_list_def pend_insert_def)

lemma pend_has_iff: "pend_has M c p \<longleftrightarrow> list_ex (M c) (pend_list p (c_dst c))"
  by (auto simp: pend_has_def pend_list_def split: option.splits)

lemma pend_list_pop:
  "pend_list (snd (pend_pop M c p)) a = (if a = c_dst c then remove_first (M c) (pend_list p a) else pend_list p a)"
  by (simp add: pend_pop_def pend_list_def Let_def)

lemma fst_pend_pop: "fst (pend_pop M c p) = find (M c) (pend_list p (c_dst c))"
  by (simp add: pend_pop_def Let_def)

lemmas pend_laws = pend_list_insert pend_has_iff pend_list_pop fst_pend_pop case_prod_beta

lemmas comm_ops = hasMatchWrite_def popMatchWrite_def insertWrite_def hasMatchRead_def popMatchRead_def insertRead_def
lemmas launch_ops = hasMatchWaitlaunch_def popMatchWaitlaunch_def insertWaitlaunch_def hasMatchLaunch_def
  popMatchLaunch_def insertLaunch_def

text \<open>Reads are the left side, writes the right side.\<close>

interpretation comm: rendezvous insertRead hasMatchRead popMatchRead "\<lambda>s. pend_list (co_read s)" comm_match
    insertWrite hasMatchWrite popMatchWrite "\<lambda>s. pend_list (co_write s)" comm_match
  by unfold_locales (auto simp: comm_ops pend_laws comm_match_def)

text \<open>Launches are the left side, waits the right side.\<close>

interpretation launch: rendezvous insertLaunch hasMatchLaunch popMatchLaunch "\<lambda>s. pend_list (la_launch s)" waitlaunch_match
    insertWaitlaunch hasMatchWaitlaunch popMatchWaitlaunch "\<lambda>s. pend_list (la_wait s)" launch_match
  by unfold_locales (auto simp: launch_ops pend_laws launch_match_def waitlaunch_match_def split: if_splits)

end
