(* ===== verification/CmdHandler.thy ===== *)
theory CmdHandler
  imports CmdStructs
begin

text \<open>
  The command handlers of the bridge (\<open>cmd_handler.cpp\<close>) over the shared structure \<open>SyncStruct\<close>, which
  the code protects with one mutex: a handler is one atomic step.  It returns the messages it writes,
  each with the descriptor of the process it goes to, in order, and the next state.  Log output is
  left out.
\<close>

record sync_struct =
  ss_bench :: bench_list
  ss_delay :: delay_struct
  ss_clock :: fl
  ss_pipes :: "string set"
  ss_barrier :: barrier_struct
  ss_lock :: lock_struct
  ss_launch :: launch_struct
  ss_comm :: comm_struct
  ss_barrier_t :: barrier_struct
  ss_lock_t :: lock_struct

definition ss_new :: sync_struct where
  "ss_new = \<lparr>ss_bench = [], ss_delay = ds_new, ss_clock = Fin 0, ss_pipes = {}, ss_barrier = bar_new,
     ss_lock = lk_new, ss_launch = la_new, ss_comm = co_new, ss_barrier_t = bar_new, ss_lock_t = lk_new\<rparr>"

type_synonym outs = "(int \<times> string) list"

text \<open>Popping is guarded by a test; a default-constructed command has no descriptor to answer to.\<close>

definition popped :: "sync_cmd option \<times> 's \<Rightarrow> (sync_cmd \<times> 's) res" where
  "popped p = (case p of (None, s) \<Rightarrow> Inl (Undefined ''default command'') | (Some c, s) \<Rightarrow> Inr (c, s))"

lemma popped_Inr_iff [res_simps]: "popped p = Inr (c, s) \<longleftrightarrow> p = (Some c, s)"
  by (auto simp: popped_def split: prod.splits option.splits)

section \<open>Cycle and pipe\<close>

definition handle_cycle_cmd :: "sync_cmd \<Rightarrow> sync_struct \<Rightarrow> outs \<times> sync_struct" where
  "handle_cycle_cmd c s = ([], s\<lparr>ss_clock := clock_update (ss_clock s) (c_cycle c)\<rparr>)"

text \<open>The file system: which names exist, and for which \<open>mkfifo\<close> succeeds.\<close>

record file_sys =
  fs_exists :: "string \<Rightarrow> bool"
  fs_mkfifo :: "string \<Rightarrow> bool"

definition handle_pipe_cmd :: "file_sys \<Rightarrow> sync_cmd \<Rightarrow> sync_struct \<Rightarrow> outs \<times> sync_struct" where
  "handle_pipe_cmd fs c s =
     (let f = pipeName (c_src c) (c_dst c) in
      ([(c_stdin_fd c, sendResultCmd_strings [''../'' @ f])],
       if \<not> fs_exists fs f \<and> fs_mkfifo fs f then s\<lparr>ss_pipes := insert f (ss_pipes s)\<rparr> else s))"

section \<open>Barrier\<close>

definition uid_of :: "sync_cmd \<Rightarrow> int" where
  "uid_of c = to_int32 (DIM_X (c_dst c))"

definition handle_barrier_cmd :: "sync_cmd \<Rightarrow> sync_struct \<Rightarrow> outs \<times> sync_struct" where
  "handle_barrier_cmd c s =
     (let u = uid_of c; b = insertBarrier u (c_nbytes c) c (ss_barrier s) in
      if bar_overflow u b then
        (map (\<lambda>i. (c_stdin_fd i, sendResultCmd)) (barrierCmd u b), s\<lparr>ss_barrier := bar_reset u b\<rparr>)
      else ([], s\<lparr>ss_barrier := b\<rparr>))"

section \<open>Lock and unlock\<close>

definition handle_lock_cmd :: "sync_cmd \<Rightarrow> sync_struct \<Rightarrow> outs \<times> sync_struct" where
  "handle_lock_cmd c s =
     (let u = uid_of c; k = ss_lock s in
      if isLocked u k then
        (if hasLastCmd u k \<and> map_option c_src (getLastCmd u k) = Some (c_src c)
         then ([(c_stdin_fd c, sendResultCmd)], s)
         else ([], s\<lparr>ss_lock := insertLockCmd u c k\<rparr>))
      else if hasLock (c_dst c) (ss_delay s) then
        (if frontLockSrc (c_dst c) (ss_delay s) = c_src c
         then ([(c_stdin_fd c, sendResultCmd)],
               s\<lparr>ss_lock := lk_lock u c k, ss_delay := popLock (c_dst c) (ss_delay s)\<rparr>)
         else ([], s\<lparr>ss_lock := insertLockCmd u c k\<rparr>))
      else ([(c_stdin_fd c, sendResultCmd)], s\<lparr>ss_lock := lk_lock u c k\<rparr>))"

definition handle_unlock_cmd :: "sync_cmd \<Rightarrow> sync_struct \<Rightarrow> (outs \<times> sync_struct) res" where
  "handle_unlock_cmd c s =
     (let u = uid_of c in
      if isLocked u (ss_lock s) then
        let k = lk_unlock u c (ss_lock s); ack = (c_stdin_fd c, sendResultCmd) in
        if hasLock (c_dst c) (ss_delay s) then
          let order_src = frontLockSrc (c_dst c) (ss_delay s) in
          if hasLockCmd_src u order_src k then
            rbind (popped (popLockCmd_src u order_src k)) (\<lambda>(lc, k).
            Inr ([ack, (c_stdin_fd lc, sendResultCmd)],
                 s\<lparr>ss_lock := lk_lock u lc k, ss_delay := popLock (c_dst c) (ss_delay s)\<rparr>))
          else Inr ([ack], s\<lparr>ss_lock := k\<rparr>)
        else if hasLockCmd u k then
          rbind (popped (popLockCmd u k)) (\<lambda>(lc, k).
          Inr ([ack, (c_stdin_fd lc, sendResultCmd)], s\<lparr>ss_lock := lk_lock u lc k\<rparr>))
        else Inr ([ack], s\<lparr>ss_lock := k\<rparr>)
      else Inr ([(c_stdin_fd c, sendResultCmd)], s))"

section \<open>Launch and waitlaunch\<close>

definition launch_answer :: "sync_cmd \<Rightarrow> sync_cmd \<Rightarrow> outs" where
  "launch_answer l w = [(c_stdin_fd l, sendResultCmd),
     (c_stdin_fd w, sendResultCmd_longs [DIM_X (c_src l), DIM_Y (c_src l)])]"

definition handle_launch_cmd :: "sync_cmd \<Rightarrow> sync_struct \<Rightarrow> (outs \<times> sync_struct) res" where
  "handle_launch_cmd c s =
     (if hasLaunch (c_dst c) (ss_delay s) \<and> frontLaunchSrc (c_dst c) (ss_delay s) \<noteq> c_src c then
        Inr ([], s\<lparr>ss_launch := insertLaunch c (ss_launch s)\<rparr>)
      else
        let found = hasMatchWaitlaunch c (ss_launch s); p = popMatchWaitlaunch c (ss_launch s) in
        if \<not> found then Inr ([], s\<lparr>ss_launch := insertLaunch c (snd p)\<rparr>)
        else rbind (popped p) (\<lambda>(w, la).
          Inr (launch_answer c w, s\<lparr>ss_launch := la, ss_delay := popLaunch (c_dst c) (ss_delay s)\<rparr>)))"

definition handle_waitlaunch_cmd :: "sync_cmd \<Rightarrow> sync_struct \<Rightarrow> (outs \<times> sync_struct) res" where
  "handle_waitlaunch_cmd c0 s =
     (let c = (if hasLaunch (c_dst c0) (ss_delay s)
               then c0\<lparr>c_src := frontLaunchSrc (c_dst c0) (ss_delay s)\<rparr> else c0);
          found = hasMatchLaunch c (ss_launch s); p = popMatchLaunch c (ss_launch s) in
      if \<not> found then Inr ([], s\<lparr>ss_launch := insertWaitlaunch c0 (snd p)\<rparr>)
      else rbind (popped p) (\<lambda>(l, la).
        Inr (launch_answer l c, s\<lparr>ss_launch := la, ss_delay := popLaunch (c_dst c) (ss_delay s)\<rparr>)))"

section \<open>Read and write\<close>

text \<open>The SYNC answer: the cycle in the clock of the process it goes to.\<close>

definition sync_answer :: "sync_cmd \<Rightarrow> fl \<Rightarrow> (int \<times> string) res" where
  "sync_answer c t = rbind (to_time (fl_mul 53 t (c_clock_rate c))) (\<lambda>n. Inr (c_stdin_fd c, sendSyncCmd n))"

definition sync_answer_desc :: "sync_cmd \<Rightarrow> fl \<Rightarrow> (int \<times> string) res" where
  "sync_answer_desc c t =
     rbind (to_time (fl_mul 53 t (c_clock_rate c))) (\<lambda>n. Inr (c_stdin_fd c, sendSyncCmd_desc n (c_desc c)))"

definition handle_read_cmd :: "int \<Rightarrow> sync_cmd \<Rightarrow> sync_struct \<Rightarrow> (outs \<times> sync_struct) res" where
  "handle_read_cmd flit_num c s =
     (let found = hasMatchWrite c (ss_comm s); p = popMatchWrite c (ss_comm s) in
      if \<not> found then Inr ([], s\<lparr>ss_comm := insertRead c (snd p)\<rparr>)
      else rbind (popped p) (\<lambda>(w, co).
           rbind (bench_item_pair w c flit_num) (\<lambda>it.
           rbind (getEndCycle w c (ss_delay s)) (\<lambda>((we, re), ds).
           rbind (sync_answer_desc c re) (\<lambda>m1.
           rbind (sync_answer_desc w we) (\<lambda>m2.
           Inr ([m1, m2], s\<lparr>ss_comm := co, ss_bench := bench_insert it (ss_bench s), ss_delay := ds\<rparr>)))))))"

definition handle_plain_write_cmd :: "int \<Rightarrow> sync_cmd \<Rightarrow> sync_struct \<Rightarrow> (outs \<times> sync_struct) res" where
  "handle_plain_write_cmd flit_num c s =
     (let found = hasMatchRead c (ss_comm s); p = popMatchRead c (ss_comm s) in
      if \<not> found then Inr ([], s\<lparr>ss_comm := insertWrite c (snd p)\<rparr>)
      else rbind (popped p) (\<lambda>(r, co).
           rbind (bench_item_pair c r flit_num) (\<lambda>it.
           rbind (getEndCycle c r (ss_delay s)) (\<lambda>((we, re), ds).
           rbind (sync_answer_desc c we) (\<lambda>m1.
           rbind (sync_answer_desc r re) (\<lambda>m2.
           Inr ([m1, m2], s\<lparr>ss_comm := co, ss_bench := bench_insert it (ss_bench s), ss_delay := ds\<rparr>)))))))"

definition record_write :: "int \<Rightarrow> sync_cmd \<Rightarrow> sync_struct \<Rightarrow> sync_struct res" where
  "record_write flit_num c s =
     rbind (bench_item_cmd c flit_num) (\<lambda>it. Inr (s\<lparr>ss_bench := bench_insert it (ss_bench s)\<rparr>))"

text \<open>The answers to the writes a barrier releases, each consuming its own delay item.\<close>

definition barrier_answers :: "sync_cmd \<Rightarrow> sync_cmd list \<Rightarrow> delay_struct \<Rightarrow> (outs \<times> delay_struct) res" where
  "barrier_answers sync_cmd items ds =
     rfold (\<lambda>i (o1, ds). rbind (getEndCycle i sync_cmd ds) (\<lambda>((we, re), ds).
                        rbind (sync_answer i we) (\<lambda>m. Inr (o1 @ [m], ds)))) items ([], ds)"

definition handle_barrier_write_cmd :: "int \<Rightarrow> sync_cmd \<Rightarrow> sync_struct \<Rightarrow> (outs \<times> sync_struct) res" where
  "handle_barrier_write_cmd flit_num c s0 =
     rbind (record_write flit_num c s0) (\<lambda>s.
     let u = uid_of c; b = insertBarrier u (c_desc c AND 65535) c (ss_barrier_t s) in
     if bar_overflow u b then
       rbind (getBarrierCycle (barrierCmd u b) (ss_delay s)) (\<lambda>cyc.
       rbind (barrier_answers (c\<lparr>c_cycle := cyc\<rparr>) (barrierCmd u b) (ss_delay s)) (\<lambda>(o1, ds).
       Inr (o1, s\<lparr>ss_barrier_t := bar_reset u b, ss_delay := ds\<rparr>)))
     else Inr ([], s\<lparr>ss_barrier_t := b\<rparr>))"

text \<open>The last command on a mutex, or the command at hand when there is none.\<close>

definition last_or :: "int \<Rightarrow> sync_cmd \<Rightarrow> lock_struct \<Rightarrow> sync_cmd" where
  "last_or u c k = (case getLastCmd u k of None \<Rightarrow> c | Some l \<Rightarrow> l)"

definition handle_lock_write_cmd :: "int \<Rightarrow> sync_cmd \<Rightarrow> sync_struct \<Rightarrow> (outs \<times> sync_struct) res" where
  "handle_lock_write_cmd flit_num c s0 =
     rbind (record_write flit_num c s0) (\<lambda>s.
     let u = uid_of c; k = ss_lock_t s in
     if isLocked u k then
       if hasLastCmd u k \<and> map_option c_src (getLastCmd u k) = Some (c_src c) then
         rbind (getEndCycle c c (ss_delay s)) (\<lambda>((we, re), ds).
         rbind (sync_answer c we) (\<lambda>m. Inr ([m], s\<lparr>ss_delay := ds\<rparr>)))
       else Inr ([], s\<lparr>ss_lock_t := insertLockCmd u c k\<rparr>)
     else
       rbind (getEndCycle c (last_or u c k) (ss_delay s)) (\<lambda>((we, re), ds).
       rbind (sync_answer c we) (\<lambda>m.
       Inr ([m], s\<lparr>ss_lock_t := lk_lock u (c\<lparr>c_cycle := re\<rparr>) k, ss_delay := ds\<rparr>))))"

definition handle_unlock_write_cmd :: "int \<Rightarrow> sync_cmd \<Rightarrow> sync_struct \<Rightarrow> (outs \<times> sync_struct) res" where
  "handle_unlock_write_cmd flit_num c s0 =
     rbind (record_write flit_num c s0) (\<lambda>s.
     let u = uid_of c; k = ss_lock_t s in
     if isLocked u k then
       rbind (getEndCycle c (last_or u c k) (ss_delay s)) (\<lambda>((we, re), ds).
       rbind (sync_answer c we) (\<lambda>m.
       let sc = c\<lparr>c_cycle := re\<rparr>; k = lk_unlock u sc k in
       if hasLockCmd u k then
         rbind (popped (popLockCmd u k)) (\<lambda>(lc, k).
         rbind (getEndCycle lc sc ds) (\<lambda>((we2, re2), ds).
         rbind (sync_answer lc we2) (\<lambda>m2.
         Inr ([m, m2], s\<lparr>ss_lock_t := lk_lock u (lc\<lparr>c_cycle := re2\<rparr>) k, ss_delay := ds\<rparr>))))
       else Inr ([m], s\<lparr>ss_lock_t := k, ss_delay := ds\<rparr>)))
     else
       rbind (getEndCycle c c (ss_delay s)) (\<lambda>((we, re), ds).
       rbind (sync_answer c we) (\<lambda>m. Inr ([m], s\<lparr>ss_delay := ds\<rparr>))))"

definition handle_write_cmd :: "int \<Rightarrow> sync_cmd \<Rightarrow> sync_struct \<Rightarrow> (outs \<times> sync_struct) res" where
  "handle_write_cmd flit_num c s =
     (if c_desc c AND SPD_BARRIER \<noteq> 0 then handle_barrier_write_cmd flit_num c s
      else if c_desc c AND SPD_LOCK \<noteq> 0 then handle_lock_write_cmd flit_num c s
      else if c_desc c AND SPD_UNLOCK \<noteq> 0 then handle_unlock_write_cmd flit_num c s
      else handle_plain_write_cmd flit_num c s)"

section \<open>Dispatch\<close>

text \<open>
  \<open>parse_command\<close> on one protocol line: the cycle is converted to the global clock, the order of the
  ordered commands is checked against the delay information (which is dropped when it differs), and
  the handler of the command runs.
\<close>

definition ordered_cmd :: "sync_cmd \<Rightarrow> sync_cmd" where
  "ordered_cmd c = (case c_type c of
       SC_BARRIER \<Rightarrow> c\<lparr>c_desc := (c_desc c OR SPD_BARRIER) OR c_nbytes c\<rparr>
     | SC_LOCK \<Rightarrow> c\<lparr>c_desc := c_desc c OR SPD_LOCK\<rparr>
     | SC_UNLOCK \<Rightarrow> c\<lparr>c_desc := c_desc c OR SPD_UNLOCK\<rparr>
     | SC_LAUNCH \<Rightarrow> c\<lparr>c_desc := c_desc c OR SPD_LAUNCH\<rparr>
     | _ \<Rightarrow> c)"

definition check_order :: "sync_cmd \<Rightarrow> sync_struct \<Rightarrow> sync_struct" where
  "check_order c s =
     (if c_type c \<in> {SC_BARRIER, SC_SEND, SC_LOCK, SC_UNLOCK, SC_LAUNCH} \<and> \<not> ds_checkOrder (ordered_cmd c) (ss_delay s)
      then s\<lparr>ss_delay := clearDelayInfo (ss_delay s)\<rparr> else s)"

definition handle_cmd :: "file_sys \<Rightarrow> int \<Rightarrow> sync_cmd \<Rightarrow> sync_struct \<Rightarrow> (outs \<times> sync_struct) res" where
  "handle_cmd fs flit_num c s0 =
     (let s = check_order c s0 in
      case c_type c of
        SC_CYCLE \<Rightarrow> Inr (handle_cycle_cmd c s)
      | SC_BARRIER \<Rightarrow> Inr (handle_barrier_cmd c s)
      | SC_SEND \<Rightarrow> Inr (handle_pipe_cmd fs c s)
      | SC_RECEIVE \<Rightarrow> Inr (handle_pipe_cmd fs c s)
      | SC_LOCK \<Rightarrow> Inr (handle_lock_cmd c s)
      | SC_UNLOCK \<Rightarrow> handle_unlock_cmd c s
      | SC_LAUNCH \<Rightarrow> handle_launch_cmd c s
      | SC_WAITLAUNCH \<Rightarrow> handle_waitlaunch_cmd c s
      | SC_READ \<Rightarrow> handle_read_cmd flit_num c s
      | SC_WRITE \<Rightarrow> handle_write_cmd flit_num c s
      | _ \<Rightarrow> Inr ([], s))"

text \<open>What a process is to the bridge: the clock ratio, its standard input, and the text of the line
  it has not finished yet.\<close>

record proc_struct =
  pr_clock_rate :: fl
  pr_stdin_fd :: int
  pr_unfinished :: string

text \<open>\<open>l.find("[INTERCMD]")\<close>, and the rest of the line from there.\<close>

fun find_head :: "string \<Rightarrow> string option" where
  "find_head [] = None"
| "find_head (c # cs) = (if take 10 (c # cs) = CMD_HEAD then Some (c # cs) else find_head cs)"

definition localise :: "proc_struct \<Rightarrow> sync_cmd \<Rightarrow> sync_cmd" where
  "localise p c = c\<lparr>c_stdin_fd := pr_stdin_fd p, c_clock_rate := pr_clock_rate p,
                   c_cycle := fl_div 53 (c_cycle c) (pr_clock_rate p)\<rparr>"

definition handle_line :: "file_sys \<Rightarrow> int \<Rightarrow> proc_struct \<Rightarrow> string \<Rightarrow> sync_struct \<Rightarrow> (outs \<times> sync_struct) res" where
  "handle_line fs flit_num p l s =
     (case find_head l of
        None \<Rightarrow> Inr ([], s)
      | Some m \<Rightarrow> rbind (parse_cmd m) (\<lambda>c. handle_cmd fs flit_num (localise p c) s))"

text \<open>Splitting a buffer into lines, each but perhaps the last with its newline.\<close>

fun split_lines :: "string \<Rightarrow> string list" where
  "split_lines [] = []"
| "split_lines (c # cs) =
     (if c = CHR 0x0A then [c] # split_lines cs
      else case split_lines cs of [] \<Rightarrow> [[c]] | l # ls \<Rightarrow> (c # l) # ls)"

definition next_lines :: "string \<Rightarrow> proc_struct \<Rightarrow> (string list \<times> proc_struct) res" where
  "next_lines buf p =
     (case split_lines buf of
        [] \<Rightarrow> Inl (Undefined ''vector index'')
      | l # ls \<Rightarrow>
          let ls = (pr_unfinished p @ l) # ls in
          if CHR 0x0A \<in> set (last ls) then Inr (ls, p\<lparr>pr_unfinished := []\<rparr>)
          else Inr (butlast ls, p\<lparr>pr_unfinished := last ls\<rparr>))"

definition handle_lines :: "file_sys \<Rightarrow> int \<Rightarrow> proc_struct \<Rightarrow> string list \<Rightarrow> sync_struct \<Rightarrow> (outs \<times> sync_struct) res" where
  "handle_lines fs flit_num p ls s =
     rfold (\<lambda>l (o1, s). rbind (handle_line fs flit_num p l s) (\<lambda>(o2, s). Inr (o1 @ o2, s))) ls ([], s)"

definition parse_command :: "file_sys \<Rightarrow> int \<Rightarrow> string \<Rightarrow> proc_struct \<times> sync_struct \<Rightarrow>
    (outs \<times> proc_struct \<times> sync_struct) res" where
  "parse_command fs flit_num buf ps =
     rbind (next_lines buf (fst ps)) (\<lambda>(ls, p).
     rbind (handle_lines fs flit_num p ls (snd ps)) (\<lambda>(o1, s).
     Inr (o1, p, s)))"

end
