(* ===== verification/BridgeLines.thy ===== *)
theory BridgeLines
  imports CmdHandler
begin

text \<open>
  How the bridge cuts what a simulator prints into protocol lines: the buffers of \<open>read\<close> can end
  anywhere, and the lemmas show that the commands handled do not depend on where they end.
\<close>

abbreviation has_newline :: "string \<Rightarrow> bool" where "has_newline l \<equiv> CHR 0x0A \<in> set l"

lemma split_lines_Nil_iff [simp]: "split_lines t = [] \<longleftrightarrow> t = []"
  by (cases t) (auto split: list.splits)

lemma concat_split_lines: "concat (split_lines t) = t"
proof (induction t)
  case (Cons c t)
  then show ?case by (cases "split_lines t") auto
qed simp

lemma split_lines_prefix:
  "\<not> has_newline u \<Longrightarrow> b \<noteq> [] \<Longrightarrow> split_lines (u @ b) = (u @ hd (split_lines b)) # tl (split_lines b)"
proof (induction u)
  case Nil
  then show ?case by (cases "split_lines b") auto
qed auto

text \<open>Only the last line can lack its newline.\<close>

lemma split_lines_append:
  "a \<noteq> [] \<Longrightarrow> split_lines (a @ b) = (if has_newline (last (split_lines a)) then split_lines a @ split_lines b
     else butlast (split_lines a) @ split_lines (last (split_lines a) @ b))"
proof (induction a)
  case (Cons c a)
  show ?case
  proof (cases "a = []")
    case True
    then show ?thesis by simp
  next
    case False
    note IH = Cons.IH[OF False]
    obtain l ls where sa: "split_lines a = l # ls" using False by (metis list.exhaust split_lines_Nil_iff)
    show ?thesis
    proof (cases "c = CHR 0x0A")
      case True
      then show ?thesis using IH sa by auto
    next
      case c: False
      show ?thesis
      proof (cases ls)
        case (Cons l2 ls2)
        then show ?thesis using IH sa c by auto
      next
        case Nil
        show ?thesis
        proof (cases "has_newline l")
          case True
          then show ?thesis using IH sa c Nil by auto
        next
          case l: False
          then have "split_lines (a @ b) = split_lines (l @ b)" using IH sa Nil by simp
          moreover have "a = l" using concat_split_lines[of a] sa Nil by simp
          ultimately show ?thesis using sa c Nil l by simp
        qed
      qed
    qed
  qed
qed simp

definition pr_ok :: "proc_struct \<Rightarrow> bool" where
  "pr_ok p \<longleftrightarrow> \<not> has_newline (pr_unfinished p)"

text \<open>A buffer acts as the unfinished text followed by it.\<close>

lemma next_lines_eq:
  assumes "buf \<noteq> []" "pr_ok p"
  shows "next_lines buf p =
     (let ls = split_lines (pr_unfinished p @ buf) in
      Inr (if has_newline (last ls) then (ls, p\<lparr>pr_unfinished := []\<rparr>) else (butlast ls, p\<lparr>pr_unfinished := last ls\<rparr>)))"
proof -
  obtain l ls where sp: "split_lines buf = l # ls" using assms(1) by (metis list.exhaust split_lines_Nil_iff)
  then have "split_lines (pr_unfinished p @ buf) = (pr_unfinished p @ l) # ls"
    using split_lines_prefix[of "pr_unfinished p" buf] assms by (simp add: pr_ok_def)
  then show ?thesis by (simp add: next_lines_def sp Let_def)
qed

lemma next_lines_ok:
  assumes "buf \<noteq> []" "pr_ok p"
  shows "\<exists>ls p'. next_lines buf p = Inr (ls, p') \<and> pr_ok p' \<and> pr_clock_rate p' = pr_clock_rate p \<and>
    pr_stdin_fd p' = pr_stdin_fd p"
  using assms by (auto simp: next_lines_eq Let_def pr_ok_def)

lemma next_lines_append:
  assumes "a \<noteq> []" "b \<noteq> []" "pr_ok p" "next_lines a p = Inr (l1, p1)" "next_lines b p1 = Inr (l2, p2)"
  shows "next_lines (a @ b) p = Inr (l1 @ l2, p2)"
proof -
  let ?t = "pr_unfinished p @ a"
  have t: "?t \<noteq> []" using assms(1) by simp
  have p1: "pr_ok p1" using next_lines_ok[OF assms(1,3)] assms(4) by auto
  have ne: "split_lines ?t \<noteq> []" using t by simp
  have ab: "next_lines (a @ b) p = (let ls = split_lines (?t @ b) in
      Inr (if has_newline (last ls) then (ls, p\<lparr>pr_unfinished := []\<rparr>) else (butlast ls, p\<lparr>pr_unfinished := last ls\<rparr>)))"
    using next_lines_eq[of "a @ b" p] assms(1,3) by simp
  show ?thesis
  proof (cases "has_newline (last (split_lines ?t))")
    case True
    then have 1: "l1 = split_lines ?t" "p1 = p\<lparr>pr_unfinished := []\<rparr>"
      using assms(4) next_lines_eq[OF assms(1,3)] by (auto simp: Let_def)
    have s: "split_lines (?t @ b) = l1 @ split_lines b" using split_lines_append[OF t, of b] True 1 by simp
    have "last (l1 @ split_lines b) = last (split_lines b)" using assms(2) by simp
    then show ?thesis using ab s assms(2,5) next_lines_eq[OF assms(2) p1] 1
      by (auto simp: Let_def butlast_append split: if_splits)
  next
    case False
    then have 1: "l1 = butlast (split_lines ?t)" "p1 = p\<lparr>pr_unfinished := last (split_lines ?t)\<rparr>"
      using assms(4) next_lines_eq[OF assms(1,3)] by (auto simp: Let_def)
    have s: "split_lines (?t @ b) = l1 @ split_lines (pr_unfinished p1 @ b)"
      using split_lines_append[OF t, of b] False 1 by simp
    have "split_lines (pr_unfinished p1 @ b) \<noteq> []" using assms(2) by simp
    then have "last (l1 @ split_lines (pr_unfinished p1 @ b)) = last (split_lines (pr_unfinished p1 @ b))"
      "butlast (l1 @ split_lines (pr_unfinished p1 @ b)) = l1 @ butlast (split_lines (pr_unfinished p1 @ b))"
      by (metis last_appendR, metis butlast_append)
    then show ?thesis using ab s assms(5) next_lines_eq[OF assms(2) p1] 1
      by (auto simp: Let_def split: if_splits)
  qed
qed

section \<open>Handling a batch of lines\<close>

lemma handle_lines_from:
  "rfold (\<lambda>l (o1, s). rbind (handle_line fs n p l s) (\<lambda>(o2, s). Inr (o1 @ o2, s))) ls (o0, s) =
   rbind (handle_lines fs n p ls s) (\<lambda>(o1, s). Inr (o0 @ o1, s))"
proof (induction ls arbitrary: o0 s)
  case (Cons l ls)
  show ?case
  proof (cases "handle_line fs n p l s")
    case (Inr r)
    obtain o2 s2 where r: "r = (o2, s2)" by force
    show ?thesis using Cons[of "o0 @ o2" s2] Cons[of o2 s2]
      by (cases "handle_lines fs n p ls s2") (auto simp: handle_lines_def Inr r)
  qed (simp add: handle_lines_def)
qed (simp add: handle_lines_def)

lemma handle_lines_append:
  "handle_lines fs n p (l1 @ l2) s =
   rbind (handle_lines fs n p l1 s) (\<lambda>(o1, s). rbind (handle_lines fs n p l2 s) (\<lambda>(o2, s). Inr (o1 @ o2, s)))"
proof -
  have "handle_lines fs n p (l1 @ l2) s = rbind (handle_lines fs n p l1 s)
      (rfold (\<lambda>l (o1, s). rbind (handle_line fs n p l s) (\<lambda>(o2, s). Inr (o1 @ o2, s))) l2)"
    by (simp add: handle_lines_def rfold_append)
  also have "\<dots> = rbind (handle_lines fs n p l1 s) (\<lambda>(o1, s). rbind (handle_lines fs n p l2 s) (\<lambda>(o2, s). Inr (o1 @ o2, s)))"
    by (rule arg_cong[of _ _ "rbind _"]) (auto simp: fun_eq_iff handle_lines_from)
  finally show ?thesis .
qed

lemma handle_lines_proc:
  "pr_clock_rate p = pr_clock_rate q \<Longrightarrow> pr_stdin_fd p = pr_stdin_fd q \<Longrightarrow> handle_lines fs n p = handle_lines fs n q"
proof -
  assume eq: "pr_clock_rate p = pr_clock_rate q" "pr_stdin_fd p = pr_stdin_fd q"
  then have "localise p = localise q" by (simp add: localise_def fun_eq_iff)
  then have "handle_line fs n p = handle_line fs n q" by (intro ext) (simp only: handle_line_def)
  then show ?thesis by (simp add: handle_lines_def fun_eq_iff)
qed

lemma parse_command_eq:
  "parse_command fs n buf (p, s) = rbind (next_lines buf p) (\<lambda>(ls, p').
     rbind (handle_lines fs n p ls s) (\<lambda>(o1, s). Inr (o1, p', s)))"
proof (cases "next_lines buf p")
  case (Inr r)
  obtain ls p' where r: "r = (ls, p')" by force
  have "pr_clock_rate p' = pr_clock_rate p" "pr_stdin_fd p' = pr_stdin_fd p"
    using Inr r by (auto simp: next_lines_def Let_def split: list.splits if_splits)
  then have "handle_lines fs n p' = handle_lines fs n p" by (rule handle_lines_proc)
  then show ?thesis by (simp add: parse_command_def Inr r)
qed (simp add: parse_command_def)

lemma parse_command_append:
  assumes "a \<noteq> []" "b \<noteq> []" "pr_ok p"
  shows "parse_command fs n (a @ b) (p, s) =
    rbind (parse_command fs n a (p, s)) (\<lambda>(o1, p1, s1).
    rbind (parse_command fs n b (p1, s1)) (\<lambda>(o2, p2, s2). Inr (o1 @ o2, p2, s2)))"
proof -
  obtain l1 p1 where 1: "next_lines a p = Inr (l1, p1)" "pr_ok p1"
    "pr_clock_rate p1 = pr_clock_rate p" "pr_stdin_fd p1 = pr_stdin_fd p"
    using next_lines_ok[OF assms(1,3)] by blast
  obtain l2 p2 where 2: "next_lines b p1 = Inr (l2, p2)" using next_lines_ok[OF assms(2) 1(2)] by blast
  have p: "handle_lines fs n p1 = handle_lines fs n p" using 1(3,4) by (rule handle_lines_proc)
  show ?thesis
    unfolding parse_command_eq next_lines_append[OF assms 1(1) 2] 1(1)
    by (cases "handle_lines fs n p l1 s")
      (auto simp: handle_lines_append rbind_assoc parse_command_eq 2 p case_prod_beta)
qed

end
