(* ===== verification/BridgeInv.thy ===== *)
theory BridgeInv
  imports BridgeLines
begin

text \<open>
  The invariant of the bridge and its preservation by every handler: no pending READ answers a pending
  WRITE, barriers hold fewer commands than they wait for, a locked mutex knows who locked it, the
  traffic record and the delay information are in cycle order.  Reachability is the closure of the
  handled commands.
\<close>

section \<open>Barriers\<close>

definition bar_inv :: "barrier_struct \<Rightarrow> bool" where
  "bar_inv b \<longleftrightarrow> (\<forall>u. barrierCmd u b = [] \<or>
     (\<exists>n. bar_count b u = Some n \<and> int (length (barrierCmd u b)) < to_size n))"

definition bar_step :: "int \<Rightarrow> int \<Rightarrow> sync_cmd \<Rightarrow> barrier_struct \<Rightarrow> barrier_struct" where
  "bar_step u n c b = (let b1 = insertBarrier u n c b in if bar_overflow u b1 then bar_reset u b1 else b1)"

lemma bar_inv_new [simp]: "bar_inv bar_new"
  by (simp add: bar_inv_def bar_new_def barrierCmd_def)

text \<open>The count a barrier waits for after a command that names \<open>n\<close>.\<close>

definition bar_target :: "int \<Rightarrow> int \<Rightarrow> barrier_struct \<Rightarrow> int" where
  "bar_target u n b = (case bar_count b u of None \<Rightarrow> n | Some m \<Rightarrow> if n > 0 then n else m)"

lemma insertBarrier_count: "bar_count (insertBarrier u n c b) v = (if v = u then Some (bar_target u n b) else bar_count b v)"
  by (auto simp: insertBarrier_def bar_declare_def bar_target_def Let_def split: option.splits)

lemma insertBarrier_cmds:
  "bar_count b u \<noteq> None \<or> barrierCmd u b = [] \<Longrightarrow>
   barrierCmd v (insertBarrier u n c b) = (if v = u then barrierCmd u b @ [c] else barrierCmd v b)"
  by (auto simp: insertBarrier_def bar_declare_def barrierCmd_def Let_def split: option.splits)

lemma bar_inv_count: "bar_inv b \<Longrightarrow> bar_count b u \<noteq> None \<or> barrierCmd u b = []"
  by (force simp: bar_inv_def)

lemma bar_overflow_insert:
  "bar_overflow u (insertBarrier u n c b) \<longleftrightarrow>
   to_size (bar_target u n b) \<le> int (length (barrierCmd u (insertBarrier u n c b)))"
  by (simp add: bar_overflow_def insertBarrier_count)

lemma bar_reset_cmds: "bar_count b u \<noteq> None \<Longrightarrow> barrierCmd v (bar_reset u b) = (if v = u then [] else barrierCmd v b)"
  by (auto simp: bar_reset_def barrierCmd_def)

lemma bar_reset_count [simp]: "bar_count (bar_reset u b) = bar_count b"
  by (simp add: bar_reset_def)

lemma bar_step_inv: "bar_inv b \<Longrightarrow> bar_inv (bar_step u n c b)"
proof -
  assume inv: "bar_inv b"
  note cmds = insertBarrier_cmds[OF bar_inv_count[OF inv], of _ u n c]
  have old: "barrierCmd v b = [] \<or> (\<exists>n. bar_count b v = Some n \<and> int (length (barrierCmd v b)) < to_size n)" for v
    using inv by (simp add: bar_inv_def)
  show ?thesis
    using old bar_overflow_insert[of u n c b]
    by (auto simp: bar_inv_def bar_step_def Let_def bar_reset_cmds insertBarrier_count cmds not_le)
qed

section \<open>Locks\<close>

definition lk_inv :: "lock_struct \<Rightarrow> bool" where
  "lk_inv k \<longleftrightarrow> (\<forall>u. isLocked u k \<longrightarrow> hasLastCmd u k)"

lemma lk_inv_new [simp]: "lk_inv lk_new"
  by (simp add: lk_inv_def lk_new_def isLocked_def)

lemma lk_inv_ops [intro]:
  "lk_inv k \<Longrightarrow> lk_inv (lk_lock u c k)"
  "lk_inv k \<Longrightarrow> lk_inv (lk_unlock u c k)"
  "lk_inv k \<Longrightarrow> lk_inv (insertLockCmd u c k)"
  by (auto simp: lk_inv_def lk_lock_def lk_unlock_def insertLockCmd_def isLocked_def hasLastCmd_def)

lemma lk_inv_pop: "popLockCmd u k = (r, k') \<Longrightarrow> lk_inv k \<Longrightarrow> lk_inv k'"
  by (auto simp: lk_inv_def popLockCmd_def isLocked_def hasLastCmd_def split: list.splits)

lemma lk_inv_pop_src: "popLockCmd_src u s k = (r, k') \<Longrightarrow> lk_inv k \<Longrightarrow> lk_inv k'"
  by (auto simp: lk_inv_def popLockCmd_src_def isLocked_def hasLastCmd_def split: option.splits)

text \<open>Handing a mutex over: unlocked, a waiting command taken, locked again.\<close>

lemma lk_inv_handover:
  assumes "popLockCmd u (lk_unlock v c k) = (r, k') \<or> popLockCmd_src u a (lk_unlock v c k) = (r, k')" "lk_inv k"
  shows "lk_inv (lk_lock w d k')"
  using assms lk_inv_pop[OF _ lk_inv_ops(2)] lk_inv_pop_src[OF _ lk_inv_ops(2)] lk_inv_ops(1) by blast

section \<open>Pairing and traffic record\<close>

definition comm_sep :: "comm_struct \<Rightarrow> bool" where
  "comm_sep s \<longleftrightarrow> (\<forall>a. \<forall>x \<in> set (pend_list (co_read s) a). \<forall>y \<in> set (pend_list (co_write s) a). \<not> comm_match x y)"

lemma comm_sep_new [simp]: "comm_sep co_new"
  by (simp add: comm_sep_def co_new_def pend_list_def)

lemma comm_sep_read:
  "comm_sep s \<Longrightarrow> \<not> hasMatchWrite c s \<Longrightarrow> comm_sep (insertRead c (snd (popMatchWrite c s)))"
  "comm_sep s \<Longrightarrow> comm_sep (snd (popMatchWrite c s))"
  unfolding comm_sep_def by (rule comm.left_waits_alone) (assumption+, rule comm.left_takes)

lemma comm_sep_write:
  "comm_sep s \<Longrightarrow> \<not> hasMatchRead c s \<Longrightarrow> comm_sep (insertWrite c (snd (popMatchRead c s)))"
  "comm_sep s \<Longrightarrow> comm_sep (snd (popMatchRead c s))"
  unfolding comm_sep_def by (rule comm.right_waits_alone) (assumption+, rule comm.right_takes)

definition bench_ok :: "bench_list \<Rightarrow> bool" where
  "bench_ok l \<longleftrightarrow> mm_sorted l \<and> (\<forall>e \<in> set l. fst e \<noteq> NaN \<and> fst e = bi_src_cycle (snd e))"

lemma bench_ok_Nil [simp]: "bench_ok []"
  by (simp add: bench_ok_def mm_sorted_def)

lemma bench_insert_ok: "bench_ok l \<Longrightarrow> bi_src_cycle it \<noteq> NaN \<Longrightarrow> bench_ok (bench_insert it l)"
  by (auto simp: bench_ok_def bench_insert_def set_mm_insert intro!: mm_insert_sorted)

text \<open>Pending commands carry a cycle as well.\<close>

definition pend_timed :: "pending \<Rightarrow> bool" where
  "pend_timed p \<longleftrightarrow> (\<forall>a. \<forall>x \<in> set (pend_list p a). c_cycle x \<noteq> NaN)"

lemma pend_timed_new [simp]: "pend_timed Map.empty"
  by (simp add: pend_timed_def pend_list_def)

lemma pend_timed_insert: "pend_timed p \<Longrightarrow> c_cycle c \<noteq> NaN \<Longrightarrow> pend_timed (pend_insert c p)"
  by (auto simp: pend_timed_def pend_list_insert)

lemma pend_timed_pop: "pend_timed p \<Longrightarrow> pend_timed (snd (pend_pop M c p))"
  by (auto simp: pend_timed_def pend_list_pop dest: mset_remove_first)

lemma pend_timed_popped: "pend_timed p \<Longrightarrow> fst (pend_pop M c p) = Some x \<Longrightarrow> c_cycle x \<noteq> NaN"
  by (auto simp: pend_timed_def fst_pend_pop dest: find_SomeD)

section \<open>The invariant\<close>

definition bridge_inv :: "sync_struct \<Rightarrow> bool" where
  "bridge_inv s \<longleftrightarrow> comm_sep (ss_comm s) \<and> pend_timed (co_read (ss_comm s)) \<and> pend_timed (co_write (ss_comm s)) \<and>
     bar_inv (ss_barrier s) \<and> bar_inv (ss_barrier_t s) \<and> lk_inv (ss_lock s) \<and> lk_inv (ss_lock_t s) \<and>
     ds_inv (ss_delay s) \<and> bench_ok (ss_bench s)"

lemma bridge_inv_start: "ds_inv ds \<Longrightarrow> bridge_inv (ss_new\<lparr>ss_delay := ds\<rparr>)"
  by (simp add: bridge_inv_def ss_new_def) (simp add: co_new_def)

lemma check_order_inv: "bridge_inv s \<Longrightarrow> bridge_inv (check_order c s)"
  by (simp add: bridge_inv_def check_order_def ds_inv_clear)

lemma handle_cycle_inv: "bridge_inv s \<Longrightarrow> bridge_inv (snd (handle_cycle_cmd c s))"
  by (simp add: bridge_inv_def handle_cycle_cmd_def)

lemma handle_pipe_inv: "bridge_inv s \<Longrightarrow> bridge_inv (snd (handle_pipe_cmd fs c s))"
  by (simp add: bridge_inv_def handle_pipe_cmd_def Let_def)

lemma handle_barrier_state: "snd (handle_barrier_cmd c s) = s\<lparr>ss_barrier := bar_step (uid_of c) (c_nbytes c) c (ss_barrier s)\<rparr>"
  by (simp add: handle_barrier_cmd_def bar_step_def Let_def)

lemma handle_barrier_inv: "bridge_inv s \<Longrightarrow> bridge_inv (snd (handle_barrier_cmd c s))"
  by (simp add: handle_barrier_state bridge_inv_def bar_step_inv)

lemma handle_lock_inv: "bridge_inv s \<Longrightarrow> bridge_inv (snd (handle_lock_cmd c s))"
  by (auto simp: bridge_inv_def handle_lock_cmd_def Let_def ds_inv_popLock)

lemma handle_unlock_inv: "handle_unlock_cmd c s = Inr (o1, s') \<Longrightarrow> bridge_inv s \<Longrightarrow> bridge_inv s'"
  by (auto simp: bridge_inv_def handle_unlock_cmd_def Let_def ds_inv_popLock res_simps split: if_splits intro: lk_inv_handover[OF disjI1] lk_inv_handover[OF disjI2])

lemma handle_launch_inv: "handle_launch_cmd c s = Inr (o1, s') \<Longrightarrow> bridge_inv s \<Longrightarrow> bridge_inv s'"
  by (auto simp: bridge_inv_def handle_launch_cmd_def Let_def ds_inv_popLaunch res_simps split: if_splits)

lemma handle_waitlaunch_inv: "handle_waitlaunch_cmd c s = Inr (o1, s') \<Longrightarrow> bridge_inv s \<Longrightarrow> bridge_inv s'"
  by (auto simp: bridge_inv_def handle_waitlaunch_cmd_def Let_def ds_inv_popLaunch res_simps split: if_splits)

lemma bench_item_cycles:
  "bench_item_pair a b n = Inr it \<Longrightarrow> bi_src_cycle it = c_cycle a"
  "bench_item_cmd a n = Inr it \<Longrightarrow> bi_src_cycle it = c_cycle a"
  by (auto simp: bench_item_pair_def bench_item_cmd_def res_simps)

lemma handle_read_inv:
  assumes "handle_read_cmd n c s = Inr (o1, s')" "bridge_inv s" "c_cycle c \<noteq> NaN"
  shows "bridge_inv s'"
proof (cases "hasMatchWrite c (ss_comm s)")
  case False
  then have "s' = s\<lparr>ss_comm := insertRead c (snd (popMatchWrite c (ss_comm s)))\<rparr>"
    using assms(1) by (simp add: handle_read_cmd_def Let_def)
  then show ?thesis using assms(2,3) comm_sep_read(1)[OF _ False]
    by (simp add: bridge_inv_def comm_ops case_prod_beta pend_timed_insert pend_timed_pop)
next
  case True
  then obtain w co it p ds m1 m2 where run: "popMatchWrite c (ss_comm s) = (Some w, co)"
    "bench_item_pair w c n = Inr it" "getEndCycle w c (ss_delay s) = Inr (p, ds)"
    "s' = s\<lparr>ss_comm := co, ss_bench := bench_insert it (ss_bench s), ss_delay := ds\<rparr>"
    using assms(1) by (auto simp: handle_read_cmd_def Let_def res_simps)
  have co: "co = snd (popMatchWrite c (ss_comm s))" using run(1) by simp
  have w: "c_cycle w \<noteq> NaN"
    using run(1) assms(2) pend_timed_popped[of "co_write (ss_comm s)" comm_match c w]
    by (auto simp: bridge_inv_def comm_ops case_prod_beta)
  have "pend_timed (co_read co) \<and> pend_timed (co_write co)"
    using assms(2) by (simp add: co bridge_inv_def comm_ops case_prod_beta pend_timed_pop)
  then show ?thesis using assms(2) run(4) comm_sep_read(2)[of "ss_comm s" c] bench_insert_ok[of "ss_bench s" it]
      bench_item_cycles(1)[OF run(2)] w getEndCycle_inv[OF run(3)]
    by (simp add: bridge_inv_def co)
qed

lemma handle_plain_write_inv:
  assumes "handle_plain_write_cmd n c s = Inr (o1, s')" "bridge_inv s" "c_cycle c \<noteq> NaN"
  shows "bridge_inv s'"
proof (cases "hasMatchRead c (ss_comm s)")
  case False
  then have "s' = s\<lparr>ss_comm := insertWrite c (snd (popMatchRead c (ss_comm s)))\<rparr>"
    using assms(1) by (simp add: handle_plain_write_cmd_def Let_def)
  then show ?thesis using assms(2,3) comm_sep_write(1)[OF _ False]
    by (simp add: bridge_inv_def comm_ops case_prod_beta pend_timed_insert pend_timed_pop)
next
  case True
  then obtain r co it p ds where run: "popMatchRead c (ss_comm s) = (Some r, co)"
    "bench_item_pair c r n = Inr it" "getEndCycle c r (ss_delay s) = Inr (p, ds)"
    "s' = s\<lparr>ss_comm := co, ss_bench := bench_insert it (ss_bench s), ss_delay := ds\<rparr>"
    using assms(1) by (auto simp: handle_plain_write_cmd_def Let_def res_simps)
  have co: "co = snd (popMatchRead c (ss_comm s))" using run(1) by simp
  have "pend_timed (co_read co) \<and> pend_timed (co_write co)"
    using assms(2) by (simp add: co bridge_inv_def comm_ops case_prod_beta pend_timed_pop)
  then show ?thesis using assms(2,3) run(4) comm_sep_write(2)[of "ss_comm s" c] bench_insert_ok[of "ss_bench s" it]
      bench_item_cycles(1)[OF run(2)] getEndCycle_inv[OF run(3)]
    by (simp add: bridge_inv_def co)
qed

lemma record_write_inv:
  "record_write n c s = Inr s' \<Longrightarrow> bridge_inv s \<Longrightarrow> c_cycle c \<noteq> NaN \<Longrightarrow> bridge_inv s'"
  by (auto simp: record_write_def bridge_inv_def bench_insert_ok bench_item_cycles res_simps)

lemma barrier_answers_inv:
  assumes "barrier_answers sc items ds = Inr (o1, ds')" "ds_inv ds"
  shows "ds_inv ds'"
proof -
  have "ds_inv (snd (o1, ds'))"
    using assms(1) unfolding barrier_answers_def
    by (rule rfold_invariant) (auto simp: assms(2) res_simps dest: getEndCycle_inv)
  then show ?thesis by simp
qed

lemma handle_barrier_write_inv:
  assumes "handle_barrier_write_cmd n c s0 = Inr (o1, s')" "bridge_inv s0" "c_cycle c \<noteq> NaN"
  shows "bridge_inv s'"
proof -
  obtain s where s: "record_write n c s0 = Inr s" using assms(1) by (auto simp: handle_barrier_write_cmd_def res_simps)
  have inv: "bridge_inv s" using record_write_inv[OF s assms(2,3)] .
  have "bar_inv (bar_step (uid_of c) (c_desc c AND 65535) c (ss_barrier_t s))"
    using inv by (simp add: bridge_inv_def bar_step_inv)
  then show ?thesis using assms(1) inv s
    by (auto simp: handle_barrier_write_cmd_def bar_step_def Let_def res_simps bridge_inv_def
        dest: barrier_answers_inv split: if_splits)
qed

lemma handle_lock_write_inv:
  assumes "handle_lock_write_cmd n c s0 = Inr (o1, s')" "bridge_inv s0" "c_cycle c \<noteq> NaN"
  shows "bridge_inv s'"
proof -
  obtain s where s: "record_write n c s0 = Inr s" using assms(1) by (auto simp: handle_lock_write_cmd_def res_simps)
  have "bridge_inv s" using record_write_inv[OF s assms(2,3)] .
  then show ?thesis using assms(1) s
    by (auto simp: handle_lock_write_cmd_def Let_def res_simps bridge_inv_def dest: getEndCycle_inv split: if_splits)
qed

lemma handle_unlock_write_inv:
  assumes "handle_unlock_write_cmd n c s0 = Inr (o1, s')" "bridge_inv s0" "c_cycle c \<noteq> NaN"
  shows "bridge_inv s'"
proof -
  obtain s where s: "record_write n c s0 = Inr s" using assms(1) by (auto simp: handle_unlock_write_cmd_def res_simps)
  have "bridge_inv s" using record_write_inv[OF s assms(2,3)] .
  then show ?thesis using assms(1) s
    by (auto simp: handle_unlock_write_cmd_def Let_def res_simps bridge_inv_def dest!: getEndCycle_inv split: if_splits intro: lk_inv_handover[OF disjI1])
qed

lemma handle_write_inv:
  "handle_write_cmd n c s = Inr (o1, s') \<Longrightarrow> bridge_inv s \<Longrightarrow> c_cycle c \<noteq> NaN \<Longrightarrow> bridge_inv s'"
  by (auto simp: handle_write_cmd_def split: if_splits intro: handle_barrier_write_inv handle_lock_write_inv
      handle_unlock_write_inv handle_plain_write_inv)

lemma handle_cmd_inv:
  assumes "handle_cmd fs n c s0 = Inr (o1, s')" "bridge_inv s0" "c_cycle c \<noteq> NaN"
  shows "bridge_inv s'"
proof -
  have s: "bridge_inv (check_order c s0)" using assms(2) by (rule check_order_inv)
  have total: "Inr r = Inr (o1, s') \<Longrightarrow> bridge_inv (snd r) \<Longrightarrow> bridge_inv s'" for r :: "outs \<times> sync_struct"
    by auto
  show ?thesis using assms(1) s
    by (cases "c_type c")
      (auto simp: handle_cmd_def Let_def intro: handle_unlock_inv handle_launch_inv handle_waitlaunch_inv
        handle_read_inv[OF _ _ assms(3)] handle_write_inv[OF _ _ assms(3)]
        elim!: total[OF arg_cong[of _ _ Inr]]
        dest: handle_cycle_inv[of _ c] handle_pipe_inv[of _ fs c] handle_barrier_inv[of _ c] handle_lock_inv[of _ c])
qed

section \<open>Reachable states\<close>

inductive bridge_reach :: "file_sys \<Rightarrow> int \<Rightarrow> sync_struct \<Rightarrow> sync_struct \<Rightarrow> bool" for fs n s0 where
  start: "bridge_reach fs n s0 s0"
| handled: "bridge_reach fs n s0 s \<Longrightarrow> handle_cmd fs n c s = Inr (o1, s') \<Longrightarrow> c_cycle c \<noteq> NaN \<Longrightarrow>
    bridge_reach fs n s0 s'"

lemma bridge_reach_inv: "bridge_reach fs n s0 s \<Longrightarrow> bridge_inv s0 \<Longrightarrow> bridge_inv s"
  by (induction rule: bridge_reach.induct) (auto intro: handle_cmd_inv)

end
