(* ===== verification/BridgeProps.thy ===== *)
theory BridgeProps
  imports BridgeInv
begin

text \<open>
  What sequences of commands do: transfers between the same nodes are paired first come first served,
  a barrier answers everybody when the last one arrives, and a mutex passes from source to source in
  the order of the requests.
\<close>

definition run_cmds :: "file_sys \<Rightarrow> int \<Rightarrow> sync_cmd list \<Rightarrow> sync_struct \<Rightarrow> (outs \<times> sync_struct) res" where
  "run_cmds fs n cs s = rfold (\<lambda>c (o1, s). rbind (handle_cmd fs n c s) (\<lambda>(o2, s). Inr (o1 @ o2, s))) cs ([], s)"

lemma run_cmds_Nil [simp]: "run_cmds fs n [] s = Inr ([], s)"
  by (simp add: run_cmds_def)

lemma run_cmds_snoc:
  "run_cmds fs n (cs @ [c]) s = rbind (run_cmds fs n cs s) (\<lambda>(o1, s1).
     rbind (handle_cmd fs n c s1) (\<lambda>(o2, s2). Inr (o1 @ o2, s2)))"
  by (simp add: run_cmds_def rfold_append case_prod_unfold)

lemma run_cmds_reach:
  assumes "run_cmds fs n cs s0 = Inr (o1, s)" "\<forall>c \<in> set cs. c_cycle c \<noteq> NaN"
  shows "bridge_reach fs n s0 s"
  using assms
proof (induction cs arbitrary: o1 s rule: rev_induct)
  case (snoc c cs)
  then obtain o2 s1 o3 where "run_cmds fs n cs s0 = Inr (o2, s1)" "handle_cmd fs n c s1 = Inr (o3, s)"
    by (auto simp: run_cmds_snoc res_simps)
  then show ?case using snoc by (auto intro: bridge_reach.handled)
qed (simp add: bridge_reach.start)

section \<open>Transfers\<close>

definition plain_write :: "sync_cmd \<Rightarrow> bool" where
  "plain_write c \<longleftrightarrow> c_type c = SC_WRITE \<and> c_desc c AND SPD_BARRIER = 0 \<and> c_desc c AND SPD_LOCK = 0 \<and>
     c_desc c AND SPD_UNLOCK = 0"

definition is_read :: "sync_cmd \<Rightarrow> bool" where "is_read c \<longleftrightarrow> c_type c = SC_READ"

definition waiting_reads :: "sync_cmd \<Rightarrow> sync_struct \<Rightarrow> sync_cmd list" where
  "waiting_reads k s = filter (comm_match k) (pend_list (co_read (ss_comm s)) (c_dst k))"

definition waiting_writes :: "sync_cmd \<Rightarrow> sync_struct \<Rightarrow> sync_cmd list" where
  "waiting_writes k s = filter (comm_match k) (pend_list (co_write (ss_comm s)) (c_dst k))"

lemma filter_remove_same: "filter P (remove_first P l) = tl (filter P l)"
  by (induction l) auto

lemma filter_remove_other: "(\<And>x. Q x \<Longrightarrow> \<not> P x) \<Longrightarrow> filter P (remove_first Q l) = filter P l"
  by (induction l) auto

lemma comm_match_class:
  "comm_match k c \<Longrightarrow> comm_match c = comm_match k"
  "comm_match k c \<Longrightarrow> c_dst c = c_dst k"
  "\<not> comm_match k c \<Longrightarrow> comm_match c x \<Longrightarrow> \<not> comm_match k x"
  by (auto simp: comm_match_def fun_eq_iff)

lemma read_comm:
  assumes "handle_cmd fs n c s = Inr (o1, s')" "is_read c"
  shows "ss_comm s' = (if hasMatchWrite c (ss_comm s) then snd (popMatchWrite c (ss_comm s))
                       else insertRead c (snd (popMatchWrite c (ss_comm s))))"
proof -
  have "handle_read_cmd n c s = Inr (o1, s')"
    using assms by (simp add: handle_cmd_def is_read_def check_order_def)
  then show ?thesis by (auto simp: handle_read_cmd_def Let_def res_simps split: if_splits)
qed

lemma write_comm:
  assumes "handle_cmd fs n c s = Inr (o1, s')" "plain_write c"
  shows "ss_comm s' = (if hasMatchRead c (ss_comm s) then snd (popMatchRead c (ss_comm s))
                       else insertWrite c (snd (popMatchRead c (ss_comm s))))"
proof -
  have "handle_plain_write_cmd n c s = Inr (o1, s')"
    using assms by (simp add: handle_cmd_def plain_write_def check_order_def handle_write_cmd_def)
  then show ?thesis by (auto simp: handle_plain_write_cmd_def Let_def res_simps split: if_splits)
qed

lemma has_waiting:
  assumes "comm_match k c"
  shows "hasMatchWrite c (ss_comm s) \<longleftrightarrow> waiting_writes k s \<noteq> []"
    and "hasMatchRead c (ss_comm s) \<longleftrightarrow> waiting_reads k s \<noteq> []"
  using comm_match_class(1,2)[OF assms]
  by (simp_all add: waiting_writes_def waiting_reads_def comm.l.has_iff comm.r.has_iff
      filter_empty_conv list_ex_iff)

text \<open>One READ, seen from the transfers of one kind \<open>k\<close>.\<close>

lemma read_step:
  assumes "handle_cmd fs n c s = Inr (o1, s')" "is_read c"
  shows "waiting_writes k s' = (if comm_match k c then tl (waiting_writes k s) else waiting_writes k s)"
    and "waiting_reads k s' = (if comm_match k c \<and> waiting_writes k s = [] then waiting_reads k s @ [c] else waiting_reads k s)"
proof -
  have w: "co_write (ss_comm s') = co_write (snd (popMatchWrite c (ss_comm s)))"
    using read_comm[OF assms] by (auto simp: comm_ops case_prod_beta)
  have r: "pend_list (co_read (ss_comm s')) a = (if \<not> hasMatchWrite c (ss_comm s) \<and> a = c_dst c
      then pend_list (co_read (ss_comm s)) a @ [c] else pend_list (co_read (ss_comm s)) a)" for a
    using read_comm[OF assms] comm.r.other_pop[of c "ss_comm s"] by (auto simp: comm.l.at_ins fun_eq_iff)
  show "waiting_writes k s' = (if comm_match k c then tl (waiting_writes k s) else waiting_writes k s)"
  proof (cases "comm_match k c")
    case True
    then show ?thesis using comm_match_class(1,2)[OF True]
      by (simp add: waiting_writes_def w comm.r.at_pop filter_remove_same)
  next
    case False
    have "filter (comm_match k) (remove_first (comm_match c) l) = filter (comm_match k) l" for l
      using comm_match_class(3)[OF False] by (rule filter_remove_other)
    then show ?thesis using False by (simp add: waiting_writes_def w comm.r.at_pop)
  qed
  show "waiting_reads k s' = (if comm_match k c \<and> waiting_writes k s = [] then waiting_reads k s @ [c] else waiting_reads k s)"
    using has_waiting(1)[of k c s] comm_match_class(2)[of k c] by (auto simp: waiting_reads_def r)
qed

lemma write_step:
  assumes "handle_cmd fs n c s = Inr (o1, s')" "plain_write c"
  shows "waiting_reads k s' = (if comm_match k c then tl (waiting_reads k s) else waiting_reads k s)"
    and "waiting_writes k s' = (if comm_match k c \<and> waiting_reads k s = [] then waiting_writes k s @ [c] else waiting_writes k s)"
proof -
  have w: "co_read (ss_comm s') = co_read (snd (popMatchRead c (ss_comm s)))"
    using write_comm[OF assms] by (auto simp: comm_ops case_prod_beta)
  have r: "pend_list (co_write (ss_comm s')) a = (if \<not> hasMatchRead c (ss_comm s) \<and> a = c_dst c
      then pend_list (co_write (ss_comm s)) a @ [c] else pend_list (co_write (ss_comm s)) a)" for a
    using write_comm[OF assms] comm.l.other_pop[of c "ss_comm s"] by (auto simp: comm.r.at_ins fun_eq_iff)
  show "waiting_reads k s' = (if comm_match k c then tl (waiting_reads k s) else waiting_reads k s)"
  proof (cases "comm_match k c")
    case True
    then show ?thesis using comm_match_class(1,2)[OF True]
      by (simp add: waiting_reads_def w comm.l.at_pop filter_remove_same)
  next
    case False
    have "filter (comm_match k) (remove_first (comm_match c) l) = filter (comm_match k) l" for l
      using comm_match_class(3)[OF False] by (rule filter_remove_other)
    then show ?thesis using False by (simp add: waiting_reads_def w comm.l.at_pop)
  qed
  show "waiting_writes k s' = (if comm_match k c \<and> waiting_reads k s = [] then waiting_writes k s @ [c] else waiting_writes k s)"
    using has_waiting(2)[of k c s] comm_match_class(2)[of k c] by (auto simp: waiting_writes_def r)
qed

lemma transfers_fifo:
  fixes k :: sync_cmd
  assumes "run_cmds fs n cs s0 = Inr (o1, s)" "\<forall>c \<in> set cs. is_read c \<or> plain_write c" "ss_comm s0 = co_new"
  defines "R \<equiv> filter (\<lambda>c. is_read c \<and> comm_match k c) cs" and "W \<equiv> filter (\<lambda>c. plain_write c \<and> comm_match k c) cs"
  shows "waiting_reads k s = drop (length W) R \<and> waiting_writes k s = drop (length R) W"
  using assms(1,2) unfolding R_def W_def
proof (induction cs arbitrary: o1 s rule: rev_induct)
  case Nil
  then show ?case using assms(3) by (simp add: waiting_reads_def waiting_writes_def co_new_def pend_list_def)
next
  case (snoc c cs)
  then obtain o2 s1 o3 where run: "run_cmds fs n cs s0 = Inr (o2, s1)" "handle_cmd fs n c s1 = Inr (o3, s)"
    by (auto simp: run_cmds_snoc res_simps)
  note IH = snoc.IH[OF run(1)]
  have excl: "\<not> (is_read c \<and> plain_write c)" by (simp add: is_read_def plain_write_def)
  show ?case
  proof (cases "is_read c")
    case True
    then show ?thesis using IH read_step[OF run(2) True, of k] excl snoc.prems(2) by (auto simp: drop_Suc tl_drop)
  next
    case False
    then have "plain_write c" using snoc.prems(2) by simp
    then show ?thesis using IH write_step[OF run(2), of k] False snoc.prems(2) by (auto simp: drop_Suc tl_drop)
  qed
qed

section \<open>Barriers\<close>

lemma barrier_handled:
  "c_type c = SC_BARRIER \<Longrightarrow> handle_cmd fs n c s = Inr (handle_barrier_cmd c (check_order c s)) \<and>
   ss_barrier (check_order c s) = ss_barrier s"
  by (simp add: handle_cmd_def check_order_def Let_def)

lemma to_size_id: "0 \<le> n \<Longrightarrow> n \<le> INT_MAX \<Longrightarrow> to_size n = n"
  by (simp add: to_size_def INT_MAX_def ULL_MAX_def)

lemma barrier_arrival:
  assumes "c_type c = SC_BARRIER" "uid_of c = u" "0 < c_nbytes c" "c_nbytes c \<le> INT_MAX" "bar_inv (ss_barrier s)"
  shows "\<exists>s'. handle_cmd fs n c s =
      Inr (if c_nbytes c \<le> int (Suc (length (barrierCmd u (ss_barrier s))))
           then map (\<lambda>i. (c_stdin_fd i, sendResultCmd)) (barrierCmd u (ss_barrier s) @ [c]) else [], s') \<and>
    bar_inv (ss_barrier s') \<and>
    barrierCmd u (ss_barrier s') = (if c_nbytes c \<le> int (Suc (length (barrierCmd u (ss_barrier s)))) then []
                                    else barrierCmd u (ss_barrier s) @ [c])"
proof -
  note cmds = insertBarrier_cmds[OF bar_inv_count[OF assms(5)], of _ u "c_nbytes c" c]
  have t: "bar_target u (c_nbytes c) (ss_barrier s) = c_nbytes c"
    using assms(3) by (simp add: bar_target_def split: option.splits)
  have over: "bar_overflow u (insertBarrier u (c_nbytes c) c (ss_barrier s)) \<longleftrightarrow>
      c_nbytes c \<le> int (Suc (length (barrierCmd u (ss_barrier s))))"
    using assms(3,4) by (simp add: bar_overflow_insert cmds t to_size_id)
  have inv: "bar_inv (ss_barrier (snd (handle_barrier_cmd c (check_order c s))))"
    using barrier_handled[OF assms(1), of fs n s] bar_step_inv[OF assms(5)] by (simp add: handle_barrier_state)
  have b: "ss_barrier (check_order c s) = ss_barrier s" using barrier_handled[OF assms(1)] by blast
  have st: "handle_barrier_cmd c (check_order c s) =
      (if c_nbytes c \<le> int (Suc (length (barrierCmd u (ss_barrier s))))
       then map (\<lambda>i. (c_stdin_fd i, sendResultCmd)) (barrierCmd u (ss_barrier s) @ [c]) else [],
       snd (handle_barrier_cmd c (check_order c s)))"
    using over by (simp add: handle_barrier_cmd_def Let_def assms(2) b cmds)
  have q: "barrierCmd u (ss_barrier (snd (handle_barrier_cmd c (check_order c s)))) =
      (if c_nbytes c \<le> int (Suc (length (barrierCmd u (ss_barrier s)))) then [] else barrierCmd u (ss_barrier s) @ [c])"
    using over by (simp add: handle_barrier_state bar_step_def Let_def assms(2) b cmds bar_reset_cmds insertBarrier_count)
  show ?thesis
    by (rule exI[of _ "snd (handle_barrier_cmd c (check_order c s))"])
      (use barrier_handled[OF assms(1), of fs n s] st inv q in simp)
qed

lemma barrier_fills:
  assumes "\<forall>c \<in> set cs. c_type c = SC_BARRIER \<and> uid_of c = u \<and> c_nbytes c = m" "m \<le> INT_MAX"
    and "bar_inv (ss_barrier s)" "barrierCmd u (ss_barrier s) = []" "int (length cs) < m"
  shows "\<exists>s'. run_cmds fs n cs s = Inr ([], s') \<and> bar_inv (ss_barrier s') \<and> barrierCmd u (ss_barrier s') = cs"
  using assms(1,5)
proof (induction cs rule: rev_induct)
  case (snoc c cs)
  then obtain s1 where s1: "run_cmds fs n cs s = Inr ([], s1)" "bar_inv (ss_barrier s1)" "barrierCmd u (ss_barrier s1) = cs"
    by auto
  obtain s2 where "handle_cmd fs n c s1 = Inr ([], s2)" "bar_inv (ss_barrier s2)" "barrierCmd u (ss_barrier s2) = cs @ [c]"
    using barrier_arrival[of c u s1 fs n] s1(2,3) snoc.prems assms(2) by auto
  then show ?case using s1(1) by (simp add: run_cmds_snoc)
qed (use assms(3,4) in simp)

lemma barrier_run:
  assumes "\<forall>c \<in> set cs. c_type c = SC_BARRIER \<and> uid_of c = u \<and> c_nbytes c = int (length cs)"
    and "cs \<noteq> []" "int (length cs) \<le> INT_MAX" "bar_inv (ss_barrier s)" "barrierCmd u (ss_barrier s) = []"
  shows "(\<exists>s'. run_cmds fs n cs s = Inr (map (\<lambda>c. (c_stdin_fd c, sendResultCmd)) cs, s') \<and> barrierCmd u (ss_barrier s') = []) \<and>
     (\<forall>k < length cs. \<exists>s'. run_cmds fs n (take k cs) s = Inr ([], s') \<and> barrierCmd u (ss_barrier s') = take k cs)"
proof (rule conjI; (intro allI impI)?)
  obtain ds d where cs: "cs = ds @ [d]" using assms(2) by (metis rev_exhaust)
  obtain s1 where s1: "run_cmds fs n ds s = Inr ([], s1)" "bar_inv (ss_barrier s1)" "barrierCmd u (ss_barrier s1) = ds"
    using barrier_fills[of ds u "int (length cs)" s fs n] assms cs by auto
  obtain s2 where "handle_cmd fs n d s1 = Inr (map (\<lambda>i. (c_stdin_fd i, sendResultCmd)) cs, s2)" "barrierCmd u (ss_barrier s2) = []"
    using barrier_arrival[of d u s1 fs n] s1(2,3) assms(1,3) cs by auto
  then show "\<exists>s'. run_cmds fs n cs s = Inr (map (\<lambda>c. (c_stdin_fd c, sendResultCmd)) cs, s') \<and> barrierCmd u (ss_barrier s') = []"
    using s1(1) by (simp add: cs run_cmds_snoc)
next
  fix k
  assume k: "k < length cs"
  then show "\<exists>s'. run_cmds fs n (take k cs) s = Inr ([], s') \<and> barrierCmd u (ss_barrier s') = take k cs"
    using barrier_fills[of "take k cs" u "int (length cs)" s fs n] assms in_set_takeD[of _ k cs] by auto
qed

section \<open>Locks\<close>

definition no_lock_order :: "sync_struct \<Rightarrow> bool" where
  "no_lock_order s \<longleftrightarrow> (\<forall>a. \<not> hasLock a (ss_delay s))"

lemma no_lock_order_check: "no_lock_order s \<Longrightarrow> no_lock_order (check_order c s)"
  by (simp add: no_lock_order_def check_order_def hasLock_def clearDelayInfo_def dm_hasAddr_def)

lemma check_order_lock [simp]: "ss_lock (check_order c s) = ss_lock s"
  by (simp add: check_order_def)

definition lock_held :: "int \<Rightarrow> sync_cmd \<Rightarrow> sync_cmd list \<Rightarrow> sync_struct \<Rightarrow> bool" where
  "lock_held u h ws s \<longleftrightarrow> isLocked u (ss_lock s) \<and> getLastCmd u (ss_lock s) = Some h \<and> lk_pending u (ss_lock s) = ws"

lemma lock_taken:
  assumes "c_type c = SC_LOCK" "uid_of c = u" "no_lock_order s" "\<not> isLocked u (ss_lock s)" "lk_pending u (ss_lock s) = []"
  shows "\<exists>s'. handle_cmd fs n c s = Inr ([(c_stdin_fd c, sendResultCmd)], s') \<and> lock_held u c [] s' \<and> no_lock_order s'"
  using assms no_lock_order_check[OF assms(3), of c]
  by (auto simp: handle_cmd_def handle_lock_cmd_def Let_def lock_held_def lk_lock_def isLocked_def getLastCmd_def
      lk_pending_def no_lock_order_def)

lemma lock_waits:
  assumes "c_type c = SC_LOCK" "uid_of c = u" "no_lock_order s" "lock_held u h ws s" "c_src h \<noteq> c_src c"
  shows "\<exists>s'. handle_cmd fs n c s = Inr ([], s') \<and> lock_held u h (ws @ [c]) s' \<and> no_lock_order s'"
  using assms no_lock_order_check[OF assms(3), of c]
  by (auto simp: handle_cmd_def handle_lock_cmd_def Let_def lock_held_def insertLockCmd_def isLocked_def getLastCmd_def
      lk_pending_def no_lock_order_def hasLastCmd_def)

lemma lock_handed_over:
  assumes "c_type c = SC_UNLOCK" "uid_of c = u" "no_lock_order s" "lock_held u h (w # ws) s"
  shows "\<exists>s'. handle_cmd fs n c s = Inr ([(c_stdin_fd c, sendResultCmd), (c_stdin_fd w, sendResultCmd)], s') \<and>
    lock_held u w ws s' \<and> no_lock_order s'"
proof -
  let ?k = "lk_unlock u c (ss_lock s)"
  have k: "lk_pending u ?k = w # ws" "isLocked u (ss_lock s)" "\<not> isLocked u ?k"
    using assms(4) by (auto simp: lock_held_def lk_unlock_def lk_pending_def isLocked_def)
  have no: "\<not> hasLock (c_dst c) (ss_delay (check_order c s))"
    using no_lock_order_check[OF assms(3), of c] by (simp add: no_lock_order_def)
  have pop: "popLockCmd u ?k = (Some w, ?k\<lparr>lk_cmds := (lk_cmds ?k)(u \<mapsto> ws)\<rparr>)"
    by (simp add: popLockCmd_def k)
  have h: "handle_cmd fs n c s = Inr ([(c_stdin_fd c, sendResultCmd), (c_stdin_fd w, sendResultCmd)],
      (check_order c s)\<lparr>ss_lock := lk_lock u w (?k\<lparr>lk_cmds := (lk_cmds ?k)(u \<mapsto> ws)\<rparr>)\<rparr>)"
    using assms(1,2) k no by (simp add: handle_cmd_def handle_unlock_cmd_def Let_def hasLockCmd_def pop popped_def)
  show ?thesis unfolding h using k(3) no_lock_order_check[OF assms(3), of c]
    by (simp add: lock_held_def lk_lock_def isLocked_def getLastCmd_def lk_pending_def no_lock_order_def)
qed

lemma lock_freed:
  assumes "c_type c = SC_UNLOCK" "uid_of c = u" "no_lock_order s" "lock_held u h [] s"
  shows "\<exists>s'. handle_cmd fs n c s = Inr ([(c_stdin_fd c, sendResultCmd)], s') \<and> \<not> isLocked u (ss_lock s') \<and>
    lk_pending u (ss_lock s') = [] \<and> no_lock_order s'"
  using assms no_lock_order_check[OF assms(3), of c]
  by (auto simp: handle_cmd_def handle_unlock_cmd_def Let_def lock_held_def lk_unlock_def isLocked_def hasLockCmd_def
      lk_pending_def no_lock_order_def)

lemma run_cmds_append:
  "run_cmds fs n cs s = Inr (o1, s1) \<Longrightarrow> run_cmds fs n ds s1 = Inr (o2, s2) \<Longrightarrow> run_cmds fs n (cs @ ds) s = Inr (o1 @ o2, s2)"
proof (induction ds arbitrary: o2 s2 rule: rev_induct)
  case (snoc d ds)
  then obtain o3 s3 o4 where "run_cmds fs n ds s1 = Inr (o3, s3)" "handle_cmd fs n d s3 = Inr (o4, s2)" "o2 = o3 @ o4"
    by (auto simp: run_cmds_snoc res_simps)
  then show ?case using snoc.IH[of o3 s3] snoc.prems(1) by (simp add: run_cmds_snoc append_assoc[symmetric] del: append_assoc)
qed simp

lemma locks_queue:
  assumes "\<forall>c \<in> set cs. c_type c = SC_LOCK \<and> uid_of c = u \<and> c_src h \<noteq> c_src c" "no_lock_order s" "lock_held u h [] s"
  shows "\<exists>s'. run_cmds fs n cs s = Inr ([], s') \<and> lock_held u h cs s' \<and> no_lock_order s'"
  using assms(1)
proof (induction cs rule: rev_induct)
  case (snoc c cs)
  then obtain s1 where "run_cmds fs n cs s = Inr ([], s1)" "lock_held u h cs s1" "no_lock_order s1" by auto
  then show ?case using lock_waits[of c u s1 h cs fs n] snoc.prems by (auto simp: run_cmds_snoc)
qed (use assms(2,3) in simp)

lemma unlocks_serve:
  assumes "length us = length ws" "\<forall>c \<in> set us. c_type c = SC_UNLOCK \<and> uid_of c = u" "no_lock_order s" "lock_held u h (ws @ rest) s"
  shows "\<exists>s'. run_cmds fs n us s =
      Inr (concat (map (\<lambda>(x, w). [(c_stdin_fd x, sendResultCmd), (c_stdin_fd w, sendResultCmd)]) (zip us ws)), s') \<and>
    lock_held u (last (h # ws)) rest s' \<and> no_lock_order s'"
  using assms(1,2,4)
proof (induction us ws arbitrary: rest rule: rev_induct2)
  case (4 x us w ws)
  then obtain s1 where s1: "run_cmds fs n us s =
      Inr (concat (map (\<lambda>(x, w). [(c_stdin_fd x, sendResultCmd), (c_stdin_fd w, sendResultCmd)]) (zip us ws)), s1)"
    "lock_held u (last (h # ws)) (w # rest) s1" "no_lock_order s1" by fastforce
  show ?case using lock_handed_over[OF _ _ s1(3,2), of x fs n] s1(1) 4(2,3) by (auto simp: run_cmds_snoc)
qed (use assms(3) in auto)

end
