(* ===== verification/BridgeLoop.thy ===== *)
theory BridgeLoop
  imports BridgeProps
begin

text \<open>
  Launches in a run without launch order, what an UNLOCK from another source and a short delay list
  do, and the outer loop of the bridge: rounds of phase one and phase two until the simulated cycle
  converges.
\<close>

section \<open>Launches\<close>

definition no_launch_order :: "sync_struct \<Rightarrow> bool" where
  "no_launch_order s \<longleftrightarrow> (\<forall>a. \<not> hasLaunch a (ss_delay s))"

definition launch_sep :: "launch_struct \<Rightarrow> bool" where
  "launch_sep s \<longleftrightarrow> (\<forall>a. \<forall>x \<in> set (pend_list (la_launch s) a). \<forall>y \<in> set (pend_list (la_wait s) a). \<not> launch_match x y)"

lemma launch_sep_launch:
  "launch_sep s \<Longrightarrow> \<not> hasMatchWaitlaunch c s \<Longrightarrow> launch_sep (insertLaunch c (snd (popMatchWaitlaunch c s)))"
  "launch_sep s \<Longrightarrow> launch_sep (snd (popMatchWaitlaunch c s))"
  unfolding launch_sep_def by (rule launch.left_waits_alone) (assumption+, rule launch.left_takes)

lemma launch_sep_wait:
  "launch_sep s \<Longrightarrow> \<not> hasMatchLaunch c s \<Longrightarrow> launch_sep (insertWaitlaunch c (snd (popMatchLaunch c s)))"
  "launch_sep s \<Longrightarrow> launch_sep (snd (popMatchLaunch c s))"
  unfolding launch_sep_def by (rule launch.right_waits_alone) (assumption+, rule launch.right_takes)

lemma getEndCycle_orders:
  "getEndCycle w r ds = Inr (p, ds') \<Longrightarrow> ds_launch ds' = ds_launch ds \<and> ds_lock ds' = ds_lock ds"
  by (auto simp: getEndCycle_def res_simps split: if_splits)

lemma barrier_answers_orders:
  assumes "barrier_answers sc items ds = Inr (o1, ds')"
  shows "ds_launch ds' = ds_launch ds"
proof -
  have "ds_launch (snd (o1, ds')) = ds_launch ds"
    using assms unfolding barrier_answers_def
    by (rule rfold_invariant) (auto simp: res_simps dest!: getEndCycle_orders)
  then show ?thesis by simp
qed

lemma no_launch_check: "no_launch_order s \<Longrightarrow> no_launch_order (check_order c s)"
  by (simp add: no_launch_order_def check_order_def hasLaunch_def clearDelayInfo_def dm_hasAddr_def)

lemma check_order_launch [simp]: "ss_launch (check_order c s) = ss_launch s"
  by (simp add: check_order_def)

lemma handle_launch_sep:
  assumes "handle_launch_cmd c s = Inr (o1, s')" "launch_sep (ss_launch s)" "no_launch_order s"
  shows "launch_sep (ss_launch s') \<and> no_launch_order s'"
proof (cases "hasMatchWaitlaunch c (ss_launch s)")
  case False
  then show ?thesis using assms launch_sep_launch(1)[OF assms(2) False]
    by (auto simp: handle_launch_cmd_def Let_def no_launch_order_def)
next
  case True
  then obtain w la where "popMatchWaitlaunch c (ss_launch s) = (Some w, la)"
    "s' = s\<lparr>ss_launch := la, ss_delay := popLaunch (c_dst c) (ss_delay s)\<rparr>"
    using assms by (auto simp: handle_launch_cmd_def Let_def no_launch_order_def res_simps)
  then show ?thesis using launch_sep_launch(2)[OF assms(2), of c] assms(3)
    by (auto simp: no_launch_order_def hasLaunch_def popLaunch_def dm_pop_def dm_hasAddr_def split: option.splits)
qed

lemma handle_waitlaunch_sep:
  assumes "handle_waitlaunch_cmd c s = Inr (o1, s')" "launch_sep (ss_launch s)" "no_launch_order s"
  shows "launch_sep (ss_launch s') \<and> no_launch_order s'"
proof (cases "hasMatchLaunch c (ss_launch s)")
  case False
  then show ?thesis using assms launch_sep_wait(1)[OF assms(2) False]
    by (auto simp: handle_waitlaunch_cmd_def Let_def no_launch_order_def)
next
  case True
  then obtain l la where "popMatchLaunch c (ss_launch s) = (Some l, la)"
    "s' = s\<lparr>ss_launch := la, ss_delay := popLaunch (c_dst c) (ss_delay s)\<rparr>"
    using assms by (auto simp: handle_waitlaunch_cmd_def Let_def no_launch_order_def res_simps)
  then show ?thesis using launch_sep_wait(2)[OF assms(2), of c] assms(3)
    by (auto simp: no_launch_order_def hasLaunch_def popLaunch_def dm_pop_def dm_hasAddr_def split: option.splits)
qed

text \<open>No other handler touches the launches or their order.\<close>

definition same_launches :: "sync_struct \<Rightarrow> sync_struct \<Rightarrow> bool" where
  "same_launches s s' \<longleftrightarrow> ss_launch s' = ss_launch s \<and> ds_launch (ss_delay s') = ds_launch (ss_delay s)"

lemma record_write_launches: "record_write n c s = Inr s' \<Longrightarrow> same_launches s s'"
  by (auto simp: record_write_def same_launches_def res_simps)

lemma handle_barrier_write_launches: "handle_barrier_write_cmd n c s0 = Inr (o1, s') \<Longrightarrow> same_launches s0 s'"
  by (auto simp: handle_barrier_write_cmd_def Let_def res_simps same_launches_def barrier_answers_orders
      dest!: record_write_launches split: if_splits)

lemma handle_lock_write_launches: "handle_lock_write_cmd n c s0 = Inr (o1, s') \<Longrightarrow> same_launches s0 s'"
  by (auto simp: handle_lock_write_cmd_def Let_def res_simps same_launches_def
      dest!: record_write_launches getEndCycle_orders split: if_splits)

lemma handle_unlock_write_launches: "handle_unlock_write_cmd n c s0 = Inr (o1, s') \<Longrightarrow> same_launches s0 s'"
  by (auto simp: handle_unlock_write_cmd_def Let_def res_simps same_launches_def
      dest!: record_write_launches getEndCycle_orders split: if_splits)

lemma handle_plain_write_launches: "handle_plain_write_cmd n c s = Inr (o1, s') \<Longrightarrow> same_launches s s'"
  by (auto simp: handle_plain_write_cmd_def Let_def res_simps same_launches_def
      dest!: getEndCycle_orders split: if_splits)

lemma handle_read_launches: "handle_read_cmd n c s = Inr (o1, s') \<Longrightarrow> same_launches s s'"
  by (auto simp: handle_read_cmd_def Let_def res_simps same_launches_def
      dest!: getEndCycle_orders split: if_splits)

lemma handle_write_launches: "handle_write_cmd n c s = Inr (o1, s') \<Longrightarrow> same_launches s s'"
  by (auto simp: handle_write_cmd_def handle_barrier_write_launches handle_lock_write_launches
      handle_unlock_write_launches handle_plain_write_launches split: if_splits)

lemma handle_unlock_launches: "handle_unlock_cmd c s = Inr (o1, s') \<Longrightarrow> same_launches s s'"
  by (auto simp: handle_unlock_cmd_def Let_def res_simps same_launches_def popLock_def split: if_splits)

lemma handle_total_launches:
  "same_launches s (snd (handle_cycle_cmd c s))" "same_launches s (snd (handle_pipe_cmd fs c s))"
  "same_launches s (snd (handle_barrier_cmd c s))" "same_launches s (snd (handle_lock_cmd c s))"
  by (simp_all add: same_launches_def handle_cycle_cmd_def handle_pipe_cmd_def handle_barrier_cmd_def
      handle_lock_cmd_def popLock_def Let_def)

lemma same_launches_keep:
  "same_launches s s' \<Longrightarrow> launch_sep (ss_launch s) \<Longrightarrow> no_launch_order s \<Longrightarrow> launch_sep (ss_launch s') \<and> no_launch_order s'"
  by (simp add: same_launches_def no_launch_order_def hasLaunch_def)

lemma handle_cmd_launches:
  assumes "handle_cmd fs n c s0 = Inr (o1, s')" "c_type c \<notin> {SC_LAUNCH, SC_WAITLAUNCH}"
  shows "same_launches (check_order c s0) s'"
proof -
  have total: "Inr r = Inr (o1, s') \<Longrightarrow> same_launches s (snd r) \<Longrightarrow> same_launches s s'" for r :: "outs \<times> sync_struct" and s
    by auto
  show ?thesis using assms
    by (cases "c_type c")
      (auto simp: handle_cmd_def Let_def same_launches_def[of _ "check_order c s0"] intro: handle_unlock_launches
        handle_read_launches handle_write_launches total[OF _ handle_total_launches(1)] total[OF _ handle_total_launches(2)]
        total[OF _ handle_total_launches(3)] total[OF _ handle_total_launches(4)])
qed

lemma handle_cmd_sep:
  assumes "handle_cmd fs n c s0 = Inr (o1, s')" "launch_sep (ss_launch s0)" "no_launch_order s0"
  shows "launch_sep (ss_launch s') \<and> no_launch_order s'"
proof -
  have s: "launch_sep (ss_launch (check_order c s0))" "no_launch_order (check_order c s0)"
    using assms(2,3) no_launch_check by simp_all
  consider "c_type c = SC_LAUNCH" | "c_type c = SC_WAITLAUNCH" | "c_type c \<notin> {SC_LAUNCH, SC_WAITLAUNCH}" by auto
  then show ?thesis
  proof cases
    case 1
    then show ?thesis using assms(1) handle_launch_sep[OF _ s] by (simp add: handle_cmd_def Let_def)
  next
    case 2
    then show ?thesis using assms(1) handle_waitlaunch_sep[OF _ s] by (simp add: handle_cmd_def Let_def)
  next
    case 3
    then show ?thesis using same_launches_keep[OF handle_cmd_launches[OF assms(1)] s] by blast
  qed
qed

lemma reach_launch_sep:
  "bridge_reach fs n s0 s \<Longrightarrow> launch_sep (ss_launch s0) \<Longrightarrow> no_launch_order s0 \<Longrightarrow>
   launch_sep (ss_launch s) \<and> no_launch_order s"
  by (induction rule: bridge_reach.induct) (auto dest: handle_cmd_sep)

section \<open>Rounds\<close>

definition err_rate :: "fl \<Rightarrow> fl \<Rightarrow> fl" where
  "err_rate now before = (let e = fl_div 53 (fl_sub 53 now before) now in if fl_less e (Fin 0) then fl_neg e else e)"

text \<open>The loop of \<open>main\<close>: \<open>round_cycle r\<close> is what phase one of round \<open>r\<close> returns.  The result is the
  final cycle and the last round that ran.\<close>

function rounds :: "(int \<Rightarrow> fl) \<Rightarrow> fl \<Rightarrow> int \<Rightarrow> int \<Rightarrow> fl \<Rightarrow> fl \<times> int" where
  "rounds round_cycle threshold timeout r sim =
     (if r \<le> timeout then
        let c = round_cycle r in
        if r > 1 \<and> fl_less (err_rate c sim) threshold then (c, r)
        else rounds round_cycle threshold timeout (r + 1) c
      else (sim, r - 1))"
  by pat_completeness auto
termination by (relation "measure (\<lambda>(_, _, timeout, r, _). nat (timeout + 1 - r))") auto

declare rounds.simps [simp del]

definition simulate :: "(int \<Rightarrow> fl) \<Rightarrow> fl \<Rightarrow> int \<Rightarrow> fl \<times> int" where
  "simulate round_cycle threshold timeout = rounds round_cycle threshold timeout 1 (Fin 0)"

lemma rounds_result:
  assumes "rounds rc th timeout r sim = (c, k)" "1 \<le> r" "r \<le> timeout" "1 < r \<longrightarrow> sim = rc (r - 1)"
  shows "r \<le> k \<and> k \<le> timeout \<and> c = rc k \<and>
    (k < timeout \<longrightarrow> 1 < k \<and> fl_less (err_rate (rc k) (rc (k - 1))) th) \<and>
    (\<forall>j. r \<le> j \<and> 1 < j \<and> j < k \<longrightarrow> \<not> fl_less (err_rate (rc j) (rc (j - 1))) th)"
  using assms
proof (induction rc th timeout r sim rule: rounds.induct)
  case (1 rc th timeout r sim)
  show ?case
  proof (cases "r > 1 \<and> fl_less (err_rate (rc r) sim) th")
    case True
    then show ?thesis using 1(2,4,5) by (subst (asm) rounds.simps) auto
  next
    case False
    then have run: "rounds rc th timeout (r + 1) (rc r) = (c, k)" using 1(2,4) by (subst (asm) rounds.simps) (auto simp: Let_def)
    show ?thesis
    proof (cases "r + 1 \<le> timeout")
      case True
      have "r + 1 \<le> k \<and> k \<le> timeout \<and> c = rc k \<and>
        (k < timeout \<longrightarrow> 1 < k \<and> fl_less (err_rate (rc k) (rc (k - 1))) th) \<and>
        (\<forall>j. r + 1 \<le> j \<and> 1 < j \<and> j < k \<longrightarrow> \<not> fl_less (err_rate (rc j) (rc (j - 1))) th)"
        using 1(1)[OF 1(4) refl False run] 1(3) True by simp
      moreover have "\<not> fl_less (err_rate (rc r) (rc (r - 1))) th" if "1 < r" using False 1(5) that by simp
      ultimately show ?thesis by (metis add1_zle_eq order_le_less)
    next
      case last: False
      then have "c = rc r \<and> k = r" using run by (subst (asm) rounds.simps) auto
      then show ?thesis using last 1(4) by auto
    qed
  qed
qed

end
