(* ===== verification/BridgeDemo.thy ===== *)
theory BridgeDemo
  imports BridgeLoop
begin

text \<open>
  Small concrete commands and runs of the bridge, used by the witnesses: a READ and a WRITE between
  two nodes, a barrier of two, three sources on one mutex.
\<close>

definition demo_fs :: file_sys where
  "demo_fs = \<lparr>fs_exists = (\<lambda>_. False), fs_mkfifo = (\<lambda>_. True)\<rparr>"

definition demo_cmd :: "sync_type \<Rightarrow> int \<Rightarrow> int \<Rightarrow> int \<Rightarrow> int \<Rightarrow> sync_cmd" where
  "demo_cmd t src dst nbytes fd = \<lparr>c_type = t, c_cycle = Fin 4, c_clock_rate = Fin 1, c_src = [src, 0],
     c_dst = [dst, 0], c_nbytes = nbytes, c_desc = 0, c_res_list = [], c_stdin_fd = fd\<rparr>"

lemma demo_cmd_sel [simp]:
  "c_type (demo_cmd t a b k fd) = t" "c_cycle (demo_cmd t a b k fd) = Fin 4" "c_src (demo_cmd t a b k fd) = [a, 0]"
  "c_dst (demo_cmd t a b k fd) = [b, 0]" "c_nbytes (demo_cmd t a b k fd) = k" "c_stdin_fd (demo_cmd t a b k fd) = fd"
  "c_desc (demo_cmd t a b k fd) = 0"
  by (simp_all add: demo_cmd_def)

lemma demo_cycle [simp]: "rnd 53 4 = 4"
  using rnd_nat_exact[of 4 53] by simp

lemma demo_uid [simp]: "uid_of (demo_cmd t a 1 k fd) = 1"
  by (simp add: uid_of_def to_int32_def)

definition out_of :: "(outs \<times> sync_struct) res \<Rightarrow> outs option" where
  "out_of r = (case r of Inl _ \<Rightarrow> None | Inr (o1, _) \<Rightarrow> Some o1)"

lemma out_of_Some: "out_of r = Some o1 \<longleftrightarrow> (\<exists>s. r = Inr (o1, s))"
  by (auto simp: out_of_def split: sum.splits)

text \<open>A WRITE that waits, and the READ it answers: both processes get the end cycle.\<close>

lemma demo_transfer:
  "out_of (run_cmds demo_fs 1 [demo_cmd SC_WRITE 0 1 16 7, demo_cmd SC_READ 0 1 16 8] ss_new) =
     Some [(8, sendSyncCmd_desc 7 0), (7, sendSyncCmd_desc 7 0)]"
  by code_simp

lemma demo_wait: "out_of (run_cmds demo_fs 1 [demo_cmd SC_WRITE 0 1 16 7, demo_cmd SC_WRITE 0 1 16 7, demo_cmd SC_READ 0 1 16 8] ss_new) \<noteq> None"
  by code_simp

lemma ss_new_delay: "ss_new = ss_new\<lparr>ss_delay := ds_new\<rparr>"
  by (simp add: ss_new_def)

lemma demo_reach: "\<exists>s. bridge_reach demo_fs 1 ss_new s \<and> waiting_writes (demo_cmd SC_WRITE 0 1 16 7) s \<noteq> []"
proof -
  obtain o1 s where run: "run_cmds demo_fs 1 [demo_cmd SC_WRITE 0 1 16 7] ss_new = Inr (o1, s)"
    and w: "waiting_writes (demo_cmd SC_WRITE 0 1 16 7) s \<noteq> []"
  proof -
    have "case run_cmds demo_fs 1 [demo_cmd SC_WRITE 0 1 16 7] ss_new of Inl _ \<Rightarrow> False
        | Inr (o1, s) \<Rightarrow> waiting_writes (demo_cmd SC_WRITE 0 1 16 7) s \<noteq> []" by code_simp
    then show ?thesis using that by (auto split: sum.splits)
  qed
  show ?thesis using run_cmds_reach[OF run] w by auto
qed

lemma demo_no_order: "no_lock_order ss_new" "no_launch_order ss_new"
  by (simp_all add: no_lock_order_def no_launch_order_def hasLock_def hasLaunch_def dm_hasAddr_def ss_new_def ds_new_def)

text \<open>A delay file of one packet from node 0 to node 1 of a mesh of width 2.\<close>

definition demo_delay_text :: string where
  "demo_delay_text = ''4 0 1 0 2 3 5''"

lemma demo_load:
  "\<exists>ds ds'. loadDelayInfo (Some demo_delay_text) (Fin 1) 2 ds_new = Inr ds \<and>
     getEndCycle (demo_cmd SC_WRITE 0 1 16 7) (demo_cmd SC_READ 0 1 16 8) ds = Inr ((Fin 7, Fin 9), ds')"
proof -
  have "case loadDelayInfo (Some demo_delay_text) (Fin 1) 2 ds_new of Inl _ \<Rightarrow> False
     | Inr ds \<Rightarrow> (case getEndCycle (demo_cmd SC_WRITE 0 1 16 7) (demo_cmd SC_READ 0 1 16 8) ds of
         Inl _ \<Rightarrow> False | Inr (p, _) \<Rightarrow> p = (Fin 7, Fin 9))"
    by code_simp
  then show ?thesis by (auto split: sum.splits)
qed

text \<open>A LOCK write between nodes whose delay item has only the two delays of a plain transfer.\<close>

lemma demo_short_delay:
  "\<exists>ds. loadDelayInfo (Some demo_delay_text) (Fin 1) 2 ds_new = Inr ds \<and>
     getEndCycle ((demo_cmd SC_WRITE 0 1 16 7)\<lparr>c_desc := SPD_LOCK\<rparr>) (demo_cmd SC_READ 0 1 16 8) ds =
       Inl (Undefined ''vector index'')"
proof -
  have "case loadDelayInfo (Some demo_delay_text) (Fin 1) 2 ds_new of Inl _ \<Rightarrow> False
     | Inr ds \<Rightarrow> (case getEndCycle ((demo_cmd SC_WRITE 0 1 16 7)\<lparr>c_desc := SPD_LOCK\<rparr>) (demo_cmd SC_READ 0 1 16 8) ds of
         Inl e \<Rightarrow> e = Undefined ''vector index'' | Inr _ \<Rightarrow> False)"
    by code_simp
  then show ?thesis by (auto split: sum.splits)
qed

end
