(* ===== verification/PipeComm.thy ===== *)
theory PipeComm
  imports Prelude
begin

text \<open>
  \<open>includes/pipe_comm.h\<close>: data through a FIFO.  The reader keeps a buffer of 4096 bytes between calls;
  the operating system may deliver any number of bytes per \<open>read\<close>, which the list of grants fixes: a
  read returns at most that many of the bytes written so far, 0 at the end of the file, and a negative
  value on an error (\<open>None\<close>).
\<close>

section \<open>The reader\<close>

definition PIPE_COMMON_UNIT_CAPACITY :: nat where "PIPE_COMMON_UNIT_CAPACITY = 4096"

text \<open>\<open>mp_buf\<close> from \<open>m_read_ptr\<close> on, and \<open>m_read_ptr\<close>; \<open>m_size\<close> is their sum.\<close>

record 'b pipe_unit =
  pu_data :: "'b list"
  pu_readPtr :: nat

definition pipe_unit_new :: "'b pipe_unit" where
  "pipe_unit_new = \<lparr>pu_data = [], pu_readPtr = 0\<rparr>"

record 'b pipe_in =
  pi_bytes :: "'b list"
  pi_grants :: "nat option list"

text \<open>\<open>read(fd, buf, cap)\<close>.  No grant left: the call blocks.\<close>

definition os_read :: "nat \<Rightarrow> 'b pipe_in \<Rightarrow> ('b list option \<times> 'b pipe_in) res" where
  "os_read cap s = (case pi_grants s of
     [] \<Rightarrow> Inl (NoReturn ''read'')
   | None # gs \<Rightarrow> Inr (None, s\<lparr>pi_grants := gs\<rparr>)
   | Some g # gs \<Rightarrow> Inr (Some (take (min g cap) (pi_bytes s)), s\<lparr>pi_grants := gs, pi_bytes := drop (min g cap) (pi_bytes s)\<rparr>))"

text \<open>\<open>read_data_iter\<close>: \<open>None\<close> is a negative result; one loop iteration per grant.\<close>

definition compact :: "'b pipe_unit \<Rightarrow> 'b pipe_unit" where
  "compact u = (if pu_readPtr u > 0 then u\<lparr>pu_readPtr := 0\<rparr> else u)"

fun read_iter :: "nat \<Rightarrow> nat \<Rightarrow> 'b pipe_unit \<Rightarrow> 'b pipe_in \<Rightarrow> ('b list option \<times> 'b pipe_unit \<times> 'b pipe_in) res" where
  "read_iter fuel n u s =
     (if n \<le> length (pu_data u) then
        Inr (Some (take n (pu_data u)), \<lparr>pu_data = drop n (pu_data u), pu_readPtr = pu_readPtr u + n\<rparr>, s)
      else case fuel of 0 \<Rightarrow> Inl (NoReturn ''read'')
      | Suc m \<Rightarrow>
        let u = compact u in
        rbind (os_read (PIPE_COMMON_UNIT_CAPACITY - (pu_readPtr u + length (pu_data u))) s) (\<lambda>(got, s).
        case got of
          None \<Rightarrow> Inr (None, u, s)
        | Some bs \<Rightarrow> if bs = [] then Inr (Some [], u, s) else read_iter m n (u\<lparr>pu_data := pu_data u @ bs\<rparr>) s))"

declare read_iter.simps [simp del]

text \<open>\<open>read_data\<close>: pieces of at most the capacity.\<close>

function read_data :: "nat \<Rightarrow> 'b pipe_unit \<Rightarrow> 'b pipe_in \<Rightarrow> 'b list \<Rightarrow> ('b list \<times> 'b pipe_unit \<times> 'b pipe_in) res" where
  "read_data n u s acc =
     (if length acc < n then
        rbind (read_iter (length (pi_grants s)) (min PIPE_COMMON_UNIT_CAPACITY (n - length acc)) u s) (\<lambda>(got, u, s).
        case got of
          None \<Rightarrow> Inr (acc, u, s)
        | Some bs \<Rightarrow> if bs = [] then Inr (acc, u, s) else read_data n u s (acc @ bs))
      else Inr (acc, u, s))"
  by pat_completeness auto
termination
  by (relation "measure (\<lambda>(n, u, s, acc). n - length acc)") (auto simp: neq_Nil_conv)

declare read_data.simps [simp del]

section \<open>The writer\<close>

text \<open>\<open>write_data\<close>: the grants are the numbers of bytes the system takes; the result is what was written.\<close>

fun write_data :: "'b list \<Rightarrow> nat option list \<Rightarrow> 'b list \<Rightarrow> ('b list \<times> nat option list) res" where
  "write_data bs gs out =
     (if bs = [] then Inr (out, gs)
      else case gs of
        [] \<Rightarrow> Inl (NoReturn ''write'')
      | None # gs \<Rightarrow> Inr (out, gs)
      | Some g # gs \<Rightarrow>
          let k = min g (min PIPE_COMMON_UNIT_CAPACITY (length bs)) in
          if k = 0 then Inr (out, gs) else write_data (drop k bs) gs (out @ take k bs))"

declare write_data.simps [simp del]

section \<open>The reader delivers the bytes in order\<close>

definition unit_ok :: "'b pipe_unit \<Rightarrow> bool" where
  "unit_ok u \<longleftrightarrow> pu_readPtr u + length (pu_data u) \<le> PIPE_COMMON_UNIT_CAPACITY"

definition pending :: "'b pipe_unit \<Rightarrow> 'b pipe_in \<Rightarrow> 'b list" where
  "pending u s = pu_data u @ pi_bytes s"

definition steady :: "nat option list \<Rightarrow> bool" where
  "steady gs \<longleftrightarrow> (\<forall>g \<in> set gs. \<exists>k. g = Some k \<and> 0 < k)"

lemma read_iter_ok:
  assumes "unit_ok u" "n \<le> PIPE_COMMON_UNIT_CAPACITY" "steady (pi_grants s)" "n \<le> length (pending u s)"
    "n \<le> length (pi_grants s) + length (pu_data u)" "fuel = length (pi_grants s)"
  shows "\<exists>u' s'. read_iter fuel n u s = Inr (Some (take n (pending u s)), u', s') \<and> unit_ok u' \<and>
    pending u' s' = drop n (pending u s) \<and> steady (pi_grants s') \<and>
    length (pi_grants s) + length (pu_data u) \<le> length (pi_grants s') + length (pu_data u') + n"
  using assms
proof (induction fuel arbitrary: u s)
  case 0
  then have n: "n \<le> length (pu_data u)" by simp
  then show ?case using 0 by (subst read_iter.simps) (auto simp: unit_ok_def pending_def)
next
  case (Suc m)
  show ?case
  proof (cases "n \<le> length (pu_data u)")
    case True
    then show ?thesis using Suc.prems by (subst read_iter.simps) (auto simp: unit_ok_def pending_def)
  next
    case False
    let ?u = "compact u"
    have u: "pu_data ?u = pu_data u" "pu_readPtr ?u = 0" by (simp_all add: compact_def)
    let ?cap = "PIPE_COMMON_UNIT_CAPACITY - (pu_readPtr ?u + length (pu_data ?u))"
    have cap: "0 < ?cap" using False Suc.prems(2) u by simp
    obtain k gs where g: "pi_grants s = Some k # gs" "0 < k" using Suc.prems(3,6) by (cases "pi_grants s") (auto simp: steady_def)
    have ne: "pi_bytes s \<noteq> []" using False Suc.prems(4) by (auto simp: pending_def)
    let ?k = "min k ?cap"
    have "?k \<noteq> 0" using g(2) cap by simp
    then have k: "take ?k (pi_bytes s) \<noteq> []" using ne by (simp only: take_eq_Nil simp_thms)
    let ?u2 = "?u\<lparr>pu_data := pu_data ?u @ take ?k (pi_bytes s)\<rparr>" and ?s2 = "s\<lparr>pi_grants := gs, pi_bytes := drop ?k (pi_bytes s)\<rparr>"
    have "os_read ?cap s = Inr (Some (take ?k (pi_bytes s)), ?s2)" by (simp add: os_read_def g(1))
    then have "read_iter (Suc m) n u s = read_iter m n ?u2 ?s2"
      by (subst read_iter.simps) (simp only: False k Let_def if_False rbind.simps nat.case option.case prod.case)
    moreover have "pending ?u2 ?s2 = pending u s" by (simp add: pending_def u)
    moreover have "unit_ok ?u2" using Suc.prems(1) u by (auto simp: unit_ok_def min_def)
    moreover have "steady (pi_grants ?s2)" using Suc.prems(3) g by (simp add: steady_def)
    moreover have "0 < length (take ?k (pi_bytes s))" using k by blast
    moreover from this have "length (pi_grants s) + length (pu_data u) \<le> length (pi_grants ?s2) + length (pu_data ?u2)" using g(1) u(1) by (simp del: length_take length_greater_0_conv)
    ultimately show ?thesis using Suc.IH[of ?u2 ?s2] Suc.prems g by (auto intro: le_trans)
  qed
qed

lemma grant_sum:
  fixes k n L L' :: nat
  assumes "G + D \<le> G1 + D1 + k" "L' + G1 + D1 \<le> max n L' + G2 + D2" "L' = L + k" "k \<le> n - L" "L < n"
  shows "L + G + D \<le> max n L + G2 + D2"
  using assms by linarith

text \<open>In whatever pieces the system delivers the bytes, a read returns the next ones, and the rest stays for the next read.\<close>

lemma read_data_ok:
  assumes "unit_ok u" "steady (pi_grants s)" "n \<le> length acc + length (pending u s)" "n \<le> length acc + length (pi_grants s) + length (pu_data u)"
  shows "\<exists>u' s'. read_data n u s acc = Inr (acc @ take (n - length acc) (pending u s), u', s') \<and> unit_ok u' \<and>
    pending u' s' = drop (n - length acc) (pending u s) \<and> steady (pi_grants s') \<and>
    length acc + length (pi_grants s) + length (pu_data u) \<le> max n (length acc) + length (pi_grants s') + length (pu_data u')"
  using assms
proof (induction "n - length acc" arbitrary: acc u s rule: less_induct)
  case less
  show ?case
  proof (cases "length acc < n")
    case False
    then show ?thesis using less.prems by (subst read_data.simps) auto
  next
    case True
    let ?k = "min PIPE_COMMON_UNIT_CAPACITY (n - length acc)"
    have k: "0 < ?k" "?k \<le> PIPE_COMMON_UNIT_CAPACITY" "?k \<le> n - length acc" using True by (simp_all add: PIPE_COMMON_UNIT_CAPACITY_def)
    have "?k \<le> length (pending u s)" "?k \<le> length (pi_grants s) + length (pu_data u)" using k(3) less.prems(3,4) by linarith+
    from read_iter_ok[OF less.prems(1) k(2) less.prems(2) this refl] obtain u1 s1 where
      r: "read_iter (length (pi_grants s)) ?k u s = Inr (Some (take ?k (pending u s)), u1, s1)" "unit_ok u1" "pending u1 s1 = drop ?k (pending u s)"
        "steady (pi_grants s1)" "length (pi_grants s) + length (pu_data u) \<le> length (pi_grants s1) + length (pu_data u1) + ?k" by blast
    let ?acc = "acc @ take ?k (pending u s)"
    have la: "length ?acc = length acc + ?k" using \<open>?k \<le> length (pending u s)\<close> by simp
    have "length (take ?k (pending u s)) = ?k" using \<open>?k \<le> length (pending u s)\<close> by (rule length_take[THEN trans, OF min.absorb2])
    then have ne: "take ?k (pending u s) \<noteq> []" using k(1) by (metis list.size(3) less_irrefl)
    have "read_data n u s acc = read_data n u1 s1 ?acc"
      by (subst read_data.simps) (simp only: True r(1) ne rbind.simps if_True if_False option.case prod.case)
    moreover have "n - length ?acc < n - length acc" using la k(1) True by linarith
    moreover have "n \<le> length ?acc + length (pending u1 s1)" using la r(3) less.prems(3) k(3) by simp
    moreover have "n \<le> length ?acc + length (pi_grants s1) + length (pu_data u1)" using la r(5) less.prems(4) by linarith
    ultimately obtain u' s' where f: "read_data n u s acc = Inr (?acc @ take (n - length ?acc) (pending u1 s1), u', s')" "unit_ok u'"
      "pending u' s' = drop (n - length ?acc) (pending u1 s1)" "steady (pi_grants s')"
      "length ?acc + length (pi_grants s1) + length (pu_data u1) \<le> max n (length ?acc) + length (pi_grants s') + length (pu_data u')"
      using less.hyps[of ?acc u1 s1] r(2,4) by metis
    have sum: "n - length ?acc = (n - length acc) - ?k" "(n - length acc - ?k) + ?k = n - length acc"
      by (simp only: la diff_diff_left) (rule le_add_diff_inverse2[OF k(3)])
    have e2: "(n - length ?acc) + ?k = n - length acc" by (rule trans[OF arg_cong[OF sum(1), where f = "\<lambda>j. j + ?k"] sum(2)])
    have e1: "?k + (n - length ?acc) = n - length acc" by (rule trans[OF add.commute e2])
    have "take ?k (pending u s) @ take (n - length ?acc) (drop ?k (pending u s)) = take (n - length acc) (pending u s)"
      by (rule trans[OF take_add[symmetric] arg_cong[OF e1, where f = "\<lambda>j. take j (pending u s)"]])
    moreover have "drop (n - length ?acc) (drop ?k (pending u s)) = drop (n - length acc) (pending u s)"
      by (rule trans[OF drop_drop arg_cong[OF e2, where f = "\<lambda>j. drop j (pending u s)"]])
    moreover have "length acc + length (pi_grants s) + length (pu_data u) \<le> max n (length acc) + length (pi_grants s') + length (pu_data u')"
      by (rule grant_sum[OF r(5) f(5) la k(3) True])
    ultimately show ?thesis using f r(3) by auto
  qed
qed

lemma write_data_ok:
  assumes "steady gs" "length bs \<le> length gs"
  shows "\<exists>gs'. write_data bs gs out = Inr (out @ bs, gs')"
  using assms
proof (induction gs arbitrary: bs out)
  case Nil
  then show ?case by (subst write_data.simps) simp
next
  case (Cons g gs)
  obtain k where g: "g = Some k" "0 < k" using Cons.prems(1) by (auto simp: steady_def)
  show ?case
  proof (cases "bs = []")
    case True
    then show ?thesis by (subst write_data.simps) simp
  next
    case False
    let ?k = "min k (min PIPE_COMMON_UNIT_CAPACITY (length bs))"
    have k: "0 < ?k" using g(2) False by (simp add: PIPE_COMMON_UNIT_CAPACITY_def)
    have "length bs \<le> Suc (length gs)" using Cons.prems(2) by simp
    then have "length bs - ?k \<le> length gs" using k by linarith
    then have "length (drop ?k bs) \<le> length gs" by simp
    moreover have "steady gs" using Cons.prems(1) by (simp add: steady_def)
    ultimately obtain gs' where "write_data (drop ?k bs) gs (out @ take ?k bs) = Inr ((out @ take ?k bs) @ drop ?k bs, gs')" using Cons.IH by blast
    moreover have "write_data bs (g # gs) out = write_data (drop ?k bs) gs (out @ take ?k bs)"
      by (subst write_data.simps) (use k(1) in \<open>simp only: False g(1) Let_def if_False list.case option.case less_irrefl neq0_conv[symmetric] refl simp_thms if_not_P\<close>)
    ultimately show ?thesis by simp
  qed
qed

end
