(* ===== verification/LegoIo.thy ===== *)
theory LegoIo
  imports CmdText PipeComm
begin

text \<open>
  The simulator's side of the bridge (\<open>sync_protocol.h\<close>, \<open>pipe_comm.h\<close>): a command is printed on the
  standard output and its answer is read from the standard input; data goes through named FIFOs.  The
  state \<open>sim_io\<close> holds what the simulator has printed, what the next \<open>read\<close>s of the standard input
  return, the FIFOs' contents and the units that are open.  The system's part (how many bytes a call
  moves) is fixed by the state; bytes of a FIFO are numbers.
\<close>

record sim_io =
  io_reads :: "string list"
  io_out :: string
  io_units :: "string \<rightharpoonup> nat pipe_unit"
  io_fifo :: "string \<Rightarrow> nat pipe_in"
  io_sent :: "string \<Rightarrow> nat list"
  io_takes :: "string \<Rightarrow> nat option list"

definition io_print :: "string \<Rightarrow> sim_io \<Rightarrow> sim_io" where
  "io_print s io = io\<lparr>io_out := io_out io @ s\<rparr>"

section \<open>Commands with an answer\<close>

text \<open>
  \<open>parseCmd(fd)\<close>: one \<open>read\<close> of up to 1024 bytes into a fresh buffer, cut behind the first line; the
  rest of what was read is dropped.  Without a line end in it the buffer is searched past its contents.
\<close>

definition first_line :: "string \<Rightarrow> string res" where
  "first_line m =
     (if length (takeWhile (\<lambda>c. c \<noteq> CHR 0x0A) m) < 1023 \<and> CHR 0x0A \<in> set m
      then Inr (takeWhile (\<lambda>c. c \<noteq> CHR 0x0A) m @ [CHR 0x0A]) else Inl (Undefined ''message without end''))"

definition parseCmd :: "sim_io \<Rightarrow> (sync_cmd \<times> sim_io) res" where
  "parseCmd io = (case dropWhile (\<lambda>m. m = []) (io_reads io) of
     [] \<Rightarrow> Inl (NoReturn ''parseCmd'')
   | m # ms \<Rightarrow>
       rbind (first_line (take 1024 m)) (\<lambda>l.
       rbind (parse_cmd l) (\<lambda>c.
       Inr (c, io_print (''[RESPONSE]'' @ l) (io\<lparr>io_reads := (if length m \<le> 1024 then ms else drop 1024 m # ms)\<rparr>)))))"

definition sync_call :: "string \<Rightarrow> sim_io \<Rightarrow> (sync_cmd \<times> sim_io) res" where
  "sync_call cmd io = parseCmd (io_print cmd io)"

text \<open>The cycle of an answer, a \<open>double\<close>, becomes an integer; any other answer is the conversion of -1.\<close>

definition answer_cycle :: "sync_cmd \<Rightarrow> nat res" where
  "answer_cycle c = fl_to_nat (if c_type c = SC_SYNC then c_cycle c else Fin (- 1))"

definition res_at :: "nat \<Rightarrow> sync_cmd \<Rightarrow> string res" where
  "res_at i c = (if i < length (c_res_list c) then Inr (c_res_list c ! i) else Inl (Undefined ''m_res_list''))"

definition cycleSync :: "nat \<Rightarrow> sim_io \<Rightarrow> (nat \<times> sim_io) res" where
  "cycleSync cyc io = rbind (sync_call (sendCycleCmd (int cyc)) io) (\<lambda>(c, io). rbind (answer_cycle c) (\<lambda>t. Inr (t, io)))"

definition sendSync :: "int \<Rightarrow> int \<Rightarrow> int \<Rightarrow> int \<Rightarrow> sim_io \<Rightarrow> (string \<times> sim_io) res" where
  "sendSync sx sy dx dy io = rbind (sync_call (sendSendCmd sx sy dx dy) io) (\<lambda>(c, io). rbind (res_at 0 c) (\<lambda>p. Inr (p, io)))"

definition receiveSync :: "int \<Rightarrow> int \<Rightarrow> int \<Rightarrow> int \<Rightarrow> sim_io \<Rightarrow> (string \<times> sim_io) res" where
  "receiveSync sx sy dx dy io = rbind (sync_call (sendReceiveCmd sx sy dx dy) io) (\<lambda>(c, io). rbind (res_at 0 c) (\<lambda>p. Inr (p, io)))"

definition launchSync :: "int \<Rightarrow> int \<Rightarrow> int \<Rightarrow> int \<Rightarrow> sim_io \<Rightarrow> sim_io res" where
  "launchSync sx sy dx dy io = rbind (sync_call (sendLaunchCmd sx sy dx dy) io) (\<lambda>(c, io). Inr io)"

text \<open>\<open>atoi\<close> on the words of the answer.\<close>

definition atoi :: "string \<Rightarrow> int res" where
  "atoi s = (case split_sign (skip_space s) of (neg, body) \<Rightarrow>
     let v = digits_val (takeWhile is_digit body); n = (if neg then - v else v) in
     if - INT_MAX - 1 \<le> n \<and> n \<le> INT_MAX then Inr n else Inl (Undefined ''atoi''))"

definition waitlaunchSync :: "int \<Rightarrow> int \<Rightarrow> int \<Rightarrow> int \<Rightarrow> sim_io \<Rightarrow> (int \<times> int \<times> sim_io) res" where
  "waitlaunchSync sx sy dx dy io =
     rbind (sync_call (sendWaitlaunchCmd sx sy dx dy) io) (\<lambda>(c, io).
     rbind (res_at 0 c) (\<lambda>x. rbind (atoi x) (\<lambda>x. rbind (res_at 1 c) (\<lambda>y. rbind (atoi y) (\<lambda>y. Inr (x, y, io))))))"

definition barrierSync :: "int \<Rightarrow> int \<Rightarrow> int \<Rightarrow> int \<Rightarrow> sim_io \<Rightarrow> sim_io res" where
  "barrierSync sx sy uid n io = rbind (sync_call (sendBarrierCmd sx sy uid n) io) (\<lambda>(c, io). Inr io)"

definition lockSync :: "int \<Rightarrow> int \<Rightarrow> int \<Rightarrow> sim_io \<Rightarrow> sim_io res" where
  "lockSync sx sy uid io = rbind (sync_call (sendLockCmd sx sy uid) io) (\<lambda>(c, io). Inr io)"

definition unlockSync :: "int \<Rightarrow> int \<Rightarrow> int \<Rightarrow> sim_io \<Rightarrow> sim_io res" where
  "unlockSync sx sy uid io = rbind (sync_call (sendUnlockCmd sx sy uid) io) (\<lambda>(c, io). Inr io)"

definition readSync :: "nat \<Rightarrow> int \<Rightarrow> int \<Rightarrow> int \<Rightarrow> int \<Rightarrow> int \<Rightarrow> int \<Rightarrow> sim_io \<Rightarrow> (nat \<times> sim_io) res" where
  "readSync cyc sx sy dx dy n d io =
     rbind (sync_call (sendReadCmd (int cyc) sx sy dx dy n d) io) (\<lambda>(c, io). rbind (answer_cycle c) (\<lambda>t. Inr (t, io)))"

definition writeSync :: "nat \<Rightarrow> int \<Rightarrow> int \<Rightarrow> int \<Rightarrow> int \<Rightarrow> int \<Rightarrow> int \<Rightarrow> sim_io \<Rightarrow> (nat \<times> sim_io) res" where
  "writeSync cyc sx sy dx dy n d io =
     rbind (sync_call (sendWriteCmd (int cyc) sx sy dx dy n d) io) (\<lambda>(c, io). rbind (answer_cycle c) (\<lambda>t. Inr (t, io)))"

section \<open>Named FIFOs\<close>

text \<open>\<open>PipeComm\<close>: the unit of a name is opened at its first use; the names of the bridge are used in one direction only.\<close>

definition open_unit :: "string \<Rightarrow> sim_io \<Rightarrow> nat pipe_unit \<times> sim_io" where
  "open_unit name io = (case io_units io name of Some u \<Rightarrow> (u, io)
     | None \<Rightarrow> (pipe_unit_new, io_print (''Open pipe file '' @ name @ ''.'' @ endl) (io\<lparr>io_units := (io_units io)(name \<mapsto> pipe_unit_new)\<rparr>)))"

definition pipe_read :: "string \<Rightarrow> nat \<Rightarrow> sim_io \<Rightarrow> (nat list \<times> sim_io) res" where
  "pipe_read name n io = (case open_unit name io of (u, io) \<Rightarrow>
     rbind (read_data n u (io_fifo io name) []) (\<lambda>(bs, u, s).
     Inr (bs, io_print (''Read '' @ put_int (int (length bs)) @ '' B from '' @ name @ ''.'' @ endl)
                (io\<lparr>io_units := (io_units io)(name \<mapsto> u), io_fifo := (io_fifo io)(name := s)\<rparr>))))"

definition pipe_write :: "string \<Rightarrow> nat list \<Rightarrow> sim_io \<Rightarrow> (nat \<times> sim_io) res" where
  "pipe_write name bs io = (case open_unit name io of (u, io) \<Rightarrow>
     rbind (write_data bs (io_takes io name) []) (\<lambda>(out, gs).
     Inr (length out, io_print (''Write '' @ put_int (int (length out)) @ '' B to '' @ name @ ''.'' @ endl)
                (io\<lparr>io_sent := (io_sent io)(name := io_sent io name @ out), io_takes := (io_takes io)(name := gs)\<rparr>))))"

section \<open>Calls that are answered\<close>

lemma first_line_endl: "CHR 0x0A \<notin> set m \<Longrightarrow> length m < 1023 \<Longrightarrow> first_line (m @ CHR 0x0A # r) = Inr (m @ [CHR 0x0A])"
  by (simp add: first_line_def takeWhile_append)

text \<open>A command whose answer is one line of the standard input, delivered in one piece.\<close>

lemma sync_answered:
  assumes "io_reads io = (m @ endl) # ms" "CHR 0x0A \<notin> set m" "length m < 1023" "parse_cmd (m @ endl) = Inr c"
  shows "sync_call cmd io = Inr (c, io\<lparr>io_reads := ms, io_out := io_out io @ cmd @ ''[RESPONSE]'' @ m @ endl\<rparr>)"
proof -
  have "take 1024 (m @ endl) = m @ endl" using assms(3) by (simp add: endl_def)
  moreover have "first_line (m @ endl) = Inr (m @ endl)" unfolding endl_def using assms(2,3) by (intro first_line_endl)
  ultimately show ?thesis using assms by (simp add: sync_call_def parseCmd_def io_print_def endl_def)
qed

lemma put_args_no_endl: "CHR 0x0A \<notin> set (put_args xs)"
  using put_int_not_space by (induction xs) (auto simp: is_space_def)

text \<open>The answers to a transfer and to a SEND or RECEIVE, as the bridge writes them.\<close>

lemma answer_cycle_sync:
  assumes "0 \<le> cyc" "cyc < 2 ^ 53"
  shows "answer_cycle \<lparr>c_type = SC_SYNC, c_cycle = Fin (rnd 53 (of_int cyc)), c_clock_rate = Fin 0, c_src = [-1, -1],
          c_dst = [-1, -1], c_nbytes = 0, c_desc = 0, c_res_list = [], c_stdin_fd = 0\<rparr> = Inr (nat cyc)"
proof -
  have "rnd 53 (of_int cyc) = of_int cyc" using rnd_nat_exact[of "nat cyc" 53] assms by simp
  then show ?thesis using assms(1) by (simp add: answer_cycle_def)
qed

lemma parse_sync_desc:
  assumes "in_time cyc"
  shows "parse_cmd (sendSyncCmd_desc cyc d) = Inr \<lparr>c_type = SC_SYNC, c_cycle = Fin (rnd 53 (of_int cyc)), c_clock_rate = Fin 0, c_src = [-1, -1],
          c_dst = [-1, -1], c_nbytes = 0, c_desc = 0, c_res_list = [], c_stdin_fd = 0\<rparr>"
proof -
  have "parse_cmd (send_cmd ''SYNC'' [cyc, d]) = parse_body (cmd_type_of ''SYNC'') (Some (put_args [cyc, d] @ endl))"
    by (rule parse_send) simp
  then show ?thesis using parse_timed[of SC_SYNC cyc "[d]"] assms by (simp add: sendSyncCmd_desc_def cmd_type_of_def)
qed

definition transfer_answer :: "int \<Rightarrow> int \<Rightarrow> string" where
  "transfer_answer cyc d = CMD_HEAD @ '' SYNC'' @ put_args [cyc, d]"

lemma sendSyncCmd_answer: "sendSyncCmd_desc cyc d = transfer_answer cyc d @ endl"
  by (simp add: sendSyncCmd_desc_def send_cmd_def transfer_answer_def)

lemma transfer_answered:
  assumes "io_reads io = sendSyncCmd_desc cyc d # ms" "0 \<le> cyc" "cyc < 2 ^ 53" "length (transfer_answer cyc d) < 1023"
  shows "readSync t sx sy dx dy n d' io = Inr (nat cyc, io\<lparr>io_reads := ms, io_out := io_out io @ sendReadCmd (int t) sx sy dx dy n d' @ ''[RESPONSE]'' @ sendSyncCmd_desc cyc d\<rparr>)"
    and "writeSync t sx sy dx dy n d' io = Inr (nat cyc, io\<lparr>io_reads := ms, io_out := io_out io @ sendWriteCmd (int t) sx sy dx dy n d' @ ''[RESPONSE]'' @ sendSyncCmd_desc cyc d\<rparr>)"
proof -
  have it: "in_time cyc" using assms(2,3) by (simp add: in_time_def ULL_MAX_def)
  have ne: "CHR 0x0A \<notin> set (transfer_answer cyc d)" using put_args_no_endl[of "[cyc, d]"] by (simp add: transfer_answer_def CMD_HEAD_def del: put_args_simps)
  note a = sync_answered[OF assms(1)[unfolded sendSyncCmd_answer] ne assms(4) parse_sync_desc[OF it, of d, unfolded sendSyncCmd_answer]]
  show "readSync t sx sy dx dy n d' io = Inr (nat cyc, io\<lparr>io_reads := ms, io_out := io_out io @ sendReadCmd (int t) sx sy dx dy n d' @ ''[RESPONSE]'' @ sendSyncCmd_desc cyc d\<rparr>)"
    by (simp add: readSync_def a answer_cycle_sync[OF assms(2,3)] sendSyncCmd_answer)
  show "writeSync t sx sy dx dy n d' io = Inr (nat cyc, io\<lparr>io_reads := ms, io_out := io_out io @ sendWriteCmd (int t) sx sy dx dy n d' @ ''[RESPONSE]'' @ sendSyncCmd_desc cyc d\<rparr>)"
    by (simp add: writeSync_def a answer_cycle_sync[OF assms(2,3)] sendSyncCmd_answer)
qed

definition pipe_answer :: "string \<Rightarrow> string" where
  "pipe_answer p = CMD_HEAD @ '' RESULT '' @ put_int 1 @ put_words [p]"

lemma sendResultCmd_answer: "sendResultCmd_strings [p] = pipe_answer p @ endl"
  by (simp add: sendResultCmd_strings_def pipe_answer_def)

lemma parse_pipe_answer:
  assumes "p \<noteq> []" "\<forall>c \<in> set p. \<not> is_space c"
  shows "parse_cmd (pipe_answer p @ endl) = Inr \<lparr>c_type = SC_RESULT, c_cycle = Fin 0, c_clock_rate = Fin 0, c_src = [-1, -1],
          c_dst = [-1, -1], c_nbytes = 0, c_desc = 0, c_res_list = [p], c_stdin_fd = 0\<rparr>"
proof -
  have "parse_cmd (CMD_HEAD @ CHR '' '' # ''RESULT'' @ (put_args [1] @ put_words [p] @ endl)) = parse_body SC_RESULT (Some (put_args [1] @ put_words [p] @ endl))"
    by (subst parse_cmd_named) (simp_all add: cmd_type_of_def)
  then show ?thesis using parse_result[of "[p]"] assms by (simp add: pipe_answer_def in_int_def INT_MAX_def)
qed

lemma pipe_answered:
  assumes "io_reads io = sendResultCmd_strings [p] # ms" "p \<noteq> []" "\<forall>c \<in> set p. \<not> is_space c" "length (pipe_answer p) < 1023"
  shows "receiveSync sx sy dx dy io = Inr (p, io\<lparr>io_reads := ms, io_out := io_out io @ sendReceiveCmd sx sy dx dy @ ''[RESPONSE]'' @ sendResultCmd_strings [p]\<rparr>)"
    and "sendSync sx sy dx dy io = Inr (p, io\<lparr>io_reads := ms, io_out := io_out io @ sendSendCmd sx sy dx dy @ ''[RESPONSE]'' @ sendResultCmd_strings [p]\<rparr>)"
proof -
  have "CHR 0x0A \<notin> set (put_int 1)" using put_int_not_space[of "CHR 0x0A" 1] by (auto simp: is_space_def)
  then have ne: "CHR 0x0A \<notin> set (pipe_answer p)" using assms(3) by (auto simp: pipe_answer_def CMD_HEAD_def is_space_def)
  note a = sync_answered[OF assms(1)[unfolded sendResultCmd_answer] ne assms(4) parse_pipe_answer[OF assms(2,3)]]
  show "receiveSync sx sy dx dy io = Inr (p, io\<lparr>io_reads := ms, io_out := io_out io @ sendReceiveCmd sx sy dx dy @ ''[RESPONSE]'' @ sendResultCmd_strings [p]\<rparr>)"
    by (simp add: receiveSync_def a res_at_def sendResultCmd_answer)
  show "sendSync sx sy dx dy io = Inr (p, io\<lparr>io_reads := ms, io_out := io_out io @ sendSendCmd sx sy dx dy @ ''[RESPONSE]'' @ sendResultCmd_strings [p]\<rparr>)"
    by (simp add: sendSync_def a res_at_def sendResultCmd_answer)
qed

section \<open>Data through an open FIFO\<close>

definition io_unit :: "string \<Rightarrow> sim_io \<Rightarrow> nat pipe_unit" where
  "io_unit p io = (case io_units io p of Some u \<Rightarrow> u | None \<Rightarrow> pipe_unit_new)"

definition io_pending :: "string \<Rightarrow> sim_io \<Rightarrow> nat list" where
  "io_pending p io = pending (io_unit p io) (io_fifo io p)"

text \<open>Enough reads of the system are granted for \<open>n\<close> bytes, each of at least one byte.\<close>

definition io_steady :: "string \<Rightarrow> nat \<Rightarrow> sim_io \<Rightarrow> bool" where
  "io_steady p n io \<longleftrightarrow> unit_ok (io_unit p io) \<and> steady (pi_grants (io_fifo io p)) \<and> n \<le> length (io_pending p io) \<and>
     n \<le> length (pi_grants (io_fifo io p)) + length (pu_data (io_unit p io))"

lemma open_unit_eq: "open_unit p io = (u, io') \<Longrightarrow> u = io_unit p io \<and> io_fifo io' = io_fifo io \<and> io_reads io' = io_reads io \<and> io_sent io' = io_sent io \<and>
    io_takes io' = io_takes io \<and> (\<forall>q. io_unit q io' = io_unit q io)"
  by (auto simp: open_unit_def io_unit_def io_print_def split: option.splits if_splits)

lemma pipe_read_ok:
  assumes "io_steady p n io"
  shows "\<exists>io'. pipe_read p n io = Inr (take n (io_pending p io), io') \<and> io_pending p io' = drop n (io_pending p io) \<and>
    io_reads io' = io_reads io \<and> io_sent io' = io_sent io \<and> io_takes io' = io_takes io"
proof -
  obtain u io1 where o1: "open_unit p io = (u, io1)" by (cases "open_unit p io")
  note o2 = open_unit_eq[OF o1]
  have "unit_ok u" "steady (pi_grants (io_fifo io1 p))" "n \<le> length ([] :: nat list) + length (pending u (io_fifo io1 p))"
    "n \<le> length ([] :: nat list) + length (pi_grants (io_fifo io1 p)) + length (pu_data u)"
    using assms o2 by (simp_all add: io_steady_def io_pending_def)
  from read_data_ok[OF this] obtain u' s' where r: "read_data n u (io_fifo io1 p) [] = Inr ([] @ take (n - length ([] :: nat list)) (pending u (io_fifo io1 p)), u', s')"
    "pending u' s' = drop (n - length ([] :: nat list)) (pending u (io_fifo io1 p))" by blast
  then show ?thesis using o1 o2
    by (simp add: pipe_read_def io_print_def io_pending_def) (simp add: io_unit_def)
qed

lemma pipe_write_ok:
  assumes "steady (io_takes io p)" "length bs \<le> length (io_takes io p)"
  shows "\<exists>io'. pipe_write p bs io = Inr (length bs, io') \<and> io_sent io' = (io_sent io)(p := io_sent io p @ bs) \<and> io_reads io' = io_reads io \<and>
    io_fifo io' = io_fifo io"
proof -
  obtain u io1 where o1: "open_unit p io = (u, io1)" by (cases "open_unit p io")
  note o2 = open_unit_eq[OF o1]
  obtain gs where "write_data bs (io_takes io1 p) [] = Inr ([] @ bs, gs)" using write_data_ok[of "io_takes io1 p" bs "[]"] assms o2 by auto
  then show ?thesis using o1 o2 by (simp add: pipe_write_def io_print_def)
qed

end
