(* ===== verification/SsdProtocol.thy ===== *)
theory SsdProtocol
  imports Prelude
begin

text \<open>
  \<open>protocol/ssd_ipc_protocol.h\<close>: the messages of the NPU and the SSD, as structures and as the 32 bytes
  the FIFO carries (little-endian, no padding: the header asserts the size).  The operation of a request
  is the byte that was received, which need not be one of the enumerators.
\<close>

section \<open>Messages\<close>

definition kSsdIpcMagic :: nat where "kSsdIpcMagic = 0x4E555353"
definition kSsdIpcVersion :: nat where "kSsdIpcVersion = 1"
definition kSsdReadCommandBytes :: nat where "kSsdReadCommandBytes = 64"
definition kInvalidSsdRequestId :: nat where "kInvalidSsdRequestId = 0"

datatype ssd_op = Op_Read | Op_Write | Op_Flush | Op_Trim | Op_Shutdown

definition op_code :: "ssd_op \<Rightarrow> nat" where
  "op_code o' = (case o' of Op_Read \<Rightarrow> 1 | Op_Write \<Rightarrow> 2 | Op_Flush \<Rightarrow> 3 | Op_Trim \<Rightarrow> 4 | Op_Shutdown \<Rightarrow> 255)"

datatype ssd_status = Success | InvalidProtocol | InvalidOperation | InvalidRange | InternalError

definition status_code :: "ssd_status \<Rightarrow> nat" where
  "status_code s = (case s of Success \<Rightarrow> 0 | InvalidProtocol \<Rightarrow> 1 | InvalidOperation \<Rightarrow> 2 | InvalidRange \<Rightarrow> 3 | InternalError \<Rightarrow> 4)"

record ssd_request =
  q_magic :: nat
  q_version :: nat
  q_operation :: nat
  q_flags :: nat
  q_id :: nat
  q_offset :: nat
  q_length :: nat

definition ssd_request_new :: ssd_request where
  "ssd_request_new = \<lparr>q_magic = kSsdIpcMagic, q_version = kSsdIpcVersion, q_operation = op_code Op_Read, q_flags = 0,
     q_id = kInvalidSsdRequestId, q_offset = 0, q_length = 0\<rparr>"

record ssd_response =
  a_magic :: nat
  a_version :: nat
  a_status :: nat
  a_id :: nat
  a_submitted :: nat
  a_completed :: nat

definition ssd_response_new :: ssd_response where
  "ssd_response_new = \<lparr>a_magic = kSsdIpcMagic, a_version = kSsdIpcVersion, a_status = status_code Success,
     a_id = kInvalidSsdRequestId, a_submitted = 0, a_completed = 0\<rparr>"

definition hasValidHeader :: "nat \<Rightarrow> nat \<Rightarrow> bool" where
  "hasValidHeader magic version \<longleftrightarrow> magic = kSsdIpcMagic \<and> version = kSsdIpcVersion"

section \<open>Trace\<close>

text \<open>\<open>ssd_ipc_trace.h\<close>: one line per event; the wall-clock time and the source are added when it is printed.\<close>

record trace_line =
  tr_event :: string
  tr_request :: ssd_request
  tr_cycle :: nat
  tr_tick :: nat
  tr_status :: nat

definition trace_emit :: "string \<Rightarrow> ssd_request \<Rightarrow> nat \<Rightarrow> nat \<Rightarrow> nat \<Rightarrow> trace_line list \<Rightarrow> trace_line list" where
  "trace_emit ev q cyc tick st ls = ls @ [\<lparr>tr_event = ev, tr_request = q, tr_cycle = cyc, tr_tick = tick, tr_status = st\<rparr>]"

definition operationName :: "nat \<Rightarrow> string" where
  "operationName o' = (if o' = op_code Op_Read then ''READ'' else if o' = op_code Op_Write then ''WRITE''
     else if o' = op_code Op_Flush then ''FLUSH'' else if o' = op_code Op_Trim then ''TRIM''
     else if o' = op_code Op_Shutdown then ''SHUTDOWN'' else ''UNKNOWN'')"

definition statusName :: "nat \<Rightarrow> string" where
  "statusName s = (if s = status_code Success then ''SUCCESS'' else if s = status_code InvalidProtocol then ''INVALID_PROTOCOL''
     else if s = status_code InvalidOperation then ''INVALID_OPERATION'' else if s = status_code InvalidRange then ''INVALID_RANGE''
     else if s = status_code InternalError then ''INTERNAL_ERROR'' else ''UNKNOWN'')"

section \<open>Bytes\<close>

fun le_bytes :: "nat \<Rightarrow> nat \<Rightarrow> nat list" where
  "le_bytes 0 v = []"
| "le_bytes (Suc n) v = v mod 256 # le_bytes n (v div 256)"

fun le_value :: "nat list \<Rightarrow> nat" where
  "le_value [] = 0"
| "le_value (b # bs) = b + 256 * le_value bs"

definition request_bytes :: "ssd_request \<Rightarrow> nat list" where
  "request_bytes q = le_bytes 4 (q_magic q) @ le_bytes 2 (q_version q) @ [q_operation q] @ [q_flags q] @
     le_bytes 8 (q_id q) @ le_bytes 8 (q_offset q) @ le_bytes 8 (q_length q)"

definition request_of_bytes :: "nat list \<Rightarrow> ssd_request" where
  "request_of_bytes bs = \<lparr>q_magic = le_value (take 4 bs), q_version = le_value (take 2 (drop 4 bs)), q_operation = bs ! 6, q_flags = bs ! 7,
     q_id = le_value (take 8 (drop 8 bs)), q_offset = le_value (take 8 (drop 16 bs)), q_length = le_value (take 8 (drop 24 bs))\<rparr>"

definition response_bytes :: "ssd_response \<Rightarrow> nat list" where
  "response_bytes a = le_bytes 4 (a_magic a) @ le_bytes 2 (a_version a) @ le_bytes 2 (a_status a) @
     le_bytes 8 (a_id a) @ le_bytes 8 (a_submitted a) @ le_bytes 8 (a_completed a)"

definition response_of_bytes :: "nat list \<Rightarrow> ssd_response" where
  "response_of_bytes bs = \<lparr>a_magic = le_value (take 4 bs), a_version = le_value (take 2 (drop 4 bs)), a_status = le_value (take 2 (drop 6 bs)),
     a_id = le_value (take 8 (drop 8 bs)), a_submitted = le_value (take 8 (drop 16 bs)), a_completed = le_value (take 8 (drop 24 bs))\<rparr>"

section \<open>Round trips\<close>

lemma length_le_bytes [simp]: "length (le_bytes n v) = n"
  by (induction n arbitrary: v) simp_all

lemma le_value_bytes: "v < 256 ^ n \<Longrightarrow> le_value (le_bytes n v) = v"
proof (induction n arbitrary: v)
  case (Suc n)
  then have "v div 256 < 256 ^ n" by (simp add: less_mult_imp_div_less mult.commute)
  from Suc.IH[OF this] show ?case by simp
qed simp

lemma le_bytes_value: "\<forall>b \<in> set bs. b < 256 \<Longrightarrow> le_bytes (length bs) (le_value bs) = bs"
  by (induction bs) auto

definition request_fits :: "ssd_request \<Rightarrow> bool" where
  "request_fits q \<longleftrightarrow> q_magic q < 2 ^ 32 \<and> q_version q < 2 ^ 16 \<and> q_operation q < 256 \<and> q_flags q < 256 \<and> q_id q < 2 ^ 64 \<and>
     q_offset q < 2 ^ 64 \<and> q_length q < 2 ^ 64"

definition response_fits :: "ssd_response \<Rightarrow> bool" where
  "response_fits a \<longleftrightarrow> a_magic a < 2 ^ 32 \<and> a_version a < 2 ^ 16 \<and> a_status a < 2 ^ 16 \<and> a_id a < 2 ^ 64 \<and>
     a_submitted a < 2 ^ 64 \<and> a_completed a < 2 ^ 64"

lemma length_request_bytes [simp]: "length (request_bytes q) = 32"
  by (simp add: request_bytes_def)

lemma length_response_bytes [simp]: "length (response_bytes a) = 32"
  by (simp add: response_bytes_def)

text \<open>A message cut at its field boundaries.\<close>

lemma request_cut:
  assumes "length a = 4" "length b = 2" "length d = 8" "length e = 8" "length f = 8" "bs = a @ b @ [c] @ [g] @ d @ e @ f"
  shows "take 4 bs = a" "take 2 (drop 4 bs) = b" "bs ! 6 = c" "bs ! 7 = g"
    "take 8 (drop 8 bs) = d" "take 8 (drop 16 bs) = e" "take 8 (drop 24 bs) = f"
  unfolding assms(6) by (simp_all add: assms(1-5) nth_append)

lemma response_cut:
  assumes "length a = 4" "length b = 2" "length c = 2" "length d = 8" "length e = 8" "length f = 8" "bs = a @ b @ c @ d @ e @ f"
  shows "take 4 bs = a" "take 2 (drop 4 bs) = b" "take 2 (drop 6 bs) = c"
    "take 8 (drop 8 bs) = d" "take 8 (drop 16 bs) = e" "take 8 (drop 24 bs) = f"
  unfolding assms(7) by (simp_all add: assms(1-6))

lemma cut_at: "drop k xs = take n (drop k xs) @ drop (k + n) xs"
  by (metis append_take_drop_id drop_drop add.commute)

lemma request_uncut:
  assumes "length bs = 32"
  shows "take 4 bs @ take 2 (drop 4 bs) @ [bs ! 6] @ [bs ! 7] @ take 8 (drop 8 bs) @ take 8 (drop 16 bs) @ take 8 (drop 24 bs) = bs"
proof -
  have "bs = take 4 bs @ drop 4 bs" "drop 4 bs = take 2 (drop 4 bs) @ drop 6 bs" "drop 8 bs = take 8 (drop 8 bs) @ drop 16 bs"
    "drop 16 bs = take 8 (drop 16 bs) @ drop 24 bs" "drop 24 bs = take 8 (drop 24 bs)"
    using cut_at[of 4 bs 2] cut_at[of 8 bs 8] cut_at[of 16 bs 8] assms by simp_all
  moreover have "drop 6 bs = bs ! 6 # drop 7 bs" "drop 7 bs = bs ! 7 # drop 8 bs"
    using Cons_nth_drop_Suc[of 6 bs] Cons_nth_drop_Suc[of 7 bs] assms by simp_all
  ultimately show ?thesis by (metis append_Cons append_Nil)
qed

lemma le_bytes_take:
  assumes "\<forall>b \<in> set bs. b < 256" "n + k \<le> length bs"
  shows "le_bytes n (le_value (take n (drop k bs))) = take n (drop k bs)"
  using le_bytes_value[of "take n (drop k bs)"] assms by (auto dest: in_set_takeD in_set_dropD)

lemma request_round_trip:
  assumes "request_fits q"
  shows "request_of_bytes (request_bytes q) = q"
proof -
  note cut = request_cut[OF length_le_bytes length_le_bytes length_le_bytes length_le_bytes length_le_bytes request_bytes_def[of q]]
  show ?thesis unfolding request_of_bytes_def cut
    using assms by (cases q) (simp add: request_fits_def le_value_bytes del: le_bytes.simps)
qed

lemma response_round_trip:
  assumes "response_fits a"
  shows "response_of_bytes (response_bytes a) = a"
proof -
  note cut = response_cut[OF length_le_bytes length_le_bytes length_le_bytes length_le_bytes length_le_bytes length_le_bytes response_bytes_def[of a]]
  show ?thesis unfolding response_of_bytes_def cut
    using assms by (cases a) (simp add: response_fits_def le_value_bytes del: le_bytes.simps)
qed

text \<open>Every 32 bytes are the bytes of the request they are read as: the receiver loses nothing.\<close>

lemma request_bytes_exact:
  assumes "length bs = 32" "\<forall>b \<in> set bs. b < 256"
  shows "request_bytes (request_of_bytes bs) = bs"
proof -
  have le: "le_bytes n (le_value (take n (drop k bs))) = take n (drop k bs)" if "n + k \<le> 32" for n k
    using le_bytes_take[OF assms(2), of n k] assms(1) that by simp
  have "le_bytes 4 (le_value (take 4 bs)) = take 4 bs" using le[of 4 0] by simp
  then show ?thesis unfolding request_bytes_def request_of_bytes_def
    using le[of 2 4] le[of 8 8] le[of 8 16] le[of 8 24] request_uncut[OF assms(1)] by simp
qed

end
