(* ===== verification/SimEngine.thy ===== *)
theory SimEngine
  imports Prelude
begin

text \<open>
  \<open>sim/engine.cc\<close>: the event engine of the simulator.  An event is a number; \<open>en_list\<close> holds the
  allocated ones (the map \<open>eventList\<close> without the functions, which are the argument \<open>fn\<close> of
  \<open>doNextEvent\<close>), \<open>en_queue\<close> the list of scheduled events with their ticks.
\<close>

declare split_paired_All [simp del] split_paired_Ex [simp del]

record engine =
  en_simTick :: nat
  en_counter :: nat
  en_forceStop :: bool
  en_list :: "nat list"
  en_queue :: "(nat \<times> nat) list"
  en_handled :: nat

definition engine_new :: engine where
  "engine_new = \<lparr>en_simTick = 0, en_counter = 0, en_forceStop = False, en_list = [], en_queue = [], en_handled = 0\<rparr>"

section \<open>The event list\<close>

text \<open>The iterator \<open>old\<close>: the last entry of the event.  The iterator \<open>insert\<close>: the first later entry.\<close>

definition old_entry :: "nat \<Rightarrow> (nat \<times> nat) list \<Rightarrow> nat option" where
  "old_entry eid q = (case filter (\<lambda>i. fst (q ! i) = eid) [0..<length q] of [] \<Rightarrow> None | is \<Rightarrow> Some (last is))"

definition insert_pos :: "nat \<Rightarrow> (nat \<times> nat) list \<Rightarrow> nat" where
  "insert_pos tick q = length (takeWhile (\<lambda>e. snd e \<le> tick) q)"

definition erase_at :: "nat \<Rightarrow> 'a list \<Rightarrow> 'a list" where
  "erase_at i xs = take i xs @ drop (Suc i) xs"

definition insertEvent :: "nat \<Rightarrow> nat \<Rightarrow> (nat \<times> nat) list \<Rightarrow> bool \<times> (nat \<times> nat) list" where
  "insertEvent eid tick q =
     (let j = insert_pos tick q; new = take j q @ [(eid, tick)] @ drop j q in
      case old_entry eid q of
        None \<Rightarrow> (False, new)
      | Some i \<Rightarrow> if snd (q ! i) = tick then (False, q)
                 else (True, erase_at (if i < j then i else Suc i) new))"

fun removeEvent :: "nat \<Rightarrow> (nat \<times> nat) list \<Rightarrow> bool \<times> (nat \<times> nat) list" where
  "removeEvent eid [] = (False, [])"
| "removeEvent eid (e # q) = (if fst e = eid then (True, q) else case removeEvent eid q of (b, q') \<Rightarrow> (b, e # q'))"

fun isEventExist :: "nat \<Rightarrow> (nat \<times> nat) list \<Rightarrow> nat option" where
  "isEventExist eid [] = None"
| "isEventExist eid (e # q) = (if fst e = eid then Some (snd e) else isEventExist eid q)"

section \<open>Operations\<close>

definition no_event :: "'a res" where
  "no_event = Inl (Panic ''Event does not exists'')"

definition allocateEvent :: "engine \<Rightarrow> nat \<times> engine" where
  "allocateEvent e = (Suc (en_counter e), e\<lparr>en_counter := Suc (en_counter e), en_list := Suc (en_counter e) # en_list e\<rparr>)"

definition scheduleEvent :: "nat \<Rightarrow> nat \<Rightarrow> engine \<Rightarrow> engine res" where
  "scheduleEvent eid tick e =
     (if eid \<in> set (en_list e) then
        Inr (e\<lparr>en_queue := snd (insertEvent eid (if tick < en_simTick e then en_simTick e else tick) (en_queue e))\<rparr>)
      else no_event)"

definition descheduleEvent :: "nat \<Rightarrow> engine \<Rightarrow> engine res" where
  "descheduleEvent eid e =
     (if eid \<in> set (en_list e) then Inr (e\<lparr>en_queue := snd (removeEvent eid (en_queue e))\<rparr>) else no_event)"

definition isScheduled :: "nat \<Rightarrow> engine \<Rightarrow> nat option res" where
  "isScheduled eid e = (if eid \<in> set (en_list e) then Inr (isEventExist eid (en_queue e)) else no_event)"

definition deallocateEvent :: "nat \<Rightarrow> engine \<Rightarrow> engine res" where
  "deallocateEvent eid e =
     (if eid \<in> set (en_list e)
      then Inr (e\<lparr>en_queue := snd (removeEvent eid (en_queue e)), en_list := filter (\<lambda>x. x \<noteq> eid) (en_list e)\<rparr>)
      else no_event)"

definition stopEngine :: "engine \<Rightarrow> engine" where
  "stopEngine e = e\<lparr>en_forceStop := True\<rparr>"

text \<open>
  One event: the tick advances to it, it leaves the queue, and its function runs on the engine and the
  rest of the simulator.
\<close>

definition doNextEvent :: "(nat \<Rightarrow> nat \<Rightarrow> engine \<times> 's \<Rightarrow> (engine \<times> 's) res) \<Rightarrow> engine \<times> 's \<Rightarrow> (bool \<times> engine \<times> 's) res" where
  "doNextEvent fn = (\<lambda>(e, s).
     if en_forceStop e then Inr (False, e, s)
     else case en_queue e of
       [] \<Rightarrow> Inr (False, e, s)
     | now # q \<Rightarrow>
         rbind (if fst now \<in> set (en_list e)
                then fn (fst now) (snd now) (e\<lparr>en_simTick := snd now, en_queue := q\<rparr>, s)
                else no_event) (\<lambda>(e, s).
         Inr (True, e\<lparr>en_handled := en_handled e + 1\<rparr>, s)))"

text \<open>The loop \<open>while (!done && engine.doNextEvent())\<close>, for at most \<open>fuel\<close> events.\<close>

fun runEvents :: "nat \<Rightarrow> (nat \<Rightarrow> nat \<Rightarrow> engine \<times> 's \<Rightarrow> (engine \<times> 's) res) \<Rightarrow> ('s \<Rightarrow> bool) \<Rightarrow> engine \<times> 's \<Rightarrow> (engine \<times> 's) res" where
  "runEvents 0 fn stop (e, s) = (if stop s then Inr (e, s) else Inl (NoReturn ''event loop''))"
| "runEvents (Suc n) fn stop (e, s) =
     (if stop s then Inr (e, s)
      else rbind (doNextEvent fn (e, s)) (\<lambda>(more, e, s). if more then runEvents n fn stop (e, s) else Inr (e, s)))"

section \<open>The queue\<close>

definition queue_ok :: "(nat \<times> nat) list \<Rightarrow> bool" where
  "queue_ok q \<longleftrightarrow> sorted (map snd q) \<and> distinct (map fst q)"

lemma isEventExist_map_of: "isEventExist eid q = map_of q eid"
  by (induction q) auto

lemma old_entry_None: "old_entry eid q = None \<longleftrightarrow> eid \<notin> fst ` set q"
proof -
  have "old_entry eid q = None \<longleftrightarrow> filter (\<lambda>i. fst (q ! i) = eid) [0..<length q] = []"
    by (simp add: old_entry_def split: list.splits)
  also have "\<dots> \<longleftrightarrow> (\<forall>i < length q. fst (q ! i) \<noteq> eid)" by (auto simp: filter_empty_conv)
  also have "\<dots> \<longleftrightarrow> eid \<notin> fst ` set q" by (force simp: in_set_conv_nth)
  finally show ?thesis .
qed

lemma old_entry_Some:
  assumes "old_entry eid q = Some i"
  shows "i < length q \<and> fst (q ! i) = eid"
proof -
  let ?is = "filter (\<lambda>i. fst (q ! i) = eid) [0..<length q]"
  have "?is \<noteq> []" "i = last ?is" using assms by (auto simp: old_entry_def split: list.splits)
  then have "i \<in> set ?is" using last_in_set by metis
  then show ?thesis by auto
qed

definition without :: "nat \<Rightarrow> (nat \<times> nat) list \<Rightarrow> (nat \<times> nat) list" where
  "without eid q = filter (\<lambda>e. fst e \<noteq> eid) q"

lemma without_id: "eid \<notin> fst ` set q \<Longrightarrow> without eid q = q"
  by (force simp: without_def filter_id_conv)

lemma without_append [simp]: "without eid (p @ q) = without eid p @ without eid q"
  by (simp add: without_def)

lemma without_Cons: "without eid (e # q) = (if fst e = eid then without eid q else e # without eid q)"
  by (simp add: without_def)

lemma removeEvent_without: "distinct (map fst q) \<Longrightarrow> snd (removeEvent eid q) = without eid q"
proof (induction q)
  case (Cons e q)
  have "without (fst e) q = q" using Cons.prems by (intro without_id) simp
  then show ?case using Cons by (auto simp: without_Cons split: prod.splits)
qed (simp add: without_def)

lemma erase_without:
  assumes "distinct (map fst q)" "i < length q"
  shows "erase_at i q = without (fst (q ! i)) q"
  using assms
proof (induction q arbitrary: i)
  case (Cons e q)
  show ?case
  proof (cases i)
    case 0
    then show ?thesis using Cons.prems without_id[of "fst e" q] by (simp add: erase_at_def without_Cons)
  next
    case (Suc j)
    then have "fst e \<noteq> fst (q ! j)" using Cons.prems by (metis Suc_less_eq distinct.simps(2) length_Cons list.simps(9) list.set_map image_eqI nth_mem)
    then show ?thesis using Suc Cons by (simp add: erase_at_def without_Cons)
  qed
qed simp

text \<open>
  On a queue without duplicates, inserting an event is: drop its old entry, put the new one behind every
  entry that is not later.
\<close>

lemma takeWhile_without: "takeWhile (\<lambda>e. snd e \<le> t) q = p \<Longrightarrow> sorted (map snd q) \<Longrightarrow>
    takeWhile (\<lambda>e. snd e \<le> t) (without eid q) = without eid p"
proof (induction q arbitrary: p)
  case (Cons e q)
  show ?case
  proof (cases "snd e \<le> t")
    case False
    then have "\<forall>x \<in> set q. \<not> snd x \<le> t" using Cons.prems(2) by auto
    then have "takeWhile (\<lambda>e. snd e \<le> t) (without eid q) = []"
      unfolding takeWhile_eq_Nil_iff without_def by (metis (mono_tags, lifting) filter_is_subset hd_in_set subset_eq)
    then show ?thesis using Cons.prems False by (simp add: without_Cons) (simp add: without_def)
  qed (use Cons in \<open>auto simp: without_Cons\<close>)
qed (simp add: without_def)

definition put_event :: "nat \<Rightarrow> nat \<Rightarrow> (nat \<times> nat) list \<Rightarrow> (nat \<times> nat) list" where
  "put_event eid t q = takeWhile (\<lambda>e. snd e \<le> t) (without eid q) @ [(eid, t)] @ dropWhile (\<lambda>e. snd e \<le> t) (without eid q)"

lemma insertEvent_put:
  assumes "queue_ok q" "isEventExist eid q \<noteq> Some t"
  shows "snd (insertEvent eid t q) = put_event eid t q"
proof -
  have so: "sorted (map snd q)" and di: "distinct (map fst q)" using assms(1) by (simp_all add: queue_ok_def)
  let ?j = "insert_pos t q"
  have tk: "take ?j q = takeWhile (\<lambda>e. snd e \<le> t) q" by (simp add: insert_pos_def takeWhile_eq_take[symmetric])
  have dr: "drop ?j q = dropWhile (\<lambda>e. snd e \<le> t) q" by (simp add: insert_pos_def dropWhile_eq_drop[symmetric])
  have tw: "takeWhile (\<lambda>e. snd e \<le> t) (without eid q) = without eid (take ?j q)"
    using takeWhile_without[OF tk[symmetric] so] .
  have "without eid q = without eid (take ?j q) @ without eid (drop ?j q)" by (metis append_take_drop_id without_append)
  then have dw: "dropWhile (\<lambda>e. snd e \<le> t) (without eid q) = without eid (drop ?j q)"
    using tw by (metis same_append_eq takeWhile_dropWhile_id)
  show ?thesis
  proof (cases "old_entry eid q")
    case None
    then have "eid \<notin> fst ` set q" by (simp add: old_entry_None)
    then have "without eid (take ?j q) = take ?j q" "without eid (drop ?j q) = drop ?j q"
      by (auto intro!: without_id dest: in_set_takeD in_set_dropD)
    then show ?thesis using None by (simp add: insertEvent_def Let_def put_event_def tw dw)
  next
    case (Some i)
    note i = old_entry_Some[OF Some]
    have "isEventExist eid q = Some (snd (q ! i))" using i di by (metis isEventExist_map_of map_of_eq_Some_iff nth_mem prod.collapse)
    then have ne: "snd (q ! i) \<noteq> t" using assms(2) by simp
    have ap: "erase_at n (xs @ ys) = (if n < length xs then erase_at n xs @ ys else xs @ erase_at (n - length xs) ys)" for n and xs ys :: "(nat \<times> nat) list"
      by (auto simp: erase_at_def Suc_diff_le)
    have lj: "length (take ?j q) = ?j" by (simp add: insert_pos_def length_takeWhile_le)
    have dis: "distinct (map fst (take ?j q))" "distinct (map fst (drop ?j q))" using di by (auto simp: take_map[symmetric] drop_map[symmetric])
    have dj: "fst ` set (take ?j q) \<inter> fst ` set (drop ?j q) = {}"
      using di by (metis append_take_drop_id distinct_append list.set_map map_append)
    have "erase_at (if i < ?j then i else Suc i) (take ?j q @ [(eid, t)] @ drop ?j q) =
        without eid (take ?j q) @ [(eid, t)] @ without eid (drop ?j q)"
    proof (cases "i < ?j")
      case True
      then have "take ?j q ! i = q ! i" "i < length (take ?j q)" using lj by simp_all
      then have e: "erase_at i (take ?j q) = without eid (take ?j q)" using erase_without[OF dis(1), of i] i by simp
      have "eid \<in> fst ` set (take ?j q)" using \<open>take ?j q ! i = q ! i\<close> \<open>i < length (take ?j q)\<close> i by (metis image_eqI nth_mem)
      then have "without eid (drop ?j q) = drop ?j q" using dj by (intro without_id) blast
      then show ?thesis using True e lj by (simp add: ap)
    next
      case False
      then have dn: "drop ?j q ! (i - ?j) = q ! i" "i - ?j < length (drop ?j q)" using i by (auto simp: diff_less_mono)
      then have e: "erase_at (i - ?j) (drop ?j q) = without eid (drop ?j q)" using erase_without[OF dis(2), of "i - ?j"] i by simp
      have "eid \<in> fst ` set (drop ?j q)" using dn i by (metis image_eqI nth_mem)
      then have "without eid (take ?j q) = take ?j q" using dj by (intro without_id) blast
      moreover have "erase_at (Suc i - ?j) ([(eid, t)] @ drop ?j q) = [(eid, t)] @ erase_at (i - ?j) (drop ?j q)"
        using False by (simp add: erase_at_def Suc_diff_le)
      ultimately show ?thesis using False e lj by (simp add: ap)
    qed
    then show ?thesis using Some ne by (simp add: insertEvent_def Let_def put_event_def tw dw)
  qed
qed

lemma isEventExist_without: "isEventExist x (without eid q) = (if x = eid then None else isEventExist x q)"
  by (induction q) (auto simp: without_Cons without_def)

lemma isEventExist_append: "isEventExist x (p @ q) = (case isEventExist x p of None \<Rightarrow> isEventExist x q | Some t \<Rightarrow> Some t)"
  by (induction p) auto

lemma isEventExist_put: "isEventExist x (put_event eid t q) = (if x = eid then Some t else isEventExist x q)"
proof -
  let ?w = "without eid q"
  have w: "isEventExist x ?w = (case isEventExist x (takeWhile (\<lambda>e. snd e \<le> t) ?w) of
      None \<Rightarrow> isEventExist x (dropWhile (\<lambda>e. snd e \<le> t) ?w) | Some t \<Rightarrow> Some t)"
    by (metis isEventExist_append takeWhile_dropWhile_id)
  have n: "isEventExist eid (takeWhile (\<lambda>e. snd e \<le> t) ?w) = None"
    by (simp add: isEventExist_map_of map_of_eq_None_iff without_def) (auto dest: set_takeWhileD)
  show ?thesis using w n isEventExist_without[of x eid q] by (auto simp: put_event_def isEventExist_append split: option.splits)
qed

lemma queue_ok_without: "queue_ok q \<Longrightarrow> queue_ok (without eid q)"
  by (auto simp: queue_ok_def without_def sorted_map_same distinct_map_filter intro: sorted_filter)

lemma set_without: "set (without eid q) = {e \<in> set q. fst e \<noteq> eid}"
  by (simp add: without_def)

lemma set_put: "set (put_event eid t q) = insert (eid, t) {e \<in> set q. fst e \<noteq> eid}"
proof -
  have "set (takeWhile (\<lambda>e. snd e \<le> t) (without eid q)) \<union> set (dropWhile (\<lambda>e. snd e \<le> t) (without eid q)) = set (without eid q)"
    by (metis set_append takeWhile_dropWhile_id)
  then show ?thesis by (auto simp: put_event_def set_without)
qed

lemma queue_ok_put:
  assumes "queue_ok q"
  shows "queue_ok (put_event eid t q)"
proof -
  let ?w = "without eid q"
  let ?a = "takeWhile (\<lambda>e. snd e \<le> t) ?w" and ?b = "dropWhile (\<lambda>e. snd e \<le> t) ?w"
  have w: "sorted (map snd (?a @ ?b))" "distinct (map fst (?a @ ?b))" using queue_ok_without[OF assms] by (simp_all add: queue_ok_def)
  have a: "\<forall>e \<in> set ?a. snd e \<le> t \<and> fst e \<noteq> eid" by (auto dest: set_takeWhileD simp: set_without)
  have b: "\<forall>e \<in> set ?b. fst e \<noteq> eid" by (auto dest: set_dropWhileD simp: set_without)
  have b2: "\<forall>e \<in> set ?b. t \<le> snd e"
  proof (cases ?b)
    case (Cons x ys)
    have "\<not> snd x \<le> t" using Cons by (metis hd_dropWhile list.distinct(1) list.sel(1))
    moreover have "\<forall>y \<in> set ys. snd x \<le> snd y" using w(1) Cons by (simp add: sorted_append)
    ultimately show ?thesis using Cons by auto
  qed (simp del: dropWhile_eq_Nil_conv)
  have "sorted (map snd (?a @ [(eid, t)] @ ?b))"
    using w(1) a b2 unfolding map_append sorted_append by (auto simp: ball_Un intro: order_trans)
  moreover have "distinct (map fst (?a @ [(eid, t)] @ ?b))"
    using w(2) a b unfolding map_append distinct_append by (auto simp: image_iff)
  ultimately show ?thesis by (simp add: queue_ok_def put_event_def)
qed

section \<open>Invariant\<close>

definition engine_inv :: "engine \<Rightarrow> bool" where
  "engine_inv e \<longleftrightarrow> queue_ok (en_queue e) \<and> (\<forall>x \<in> set (en_queue e). en_simTick e \<le> snd x \<and> fst x \<in> set (en_list e)) \<and>
     (\<forall>i \<in> set (en_list e). i \<le> en_counter e)"

lemma engine_new_inv: "engine_inv engine_new"
  by (simp add: engine_inv_def engine_new_def queue_ok_def)

lemma engine_inv_queue: "engine_inv e \<Longrightarrow> queue_ok q \<Longrightarrow> set q \<subseteq> set (en_queue e) \<Longrightarrow> engine_inv (e\<lparr>en_queue := q\<rparr>)"
  by (auto simp: engine_inv_def)

lemma allocateEvent_ok:
  assumes "allocateEvent e = (i, e')" "engine_inv e"
  shows "engine_inv e' \<and> i \<notin> set (en_list e) \<and> set (en_list e') = insert i (set (en_list e)) \<and> en_queue e' = en_queue e \<and> en_simTick e' = en_simTick e"
proof -
  have e: "i = Suc (en_counter e)" "e' = e\<lparr>en_counter := i, en_list := i # en_list e\<rparr>"
    using assms(1) by (auto simp: allocateEvent_def)
  have "\<forall>j \<in> set (en_list e). j \<le> en_counter e" using assms(2) by (simp add: engine_inv_def)
  then have "\<forall>j \<in> set (en_list e). j < i" using e(1) by auto
  then show ?thesis using assms(2) unfolding e(2) engine_inv_def by fastforce
qed

lemma scheduleEvent_ok:
  assumes "engine_inv e" "i \<in> set (en_list e)"
  shows "\<exists>e'. scheduleEvent i t e = Inr e' \<and> engine_inv e' \<and> en_simTick e' = en_simTick e \<and> en_list e' = en_list e \<and>
    (\<forall>x. isEventExist x (en_queue e') = (if x = i then Some (max (en_simTick e) t) else isEventExist x (en_queue e)))"
proof -
  let ?t = "max (en_simTick e) t"
  have t: "(if t < en_simTick e then en_simTick e else t) = ?t" by simp
  have q: "queue_ok (en_queue e)" using assms(1) by (simp add: engine_inv_def)
  show ?thesis
  proof (cases "isEventExist i (en_queue e) = Some ?t")
    case True
    then obtain j where j: "old_entry i (en_queue e) = Some j"
      by (metis isEventExist_map_of map_of_eq_None_iff not_None_eq old_entry_None)
    note o = old_entry_Some[OF j]
    have "isEventExist i (en_queue e) = Some (snd (en_queue e ! j))"
      using o q unfolding queue_ok_def by (metis isEventExist_map_of map_of_eq_Some_iff nth_mem prod.collapse)
    then have "insertEvent i ?t (en_queue e) = (False, en_queue e)" using True j by (simp add: insertEvent_def Let_def)
    then show ?thesis using True assms by (simp add: scheduleEvent_def t)
  next
    case False
    then have p: "snd (insertEvent i ?t (en_queue e)) = put_event i ?t (en_queue e)" using insertEvent_put[OF q] by simp
    have "engine_inv (e\<lparr>en_queue := put_event i ?t (en_queue e)\<rparr>)"
      using assms queue_ok_put[OF q] by (auto simp: engine_inv_def set_put)
    then show ?thesis using assms(2) by (simp add: scheduleEvent_def t p isEventExist_put)
  qed
qed

lemma scheduleEvent_unknown: "i \<notin> set (en_list e) \<Longrightarrow> scheduleEvent i t e = no_event"
  by (simp add: scheduleEvent_def)

lemma descheduleEvent_ok:
  assumes "engine_inv e" "i \<in> set (en_list e)"
  shows "\<exists>e'. descheduleEvent i e = Inr e' \<and> engine_inv e' \<and> en_simTick e' = en_simTick e \<and> en_list e' = en_list e \<and>
    (\<forall>x. isEventExist x (en_queue e') = (if x = i then None else isEventExist x (en_queue e)))"
proof -
  have q: "queue_ok (en_queue e)" using assms(1) by (simp add: engine_inv_def)
  then have r: "snd (removeEvent i (en_queue e)) = without i (en_queue e)" using removeEvent_without by (simp add: queue_ok_def)
  have "engine_inv (e\<lparr>en_queue := without i (en_queue e)\<rparr>)"
    using engine_inv_queue[OF assms(1) queue_ok_without[OF q]] by (auto simp: set_without)
  then show ?thesis using assms(2) by (simp add: descheduleEvent_def r isEventExist_without)
qed

lemma deallocateEvent_ok:
  assumes "engine_inv e" "i \<in> set (en_list e)"
  shows "\<exists>e'. deallocateEvent i e = Inr e' \<and> engine_inv e' \<and> set (en_list e') = set (en_list e) - {i} \<and>
    (\<forall>x. isEventExist x (en_queue e') = (if x = i then None else isEventExist x (en_queue e)))"
proof -
  have q: "queue_ok (en_queue e)" using assms(1) by (simp add: engine_inv_def)
  then have r: "snd (removeEvent i (en_queue e)) = without i (en_queue e)" using removeEvent_without by (simp add: queue_ok_def)
  have "engine_inv (e\<lparr>en_queue := without i (en_queue e), en_list := filter (\<lambda>x. x \<noteq> i) (en_list e)\<rparr>)"
    using assms(1) queue_ok_without[OF q] by (auto simp: engine_inv_def set_without)
  moreover have "set (filter (\<lambda>x. x \<noteq> i) (en_list e)) = set (en_list e) - {i}" by auto
  ultimately show ?thesis using assms(2) by (simp add: deallocateEvent_def r isEventExist_without)
qed

lemma isEventExist_in: "isEventExist i q = Some t \<Longrightarrow> (i, t) \<in> set q"
  by (simp add: isEventExist_map_of map_of_SomeD)

lemma due_not_past: "engine_inv e \<Longrightarrow> isEventExist i (en_queue e) = Some t \<Longrightarrow> en_simTick e \<le> t"
  by (auto simp: engine_inv_def dest!: isEventExist_in)

text \<open>The next event is the earliest one, it leaves the queue, and nothing else changes before its function runs.\<close>

lemma next_event_ok:
  assumes "engine_inv e" "en_queue e = (i, t) # q"
  shows "engine_inv (e\<lparr>en_simTick := t, en_queue := q\<rparr>) \<and> en_simTick e \<le> t \<and> i \<in> set (en_list e) \<and>
    (\<forall>x \<in> set q. t \<le> snd x) \<and> isEventExist i q = None \<and> (\<forall>x. x \<noteq> i \<longrightarrow> isEventExist x q = isEventExist x (en_queue e))"
  using assms by (auto simp: engine_inv_def queue_ok_def isEventExist_map_of map_of_eq_None_iff)

text \<open>Event functions that reach the engine only through its operations: time does not move while one runs.\<close>

definition handlers_ok :: "(nat \<Rightarrow> nat \<Rightarrow> engine \<times> 's \<Rightarrow> (engine \<times> 's) res) \<Rightarrow> bool" where
  "handlers_ok fn \<longleftrightarrow> (\<forall>i t e s e' s'. engine_inv e \<and> fn i t (e, s) = Inr (e', s') \<longrightarrow> engine_inv e' \<and> en_simTick e' = en_simTick e)"

lemma doNextEvent_ok:
  assumes "doNextEvent fn (e, s) = Inr (go, e', s')" "engine_inv e" "handlers_ok fn"
  shows "engine_inv e' \<and> (if go then \<exists>i q. en_queue e = (i, en_simTick e') # q \<and> en_simTick e \<le> en_simTick e' else e' = e \<and> s' = s)"
proof (cases "en_forceStop e \<or> en_queue e = []")
  case True
  then show ?thesis using assms(1,2) by (auto simp: doNextEvent_def split: list.splits)
next
  case False
  then obtain i t q where q: "en_queue e = (i, t) # q" by (metis list.exhaust surj_pair)
  note nx = next_event_ok[OF assms(2) q]
  obtain e1 where e1: "fn i t (e\<lparr>en_simTick := t, en_queue := q\<rparr>, s) = Inr (e1, s')" "e' = e1\<lparr>en_handled := en_handled e1 + 1\<rparr>" "go"
    using assms(1) False q nx by (auto simp: doNextEvent_def res_simps split_paired_Ex)
  have k: "engine_inv e1 \<and> en_simTick e1 = t" using assms(3)[unfolded handlers_ok_def] nx e1(1) by fastforce
  from conjunct1[OF k] have "engine_inv e'" using e1(2) by (simp add: engine_inv_def)
  then show ?thesis using e1 q nx k by simp
qed

lemma runEvents_ok:
  "runEvents n fn stop (e, s) = Inr (e', s') \<Longrightarrow> engine_inv e \<Longrightarrow> handlers_ok fn \<Longrightarrow> engine_inv e' \<and> en_simTick e \<le> en_simTick e'"
proof (induction n arbitrary: e s)
  case (Suc n)
  show ?case
  proof (cases "stop s")
    case False
    obtain go e1 s1 where d: "doNextEvent fn (e, s) = Inr (go, e1, s1)"
      and r: "(if go then runEvents n fn stop (e1, s1) else Inr (e1, s1)) = Inr (e', s')"
      using Suc.prems(1) False by (auto simp: res_simps split_paired_Ex)
    note ok = doNextEvent_ok[OF d Suc.prems(2,3)]
    show ?thesis
    proof (cases go)
      case True
      then have "runEvents n fn stop (e1, s1) = Inr (e', s')" using r by simp
      from Suc.IH[OF this] ok True Suc.prems(3) show ?thesis by auto
    qed (use ok r in auto)
  qed (use Suc.prems in auto)
qed (auto split: if_splits)

section \<open>The interface\<close>

text \<open>What the simulated components rely on: the calls \<open>schedule\<close> and \<open>getTick\<close> of \<open>simplessd/sim/simulator.hh\<close>.\<close>

locale event_scheduler =
  fixes sched :: "nat \<Rightarrow> nat \<Rightarrow> 'e \<Rightarrow> 'e res"
    and due :: "'e \<Rightarrow> nat \<Rightarrow> nat option"
    and now :: "'e \<Rightarrow> nat"
    and known :: "'e \<Rightarrow> nat set"
    and okay :: "'e \<Rightarrow> bool"
  assumes sched_law: "okay e \<Longrightarrow> i \<in> known e \<Longrightarrow> \<exists>e'. sched i t e = Inr e' \<and> okay e' \<and> now e' = now e \<and> known e' = known e \<and>
      (\<forall>x. due e' x = (if x = i then Some (max (now e) t) else due e x))"
    and due_law: "okay e \<Longrightarrow> due e i = Some t \<Longrightarrow> now e \<le> t"

interpretation en: event_scheduler scheduleEvent "\<lambda>e i. isEventExist i (en_queue e)" en_simTick "\<lambda>e. set (en_list e)" engine_inv
proof
  show "\<exists>e'. scheduleEvent i t e = Inr e' \<and> engine_inv e' \<and> en_simTick e' = en_simTick e \<and> set (en_list e') = set (en_list e) \<and>
      (\<forall>x. isEventExist x (en_queue e') = (if x = i then Some (max (en_simTick e) t) else isEventExist x (en_queue e)))"
    if "engine_inv e" "i \<in> set (en_list e)" for e i t
    using scheduleEvent_ok[OF that, of t] by auto
qed (rule due_not_past)

end
