(* ===== verification/HilQueue.thy ===== *)
theory HilQueue
  imports Requests SimEngine
begin

text \<open>
  \<open>hil/hil.cc\<close>: the host interface layer.  A request becomes a job of the embedded processor; when the
  job runs, the request is served by the ICL at once and waits in the completion queue until the tick it
  is finished at, when one event completes all requests that are due.  \<open>std::priority_queue\<close> is the
  list in the order of \<open>finishedAt\<close>; the C++ library leaves the order of equal ticks open, the model
  takes the order of insertion.  The ICL is the record \<open>icl_ops\<close>, the simulator the state \<open>'e\<close>.
\<close>

record 'w icl_ops =
  n_read :: "icl_request \<Rightarrow> nat \<Rightarrow> 'w \<Rightarrow> (nat \<times> 'w) res"
  n_write :: "icl_request \<Rightarrow> nat \<Rightarrow> 'w \<Rightarrow> (nat \<times> 'w) res"
  n_flush :: "lpn_range \<Rightarrow> nat \<Rightarrow> 'w \<Rightarrow> (nat \<times> 'w) res"
  n_trim :: "lpn_range \<Rightarrow> nat \<Rightarrow> 'w \<Rightarrow> (nat \<times> 'w) res"
  n_format :: "lpn_range \<Rightarrow> nat \<Rightarrow> 'w \<Rightarrow> (nat \<times> 'w) res"

record hil_stat =
  hs_request :: "nat list"
  hs_busy :: "nat list"
  hs_iosize :: "nat list"
  hs_lastBusyAt :: "nat list"

record hil =
  hl_reqCount :: nat
  hl_lastScheduled :: nat
  hl_event :: nat
  hl_queue :: "hil_request list"
  hl_stat :: hil_stat

definition hil_new :: "nat \<Rightarrow> hil" where
  "hil_new ev = \<lparr>hl_reqCount = 0, hl_lastScheduled = 0, hl_event = ev, hl_queue = [],
     hl_stat = \<lparr>hs_request = [0, 0], hs_busy = [0, 0, 0], hs_iosize = [0, 0], hs_lastBusyAt = [0, 0, 0]\<rparr>\<rparr>"

section \<open>Statistics\<close>

definition updateBusyTime :: "nat \<Rightarrow> nat \<Rightarrow> nat \<Rightarrow> hil_stat \<Rightarrow> hil_stat" where
  "updateBusyTime idx begin finish s =
     (let la = hs_lastBusyAt s ! idx in
      if finish \<le> la then s
      else s\<lparr>hs_busy := (hs_busy s)[idx := hs_busy s ! idx + (finish - (if begin < la then la else begin))],
             hs_lastBusyAt := (hs_lastBusyAt s)[idx := finish]\<rparr>)"

definition count_io :: "nat \<Rightarrow> nat \<Rightarrow> nat \<Rightarrow> nat \<Rightarrow> hil_stat \<Rightarrow> hil_stat" where
  "count_io idx len begin finish s =
     updateBusyTime 2 begin finish (updateBusyTime idx begin finish
       (s\<lparr>hs_request := (hs_request s)[idx := hs_request s ! idx + 1], hs_iosize := (hs_iosize s)[idx := hs_iosize s ! idx + len]\<rparr>))"

section \<open>Completion\<close>

fun push_request :: "hil_request \<Rightarrow> hil_request list \<Rightarrow> hil_request list" where
  "push_request r [] = [r]"
| "push_request r (x # xs) = (if h_finishedAt r < h_finishedAt x then r # x # xs else x # push_request r xs)"

definition updateCompletion :: "(nat \<Rightarrow> nat \<Rightarrow> 'e \<Rightarrow> 'e res) \<Rightarrow> hil \<times> 'e \<Rightarrow> (hil \<times> 'e) res" where
  "updateCompletion sched = (\<lambda>(h, e). case hl_queue h of
     [] \<Rightarrow> Inr (h, e)
   | q # _ \<Rightarrow> if hl_lastScheduled h \<noteq> h_finishedAt q
              then rbind (sched (hl_event h) (h_finishedAt q) e) (\<lambda>e. Inr (h\<lparr>hl_lastScheduled := h_finishedAt q\<rparr>, e))
              else Inr (h, e))"

text \<open>The requests that are due, in order; \<open>cb\<close> is the function of a request.\<close>

fun complete_due :: "(hil_request \<Rightarrow> nat \<Rightarrow> 'e \<Rightarrow> 'e res) \<Rightarrow> nat \<Rightarrow> hil_request list \<Rightarrow> 'e \<Rightarrow> (hil_request list \<times> 'e) res" where
  "complete_due cb tick [] e = Inr ([], e)"
| "complete_due cb tick (q # qs) e =
     (if h_finishedAt q \<le> tick then rbind (cb q tick e) (complete_due cb tick qs) else Inr (q # qs, e))"

definition completion :: "(nat \<Rightarrow> nat \<Rightarrow> 'e \<Rightarrow> 'e res) \<Rightarrow> (hil_request \<Rightarrow> nat \<Rightarrow> 'e \<Rightarrow> 'e res) \<Rightarrow> nat \<Rightarrow> hil \<times> 'e \<Rightarrow> (hil \<times> 'e) res" where
  "completion sched cb tick = (\<lambda>(h, e).
     rbind (complete_due cb tick (hl_queue h) e) (\<lambda>(qs, e).
     updateCompletion sched (h\<lparr>hl_queue := qs\<rparr>, e)))"

section \<open>Requests\<close>

datatype hil_job = HJ_Read hil_request | HJ_Write hil_request | HJ_Flush hil_request | HJ_Trim hil_request | HJ_Format hil_request bool

text \<open>The function each request is charged as when it is handed to the processor.\<close>

fun hil_fn :: "hil_job \<Rightarrow> cpu_fn" where
  "hil_fn (HJ_Read r) = FN_READ"
| "hil_fn (HJ_Write r) = FN_WRITE"
| "hil_fn (HJ_Flush r) = FN_FLUSH"
| "hil_fn (HJ_Trim r) = FN_FLUSH"
| "hil_fn (HJ_Format r erase) = FN_FLUSH"

definition finish_request :: "(nat \<Rightarrow> nat \<Rightarrow> 'e \<Rightarrow> 'e res) \<Rightarrow> hil_request \<Rightarrow> nat \<Rightarrow> hil \<times> 'e \<Rightarrow> (hil \<times> 'e) res" where
  "finish_request sched r tick = (\<lambda>(h, e). updateCompletion sched (h\<lparr>hl_queue := push_request (r\<lparr>h_finishedAt := tick\<rparr>) (hl_queue h)\<rparr>, e))"

text \<open>The body of a job, run at tick \<open>beginAt\<close>.\<close>

fun hil_body :: "'w icl_ops \<Rightarrow> (nat \<Rightarrow> nat \<Rightarrow> 'e \<Rightarrow> 'e res) \<Rightarrow> hil_job \<Rightarrow> nat \<Rightarrow> hil \<times> 'e \<times> 'w \<Rightarrow> (hil \<times> 'e \<times> 'w) res" where
  "hil_body I sched (HJ_Read r) beginAt (h, e, w) =
     (let h = h\<lparr>hl_reqCount := hl_reqCount h + 1\<rparr>; r = r\<lparr>h_reqID := hl_reqCount h\<rparr> in
      rbind (n_read I (icl_of_hil r) beginAt w) (\<lambda>(tick, w).
      rbind (finish_request sched r tick (h\<lparr>hl_stat := count_io 0 (h_length r) beginAt tick (hl_stat h)\<rparr>, e)) (\<lambda>(h, e).
      Inr (h, e, w))))"
| "hil_body I sched (HJ_Write r) beginAt (h, e, w) =
     (let h = h\<lparr>hl_reqCount := hl_reqCount h + 1\<rparr>; r = r\<lparr>h_reqID := hl_reqCount h\<rparr> in
      rbind (n_write I (icl_of_hil r) beginAt w) (\<lambda>(tick, w).
      rbind (finish_request sched r tick (h\<lparr>hl_stat := count_io 1 (h_length r) beginAt tick (hl_stat h)\<rparr>, e)) (\<lambda>(h, e).
      Inr (h, e, w))))"
| "hil_body I sched (HJ_Flush r) beginAt (h, e, w) =
     (let h = h\<lparr>hl_reqCount := hl_reqCount h + 1\<rparr>; r = r\<lparr>h_reqID := hl_reqCount h\<rparr> in
      rbind (n_flush I (h_range r) beginAt w) (\<lambda>(tick, w).
      rbind (finish_request sched r tick (h, e)) (\<lambda>(h, e). Inr (h, e, w))))"
| "hil_body I sched (HJ_Trim r) beginAt (h, e, w) =
     (let h = h\<lparr>hl_reqCount := hl_reqCount h + 1\<rparr>; r = r\<lparr>h_reqID := hl_reqCount h\<rparr> in
      rbind (n_trim I (h_range r) beginAt w) (\<lambda>(tick, w).
      rbind (finish_request sched r tick (h, e)) (\<lambda>(h, e). Inr (h, e, w))))"
| "hil_body I sched (HJ_Format r erase) beginAt (h, e, w) =
     rbind (if erase then n_format I (h_range r) beginAt w else n_trim I (h_range r) beginAt w) (\<lambda>(tick, w).
     rbind (finish_request sched r tick (h, e)) (\<lambda>(h, e). Inr (h, e, w)))"

section \<open>Order of the queue\<close>

abbreviation finish_sorted :: "hil_request list \<Rightarrow> bool" where
  "finish_sorted qs \<equiv> sorted (map h_finishedAt qs)"

lemma set_push [simp]: "set (push_request r qs) = insert r (set qs)"
  by (induction qs) auto

lemma push_not_Nil [simp]: "push_request r qs \<noteq> []"
  by (cases qs) auto

lemma push_sorted: "finish_sorted qs \<Longrightarrow> finish_sorted (push_request r qs)"
  by (induction qs) auto

lemma length_push: "length (push_request r qs) = Suc (length qs)"
  by (induction qs) auto

lemma hd_push: "hd (push_request r qs) = (case qs of [] \<Rightarrow> r | x # _ \<Rightarrow> if h_finishedAt r < h_finishedAt x then r else x)"
  by (cases qs) auto

text \<open>The requests that are due are a prefix of the queue; each is completed once, in order.\<close>

fun run_all :: "(hil_request \<Rightarrow> nat \<Rightarrow> 'e \<Rightarrow> 'e res) \<Rightarrow> nat \<Rightarrow> hil_request list \<Rightarrow> 'e \<Rightarrow> 'e res" where
  "run_all cb tick [] e = Inr e"
| "run_all cb tick (q # qs) e = rbind (cb q tick e) (run_all cb tick qs)"

lemma complete_due_prefix:
  "complete_due cb tick qs e = rbind (run_all cb tick (takeWhile (\<lambda>q. h_finishedAt q \<le> tick) qs) e)
     (\<lambda>e. Inr (dropWhile (\<lambda>q. h_finishedAt q \<le> tick) qs, e))"
proof (induction qs arbitrary: e)
  case (Cons q qs)
  then show ?case by (cases "cb q tick e") auto
qed simp

lemma due_iff: "finish_sorted qs \<Longrightarrow> set (takeWhile (\<lambda>q. h_finishedAt q \<le> t) qs) = {q \<in> set qs. h_finishedAt q \<le> t} \<and>
    set (dropWhile (\<lambda>q. h_finishedAt q \<le> t) qs) = {q \<in> set qs. t < h_finishedAt q}"
proof (induction qs)
  case (Cons q qs)
  then show ?case by (cases "h_finishedAt q \<le> t") auto
qed simp

lemma finish_sorted_drop: "finish_sorted qs \<Longrightarrow> finish_sorted (dropWhile P qs)"
  by (induction qs) auto

section \<open>No completion is lost\<close>

text \<open>
  Every waiting request finishes in the future and the completion event is due when the first one does.
\<close>

definition hil_live :: "('e \<Rightarrow> nat \<Rightarrow> nat option) \<Rightarrow> ('e \<Rightarrow> nat) \<Rightarrow> hil \<times> 'e \<Rightarrow> bool" where
  "hil_live due now = (\<lambda>(h, e). finish_sorted (hl_queue h) \<and> (\<forall>q \<in> set (hl_queue h). now e < h_finishedAt q) \<and>
     (case hl_queue h of [] \<Rightarrow> hl_lastScheduled h \<le> now e
      | q # _ \<Rightarrow> hl_lastScheduled h = h_finishedAt q \<and> due e (hl_event h) = Some (h_finishedAt q)))"

context event_scheduler
begin

lemma finish_request_live:
  assumes "okay e" "hl_event h \<in> known e" "hil_live due now (h, e)" "now e < tick"
  shows "\<exists>h' e'. finish_request sched r tick (h, e) = Inr (h', e') \<and> okay e' \<and> now e' = now e \<and> known e' = known e \<and>
    hil_live due now (h', e') \<and> hl_queue h' = push_request (r\<lparr>h_finishedAt := tick\<rparr>) (hl_queue h) \<and>
    (\<forall>x. x \<noteq> hl_event h \<longrightarrow> due e' x = due e x)"
proof -
  let ?r = "r\<lparr>h_finishedAt := tick\<rparr>"
  let ?q = "push_request ?r (hl_queue h)"
  let ?h = "h\<lparr>hl_queue := ?q\<rparr>"
  obtain x xs where q: "?q = x # xs" by (cases ?q) auto
  have so: "finish_sorted ?q" "\<forall>q \<in> set ?q. now e < h_finishedAt q"
    using assms(3,4) push_sorted by (auto simp: hil_live_def)
  have x: "now e < h_finishedAt x" using so(2) q by (metis list.set_intros(1))
  obtain e1 where e1: "sched (hl_event h) (h_finishedAt x) e = Inr e1" "okay e1" "now e1 = now e" "known e1 = known e"
    "\<forall>y. due e1 y = (if y = hl_event h then Some (max (now e) (h_finishedAt x)) else due e y)"
    using sched_law[OF assms(1,2)] by blast
  show ?thesis
  proof (cases "hl_lastScheduled h = h_finishedAt x")
    case False
    then have "finish_request sched r tick (h, e) = Inr (?h\<lparr>hl_lastScheduled := h_finishedAt x\<rparr>, e1)"
      using e1(1) by (simp add: finish_request_def updateCompletion_def q)
    then show ?thesis using e1 so q x by (auto simp: hil_live_def max_def)
  next
    case True
    have "due e (hl_event h) = Some (h_finishedAt x)"
    proof (cases "hl_queue h")
      case Nil
      then have "hl_lastScheduled h \<le> now e" using assms(3) by (simp add: hil_live_def)
      then show ?thesis using True x by simp
    next
      case (Cons y ys)
      then have "hl_lastScheduled h = h_finishedAt y" "due e (hl_event h) = Some (h_finishedAt y)" using assms(3) by (simp_all add: hil_live_def)
      then show ?thesis using True by simp
    qed
    moreover have "finish_request sched r tick (h, e) = Inr (?h, e)" using True by (simp add: finish_request_def updateCompletion_def q)
    ultimately show ?thesis using assms(1) so q True by (auto simp: hil_live_def)
  qed
qed

lemma completion_live:
  assumes "okay e" "hl_event h \<in> known e" "finish_sorted (hl_queue h)" "hl_lastScheduled h \<le> now e"
    and "run_all cb (now e) (takeWhile (\<lambda>q. h_finishedAt q \<le> now e) (hl_queue h)) e = Inr e2"
    and "okay e2" "now e2 = now e" "known e2 = known e"
  shows "\<exists>h' e'. completion sched cb (now e) (h, e) = Inr (h', e') \<and> okay e' \<and> now e' = now e \<and> hil_live due now (h', e') \<and>
    hl_queue h' = dropWhile (\<lambda>q. h_finishedAt q \<le> now e) (hl_queue h)"
proof -
  let ?q = "dropWhile (\<lambda>q. h_finishedAt q \<le> now e) (hl_queue h)"
  let ?h = "h\<lparr>hl_queue := ?q\<rparr>"
  have c: "completion sched cb (now e) (h, e) = updateCompletion sched (?h, e2)"
    by (simp add: completion_def complete_due_prefix assms(5))
  have so: "finish_sorted ?q" "\<forall>q \<in> set ?q. now e < h_finishedAt q"
    using finish_sorted_drop[OF assms(3)] due_iff[OF assms(3), of "now e"] by auto
  show ?thesis
  proof (cases ?q)
    case Nil
    then show ?thesis using c assms(4,6,7) by (auto simp: updateCompletion_def hil_live_def simp del: dropWhile_eq_Nil_conv)
  next
    case (Cons x xs)
    have x: "now e < h_finishedAt x" using so(2) Cons by (metis list.set_intros(1))
    obtain e1 where e1: "sched (hl_event h) (h_finishedAt x) e2 = Inr e1" "okay e1" "now e1 = now e2"
      "\<forall>y. due e1 y = (if y = hl_event h then Some (max (now e2) (h_finishedAt x)) else due e2 y)"
      using sched_law[of e2 "hl_event h"] assms(2,6,8) by metis
    have "updateCompletion sched (?h, e2) = Inr (?h\<lparr>hl_lastScheduled := h_finishedAt x\<rparr>, e1)"
      using e1(1) x assms(4) by (simp add: updateCompletion_def Cons)
    then show ?thesis using c e1 so Cons x assms(7) by (auto simp: hil_live_def max_def)
  qed
qed

end

section \<open>The completion event on the engine\<close>

text \<open>The event functions of a simulator whose event \<open>hl_event\<close> is the completion of the HIL.\<close>

definition hil_events :: "nat \<Rightarrow> (hil_request \<Rightarrow> nat \<Rightarrow> engine \<Rightarrow> engine res) \<Rightarrow> (nat \<Rightarrow> nat \<Rightarrow> engine \<times> hil \<Rightarrow> (engine \<times> hil) res) \<Rightarrow>
    nat \<Rightarrow> nat \<Rightarrow> engine \<times> hil \<Rightarrow> (engine \<times> hil) res" where
  "hil_events ev cb other i tick = (\<lambda>(e, h).
     if i = ev then rbind (completion scheduleEvent cb tick (h, e)) (\<lambda>(h, e). Inr (e, h)) else other i tick (e, h))"

abbreviation hil_ready :: "hil \<times> engine \<Rightarrow> bool" where
  "hil_ready \<equiv> hil_live (\<lambda>e i. isEventExist i (en_queue e)) en_simTick"

text \<open>Functions of requests that only use the engine through its interface.\<close>

definition tame :: "(hil_request \<Rightarrow> nat \<Rightarrow> engine \<Rightarrow> engine res) \<Rightarrow> bool" where
  "tame cb \<longleftrightarrow> (\<forall>q t e. engine_inv e \<longrightarrow> (\<exists>e'. cb q t e = Inr e' \<and> engine_inv e' \<and> en_simTick e' = en_simTick e \<and> set (en_list e') = set (en_list e)))"

lemma tame_run:
  assumes "tame cb" "engine_inv e"
  shows "\<exists>e'. run_all cb t qs e = Inr e' \<and> engine_inv e' \<and> en_simTick e' = en_simTick e \<and> set (en_list e') = set (en_list e)"
  using assms(2)
proof (induction qs arbitrary: e)
  case (Cons q qs)
  obtain e1 where "cb q t e = Inr e1" "engine_inv e1" "en_simTick e1 = en_simTick e" "set (en_list e1) = set (en_list e)"
    using assms(1) Cons.prems unfolding tame_def by blast
  then show ?case using Cons.IH[of e1] by auto
qed simp

lemma completion_event:
  assumes "engine_inv e" "\<not> en_forceStop e" "hl_event h \<in> set (en_list e)" "hil_ready (h, e)" "en_queue e = (hl_event h, t) # q"
    "tame cb" "hl_queue h \<noteq> []"
  shows "\<exists>e' h'. doNextEvent (hil_events (hl_event h) cb other) (e, h) = Inr (True, e', h') \<and> engine_inv e' \<and> hil_ready (h', e') \<and>
    en_simTick e' = t \<and> t = h_finishedAt (hd (hl_queue h)) \<and> hl_queue h' = dropWhile (\<lambda>q. h_finishedAt q \<le> t) (hl_queue h)"
proof -
  let ?e = "e\<lparr>en_simTick := t, en_queue := q\<rparr>"
  obtain x xs where hq: "hl_queue h = x # xs" using assms(7) by (cases "hl_queue h") auto
  have t: "t = h_finishedAt x" "hl_lastScheduled h = t" using assms(4,5) hq by (simp_all add: hil_live_def)
  have e: "engine_inv ?e" using next_event_ok[OF assms(1,5)] by simp
  have so: "finish_sorted (hl_queue h)" using assms(4) by (simp add: hil_live_def)
  obtain e2 where e2: "run_all cb t (takeWhile (\<lambda>q. h_finishedAt q \<le> t) (hl_queue h)) ?e = Inr e2" "engine_inv e2"
    "en_simTick e2 = en_simTick ?e" "set (en_list e2) = set (en_list ?e)" using tame_run[OF assms(6) e] by blast
  obtain h' e' where c: "completion scheduleEvent cb t (h, ?e) = Inr (h', e')" "engine_inv e'" "en_simTick e' = t" "hil_ready (h', e')"
      "hl_queue h' = dropWhile (\<lambda>q. h_finishedAt q \<le> t) (hl_queue h)"
    using en.completion_live[of ?e h cb e2] e e2 so t(2) assms(3) by auto
  have "engine_inv (e'\<lparr>en_handled := en_handled e' + 1\<rparr>)" "hil_ready (h', e'\<lparr>en_handled := en_handled e' + 1\<rparr>)"
    using c(2,4) by (simp_all add: engine_inv_def hil_live_def split: list.splits)
  then show ?thesis using assms(2,3,5) c t hq by (auto simp: doNextEvent_def hil_events_def)
qed

end
