(* ===== verification/BlockEntry.thy ===== *)
theory BlockEntry
  imports HilQueue "HOL-Library.Multiset"
begin

text \<open>
  \<open>bil/entry.cc\<close>, \<open>bil/noop_scheduler.cc\<close> and \<open>sil/none/none.cc\<close>: block requests on their way from a
  client to the HIL and back.  The entry keeps a copy of every request until its completion and hands
  another copy, with its own \<open>completion\<close> as callback, through the scheduler to the driver, which turns
  the bytes into logical pages.  A callback of a client is a closure \<open>'c\<close>, run by \<open>invoke\<close> on the
  client's state.
\<close>

section \<open>Requests\<close>

datatype bio_type = BIO_READ | BIO_WRITE | BIO_FLUSH | BIO_TRIM

record 'c bio =
  b_id :: nat
  b_type :: bio_type
  b_offset :: nat
  b_length :: nat
  b_callback :: 'c
  b_submittedAt :: nat

record progress =
  pg_iops :: nat
  pg_bandwidth :: nat
  pg_latency :: nat

text \<open>\<open>bl_file\<close> is the latency file with its lines, if there is one.\<close>

record 'c bil =
  bl_ioQueue :: "'c bio list"
  bl_file :: "(nat \<times> nat \<times> nat \<times> nat) list option"
  bl_lastProgress :: nat
  bl_io_progress :: nat
  bl_progress :: progress
  bl_io_count :: nat
  bl_minLatency :: nat
  bl_maxLatency :: nat
  bl_sumLatency :: nat
  bl_squareSumLatency :: nat

text \<open>The constructor leaves \<open>progress\<close> uninitialised.\<close>

definition bil_new :: "progress \<Rightarrow> (nat \<times> nat \<times> nat \<times> nat) list option \<Rightarrow> 'c bil" where
  "bil_new pg file = \<lparr>bl_ioQueue = [], bl_file = file, bl_lastProgress = 0, bl_io_progress = 0, bl_progress = pg, bl_io_count = 0,
     bl_minLatency = 18446744073709551615, bl_maxLatency = 0, bl_sumLatency = 0, bl_squareSumLatency = 0\<rparr>"

section \<open>Submission and completion\<close>

text \<open>\<open>submitIO\<close> up to the driver: the request the scheduler passes on, and the entry.\<close>

definition bil_submitIO :: "nat \<Rightarrow> 'c bio \<Rightarrow> 'c bil \<Rightarrow> 'c bio \<times> 'c bil" where
  "bil_submitIO now bio B = (bio, B\<lparr>bl_io_count := wrap64 (bl_io_count B + 1), bl_ioQueue := bl_ioQueue B @ [bio\<lparr>b_submittedAt := now\<rparr>]\<rparr>)"

definition bil_latency :: "nat \<Rightarrow> 'c bil \<Rightarrow> 'c bil" where
  "bil_latency tick B = B\<lparr>bl_minLatency := min (bl_minLatency B) tick, bl_maxLatency := max (bl_maxLatency B) tick,
     bl_sumLatency := wrap64 (bl_sumLatency B + tick), bl_squareSumLatency := wrap64 (bl_squareSumLatency B + tick * tick)\<rparr>"

text \<open>The first request with the identifier, and the others in their order.\<close>

fun take_bio :: "nat \<Rightarrow> 'c bio list \<Rightarrow> ('c bio \<times> 'c bio list) option" where
  "take_bio i [] = None"
| "take_bio i (b # bs) = (if b_id b = i then Some (b, bs) else map_option (\<lambda>(x, xs). (x, b # xs)) (take_bio i bs))"

definition bil_note :: "nat \<Rightarrow> 'c bio \<Rightarrow> 'c bil \<Rightarrow> 'c bil" where
  "bil_note d b B = B\<lparr>bl_io_progress := wrap64 (bl_io_progress B + 1),
     bl_progress := \<lparr>pg_iops = wrap64 (pg_iops (bl_progress B) + 1), pg_bandwidth = wrap64 (pg_bandwidth (bl_progress B) + b_length b),
                     pg_latency = wrap64 (pg_latency (bl_progress B) + d)\<rparr>,
     bl_file := map_option (\<lambda>ls. ls @ [(b_id b, b_offset b, b_length b, d)]) (bl_file B)\<rparr>"

definition bil_completion :: "('c \<Rightarrow> nat \<Rightarrow> nat \<Rightarrow> 's \<Rightarrow> 's) \<Rightarrow> nat \<Rightarrow> nat \<Rightarrow> 'c bil \<times> 's \<Rightarrow> 'c bil \<times> 's" where
  "bil_completion invoke now i = (\<lambda>(B, s). case take_bio i (bl_ioQueue B) of
     None \<Rightarrow> (bil_latency now B, s)
   | Some (b, q) \<Rightarrow>
       let d = wrap64 (now + 18446744073709551616 - b_submittedAt b) in
       (bil_latency d ((bil_note d b B)\<lparr>bl_ioQueue := q\<rparr>), invoke (b_callback b) i now s))"

text \<open>
  \<open>getProgress\<close>: rates per second of simulated time (picoseconds) since the last call; no rates when no
  time has passed.
\<close>

definition bil_getProgress :: "nat \<Rightarrow> 'c bil \<Rightarrow> (progress \<times> 'c bil) res" where
  "bil_getProgress now B =
     (let diff = wrap64 (now + 18446744073709551616 - bl_lastProgress B); P = bl_progress B in
      if diff = 0 then Inr (\<lparr>pg_iops = 0, pg_bandwidth = 0, pg_latency = 0\<rparr>, B)
      else let ratio = fl_div 53 (Fin 1000000000000) (fl_of_nat 53 diff) in
        rbind (fl_to_nat (fl_mul 53 (fl_of_nat 53 (pg_iops P)) ratio)) (\<lambda>iops.
        rbind (fl_to_nat (fl_mul 53 (fl_of_nat 53 (pg_bandwidth P)) ratio)) (\<lambda>bw.
        Inr (\<lparr>pg_iops = iops, pg_bandwidth = bw, pg_latency = (if bl_io_progress B = 0 then 0 else pg_latency P div bl_io_progress B)\<rparr>,
             B\<lparr>bl_io_progress := 0, bl_progress := \<lparr>pg_iops = 0, pg_bandwidth = 0, pg_latency = 0\<rparr>, bl_lastProgress := now\<rparr>))))"

section \<open>The driver without an interface\<close>

record driver =
  dr_totalLogicalPages :: nat
  dr_logicalPageSize :: nat

text \<open>\<open>init\<close> schedules the client's \<open>beginFunction\<close> at tick 0 on the event it allocates.\<close>

definition driver_init :: "nat \<times> nat \<Rightarrow> engine \<Rightarrow> (nat \<times> driver \<times> engine) res" where
  "driver_init lpn e = (case allocateEvent e of (i, e) \<Rightarrow>
     rbind (scheduleEvent i 0 e) (\<lambda>e. Inr (i, \<lparr>dr_totalLogicalPages = fst lpn, dr_logicalPageSize = snd lpn\<rparr>, e)))"

definition driver_getInfo :: "driver \<Rightarrow> nat \<times> nat" where
  "driver_getInfo D = (wrap64 (dr_totalLogicalPages D * dr_logicalPageSize D), 512)"

text \<open>\<open>DIVCEIL\<close> on \<open>uint64_t\<close>.\<close>

definition ceil64 :: "nat \<Rightarrow> nat \<Rightarrow> nat" where
  "ceil64 x y = wrap64 (wrap64 (x + 18446744073709551615) div y + 1)"

definition driver_request :: "driver \<Rightarrow> 'c bio \<Rightarrow> hil_request res" where
  "driver_request D b =
     rbind (rguard (dr_logicalPageSize D \<noteq> 0) (Undefined ''division by zero'')) (\<lambda>_.
     Inr \<lparr>h_reqID = b_id b, h_reqSubID = 0, h_offset = b_offset b mod dr_logicalPageSize D, h_length = b_length b,
          h_range = \<lparr>slpn = b_offset b div dr_logicalPageSize D, nlp = ceil64 (b_length b) (dr_logicalPageSize D)\<rparr>,
          h_finishedAt = 0, h_context = b_id b\<rparr>)"

definition driver_job :: "bio_type \<Rightarrow> hil_request \<Rightarrow> hil_job" where
  "driver_job ty r = (case ty of BIO_READ \<Rightarrow> HJ_Read r | BIO_WRITE \<Rightarrow> HJ_Write r | BIO_FLUSH \<Rightarrow> HJ_Flush r | BIO_TRIM \<Rightarrow> HJ_Trim r)"

section \<open>Requests and their completions\<close>

lemma ceil64_eq: "0 < x \<Longrightarrow> x < 18446744073709551616 \<Longrightarrow> 0 < y \<Longrightarrow> (y = 1 \<longrightarrow> x < 18446744073709551616) \<Longrightarrow> ceil64 x y = divceil x y"
proof -
  assume x: "0 < x" "x < 18446744073709551616" and y: "0 < y"
  have "x + 18446744073709551615 = (x - 1) + 18446744073709551616" using x(1) by simp
  then have w: "wrap64 (x + 18446744073709551615) = x - 1" unfolding wrap64_def using x by (simp only: mod_add_self2) simp
  have "(x - 1) div y + 1 < 18446744073709551616" using div_le_dividend[of "x - 1" y] x by linarith
  then show ?thesis by (simp add: ceil64_def divceil_def w) (simp add: wrap64_def)
qed

lemma take_bio_None: "take_bio i bs = None \<longleftrightarrow> i \<notin> b_id ` set bs"
  by (induction bs) (auto split: option.splits)

lemma take_bio_split:
  "take_bio i bs = Some (b, q) \<longleftrightarrow> (\<exists>xs ys. bs = xs @ b # ys \<and> q = xs @ ys \<and> b_id b = i \<and> i \<notin> b_id ` set xs)"
proof (induction bs arbitrary: q)
  case (Cons x bs)
  show ?case
  proof (cases "b_id x = i")
    case True
    moreover have "(\<exists>xs ys. x # bs = xs @ b # ys \<and> q = xs @ ys \<and> b_id b = i \<and> i \<notin> b_id ` set xs) \<longleftrightarrow> x = b \<and> bs = q"
    proof (rule iffI)
      assume "\<exists>xs ys. x # bs = xs @ b # ys \<and> q = xs @ ys \<and> b_id b = i \<and> i \<notin> b_id ` set xs"
      then obtain xs ys where h: "x # bs = xs @ b # ys" "q = xs @ ys" "i \<notin> b_id ` set xs" by blast
      then have "xs = []" using True by (cases xs) auto
      then show "x = b \<and> bs = q" using h by simp
    next
      assume "x = b \<and> bs = q"
      then show "\<exists>xs ys. x # bs = xs @ b # ys \<and> q = xs @ ys \<and> b_id b = i \<and> i \<notin> b_id ` set xs"
        using True by (intro exI[of _ "[]"] exI[of _ bs]) simp
    qed
    ultimately show ?thesis by auto
  next
    case False
    have "take_bio i (x # bs) = Some (b, q) \<longleftrightarrow> (\<exists>q'. take_bio i bs = Some (b, q') \<and> q = x # q')" using False by auto
    also have "\<dots> \<longleftrightarrow> (\<exists>xs ys. x # bs = xs @ b # ys \<and> q = xs @ ys \<and> b_id b = i \<and> i \<notin> b_id ` set xs)"
    proof (rule iffI)
      assume "\<exists>q'. take_bio i bs = Some (b, q') \<and> q = x # q'"
      then obtain xs ys where "bs = xs @ b # ys" "q = x # xs @ ys" "b_id b = i" "i \<notin> b_id ` set xs" unfolding Cons.IH by blast
      then show "\<exists>xs ys. x # bs = xs @ b # ys \<and> q = xs @ ys \<and> b_id b = i \<and> i \<notin> b_id ` set xs"
        using False by (intro exI[of _ "x # xs"] exI[of _ ys]) auto
    next
      assume "\<exists>xs ys. x # bs = xs @ b # ys \<and> q = xs @ ys \<and> b_id b = i \<and> i \<notin> b_id ` set xs"
      then obtain xs ys where h: "x # bs = xs @ b # ys" "q = xs @ ys" "b_id b = i" "i \<notin> b_id ` set xs" by blast
      then obtain zs where "xs = x # zs" using False by (cases xs) auto
      then have "take_bio i bs = Some (b, zs @ ys)" unfolding Cons.IH using h by auto
      then show "\<exists>q'. take_bio i bs = Some (b, q') \<and> q = x # q'" using h(2) \<open>xs = x # zs\<close> by simp
    qed
    finally show ?thesis .
  qed
qed simp

text \<open>Identifiers that are pending once are completed once: the callback of the request runs and the request leaves the queue.\<close>

lemma completion_once:
  assumes "distinct (map b_id (bl_ioQueue B))" "b \<in> set (bl_ioQueue B)" "bil_completion invoke now (b_id b) (B, s) = (B', s')"
  shows "s' = invoke (b_callback b) (b_id b) now s \<and> mset (bl_ioQueue B) = add_mset b (mset (bl_ioQueue B')) \<and>
    distinct (map b_id (bl_ioQueue B')) \<and> b_id b \<notin> b_id ` set (bl_ioQueue B')"
proof -
  obtain xs ys where q: "bl_ioQueue B = xs @ b # ys" using assms(2) by (meson split_list)
  then have t: "take_bio (b_id b) (bl_ioQueue B) = Some (b, xs @ ys)" using assms(1) by (force simp: take_bio_split)
  have "bl_ioQueue B' = xs @ ys" "s' = invoke (b_callback b) (b_id b) now s"
    using assms(3) by (auto simp: bil_completion_def t Let_def bil_latency_def bil_note_def)
  then show ?thesis using assms(1) q by auto
qed

lemma driver_request_ok:
  assumes "0 < dr_logicalPageSize D"
  shows "driver_request D b = Inr \<lparr>h_reqID = b_id b, h_reqSubID = 0, h_offset = b_offset b mod dr_logicalPageSize D, h_length = b_length b,
          h_range = \<lparr>slpn = b_offset b div dr_logicalPageSize D, nlp = ceil64 (b_length b) (dr_logicalPageSize D)\<rparr>,
          h_finishedAt = 0, h_context = b_id b\<rparr>"
  using assms by (simp add: driver_request_def)

end
