(* ===== verification/GenericCache.thy ===== *)
theory GenericCache
  imports Requests
begin

text \<open>
  \<open>icl/generic_cache.cc\<close>: the set-associative write-back cache between the host side and the FTL.
  A \<open>Line *\<close> is the pair of a set and a way; \<open>evictData\<close> is the table of pending evictions, one
  pointer per I/O position.  The FTL, the DRAM, the CPU model and the random generator are the record
  \<open>cache_low\<close>; each call takes the tick and the world and returns both.
\<close>

record line =
  l_tag :: nat
  l_lastAccessed :: nat
  l_insertedAt :: nat
  l_dirty :: bool
  l_valid :: bool

definition line0 :: line where
  "line0 = \<lparr>l_tag = 0, l_lastAccessed = 0, l_insertedAt = 0, l_dirty = False, l_valid = False\<rparr>"

type_synonym line_ptr = "nat \<times> nat"

datatype cache_policy = EV_RANDOM | EV_FIFO | EV_LRU

record seq_detect =
  sd_enabled :: bool
  sd_last :: icl_request
  sd_hitCounter :: nat
  sd_accessCounter :: nat

record cache_param =
  superPageSize :: nat
  parallelIO :: nat
  lineCountInSuperPage :: nat
  lineCountInMaxIO :: nat
  lineSize :: nat
  setSize :: nat
  waySize :: nat
  distMax :: nat
  prefetchIOCount :: nat
  prefetchIORatio :: fl
  useReadCaching :: bool
  useWriteCaching :: bool
  useReadPrefetch :: bool
  bSuperPage :: bool
  prefetchAll :: bool
  evictSuperPage :: bool
  cachePolicy :: cache_policy
  cacheLatency :: nat

record cache_stat =
  cs_readRequest :: nat
  cs_readCache :: nat
  cs_writeRequest :: nat
  cs_writeCache :: nat

record cache =
  k_data :: "line list list"
  k_evict :: "line_ptr option list list"
  k_detect :: seq_detect
  k_prefetchTrigger :: nat
  k_lastPrefetched :: nat
  k_stat :: cache_stat

record 'w cache_low =
  b_ftl_read :: "ftl_request \<Rightarrow> nat \<Rightarrow> 'w \<Rightarrow> (nat \<times> 'w) res"
  b_ftl_write :: "ftl_request \<Rightarrow> nat \<Rightarrow> 'w \<Rightarrow> (nat \<times> 'w) res"
  b_ftl_trim :: "ftl_request \<Rightarrow> nat \<Rightarrow> 'w \<Rightarrow> (nat \<times> 'w) res"
  b_ftl_format :: "lpn_range \<Rightarrow> nat \<Rightarrow> 'w \<Rightarrow> (nat \<times> 'w) res"
  b_dram_read :: "line_ptr option \<Rightarrow> nat \<Rightarrow> nat \<Rightarrow> 'w \<Rightarrow> (nat \<times> 'w) res"
  b_dram_write :: "line_ptr option \<Rightarrow> nat \<Rightarrow> nat \<Rightarrow> 'w \<Rightarrow> (nat \<times> 'w) res"
  b_dram_sched :: "bool \<Rightarrow> 'w \<Rightarrow> 'w"
  b_cpu :: "cpu_fn \<Rightarrow> 'w \<Rightarrow> nat \<times> 'w"
  b_dist :: "nat \<Rightarrow> 'w \<Rightarrow> nat \<times> 'w"

abbreviation U64MAX :: nat where "U64MAX \<equiv> 18446744073709551615"

section \<open>Construction\<close>

text \<open>
  The configuration, and the geometry the FTL reports.  \<open>cc_junk\<close> is the value the uninitialised
  member \<open>bSuperPage\<close> happens to hold: the constructor assigns it only when it is true.
\<close>

record cache_conf =
  cc_cacheSize :: nat
  cc_waySize :: nat
  cc_prefetchCount :: nat
  cc_prefetchRatio :: fl
  cc_readCache :: bool
  cc_writeCache :: bool
  cc_readPrefetch :: bool
  cc_randomTweak :: bool
  cc_evictSuperPage :: bool
  cc_prefetchAll :: bool
  cc_policy :: "cache_policy option"
  cc_latency :: nat
  cc_cores :: nat
  cc_junk :: bool

definition cache_param_of :: "cache_conf \<Rightarrow> nat \<Rightarrow> nat \<Rightarrow> nat \<Rightarrow> cache_param res" where
  "cache_param_of cf pageSize maxPerf ioUnit =
     rbind (rguard (ioUnit \<noteq> 0) (Undefined ''division by zero'')) (\<lambda>_.
     let superPage = (if pageSize div ioUnit \<noteq> pageSize then True else cc_junk cf);
         lcSuper = (if cc_randomTweak cf then ioUnit else 1);
         lsize = (if cc_randomTweak cf then pageSize div ioUnit else pageSize);
         caching = cc_readCache cf \<or> cc_writeCache cf in
     rbind (rguard (\<not> caching \<or> lsize \<noteq> 0) (Undefined ''division by zero'')) (\<lambda>_.
     let lines = cc_cacheSize cf div lsize;
         ways = (if cc_waySize cf = 0 then wrap32 (max lines 1) else cc_waySize cf);
         sets = (if cc_waySize cf = 0 then 1 else wrap32 (max (lines div cc_waySize cf) 1)) in
     rbind (rguard (\<not> caching \<or> cc_policy cf \<noteq> None) (Panic ''Undefined cache evict policy'')) (\<lambda>_.
     Inr \<lparr>superPageSize = pageSize, parallelIO = maxPerf, lineCountInSuperPage = lcSuper,
          lineCountInMaxIO = wrap32 (maxPerf * lcSuper), lineSize = lsize, setSize = sets, waySize = ways,
          distMax = wrap32 (cc_waySize cf + 4294967295), prefetchIOCount = cc_prefetchCount cf,
          prefetchIORatio = cc_prefetchRatio cf, useReadCaching = cc_readCache cf,
          useWriteCaching = cc_writeCache cf, useReadPrefetch = cc_readPrefetch cf, bSuperPage = superPage,
          prefetchAll = cc_prefetchAll cf, evictSuperPage = cc_evictSuperPage cf,
          cachePolicy = (case cc_policy cf of None \<Rightarrow> EV_FIFO | Some e \<Rightarrow> e),
          cacheLatency = (if cc_cores cf = 0 then 0 else cc_latency cf div cc_cores cf)\<rparr>)))"

definition cache_new :: "cache_param \<Rightarrow> cache" where
  "cache_new p = \<lparr>k_data = replicate (setSize p) (replicate (waySize p) line0),
     k_evict = replicate (lineCountInSuperPage p) (replicate (parallelIO p) None),
     k_detect = \<lparr>sd_enabled = False, sd_last = \<lparr>i_reqID = 1, i_reqSubID = 0, i_offset = 0, i_length = 0,
                 i_range = \<lparr>slpn = 0, nlp = 0\<rparr>\<rparr>, sd_hitCounter = 0, sd_accessCounter = 0\<rparr>,
     k_prefetchTrigger = U64MAX, k_lastPrefetched = 0,
     k_stat = \<lparr>cs_readRequest = 0, cs_readCache = 0, cs_writeRequest = 0, cs_writeCache = 0\<rparr>\<rparr>"

section \<open>Lines\<close>

definition line_at :: "cache \<Rightarrow> line_ptr \<Rightarrow> line" where
  "line_at k q = k_data k ! fst q ! snd q"

definition set_line :: "line_ptr \<Rightarrow> (line \<Rightarrow> line) \<Rightarrow> cache \<Rightarrow> cache" where
  "set_line q f k = k\<lparr>k_data := (k_data k)[fst q := (k_data k ! fst q)[snd q := f (line_at k q)]]\<rparr>"

definition evict_at :: "cache \<Rightarrow> nat \<Rightarrow> nat \<Rightarrow> line_ptr option" where
  "evict_at k row col = k_evict k ! row ! col"

definition set_evict :: "nat \<Rightarrow> nat \<Rightarrow> line_ptr option \<Rightarrow> cache \<Rightarrow> cache" where
  "set_evict row col v k = k\<lparr>k_evict := (k_evict k)[row := (k_evict k ! row)[col := v]]\<rparr>"

definition calcSetIndex :: "cache_param \<Rightarrow> nat \<Rightarrow> nat" where
  "calcSetIndex p lca = lca mod setSize p"

definition calcIOPosition :: "cache_param \<Rightarrow> nat \<Rightarrow> nat \<times> nat" where
  "calcIOPosition p lca = (let tmp = lca mod lineCountInMaxIO p in
     (tmp mod lineCountInSuperPage p, tmp div lineCountInSuperPage p))"

definition meta_time :: "cache_param \<Rightarrow> nat" where
  "meta_time p = cacheLatency p * 8"

fun scan_valid :: "nat \<Rightarrow> nat \<Rightarrow> line list \<Rightarrow> nat \<Rightarrow> nat \<Rightarrow> nat \<times> nat" where
  "scan_valid d lca [] i t = (i, t)"
| "scan_valid d lca (l # ls) i t =
     (if l_valid l \<and> l_tag l = lca then (i, t + d) else scan_valid d lca ls (Suc i) (t + d))"

definition getValidWay :: "cache_param \<Rightarrow> cache \<Rightarrow> nat \<Rightarrow> nat \<Rightarrow> nat \<times> nat" where
  "getValidWay p k lca tick = scan_valid (meta_time p) lca (k_data k ! calcSetIndex p lca) 0 tick"

fun scan_empty :: "nat \<Rightarrow> line list \<Rightarrow> nat \<Rightarrow> nat \<Rightarrow> nat \<Rightarrow> nat \<Rightarrow> nat \<times> nat" where
  "scan_empty d [] i ret least t = (ret, t)"
| "scan_empty d (l # ls) i ret least t =
     (if \<not> l_valid l then
        (if l_insertedAt l < least then scan_empty d ls (Suc i) i (l_insertedAt l) (t + d)
         else scan_empty d ls (Suc i) ret least (t + d))
      else scan_empty d ls (Suc i) ret least t)"

definition getEmptyWay :: "cache_param \<Rightarrow> cache \<Rightarrow> nat \<Rightarrow> nat \<Rightarrow> nat \<times> nat" where
  "getEmptyWay p k setIdx tick = scan_empty (meta_time p) (k_data k ! setIdx) 0 (waySize p) U64MAX tick"

fun scan_min :: "(line \<Rightarrow> nat) \<Rightarrow> nat \<Rightarrow> line list \<Rightarrow> nat \<Rightarrow> nat \<Rightarrow> nat \<Rightarrow> nat \<Rightarrow> nat \<times> nat" where
  "scan_min key d [] i ret least t = (ret, t)"
| "scan_min key d (l # ls) i ret least t =
     (if key l < least then scan_min key d ls (Suc i) i (key l) (t + d)
      else scan_min key d ls (Suc i) ret least (t + d))"

text \<open>\<open>evictFunction\<close>: the way to evict; the random policy can name one the set does not have.\<close>

definition evictFunction :: "cache_param \<Rightarrow> 'w cache_low \<Rightarrow> cache \<Rightarrow> nat \<Rightarrow> nat \<Rightarrow> 'w \<Rightarrow> (nat \<times> nat \<times> 'w) res" where
  "evictFunction p L k setIdx tick w =
     (case cachePolicy p of
        EV_RANDOM \<Rightarrow> (case b_dist L (distMax p) w of (i, w) \<Rightarrow>
          rbind (rguard (i < waySize p) (Undefined ''line index'')) (\<lambda>_. Inr (i, tick, w)))
      | EV_FIFO \<Rightarrow> (case scan_min l_insertedAt (meta_time p) (k_data k ! setIdx) 0 0 U64MAX tick of (i, t) \<Rightarrow> Inr (i, t, w))
      | EV_LRU \<Rightarrow> (case scan_min l_lastAccessed (meta_time p) (k_data k ! setIdx) 0 0 U64MAX tick of (i, t) \<Rightarrow> Inr (i, t, w)))"

definition compareFunction :: "cache_param \<Rightarrow> 'w cache_low \<Rightarrow> cache \<Rightarrow> line_ptr option \<Rightarrow> line_ptr option \<Rightarrow> 'w \<Rightarrow> line_ptr option \<times> 'w" where
  "compareFunction p L k a b w =
     (case (a, b) of
        (Some x, Some y) \<Rightarrow>
          (case cachePolicy p of
             EV_RANDOM \<Rightarrow> (case b_dist L (distMax p) w of (i, w) \<Rightarrow> (if i > waySize p div 2 then a else b, w))
           | EV_FIFO \<Rightarrow> (if l_insertedAt (line_at k x) < l_insertedAt (line_at k y) then a else b, w)
           | EV_LRU \<Rightarrow> (if l_lastAccessed (line_at k x) < l_lastAccessed (line_at k y) then a else b, w))
      | (Some x, None) \<Rightarrow> (a, w)
      | (None, _) \<Rightarrow> (b, w))"

section \<open>Sequential access detection\<close>

definition byte_pos :: "cache_param \<Rightarrow> icl_request \<Rightarrow> nat" where
  "byte_pos p r = slpn (i_range r) * lineSize p + i_offset r"

definition checkSequential :: "cache_param \<Rightarrow> icl_request \<Rightarrow> seq_detect \<Rightarrow> seq_detect" where
  "checkSequential p req d =
     (if i_reqID (sd_last d) = i_reqID req then
        d\<lparr>sd_last := (sd_last d)\<lparr>i_range := i_range req, i_offset := i_offset req, i_length := i_length req\<rparr>\<rparr>
      else
        (if wrap64 (byte_pos p (sd_last d) + i_length (sd_last d)) = wrap64 (byte_pos p req) then
           if \<not> sd_enabled d then
             let hits = wrap32 (sd_hitCounter d + 1);
                 acc = wrap32 (sd_accessCounter d + i_offset (sd_last d) + i_length (sd_last d)) in
             d\<lparr>sd_hitCounter := hits, sd_accessCounter := acc,
               sd_enabled := prefetchIOCount p \<le> hits \<and>
                 (let x = fl_div 24 (fl_of_nat 24 acc) (fl_of_nat 24 (superPageSize p)) in
                  fl_less (prefetchIORatio p) x \<or> (x = prefetchIORatio p \<and> x \<noteq> NaN)), sd_last := req\<rparr>
           else d\<lparr>sd_last := req\<rparr>
         else d\<lparr>sd_enabled := False, sd_hitCounter := 0, sd_accessCounter := 0, sd_last := req\<rparr>))"

section \<open>Eviction\<close>

text \<open>The request for the single I/O unit \<open>i\<close> of an LPN.\<close>

definition unit_request :: "cache_param \<Rightarrow> ftl_request \<Rightarrow> nat \<Rightarrow> nat \<Rightarrow> ftl_request" where
  "unit_request p r lpn i = r\<lparr>f_lpn := lpn, f_ioFlag := bs_set (bs_reset_all (f_ioFlag r)) i True\<rparr>"

definition evict_slot :: "cache_param \<Rightarrow> 'w cache_low \<Rightarrow> bool \<Rightarrow> nat \<Rightarrow> nat \<Rightarrow> nat \<Rightarrow> cache \<times> 'w \<Rightarrow> (cache \<times> 'w) res" where
  "evict_slot p L flush tick row col = (\<lambda>(k, w).
     (case evict_at k row col of
        None \<Rightarrow> Inr (k, w)
      | Some q \<Rightarrow>
          let l = line_at k q in
          rbind (if l_valid l \<and> l_dirty l
                 then b_ftl_write L (unit_request p (ftl_request_new (lineCountInSuperPage p))
                        (l_tag l div lineCountInSuperPage p) row) tick w
                 else Inr (tick, w)) (\<lambda>(beginAt, w).
          Inr (set_evict row col None (set_line q (\<lambda>l. l\<lparr>
                 l_valid := (if flush then False else l_valid l), l_tag := (if flush then 0 else l_tag l),
                 l_insertedAt := beginAt, l_lastAccessed := beginAt, l_dirty := False\<rparr>) k), w))))"

definition io_slots :: "cache_param \<Rightarrow> (nat \<times> nat) list" where
  "io_slots p = List.product [0..<lineCountInSuperPage p] [0..<parallelIO p]"

definition evictCache :: "cache_param \<Rightarrow> 'w cache_low \<Rightarrow> bool \<Rightarrow> nat \<Rightarrow> cache \<Rightarrow> 'w \<Rightarrow> (cache \<times> 'w) res" where
  "evictCache p L flush tick k w =
     rfold (\<lambda>(row, col). evict_slot p L flush tick row col) (io_slots p) (k, w)"

section \<open>Read\<close>

type_synonym read_list = "(nat \<times> line_ptr) list"

definition touch :: "nat \<Rightarrow> line \<Rightarrow> line" where
  "touch t l = l\<lparr>l_insertedAt := t, l_lastAccessed := t\<rparr>"

text \<open>One address of the first loop: find a way for it, unless it is cached.\<close>

definition claim_line :: "cache_param \<Rightarrow> 'w cache_low \<Rightarrow> nat \<Rightarrow> nat \<Rightarrow> cache \<times> read_list \<times> nat \<times> 'w \<Rightarrow> (cache \<times> read_list \<times> nat \<times> 'w) res" where
  "claim_line p L tick lca = (\<lambda>(k, rl, fin, w).
     (case getValidWay p k lca tick of (v, b) \<Rightarrow>
      if v \<noteq> waySize p then Inr (k, rl, fin, w)
      else case getEmptyWay p k (calcSetIndex p lca) b of (wy, b) \<Rightarrow>
        rbind (if wy = waySize p then
                 rbind (evictFunction p L k (calcSetIndex p lca) b w) (\<lambda>(wy, b, w).
                 let l = line_at k (calcSetIndex p lca, wy); (row, col) = calcIOPosition p (l_tag l) in
                 Inr (wy, b, w, if l_dirty l then set_evict row col (Some (calcSetIndex p lca, wy)) k else k))
               else Inr (wy, b, w, k)) (\<lambda>(wy, b, w, k).
        Inr (set_line (calcSetIndex p lca, wy) (\<lambda>l. (touch b l)\<lparr>l_valid := True, l_dirty := False\<rparr>) k,
             rl @ [(lca, calcSetIndex p lca, wy)], max fin b, w))))"

text \<open>One entry of the second loop: read the unit from the FTL into its line.\<close>

definition fill_line :: "cache_param \<Rightarrow> 'w cache_low \<Rightarrow> icl_request \<Rightarrow> nat \<Rightarrow> nat \<times> line_ptr \<Rightarrow> cache \<times> nat \<times> 'w \<Rightarrow> (cache \<times> nat \<times> 'w) res" where
  "fill_line p L req tick = (\<lambda>(lca, q) (k, fin, w).
     rbind (b_ftl_read L (unit_request p (ftl_of_icl (lineCountInSuperPage p) req)
              (lca div lineCountInSuperPage p) (lca mod lineCountInSuperPage p)) tick w) (\<lambda>(b, w).
     rbind (b_dram_write L (Some q) (lineSize p) (l_insertedAt (line_at k q)) w) (\<lambda>(d, w).
     let b = max b d in
     Inr (set_line q (\<lambda>l. (touch b l)\<lparr>l_tag := lca\<rparr>) k, if lca = slpn (i_range req) then b else fin, w))))"

text \<open>The code at \<open>ICL_GENERIC_CACHE_READ\<close>; \<open>hit\<close> tells a prefetch from a miss.\<close>

definition read_fill :: "cache_param \<Rightarrow> 'w cache_low \<Rightarrow> icl_request \<Rightarrow> bool \<Rightarrow> nat \<Rightarrow> nat \<Rightarrow> cache \<Rightarrow> 'w \<Rightarrow> (nat \<times> cache \<times> 'w) res" where
  "read_fill p L req hit arrived tick k w =
     (let ahead = sd_enabled (k_detect k); begin = slpn (i_range req);
          len = (if prefetchAll p \<or> \<not> bSuperPage p then lineCountInMaxIO p else lineCountInSuperPage p);
          k = (if ahead then k\<lparr>k_prefetchTrigger := begin + len div 2, k_lastPrefetched := begin + len\<rparr> else k);
          w = (if ahead then b_dram_sched L False w else w);
          last = (if ahead then begin + len else begin + 1) in
      rbind (rfold (claim_line p L tick) [begin..<last] (k, [], tick, w)) (\<lambda>(k, rl, fin, w).
      rbind (evictCache p L True fin k w) (\<lambda>(k, w).
      rbind (rfold (fill_line p L req fin) rl (k, fin, w)) (\<lambda>(k, fin2, w).
      Inr (if ahead \<and> hit then arrived else fin2, k, if ahead then b_dram_sched L True w else w)))))"

definition count_read :: "bool \<Rightarrow> cache \<Rightarrow> cache" where
  "count_read hit k = k\<lparr>k_stat := (k_stat k)\<lparr>cs_readRequest := cs_readRequest (k_stat k) + 1,
     cs_readCache := cs_readCache (k_stat k) + (if hit then 1 else 0)\<rparr>\<rparr>"

definition charge :: "'w cache_low \<Rightarrow> cpu_fn \<Rightarrow> nat \<Rightarrow> 'w \<Rightarrow> nat \<times> 'w" where
  "charge L fn tick w = (case b_cpu L fn w of (d, w) \<Rightarrow> (tick + d, w))"

definition cache_read :: "cache_param \<Rightarrow> 'w cache_low \<Rightarrow> icl_request \<Rightarrow> nat \<Rightarrow> cache \<Rightarrow> 'w \<Rightarrow> (bool \<times> nat \<times> cache \<times> 'w) res" where
  "cache_read p L req tick k w =
     (if useReadCaching p then
        let k = (if useReadPrefetch p then k\<lparr>k_detect := checkSequential p req (k_detect k)\<rparr> else k);
            setIdx = calcSetIndex p (slpn (i_range req)) in
        case getValidWay p k (slpn (i_range req)) tick of (wy, t1) \<Rightarrow>
        rbind (if wy \<noteq> waySize p then
                 let q = (setIdx, wy); t2 = max t1 (l_insertedAt (line_at k q));
                     k = set_line q (\<lambda>l. l\<lparr>l_lastAccessed := t2\<rparr>) k in
                 rbind (b_dram_read L (Some q) (i_length req) t2 w) (\<lambda>(t3, w).
                 if useReadPrefetch p \<and> slpn (i_range req) = k_prefetchTrigger k then
                   rbind (read_fill p L (req\<lparr>i_range := (i_range req)\<lparr>slpn := k_lastPrefetched k\<rparr>\<rparr>) True t3 t1 k w)
                     (\<lambda>(t, k, w). Inr (True, t, k, w))
                 else Inr (True, t3, k, w))
               else rbind (read_fill p L req False t1 t1 k w) (\<lambda>(t, k, w). Inr (False, t, k, w)))
          (\<lambda>(hit, t, k, w). case charge L FN_READ t w of (t, w) \<Rightarrow> Inr (hit, t, count_read hit k, w))
      else
        rbind (b_dram_write L None (i_length req) tick w) (\<lambda>(t, w).
        rbind (b_ftl_read L (ftl_of_icl (lineCountInSuperPage p) req) t w) (\<lambda>(t, w).
        Inr (False, t, count_read False k, w))))"

section \<open>Write\<close>

definition count_write :: "bool \<Rightarrow> cache \<Rightarrow> cache" where
  "count_write hit k = k\<lparr>k_stat := (k_stat k)\<lparr>cs_writeRequest := cs_writeRequest (k_stat k) + 1,
     cs_writeCache := cs_writeCache (k_stat k) + (if hit then 1 else 0)\<rparr>\<rparr>"

text \<open>Collecting one candidate per I/O position among the valid lines.\<close>

definition collect_line :: "cache_param \<Rightarrow> 'w cache_low \<Rightarrow> line_ptr \<Rightarrow> cache \<times> 'w \<Rightarrow> cache \<times> 'w" where
  "collect_line p L q = (\<lambda>(k, w).
     if l_valid (line_at k q) then
       case calcIOPosition p (l_tag (line_at k q)) of (row, col) \<Rightarrow>
       case compareFunction p L k (evict_at k row col) (Some q) w of (r, w) \<Rightarrow> (set_evict row col r k, w)
     else (k, w))"

definition all_lines :: "cache_param \<Rightarrow> line_ptr list" where
  "all_lines p = List.product [0..<setSize p] [0..<waySize p]"

text \<open>In super-page mode the candidates of a row are merged into its last column.\<close>

definition merge_slot :: "cache_param \<Rightarrow> 'w cache_low \<Rightarrow> nat \<times> nat \<Rightarrow> cache \<times> 'w \<Rightarrow> cache \<times> 'w" where
  "merge_slot p L = (\<lambda>(row, col) (k, w).
     case compareFunction p L k (evict_at k row col) (evict_at k row (col + 1)) w of (r, w) \<Rightarrow>
     (set_evict row col None (set_evict row (col + 1) r k), w))"

definition merge_slots :: "cache_param \<Rightarrow> (nat \<times> nat) list" where
  "merge_slots p = List.product [0..<lineCountInSuperPage p] [0..<parallelIO p - 1]"

definition flushes_set :: "cache_param \<Rightarrow> cache \<Rightarrow> nat \<Rightarrow> bool" where
  "flushes_set p k setIdx = list_ex (\<lambda>(row, col). case evict_at k row col of None \<Rightarrow> False
     | Some q \<Rightarrow> calcSetIndex p (l_tag (line_at k q)) = setIdx) (io_slots p)"

definition pick_line :: "cache_param \<Rightarrow> 'w cache_low \<Rightarrow> cache \<Rightarrow> nat \<Rightarrow> nat \<Rightarrow> line_ptr option \<times> 'w \<Rightarrow> line_ptr option \<times> 'w" where
  "pick_line p L k setIdx wy = (\<lambda>(r, w).
     if l_valid (line_at k (setIdx, wy)) then compareFunction p L k r (Some (setIdx, wy)) w else (r, w))"

definition choose_evictions :: "cache_param \<Rightarrow> 'w cache_low \<Rightarrow> nat \<Rightarrow> cache \<Rightarrow> 'w \<Rightarrow> cache \<times> 'w" where
  "choose_evictions p L setToFlush k w =
     (case fold (collect_line p L) (all_lines p) (k, w) of (k, w) \<Rightarrow>
      case (if evictSuperPage p then fold (merge_slot p L) (merge_slots p) (k, w) else (k, w)) of (k, w) \<Rightarrow>
      if flushes_set p k setToFlush then (k, w)
      else case fold (pick_line p L k setToFlush) [0..<waySize p] (None, w) of
        (None, w) \<Rightarrow> (k, w)
      | (Some q, w) \<Rightarrow> (case calcIOPosition p (l_tag (line_at k q)) of (row, col) \<Rightarrow> (set_evict row col (Some q) k, w)))"

text \<open>The write of an address whose set is full.\<close>

definition write_evict :: "cache_param \<Rightarrow> 'w cache_low \<Rightarrow> icl_request \<Rightarrow> nat \<Rightarrow> cache \<Rightarrow> 'w \<Rightarrow> (bool \<times> nat \<times> cache \<times> 'w) res" where
  "write_evict p L req t1 k w =
     (let lca = slpn (i_range req); setIdx = calcSetIndex p lca; t2 = t1 + cacheLatency p * setSize p * waySize p * 8 in
      case choose_evictions p L setIdx k w of (k, w) \<Rightarrow>
      rbind (evictCache p L True t2 k w) (\<lambda>(k, w).
      case getEmptyWay p k setIdx t2 of (wy, t3) \<Rightarrow>
      rbind (rguard (wy \<noteq> waySize p) (Panic ''Cache corrupted!'')) (\<lambda>_.
      rbind (b_dram_write L (Some (setIdx, wy)) (i_length req) t3 w) (\<lambda>(t, w).
      Inr (False, t, set_line (setIdx, wy) (\<lambda>l. (touch t l)\<lparr>l_valid := True, l_dirty := True, l_tag := lca\<rparr>) k, w)))))"

definition cache_write :: "cache_param \<Rightarrow> 'w cache_low \<Rightarrow> icl_request \<Rightarrow> nat \<Rightarrow> cache \<Rightarrow> 'w \<Rightarrow> (bool \<times> nat \<times> cache \<times> 'w) res" where
  "cache_write p L req tick k w =
     (let lca = slpn (i_range req); rq = ftl_of_icl (lineCountInSuperPage p) req;
          dirty = i_length req < lineSize p; setIdx = calcSetIndex p lca in
      rbind (if dirty then Inr (tick, w) else b_ftl_write L rq tick w) (\<lambda>(flash, w).
      if useWriteCaching p then
        case getValidWay p k lca tick of (wy, t1) \<Rightarrow>
        rbind (if wy \<noteq> waySize p then
                 let q = (setIdx, wy); t2 = max t1 (l_insertedAt (line_at k q));
                     k = set_line q (\<lambda>l. (touch (if dirty then t2 else flash) l)\<lparr>l_dirty := dirty\<rparr>) k in
                 rbind (b_dram_write L (Some q) (i_length req) t2 w) (\<lambda>(t, w). Inr (True, t, k, w))
               else case getEmptyWay p k setIdx t1 of (wy, t1) \<Rightarrow>
                 if wy \<noteq> waySize p then
                   let q = (setIdx, wy); t2 = max t1 (l_insertedAt (line_at k q));
                       k = set_line q (\<lambda>l. (touch (if dirty then t2 else flash) l)
                             \<lparr>l_valid := True, l_dirty := dirty, l_tag := lca\<rparr>) k in
                   rbind (b_dram_write L (Some q) (i_length req) t2 w) (\<lambda>(t, w). Inr (True, t, k, w))
                 else
                   write_evict p L req t1 k w)
          (\<lambda>(hit, t, k, w). case charge L FN_WRITE t w of (t, w) \<Rightarrow> Inr (hit, t, count_write hit k, w))
      else
        rbind (if dirty then b_ftl_write L rq tick w else Inr (flash, w)) (\<lambda>(t, w).
        rbind (b_dram_read L None (i_length req) t (b_dram_sched L False w)) (\<lambda>(t, w).
        Inr (False, t, count_write False k, b_dram_sched L True w)))))"

section \<open>Flush, trim, format\<close>

definition in_range :: "lpn_range \<Rightarrow> nat \<Rightarrow> bool" where
  "in_range r t \<longleftrightarrow> slpn r \<le> t \<and> t < slpn r + nlp r"

text \<open>\<open>reqInternal\<close> is shared by all lines: its I/O flags accumulate.\<close>

definition add_unit :: "cache_param \<Rightarrow> nat \<Rightarrow> ftl_request \<Rightarrow> ftl_request" where
  "add_unit p tag r = r\<lparr>f_lpn := tag div lineCountInSuperPage p,
     f_ioFlag := bs_set (f_ioFlag r) (tag mod lineCountInSuperPage p) True\<rparr>"

definition invalidate_line :: "line_ptr \<Rightarrow> cache \<Rightarrow> cache" where
  "invalidate_line q = set_line q (\<lambda>l. l\<lparr>l_valid := False\<rparr>)"

definition flush_line :: "cache_param \<Rightarrow> 'w cache_low \<Rightarrow> lpn_range \<Rightarrow> line_ptr \<Rightarrow>
    ftl_request \<times> nat \<times> nat \<times> cache \<times> 'w \<Rightarrow> (ftl_request \<times> nat \<times> nat \<times> cache \<times> 'w) res" where
  "flush_line p L r q = (\<lambda>(rq, tick, fin, k, w).
     let tick = tick + meta_time p; l = line_at k q in
     if in_range r (l_tag l) then
       rbind (if l_dirty l then
                rbind (b_ftl_write L (add_unit p (l_tag l) rq) tick w) (\<lambda>(t, w). Inr (add_unit p (l_tag l) rq, max fin t, w))
              else Inr (rq, fin, w)) (\<lambda>(rq, fin, w).
       Inr (rq, tick, fin, invalidate_line q k, w))
     else Inr (rq, tick, fin, k, w))"

definition trim_line :: "cache_param \<Rightarrow> 'w cache_low \<Rightarrow> lpn_range \<Rightarrow> line_ptr \<Rightarrow>
    ftl_request \<times> nat \<times> nat \<times> cache \<times> 'w \<Rightarrow> (ftl_request \<times> nat \<times> nat \<times> cache \<times> 'w) res" where
  "trim_line p L r q = (\<lambda>(rq, tick, fin, k, w).
     let tick = tick + meta_time p; l = line_at k q in
     if in_range r (l_tag l) then
       rbind (b_ftl_trim L (add_unit p (l_tag l) rq) tick w) (\<lambda>(t, w).
       Inr (add_unit p (l_tag l) rq, tick, max fin t, invalidate_line q k, w))
     else Inr (rq, tick, fin, k, w))"

definition sweep :: "cache_param \<Rightarrow> 'w cache_low \<Rightarrow> cpu_fn \<Rightarrow>
    (line_ptr \<Rightarrow> ftl_request \<times> nat \<times> nat \<times> cache \<times> 'w \<Rightarrow> (ftl_request \<times> nat \<times> nat \<times> cache \<times> 'w) res) \<Rightarrow>
    nat \<Rightarrow> cache \<Rightarrow> 'w \<Rightarrow> (nat \<times> cache \<times> 'w) res" where
  "sweep p L fn step tick k w =
     (if useReadCaching p \<or> useWriteCaching p then
        rbind (rfold step (all_lines p) (ftl_request_new (lineCountInSuperPage p), tick, tick, k, w)) (\<lambda>(rq, tick, fin, k, w).
        case charge L fn (max tick fin) w of (t, w) \<Rightarrow> Inr (t, k, w))
      else Inr (tick, k, w))"

definition cache_flush :: "cache_param \<Rightarrow> 'w cache_low \<Rightarrow> lpn_range \<Rightarrow> nat \<Rightarrow> cache \<Rightarrow> 'w \<Rightarrow> (nat \<times> cache \<times> 'w) res" where
  "cache_flush p L r = sweep p L FN_FLUSH (flush_line p L r)"

definition cache_trim :: "cache_param \<Rightarrow> 'w cache_low \<Rightarrow> lpn_range \<Rightarrow> nat \<Rightarrow> cache \<Rightarrow> 'w \<Rightarrow> (nat \<times> cache \<times> 'w) res" where
  "cache_trim p L r = sweep p L FN_TRIM (trim_line p L r)"

definition drop_line :: "cache_param \<Rightarrow> nat \<Rightarrow> cache \<times> nat \<Rightarrow> cache \<times> nat" where
  "drop_line p lpn = (\<lambda>(k, tick). case getValidWay p k lpn tick of (wy, tick) \<Rightarrow>
     (if wy \<noteq> waySize p then invalidate_line (calcSetIndex p lpn, wy) k else k, tick))"

definition cache_format :: "cache_param \<Rightarrow> 'w cache_low \<Rightarrow> lpn_range \<Rightarrow> nat \<Rightarrow> cache \<Rightarrow> 'w \<Rightarrow> (nat \<times> cache \<times> 'w) res" where
  "cache_format p L r tick k w =
     (case (if useReadCaching p \<or> useWriteCaching p
            then fold (drop_line p) [slpn r..<slpn r + nlp r] (k, tick) else (k, tick)) of (k, tick) \<Rightarrow>
      rbind (b_ftl_format L \<lparr>slpn = slpn r div lineCountInSuperPage p,
               nlp = wrap64 (nlp r + U64MAX) div lineCountInSuperPage p + 1\<rparr> tick w) (\<lambda>(t, w).
      case charge L FN_FORMAT t w of (t, w) \<Rightarrow> Inr (t, k, w)))"

end
