(* ===== verification/IclLayer.thy ===== *)
theory IclLayer
  imports PageMap GenericCache HilQueue
begin

text \<open>
  The layers between the HIL and the mapping: the geometry \<open>pal/pal.cc\<close> reports, the FTL module
  \<open>ftl/ftl.cc\<close> around the page mapping, and \<open>icl/icl.cc\<close>, which splits a request into one cache access
  per logical page.  The accesses of a request all start at its tick; the request ends with the last.
\<close>

section \<open>Geometry\<close>

record pal_conf =
  pc_channel :: nat
  pc_package :: nat
  pc_die :: nat
  pc_plane :: nat
  pc_block :: nat
  pc_page :: nat
  pc_pageSize :: nat
  pc_superChannel :: bool
  pc_superPackage :: bool
  pc_superDie :: bool
  pc_superPlane :: bool
  pc_multiPlane :: bool

record pal_param =
  pp_superBlock :: nat
  pp_superPageSize :: nat
  pp_pageInSuperPage :: nat
  pp_block :: nat
  pp_page :: nat

definition pal_param_of :: "pal_conf \<Rightarrow> pal_param res" where
  "pal_param_of c =
     (let dims = [(pc_superChannel c, pc_channel c), (pc_superPackage c, pc_package c), (pc_superDie c, pc_die c),
                  (pc_multiPlane c \<or> pc_superPlane c, pc_plane c)];
          sps = fold (\<lambda>(s, n) x. if s then wrap32 (x * n) else x) dims (pc_pageSize c);
          sb = fold (\<lambda>(s, n) x. if s then x else wrap32 (x * n)) dims (pc_block c) in
      rbind (rguard (pc_pageSize c \<noteq> 0 \<and> (pc_multiPlane c \<longrightarrow> pc_plane c \<noteq> 0)) (Undefined ''division by zero'')) (\<lambda>_.
      Inr \<lparr>pp_superBlock = sb, pp_superPageSize = sps,
           pp_pageInSuperPage = sps div pc_pageSize c div (if pc_multiPlane c then pc_plane c else 1),
           pp_block = pc_block c, pp_page = pc_page c\<rparr>))"

lemma prod_pos: "\<forall>d \<in> set ds. (0::nat) < snd d \<Longrightarrow> 0 < prod_list (map snd ds)"
  by (induction ds) auto

text \<open>Super-blocks and super-pages split the array without loss, as long as no product wraps.\<close>

lemma pal_param_capacity:
  assumes "pal_param_of c = Inr p" "pc_pageSize c * (pc_channel c * pc_package c * pc_die c * pc_plane c) < 2 ^ 32"
    "pc_block c * (pc_channel c * pc_package c * pc_die c * pc_plane c) < 2 ^ 32"
    and "0 < pc_channel c" "0 < pc_package c" "0 < pc_die c" "0 < pc_plane c"
  shows "pp_superBlock p * pp_superPageSize p = pc_block c * pc_pageSize c * (pc_channel c * pc_package c * pc_die c * pc_plane c)"
proof -
  have wrap: "wrap32 (x * n) = x * n" if "x * n * m < 2 ^ 32" "0 < m" for x n m
  proof -
    have "x * n < 2 ^ 32" using that mult_le_mono2[of 1 m "x * n"] by linarith
    then show ?thesis by (simp add: wrap32_def)
  qed
  define ch pk di pl where d: "ch = pc_channel c" "pk = pc_package c" "di = pc_die c" "pl = pc_plane c"
  have pos: "0 < ch" "0 < pk" "0 < di" "0 < pl" using assms(4-7) d by simp_all
  have mul: "\<exists>a b. fold (\<lambda>(s, n) x. if s then wrap32 (x * n) else x) ds x = x * a \<and>
      fold (\<lambda>(s, n) y. if s then y else wrap32 (y * n)) ds y = y * b \<and> a * b = prod_list (map snd ds)"
    if "x * prod_list (map snd ds) < 2 ^ 32" "y * prod_list (map snd ds) < 2 ^ 32" "\<forall>d \<in> set ds. 0 < snd d" for ds :: "(bool \<times> nat) list" and x y
    using that
  proof (induction ds arbitrary: x y)
    case (Cons e ds)
    obtain s n where e: "e = (s, n)" by (cases e)
    have n: "0 < n" using Cons.prems(3) e by simp
    have pds: "0 < prod_list (map snd ds)" using Cons.prems(3) by (simp add: prod_pos)
    have lt: "z * prod_list (map snd ds) < 2 ^ 32" if "z * prod_list (map snd (e # ds)) < 2 ^ 32" for z
    proof -
      have "z * prod_list (map snd ds) * 1 \<le> z * prod_list (map snd ds) * n" by (rule mult_le_mono2) (use n in simp)
      moreover have "z * prod_list (map snd ds) * n = z * prod_list (map snd (e # ds))" using e by (simp add: ac_simps)
      ultimately show ?thesis using that by linarith
    qed
    show ?case
    proof (cases s)
      case True
      have w: "wrap32 (x * n) = x * n" using wrap[of x n "prod_list (map snd ds)"] Cons.prems(1) pds e by (simp add: mult.assoc)
      have "x * n * prod_list (map snd ds) < 2 ^ 32" using Cons.prems(1) e by (simp add: mult.assoc)
      from Cons.IH[OF this lt[OF Cons.prems(2)]] Cons.prems(3) obtain a b where
        ab: "fold (\<lambda>(s, n) x. if s then wrap32 (x * n) else x) ds (x * n) = x * n * a"
          "fold (\<lambda>(s, n) y. if s then y else wrap32 (y * n)) ds y = y * b" "a * b = prod_list (map snd ds)" by auto
      then show ?thesis using True e w by (intro exI[of _ "n * a"] exI[of _ b]) (simp add: mult.assoc)
    next
      case False
      have w: "wrap32 (y * n) = y * n" using wrap[of y n "prod_list (map snd ds)"] Cons.prems(2) pds e by (simp add: mult.assoc)
      have "y * n * prod_list (map snd ds) < 2 ^ 32" using Cons.prems(2) e by (simp add: mult.assoc)
      from Cons.IH[OF lt[OF Cons.prems(1)] this] Cons.prems(3) obtain a b where
        ab: "fold (\<lambda>(s, n) x. if s then wrap32 (x * n) else x) ds x = x * a"
          "fold (\<lambda>(s, n) y. if s then y else wrap32 (y * n)) ds (y * n) = y * n * b" "a * b = prod_list (map snd ds)" by auto
      then show ?thesis using False e w by (intro exI[of _ a] exI[of _ "n * b"]) (simp add: mult.assoc mult.left_commute)
    qed
  qed auto
  let ?ds = "[(pc_superChannel c, ch), (pc_superPackage c, pk), (pc_superDie c, di), (pc_multiPlane c \<or> pc_superPlane c, pl)]"
  have pr: "prod_list (map snd ?ds) = ch * pk * di * pl" by simp
  have "\<forall>e \<in> set ?ds. 0 < snd e" using pos by simp
  from mul[of "pc_pageSize c" ?ds "pc_block c", unfolded pr, OF _ _ this] assms(2,3) obtain a b where
    ab: "fold (\<lambda>(s, n) x. if s then wrap32 (x * n) else x) ?ds (pc_pageSize c) = pc_pageSize c * a"
      "fold (\<lambda>(s, n) y. if s then y else wrap32 (y * n)) ?ds (pc_block c) = pc_block c * b" "a * b = ch * pk * di * pl"
    by (auto simp: d)
  have p: "pp_superPageSize p = pc_pageSize c * a" "pp_superBlock p = pc_block c * b"
    using assms(1) ab(1,2) by (auto simp: pal_param_of_def Let_def res_simps d simp del: fold_simps)
  have "pp_superBlock p * pp_superPageSize p = pc_block c * pc_pageSize c * (a * b)" by (simp add: p)
  then show ?thesis by (simp only: ab(3) d)
qed

section \<open>The FTL module\<close>

text \<open>\<open>ftl/ftl.cc\<close>: \<open>overProvision\<close> is a \<open>float\<close>, and the product is computed in \<open>float\<close>.\<close>

definition ftl_param_of :: "pal_param \<Rightarrow> fl \<Rightarrow> ftl_param res" where
  "ftl_param_of p overProvision =
     rbind (fl_to_nat (fl_mul 24 (fl_of_nat 24 (pp_superBlock p)) (fl_sub 24 (Fin 1) overProvision))) (\<lambda>logical.
     rbind (rguard (pp_block p \<noteq> 0) (Undefined ''division by zero'')) (\<lambda>_.
     Inr \<lparr>totalPhysicalBlocks = pp_superBlock p, totalLogicalBlocks = logical, pagesInBlock = pp_page p,
          pageSize = pp_superPageSize p, ioUnitInPage = pp_pageInSuperPage p,
          pageCountToMaxPerf = pp_superBlock p div pp_block p\<rparr>))"

definition ftl_new :: "'w ftl_env \<Rightarrow> 'w \<Rightarrow> (pm_state \<times> 'w) res" where
  "ftl_new E w =
     rbind (pm_new E) (\<lambda>s.
     rbind (rguard (\<not> totalPhysicalBlocks (e_param E) \<le> totalLogicalBlocks (e_param E) + pageCountToMaxPerf (e_param E))
              (Panic ''FTL Over-Provision Ratio is too small'')) (\<lambda>_.
     rbind (pm_initialize E s w) (\<lambda>(ok, s, w). Inr (s, w))))"

definition ftl_charge :: "'w ftl_env \<Rightarrow> cpu_fn \<Rightarrow> (nat \<times> pm_state \<times> 'w) res \<Rightarrow> (nat \<times> pm_state \<times> 'w) res" where
  "ftl_charge E fn m = rbind m (\<lambda>(t, s, w). case cpu_charge (e_low E) CPU_FTL fn t w of (t, w) \<Rightarrow> Inr (t, s, w))"

definition ftl_read :: "'w ftl_env \<Rightarrow> ftl_request \<Rightarrow> nat \<Rightarrow> pm_state \<Rightarrow> 'w \<Rightarrow> (nat \<times> pm_state \<times> 'w) res" where
  "ftl_read E r t s w = ftl_charge E FN_READ (pm_read E r t s w)"

definition ftl_write :: "'w ftl_env \<Rightarrow> ftl_request \<Rightarrow> nat \<Rightarrow> pm_state \<Rightarrow> 'w \<Rightarrow> (nat \<times> pm_state \<times> 'w) res" where
  "ftl_write E r t s w = ftl_charge E FN_WRITE (pm_write E r t s w)"

definition ftl_trim :: "'w ftl_env \<Rightarrow> ftl_request \<Rightarrow> nat \<Rightarrow> pm_state \<Rightarrow> 'w \<Rightarrow> (nat \<times> pm_state \<times> 'w) res" where
  "ftl_trim E r t s w = ftl_charge E FN_TRIM (pm_trim E r t s w)"

definition ftl_format :: "'w ftl_env \<Rightarrow> lpn_range \<Rightarrow> nat \<Rightarrow> pm_state \<Rightarrow> 'w \<Rightarrow> (nat \<times> pm_state \<times> 'w) res" where
  "ftl_format E r t s w = ftl_charge E FN_FORMAT (pm_format E r t s w)"

definition ftl_getUsedPageCount :: "'w ftl_env \<Rightarrow> nat \<Rightarrow> nat \<Rightarrow> pm_state \<Rightarrow> nat" where
  "ftl_getUsedPageCount E a b s = pm_mappedLogicalPages (pm_getStatus E a b s)"

text \<open>The FTL and the layers below it, as the cache calls them; the DRAM address is not used there.\<close>

definition ftl_cache_low :: "'w ftl_env \<Rightarrow> (bool \<Rightarrow> 'w \<Rightarrow> 'w) \<Rightarrow> (pm_state \<times> 'w) cache_low" where
  "ftl_cache_low E sched =
     \<lparr>b_ftl_read = (\<lambda>r t (s, w). ftl_read E r t s w), b_ftl_write = (\<lambda>r t (s, w). ftl_write E r t s w),
      b_ftl_trim = (\<lambda>r t (s, w). ftl_trim E r t s w), b_ftl_format = (\<lambda>r t (s, w). ftl_format E r t s w),
      b_dram_read = (\<lambda>q n t (s, w). rbind (ll_dram_read (e_low E) 0 n t w) (\<lambda>(t, w). Inr (t, s, w))),
      b_dram_write = (\<lambda>q n t (s, w). rbind (ll_dram_write (e_low E) 0 n t w) (\<lambda>(t, w). Inr (t, s, w))),
      b_dram_sched = (\<lambda>b (s, w). (s, sched b w)),
      b_cpu = (\<lambda>fn (s, w). case ll_cpu (e_low E) CPU_GENERIC_CACHE fn w of (d, w) \<Rightarrow> (d, s, w)),
      b_dist = (\<lambda>n (s, w). case ll_random (e_low E) n w of (i, w) \<Rightarrow> (i, s, w))\<rparr>"

section \<open>The ICL\<close>

record icl_geometry =
  ig_totalLogicalPages :: nat
  ig_logicalPageSize :: nat
  ig_ratio :: nat

definition icl_new :: "ftl_param \<Rightarrow> bool \<Rightarrow> icl_geometry res" where
  "icl_new P randomTweak =
     rbind (rguard (randomTweak \<longrightarrow> ioUnitInPage P \<noteq> 0) (Undefined ''division by zero'')) (\<lambda>_.
     Inr (if randomTweak then \<lparr>ig_totalLogicalPages = totalLogicalBlocks P * pagesInBlock P * ioUnitInPage P,
                               ig_logicalPageSize = pageSize P div ioUnitInPage P, ig_ratio = ioUnitInPage P\<rparr>
          else \<lparr>ig_totalLogicalPages = totalLogicalBlocks P * pagesInBlock P, ig_logicalPageSize = pageSize P,
                ig_ratio = ioUnitInPage P\<rparr>))"

text \<open>One page of a request: the remaining bytes, the offset into the first page, the latest finish.\<close>

definition icl_part :: "icl_geometry \<Rightarrow> icl_request \<Rightarrow> nat \<Rightarrow> nat \<times> nat \<Rightarrow> icl_request" where
  "icl_part G req i = (\<lambda>(remain, off). \<lparr>i_reqID = i_reqID req, i_reqSubID = i + 1, i_offset = off,
     i_length = min remain (wrap64 (ig_logicalPageSize G + 18446744073709551616 - off)),
     i_range = \<lparr>slpn = slpn (i_range req) + i, nlp = 0\<rparr>\<rparr>)"

definition icl_step :: "icl_geometry \<Rightarrow> (icl_request \<Rightarrow> nat \<Rightarrow> 'w \<Rightarrow> (nat \<times> 'w) res) \<Rightarrow> icl_request \<Rightarrow> nat \<Rightarrow> nat \<Rightarrow>
    nat \<times> nat \<times> nat \<times> 'w \<Rightarrow> (nat \<times> nat \<times> nat \<times> 'w) res" where
  "icl_step G acc req tick i = (\<lambda>(remain, off, fin, w).
     let r = icl_part G req i (remain, off) in
     rbind (acc r tick w) (\<lambda>(t, w). Inr (remain - i_length r, 0, max fin t, w)))"

definition icl_io :: "icl_geometry \<Rightarrow> (icl_request \<Rightarrow> nat \<Rightarrow> 'w \<Rightarrow> (nat \<times> 'w) res) \<Rightarrow> ('w \<Rightarrow> nat \<times> 'w) \<Rightarrow> icl_request \<Rightarrow> nat \<Rightarrow> 'w \<Rightarrow> (nat \<times> 'w) res" where
  "icl_io G acc cpu req tick w =
     rbind (rfold (icl_step G acc req tick) [0..<nlp (i_range req)] (i_length req, i_offset req, tick, w)) (\<lambda>(remain, off, fin, w).
     case cpu w of (d, w) \<Rightarrow> Inr (fin + d, w))"

text \<open>The state of the ICL is that of its cache; the world is the FTL with everything below.\<close>

record 'w icl_env =
  ie_geometry :: icl_geometry
  ie_param :: cache_param
  ie_low :: "'w cache_low"
  ie_cpu :: "cpu_fn \<Rightarrow> 'w \<Rightarrow> nat \<times> 'w"

definition icl_cpu :: "'w icl_env \<Rightarrow> cpu_fn \<Rightarrow> cache \<times> 'w \<Rightarrow> nat \<times> cache \<times> 'w" where
  "icl_cpu I fn = (\<lambda>(k, w). case ie_cpu I fn w of (d, w) \<Rightarrow> (d, k, w))"

definition icl_read :: "'w icl_env \<Rightarrow> icl_request \<Rightarrow> nat \<Rightarrow> cache \<times> 'w \<Rightarrow> (nat \<times> cache \<times> 'w) res" where
  "icl_read I = icl_io (ie_geometry I)
     (\<lambda>r t (k, w). rbind (cache_read (ie_param I) (ie_low I) r t k w) (\<lambda>(hit, t, k, w). Inr (t, k, w))) (icl_cpu I FN_READ)"

definition icl_write :: "'w icl_env \<Rightarrow> icl_request \<Rightarrow> nat \<Rightarrow> cache \<times> 'w \<Rightarrow> (nat \<times> cache \<times> 'w) res" where
  "icl_write I = icl_io (ie_geometry I)
     (\<lambda>r t (k, w). rbind (cache_write (ie_param I) (ie_low I) r t k w) (\<lambda>(hit, t, k, w). Inr (t, k, w))) (icl_cpu I FN_WRITE)"

definition icl_then :: "'w icl_env \<Rightarrow> cpu_fn \<Rightarrow> (nat \<times> cache \<times> 'w) res \<Rightarrow> (nat \<times> cache \<times> 'w) res" where
  "icl_then I fn m = rbind m (\<lambda>(t, kw). case icl_cpu I fn kw of (d, kw) \<Rightarrow> Inr (t + d, kw))"

definition icl_flush :: "'w icl_env \<Rightarrow> lpn_range \<Rightarrow> nat \<Rightarrow> cache \<times> 'w \<Rightarrow> (nat \<times> cache \<times> 'w) res" where
  "icl_flush I r t = (\<lambda>(k, w). icl_then I FN_FLUSH (cache_flush (ie_param I) (ie_low I) r t k w))"

definition icl_trim :: "'w icl_env \<Rightarrow> lpn_range \<Rightarrow> nat \<Rightarrow> cache \<times> 'w \<Rightarrow> (nat \<times> cache \<times> 'w) res" where
  "icl_trim I r t = (\<lambda>(k, w). icl_then I FN_TRIM (cache_trim (ie_param I) (ie_low I) r t k w))"

definition icl_format :: "'w icl_env \<Rightarrow> lpn_range \<Rightarrow> nat \<Rightarrow> cache \<times> 'w \<Rightarrow> (nat \<times> cache \<times> 'w) res" where
  "icl_format I r t = (\<lambda>(k, w). icl_then I FN_FORMAT (cache_format (ie_param I) (ie_low I) r t k w))"

definition icl_getLPNInfo :: "icl_geometry \<Rightarrow> nat \<times> nat" where
  "icl_getLPNInfo G = (ig_totalLogicalPages G, ig_logicalPageSize G)"

definition icl_getUsedPageCount :: "icl_geometry \<Rightarrow> (nat \<Rightarrow> nat \<Rightarrow> nat) \<Rightarrow> nat \<Rightarrow> nat \<Rightarrow> nat res" where
  "icl_getUsedPageCount G used a b =
     rbind (rguard (ig_ratio G \<noteq> 0) (Undefined ''division by zero'')) (\<lambda>_. Inr (used (a div ig_ratio G) (b div ig_ratio G) * ig_ratio G))"

text \<open>The ICL as the HIL calls it.\<close>

definition icl_as_ops :: "'w icl_env \<Rightarrow> (cache \<times> 'w) icl_ops" where
  "icl_as_ops I = \<lparr>n_read = icl_read I, n_write = icl_write I, n_flush = icl_flush I, n_trim = icl_trim I, n_format = icl_format I\<rparr>"

end
