(* ===== verification/CacheInv.thy ===== *)
theory CacheInv
  imports GenericCache
begin

text \<open>
  The invariant of the cache (every valid line is in the set of its tag, no tag is cached twice, no
  eviction is pending between requests) and its preservation by every operation; what an eviction, a
  flush and a write leave behind.
\<close>

declare split_paired_All [simp del] split_paired_Ex [simp del]

section \<open>Geometry\<close>

definition geometry_ok :: "cache_param \<Rightarrow> bool" where
  "geometry_ok p \<longleftrightarrow> 0 < setSize p \<and> 0 < waySize p \<and> 0 < lineCountInSuperPage p \<and> 0 < parallelIO p \<and>
     lineCountInMaxIO p = parallelIO p * lineCountInSuperPage p"

definition shape :: "cache_param \<Rightarrow> cache \<Rightarrow> bool" where
  "shape p k \<longleftrightarrow> length (k_data k) = setSize p \<and> (\<forall>s < setSize p. length (k_data k ! s) = waySize p) \<and>
     length (k_evict k) = lineCountInSuperPage p \<and> (\<forall>r < lineCountInSuperPage p. length (k_evict k ! r) = parallelIO p)"

definition ptr_ok :: "cache_param \<Rightarrow> line_ptr \<Rightarrow> bool" where
  "ptr_ok p q \<longleftrightarrow> fst q < setSize p \<and> snd q < waySize p"

definition slot_ok :: "cache_param \<Rightarrow> nat \<Rightarrow> nat \<Rightarrow> bool" where
  "slot_ok p r c \<longleftrightarrow> r < lineCountInSuperPage p \<and> c < parallelIO p"

lemma length_row_update [simp]: "length (xs[i := (xs ! i)[j := v]] ! s) = length (xs ! s)"
  by (cases "i = s"; cases "i < length xs") (auto simp: list_update_beyond)

lemma shape_set_line [simp]: "shape p (set_line q f k) = shape p k"
  by (simp add: shape_def set_line_def)

lemma shape_set_evict [simp]: "shape p (set_evict r c v k) = shape p k"
  by (simp add: shape_def set_evict_def)

lemma line_at_set_line:
  "shape p k \<Longrightarrow> ptr_ok p q \<Longrightarrow> line_at (set_line q f k) q' = (if q' = q then f (line_at k q) else line_at k q')"
  by (cases q; cases q') (auto simp: shape_def ptr_ok_def set_line_def line_at_def nth_list_update)

lemma evict_at_set_evict:
  "shape p k \<Longrightarrow> slot_ok p r c \<Longrightarrow> evict_at (set_evict r c v k) r' c' = (if r' = r \<and> c' = c then v else evict_at k r' c')"
  by (auto simp: shape_def slot_ok_def set_evict_def evict_at_def nth_list_update)

lemma line_at_set_evict [simp]: "line_at (set_evict r c v k) q = line_at k q"
  by (simp add: line_at_def set_evict_def)

lemma evict_at_set_line [simp]: "evict_at (set_line q f k) r c = evict_at k r c"
  by (simp add: evict_at_def set_line_def)

lemma k_data_set_evict [simp]: "k_data (set_evict r c v k) = k_data k"
  by (simp add: set_evict_def)

lemma io_position_ok: "geometry_ok p \<Longrightarrow> calcIOPosition p t = (r, c) \<Longrightarrow> slot_ok p r c \<and> r = t mod lineCountInSuperPage p"
  by (auto simp: calcIOPosition_def slot_ok_def geometry_ok_def Let_def mod_mod_cancel
      intro: less_mult_imp_div_less)

lemma set_index_ok: "geometry_ok p \<Longrightarrow> calcSetIndex p t < setSize p"
  by (simp add: calcSetIndex_def geometry_ok_def)

section \<open>Scans of a set\<close>

lemma scan_valid_ok:
  "scan_valid d lca ls i t = (j, t') \<Longrightarrow> i \<le> j \<and> j \<le> i + length ls \<and>
     (j < i + length ls \<longrightarrow> l_valid (ls ! (j - i)) \<and> l_tag (ls ! (j - i)) = lca) \<and>
     (j = i + length ls \<longrightarrow> (\<forall>n < length ls. \<not> (l_valid (ls ! n) \<and> l_tag (ls ! n) = lca)))"
proof (induction ls arbitrary: i t)
  case (Cons l ls)
  show ?case
  proof (cases "l_valid l \<and> l_tag l = lca")
    case False
    then have "scan_valid d lca ls (Suc i) (t + d) = (j, t')" using Cons.prems by auto
    note IH = Cons.IH[OF this]
    have "ls ! (j - Suc i) = (l # ls) ! (j - i)" using IH by (metis Suc_diff_Suc Suc_le_lessD nth_Cons_Suc)
    then show ?thesis using IH False by (auto simp: less_Suc_eq_0_disj)
  qed (use Cons.prems in auto)
qed simp

lemma getValidWay_ok:
  assumes "getValidWay p k lca tick = (wy, t)" "shape p k" "geometry_ok p"
  shows "wy \<le> waySize p"
    and "wy \<noteq> waySize p \<Longrightarrow> ptr_ok p (calcSetIndex p lca, wy) \<and> l_valid (line_at k (calcSetIndex p lca, wy)) \<and>
           l_tag (line_at k (calcSetIndex p lca, wy)) = lca"
    and "wy = waySize p \<Longrightarrow> ptr_ok p (calcSetIndex p lca, i) \<Longrightarrow> l_valid (line_at k (calcSetIndex p lca, i)) \<Longrightarrow>
           l_tag (line_at k (calcSetIndex p lca, i)) \<noteq> lca"
proof -
  have len: "length (k_data k ! calcSetIndex p lca) = waySize p"
    using assms(2) set_index_ok[OF assms(3)] by (simp add: shape_def)
  note sc = scan_valid_ok[OF assms(1)[unfolded getValidWay_def], unfolded len]
  show "wy \<le> waySize p" using sc by simp
  show "wy \<noteq> waySize p \<Longrightarrow> ptr_ok p (calcSetIndex p lca, wy) \<and> l_valid (line_at k (calcSetIndex p lca, wy)) \<and>
           l_tag (line_at k (calcSetIndex p lca, wy)) = lca"
    using sc set_index_ok[OF assms(3)] by (simp add: ptr_ok_def line_at_def)
  show "wy = waySize p \<Longrightarrow> ptr_ok p (calcSetIndex p lca, i) \<Longrightarrow> l_valid (line_at k (calcSetIndex p lca, i)) \<Longrightarrow>
           l_tag (line_at k (calcSetIndex p lca, i)) \<noteq> lca"
    using sc by (simp add: ptr_ok_def line_at_def)
qed

lemma scan_empty_ok:
  "scan_empty d ls i ret least t = (j, t') \<Longrightarrow>
     (j = ret \<or> (i \<le> j \<and> j < i + length ls \<and> \<not> l_valid (ls ! (j - i)))) \<and>
     ((\<exists>n < length ls. \<not> l_valid (ls ! n) \<and> l_insertedAt (ls ! n) < least) \<longrightarrow> i \<le> j \<and> j < i + length ls)"
proof (induction ls arbitrary: i ret least t)
  case (Cons l ls)
  have shift: "(l # ls) ! (j - i) = ls ! (j - Suc i)" if "Suc i \<le> j" for i
    using that by (metis Suc_diff_le diff_Suc_Suc nth_Cons_Suc)
  show ?case
  proof (cases "\<not> l_valid l \<and> l_insertedAt l < least")
    case True
    then have "scan_empty d ls (Suc i) i (l_insertedAt l) (t + d) = (j, t')" using Cons.prems by simp
    from Cons.IH[OF this] show ?thesis using True shift[of i] by (auto simp: Suc_le_eq)
  next
    case False
    then obtain t2 where "scan_empty d ls (Suc i) ret least t2 = (j, t')" using Cons.prems by (auto split: if_splits)
    from Cons.IH[OF this] show ?thesis using False shift[of i] by (auto simp: less_Suc_eq_0_disj Suc_le_eq)
  qed
qed simp

lemma getEmptyWay_ok:
  assumes "getEmptyWay p k s tick = (wy, t)" "shape p k" "s < setSize p"
  shows "wy \<noteq> waySize p \<Longrightarrow> ptr_ok p (s, wy) \<and> \<not> l_valid (line_at k (s, wy))"
    and "ptr_ok p (s, i) \<Longrightarrow> \<not> l_valid (line_at k (s, i)) \<Longrightarrow> l_insertedAt (line_at k (s, i)) < U64MAX \<Longrightarrow> wy \<noteq> waySize p"
proof -
  have len: "length (k_data k ! s) = waySize p" using assms(2,3) by (simp add: shape_def)
  note sc = scan_empty_ok[OF assms(1)[unfolded getEmptyWay_def], unfolded len]
  show "wy \<noteq> waySize p \<Longrightarrow> ptr_ok p (s, wy) \<and> \<not> l_valid (line_at k (s, wy))"
    using sc assms(3) by (auto simp: ptr_ok_def line_at_def)
  show "ptr_ok p (s, i) \<Longrightarrow> \<not> l_valid (line_at k (s, i)) \<Longrightarrow> l_insertedAt (line_at k (s, i)) < U64MAX \<Longrightarrow> wy \<noteq> waySize p"
    using sc by (auto simp: ptr_ok_def line_at_def)
qed

lemma scan_min_bound: "scan_min key d ls i ret least t = (j, t') \<Longrightarrow> j = ret \<or> (i \<le> j \<and> j < i + length ls)"
proof (induction ls arbitrary: i ret least t)
  case (Cons l ls)
  then show ?case by (fastforce split: if_splits)
qed simp

lemma evictFunction_ok:
  assumes "evictFunction p L k s tick w = Inr (wy, b, w')" "shape p k" "geometry_ok p" "s < setSize p"
  shows "ptr_ok p (s, wy)"
proof -
  have len: "length (k_data k ! s) = waySize p" using assms(2,4) by (simp add: shape_def)
  have "wy < waySize p" using assms(1,3) len
    by (cases "cachePolicy p") (auto simp: evictFunction_def res_simps geometry_ok_def dest!: scan_min_bound split: prod.splits)
  then show ?thesis using assms(4) by (simp add: ptr_ok_def)
qed

section \<open>Invariant\<close>

definition tags_ok :: "cache_param \<Rightarrow> cache \<Rightarrow> bool" where
  "tags_ok p k \<longleftrightarrow>
     (\<forall>q. ptr_ok p q \<and> l_valid (line_at k q) \<longrightarrow> calcSetIndex p (l_tag (line_at k q)) = fst q) \<and>
     (\<forall>q q'. ptr_ok p q \<and> ptr_ok p q' \<and> l_valid (line_at k q) \<and> l_valid (line_at k q') \<and>
        l_tag (line_at k q) = l_tag (line_at k q') \<longrightarrow> q = q')"

definition evict_clear :: "cache_param \<Rightarrow> cache \<Rightarrow> bool" where
  "evict_clear p k \<longleftrightarrow> (\<forall>r c. slot_ok p r c \<longrightarrow> evict_at k r c = None)"

definition evict_ptrs :: "cache_param \<Rightarrow> cache \<Rightarrow> bool" where
  "evict_ptrs p k \<longleftrightarrow> (\<forall>r c q. slot_ok p r c \<and> evict_at k r c = Some q \<longrightarrow> ptr_ok p q)"

definition cache_inv :: "cache_param \<Rightarrow> cache \<Rightarrow> bool" where
  "cache_inv p k \<longleftrightarrow> shape p k \<and> tags_ok p k \<and> evict_clear p k"

lemma evict_clear_ptrs: "evict_clear p k \<Longrightarrow> evict_ptrs p k"
  by (auto simp: evict_clear_def evict_ptrs_def)

lemma evict_ptrs_set: "shape p k \<Longrightarrow> evict_ptrs p k \<Longrightarrow> slot_ok p r c \<Longrightarrow> (\<forall>q. v = Some q \<longrightarrow> ptr_ok p q) \<Longrightarrow> evict_ptrs p (set_evict r c v k)"
  by (auto simp: evict_ptrs_def evict_at_set_evict)

lemma evict_ptrs_line [simp]: "evict_ptrs p (set_line q f k) = evict_ptrs p k"
  by (simp add: evict_ptrs_def)

lemma cache_new_inv: "cache_inv p (cache_new p)"
  by (auto simp: cache_inv_def shape_def tags_ok_def evict_clear_def cache_new_def line_at_def evict_at_def
      ptr_ok_def slot_ok_def line0_def)

text \<open>Lines that only lose their validity keep the tags in order.\<close>

definition fewer_lines :: "cache_param \<Rightarrow> cache \<Rightarrow> cache \<Rightarrow> bool" where
  "fewer_lines p k k' \<longleftrightarrow> (\<forall>q. ptr_ok p q \<longrightarrow> \<not> l_valid (line_at k' q) \<or>
     (l_valid (line_at k q) \<and> l_tag (line_at k' q) = l_tag (line_at k q) \<and> l_dirty (line_at k' q) = l_dirty (line_at k q)))"

lemma fewer_refl [simp]: "fewer_lines p k k"
  by (simp add: fewer_lines_def)

lemma fewer_trans: "fewer_lines p k1 k2 \<Longrightarrow> fewer_lines p k2 k3 \<Longrightarrow> fewer_lines p k1 k3"
  unfolding fewer_lines_def by metis

lemma fewer_tags: "fewer_lines p k k' \<Longrightarrow> tags_ok p k \<Longrightarrow> tags_ok p k'"
  unfolding fewer_lines_def tags_ok_def by metis

lemma fewer_data: "k_data k' = k_data k \<Longrightarrow> fewer_lines p k k'"
  by (simp add: fewer_lines_def line_at_def)

section \<open>Eviction\<close>

lemma evict_slot_ok:
  assumes "evict_slot p L True tick r c (k, w) = Inr (k', w')" "shape p k" "evict_ptrs p k" "slot_ok p r c"
  shows "shape p k' \<and> evict_ptrs p k' \<and> fewer_lines p k k' \<and> evict_at k' r c = None \<and>
    (\<forall>r' c'. slot_ok p r' c' \<and> (r' \<noteq> r \<or> c' \<noteq> c) \<longrightarrow> evict_at k' r' c' = evict_at k r' c') \<and>
    (\<forall>q. evict_at k r c = Some q \<longrightarrow> \<not> l_valid (line_at k' q))"
proof (cases "evict_at k r c")
  case None
  then show ?thesis using assms by (simp add: evict_slot_def)
next
  case (Some q)
  then have q: "ptr_ok p q" using assms(3,4) by (simp add: evict_ptrs_def)
  obtain b where k': "k' = set_evict r c None (set_line q (\<lambda>l. l\<lparr>l_valid := False, l_tag := 0, l_insertedAt := b,
      l_lastAccessed := b, l_dirty := False\<rparr>) k)"
    using assms(1) Some by (auto simp: evict_slot_def Let_def res_simps split: if_splits)
  show ?thesis using assms(2,3,4) q Some
    by (simp add: k' evict_ptrs_set evict_at_set_evict fewer_lines_def line_at_set_line)
qed

definition evict_run :: "cache_param \<Rightarrow> 'w cache_low \<Rightarrow> nat \<Rightarrow> (nat \<times> nat) list \<Rightarrow> cache \<times> 'w \<Rightarrow> (cache \<times> 'w) res" where
  "evict_run p L tick xs = rfold (\<lambda>(r, c). evict_slot p L True tick r c) xs"

lemma evict_run_ok:
  assumes "evict_run p L tick xs (k, w) = Inr (k', w')" "shape p k" "evict_ptrs p k"
    and "\<forall>r c. (r, c) \<in> set xs \<longrightarrow> slot_ok p r c"
  shows "shape p k' \<and> evict_ptrs p k' \<and> fewer_lines p k k' \<and> (\<forall>r c. (r, c) \<in> set xs \<longrightarrow> evict_at k' r c = None) \<and>
    (\<forall>r c. slot_ok p r c \<longrightarrow> evict_at k' r c = None \<or> evict_at k' r c = evict_at k r c) \<and>
    (\<forall>r c q. (r, c) \<in> set xs \<and> ptr_ok p q \<and> evict_at k r c = Some q \<longrightarrow> \<not> l_valid (line_at k' q))"
  using assms
proof (induction xs arbitrary: k w)
  case (Cons x xs)
  obtain r c where x: "x = (r, c)" by force
  obtain k1 w1 where s: "evict_slot p L True tick r c (k, w) = Inr (k1, w1)" and run: "evict_run p L tick xs (k1, w1) = Inr (k', w')"
    using Cons.prems(1) by (auto simp: evict_run_def res_simps x)
  have so: "slot_ok p r c" using Cons.prems(4) x by simp
  note e = evict_slot_ok[OF s Cons.prems(2,3) so]
  have xs: "\<forall>r c. (r, c) \<in> set xs \<longrightarrow> slot_ok p r c" using Cons.prems(4) by auto
  have "shape p k1" "evict_ptrs p k1" using e by auto
  note IH = Cons.IH[OF run this xs]
  have none: "evict_at k' r c = None" using IH e so by metis
  have inval: "\<not> l_valid (line_at k' q)" if "ptr_ok p q" "evict_at k r' c' = Some q" "(r', c') \<in> set (x # xs)" for r' c' q
  proof (cases "(r', c') = (r, c)")
    case True
    then have "\<not> l_valid (line_at k1 q)" using e that by simp
    then show ?thesis using IH that(1) unfolding fewer_lines_def by metis
  next
    case False
    then have "(r', c') \<in> set xs" "slot_ok p r' c'" using that(3) x xs by auto
    moreover have "evict_at k1 r' c' = evict_at k r' c'" using e False \<open>slot_ok p r' c'\<close> by auto
    ultimately show ?thesis using IH that(1,2) by fastforce
  qed
  have "evict_at k' r' c' = None \<or> evict_at k' r' c' = evict_at k r' c'" if "slot_ok p r' c'" for r' c'
  proof (cases "r' = r \<and> c' = c")
    case False
    then have "evict_at k1 r' c' = evict_at k r' c'" using e that by blast
    then show ?thesis using IH that by metis
  qed (simp add: none)
  moreover have "fewer_lines p k k'" using e IH fewer_trans by blast
  ultimately show ?case using IH none inval by (auto simp: x)
qed (simp add: evict_run_def)

lemma io_slots_iff: "(r, c) \<in> set (io_slots p) \<longleftrightarrow> slot_ok p r c"
  by (simp add: io_slots_def slot_ok_def)

lemma evictCache_ok:
  assumes "evictCache p L True tick k w = Inr (k', w')" "shape p k" "evict_ptrs p k"
  shows "shape p k' \<and> evict_clear p k' \<and> fewer_lines p k k' \<and>
    (\<forall>r c q. slot_ok p r c \<and> evict_at k r c = Some q \<longrightarrow> \<not> l_valid (line_at k' q))"
proof -
  have "evict_run p L tick (io_slots p) (k, w) = Inr (k', w')" using assms(1) by (simp add: evictCache_def evict_run_def)
  moreover have "\<forall>r c. (r, c) \<in> set (io_slots p) \<longrightarrow> slot_ok p r c" by (simp add: io_slots_iff)
  ultimately have e: "shape p k'" "fewer_lines p k k'" "\<forall>r c. slot_ok p r c \<longrightarrow> evict_at k' r c = None"
     "\<forall>r c q. slot_ok p r c \<and> ptr_ok p q \<and> evict_at k r c = Some q \<longrightarrow> \<not> l_valid (line_at k' q)"
    using evict_run_ok[OF _ assms(2,3), of L tick "io_slots p" w k' w'] unfolding io_slots_iff by blast+
  show ?thesis using e assms(3) unfolding evict_clear_def evict_ptrs_def by blast
qed

end
