(* ===== verification/CacheOps.thy ===== *)
theory CacheOps
  imports CacheInv
begin

text \<open>
  The operations of the cache: every one keeps the invariant; a write leaves its address cached and,
  where the FTL answers, always succeeds; a read never writes to the FTL; a flush, a trim and a format
  leave none of their addresses cached.
\<close>

section \<open>Changing one line\<close>

definition cached :: "cache_param \<Rightarrow> cache \<Rightarrow> nat \<Rightarrow> bool" where
  "cached p k lca \<longleftrightarrow> (\<exists>q. ptr_ok p q \<and> l_valid (line_at k q) \<and> l_tag (line_at k q) = lca)"

lemma tags_okD:
  assumes "tags_ok p k" "ptr_ok p q" "l_valid (line_at k q)"
  shows "calcSetIndex p (l_tag (line_at k q)) = fst q"
    and "ptr_ok p q' \<Longrightarrow> l_valid (line_at k q') \<Longrightarrow> l_tag (line_at k q) = l_tag (line_at k q') \<Longrightarrow> q = q'"
  using assms unfolding tags_ok_def by blast+

lemma tags_ok_keep:
  assumes "shape p k" "ptr_ok p q" "tags_ok p k"
    and "l_valid (f (line_at k q)) = l_valid (line_at k q)" "l_tag (f (line_at k q)) = l_tag (line_at k q)"
  shows "tags_ok p (set_line q f k)"
proof -
  have "l_valid (line_at (set_line q f k) q') = l_valid (line_at k q')"
    "l_tag (line_at (set_line q f k) q') = l_tag (line_at k q')" for q'
    using assms by (auto simp: line_at_set_line)
  then show ?thesis using assms(3) by (simp add: tags_ok_def)
qed

lemma tags_ok_insert:
  assumes "shape p k" "ptr_ok p q" "tags_ok p k" "calcSetIndex p lca = fst q" "\<not> cached p k lca"
    and "l_tag (f (line_at k q)) = lca"
  shows "tags_ok p (set_line q f k)"
proof -
  have tag: "l_tag (line_at (set_line q f k) q') = (if q' = q then lca else l_tag (line_at k q'))"
    and val: "q' \<noteq> q \<Longrightarrow> l_valid (line_at (set_line q f k) q') = l_valid (line_at k q')" for q'
    using assms(1,2,6) by (simp_all add: line_at_set_line)
  have new: "l_tag (line_at k q') \<noteq> lca" if "ptr_ok p q'" "l_valid (line_at k q')" for q'
    using assms(5) that by (auto simp: cached_def)
  show ?thesis unfolding tags_ok_def tag
  proof (intro conjI allI impI)
    show "calcSetIndex p (if q' = q then lca else l_tag (line_at k q')) = fst q'"
      if "ptr_ok p q' \<and> l_valid (line_at (set_line q f k) q')" for q'
      using that val assms(3,4) by (cases "q' = q") (auto simp: tags_ok_def)
    fix q1 q2
    assume a: "ptr_ok p q1 \<and> ptr_ok p q2 \<and> l_valid (line_at (set_line q f k) q1) \<and>
        l_valid (line_at (set_line q f k) q2) \<and>
        (if q1 = q then lca else l_tag (line_at k q1)) = (if q2 = q then lca else l_tag (line_at k q2))"
    then show "q1 = q2"
      using val[of q1] val[of q2] new[of q1] new[of q2] tags_okD(2)[OF assms(3), of q1 q2]
      by (cases "q1 = q"; cases "q2 = q") auto
  qed
qed

lemma not_cached:
  assumes "getValidWay p k lca tick = (waySize p, t)" "shape p k" "geometry_ok p" "tags_ok p k"
  shows "\<not> cached p k lca"
proof
  assume "cached p k lca"
  then obtain q where q: "ptr_ok p q" "l_valid (line_at k q)" "l_tag (line_at k q) = lca" by (auto simp: cached_def)
  have "fst q = calcSetIndex p lca" using tags_okD(1)[OF assms(4) q(1,2)] q(3) by simp
  then have "(calcSetIndex p lca, snd q) = q" by (simp add: prod_eq_iff)
  then show False using getValidWay_ok(3)[OF assms(1-3) refl, of "snd q"] q by simp
qed

lemma fewer_cached: "fewer_lines p k k' \<Longrightarrow> cached p k' lca \<Longrightarrow> cached p k lca"
  unfolding fewer_lines_def cached_def by metis

lemma cached_set_line:
  "shape p k \<Longrightarrow> ptr_ok p q \<Longrightarrow> l_valid (f (line_at k q)) \<Longrightarrow> l_tag (f (line_at k q)) = lca \<Longrightarrow> cached p (set_line q f k) lca"
  by (auto simp: cached_def line_at_set_line)

lemma evict_clear_set_line [simp]: "evict_clear p (set_line q f k) = evict_clear p k"
  by (simp add: evict_clear_def)

text \<open>Counters and the detector are not part of the invariant.\<close>

lemma cache_inv_count [simp]:
  "cache_inv p (count_write h k) = cache_inv p k" "cache_inv p (count_read h k) = cache_inv p k"
  "cache_inv p (k\<lparr>k_detect := d\<rparr>) = cache_inv p k"
  "cache_inv p (k\<lparr>k_prefetchTrigger := x, k_lastPrefetched := y\<rparr>) = cache_inv p k"
  by (simp_all add: cache_inv_def shape_def tags_ok_def evict_clear_def count_write_def count_read_def line_at_def evict_at_def)

lemma cached_count [simp]: "cached p (count_write h k) lca = cached p k lca" "cached p (count_read h k) lca = cached p k lca"
  by (simp_all add: cached_def count_write_def count_read_def line_at_def)

section \<open>Choosing evictions\<close>

lemma compare_choice: "compareFunction p L k a b w = (r, w') \<Longrightarrow> (r = a \<or> r = b) \<and> (a \<noteq> None \<or> b \<noteq> None \<longrightarrow> r \<noteq> None)"
  by (cases a; cases b; cases "cachePolicy p") (auto simp: compareFunction_def split: prod.splits if_splits)

text \<open>Every candidate is a valid line.\<close>

definition candidates_ok :: "cache_param \<Rightarrow> line list list \<Rightarrow> cache \<Rightarrow> bool" where
  "candidates_ok p d k \<longleftrightarrow> shape p k \<and> k_data k = d \<and>
     (\<forall>r c q. slot_ok p r c \<and> evict_at k r c = Some q \<longrightarrow> ptr_ok p q \<and> l_valid (line_at k q))"

lemma candidates_set:
  "candidates_ok p d k \<Longrightarrow> slot_ok p r c \<Longrightarrow> (\<And>q. v = Some q \<Longrightarrow> ptr_ok p q \<and> l_valid (line_at k q)) \<Longrightarrow>
   candidates_ok p d (set_evict r c v k)"
  by (auto simp: candidates_ok_def evict_at_set_evict split: if_splits)

lemma collect_ok:
  assumes "candidates_ok p d k" "ptr_ok p q" "geometry_ok p" "collect_line p L q (k, w) = (k', w')"
  shows "candidates_ok p d k'"
proof (cases "l_valid (line_at k q)")
  case True
  obtain r c where rc: "calcIOPosition p (l_tag (line_at k q)) = (r, c)" by force
  obtain x w1 where cf: "compareFunction p L k (evict_at k r c) (Some q) w = (x, w1)" by force
  have so: "slot_ok p r c" by (rule io_position_ok[OF assms(3) rc, THEN conjunct1])
  have "k' = set_evict r c x k" using assms(4) True rc cf by (simp add: collect_line_def)
  moreover have "ptr_ok p q' \<and> l_valid (line_at k q')" if "x = Some q'" for q'
    using compare_choice[OF cf] that True assms(1,2) so unfolding candidates_ok_def by auto
  ultimately show ?thesis using candidates_set[OF assms(1) so] by blast
qed (use assms in \<open>simp add: collect_line_def\<close>)

lemma merge_ok:
  assumes "candidates_ok p d k" "(r, c) \<in> set (merge_slots p)" "merge_slot p L (r, c) (k, w) = (k', w')"
  shows "candidates_ok p d k'"
proof -
  have so: "slot_ok p r c" "slot_ok p r (c + 1)" using assms(2) by (auto simp: merge_slots_def slot_ok_def)
  obtain x w1 where cf: "compareFunction p L k (evict_at k r c) (evict_at k r (c + 1)) w = (x, w1)" by force
  have k': "k' = set_evict r c None (set_evict r (c + 1) x k)" using assms(3) cf by (simp add: merge_slot_def)
  have "ptr_ok p q' \<and> l_valid (line_at k q')" if "x = Some q'" for q'
    using compare_choice[OF cf] that assms(1) so unfolding candidates_ok_def by metis
  then have "candidates_ok p d (set_evict r (c + 1) x k)" using candidates_set[OF assms(1) so(2)] by blast
  then show ?thesis unfolding k' using candidates_set[OF _ so(1), of d _ None] by simp
qed

lemma fold_pair_invariant:
  assumes "fold f xs (k, w) = (k', w')" "P k"
    and "\<And>x k w k' w'. x \<in> set xs \<Longrightarrow> P k \<Longrightarrow> f x (k, w) = (k', w') \<Longrightarrow> P k'"
  shows "P k'"
  using assms
proof (induction xs arbitrary: k w)
  case (Cons x xs)
  obtain k1 w1 where s: "f x (k, w) = (k1, w1)" by force
  have "P k1" by (rule Cons.prems(3)[OF _ Cons.prems(2) s]) simp
  moreover have "fold f xs (k1, w1) = (k', w')" using Cons.prems(1) s by simp
  ultimately show ?case using Cons.IH Cons.prems(3) by (meson list.set_intros(2))
qed simp

lemma pick_choice:
  assumes "fold (pick_line p L k s) xs (r, w) = (r', w')"
  shows "(r' = r \<or> (\<exists>i \<in> set xs. r' = Some (s, i) \<and> l_valid (line_at k (s, i)))) \<and>
    (r \<noteq> None \<or> (\<exists>i \<in> set xs. l_valid (line_at k (s, i))) \<longrightarrow> r' \<noteq> None)"
  using assms
proof (induction xs arbitrary: r w)
  case (Cons x xs)
  show ?case
  proof (cases "l_valid (line_at k (s, x))")
    case True
    obtain y w1 where cf: "compareFunction p L k r (Some (s, x)) w = (y, w1)" by force
    have "pick_line p L k s x (r, w) = (y, w1)" using cf True by (simp add: pick_line_def)
    then have "fold (pick_line p L k s) xs (y, w1) = (r', w')" using Cons.prems by simp
    note ih = Cons.IH[OF this]
    have "y = r \<or> y = Some (s, x)" "y \<noteq> None" using compare_choice[OF cf] by simp_all
    then show ?thesis using ih True by (metis list.set_intros)
  qed (use Cons in \<open>auto simp: pick_line_def\<close>)
qed simp

lemma choose_evictions_ok:
  assumes "choose_evictions p L s k w = (k', w')" "cache_inv p k" "geometry_ok p" "s < setSize p"
  shows "candidates_ok p (k_data k) k' \<and> ((\<forall>i < waySize p. l_valid (line_at k (s, i))) \<longrightarrow>
     (\<exists>r c i. slot_ok p r c \<and> evict_at k' r c = Some (s, i) \<and> ptr_ok p (s, i)))"
proof -
  obtain k1 w1 where c1: "fold (collect_line p L) (all_lines p) (k, w) = (k1, w1)" by force
  have "candidates_ok p (k_data k) k1"
  proof (rule fold_pair_invariant[OF c1])
    show "candidates_ok p (k_data k) k" using assms(2) by (auto simp: cache_inv_def candidates_ok_def evict_clear_def)
    show "candidates_ok p (k_data k) k'" if "x \<in> set (all_lines p)" "candidates_ok p (k_data k) k2"
      "collect_line p L x (k2, w2) = (k', w')" for x k2 w2 k' w'
      using collect_ok[OF that(2) _ assms(3) that(3)] that(1) by (auto simp: all_lines_def ptr_ok_def)
  qed
  moreover obtain k2 w2 where c2: "(if evictSuperPage p then fold (merge_slot p L) (merge_slots p) (k1, w1) else (k1, w1)) = (k2, w2)" by force
  ultimately have k2: "candidates_ok p (k_data k) k2"
    by (cases "evictSuperPage p") (auto elim!: fold_pair_invariant intro: merge_ok)
  have tags: "calcSetIndex p (l_tag (line_at k2 q)) = fst q" if "ptr_ok p q" "l_valid (line_at k2 q)" for q
    using that k2 assms(2) by (auto simp: candidates_ok_def cache_inv_def tags_ok_def line_at_def)
  note run = assms(1)[unfolded choose_evictions_def c1 prod.case c2]
  show ?thesis
  proof (cases "flushes_set p k2 s")
    case True
    then obtain r c q where rc: "slot_ok p r c" "evict_at k2 r c = Some q" "calcSetIndex p (l_tag (line_at k2 q)) = s"
      by (auto simp: flushes_set_def list_ex_iff io_slots_iff split: option.splits)
    then have "ptr_ok p q" "l_valid (line_at k2 q)" using k2 unfolding candidates_ok_def by blast+
    then have q: "q = (s, snd q)" using tags rc(3) by (simp add: prod_eq_iff)
    have "k' = k2" using run True by simp
    then show ?thesis using k2 rc(1,2) \<open>ptr_ok p q\<close> q by metis
  next
    case False
    obtain x w3 where pk: "fold (pick_line p L k2 s) [0..<waySize p] (None, w2) = (x, w3)" by force
    show ?thesis
    proof (cases x)
      case None
      then have "\<not> (\<exists>i \<in> set [0..<waySize p]. l_valid (line_at k2 (s, i)))" using pick_choice[OF pk] by blast
      then have "\<not> l_valid (line_at k (s, 0)) \<and> 0 < waySize p"
        using k2 assms(3) by (auto simp: candidates_ok_def line_at_def geometry_ok_def)
      then show ?thesis using run False pk None k2 by auto
    next
      case (Some q)
      then obtain i where i: "i < waySize p" "q = (s, i)" "l_valid (line_at k2 (s, i))" using pick_choice[OF pk] by auto
      obtain r c where rc: "calcIOPosition p (l_tag (line_at k2 (s, i))) = (r, c)" by force
      have so: "slot_ok p r c" by (rule io_position_ok[OF assms(3) rc, THEN conjunct1])
      have k': "k' = set_evict r c (Some (s, i)) k2" using run False pk Some i(2) rc by simp
      have pt: "ptr_ok p (s, i)" using i(1) assms(4) by (simp add: ptr_ok_def)
      have "shape p k2" using k2 by (simp add: candidates_ok_def)
      then have "evict_at k' r c = Some (s, i)" using so by (simp add: k' evict_at_set_evict)
      moreover have "candidates_ok p (k_data k) k'" unfolding k' using candidates_set[OF k2 so] i(3) pt by blast
      ultimately show ?thesis using so pt by blast
    qed
  qed
qed

section \<open>Write\<close>

text \<open>The line a hit or an empty way is updated to.\<close>

lemma write_line_ok:
  assumes "cache_inv p k" "geometry_ok p" "ptr_ok p q" "calcSetIndex p lca = fst q"
    and "l_valid (line_at k q) \<and> l_tag (line_at k q) = lca \<or> \<not> cached p k lca"
    and "l_valid (f (line_at k q))" "l_tag (f (line_at k q)) = lca"
  shows "cache_inv p (set_line q f k) \<and> cached p (set_line q f k) lca"
proof -
  have sh: "shape p k" "tags_ok p k" "evict_clear p k" using assms(1) by (simp_all add: cache_inv_def)
  have "tags_ok p (set_line q f k)"
    using assms(5)
  proof
    assume "l_valid (line_at k q) \<and> l_tag (line_at k q) = lca"
    then show ?thesis by (intro tags_ok_keep) (simp_all add: sh assms)
  next
    assume "\<not> cached p k lca"
    then show ?thesis by (intro tags_ok_insert) (simp_all add: sh assms)
  qed
  then show ?thesis using sh assms cached_set_line by (simp add: cache_inv_def)
qed

lemma full_set:
  assumes "getEmptyWay p k s tick = (waySize p, t)" "shape p k" "s < setSize p"
    and "\<forall>q. ptr_ok p q \<longrightarrow> l_insertedAt (line_at k q) < U64MAX"
  shows "\<forall>i < waySize p. l_valid (line_at k (s, i))"
proof (intro allI impI)
  fix i assume "i < waySize p"
  then have "ptr_ok p (s, i)" using assms(3) by (simp add: ptr_ok_def)
  then show "l_valid (line_at k (s, i))" using getEmptyWay_ok(2)[OF assms(1-3), of i] assms(4) by blast
qed

lemma choose_keeps:
  assumes "choose_evictions p L s k w = (k', w')" "cache_inv p k" "geometry_ok p" "s < setSize p"
  shows "shape p k' \<and> evict_ptrs p k' \<and> k_data k' = k_data k"
  using choose_evictions_ok[OF assms] unfolding candidates_ok_def evict_ptrs_def by blast

lemma write_evict_ok:
  assumes "write_evict p L req t1 k w = Inr (hit, t, k', w')" "cache_inv p k" "geometry_ok p"
    and nc: "\<not> cached p k (slpn (i_range req))"
  shows "cache_inv p k' \<and> cached p k' (slpn (i_range req))"
proof -
  define lca where "lca = slpn (i_range req)"
  let ?s = "calcSetIndex p lca"
  note s = set_index_ok[OF assms(3), of lca]
  obtain kc wc where ch: "choose_evictions p L ?s k w = (kc, wc)" by force
  note run = assms(1)[unfolded write_evict_def Let_def, folded lca_def, unfolded ch prod.case]
  obtain t2 kd wd where ev: "evictCache p L True t2 kc wc = Inr (kd, wd)" and t2: "t2 = t1 + cacheLatency p * setSize p * waySize p * 8"
    using run by (auto simp: res_simps split_paired_Ex)
  obtain wy t3 where ge: "getEmptyWay p kd ?s t2 = (wy, t3)" by force
  obtain f where f: "wy \<noteq> waySize p" "k' = set_line (?s, wy) f kd" "l_valid (f (line_at kd (?s, wy)))"
      "l_tag (f (line_at kd (?s, wy))) = lca"
    using run by (auto simp: ev[unfolded t2] ge[unfolded t2] res_simps split_paired_Ex)
  have kc: "shape p kc" "evict_ptrs p kc" "k_data kc = k_data k" using choose_keeps[OF ch assms(2,3) s] by auto
  have kd: "shape p kd" "evict_clear p kd" "fewer_lines p kc kd" using evictCache_ok[OF ev kc(1,2)] by auto
  have fk: "fewer_lines p k kd" using kd(3) fewer_trans fewer_data[OF kc(3)] by blast
  have "cache_inv p kd" using kd fewer_tags[OF fk] assms(2) by (simp add: cache_inv_def)
  moreover have "\<not> cached p kd lca" using nc fewer_cached[OF fk] by (auto simp: lca_def)
  ultimately show ?thesis
    using write_line_ok[of p kd "(?s, wy)" lca f] assms(3) getEmptyWay_ok(1)[OF ge kd(1) s f(1)] f(2-)
    by (simp add: lca_def)
qed

lemma cache_write_ok:
  assumes "cache_write p L req tick k w = Inr (hit, t, k', w')" "cache_inv p k" "geometry_ok p"
  shows "cache_inv p k' \<and> (useWriteCaching p \<longrightarrow> cached p k' (slpn (i_range req)))"
proof (cases "useWriteCaching p")
  case False
  then show ?thesis using assms by (auto simp: cache_write_def Let_def res_simps split_paired_Ex split: if_splits)
next
  case True
  define lca where "lca = slpn (i_range req)"
  let ?s = "calcSetIndex p lca"
  have sh: "shape p k" "tags_ok p k" using assms(2) by (simp_all add: cache_inv_def)
  note s = set_index_ok[OF assms(3), of lca]
  obtain wy t1 where gv: "getValidWay p k lca tick = (wy, t1)" by force
  obtain wy2 t1' where ge: "getEmptyWay p k ?s t1 = (wy2, t1')" by force
  note run = assms(1)[unfolded cache_write_def Let_def, folded lca_def, unfolded gv prod.case ge]
  show ?thesis
  proof (cases "wy = waySize p")
    case False
    note hit = getValidWay_ok(2)[OF gv sh(1) assms(3) False]
    obtain f where "k' = count_write True (set_line (?s, wy) f k)" "l_valid (f (line_at k (?s, wy)))"
      "l_tag (f (line_at k (?s, wy))) = lca"
      using run False True hit by (auto simp: res_simps touch_def charge_def split_paired_Ex split: prod.split_asm)
    then show ?thesis using write_line_ok[OF assms(2,3), of "(?s, wy)" lca f] hit by (simp add: lca_def)
  next
    case miss: True
    have nc: "\<not> cached p k lca" using not_cached[OF gv[unfolded miss] sh(1) assms(3) sh(2)] .
    show ?thesis
    proof (cases "wy2 = waySize p")
      case False
      obtain f where "k' = count_write True (set_line (?s, wy2) f k)" "l_valid (f (line_at k (?s, wy2)))"
        "l_tag (f (line_at k (?s, wy2))) = lca"
        using run False True miss by (auto simp: res_simps touch_def charge_def split_paired_Ex split: prod.split_asm)
      then show ?thesis
        using write_line_ok[OF assms(2,3), of "(?s, wy2)" lca f] getEmptyWay_ok(1)[OF ge sh(1) s False] nc
        by (simp add: lca_def)
    next
      case full: True
      obtain w0 h t0 k0 w1 where "write_evict p L req t1' k w0 = Inr (h, t0, k0, w1)" "k' = count_write h k0"
        using run full True miss by (auto simp: res_simps charge_def split_paired_Ex split: prod.split_asm)
      then show ?thesis using write_evict_ok[OF _ assms(2,3), of L req t1' w0 h t0 k0 w1] nc by (simp add: lca_def)
    qed
  qed
qed

end
