(* ===== verification/CacheRead.thy ===== *)
theory CacheRead
  imports CacheOps
begin

text \<open>
  Reads: the lines a miss or a prefetch claims keep a stale tag until they are filled; the invariant
  over that window, and the fact that no read ever writes to the FTL.
\<close>

section \<open>Claimed lines\<close>

text \<open>
  \<open>rl\<close> is the list of claimed lines still to be filled.  Outside it the tags are in order, and no
  address waiting in it is cached.
\<close>

definition pending_fill :: "cache_param \<Rightarrow> cache \<Rightarrow> read_list \<Rightarrow> bool" where
  "pending_fill p k rl \<longleftrightarrow>
     (\<forall>x \<in> set rl. ptr_ok p (snd x) \<and> fst (snd x) = calcSetIndex p (fst x)) \<and> distinct (map fst rl) \<and>
     (\<forall>q. ptr_ok p q \<and> l_valid (line_at k q) \<and> q \<notin> snd ` set rl \<longrightarrow>
        calcSetIndex p (l_tag (line_at k q)) = fst q \<and> l_tag (line_at k q) \<notin> fst ` set rl) \<and>
     (\<forall>q q'. ptr_ok p q \<and> ptr_ok p q' \<and> q \<notin> snd ` set rl \<and> q' \<notin> snd ` set rl \<and> l_valid (line_at k q) \<and>
        l_valid (line_at k q') \<and> l_tag (line_at k q) = l_tag (line_at k q') \<longrightarrow> q = q')"

lemma pending_nil [simp]: "pending_fill p k [] = tags_ok p k"
  unfolding pending_fill_def tags_ok_def by auto

lemma pending_data: "k_data k' = k_data k \<Longrightarrow> pending_fill p k' rl = pending_fill p k rl"
  by (simp add: pending_fill_def line_at_def)

lemma pending_fewer:
  assumes "fewer_lines p k k'" "pending_fill p k rl"
  shows "pending_fill p k' rl"
proof -
  have v: "l_valid (line_at k q) \<and> l_tag (line_at k' q) = l_tag (line_at k q)" if "ptr_ok p q" "l_valid (line_at k' q)" for q
    using assms(1) that unfolding fewer_lines_def by blast
  show ?thesis using assms(2) v unfolding pending_fill_def by (smt (verit))
qed

lemma pending_claim:
  assumes "pending_fill p k rl" "shape p k" "ptr_ok p q" "fst q = calcSetIndex p lca" "lca \<notin> fst ` set rl"
    and "\<And>q'. ptr_ok p q' \<Longrightarrow> fst q' = calcSetIndex p lca \<Longrightarrow> l_valid (line_at k q') \<Longrightarrow> l_tag (line_at k q') \<noteq> lca"
  shows "pending_fill p (set_line q f k) (rl @ [(lca, q)])"
proof -
  have same: "line_at (set_line q f k) q' = line_at k q'" if "q' \<noteq> q" for q' using that assms(2,3) by (simp add: line_at_set_line)
  let ?k = "set_line q f k" and ?rl = "rl @ [(lca, q)]"
  have rl: "\<forall>x \<in> set rl. ptr_ok p (snd x) \<and> fst (snd x) = calcSetIndex p (fst x)" "distinct (map fst rl)"
    using assms(1) unfolding pending_fill_def by blast+
  have a: "calcSetIndex p (l_tag (line_at ?k q')) = fst q' \<and> l_tag (line_at ?k q') \<notin> fst ` set ?rl"
    if "ptr_ok p q'" "l_valid (line_at ?k q')" "q' \<notin> snd ` set ?rl" for q'
  proof -
    have "q' \<noteq> q" "q' \<notin> snd ` set rl" using that(3) by auto
    then have s: "calcSetIndex p (l_tag (line_at k q')) = fst q'" "l_tag (line_at k q') \<notin> fst ` set rl" "l_valid (line_at k q')"
      using assms(1) that same unfolding pending_fill_def by metis+
    have "l_tag (line_at k q') \<noteq> lca"
      using assms(6)[OF that(1) _ s(3)] s(1) by metis
    then show ?thesis using s same[OF \<open>q' \<noteq> q\<close>] by simp
  qed
  have b: "q1 = q2" if "ptr_ok p q1" "ptr_ok p q2" "q1 \<notin> snd ` set ?rl" "q2 \<notin> snd ` set ?rl" "l_valid (line_at ?k q1)"
      "l_valid (line_at ?k q2)" "l_tag (line_at ?k q1) = l_tag (line_at ?k q2)" for q1 q2
  proof -
    have "q1 \<noteq> q" "q2 \<noteq> q" "q1 \<notin> snd ` set rl" "q2 \<notin> snd ` set rl" using that(3,4) by auto
    then show ?thesis using assms(1) that same unfolding pending_fill_def by metis
  qed
  show ?thesis unfolding pending_fill_def
    using rl assms(3,4,5) a b by (intro conjI allI impI) (auto simp del: image_insert)
qed

lemma pending_fill_step:
  assumes "pending_fill p k ((lca, q) # rl)" "shape p k" "l_tag (f (line_at k q)) = lca"
  shows "pending_fill p (set_line q f k) rl"
proof -
  have rl: "\<forall>x \<in> set rl. ptr_ok p (snd x) \<and> fst (snd x) = calcSetIndex p (fst x)" "distinct (map fst rl)" "lca \<notin> fst ` set rl"
    "ptr_ok p q" "fst q = calcSetIndex p lca"
    using assms(1) unfolding pending_fill_def by auto
  have tag: "l_tag (line_at (set_line q f k) q') = (if q' = q then lca else l_tag (line_at k q'))"
    and val: "q' \<noteq> q \<Longrightarrow> l_valid (line_at (set_line q f k) q') = l_valid (line_at k q')" for q'
    using assms(2,3) rl(4) by (simp_all add: line_at_set_line)
  have out: "calcSetIndex p (l_tag (line_at k q')) = fst q' \<and> l_tag (line_at k q') \<noteq> lca \<and> l_tag (line_at k q') \<notin> fst ` set rl"
    if "ptr_ok p q'" "l_valid (line_at k q')" "q' \<notin> snd ` set rl" "q' \<noteq> q" for q'
  proof -
    have "q' \<notin> snd ` set ((lca, q) # rl)" using that by auto
    then have "calcSetIndex p (l_tag (line_at k q')) = fst q' \<and> l_tag (line_at k q') \<notin> fst ` set ((lca, q) # rl)"
      using assms(1) that(1,2) unfolding pending_fill_def by blast
    then show ?thesis by auto
  qed
  have a: "calcSetIndex p (l_tag (line_at (set_line q f k) q')) = fst q' \<and> l_tag (line_at (set_line q f k) q') \<notin> fst ` set rl"
    if "ptr_ok p q'" "l_valid (line_at (set_line q f k) q')" "q' \<notin> snd ` set rl" for q'
    using out[OF that(1) _ that(3)] val that(2) rl(3,5) by (cases "q' = q") (auto simp: tag)
  have b: "q1 = q2" if "ptr_ok p q1" "ptr_ok p q2" "q1 \<notin> snd ` set rl" "q2 \<notin> snd ` set rl" "l_valid (line_at (set_line q f k) q1)"
      "l_valid (line_at (set_line q f k) q2)" "l_tag (line_at (set_line q f k) q1) = l_tag (line_at (set_line q f k) q2)" for q1 q2
  proof (cases "q1 = q \<or> q2 = q")
    case True
    then show ?thesis using that val out[of q1] out[of q2] by (auto simp: tag split: if_splits)
  next
    case False
    then have "q1 \<notin> snd ` set ((lca, q) # rl)" "q2 \<notin> snd ` set ((lca, q) # rl)" using that(3,4) by auto
    moreover have "l_valid (line_at k q1)" "l_valid (line_at k q2)" "l_tag (line_at k q1) = l_tag (line_at k q2)"
      using False that(5-7) val by (auto simp: tag)
    ultimately show ?thesis using assms(1) that(1,2) unfolding pending_fill_def by blast
  qed
  show ?thesis unfolding pending_fill_def using rl(1,2) a b by blast
qed

section \<open>The two loops of a read\<close>

definition evict_clean :: "cache_param \<Rightarrow> cache \<Rightarrow> bool" where
  "evict_clean p k \<longleftrightarrow> (\<forall>r c q. slot_ok p r c \<and> evict_at k r c = Some q \<longrightarrow> ptr_ok p q \<and> \<not> l_dirty (line_at k q))"

definition read_inv :: "cache_param \<Rightarrow> cache \<Rightarrow> read_list \<Rightarrow> bool" where
  "read_inv p k rl \<longleftrightarrow> shape p k \<and> pending_fill p k rl \<and> evict_clean p k"

lemma evict_clean_line:
  assumes "evict_clean p k" "shape p k" "ptr_ok p q" "\<not> l_dirty (f (line_at k q))"
  shows "evict_clean p (set_line q f k)"
  using assms unfolding evict_clean_def by (simp add: line_at_set_line)

lemma evict_clean_mark:
  assumes "evict_clean p k" "shape p k" "ptr_ok p q" "slot_ok p r c" "\<not> l_dirty (f (line_at k q))"
  shows "evict_clean p (set_line q f (set_evict r c (Some q) k))"
proof -
  have at: "line_at (set_line q f (set_evict r c (Some q) k)) q' = (if q' = q then f (line_at k q) else line_at k q')" for q'
    using line_at_set_line[of p "set_evict r c (Some q) k" q f q'] assms(2,3) by simp
  let ?k = "set_line q f (set_evict r c (Some q) k)"
  have "ptr_ok p q' \<and> \<not> l_dirty (line_at ?k q')" if "slot_ok p r' c'" "evict_at ?k r' c' = Some q'" for r' c' q'
  proof (cases "q' = q")
    case False
    then have "evict_at k r' c' = Some q'" using that(2) assms(2,4) by (auto simp: evict_at_set_evict split: if_splits)
    then show ?thesis using assms(1) that(1) False unfolding evict_clean_def at by auto
  qed (simp add: at assms(3,5))
  then show ?thesis unfolding evict_clean_def by blast
qed

lemma claim_line_ok:
  assumes "claim_line p L tick lca (k, rl, fin, w) = Inr (k', rl', fin', w')" "read_inv p k rl" "geometry_ok p"
    and "lca \<notin> fst ` set rl"
  shows "read_inv p k' rl' \<and> fst ` set rl' \<subseteq> insert lca (fst ` set rl)"
proof -
  let ?s = "calcSetIndex p lca"
  have ri: "shape p k" "pending_fill p k rl" "evict_clean p k" using assms(2) by (simp_all add: read_inv_def)
  note s = set_index_ok[OF assms(3), of lca]
  obtain v b where gv: "getValidWay p k lca tick = (v, b)" by force
  obtain wy b2 where ge: "getEmptyWay p k ?s b = (wy, b2)" by force
  note run = assms(1)[unfolded claim_line_def prod.case gv ge]
  show ?thesis
  proof (cases "v = waySize p")
    case True
    have absent: "l_tag (line_at k q') \<noteq> lca" if "ptr_ok p q'" "fst q' = ?s" "l_valid (line_at k q')" for q'
    proof -
      have "(?s, snd q') = q'" using that(2) by (simp add: prod_eq_iff)
      then show ?thesis using getValidWay_ok(3)[OF gv ri(1) assms(3) True, of "snd q'"] that by simp
    qed
    have claimed: "read_inv p (set_line (?s, n) f k2) (rl @ [(lca, ?s, n)])"
      if "k_data k2 = k_data k" "shape p k2" "ptr_ok p (?s, n)" "evict_clean p (set_line (?s, n) f k2)" for n f k2
    proof -
      have "pending_fill p k2 rl" using pending_data[OF that(1)] ri(2) by simp
      then show ?thesis using pending_claim[of p k2 rl "(?s, n)" lca f] that assms(4) absent
        by (simp add: read_inv_def line_at_def)
    qed
    show ?thesis
    proof (cases "wy = waySize p")
      case False
      then have k': "\<exists>t. k' = set_line (?s, wy) (\<lambda>l. (touch t l)\<lparr>l_valid := True, l_dirty := False\<rparr>) k" "rl' = rl @ [(lca, ?s, wy)]"
        using run True by (auto simp: split_paired_Ex)
      note ok = getEmptyWay_ok(1)[OF ge ri(1) s False]
      show ?thesis using k' ok claimed[OF refl ri(1)] evict_clean_line[OF ri(3,1)] by auto
    next
      case full: True
      obtain n t w2 where ef: "evictFunction p L k ?s b2 w = Inr (n, t, w2)" using run True full by (auto simp: res_simps split_paired_Ex)
      have n: "ptr_ok p (?s, n)" using evictFunction_ok[OF ef ri(1) assms(3) s] .
      obtain r c where rc: "calcIOPosition p (l_tag (line_at k (?s, n))) = (r, c)" by force
      have so: "slot_ok p r c" by (rule io_position_ok[OF assms(3) rc, THEN conjunct1])
      let ?k2 = "if l_dirty (line_at k (?s, n)) then set_evict r c (Some (?s, n)) k else k"
      obtain f where f: "k' = set_line (?s, n) f ?k2" "\<And>l. \<not> l_dirty (f l)" "rl' = rl @ [(lca, ?s, n)]"
      proof
        show "k' = set_line (?s, n) (\<lambda>l. (touch t l)\<lparr>l_valid := True, l_dirty := False\<rparr>) ?k2"
          using run True full by (simp add: ef rc Let_def)
      qed (use run True full in \<open>simp_all add: ef rc Let_def\<close>)
      have "evict_clean p (set_line (?s, n) f ?k2)"
        using evict_clean_line[OF ri(3,1) n] evict_clean_mark[OF ri(3,1) n so] f(2) by simp
      then show ?thesis using claimed[of ?k2 n f] ri(1) n f by simp
    qed
  qed (use run assms(2) in auto)
qed

lemma claim_run_ok:
  assumes "rfold (claim_line p L tick) xs (k, rl, fin, w) = Inr (k', rl', fin', w')" "read_inv p k rl" "geometry_ok p"
    and "distinct xs" "set xs \<inter> fst ` set rl = {}"
  shows "read_inv p k' rl'"
  using assms
proof (induction xs arbitrary: k rl fin w)
  case (Cons x xs)
  obtain k1 rl1 fin1 w1 where s: "claim_line p L tick x (k, rl, fin, w) = Inr (k1, rl1, fin1, w1)"
    and run: "rfold (claim_line p L tick) xs (k1, rl1, fin1, w1) = Inr (k', rl', fin', w')"
    using Cons.prems(1) by (auto simp: res_simps split_paired_Ex)
  have "read_inv p k1 rl1 \<and> fst ` set rl1 \<subseteq> insert x (fst ` set rl)"
    using claim_line_ok[OF s Cons.prems(2,3)] Cons.prems(5) by simp
  then show ?case using Cons.IH[OF run _ Cons.prems(3)] Cons.prems(4,5) by auto
qed simp

lemma fill_run_ok:
  assumes "rfold (fill_line p L req tick) rl (k, fin, w) = Inr (k', fin', w')" "shape p k" "pending_fill p k rl" "evict_clear p k"
  shows "cache_inv p k'"
  using assms
proof (induction rl arbitrary: k fin w)
  case Nil
  then show ?case by (simp add: cache_inv_def)
next
  case (Cons x rl)
  obtain lca q where x: "x = (lca, q)" by (cases x)
  obtain k1 fin1 w1 where st: "fill_line p L req tick x (k, fin, w) = Inr (k1, fin1, w1)"
    and run: "rfold (fill_line p L req tick) rl (k1, fin1, w1) = Inr (k', fin', w')"
    using Cons.prems(1) by (auto simp: res_simps split_paired_Ex)
  obtain f where k1: "k1 = set_line q f k" "l_tag (f (line_at k q)) = lca"
    using st by (auto simp: res_simps split_paired_Ex x fill_line_def Let_def)
  have "pending_fill p k1 rl" unfolding k1(1) using pending_fill_step Cons.prems(2,3) k1(2) x by blast
  then show ?case using Cons.IH[OF run] Cons.prems(2,4) k1(1) by simp
qed

lemma read_fill_ok:
  assumes "read_fill p L req hit arrived tick k w = Inr (t, k', w')" "cache_inv p k" "geometry_ok p"
  shows "cache_inv p k'"
proof -
  define len where "len = (if prefetchAll p \<or> \<not> bSuperPage p then lineCountInMaxIO p else lineCountInSuperPage p)"
  define k0 where "k0 = (if sd_enabled (k_detect k) then k\<lparr>k_prefetchTrigger := slpn (i_range req) + len div 2,
    k_lastPrefetched := slpn (i_range req) + len\<rparr> else k)"
  define xs where "xs = [slpn (i_range req)..<if sd_enabled (k_detect k) then slpn (i_range req) + len else slpn (i_range req) + 1]"
  have k0: "cache_inv p k0" using assms(2) by (simp add: k0_def)
  have xs: "distinct xs" by (simp add: xs_def)
  obtain w0 k1 rl fin w1 k2 w2 fin2 w3 where
      c: "rfold (claim_line p L tick) xs (k0, [], tick, w0) = Inr (k1, rl, fin, w1)" and
      e: "evictCache p L True fin k1 w1 = Inr (k2, w2)" and
      f: "rfold (fill_line p L req fin) rl (k2, fin, w2) = Inr (k', fin2, w3)"
    using assms(1) unfolding read_fill_def Let_def len_def[symmetric] k0_def[symmetric] xs_def[symmetric]
    by (auto simp: res_simps split_paired_Ex simp del: upt.simps)
  have "read_inv p k0 []" using k0 by (auto simp: cache_inv_def read_inv_def evict_clean_def evict_clear_def)
  then have r: "read_inv p k1 rl" using claim_run_ok[OF c _ assms(3) xs] by simp
  then have "shape p k1" "evict_ptrs p k1" by (auto simp: read_inv_def evict_clean_def evict_ptrs_def)
  from evictCache_ok[OF e this] have "shape p k2" "evict_clear p k2" "fewer_lines p k1 k2" by auto
  then show ?thesis using fill_run_ok[OF f] pending_fewer r by (auto simp: read_inv_def)
qed

lemma cache_read_ok:
  assumes "cache_read p L req tick k w = Inr (hit, t, k', w')" "cache_inv p k" "geometry_ok p"
  shows "cache_inv p k'"
proof (cases "useReadCaching p")
  case False
  then show ?thesis using assms by (auto simp: cache_read_def res_simps split_paired_Ex)
next
  case True
  define k0 where "k0 = (if useReadPrefetch p then k\<lparr>k_detect := checkSequential p req (k_detect k)\<rparr> else k)"
  have k0: "cache_inv p k0" using assms(2) by (simp add: k0_def)
  let ?s = "calcSetIndex p (slpn (i_range req))"
  obtain wy t1 where gv: "getValidWay p k0 (slpn (i_range req)) tick = (wy, t1)" by force
  note run = assms(1)[unfolded cache_read_def Let_def, folded k0_def, unfolded gv prod.case]
  show ?thesis
  proof (cases "wy = waySize p")
    case miss: True
    obtain t2 k2 w2 where "read_fill p L req False t1 t1 k0 w = Inr (t2, k2, w2)" "k' = count_read False k2"
      using run True miss by (auto simp: res_simps charge_def split_paired_Ex split: prod.split_asm)
    then show ?thesis using read_fill_ok[OF _ k0 assms(3), of L req False t1 t1 w t2 k2 w2] by simp
  next
    case False
    let ?q = "(?s, wy)"
    let ?k1 = "set_line ?q (\<lambda>l. l\<lparr>l_lastAccessed := max t1 (l_insertedAt (line_at k0 ?q))\<rparr>) k0"
    have "shape p k0" "tags_ok p k0" using k0 by (simp_all add: cache_inv_def)
    moreover have "ptr_ok p ?q" using getValidWay_ok(2)[OF gv _ assms(3) False] k0 by (simp add: cache_inv_def)
    ultimately have k1: "cache_inv p ?k1" using k0 tags_ok_keep by (simp add: cache_inv_def)
    obtain t3 w3 where d: "b_dram_read L (Some ?q) (i_length req) (max t1 (l_insertedAt (line_at k0 ?q))) w = Inr (t3, w3)"
      using run True False by (auto simp: res_simps split_paired_Ex)
    show ?thesis
    proof (cases "useReadPrefetch p \<and> slpn (i_range req) = k_prefetchTrigger ?k1")
      case pf: True
      obtain r2 t2 k2 w2 where "read_fill p L r2 True t3 t1 ?k1 w3 = Inr (t2, k2, w2)" "k' = count_read True k2"
        using run True False pf d by (auto simp: res_simps charge_def split_paired_Ex split: prod.split_asm)
      then show ?thesis using read_fill_ok[OF _ k1 assms(3), of L r2 True t3 t1 w3 t2 k2 w2] by simp
    next
      case no: False
      then have "k' = count_read True ?k1"
        using run True False d by (auto simp: res_simps charge_def split_paired_Ex split: prod.split_asm)
      then show ?thesis using k1 by simp
    qed
  qed
qed

section \<open>Reads never write\<close>

lemma evict_slot_clean:
  assumes "evict_slot p L fl tick r c (k, w) = Inr (k', w')" "shape p k" "evict_clean p k" "slot_ok p r c"
  shows "shape p k' \<and> evict_clean p k'"
proof (cases "evict_at k r c")
  case (Some q)
  then have q: "ptr_ok p q" "\<not> l_dirty (line_at k q)" using assms(3,4) by (auto simp: evict_clean_def)
  then obtain f where f: "k' = set_evict r c None (set_line q f k)" "\<And>l. \<not> l_dirty (f l)"
    using assms(1) Some by (auto simp: evict_slot_def Let_def res_simps)
  then have "evict_clean p (set_line q f k)" using evict_clean_line assms(2,3) q(1) by blast
  then show ?thesis using assms(2,4) f(1) by (auto simp: evict_clean_def evict_at_set_evict split: if_splits)
qed (use assms in \<open>simp add: evict_slot_def\<close>)

lemma evict_clean_no_write:
  assumes "shape p k" "evict_clean p k" "\<forall>x \<in> set xs. slot_ok p (fst x) (snd x)"
  shows "rfold (\<lambda>(r, c). evict_slot p (L\<lparr>b_ftl_write := g\<rparr>) fl tick r c) xs (k, w) =
         rfold (\<lambda>(r, c). evict_slot p L fl tick r c) xs (k, w)"
  using assms
proof (induction xs arbitrary: k w)
  case (Cons x xs)
  have so: "slot_ok p (fst x) (snd x)" using Cons.prems(3) by simp
  have same: "evict_slot p (L\<lparr>b_ftl_write := g\<rparr>) fl tick (fst x) (snd x) (k, w) = evict_slot p L fl tick (fst x) (snd x) (k, w)"
  proof (cases "evict_at k (fst x) (snd x)")
    case (Some q)
    then have "\<not> l_dirty (line_at k q)" using Cons.prems(2) so by (auto simp: evict_clean_def)
    then show ?thesis using Some by (simp add: evict_slot_def Let_def)
  qed (simp add: evict_slot_def)
  show ?case
  proof (cases "evict_slot p L fl tick (fst x) (snd x) (k, w)")
    case (Inr r)
    then obtain k1 w1 where r: "evict_slot p L fl tick (fst x) (snd x) (k, w) = Inr (k1, w1)" by (cases r) auto
    have "shape p k1 \<and> evict_clean p k1" using evict_slot_clean[OF r Cons.prems(1,2) so] .
    then show ?thesis using Cons.IH[of k1 w1] Cons.prems(3) r same by (simp add: case_prod_beta)
  qed (use same in \<open>simp add: case_prod_beta\<close>)
qed simp

lemma claim_no_write: "claim_line p (L\<lparr>b_ftl_write := g\<rparr>) tick = claim_line p L tick"
proof -
  have "evictFunction p (L\<lparr>b_ftl_write := g\<rparr>) = evictFunction p L"
    by (intro ext; cases "cachePolicy p") (simp_all add: evictFunction_def)
  show ?thesis unfolding claim_line_def \<open>evictFunction p (L\<lparr>b_ftl_write := g\<rparr>) = evictFunction p L\<close> by (rule refl)
qed

lemma fill_no_write: "fill_line p (L\<lparr>b_ftl_write := g\<rparr>) req tick = fill_line p L req tick"
  by (simp add: fill_line_def)

lemma read_fill_no_write:
  assumes "cache_inv p k" "geometry_ok p"
  shows "read_fill p (L\<lparr>b_ftl_write := g\<rparr>) req hit arrived tick k w = read_fill p L req hit arrived tick k w"
proof -
  have ev: "evictCache p (L\<lparr>b_ftl_write := g\<rparr>) True fin k1 w1 = evictCache p L True fin k1 w1"
    if "rfold (claim_line p L tick) xs (k0, [], tick, w0) = Inr (k1, rl, fin, w1)" "cache_inv p k0" "distinct xs"
    for xs k0 w0 k1 rl fin w1
  proof -
    have "read_inv p k0 []" using that(2) by (auto simp: cache_inv_def read_inv_def evict_clean_def evict_clear_def)
    then have "shape p k1" "evict_clean p k1" using claim_run_ok[OF that(1) _ assms(2) that(3)] by (simp_all add: read_inv_def)
    then show ?thesis unfolding evictCache_def by (rule evict_clean_no_write) (auto simp: io_slots_def slot_ok_def)
  qed
  have sched: "b_dram_sched (L\<lparr>b_ftl_write := g\<rparr>) = b_dram_sched L" by simp
  show ?thesis unfolding read_fill_def Let_def claim_no_write fill_no_write sched
    by (rule rbind_cong) (use assms(1) ev in \<open>auto simp: split_paired_All simp del: upt.simps\<close>)
qed

lemma cache_read_no_write:
  assumes "cache_inv p k" "geometry_ok p"
  shows "cache_read p (L\<lparr>b_ftl_write := g\<rparr>) req tick k w = cache_read p L req tick k w"
proof (cases "useReadCaching p")
  case True
  define k0 where "k0 = (if useReadPrefetch p then k\<lparr>k_detect := checkSequential p req (k_detect k)\<rparr> else k)"
  have k0: "cache_inv p k0" using assms(1) by (simp add: k0_def)
  let ?s = "calcSetIndex p (slpn (i_range req))"
  obtain wy t1 where gv: "getValidWay p k0 (slpn (i_range req)) tick = (wy, t1)" by force
  have "cache_inv p (set_line (?s, wy) (\<lambda>l. l\<lparr>l_lastAccessed := t2\<rparr>) k0)" if "wy \<noteq> waySize p" for t2
    using k0 getValidWay_ok(2)[OF gv _ assms(2) that] tags_ok_keep by (simp add: cache_inv_def)
  note k1 = this
  have ch: "charge (L\<lparr>b_ftl_write := g\<rparr>) = charge L" by (simp add: fun_eq_iff charge_def)
  note unf = cache_read_def Let_def k0_def[symmetric] if_P[OF True] gv prod.case ch
  show ?thesis
  proof (cases "wy = waySize p")
    case False
    note eq = read_fill_no_write[OF k1[OF False, of "max t1 (l_insertedAt (line_at k0 (?s, wy)))"] assms(2), where L = L and g = g]
    show ?thesis unfolding unf if_P[OF False] eq by simp
  next
    case miss: True
    show ?thesis unfolding unf read_fill_no_write[OF k0 assms(2), where L = L and g = g] using miss by simp
  qed
qed (simp add: cache_read_def)

end
