(* ===== verification/CacheSweep.thy ===== *)
theory CacheSweep
  imports CacheOps
begin

text \<open>
  Flush, trim and format: what stays cached, what is written; and the writes that always succeed.
\<close>

section \<open>Sweeping the cache\<close>

lemma invalidate_fewer: "shape p k \<Longrightarrow> ptr_ok p q \<Longrightarrow> fewer_lines p k (invalidate_line q k)"
  by (simp add: fewer_lines_def invalidate_line_def line_at_set_line)

lemma shape_invalidate [simp]: "shape p (invalidate_line q k) = shape p k"
  by (simp add: invalidate_line_def)

lemma evict_clear_invalidate [simp]: "evict_clear p (invalidate_line q k) = evict_clear p k"
  by (simp add: invalidate_line_def)

definition swept :: "lpn_range \<Rightarrow> line_ptr \<Rightarrow> cache \<Rightarrow> cache" where
  "swept r q k = (if in_range r (l_tag (line_at k q)) then invalidate_line q k else k)"

definition sweeps :: "lpn_range \<Rightarrow> (line_ptr \<Rightarrow> ftl_request \<times> nat \<times> nat \<times> cache \<times> 'w \<Rightarrow> (ftl_request \<times> nat \<times> nat \<times> cache \<times> 'w) res) \<Rightarrow> bool" where
  "sweeps r step \<longleftrightarrow> (\<forall>q s s'. step q s = Inr s' \<longrightarrow> fst (snd (snd (snd s'))) = swept r q (fst (snd (snd (snd s)))))"

lemma flush_line_swept: "sweeps r (flush_line p L r)"
  by (auto simp: sweeps_def flush_line_def swept_def Let_def res_simps split_paired_Ex split: if_splits)

lemma trim_line_swept: "sweeps r (trim_line p L r)"
  by (auto simp: sweeps_def trim_line_def swept_def Let_def res_simps split_paired_Ex split: if_splits)

lemma swept_line:
  "shape p k \<Longrightarrow> ptr_ok p q \<Longrightarrow> line_at (swept r q k) q' =
     (if q' = q \<and> in_range r (l_tag (line_at k q)) then (line_at k q)\<lparr>l_valid := False\<rparr> else line_at k q')"
  by (simp add: swept_def invalidate_line_def line_at_set_line)

lemma swept_ok: "shape p k \<Longrightarrow> ptr_ok p q \<Longrightarrow>
    shape p (swept r q k) \<and> fewer_lines p k (swept r q k) \<and> evict_clear p (swept r q k) = evict_clear p k"
  by (simp add: swept_def invalidate_fewer)

lemma fold_swept_ok:
  assumes "shape p k" "\<forall>q \<in> set qs. ptr_ok p q"
  shows "shape p (fold (swept r) qs k) \<and> fewer_lines p k (fold (swept r) qs k) \<and>
    evict_clear p (fold (swept r) qs k) = evict_clear p k \<and>
    (\<forall>q. line_at (fold (swept r) qs k) q =
      (if q \<in> set qs \<and> in_range r (l_tag (line_at k q)) then (line_at k q)\<lparr>l_valid := False\<rparr> else line_at k q))"
  using assms
proof (induction qs arbitrary: k)
  case (Cons q qs)
  have q: "ptr_ok p q" using Cons.prems(2) by simp
  note s = swept_ok[OF Cons.prems(1) q, of r]
  have "shape p (swept r q k)" "\<forall>q \<in> set qs. ptr_ok p q" using s Cons.prems(2) by auto
  note ih = Cons.IH[OF this]
  have "fewer_lines p k (fold (swept r) (q # qs) k)" using s ih fewer_trans by (metis fold_simps(2))
  then show ?case using s ih by (auto simp: swept_line[OF Cons.prems(1) q])
qed simp

lemma all_lines_ptr: "q \<in> set (all_lines p) \<longleftrightarrow> ptr_ok p q"
  by (cases q) (auto simp: all_lines_def ptr_ok_def)

lemma distinct_all_lines: "distinct (all_lines p)"
  by (simp add: all_lines_def distinct_product)

text \<open>A sweep changes the cache as the fold of its per-line effect.\<close>

lemma rfold_swept:
  assumes "sweeps r step"
  shows "rfold step qs (rq, tick, fin, k, w) = Inr (rq', tick', fin', k', w') \<Longrightarrow> k' = fold (swept r) qs k"
proof (induction qs arbitrary: rq tick fin k w)
  case (Cons q qs)
  obtain rq1 tick1 fin1 k1 w1 where s: "step q (rq, tick, fin, k, w) = Inr (rq1, tick1, fin1, k1, w1)"
    and run: "rfold step qs (rq1, tick1, fin1, k1, w1) = Inr (rq', tick', fin', k', w')"
    using Cons.prems by (auto simp: res_simps split_paired_Ex)
  have "k1 = swept r q k" using assms s unfolding sweeps_def by fastforce
  then show ?case using Cons.IH[OF run] by simp
qed simp

lemma sweep_ok:
  assumes "sweep p L fn step tick k w = Inr (t, k', w')" "cache_inv p k" "useReadCaching p \<or> useWriteCaching p"
    and "sweeps r step"
  shows "cache_inv p k' \<and> (\<forall>lca. cached p k' lca = (cached p k lca \<and> \<not> in_range r lca))"
proof -
  obtain rq1 tick1 fin1 w1 where run: "rfold step (all_lines p) (ftl_request_new (lineCountInSuperPage p), tick, tick, k, w) = Inr (rq1, tick1, fin1, k', w1)"
    using assms(1,3) by (auto simp: sweep_def charge_def res_simps split_paired_Ex split: prod.split_asm)
  have k': "k' = fold (swept r) (all_lines p) k" by (rule rfold_swept[OF assms(4) run])
  have sh: "shape p k" "tags_ok p k" "evict_clear p k" using assms(2) by (simp_all add: cache_inv_def)
  have f: "shape p k'" "fewer_lines p k k'" "evict_clear p k'"
    "\<forall>q. line_at k' q = (if q \<in> set (all_lines p) \<and> in_range r (l_tag (line_at k q)) then (line_at k q)\<lparr>l_valid := False\<rparr> else line_at k q)"
    unfolding k' using fold_swept_ok[OF sh(1), of "all_lines p" r] sh(3) by (simp_all add: all_lines_ptr)
  have "cached p k' lca = (cached p k lca \<and> \<not> in_range r lca)" for lca
    unfolding cached_def using f(4) by (auto simp: all_lines_ptr split: if_splits)
  then show ?thesis using f fewer_tags[OF f(2) sh(2)] by (simp add: cache_inv_def)
qed

lemma sweep_off: "sweep p L fn step tick k w = Inr (t, k', w') \<Longrightarrow> \<not> (useReadCaching p \<or> useWriteCaching p) \<Longrightarrow> k' = k"
  by (simp add: sweep_def)

lemma cache_flush_ok:
  assumes "cache_flush p L r tick k w = Inr (t, k', w')" "cache_inv p k"
  shows "cache_inv p k' \<and> (useReadCaching p \<or> useWriteCaching p \<longrightarrow> (\<forall>lca. cached p k' lca = (cached p k lca \<and> \<not> in_range r lca)))"
  using sweep_ok[OF assms(1)[unfolded cache_flush_def] assms(2) _ flush_line_swept] sweep_off[OF assms(1)[unfolded cache_flush_def]] assms(2)
  by (cases "useReadCaching p \<or> useWriteCaching p") auto

lemma cache_trim_ok:
  assumes "cache_trim p L r tick k w = Inr (t, k', w')" "cache_inv p k"
  shows "cache_inv p k' \<and> (useReadCaching p \<or> useWriteCaching p \<longrightarrow> (\<forall>lca. cached p k' lca = (cached p k lca \<and> \<not> in_range r lca)))"
  using sweep_ok[OF assms(1)[unfolded cache_trim_def] assms(2) _ trim_line_swept] sweep_off[OF assms(1)[unfolded cache_trim_def]] assms(2)
  by (cases "useReadCaching p \<or> useWriteCaching p") auto

section \<open>Format\<close>

lemma drop_line_ok:
  assumes "drop_line p lca (k, tick) = (k', tick')" "cache_inv p k" "geometry_ok p"
  shows "cache_inv p k' \<and> (\<forall>x. cached p k' x = (cached p k x \<and> x \<noteq> lca))"
proof -
  have sh: "shape p k" "tags_ok p k" "evict_clear p k" using assms(2) by (simp_all add: cache_inv_def)
  obtain wy t where gv: "getValidWay p k lca tick = (wy, t)" by force
  show ?thesis
  proof (cases "wy = waySize p")
    case True
    then show ?thesis using assms not_cached[OF gv[unfolded True] sh(1) assms(3) sh(2)] gv by (auto simp: drop_line_def)
  next
    case False
    let ?q = "(calcSetIndex p lca, wy)"
    note q = getValidWay_ok(2)[OF gv sh(1) assms(3) False]
    have k': "k' = invalidate_line ?q k" using assms(1) gv False by (simp add: drop_line_def)
    have "fewer_lines p k k'" using invalidate_fewer[OF sh(1)] q unfolding k' by blast
    then have "cache_inv p k'" using sh fewer_tags unfolding k' by (auto simp: cache_inv_def)
    moreover have ln: "line_at k' q' = (if q' = ?q then (line_at k ?q)\<lparr>l_valid := False\<rparr> else line_at k q')" for q'
      unfolding k' invalidate_line_def using q by (simp add: line_at_set_line[OF sh(1)])
    moreover have "cached p k' x = (cached p k x \<and> x \<noteq> lca)" for x
    proof
      assume "cached p k' x"
      then obtain q' where "ptr_ok p q'" "l_valid (line_at k q')" "l_tag (line_at k q') = x" "q' \<noteq> ?q"
        by (auto simp: cached_def ln split: if_splits)
      note x = this
      have "x \<noteq> lca" using tags_okD(2)[OF sh(2) x(1,2), of ?q] x(3,4) q by fastforce
      then show "cached p k x \<and> x \<noteq> lca" using x unfolding cached_def by blast
    next
      assume "cached p k x \<and> x \<noteq> lca"
      then obtain q' where "ptr_ok p q'" "l_valid (line_at k q')" "l_tag (line_at k q') = x" "q' \<noteq> ?q"
        using q unfolding cached_def by metis
      then show "cached p k' x" unfolding cached_def by (intro exI[of _ q']) (simp add: ln)
    qed
    ultimately show ?thesis by blast
  qed
qed

lemma fold_drop_ok:
  assumes "fold (drop_line p) xs (k, tick) = (k', tick')" "cache_inv p k" "geometry_ok p"
  shows "cache_inv p k' \<and> (\<forall>x. cached p k' x = (cached p k x \<and> x \<notin> set xs))"
  using assms(1,2)
proof (induction xs arbitrary: k tick)
  case (Cons y xs)
  obtain k1 t1 where s: "drop_line p y (k, tick) = (k1, t1)" by force
  have run: "fold (drop_line p) xs (k1, t1) = (k', tick')" using Cons.prems(1) s by simp
  note d = drop_line_ok[OF s Cons.prems(2) assms(3)]
  from Cons.IH[OF run] d show ?case by auto
qed simp

lemma cache_format_ok:
  assumes "cache_format p L r tick k w = Inr (t, k', w')" "cache_inv p k" "geometry_ok p"
  shows "cache_inv p k' \<and> (useReadCaching p \<or> useWriteCaching p \<longrightarrow> (\<forall>lca. cached p k' lca = (cached p k lca \<and> \<not> in_range r lca)))"
proof (cases "useReadCaching p \<or> useWriteCaching p")
  case True
  obtain k1 t1 where f: "fold (drop_line p) [slpn r..<slpn r + nlp r] (k, tick) = (k1, t1)" by force
  have "k' = k1" using assms(1) True f by (auto simp: cache_format_def charge_def res_simps split_paired_Ex split: prod.split_asm)
  then show ?thesis using fold_drop_ok[OF f assms(2,3)] by (auto simp: in_range_def)
next
  case False
  then have "k' = k" using assms(1) by (auto simp: cache_format_def charge_def res_simps split_paired_Ex split: prod.split_asm)
  then show ?thesis using assms(2) False by simp
qed

section \<open>What a flush writes\<close>

text \<open>An FTL that logs the pages it is asked to write.\<close>

definition logs_writes :: "nat list cache_low \<Rightarrow> bool" where
  "logs_writes L \<longleftrightarrow> (\<forall>r t w. \<exists>t'. b_ftl_write L r t w = Inr (t', w @ [f_lpn r])) \<and> (\<forall>fn w. snd (b_cpu L fn w) = w)"

definition flush_log :: "cache_param \<Rightarrow> lpn_range \<Rightarrow> cache \<Rightarrow> line_ptr list \<Rightarrow> nat list" where
  "flush_log p r k qs = map (\<lambda>q. l_tag (line_at k q) div lineCountInSuperPage p)
     (filter (\<lambda>q. in_range r (l_tag (line_at k q)) \<and> l_dirty (line_at k q)) qs)"

lemma flush_log_cong: "\<forall>x \<in> set qs. line_at k' x = line_at k x \<Longrightarrow> flush_log p r k' qs = flush_log p r k qs"
  by (induction qs) (auto simp: flush_log_def)

lemma flush_log_run:
  assumes "rfold (flush_line p L r) qs (rq, tick, fin, k, w) = Inr (rq', tick', fin', k', w')"
    and "logs_writes L" "shape p k" "\<forall>q \<in> set qs. ptr_ok p q" "distinct qs"
  shows "w' = w @ flush_log p r k qs"
  using assms(1,3-)
proof (induction qs arbitrary: rq tick fin k w)
  case (Cons q qs)
  obtain rq1 tick1 fin1 k1 w1 where s: "flush_line p L r q (rq, tick, fin, k, w) = Inr (rq1, tick1, fin1, k1, w1)"
    and run: "rfold (flush_line p L r) qs (rq1, tick1, fin1, k1, w1) = Inr (rq', tick', fin', k', w')"
    using Cons.prems by (auto simp: res_simps split_paired_Ex)
  have q: "ptr_ok p q" "q \<notin> set qs" "\<forall>q \<in> set qs. ptr_ok p q" "distinct qs" using Cons.prems(3,4) by auto
  have k1: "k1 = swept r q k" using flush_line_swept[unfolded sweeps_def] s by fastforce
  obtain t where t: "b_ftl_write L (add_unit p (l_tag (line_at k q)) rq) (tick + meta_time p) w =
      Inr (t, w @ [l_tag (line_at k q) div lineCountInSuperPage p])"
    using assms(2) unfolding logs_writes_def by (metis (no_types, lifting) add_unit_def ftl_request.select_convs(3) ftl_request.surjective ftl_request.update_convs(3,4))
  have w1: "w1 = w @ flush_log p r k [q]"
    using s t by (cases "in_range r (l_tag (line_at k q))"; cases "l_dirty (line_at k q)") (auto simp: flush_line_def flush_log_def Let_def)
  have "shape p k1" using swept_ok[OF Cons.prems(2) q(1)] k1 by simp
  then have "w' = w1 @ flush_log p r k1 qs" using Cons.IH[OF run] q by blast
  moreover have "\<forall>x \<in> set qs. line_at k1 x = line_at k x"
    using q(2) unfolding k1 by (auto simp: swept_line[OF Cons.prems(2) q(1)])
  then have "flush_log p r k1 qs = flush_log p r k qs" by (rule flush_log_cong)
  ultimately show ?case using w1 by (simp add: flush_log_def)
qed (simp add: flush_log_def)

lemma cache_flush_log:
  assumes "cache_flush p L r tick k w = Inr (t, k', w')" "logs_writes L" "shape p k" "useReadCaching p \<or> useWriteCaching p"
  shows "w' = w @ flush_log p r k (all_lines p)"
proof -
  obtain rq1 tick1 fin1 w1 where run: "rfold (flush_line p L r) (all_lines p) (ftl_request_new (lineCountInSuperPage p), tick, tick, k, w) = Inr (rq1, tick1, fin1, k', w1)"
      and w': "w' = snd (b_cpu L FN_FLUSH w1)"
    using assms(1,4) by (auto simp: cache_flush_def sweep_def charge_def res_simps split_paired_Ex split: prod.split_asm)
  then show ?thesis using flush_log_run[OF run assms(2,3)] assms(2) by (simp add: all_lines_ptr distinct_all_lines logs_writes_def)
qed

end
