(* ===== verification/CacheTotal.thy ===== *)
theory CacheTotal
  imports CacheOps
begin

text \<open>
  The write path always finds a line: with lower layers that answer before the largest tick, no write
  ends in the panic ``Cache corrupted!''.
\<close>

definition answers :: "nat \<Rightarrow> (nat \<Rightarrow> 'w \<Rightarrow> (nat \<times> 'w) res) \<Rightarrow> bool" where
  "answers T f \<longleftrightarrow> (\<forall>t w. t \<le> T \<longrightarrow> (\<exists>t' w'. f t w = Inr (t', w') \<and> t' < U64MAX))"

definition stamps_ok :: "cache_param \<Rightarrow> nat \<Rightarrow> cache \<Rightarrow> bool" where
  "stamps_ok p T k \<longleftrightarrow> (\<forall>q. ptr_ok p q \<longrightarrow> l_insertedAt (line_at k q) \<le> T)"

definition write_bound :: "cache_param \<Rightarrow> nat \<Rightarrow> nat" where
  "write_bound p tick = tick + 3 * (waySize p * meta_time p) + cacheLatency p * setSize p * waySize p * 8"

lemma scan_valid_time: "scan_valid d lca ls i t = (j, t') \<Longrightarrow> t' \<le> t + length ls * d"
proof (induction ls arbitrary: i t)
  case (Cons l ls)
  then show ?case by (fastforce split: if_splits)
qed simp

lemma scan_empty_time: "scan_empty d ls i ret least t = (j, t') \<Longrightarrow> t' \<le> t + length ls * d"
proof (induction ls arbitrary: i ret least t)
  case (Cons l ls)
  then show ?case by (fastforce split: if_splits)
qed simp

lemma getValidWay_time:
  assumes "getValidWay p k lca tick = (wy, t)" "shape p k" "geometry_ok p"
  shows "t \<le> tick + waySize p * meta_time p"
  using scan_valid_time[OF assms(1)[unfolded getValidWay_def]] assms(2) set_index_ok[OF assms(3), of lca]
  by (simp add: shape_def)

lemma getEmptyWay_time:
  assumes "getEmptyWay p k s tick = (wy, t)" "shape p k" "s < setSize p"
  shows "t \<le> tick + waySize p * meta_time p"
  using scan_empty_time[OF assms(1)[unfolded getEmptyWay_def]] assms(2,3) by (simp add: shape_def)

lemma evictCache_total:
  assumes "\<forall>r. answers T (b_ftl_write L r)" "tick \<le> T" "T < U64MAX" "shape p k" "evict_ptrs p k"
    and "\<forall>q. ptr_ok p q \<longrightarrow> l_insertedAt (line_at k q) < U64MAX"
  shows "\<exists>k' w'. evictCache p L True tick k w = Inr (k', w') \<and> (\<forall>q. ptr_ok p q \<longrightarrow> l_insertedAt (line_at k' q) < U64MAX)"
proof -
  define P where "P s \<longleftrightarrow> shape p (fst s) \<and> evict_ptrs p (fst s) \<and> (\<forall>q. ptr_ok p q \<longrightarrow> l_insertedAt (line_at (fst s) q) < U64MAX)"
    for s :: "cache \<times> 'a"
  have "\<exists>s'. rfold (\<lambda>(r, c). evict_slot p L True tick r c) (io_slots p) (k, w) = Inr s' \<and> P s'"
  proof (rule rfold_total)
    show "P (k, w)" using assms by (simp add: P_def)
    fix x and s :: "cache \<times> 'a"
    assume x: "x \<in> set (io_slots p)" and s: "P s"
    obtain r c where rc: "x = (r, c)" by (cases x)
    obtain k1 w1 where kw: "s = (k1, w1)" by (cases s)
    have so: "slot_ok p r c" using x rc by (simp add: io_slots_iff)
    have k1: "shape p k1" "evict_ptrs p k1" "\<forall>q. ptr_ok p q \<longrightarrow> l_insertedAt (line_at k1 q) < U64MAX" using s kw by (simp_all add: P_def)
    show "\<exists>s'. (case x of (r, c) \<Rightarrow> evict_slot p L True tick r c) s = Inr s' \<and> P s'"
    proof (cases "evict_at k1 r c")
      case None
      then show ?thesis using s rc kw by (simp add: evict_slot_def)
    next
      case (Some q)
      then have q: "ptr_ok p q" using k1(2) so by (simp add: evict_ptrs_def)
      have "\<exists>b w2. (if l_valid (line_at k1 q) \<and> l_dirty (line_at k1 q)
           then b_ftl_write L (unit_request p (ftl_request_new (lineCountInSuperPage p)) (l_tag (line_at k1 q) div lineCountInSuperPage p) r) tick w1
           else Inr (tick, w1)) = Inr (b, w2) \<and> b < U64MAX"
        using assms(1-3) unfolding answers_def by auto
      then obtain b w2 f where "evict_slot p L True tick r c (k1, w1) = Inr (set_evict r c None (set_line q f k1), w2)"
        "l_insertedAt (f (line_at k1 q)) = b" "b < U64MAX"
        using Some by (auto simp: evict_slot_def Let_def)
      moreover from this have "P (set_evict r c None (set_line q f k1), w2)"
        using k1 so q by (auto simp: P_def evict_ptrs_set line_at_set_line)
      ultimately show ?thesis using rc kw by auto
    qed
  qed
  then show ?thesis unfolding evictCache_def P_def by force
qed

lemma write_evict_total:
  assumes "geometry_ok p" "cache_inv p k" "\<forall>r. answers T (b_ftl_write L r)" "\<forall>q n. answers T (b_dram_write L q n)"
    and "T < U64MAX" "stamps_ok p T k" "t1 + cacheLatency p * setSize p * waySize p * 8 + waySize p * meta_time p \<le> T"
    and full: "\<forall>i < waySize p. l_valid (line_at k (calcSetIndex p (slpn (i_range req)), i))"
  shows "\<exists>h t k' w'. write_evict p L req t1 k w = Inr (h, t, k', w')"
proof -
  let ?s = "calcSetIndex p (slpn (i_range req))" and ?t2 = "t1 + cacheLatency p * setSize p * waySize p * 8"
  note s = set_index_ok[OF assms(1), of "slpn (i_range req)"]
  obtain kc wc where ch: "choose_evictions p L ?s k w = (kc, wc)" by (cases "choose_evictions p L ?s k w")
  have kc: "shape p kc" "evict_ptrs p kc" "k_data kc = k_data k" using choose_keeps[OF ch assms(2,1) s] by auto
  have st: "\<forall>q. ptr_ok p q \<longrightarrow> l_insertedAt (line_at kc q) < U64MAX"
    using assms(5,6) kc(3) by (fastforce simp: stamps_ok_def line_at_def)
  obtain kd wd where ev: "evictCache p L True ?t2 kc wc = Inr (kd, wd)"
    and kd: "\<forall>q. ptr_ok p q \<longrightarrow> l_insertedAt (line_at kd q) < U64MAX"
    using evictCache_total[OF assms(3) _ assms(5) kc(1,2) st, of ?t2 wc] assms(7) by auto
  have ok: "shape p kd" "\<forall>r c q. slot_ok p r c \<and> evict_at kc r c = Some q \<longrightarrow> \<not> l_valid (line_at kd q)"
    using evictCache_ok[OF ev kc(1,2)] by auto
  obtain r c i where "slot_ok p r c" "evict_at kc r c = Some (?s, i)" "ptr_ok p (?s, i)"
    using choose_evictions_ok[OF ch assms(2,1) s] full by blast
  then have i: "\<not> l_valid (line_at kd (?s, i))" "ptr_ok p (?s, i)" using ok(2) by blast+
  obtain wy t3 where ge: "getEmptyWay p kd ?s ?t2 = (wy, t3)" by (cases "getEmptyWay p kd ?s ?t2")
  have wy: "wy \<noteq> waySize p" using getEmptyWay_ok(2)[OF ge ok(1) s i(2,1)] kd i(2) by blast
  have "t3 \<le> T" using getEmptyWay_time[OF ge ok(1) s] assms(7) by linarith
  then obtain t w2 where "b_dram_write L (Some (?s, wy)) (i_length req) t3 wd = Inr (t, w2)"
    using assms(4) unfolding answers_def by blast
  then show ?thesis using wy by (auto simp: write_evict_def Let_def ch ev ge)
qed

lemma cache_write_total:
  assumes "geometry_ok p" "cache_inv p k" "useWriteCaching p" "\<forall>r. answers T (b_ftl_write L r)" "\<forall>q n. answers T (b_dram_write L q n)"
    and "T < U64MAX" "stamps_ok p T k" "write_bound p tick \<le> T"
  shows "\<exists>h t k' w'. cache_write p L req tick k w = Inr (h, t, k', w')"
proof -
  let ?lca = "slpn (i_range req)"
  let ?s = "calcSetIndex p ?lca" and ?rq = "ftl_of_icl (lineCountInSuperPage p) req" and ?d = "i_length req < lineSize p"
  have sh: "shape p k" "tags_ok p k" using assms(2) by (simp_all add: cache_inv_def)
  note s = set_index_ok[OF assms(1), of ?lca]
  have "tick \<le> T" using assms(8) by (simp add: write_bound_def)
  then have "\<exists>f x. b_ftl_write L ?rq tick w = Inr (f, x)" using assms(4) unfolding answers_def by blast
  then obtain flash w1 where fl: "(if ?d then Inr (tick, w) else b_ftl_write L ?rq tick w) = Inr (flash, w1)"
    by (cases ?d) auto
  obtain wy t1 where gv: "getValidWay p k ?lca tick = (wy, t1)" by (cases "getValidWay p k ?lca tick")
  obtain wy2 t2 where ge: "getEmptyWay p k ?s t1 = (wy2, t2)" by (cases "getEmptyWay p k ?s t1")
  have t1: "t1 \<le> tick + waySize p * meta_time p" using getValidWay_time[OF gv sh(1) assms(1)] .
  have t2: "t2 \<le> tick + 2 * (waySize p * meta_time p)" using getEmptyWay_time[OF ge sh(1) s] t1 by simp
  have T: "tick + 2 * (waySize p * meta_time p) \<le> T" using assms(8) by (simp add: write_bound_def)
  have dram: "\<exists>t w'. b_dram_write L q n x w0 = Inr (t, w')" if "x \<le> T" for q n x w0 using assms(5) that unfolding answers_def by blast
  have ins: "max x (l_insertedAt (line_at k q)) \<le> T" if "x \<le> T" "ptr_ok p q" for x q using assms(7) that by (simp add: stamps_ok_def)
  note unf = cache_write_def Let_def fl rbind.simps prod.case if_P[OF assms(3)] gv
  have ch: "\<exists>h' t' k' w'. (case charge L FN_WRITE t x of (t, w) \<Rightarrow> Inr (h, t, k2, w)) = Inr (h', t', k', w')" for t x h and k2 :: cache
    by (cases "charge L FN_WRITE t x") simp
  show ?thesis
  proof (cases "wy = waySize p")
    case False
    have "t1 \<le> T" using t1 T by linarith
    then obtain t w2 where "b_dram_write L (Some (?s, wy)) (i_length req) (max t1 (l_insertedAt (line_at k (?s, wy)))) w1 = Inr (t, w2)"
      using dram ins getValidWay_ok(2)[OF gv sh(1) assms(1) False] by blast
    then show ?thesis unfolding unf using False by (simp add: ch)
  next
    case miss: True
    show ?thesis
    proof (cases "wy2 = waySize p")
      case False
      have "t2 \<le> T" using t2 T by linarith
      then obtain t w2 where "b_dram_write L (Some (?s, wy2)) (i_length req) (max t2 (l_insertedAt (line_at k (?s, wy2)))) w1 = Inr (t, w2)"
        using dram ins getEmptyWay_ok(1)[OF ge sh(1) s False] by blast
      then show ?thesis unfolding unf using miss False by (simp add: ge ch)
    next
      case full: True
      have "\<forall>q. ptr_ok p q \<longrightarrow> l_insertedAt (line_at k q) < U64MAX" using assms(6,7) by (fastforce simp: stamps_ok_def)
      note f = full_set[OF ge[unfolded full] sh(1) s this]
      have "t2 + cacheLatency p * setSize p * waySize p * 8 + waySize p * meta_time p \<le> T"
        using t2 assms(8) by (simp add: write_bound_def)
      from write_evict_total[OF assms(1,2,4-7) this f, of w1]
      obtain h t k' w2 where "write_evict p L req t2 k w1 = Inr (h, t, k', w2)" by blast
      then show ?thesis unfolding unf using miss full by (simp add: ge ch)
    qed
  qed
qed

end
