(* ===== verification/CacheDemo.thy ===== *)
theory CacheDemo
  imports CacheRead CacheSweep CacheTotal "HOL-Library.Code_Target_Nat"
begin

text \<open>
  Histories of cache operations, and a one-line cache over an FTL that logs the pages written to it.
\<close>

datatype cache_op = KRead icl_request | KWrite icl_request | KFlush lpn_range | KTrim lpn_range | KFormat lpn_range

fun cache_do :: "cache_param \<Rightarrow> 'w cache_low \<Rightarrow> cache_op \<Rightarrow> nat \<times> cache \<times> 'w \<Rightarrow> (nat \<times> cache \<times> 'w) res" where
  "cache_do p L (KRead r) (t, k, w) = rbind (cache_read p L r t k w) (\<lambda>(h, s). Inr s)"
| "cache_do p L (KWrite r) (t, k, w) = rbind (cache_write p L r t k w) (\<lambda>(h, s). Inr s)"
| "cache_do p L (KFlush r) (t, k, w) = cache_flush p L r t k w"
| "cache_do p L (KTrim r) (t, k, w) = cache_trim p L r t k w"
| "cache_do p L (KFormat r) (t, k, w) = cache_format p L r t k w"

definition cache_history :: "cache_param \<Rightarrow> 'w cache_low \<Rightarrow> cache_op list \<Rightarrow> nat \<times> cache \<times> 'w \<Rightarrow> (nat \<times> cache \<times> 'w) res" where
  "cache_history p L ops = rfold (cache_do p L) ops"

lemma cache_do_inv:
  assumes "cache_do p L op (t, k, w) = Inr (t', k', w')" "cache_inv p k" "geometry_ok p"
  shows "cache_inv p k'"
proof (cases op)
  case (KRead r)
  then show ?thesis using assms cache_read_ok by (fastforce simp: res_simps split_paired_Ex)
next
  case (KWrite r)
  then show ?thesis using assms cache_write_ok by (fastforce simp: res_simps split_paired_Ex)
next
  case (KFlush r)
  then show ?thesis using assms cache_flush_ok by fastforce
next
  case (KTrim r)
  then show ?thesis using assms cache_trim_ok by fastforce
next
  case (KFormat r)
  then show ?thesis using assms cache_format_ok by fastforce
qed

section \<open>A concrete cache\<close>

definition low_log :: "nat list cache_low" where
  "low_log = \<lparr>b_ftl_read = (\<lambda>r t w. Inr (t + 5, w)), b_ftl_write = (\<lambda>r t w. Inr (t + 50, w @ [f_lpn r])),
     b_ftl_trim = (\<lambda>r t w. Inr (t + 1, w)), b_ftl_format = (\<lambda>r t w. Inr (t + 1, w)),
     b_dram_read = (\<lambda>q n t w. Inr (t + 2, w)), b_dram_write = (\<lambda>q n t w. Inr (t + 2, w)),
     b_dram_sched = (\<lambda>b w. w), b_cpu = (\<lambda>fn w. (3, w)), b_dist = (\<lambda>n w. (0, w))\<rparr>"

lemma low_log_logs: "logs_writes low_log"
  by (simp add: logs_writes_def low_log_def)

lemma low_log_answers: "answers 1000 (b_ftl_write low_log r)" "answers 1000 (b_dram_write low_log q n)"
  by (simp_all add: answers_def low_log_def)

definition small_param :: "nat \<Rightarrow> cache_param" where
  "small_param ways = \<lparr>superPageSize = 8, parallelIO = 1, lineCountInSuperPage = 1, lineCountInMaxIO = 1,
     lineSize = 8, setSize = 1, waySize = ways, distMax = 0, prefetchIOCount = 0, prefetchIORatio = Fin 0,
     useReadCaching = True, useWriteCaching = True, useReadPrefetch = False, bSuperPage = False,
     prefetchAll = False, evictSuperPage = False, cachePolicy = EV_FIFO, cacheLatency = 1\<rparr>"

lemma small_geometry: "0 < n \<Longrightarrow> geometry_ok (small_param n)"
  by (simp add: geometry_ok_def small_param_def)

definition small_req :: "nat \<Rightarrow> nat \<Rightarrow> icl_request" where
  "small_req lca len = \<lparr>i_reqID = lca, i_reqSubID = 1, i_offset = 0, i_length = len, i_range = \<lparr>slpn = lca, nlp = 1\<rparr>\<rparr>"

text \<open>What a run leaves: the tick, each way's tag, validity and dirtiness, and the log.\<close>

definition way_view :: "cache \<Rightarrow> (nat \<times> bool \<times> bool) list" where
  "way_view k = map (\<lambda>l. (l_tag l, l_valid l, l_dirty l)) (concat (k_data k))"

fun run_view :: "(nat \<times> cache \<times> nat list) res \<Rightarrow> (nat \<times> (nat \<times> bool \<times> bool) list \<times> nat list) res" where
  "run_view (Inl e) = Inl e"
| "run_view (Inr (t, k, w)) = Inr (t, way_view k, w)"

lemma small_cache_runs:
  "run_view (cache_history (small_param 1) low_log [KWrite (small_req 1 4)] (0, cache_new (small_param 1), [])) =
     Inr (21, [(1, True, True)], [])"
  "run_view (cache_history (small_param 1) low_log [KWrite (small_req 1 4), KRead (small_req 2 8)] (0, cache_new (small_param 1), [])) =
     Inr (53, [(2, False, False)], [])"
  "run_view (cache_history (small_param 1) low_log [KWrite (small_req 1 4), KWrite (small_req 2 4)] (0, cache_new (small_param 1), [])) =
     Inr (50, [(2, True, True)], [1])"
  "run_view (cache_history (small_param 1) low_log [KWrite (small_req 1 4), KFlush \<lparr>slpn = 1, nlp = 1\<rparr>] (0, cache_new (small_param 1), [])) =
     Inr (82, [(1, False, True)], [1])"
  "run_view (cache_flush (small_param 1) low_log \<lparr>slpn = 0, nlp = 5\<rparr> 0 (cache_new (small_param 1)) []) =
     Inr (11, [(0, False, False)], [])"
  by code_simp+

lemma run_view_InrE:
  assumes "run_view m = Inr v" "\<And>t k w. m = Inr (t, k, w) \<Longrightarrow> thesis"
  shows thesis
  using assms by (cases m) auto

lemma cache_new_stamps: "stamps_ok p T (cache_new p)"
  by (auto simp: stamps_ok_def ptr_ok_def cache_new_def line_at_def line0_def)

section \<open>The constructor\<close>

lemma cache_param_geometry:
  assumes "cache_param_of cf pageSize maxPerf ioUnit = Inr p" "cc_readCache cf \<or> cc_writeCache cf" "0 < maxPerf"
    "maxPerf * ioUnit < 2 ^ 32" "cc_cacheSize cf div lineSize p < 2 ^ 32"
  shows "geometry_ok p"
proof -
  have io: "0 < ioUnit" using assms(1) by (auto simp: cache_param_of_def res_simps)
  have "maxPerf \<le> maxPerf * ioUnit" using io by simp
  then have mp: "maxPerf < 2 ^ 32" using assms(4) by linarith
  have w: "wrap32 n = n" if "n < 2 ^ 32" for n using that by (simp add: wrap32_def)
  have le: "cc_cacheSize cf div lineSize p div cc_waySize cf < 2 ^ 32"
    using assms(5) by (meson div_le_dividend le_less_trans)
  have pos: "0 < wrap32 (max n 1)" if "n < 2 ^ 32" for n using w[of "max n 1"] that by simp
  have p: "parallelIO p = maxPerf" "lineCountInSuperPage p = (if cc_randomTweak cf then ioUnit else 1)"
    "lineCountInMaxIO p = wrap32 (maxPerf * lineCountInSuperPage p)"
    "waySize p = (if cc_waySize cf = 0 then wrap32 (max (cc_cacheSize cf div lineSize p) 1) else cc_waySize cf)"
    "setSize p = (if cc_waySize cf = 0 then 1 else wrap32 (max (cc_cacheSize cf div lineSize p div cc_waySize cf) 1))"
    using assms(1) unfolding cache_param_of_def Let_def res_simps
    by - (elim exE conjE, drule sum.inject(2)[THEN iffD1], hypsubst, simp only: cache_param.simps)+
  have "0 < waySize p" "0 < setSize p" using pos[OF assms(5)] pos[OF le] by (simp_all add: p)
  moreover have "lineCountInMaxIO p = maxPerf * lineCountInSuperPage p" "0 < lineCountInSuperPage p"
    using w[OF assms(4)] w[OF mp] io by (simp_all add: p)
  ultimately show ?thesis using assms(3) p(1) by (simp add: geometry_ok_def)
qed

definition small_conf :: cache_conf where
  "small_conf = \<lparr>cc_cacheSize = 8, cc_waySize = 1, cc_prefetchCount = 0, cc_prefetchRatio = Fin 0, cc_readCache = True,
     cc_writeCache = True, cc_readPrefetch = False, cc_randomTweak = False, cc_evictSuperPage = False,
     cc_prefetchAll = False, cc_policy = Some EV_FIFO, cc_latency = 1, cc_cores = 1, cc_junk = False\<rparr>"

lemma small_conf_param: "cache_param_of small_conf 8 1 1 = Inr (small_param 1)"
  by (simp add: cache_param_of_def small_conf_def small_param_def wrap32_def)

end
