(* ===== verification/IclProps.thy ===== *)
theory IclProps
  imports IclLayer CacheDemo
begin

text \<open>
  The pieces a request is split into cover its bytes exactly once and in order; the requests of the HIL
  served through ICL and cache keep the invariants of all layers and are never forgotten.
\<close>

section \<open>Splitting\<close>

definition piece_end :: "icl_geometry \<Rightarrow> icl_request \<Rightarrow> nat \<Rightarrow> nat" where
  "piece_end G req i = min (i_length req) (i * ig_logicalPageSize G - i_offset req)"

definition icl_piece :: "icl_geometry \<Rightarrow> icl_request \<Rightarrow> nat \<Rightarrow> icl_request" where
  "icl_piece G req i = \<lparr>i_reqID = i_reqID req, i_reqSubID = i + 1, i_offset = (if i = 0 then i_offset req else 0),
     i_length = piece_end G req (i + 1) - piece_end G req i, i_range = \<lparr>slpn = slpn (i_range req) + i, nlp = 0\<rparr>\<rparr>"

lemma piece_next:
  assumes "i_offset req < ig_logicalPageSize G" "ig_logicalPageSize G < 18446744073709551616"
  shows "icl_part G req i (i_length req - piece_end G req i, if i = 0 then i_offset req else 0) = icl_piece G req i"
proof (cases i)
  case 0
  have "ig_logicalPageSize G + 18446744073709551616 - i_offset req = (ig_logicalPageSize G - i_offset req) + 18446744073709551616"
    using assms(1) by simp
  moreover have "wrap64 ((ig_logicalPageSize G - i_offset req) + 18446744073709551616) = ig_logicalPageSize G - i_offset req"
    using assms(2) by (simp add: wrap64_def)
  ultimately have w: "wrap64 (ig_logicalPageSize G + 18446744073709551616 - i_offset req) = ig_logicalPageSize G - i_offset req"
    by (simp only:)
  have "icl_part G req 0 (i_length req, i_offset req) = icl_piece G req 0"
    unfolding icl_part_def prod.case w by (simp add: icl_piece_def piece_end_def)
  then show ?thesis using 0 by (simp add: piece_end_def)
next
  case (Suc j)
  have "wrap64 (ig_logicalPageSize G + 18446744073709551616 - 0) = ig_logicalPageSize G" using assms(2) by (simp add: wrap64_def)
  moreover have "min (i_length req - piece_end G req i) (ig_logicalPageSize G) = piece_end G req (i + 1) - piece_end G req i"
  proof -
    define x where "x = i * ig_logicalPageSize G - i_offset req"
    have "i_offset req \<le> i * ig_logicalPageSize G" using assms(1) Suc by simp
    then have "(i + 1) * ig_logicalPageSize G - i_offset req = x + ig_logicalPageSize G" by (simp add: x_def)
    then show ?thesis by (simp add: piece_end_def x_def[symmetric] min_def) arith
  qed
  ultimately show ?thesis using Suc by (simp add: icl_part_def icl_piece_def)
qed

lemma piece_remain: "i_length req - piece_end G req i - i_length (icl_piece G req i) = i_length req - piece_end G req (i + 1)"
  by (auto simp: icl_piece_def piece_end_def min_def)

text \<open>A cache that only records what it is asked, and when.\<close>

definition recorder :: "(icl_request \<Rightarrow> nat \<Rightarrow> nat) \<Rightarrow> icl_request \<Rightarrow> nat \<Rightarrow> (icl_request \<times> nat) list \<Rightarrow> (nat \<times> (icl_request \<times> nat) list) res" where
  "recorder fin r t w = Inr (fin r t, w @ [(r, t)])"

lemma icl_loop_recorded:
  assumes "i_offset req < ig_logicalPageSize G" "ig_logicalPageSize G < 18446744073709551616"
  shows "rfold (icl_step G (recorder fin) req tick) [0..<n] (i_length req, i_offset req, tick, w) =
     Inr (i_length req - piece_end G req n, if n = 0 then i_offset req else 0,
          fold max (map (\<lambda>i. fin (icl_piece G req i) tick) [0..<n]) tick, w @ map (\<lambda>i. (icl_piece G req i, tick)) [0..<n])"
proof (induction n)
  case 0
  then show ?case by (simp add: piece_end_def)
next
  case (Suc n)
  have "icl_step G (recorder fin) req tick n (i_length req - piece_end G req n, if n = 0 then i_offset req else 0,
          fold max (map (\<lambda>i. fin (icl_piece G req i) tick) [0..<n]) tick, w @ map (\<lambda>i. (icl_piece G req i, tick)) [0..<n]) =
      Inr (i_length req - piece_end G req (Suc n), 0, fold max (map (\<lambda>i. fin (icl_piece G req i) tick) [0..<Suc n]) tick,
          w @ map (\<lambda>i. (icl_piece G req i, tick)) [0..<Suc n])"
    unfolding icl_step_def prod.case piece_next[OF assms] Let_def recorder_def rbind.simps piece_remain
    by (simp add: max.commute)
  then show ?case using Suc by (simp add: rfold_append)
qed

definition bytes_of :: "icl_geometry \<Rightarrow> icl_request \<Rightarrow> nat list" where
  "bytes_of G r = (let b = slpn (i_range r) * ig_logicalPageSize G + i_offset r in [b..<b + i_length r])"

lemma pieces_bytes:
  assumes "i_offset req < ig_logicalPageSize G"
  shows "concat (map (\<lambda>i. bytes_of G (icl_piece G req i)) [0..<n]) =
    (let b = slpn (i_range req) * ig_logicalPageSize G + i_offset req in [b..<b + piece_end G req n])"
proof (induction n)
  case 0
  then show ?case by (simp add: piece_end_def)
next
  case (Suc n)
  let ?ps = "ig_logicalPageSize G" let ?b = "slpn (i_range req) * ?ps + i_offset req"
  have le: "piece_end G req n \<le> piece_end G req (Suc n)" by (auto simp: piece_end_def min_def)
  have "bytes_of G (icl_piece G req n) = [?b + piece_end G req n..<?b + piece_end G req (Suc n)]"
  proof (cases "piece_end G req n = piece_end G req (Suc n)")
    case True
    then show ?thesis by (simp add: bytes_of_def icl_piece_def Let_def)
  next
    case False
    then have "n * ?ps - i_offset req < i_length req" by (auto simp: piece_end_def min_def split: if_splits)
    then have pe: "piece_end G req n = n * ?ps - i_offset req" by (simp add: piece_end_def)
    have "slpn (i_range (icl_piece G req n)) * ?ps + i_offset (icl_piece G req n) = ?b + piece_end G req n"
    proof (cases n)
      case (Suc m)
      then have "i_offset req \<le> n * ?ps" using assms by (simp add: trans_le_add1)
      then show ?thesis using Suc pe by (simp add: icl_piece_def add_mult_distrib)
    qed (simp add: icl_piece_def piece_end_def)
    moreover have "i_length (icl_piece G req n) = piece_end G req (Suc n) - piece_end G req n" by (simp add: icl_piece_def)
    ultimately show ?thesis using le by (simp add: bytes_of_def Let_def add.assoc)
  qed
  moreover have "[?b..<?b + piece_end G req n] @ [?b + piece_end G req n..<?b + piece_end G req (Suc n)] = [?b..<?b + piece_end G req (Suc n)]"
    using upt_add_eq_append[of ?b "?b + piece_end G req n" "piece_end G req (Suc n) - piece_end G req n"] le by (simp add: add.assoc)
  ultimately show ?case using Suc by (simp add: Let_def)
qed

section \<open>Requests through the stack\<close>

lemma icl_io_inv:
  assumes "icl_io G acc cpu req tick w = Inr (t, w')" "P w" "\<And>r t w t' w'. acc r t w = Inr (t', w') \<Longrightarrow> P w \<Longrightarrow> P w'"
    and "\<And>w d w'. cpu w = (d, w') \<Longrightarrow> P w \<Longrightarrow> P w' \<and> 0 < d"
  shows "P w' \<and> tick < t"
proof -
  obtain remain off fin w1 where run: "rfold (icl_step G acc req tick) [0..<nlp (i_range req)] (i_length req, i_offset req, tick, w) = Inr (remain, off, fin, w1)"
    and rest: "(case cpu w1 of (d, w) \<Rightarrow> Inr (fin + d, w)) = (Inr (t, w') :: (nat \<times> 'a) res)"
    using assms(1) by (auto simp: icl_io_def res_simps split_paired_Ex)
  obtain d where c: "cpu w1 = (d, w')" "t = fin + d" using rest by (cases "cpu w1") simp
  have "(\<lambda>(remain, off, fin, w). P w \<and> tick \<le> fin) (remain, off, fin, w1)"
  proof (rule rfold_invariant[OF run])
    show "(\<lambda>(remain, off, fin, w). P w \<and> tick \<le> fin) (i_length req, i_offset req, tick, w)" using assms(2) by simp
    fix i s s'
    assume "(\<lambda>(remain, off, fin, w). P w \<and> tick \<le> fin) s" "icl_step G acc req tick i s = Inr s'"
    then show "(\<lambda>(remain, off, fin, w). P w \<and> tick \<le> fin) s'"
      using assms(3) by (cases s) (auto simp: icl_step_def Let_def res_simps split_paired_Ex)
  qed
  then show ?thesis using assms(4)[OF c(1)] c(2) by auto
qed

definition cpu_positive :: "'w icl_env \<Rightarrow> bool" where
  "cpu_positive I \<longleftrightarrow> (\<forall>fn w. 0 < fst (ie_cpu I fn w))"

lemma icl_cpu_inv: "icl_cpu I fn kw = (d, kw') \<Longrightarrow> cpu_positive I \<Longrightarrow> fst kw' = fst kw \<and> 0 < d"
proof -
  assume a: "icl_cpu I fn kw = (d, kw')" "cpu_positive I"
  obtain k w d2 w2 where "kw = (k, w)" "ie_cpu I fn w = (d2, w2)" by (metis surj_pair)
  then show ?thesis using a by (auto simp: icl_cpu_def cpu_positive_def) (metis fst_conv)
qed

lemma icl_read_ok:
  assumes "icl_read I req tick (k, w) = Inr (t, k', w')" "cache_inv (ie_param I) k" "geometry_ok (ie_param I)" "cpu_positive I"
  shows "cache_inv (ie_param I) k' \<and> tick < t"
proof -
  have "(\<lambda>kw. cache_inv (ie_param I) (fst kw)) (k', w') \<and> tick < t"
  proof (rule icl_io_inv[OF assms(1)[unfolded icl_read_def]])
    show "cache_inv (ie_param I) (fst kw')"
      if "(\<lambda>(k, w). rbind (cache_read (ie_param I) (ie_low I) r t k w) (\<lambda>(hit, t, k, w). Inr (t, k, w))) kw = Inr (t', kw')"
        "cache_inv (ie_param I) (fst kw)" for r t t' kw kw'
      using that cache_read_ok[OF _ _ assms(3)] by (cases kw) (fastforce simp: res_simps split_paired_Ex)
    show "cache_inv (ie_param I) (fst kw') \<and> 0 < d"
      if "icl_cpu I FN_READ kw = (d, kw')" "cache_inv (ie_param I) (fst kw)" for kw d kw'
      using icl_cpu_inv[OF that(1) assms(4)] that(2) by simp
  qed (simp add: assms(2))
  then show ?thesis by simp
qed

lemma icl_write_ok:
  assumes "icl_write I req tick (k, w) = Inr (t, k', w')" "cache_inv (ie_param I) k" "geometry_ok (ie_param I)" "cpu_positive I"
  shows "cache_inv (ie_param I) k' \<and> tick < t"
proof -
  have "(\<lambda>kw. cache_inv (ie_param I) (fst kw)) (k', w') \<and> tick < t"
  proof (rule icl_io_inv[OF assms(1)[unfolded icl_write_def]])
    show "cache_inv (ie_param I) (fst kw')"
      if "(\<lambda>(k, w). rbind (cache_write (ie_param I) (ie_low I) r t k w) (\<lambda>(hit, t, k, w). Inr (t, k, w))) kw = Inr (t', kw')"
        "cache_inv (ie_param I) (fst kw)" for r t t' kw kw'
      using that cache_write_ok[OF _ _ assms(3)] by (cases kw) (fastforce simp: res_simps split_paired_Ex)
    show "cache_inv (ie_param I) (fst kw') \<and> 0 < d"
      if "icl_cpu I FN_WRITE kw = (d, kw')" "cache_inv (ie_param I) (fst kw)" for kw d kw'
      using icl_cpu_inv[OF that(1) assms(4)] that(2) by simp
  qed (simp add: assms(2))
  then show ?thesis by simp
qed

text \<open>A read or a write of the host, served by the ICL over the cache, with its completion on the engine.\<close>

definition io_job :: "bool \<Rightarrow> hil_request \<Rightarrow> hil_job" where
  "io_job wr r = (if wr then HJ_Write r else HJ_Read r)"

lemma stack_io:
  assumes "engine_inv e" "hl_event h \<in> set (en_list e)" "hil_ready (h, e)" "cache_inv (ie_param I) k" "geometry_ok (ie_param I)"
    "cpu_positive I" "hil_body (icl_as_ops I) scheduleEvent (io_job wr r) (en_simTick e) (h, e, k, w) = Inr (h', e', k', w')"
  shows "engine_inv e' \<and> hil_ready (h', e') \<and> cache_inv (ie_param I) k' \<and> en_simTick e' = en_simTick e \<and>
    (\<exists>t > en_simTick e. hl_queue h' = push_request (r\<lparr>h_reqID := hl_reqCount h + 1, h_finishedAt := t\<rparr>) (hl_queue h) \<and>
       (\<exists>d \<le> t. isEventExist (hl_event h) (en_queue e') = Some d))"
proof -
  let ?r = "r\<lparr>h_reqID := hl_reqCount h + 1\<rparr>"
  obtain t s where io: "(if wr then icl_write I (icl_of_hil ?r) (en_simTick e) (k, w) else icl_read I (icl_of_hil ?r) (en_simTick e) (k, w)) = Inr (t, k', w')"
    and fin: "finish_request scheduleEvent ?r t (h\<lparr>hl_reqCount := hl_reqCount h + 1, hl_stat := s\<rparr>, e) = Inr (h', e')"
    using assms(7) by (cases wr) (auto simp: io_job_def icl_as_ops_def Let_def res_simps split_paired_Ex)
  let ?h = "h\<lparr>hl_reqCount := hl_reqCount h + 1, hl_stat := s\<rparr>"
  have io_ok: "cache_inv (ie_param I) k' \<and> en_simTick e < t"
    using io icl_write_ok[OF _ assms(4-6)] icl_read_ok[OF _ assms(4-6)] by (cases wr) auto
  have live: "hil_ready (?h, e)" using assms(3) by (simp add: hil_live_def split: list.splits)
  obtain h1 e1 where f: "finish_request scheduleEvent ?r t (?h, e) = Inr (h1, e1)" "engine_inv e1" "en_simTick e1 = en_simTick e"
    "hil_ready (h1, e1)" "hl_queue h1 = push_request (?r\<lparr>h_finishedAt := t\<rparr>) (hl_queue h)"
    using en.finish_request_live[OF assms(1) _ live, of t ?r] assms(2) io_ok by auto
  have eq: "h1 = h'" "e1 = e'" using f(1) fin by simp_all
  obtain q qs where q: "hl_queue h' = q # qs" using f(5) eq push_not_Nil by (metis neq_Nil_conv)
  have ev: "hl_event h' = hl_event h"
    using fin by (auto simp: finish_request_def updateCompletion_def res_simps split: list.splits if_splits)
  have "isEventExist (hl_event h) (en_queue e') = Some (h_finishedAt q)" using f(4) q eq ev by (simp add: hil_live_def)
  moreover have "h_finishedAt q \<le> t"
  proof -
    have "finish_sorted (q # qs)" using f(4) q eq by (simp add: hil_live_def)
    moreover have "?r\<lparr>h_finishedAt := t\<rparr> \<in> set (q # qs)" using f(5) q eq by (metis insertI1 set_push)
    ultimately show ?thesis by auto
  qed
  ultimately show ?thesis using f eq io_ok by auto
qed

end
