(* ===== verification/CpuCore.thy ===== *)
theory CpuCore
  imports Requests SimEngine
begin

text \<open>
  \<open>cpu/cpu.cc\<close>: the embedded processor.  A core serves a queue of jobs, one at a time, through one
  event; \<open>execute\<close> sends a job to the least busy core of its group, \<open>applyLatency\<close> only charges its
  time.  The simulator the cores schedule on is the state \<open>'e\<close> with the calls \<open>sched\<close> and \<open>now\<close>; the
  function of a job is run by \<open>run\<close>, which may change everything.
\<close>

record inst_stat =
  is_branch :: nat
  is_load :: nat
  is_store :: nat
  is_arithmetic :: nat
  is_floatingPoint :: nat
  is_otherInsts :: nat
  is_latency :: nat

definition inst_stat0 :: inst_stat where
  "inst_stat0 = \<lparr>is_branch = 0, is_load = 0, is_store = 0, is_arithmetic = 0, is_floatingPoint = 0, is_otherInsts = 0, is_latency = 0\<rparr>"

definition inst_sum :: "inst_stat \<Rightarrow> nat" where
  "inst_sum i = is_branch i + is_load i + is_store i + is_arithmetic i + is_floatingPoint i + is_otherInsts i"

definition inst_new :: "nat \<Rightarrow> nat \<Rightarrow> nat \<Rightarrow> nat \<Rightarrow> nat \<Rightarrow> nat \<Rightarrow> nat \<Rightarrow> inst_stat" where
  "inst_new b l s a f o' c = (let i = \<lparr>is_branch = b, is_load = l, is_store = s, is_arithmetic = a, is_floatingPoint = f,
     is_otherInsts = o', is_latency = 0\<rparr> in i\<lparr>is_latency := inst_sum i * c\<rparr>)"

definition inst_add :: "inst_stat \<Rightarrow> inst_stat \<Rightarrow> inst_stat" where
  "inst_add x y = x\<lparr>is_branch := is_branch x + is_branch y, is_load := is_load x + is_load y, is_store := is_store x + is_store y,
     is_arithmetic := is_arithmetic x + is_arithmetic y, is_floatingPoint := is_floatingPoint x + is_floatingPoint y,
     is_otherInsts := is_otherInsts x + is_otherInsts y\<rparr>"

text \<open>The instruction counts of \<open>cpi\<close> for the namespaces of the layers modelled here.\<close>

type_synonym cpi_row = "nat \<times> nat \<times> nat \<times> nat \<times> nat \<times> nat"

definition cpi_counts :: "cpu_ns \<Rightarrow> cpu_fn \<Rightarrow> cpi_row option" where
  "cpi_counts ns fn = (case ns of
     CPU_FTL \<Rightarrow> (case fn of FN_READ \<Rightarrow> Some (5, 32, 6, 13, 0, 1) | FN_WRITE \<Rightarrow> Some (5, 32, 6, 13, 0, 1)
       | FN_TRIM \<Rightarrow> Some (5, 32, 6, 13, 0, 1) | FN_FORMAT \<Rightarrow> Some (4, 24, 4, 6, 0, 0) | _ \<Rightarrow> None)
   | CPU_PAGE_MAPPING \<Rightarrow> (case fn of FN_READ \<Rightarrow> Some (8, 28, 7, 18, 0, 1) | FN_WRITE \<Rightarrow> Some (8, 28, 7, 19, 0, 0)
       | FN_TRIM \<Rightarrow> Some (4, 28, 6, 11, 0, 0) | FN_FORMAT \<Rightarrow> Some (63, 180, 21, 147, 0, 2)
       | FN_SELECT_VICTIM_BLOCK \<Rightarrow> Some (177, 504, 113, 415, 118, 19)
       | FN_DO_GARBAGE_COLLECTION \<Rightarrow> Some (157, 616, 102, 338, 0, 2)
       | FN_READ_INTERNAL \<Rightarrow> Some (45, 180, 15, 155, 0, 0) | FN_WRITE_INTERNAL \<Rightarrow> Some (133, 452, 54, 377, 91, 1)
       | FN_TRIM_INTERNAL \<Rightarrow> Some (34, 140, 10, 146, 0, 0) | FN_ERASE_INTERNAL \<Rightarrow> Some (120, 236, 86, 260, 0, 1) | _ \<Rightarrow> None)
   | CPU_ICL \<Rightarrow> (case fn of FN_READ \<Rightarrow> Some (8, 88, 17, 27, 0, 1) | FN_WRITE \<Rightarrow> Some (8, 88, 17, 27, 0, 1)
       | FN_FLUSH \<Rightarrow> Some (5, 40, 6, 12, 0, 0) | FN_TRIM \<Rightarrow> Some (5, 40, 6, 12, 0, 0) | FN_FORMAT \<Rightarrow> Some (5, 40, 6, 12, 0, 0) | _ \<Rightarrow> None)
   | CPU_GENERIC_CACHE \<Rightarrow> (case fn of FN_READ \<Rightarrow> Some (90, 532, 64, 284, 0, 1) | FN_WRITE \<Rightarrow> Some (82, 496, 53, 312, 0, 5)
       | FN_FLUSH \<Rightarrow> Some (22, 120, 20, 59, 0, 2) | FN_TRIM \<Rightarrow> Some (22, 120, 20, 61, 0, 2) | FN_FORMAT \<Rightarrow> Some (9, 72, 12, 86, 0, 1) | _ \<Rightarrow> None)
   | CPU_HIL \<Rightarrow> (case fn of FN_READ \<Rightarrow> Some (61, 312, 102, 120, 0, 2) | FN_WRITE \<Rightarrow> Some (61, 312, 102, 120, 0, 2)
       | FN_FLUSH \<Rightarrow> Some (27, 100, 27, 49, 0, 1) | _ \<Rightarrow> None))"

definition cpi_lookup :: "nat \<Rightarrow> cpu_ns \<Rightarrow> cpu_fn \<Rightarrow> inst_stat res" where
  "cpi_lookup clockPeriod ns fn = (case cpi_counts ns fn of
     None \<Rightarrow> Inl (Panic ''Namespace does not have function'')
   | Some (b, l, s, a, f, o') \<Rightarrow> Inr (inst_new b l s a f o' clockPeriod))"

section \<open>Cores\<close>

record 'f job =
  j_func :: 'f
  j_inst :: inst_stat
  j_submitAt :: nat
  j_delay :: nat

record 'f core =
  co_busy :: bool
  co_event :: nat
  co_jobs :: "'f job list"
  co_busyTime :: nat
  co_instStat :: inst_stat

definition core_new :: "nat \<Rightarrow> 'f core" where
  "core_new ev = \<lparr>co_busy = False, co_event = ev, co_jobs = [], co_busyTime = 0, co_instStat = inst_stat0\<rparr>"

definition job_finish :: "nat \<Rightarrow> 'f job \<Rightarrow> nat" where
  "job_finish now j = (let diff = now - j_submitAt j in
     if diff \<ge> j_delay j then now + is_latency (j_inst j) else now + is_latency (j_inst j) + j_delay j - diff)"

definition handleJob :: "(nat \<Rightarrow> nat \<Rightarrow> 'e \<Rightarrow> 'e res) \<Rightarrow> nat \<Rightarrow> 'f core \<times> 'e \<Rightarrow> ('f core \<times> 'e) res" where
  "handleJob sched now = (\<lambda>(c, e). case co_jobs c of
     [] \<Rightarrow> Inl (Undefined ''queue::front'')
   | j # _ \<Rightarrow> rbind (sched (co_event c) (job_finish now j) e) (\<lambda>e. Inr (c\<lparr>co_busy := True\<rparr>, e)))"

definition submitJob :: "(nat \<Rightarrow> nat \<Rightarrow> 'e \<Rightarrow> 'e res) \<Rightarrow> nat \<Rightarrow> 'f \<Rightarrow> inst_stat \<Rightarrow> nat \<Rightarrow> 'f core \<times> 'e \<Rightarrow> ('f core \<times> 'e) res" where
  "submitJob sched now f i delay = (\<lambda>(c, e).
     let c = c\<lparr>co_jobs := co_jobs c @ [\<lparr>j_func = f, j_inst = i, j_submitAt = now, j_delay = delay\<rparr>]\<rparr> in
     if \<not> co_busy c then handleJob sched now (c, e) else Inr (c, e))"

text \<open>The handler of the core's event.\<close>

definition jobDone :: "(nat \<Rightarrow> nat \<Rightarrow> 'e \<Rightarrow> 'e res) \<Rightarrow> ('f \<Rightarrow> nat \<Rightarrow> 'f core \<times> 'e \<Rightarrow> ('f core \<times> 'e) res) \<Rightarrow> nat \<Rightarrow>
    'f core \<times> 'e \<Rightarrow> ('f core \<times> 'e) res" where
  "jobDone sched run now = (\<lambda>(c, e). case co_jobs c of
     [] \<Rightarrow> Inl (Undefined ''queue::front'')
   | j # _ \<Rightarrow>
       rbind (run (j_func j) now (c, e)) (\<lambda>(c, e).
       let c = c\<lparr>co_busyTime := co_busyTime c + is_latency (j_inst j), co_instStat := inst_add (co_instStat c) (j_inst j),
                 co_jobs := tl (co_jobs c), co_busy := False\<rparr> in
       if co_jobs c \<noteq> [] then handleJob sched now (c, e) else Inr (c, e)))"

definition addStat :: "inst_stat \<Rightarrow> 'f core \<Rightarrow> 'f core" where
  "addStat i c = c\<lparr>co_busyTime := co_busyTime c + is_latency i, co_instStat := inst_add (co_instStat c) i\<rparr>"

section \<open>Choosing a core\<close>

fun least_idle :: "'f core list \<Rightarrow> nat \<Rightarrow> nat \<Rightarrow> nat \<Rightarrow> nat" where
  "least_idle [] i idx busymin = idx"
| "least_idle (c # cs) i idx busymin =
     (if \<not> co_busy c \<and> co_busyTime c < busymin then least_idle cs (Suc i) i (co_busyTime c)
      else least_idle cs (Suc i) idx busymin)"

fun least_jobs :: "'f core list \<Rightarrow> nat \<Rightarrow> nat \<Rightarrow> nat \<Rightarrow> nat" where
  "least_jobs [] i idx jobmin = idx"
| "least_jobs (c # cs) i idx jobmin =
     (if length (co_jobs c) \<le> jobmin then least_jobs cs (Suc i) i (length (co_jobs c))
      else least_jobs cs (Suc i) idx jobmin)"

definition leastBusyCPU :: "'f core list \<Rightarrow> nat" where
  "leastBusyCPU cs = (let idx = least_idle cs 0 (length cs) 18446744073709551615 in
     if idx = length cs then least_jobs cs 0 idx 18446744073709551615 else idx)"

record 'f cpu =
  hilCore :: "'f core list"
  iclCore :: "'f core list"
  ftlCore :: "'f core list"
  clockPeriod :: nat

definition cpu_group :: "cpu_ns \<Rightarrow> 'f cpu \<Rightarrow> 'f core list" where
  "cpu_group ns u = (case ns of CPU_FTL \<Rightarrow> ftlCore u | CPU_PAGE_MAPPING \<Rightarrow> ftlCore u | CPU_ICL \<Rightarrow> iclCore u
     | CPU_GENERIC_CACHE \<Rightarrow> iclCore u | CPU_HIL \<Rightarrow> hilCore u)"

definition set_group :: "cpu_ns \<Rightarrow> 'f core list \<Rightarrow> 'f cpu \<Rightarrow> 'f cpu" where
  "set_group ns cs u = (case ns of CPU_FTL \<Rightarrow> u\<lparr>ftlCore := cs\<rparr> | CPU_PAGE_MAPPING \<Rightarrow> u\<lparr>ftlCore := cs\<rparr> | CPU_ICL \<Rightarrow> u\<lparr>iclCore := cs\<rparr>
     | CPU_GENERIC_CACHE \<Rightarrow> u\<lparr>iclCore := cs\<rparr> | CPU_HIL \<Rightarrow> u\<lparr>hilCore := cs\<rparr>)"

definition execute :: "(nat \<Rightarrow> nat \<Rightarrow> 'e \<Rightarrow> 'e res) \<Rightarrow> ('f \<Rightarrow> nat \<Rightarrow> 'f cpu \<times> 'e \<Rightarrow> ('f cpu \<times> 'e) res) \<Rightarrow> nat \<Rightarrow>
    cpu_ns \<Rightarrow> cpu_fn \<Rightarrow> 'f \<Rightarrow> nat \<Rightarrow> 'f cpu \<times> 'e \<Rightarrow> ('f cpu \<times> 'e) res" where
  "execute sched run now ns fn f delay = (\<lambda>(u, e).
     let cs = cpu_group ns u; i = leastBusyCPU cs in
     if cs \<noteq> [] then
       rbind (cpi_lookup (clockPeriod u) ns fn) (\<lambda>inst.
       rbind (vec_at cs i) (\<lambda>c.
       rbind (submitJob sched now f inst delay (c, e)) (\<lambda>(c, e).
       Inr (set_group ns (cs[i := c]) u, e))))
     else run f now (u, e))"

definition applyLatency :: "cpu_ns \<Rightarrow> cpu_fn \<Rightarrow> 'f cpu \<Rightarrow> (nat \<times> 'f cpu) res" where
  "applyLatency ns fn u =
     (let cs = cpu_group ns u; i = leastBusyCPU cs in
      if cs \<noteq> [] then
        rbind (cpi_lookup (clockPeriod u) ns fn) (\<lambda>inst.
        rbind (vec_at cs i) (\<lambda>c. Inr (is_latency inst, set_group ns (cs[i := addStat inst c]) u)))
      else Inr (0, u))"

section \<open>The choice is a core, and an idle one if there is one\<close>

lemma least_idle_ok:
  "least_idle cs i idx m = k \<Longrightarrow> (k = idx \<or> (i \<le> k \<and> k < i + length cs \<and> \<not> co_busy (cs ! (k - i)))) \<and>
     ((\<exists>n < length cs. \<not> co_busy (cs ! n) \<and> co_busyTime (cs ! n) < m) \<longrightarrow> i \<le> k \<and> k < i + length cs)"
proof (induction cs arbitrary: i idx m)
  case (Cons c cs)
  have shift: "(c # cs) ! (k - i) = cs ! (k - Suc i)" if "Suc i \<le> k"
    using that by (metis Suc_diff_le diff_Suc_Suc nth_Cons_Suc)
  show ?case
  proof (cases "\<not> co_busy c \<and> co_busyTime c < m")
    case True
    then have "least_idle cs (Suc i) i (co_busyTime c) = k" using Cons.prems by simp
    from Cons.IH[OF this] show ?thesis using True shift by (auto simp: Suc_le_eq)
  next
    case False
    then have "least_idle cs (Suc i) idx m = k" using Cons.prems by auto
    from Cons.IH[OF this] show ?thesis using False shift by (auto simp: less_Suc_eq_0_disj Suc_le_eq)
  qed
qed simp

lemma least_jobs_ok:
  "least_jobs cs i idx m = k \<Longrightarrow> k = idx \<or> (i \<le> k \<and> k < i + length cs)"
proof (induction cs arbitrary: i idx m)
  case (Cons c cs)
  then show ?case by (fastforce split: if_splits)
qed simp

lemma least_jobs_found: "cs \<noteq> [] \<Longrightarrow> length (co_jobs (hd cs)) \<le> m \<Longrightarrow> i \<le> least_jobs cs i idx m \<and> least_jobs cs i idx m < i + length cs"
proof (cases cs)
  case (Cons c ds)
  assume "length (co_jobs (hd cs)) \<le> m"
  then show ?thesis using least_jobs_ok[OF refl, of ds "Suc i" i "length (co_jobs c)"] Cons by auto
qed simp

definition cores_bounded :: "'f core list \<Rightarrow> bool" where
  "cores_bounded cs \<longleftrightarrow> (\<forall>c \<in> set cs. length (co_jobs c) \<le> 18446744073709551615 \<and> co_busyTime c < 18446744073709551615)"

lemma leastBusyCPU_ok:
  assumes "cs \<noteq> []" "cores_bounded cs"
  shows "leastBusyCPU cs < length cs \<and> ((\<exists>c \<in> set cs. \<not> co_busy c) \<longrightarrow> \<not> co_busy (cs ! leastBusyCPU cs))"
proof -
  define m :: nat where "m = 18446744073709551615"
  define k where "k = least_idle cs 0 (length cs) m"
  have lb: "leastBusyCPU cs = (if k = length cs then least_jobs cs 0 k m else k)"
    by (simp add: leastBusyCPU_def Let_def k_def m_def)
  note li = least_idle_ok[OF k_def[symmetric]]
  have bd: "\<forall>c \<in> set cs. length (co_jobs c) \<le> m \<and> co_busyTime c < m" using assms(2) by (simp add: cores_bounded_def m_def)
  show ?thesis
  proof (cases "\<exists>c \<in> set cs. \<not> co_busy c")
    case True
    then obtain n where "n < length cs" "\<not> co_busy (cs ! n)" by (metis in_set_conv_nth)
    moreover from this have "co_busyTime (cs ! n) < m" using bd by simp
    ultimately have "k < length cs" using li by auto
    then have "leastBusyCPU cs = k" "\<not> co_busy (cs ! k)" using lb li by simp_all
    then show ?thesis using \<open>k < length cs\<close> by simp
  next
    case False
    then have "k = length cs" using li by (metis add_0 diff_zero nth_mem)
    moreover have "length (co_jobs (hd cs)) \<le> m" using assms(1) bd by simp
    ultimately have "leastBusyCPU cs < length cs" using least_jobs_found[OF assms(1), of m 0 k] lb by simp
    then show ?thesis using False by simp
  qed
qed

section \<open>One core under the scheduler\<close>

text \<open>
  A core is busy exactly when it has jobs, and then its event is due no earlier than the job at the front
  can be finished.
\<close>

definition core_live :: "('e \<Rightarrow> nat \<Rightarrow> nat option) \<Rightarrow> 'f core \<times> 'e \<Rightarrow> bool" where
  "core_live due = (\<lambda>(c, e). co_busy c = (co_jobs c \<noteq> []) \<and>
     (\<forall>j js. co_jobs c = j # js \<longrightarrow> (\<exists>t. due e (co_event c) = Some t \<and>
        j_submitAt j + j_delay j + is_latency (j_inst j) \<le> t)))"

lemma job_finish_max: "j_submitAt j \<le> now \<Longrightarrow> job_finish now j = max now (j_submitAt j + j_delay j) + is_latency (j_inst j)"
  by (auto simp: job_finish_def Let_def)

context event_scheduler
begin

lemma handleJob_ok:
  assumes "okay e" "co_event c \<in> known e" "co_jobs c = j # js" "j_submitAt j \<le> now e"
  shows "\<exists>c' e'. handleJob sched (now e) (c, e) = Inr (c', e') \<and> okay e' \<and> now e' = now e \<and> known e' = known e \<and>
    c' = c\<lparr>co_busy := True\<rparr> \<and> core_live due (c', e') \<and>
    due e' (co_event c) = Some (max (now e) (j_submitAt j + j_delay j) + is_latency (j_inst j)) \<and>
    (\<forall>x. x \<noteq> co_event c \<longrightarrow> due e' x = due e x)"
proof -
  obtain e' where e': "sched (co_event c) (job_finish (now e) j) e = Inr e'" "okay e'" "now e' = now e" "known e' = known e"
    "\<forall>x. due e' x = (if x = co_event c then Some (max (now e) (job_finish (now e) j)) else due e x)"
    using sched_law[OF assms(1,2)] by blast
  have "max (now e) (job_finish (now e) j) = max (now e) (j_submitAt j + j_delay j) + is_latency (j_inst j)"
    by (simp add: job_finish_max[OF assms(4)])
  then show ?thesis using e' assms(3) by (simp add: handleJob_def core_live_def)
qed

lemma submitJob_ok:
  assumes "okay e" "co_event c \<in> known e" "core_live due (c, e)"
  shows "\<exists>c' e'. submitJob sched (now e) f i delay (c, e) = Inr (c', e') \<and> okay e' \<and> now e' = now e \<and> core_live due (c', e') \<and>
    co_event c' = co_event c \<and> co_jobs c' = co_jobs c @ [\<lparr>j_func = f, j_inst = i, j_submitAt = now e, j_delay = delay\<rparr>] \<and>
    (co_jobs c = [] \<longrightarrow> due e' (co_event c) = Some (now e + delay + is_latency i)) \<and>
    (\<forall>x. x \<noteq> co_event c \<longrightarrow> due e' x = due e x)"
proof -
  let ?j = "\<lparr>j_func = f, j_inst = i, j_submitAt = now e, j_delay = delay\<rparr>"
  let ?c = "c\<lparr>co_jobs := co_jobs c @ [?j]\<rparr>"
  show ?thesis
  proof (cases "co_jobs c")
    case Nil
    then have "\<not> co_busy c" using assms(3) by (simp add: core_live_def)
    have "\<exists>c' e'. handleJob sched (now e) (?c, e) = Inr (c', e') \<and> okay e' \<and> now e' = now e \<and> known e' = known e \<and>
        c' = ?c\<lparr>co_busy := True\<rparr> \<and> core_live due (c', e') \<and>
        due e' (co_event ?c) = Some (max (now e) (j_submitAt ?j + j_delay ?j) + is_latency (j_inst ?j)) \<and>
        (\<forall>x. x \<noteq> co_event ?c \<longrightarrow> due e' x = due e x)"
      by (rule handleJob_ok) (simp_all add: assms Nil)
    then show ?thesis using Nil \<open>\<not> co_busy c\<close> by (auto simp: submitJob_def Let_def max_def)
  next
    case (Cons j js)
    then have "co_busy c" using assms(3) by (simp add: core_live_def)
    moreover have "core_live due (?c, e)" using assms(3) Cons by (auto simp: core_live_def)
    ultimately show ?thesis using assms(1) Cons by (simp add: submitJob_def Let_def)
  qed
qed

text \<open>When the event fires, the job at the front has run, and the next one starts at once.\<close>

lemma jobDone_ok:
  assumes "okay e" "co_event c \<in> known e" "co_jobs c = j # js" "\<forall>x \<in> set js. j_submitAt x \<le> now e"
    and "run (j_func j) (now e) (c, e) = Inr (c, e)"
  shows "\<exists>c' e'. jobDone sched run (now e) (c, e) = Inr (c', e') \<and> okay e' \<and> core_live due (c', e') \<and> co_jobs c' = js \<and>
    co_busyTime c' = co_busyTime c + is_latency (j_inst j) \<and>
    (js \<noteq> [] \<longrightarrow> due e' (co_event c) = Some (max (now e) (j_submitAt (hd js) + j_delay (hd js)) + is_latency (j_inst (hd js))))"
proof -
  let ?c = "c\<lparr>co_busyTime := co_busyTime c + is_latency (j_inst j), co_instStat := inst_add (co_instStat c) (j_inst j),
      co_jobs := js, co_busy := False\<rparr>"
  show ?thesis
  proof (cases js)
    case Nil
    then show ?thesis using assms by (auto simp: jobDone_def core_live_def Let_def)
  next
    case (Cons k ks)
    have "\<exists>c' e'. handleJob sched (now e) (?c, e) = Inr (c', e') \<and> okay e' \<and> now e' = now e \<and> known e' = known e \<and>
        c' = ?c\<lparr>co_busy := True\<rparr> \<and> core_live due (c', e') \<and>
        due e' (co_event ?c) = Some (max (now e) (j_submitAt k + j_delay k) + is_latency (j_inst k)) \<and>
        (\<forall>x. x \<noteq> co_event ?c \<longrightarrow> due e' x = due e x)"
      by (rule handleJob_ok) (use assms Cons in simp_all)
    then show ?thesis using assms Cons by (auto simp: jobDone_def Let_def)
  qed
qed

end

end
