(* ===== verification/SsdStack.thy ===== *)
theory SsdStack
  imports BlockEntry IclProps CpuCore
begin

text \<open>
  One SSD with its simulator: the block entry over the driver, the HIL as jobs of the embedded processor,
  the ICL and what is below it, and the events that connect them.  The state of the simulator is the
  engine with the record \<open>ssd\<close>; every event of it is dispatched by \<open>ssd_event\<close>.  The layers below run
  periodic events of their own (the refresh of the DRAM, the flush of the flash's time slots): \<open>sl_back\<close>
  are their numbers, and \<open>sl_run\<close> is what one of them does at a tick, with the tick it comes back at.
\<close>

record ('c, 'w, 's) ssd =
  sd_cpu :: "hil_job cpu"
  sd_hil :: hil
  sd_bil :: "'c bil"
  sd_world :: 'w
  sd_client :: 's

record 'w ssd_low =
  sl_icl :: "'w icl_ops"
  sl_back :: "nat list"
  sl_run :: "nat \<Rightarrow> nat \<Rightarrow> 'w \<Rightarrow> nat \<times> 'w"

section \<open>Events\<close>

definition sched_with :: "nat \<Rightarrow> nat \<Rightarrow> engine \<times> 'x \<Rightarrow> (engine \<times> 'x) res" where
  "sched_with i t = (\<lambda>(e, x). rbind (scheduleEvent i t e) (\<lambda>e. Inr (e, x)))"

definition hil_run :: "'w icl_ops \<Rightarrow> hil_job \<Rightarrow> nat \<Rightarrow> 'u \<times> engine \<times> hil \<times> 'w \<Rightarrow> ('u \<times> engine \<times> hil \<times> 'w) res" where
  "hil_run I f t = (\<lambda>(u, e, h, w). rbind (hil_body I scheduleEvent f t (h, e, w)) (\<lambda>(h, e, w). Inr (u, e, h, w)))"

text \<open>\<open>submitIO\<close> of the entry, through the driver to the processor.\<close>

definition ssd_submitIO :: "'w ssd_low \<Rightarrow> driver \<Rightarrow> 'c bio \<Rightarrow> engine \<times> ('c, 'w, 's) ssd \<Rightarrow> (engine \<times> ('c, 'w, 's) ssd) res" where
  "ssd_submitIO L D b = (\<lambda>(e, S).
     case bil_submitIO (en_simTick e) b (sd_bil S) of (b, B) \<Rightarrow>
     rbind (driver_request D b) (\<lambda>r.
     let j = driver_job (b_type b) r in
     rbind (execute sched_with (hil_run (sl_icl L)) (en_simTick e) CPU_HIL (hil_fn j) j 0 (sd_cpu S, e, sd_hil S, sd_world S)) (\<lambda>(u, e, h, w).
     Inr (e, S\<lparr>sd_cpu := u, sd_hil := h, sd_bil := B, sd_world := w\<rparr>))))"

fun find_core :: "nat \<Rightarrow> nat \<Rightarrow> 'f core list \<Rightarrow> nat option" where
  "find_core i k [] = None"
| "find_core i k (c # cs) = (if co_event c = i then Some k else find_core i (Suc k) cs)"

text \<open>The function of an event: the completion of the HIL, the end of a job on a core, a periodic one, or a client's.\<close>

definition ssd_event :: "'w ssd_low \<Rightarrow> ('c \<Rightarrow> nat \<Rightarrow> nat \<Rightarrow> 's \<Rightarrow> 's) \<Rightarrow>
    (nat \<Rightarrow> nat \<Rightarrow> engine \<times> ('c, 'w, 's) ssd \<Rightarrow> (engine \<times> ('c, 'w, 's) ssd) res) \<Rightarrow>
    nat \<Rightarrow> nat \<Rightarrow> engine \<times> ('c, 'w, 's) ssd \<Rightarrow> (engine \<times> ('c, 'w, 's) ssd) res" where
  "ssd_event L invoke client i t = (\<lambda>(e, S).
     if i = hl_event (sd_hil S) then
       rbind (completion sched_with (\<lambda>q t (e, B, s). Inr (e, bil_completion invoke (en_simTick e) (h_context q) (B, s))) t
                (sd_hil S, e, sd_bil S, sd_client S)) (\<lambda>(h, e, B, s).
       Inr (e, S\<lparr>sd_hil := h, sd_bil := B, sd_client := s\<rparr>))
     else case find_core i 0 (hilCore (sd_cpu S)) of
       Some k \<Rightarrow>
         rbind (jobDone sched_with (hil_run (sl_icl L)) t (hilCore (sd_cpu S) ! k, e, sd_hil S, sd_world S)) (\<lambda>(c, e, h, w).
         Inr (e, S\<lparr>sd_cpu := (sd_cpu S)\<lparr>hilCore := (hilCore (sd_cpu S))[k := c]\<rparr>, sd_hil := h, sd_world := w\<rparr>))
     | None \<Rightarrow>
         if i \<in> set (sl_back L) then
           (case sl_run L i t (sd_world S) of (t', w) \<Rightarrow> rbind (scheduleEvent i t' e) (\<lambda>e. Inr (e, S\<lparr>sd_world := w\<rparr>)))
         else client i t (e, S))"

section \<open>One request to its completion\<close>

text \<open>
  The client prepares its request when its event fires (\<open>prepare\<close>, at that tick), and drives the engine
  until its state says that the request is done.
\<close>

definition ssd_client_event :: "'w ssd_low \<Rightarrow> driver \<Rightarrow> (nat \<Rightarrow> 's \<Rightarrow> 'c bio \<times> 's) \<Rightarrow> nat \<Rightarrow> nat \<Rightarrow>
    engine \<times> ('c, 'w, 's) ssd \<Rightarrow> (engine \<times> ('c, 'w, 's) ssd) res" where
  "ssd_client_event L D prepare i t = (\<lambda>(e, S).
     case prepare (en_simTick e) (sd_client S) of (b, s) \<Rightarrow> ssd_submitIO L D b (e, S\<lparr>sd_client := s\<rparr>))"

definition ssd_serve :: "'w ssd_low \<Rightarrow> driver \<Rightarrow> ('c \<Rightarrow> nat \<Rightarrow> nat \<Rightarrow> 's \<Rightarrow> 's) \<Rightarrow> nat \<Rightarrow> (nat \<Rightarrow> 's \<Rightarrow> 'c bio \<times> 's) \<Rightarrow> ('s \<Rightarrow> bool) \<Rightarrow> nat \<Rightarrow>
    engine \<times> ('c, 'w, 's) ssd \<Rightarrow> (engine \<times> ('c, 'w, 's) ssd) res" where
  "ssd_serve L D invoke fuel prepare fin arrival = (\<lambda>(e, S).
     case allocateEvent e of (i, e) \<Rightarrow>
     rbind (scheduleEvent i arrival e) (\<lambda>e.
     rbind (runEvents fuel (ssd_event L invoke (ssd_client_event L D prepare)) (\<lambda>S. fin (sd_client S)) (e, S)) (\<lambda>(e, S).
     rbind (deallocateEvent i e) (\<lambda>e. Inr (e, S)))))"

section \<open>What one request does\<close>

text \<open>The ICL operation of a request, and the time of the processor before it starts.\<close>

definition icl_op :: "'w icl_ops \<Rightarrow> bio_type \<Rightarrow> hil_request \<Rightarrow> nat \<Rightarrow> 'w \<Rightarrow> (nat \<times> 'w) res" where
  "icl_op I ty r = (case ty of BIO_READ \<Rightarrow> n_read I (icl_of_hil r) | BIO_WRITE \<Rightarrow> n_write I (icl_of_hil r)
     | BIO_FLUSH \<Rightarrow> n_flush I (h_range r) | BIO_TRIM \<Rightarrow> n_trim I (h_range r))"

definition hil_inst :: "bio_type \<Rightarrow> nat \<Rightarrow> inst_stat" where
  "hil_inst ty clock = (case ty of BIO_READ \<Rightarrow> inst_new 61 312 102 120 0 2 clock | BIO_WRITE \<Rightarrow> inst_new 61 312 102 120 0 2 clock
     | BIO_FLUSH \<Rightarrow> inst_new 27 100 27 49 0 1 clock | BIO_TRIM \<Rightarrow> inst_new 27 100 27 49 0 1 clock)"

lemma cpi_hil: "cpi_lookup clock CPU_HIL (hil_fn (driver_job ty r)) = Inr (hil_inst ty clock)"
  by (cases ty) (simp_all add: cpi_lookup_def cpi_counts_def driver_job_def hil_inst_def)

section \<open>The periodic events\<close>

text \<open>What some of them, one after the other from tick \<open>a\<close> to tick \<open>b\<close>, make of the state below.\<close>

inductive back_steps :: "'w ssd_low \<Rightarrow> nat \<Rightarrow> nat \<Rightarrow> 'w \<Rightarrow> 'w \<Rightarrow> bool" for L where
  back_none: "back_steps L a b w w"
| back_one: "i \<in> set (sl_back L) \<Longrightarrow> a \<le> t \<Longrightarrow> t \<le> b \<Longrightarrow> sl_run L i t w = (t', w1) \<Longrightarrow> back_steps L t b w1 w2 \<Longrightarrow> back_steps L a b w w2"

inductive_cases back_stepsE: "back_steps L a b w w2"

lemma back_widen: "back_steps L a b w w2 \<Longrightarrow> a' \<le> a \<Longrightarrow> b \<le> b' \<Longrightarrow> back_steps L a' b' w w2"
proof (induction arbitrary: a' rule: back_steps.induct)
  case (back_one i a t b w t' w1 w2)
  from back_one.IH[OF order_refl back_one.prems(2)] show ?case
    by (intro back_steps.back_one[of i L a' t b' w t' w1 w2]) (use back_one in simp_all)
qed (rule back_none)

lemma back_trans: "back_steps L a b w1 w2 \<Longrightarrow> back_steps L b c w2 w3 \<Longrightarrow> b \<le> c \<Longrightarrow> a \<le> b \<Longrightarrow> back_steps L a c w1 w3"
proof (induction rule: back_steps.induct)
  case (back_none a b w)
  then show ?case by (auto intro: back_widen)
next
  case (back_one i a t b w t' w1 w2)
  then have "back_steps L t c w1 w3" by simp
  then show ?case by (intro back_steps.back_one[of i L a t c w t' w1 w3]) (use back_one in simp_all)
qed

text \<open>Without periodic events nothing happens.\<close>

lemma back_empty: "sl_back L = [] \<Longrightarrow> back_steps L a b w w2 \<longleftrightarrow> w2 = w"
  by (auto elim: back_stepsE intro: back_none)

text \<open>The contract of the layers below: an answer comes later than the call, a periodic event comes back later, and both keep \<open>P\<close>.\<close>

locale timely_icl =
  fixes L :: "'w ssd_low" and P :: "'w \<Rightarrow> bool"
  assumes icl_later: "icl_op (sl_icl L) ty r t w = Inr (t', w') \<Longrightarrow> P w \<Longrightarrow> P w' \<and> t < t'"
    and back_later: "i \<in> set (sl_back L) \<Longrightarrow> sl_run L i t w = (t', w') \<Longrightarrow> P w \<Longrightarrow> P w' \<and> t < t'"
begin

lemma back_keeps: "back_steps L a b w w' \<Longrightarrow> P w \<Longrightarrow> P w'"
  by (induction rule: back_steps.induct) (use back_later in blast)+

end

section \<open>Cores by their events\<close>

lemma find_core_nth:
  "distinct (map co_event cs) \<Longrightarrow> k < length cs \<Longrightarrow> find_core (co_event (cs ! k)) j cs = Some (j + k)"
proof (induction cs arbitrary: k j)
  case (Cons c cs)
  then show ?case by (cases k) (auto simp: image_iff)
qed simp

lemma find_core_put: "find_core i j (cs[k := c]) = find_core i j cs" if "co_event c = co_event (cs ! k)" for k
  using that
proof (induction cs arbitrary: k j)
  case (Cons x cs)
  then show ?case by (cases k) auto
qed simp

lemma find_core_None: "i \<notin> co_event ` set cs \<Longrightarrow> find_core i j cs = None"
  by (induction cs arbitrary: j) auto

section \<open>Waiting for an event while the periodic ones run\<close>

text \<open>Every scheduled event is a periodic one, or one of \<open>xs\<close>.\<close>

definition only_due :: "nat list \<Rightarrow> 'w ssd_low \<Rightarrow> engine \<Rightarrow> bool" where
  "only_due xs L e \<longleftrightarrow> (\<forall>x. isEventExist x (en_queue e) \<noteq> None \<longrightarrow> x \<in> set (sl_back L) \<or> x \<in> set xs)"

text \<open>How long the periodic events can run before tick \<open>T\<close>.\<close>

definition back_left :: "'w ssd_low \<Rightarrow> nat \<Rightarrow> engine \<Rightarrow> nat" where
  "back_left L T e = (\<Sum>i \<in> set (sl_back L). case isEventExist i (en_queue e) of None \<Rightarrow> 0 | Some t \<Rightarrow> Suc T - t)"

lemma run_step: "\<not> stop s \<Longrightarrow> doNextEvent fn (e, s) = Inr (True, e1, s1) \<Longrightarrow> runEvents (Suc n) fn stop (e, s) = runEvents n fn stop (e1, s1)"
  by simp

lemma run_stopped: "stop s \<Longrightarrow> runEvents n fn stop (e, s) = Inr (e, s)"
  by (cases n) simp_all

lemma run_more: "runEvents n fn stop (e, s) = Inr y \<Longrightarrow> runEvents (n + k) fn stop (e, s) = Inr y"
proof (induction n arbitrary: e s)
  case 0
  then show ?case by (auto simp: run_stopped split: if_splits)
next
  case (Suc n)
  show ?case
  proof (cases "stop s")
    case False
    obtain go e1 s1 where d: "doNextEvent fn (e, s) = Inr (go, e1, s1)" "(if go then runEvents n fn stop (e1, s1) else Inr (e1, s1)) = Inr y"
      using Suc.prems False by (auto simp: res_simps split_paired_Ex)
    then show ?thesis using Suc.IH[of e1 s1] False by (cases go) simp_all
  qed (use Suc.prems in auto)
qed

lemma next_head:
  assumes "\<not> en_forceStop e" "en_queue e = (i, t) # q" "i \<in> set (en_list e)"
  shows "doNextEvent fn (e, s) = rbind (fn i t (e\<lparr>en_simTick := t, en_queue := q\<rparr>, s)) (\<lambda>(e, s). Inr (True, e\<lparr>en_handled := en_handled e + 1\<rparr>, s))"
  using assms by (simp add: doNextEvent_def)

definition handled :: "engine \<Rightarrow> engine" where
  "handled e = e\<lparr>en_handled := en_handled e + 1\<rparr>"

lemma handled_simps [simp]: "en_queue (handled e) = en_queue e" "en_list (handled e) = en_list e" "en_simTick (handled e) = en_simTick e"
  "en_forceStop (handled e) = en_forceStop e" "en_counter (handled e) = en_counter e" "engine_inv (handled e) = engine_inv e"
  by (simp_all add: handled_def engine_inv_def)

lemma schedule_more:
  assumes "scheduleEvent i t e = Inr e'"
  shows "en_forceStop e' = en_forceStop e \<and> en_counter e' = en_counter e"
  using assms by (auto simp: scheduleEvent_def no_event_def split: if_splits)

context timely_icl
begin

lemma wait_for:
  "\<lbrakk>back_left L T e = k; engine_inv e; \<not> en_forceStop e; only_due [x] L e; isEventExist x (en_queue e) = Some T; x \<notin> set (sl_back L);
    hl_event (sd_hil S) \<notin> set (sl_back L); \<forall>c \<in> set (hilCore (sd_cpu S)). co_event c \<notin> set (sl_back L); \<not> stop S; P (sd_world S);
    \<And>w. stop (S\<lparr>sd_world := w\<rparr>) = stop S\<rbrakk> \<Longrightarrow>
   \<exists>n e1 w q. (\<forall>m. runEvents (n + m) (ssd_event L invoke client) stop (e, S) = runEvents m (ssd_event L invoke client) stop (e1, S\<lparr>sd_world := w\<rparr>)) \<and>
     back_steps L (en_simTick e) T (sd_world S) w \<and> engine_inv e1 \<and> \<not> en_forceStop e1 \<and> en_list e1 = en_list e \<and> en_counter e1 = en_counter e \<and>
     en_simTick e \<le> en_simTick e1 \<and> en_queue e1 = (x, T) # q \<and> only_due [x] L e1"
proof (induction k arbitrary: e S rule: less_induct)
  case (less k)
  obtain i t q where q: "en_queue e = (i, t) # q" using less.prems(5) by (cases "en_queue e") auto
  note nx = next_event_ok[OF less.prems(2) q]
  show ?case
  proof (cases "i = x")
    case True
    then have "t = T" using less.prems(5) q by simp
    then show ?thesis using less.prems True q by (intro exI[of _ 0] exI[of _ e] exI[of _ "sd_world S"] exI[of _ q]) (simp add: back_none)
  next
    case False
    have iex: "isEventExist i (en_queue e) = Some t" using q by simp
    then have ib: "i \<in> set (sl_back L)" using less.prems(4) False by (auto simp: only_due_def)
    have tT: "t \<le> T" using isEventExist_in[OF less.prems(5)] q nx False by auto
    let ?e = "e\<lparr>en_simTick := t, en_queue := q\<rparr>"
    obtain t' w1 where r: "sl_run L i t (sd_world S) = (t', w1)" by (cases "sl_run L i t (sd_world S)")
    note bl = back_later[OF ib r less.prems(10)]
    have ie: "engine_inv ?e" "i \<in> set (en_list ?e)" using nx by simp_all
    obtain e2 where s: "scheduleEvent i t' ?e = Inr e2" "engine_inv e2" "en_simTick e2 = t" "en_list e2 = en_list e"
      "\<forall>y. isEventExist y (en_queue e2) = (if y = i then Some t' else isEventExist y q)"
      using scheduleEvent_ok[OF ie, of t'] bl by (auto simp: max_def)
    have i1: "i \<noteq> hl_event (sd_hil S)" "find_core i 0 (hilCore (sd_cpu S)) = None"
      using less.prems(7,8) ib by (auto intro!: find_core_None)
    let ?S = "S\<lparr>sd_world := w1\<rparr>"
    have "ssd_event L invoke client i t (?e, S) = Inr (e2, ?S)" using i1 ib r s(1) by (simp add: ssd_event_def)
    then have d: "doNextEvent (ssd_event L invoke client) (e, S) = Inr (True, handled e2, ?S)"
      using next_head[OF less.prems(3) q, of "ssd_event L invoke client" S] nx by (simp add: handled_def)
    have due2: "isEventExist y (en_queue e2) = (if y = i then Some t' else isEventExist y (en_queue e))" for y
      using s(5) q by auto
    have left: "back_left L T (handled e2) < k"
    proof -
      let ?g = "\<lambda>e i. case isEventExist i (en_queue e) of None \<Rightarrow> 0 | Some t \<Rightarrow> Suc T - t"
      have "?g e2 j \<le> ?g e j" if "j \<in> set (sl_back L)" for j using due2[of j] iex bl by auto
      moreover have "?g e2 i < ?g e i" using due2[of i] iex bl tT by (auto intro: diff_less_mono2)
      ultimately have "(\<Sum>j \<in> set (sl_back L). ?g e2 j) < (\<Sum>j \<in> set (sl_back L). ?g e j)" using ib by (intro sum_strict_mono_ex1) auto
      then show ?thesis using less.prems(1) by (simp add: back_left_def)
    qed
    have fs: "\<not> en_forceStop e2 \<and> en_counter e2 = en_counter e" using schedule_more[OF s(1)] less.prems(3) by simp
    have od: "only_due [x] L (handled e2)" using less.prems(4) due2 ib by (auto simp: only_due_def)
    have xe: "isEventExist x (en_queue (handled e2)) = Some T" using due2 False less.prems(5) by simp
    have st: "stop (?S\<lparr>sd_world := w\<rparr>) = stop ?S" for w using less.prems(11)[of w] less.prems(11)[of w1] by simp
    have "\<not> stop ?S" using less.prems(9,11) by simp
    from less.IH[OF left refl _ _ od xe less.prems(6) _ _ this _ st] obtain n e1 w qq where
      ih: "\<forall>m. runEvents (n + m) (ssd_event L invoke client) stop (handled e2, ?S) = runEvents m (ssd_event L invoke client) stop (e1, ?S\<lparr>sd_world := w\<rparr>)"
        "back_steps L (en_simTick (handled e2)) T (sd_world ?S) w" "engine_inv e1" "\<not> en_forceStop e1" "en_list e1 = en_list (handled e2)"
        "en_counter e1 = en_counter (handled e2)" "en_simTick (handled e2) \<le> en_simTick e1" "en_queue e1 = (x, T) # qq" "only_due [x] L e1"
      using s fs less.prems(7,8) bl by (auto simp: back_later)
    have run: "runEvents (Suc n + m) (ssd_event L invoke client) stop (e, S) = runEvents m (ssd_event L invoke client) stop (e1, S\<lparr>sd_world := w\<rparr>)" for m
      using ih(1) run_step[where stop = stop, OF less.prems(9) d, of "n + m"] by simp
    have "back_steps L (en_simTick e) T (sd_world S) w"
      by (rule back_one[OF ib _ tT r]) (use nx ih(2) s(3) in simp_all)
    then show ?thesis using run ih s fs nx by (intro exI[of _ "Suc n"] exI[of _ e1] exI[of _ w] exI[of _ qq] conjI allI) simp_all
  qed
qed

end

section \<open>The steps of one request on a quiet SSD\<close>

text \<open>
  Only the periodic events are scheduled, nothing is queued or running; the events of the cores, of the
  HIL and the periodic ones are the engine's, and different.
\<close>

definition cores_idle :: "'w ssd_low \<Rightarrow> engine \<Rightarrow> hil \<Rightarrow> hil_job core list \<Rightarrow> bool" where
  "cores_idle L e h cs \<longleftrightarrow> cs \<noteq> [] \<and> distinct (map co_event cs) \<and>
     (\<forall>c \<in> set cs. \<not> co_busy c \<and> co_jobs c = [] \<and> co_event c \<in> set (en_list e) \<and> co_event c \<noteq> hl_event h \<and> co_event c \<notin> set (sl_back L))"

definition rests :: "'w ssd_low \<Rightarrow> engine \<Rightarrow> bool" where
  "rests L e \<longleftrightarrow> engine_inv e \<and> \<not> en_forceStop e \<and> only_due [] L e"

definition ssd_quiet :: "'w ssd_low \<Rightarrow> engine \<times> ('c, 'w, 's) ssd \<Rightarrow> bool" where
  "ssd_quiet L = (\<lambda>(e, S). rests L e \<and> (\<forall>i \<in> set (sl_back L). i \<le> en_counter e) \<and>
     hl_queue (sd_hil S) = [] \<and> hl_lastScheduled (sd_hil S) \<le> en_simTick e \<and>
     hl_event (sd_hil S) \<in> set (en_list e) \<and> hl_event (sd_hil S) \<notin> set (sl_back L) \<and>
     cores_idle L e (sd_hil S) (hilCore (sd_cpu S)) \<and> bl_ioQueue (sd_bil S) = [])"

lemma leastBusy_idle:
  assumes "cs \<noteq> []" "\<forall>c \<in> set cs. co_jobs c = []"
  shows "leastBusyCPU cs < length cs"
proof -
  define m :: nat where "m = 18446744073709551615"
  define k where "k = least_idle cs 0 (length cs) m"
  have lb: "leastBusyCPU cs = (if k = length cs then least_jobs cs 0 k m else k)"
    by (simp add: leastBusyCPU_def Let_def k_def m_def)
  have "k = length cs \<or> k < length cs" using least_idle_ok[OF k_def[symmetric]] by auto
  moreover have "least_jobs cs 0 k m < length cs" using least_jobs_found[OF assms(1), of m 0 k] assms by simp
  ultimately show ?thesis using lb by auto
qed

text \<open>The request starts: the job is on a core whose event is due when the processor is through with it.\<close>

definition hil_started :: "hil_job \<Rightarrow> inst_stat \<Rightarrow> nat \<Rightarrow> hil_job core \<Rightarrow> hil_job core" where
  "hil_started j i t c = c\<lparr>co_jobs := [\<lparr>j_func = j, j_inst = i, j_submitAt = t, j_delay = 0\<rparr>], co_busy := True\<rparr>"

definition hil_finished :: "inst_stat \<Rightarrow> hil_job core \<Rightarrow> hil_job core" where
  "hil_finished i c = c\<lparr>co_busyTime := co_busyTime c + is_latency i, co_instStat := inst_add (co_instStat c) i, co_jobs := [], co_busy := False\<rparr>"

lemma submit_quiet:
  assumes "cores_idle L e (sd_hil S) (hilCore (sd_cpu S))" "driver_request D b = Inr r"
  defines "k \<equiv> leastBusyCPU (hilCore (sd_cpu S))" and "i \<equiv> hil_inst (b_type b) (clockPeriod (sd_cpu S))"
  assumes "scheduleEvent (co_event (hilCore (sd_cpu S) ! k)) (en_simTick e + is_latency i) e = Inr e1"
  shows "ssd_submitIO L D b (e, S) =
    Inr (e1, S\<lparr>sd_cpu := (sd_cpu S)\<lparr>hilCore := (hilCore (sd_cpu S))[k := hil_started (driver_job (b_type b) r) i (en_simTick e) (hilCore (sd_cpu S) ! k)]\<rparr>,
           sd_bil := snd (bil_submitIO (en_simTick e) b (sd_bil S))\<rparr>)"
proof -
  let ?cs = "hilCore (sd_cpu S)"
  let ?c = "?cs ! k"
  have ne: "?cs \<noteq> []" using assms(1) by (simp add: cores_idle_def)
  have kl: "k < length ?cs" unfolding k_def by (rule leastBusy_idle[OF ne]) (use assms(1) in \<open>simp add: cores_idle_def\<close>)
  then have c: "\<not> co_busy ?c" "co_jobs ?c = []" using assms(1) by (simp_all add: cores_idle_def)
  let ?j = "driver_job (b_type b) r"
  have sub: "submitJob sched_with (en_simTick e) ?j i 0 (?c, e, sd_hil S, sd_world S) = Inr (hil_started ?j i (en_simTick e) ?c, e1, sd_hil S, sd_world S)"
    using c assms(5) by (simp add: submitJob_def handleJob_def Let_def sched_with_def job_finish_def hil_started_def)
  have "execute sched_with (hil_run (sl_icl L)) (en_simTick e) CPU_HIL (hil_fn ?j) ?j 0 (sd_cpu S, e, sd_hil S, sd_world S) =
      Inr ((sd_cpu S)\<lparr>hilCore := ?cs[k := hil_started ?j i (en_simTick e) ?c]\<rparr>, e1, sd_hil S, sd_world S)"
    using ne kl sub unfolding execute_def cpi_hil i_def[symmetric]
    by (simp add: cpu_group_def set_group_def Let_def vec_at_def k_def[symmetric] cpi_hil i_def[symmetric])
  then show ?thesis using assms(2) by (simp add: ssd_submitIO_def bil_submitIO_def Let_def)
qed

text \<open>The job runs: its answer waits in the completion queue, and the completion is due then.\<close>

lemma hil_body_alone:
  assumes "icl_op I ty (r\<lparr>h_reqID := hl_reqCount h + 1\<rparr>) (en_simTick e) w = Inr (t2, w2)" "en_simTick e < t2"
    "hl_queue h = []" "hl_lastScheduled h \<le> en_simTick e" "scheduleEvent (hl_event h) t2 e = Inr e1"
  shows "\<exists>st. hil_body I scheduleEvent (driver_job ty r) (en_simTick e) (h, e, w) =
    Inr (h\<lparr>hl_reqCount := hl_reqCount h + 1, hl_stat := st, hl_queue := [r\<lparr>h_reqID := hl_reqCount h + 1, h_finishedAt := t2\<rparr>],
           hl_lastScheduled := t2\<rparr>, e1, w2)"
proof -
  have f: "finish_request scheduleEvent (r\<lparr>h_reqID := hl_reqCount h + 1\<rparr>) t2 (h\<lparr>hl_reqCount := hl_reqCount h + 1, hl_stat := st\<rparr>, e) =
      Inr (h\<lparr>hl_reqCount := hl_reqCount h + 1, hl_stat := st, hl_queue := [r\<lparr>h_reqID := hl_reqCount h + 1, h_finishedAt := t2\<rparr>],
           hl_lastScheduled := t2\<rparr>, e1)" for st
    using assms(2-5) by (simp add: finish_request_def updateCompletion_def)
  have g: "(h\<lparr>hl_reqCount := hl_reqCount h + 1, hl_stat := hl_stat h\<rparr>) = h\<lparr>hl_reqCount := hl_reqCount h + 1\<rparr>" by simp
  show ?thesis
  proof (cases ty)
    case BIO_READ
    then show ?thesis using assms(1) f by (simp add: driver_job_def icl_op_def Let_def) blast
  next
    case BIO_WRITE
    then show ?thesis using assms(1) f by (simp add: driver_job_def icl_op_def Let_def) blast
  next
    case BIO_FLUSH
    then show ?thesis using assms(1) f[of "hl_stat h"] g by (intro exI[of _ "hl_stat h"]) (simp add: driver_job_def icl_op_def Let_def)
  next
    case BIO_TRIM
    then show ?thesis using assms(1) f[of "hl_stat h"] g by (intro exI[of _ "hl_stat h"]) (simp add: driver_job_def icl_op_def Let_def)
  qed
qed

lemma hil_body_fault:
  "icl_op I ty (r\<lparr>h_reqID := hl_reqCount h + 1\<rparr>) t w = Inl f \<Longrightarrow> hil_body I sched (driver_job ty r) t (h, e, w) = Inl f"
  by (cases ty) (simp_all add: driver_job_def icl_op_def Let_def)

text \<open>The event of the core.\<close>

lemma core_found:
  assumes "cores_idle L e h cs" "k < length cs" "hilCore (sd_cpu S) = cs[k := hil_started j i t (cs ! k)]" "sd_hil S = h"
  shows "ssd_event L invoke client (co_event (cs ! k)) tick (e', S) =
    rbind (jobDone sched_with (hil_run (sl_icl L)) tick (hil_started j i t (cs ! k), e', h, sd_world S)) (\<lambda>(c, e, h, w).
      Inr (e, S\<lparr>sd_cpu := (sd_cpu S)\<lparr>hilCore := cs[k := c]\<rparr>, sd_hil := h, sd_world := w\<rparr>))"
proof -
  have ne: "co_event (cs ! k) \<noteq> hl_event h" using assms(1,2) by (simp add: cores_idle_def)
  have fc: "find_core (co_event (cs ! k)) 0 (cs[k := hil_started j i t (cs ! k)]) = Some k"
    using assms(1,2) find_core_nth[of cs k 0] by (simp add: cores_idle_def find_core_put hil_started_def)
  show ?thesis using ne fc assms(2) by (simp add: ssd_event_def assms(3,4))
qed

lemma job_event:
  assumes "cores_idle L e h cs" "k < length cs" "hilCore (sd_cpu S) = cs[k := hil_started (driver_job ty r) i t (cs ! k)]" "sd_hil S = h"
    "icl_op (sl_icl L) ty (r\<lparr>h_reqID := hl_reqCount h + 1\<rparr>) (en_simTick e') (sd_world S) = Inr (t2, w2)" "en_simTick e' < t2"
    "hl_queue h = []" "hl_lastScheduled h \<le> en_simTick e'" "scheduleEvent (hl_event h) t2 e' = Inr e1"
  shows "\<exists>st. ssd_event L invoke client (co_event (cs ! k)) (en_simTick e') (e', S) =
    Inr (e1, S\<lparr>sd_cpu := (sd_cpu S)\<lparr>hilCore := cs[k := hil_finished i (cs ! k)]\<rparr>,
           sd_hil := h\<lparr>hl_reqCount := hl_reqCount h + 1, hl_stat := st, hl_queue := [r\<lparr>h_reqID := hl_reqCount h + 1, h_finishedAt := t2\<rparr>],
                       hl_lastScheduled := t2\<rparr>, sd_world := w2\<rparr>)"
proof -
  obtain st where b: "hil_body (sl_icl L) scheduleEvent (driver_job ty r) (en_simTick e') (h, e', sd_world S) =
    Inr (h\<lparr>hl_reqCount := hl_reqCount h + 1, hl_stat := st, hl_queue := [r\<lparr>h_reqID := hl_reqCount h + 1, h_finishedAt := t2\<rparr>],
           hl_lastScheduled := t2\<rparr>, e1, w2)"
    using hil_body_alone[OF assms(5-9)] by blast
  then show ?thesis unfolding core_found[OF assms(1-4)]
    by (intro exI[of _ st]) (simp add: jobDone_def hil_started_def hil_run_def Let_def hil_finished_def)
qed

lemma job_event_fault:
  assumes "cores_idle L e h cs" "k < length cs" "hilCore (sd_cpu S) = cs[k := hil_started (driver_job ty r) i t (cs ! k)]" "sd_hil S = h"
    "icl_op (sl_icl L) ty (r\<lparr>h_reqID := hl_reqCount h + 1\<rparr>) tick (sd_world S) = Inl f"
  shows "ssd_event L invoke client (co_event (cs ! k)) tick (e', S) = Inl f"
  using hil_body_fault[OF assms(5), of scheduleEvent e'] unfolding core_found[OF assms(1-4)]
  by (simp add: jobDone_def hil_started_def hil_run_def)

text \<open>The completion: the callback of the request runs, and everything is quiet again.\<close>

lemma done_event:
  assumes "hl_queue (sd_hil S) = [q]" "h_finishedAt q = en_simTick e" "bl_ioQueue (sd_bil S) = [b]" "b_id b = h_context q"
  shows "\<exists>B. ssd_event L invoke client (hl_event (sd_hil S)) (en_simTick e) (e, S) =
    Inr (e, S\<lparr>sd_hil := (sd_hil S)\<lparr>hl_queue := []\<rparr>, sd_bil := B, sd_client := invoke (b_callback b) (b_id b) (en_simTick e) (sd_client S)\<rparr>) \<and>
    bl_ioQueue B = [] \<and> bl_io_count B = bl_io_count (sd_bil S)"
proof -
  obtain B where B: "bil_completion invoke (en_simTick e) (h_context q) (sd_bil S, sd_client S) =
      (B, invoke (b_callback b) (b_id b) (en_simTick e) (sd_client S))" "bl_ioQueue B = []" "bl_io_count B = bl_io_count (sd_bil S)"
    using assms(3,4) by (simp add: bil_completion_def Let_def bil_latency_def bil_note_def)
  then show ?thesis using assms(1,2) by (intro exI[of _ B]) (simp add: ssd_event_def completion_def updateCompletion_def)
qed

lemma cores_idle_finished:
  assumes "cores_idle L e h cs" "k < length cs" "en_list e' = en_list e"
  shows "cores_idle L e' h (cs[k := hil_finished i (cs ! k)])"
proof -
  define Q :: "hil_job core \<Rightarrow> bool" where
    "Q = (\<lambda>c. \<not> co_busy c \<and> co_jobs c = [] \<and> co_event c \<in> set (en_list e) \<and> co_event c \<noteq> hl_event h \<and> co_event c \<notin> set (sl_back L))"
  have all: "\<forall>c \<in> set cs. Q c" using assms(1) by (simp add: cores_idle_def Q_def)
  have "Q (hil_finished i (cs ! k))" using all assms(2) by (simp add: Q_def hil_finished_def)
  then have "\<forall>c \<in> set (cs[k := hil_finished i (cs ! k)]). Q c" using all set_update_subset_insert[of cs k] by blast
  moreover have "map co_event (cs[k := hil_finished i (cs ! k)]) = map co_event cs"
    by (simp add: map_update hil_finished_def) (metis list_update_id map_update)
  ultimately show ?thesis using assms(1,3) by (simp add: cores_idle_def Q_def)
qed

lemma core_events:
  assumes "cores_idle L e h cs" "hilCore u = cs \<or> (\<exists>k x. hilCore u = cs[k := x] \<and> co_event x = co_event (cs ! k))"
  shows "\<forall>c \<in> set (hilCore u). co_event c \<notin> set (sl_back L)"
proof -
  have a: "co_event c \<notin> set (sl_back L)" if "c \<in> set cs" for c using assms(1) that by (simp add: cores_idle_def)
  from assms(2) show ?thesis
  proof (elim disjE exE conjE)
    fix k x assume u: "hilCore u = cs[k := x]" "co_event x = co_event (cs ! k)"
    show ?thesis
    proof (cases "k < length cs")
      case True
      then have "co_event x \<notin> set (sl_back L)" using a u(2) by simp
      then show ?thesis using a set_update_subset_insert[of cs k x] unfolding u(1) by blast
    qed (use a u in \<open>simp add: list_update_beyond\<close>)
  qed (use a in simp)
qed

section \<open>One event awaited\<close>

definition awaits :: "'w ssd_low \<Rightarrow> nat \<Rightarrow> nat \<Rightarrow> engine \<Rightarrow> bool" where
  "awaits L x T e \<longleftrightarrow> engine_inv e \<and> \<not> en_forceStop e \<and> only_due [x] L e \<and> isEventExist x (en_queue e) = Some T \<and> x \<notin> set (sl_back L)"

lemma schedule_awaits:
  assumes "rests L e" "x \<in> set (en_list e)" "x \<notin> set (sl_back L)"
  shows "\<exists>e'. scheduleEvent x t e = Inr e' \<and> awaits L x (max (en_simTick e) t) e' \<and> en_simTick e' = en_simTick e \<and> en_list e' = en_list e \<and>
    en_counter e' = en_counter e"
proof -
  obtain e' where e': "scheduleEvent x t e = Inr e'" "engine_inv e'" "en_simTick e' = en_simTick e" "en_list e' = en_list e"
    "\<forall>y. isEventExist y (en_queue e') = (if y = x then Some (max (en_simTick e) t) else isEventExist y (en_queue e))"
    using scheduleEvent_ok[of e x t] assms by (auto simp: rests_def)
  then show ?thesis using schedule_more[OF e'(1)] assms by (intro exI[of _ e']) (auto simp: awaits_def rests_def only_due_def)
qed

lemma rests_handled [simp]: "rests L (handled e) = rests L e" "awaits L x T (handled e) = awaits L x T e"
  by (simp_all add: rests_def awaits_def only_due_def)

text \<open>The events of the cores and of the HIL are not periodic ones.\<close>

definition own_events :: "'w ssd_low \<Rightarrow> ('c, 'w, 's) ssd \<Rightarrow> bool" where
  "own_events L S \<longleftrightarrow> hl_event (sd_hil S) \<notin> set (sl_back L) \<and> (\<forall>c \<in> set (hilCore (sd_cpu S)). co_event c \<notin> set (sl_back L))"

context timely_icl
begin

lemma reach_event:
  fixes S :: "('c, 'w, 's) ssd"
  assumes "awaits L x T e" "own_events L S" "P (sd_world S)" "\<not> fin (sd_client S)"
    and fn: "fn = ssd_event L invoke client" and st: "st = (\<lambda>S :: ('c, 'w, 's) ssd. fin (sd_client S))"
  shows "\<exists>n e1 w. (\<forall>m. runEvents (n + Suc m) fn st (e, S) =
        rbind (fn x T (e1, S\<lparr>sd_world := w\<rparr>)) (\<lambda>(e, S). runEvents m fn st (handled e, S))) \<and>
     back_steps L (en_simTick e) T (sd_world S) w \<and> rests L e1 \<and> en_simTick e1 = T \<and> en_list e1 = en_list e \<and> en_counter e1 = en_counter e"
proof -
  have stable: "st (S\<lparr>sd_world := w\<rparr>) = st S" for w by (simp add: st)
  have ns: "\<not> st S" using assms(4) by (simp add: st)
  obtain n e1 w q where run: "\<forall>m. runEvents (n + m) fn st (e, S) = runEvents m fn st (e1, S\<lparr>sd_world := w\<rparr>)"
    and w: "back_steps L (en_simTick e) T (sd_world S) w"
    and e1: "engine_inv e1" "\<not> en_forceStop e1" "en_list e1 = en_list e" "en_counter e1 = en_counter e" "en_queue e1 = (x, T) # q" "only_due [x] L e1"
    unfolding fn using wait_for[OF refl _ _ _ _ _ _ _ ns assms(3) stable, of e x T invoke client] assms(1,2) by (auto simp: awaits_def own_events_def)
  note nx = next_event_ok[OF e1(1,5)]
  let ?e = "e1\<lparr>en_simTick := T, en_queue := q\<rparr>"
  have "only_due [] L ?e" unfolding only_due_def
  proof (intro allI impI)
    fix y assume "isEventExist y (en_queue ?e) \<noteq> None"
    then have y: "isEventExist y q \<noteq> None" by simp
    then have "y \<noteq> x" using nx by auto
    then show "y \<in> set (sl_back L) \<or> y \<in> set []" using y nx e1(6) by (auto simp: only_due_def)
  qed
  then have r: "rests L ?e" using nx e1(2) by (simp add: rests_def)
  have "runEvents (n + Suc m) fn st (e, S) = rbind (fn x T (?e, S\<lparr>sd_world := w\<rparr>)) (\<lambda>(e, S). runEvents m fn st (handled e, S))" for m
    using run[rule_format, of "Suc m"] next_head[OF e1(2,5), of fn "S\<lparr>sd_world := w\<rparr>"] nx ns
    by (auto simp: handled_def stable rbind_assoc split: prod.splits intro!: rbind_cong)
  then show ?thesis using w r e1 by (intro exI[of _ n] exI[of _ ?e] exI[of _ w]) simp
qed

end

end
