(* ===== verification/Dram.thy ===== *)
theory Dram
  imports Floats
begin

text \<open>
  \<open>dram/simple.cc\<close> with the timing part of \<open>dram/abstract_dram.cc\<close>: the DRAM of the device, one
  resource that serves accesses one after the other.  Ticks are naturals; \<open>double\<close> is the 53-bit \<open>fl\<close>.
  The power model is the external library DRAMPower: \<open>pw_cmd\<close> and \<open>pw_window\<close> stand for its calls
  \<open>doCommand\<close> and \<open>calcWindowEnergy\<close> (which gives the energy of the window and the average power).
\<close>

record dram_conf =
  dc_channel :: nat
  dc_chip :: nat
  dc_busWidth :: nat
  dc_pageSize :: nat
  dc_burstLength :: nat
  dc_tCK :: nat
  dc_tRCD :: nat
  dc_tRP :: nat
  dc_tRAS :: nat
  dc_tBURST :: nat
  dc_tRFC :: nat

datatype mem_cmd = MC_ACT | MC_RD | MC_WR | MC_PRE | MC_REF

record 'p power_lib =
  pw_cmd :: "mem_cmd \<Rightarrow> nat \<Rightarrow> 'p \<Rightarrow> 'p"
  pw_window :: "nat \<Rightarrow> 'p \<Rightarrow> (fl \<times> fl) \<times> 'p"

record dram_spec =
  sp_RCD :: nat
  sp_RAS :: nat
  sp_RP :: nat

definition DIVCEIL32 :: "nat \<Rightarrow> nat \<Rightarrow> nat" where
  "DIVCEIL32 x y = ((x + 4294967295) mod 4294967296 div y + 1) mod 4294967296"

text \<open>\<open>dataRate\<close> is stored in eight bits before it is checked.\<close>

definition convertMemspec :: "dram_conf \<Rightarrow> dram_spec res" where
  "convertMemspec c =
     rbind (rguard (dc_tCK c \<noteq> 0) (Undefined ''division by zero'')) (\<lambda>_.
     let burstCycle = DIVCEIL32 (dc_tBURST c) (dc_tCK c) in
     rbind (rguard (burstCycle \<noteq> 0) (Undefined ''division by zero'')) (\<lambda>_.
     let dataRate = dc_burstLength c div burstCycle mod 256 in
     rbind (rguard (dataRate = 1 \<or> dataRate = 2 \<or> dataRate = 4) (Panic ''Invalid DRAM data rate'')) (\<lambda>_.
     Inr \<lparr>sp_RCD = DIVCEIL32 (dc_tRCD c) (dc_tCK c), sp_RAS = DIVCEIL32 (dc_tRAS c) (dc_tCK c),
          sp_RP = DIVCEIL32 (dc_tRP c) (dc_tCK c)\<rparr>)))"

record 'p dram =
  dr_conf :: dram_conf
  dr_spec :: dram_spec
  dr_pageFetchLatency :: nat
  dr_interfaceBandwidth :: fl
  dr_lastAccess :: nat
  dr_ignoreScheduling :: bool
  dr_power :: 'p
  dr_totalEnergy :: fl
  dr_totalPower :: fl
  dr_readCount :: nat
  dr_readSize :: nat
  dr_writeCount :: nat
  dr_writeSize :: nat

definition dram_new :: "dram_conf \<Rightarrow> 'p \<Rightarrow> 'p dram res" where
  "dram_new c p = rbind (convertMemspec c) (\<lambda>s.
     let d = fl_of_nat 53 in
     Inr \<lparr>dr_conf = c, dr_spec = s, dr_pageFetchLatency = (dc_tRP c + dc_tRAS c) mod 4294967296,
          dr_interfaceBandwidth = fl_div 53 (fl_div 53 (fl_mul 53 (fl_mul 53 (fl_mul 53 (d 2) (d (dc_busWidth c)))
             (d (dc_chip c))) (d (dc_channel c))) (d 8)) (d (dc_tCK c)),
          dr_lastAccess = 0, dr_ignoreScheduling = False, dr_power = p, dr_totalEnergy = Fin 0, dr_totalPower = Fin 0,
          dr_readCount = 0, dr_readSize = 0, dr_writeCount = 0, dr_writeSize = 0\<rparr>)"

section \<open>Timing\<close>

text \<open>\<open>updateDelay\<close>: the tick the access begins at, and the tick it ends at.\<close>

definition updateDelay :: "nat \<Rightarrow> nat \<Rightarrow> 'p dram \<Rightarrow> nat \<times> nat \<times> 'p dram" where
  "updateDelay latency tick d =
     (if tick > 0 then
        if dr_ignoreScheduling d then (tick, tick + latency, d)
        else if dr_lastAccess d \<le> tick then (tick, tick + latency, d\<lparr>dr_lastAccess := tick + latency\<rparr>)
        else (dr_lastAccess d, dr_lastAccess d + latency, d\<lparr>dr_lastAccess := dr_lastAccess d + latency\<rparr>)
      else (tick, tick, d))"

definition setScheduling :: "bool \<Rightarrow> 'p dram \<Rightarrow> 'p dram" where
  "setScheduling enable d = d\<lparr>dr_ignoreScheduling := \<not> enable\<rparr>"

definition isScheduling :: "'p dram \<Rightarrow> bool" where
  "isScheduling d = (\<not> dr_ignoreScheduling d)"

text \<open>The handler of the event \<open>autoRefresh\<close>, with the tick it schedules itself for.\<close>

definition autoRefresh :: "'p power_lib \<Rightarrow> nat \<Rightarrow> 'p dram \<Rightarrow> nat \<times> 'p dram" where
  "autoRefresh W now d = (now + 64000000000,
     d\<lparr>dr_power := pw_cmd W MC_REF (now div dc_tCK (dr_conf d)) (dr_power d),
       dr_lastAccess := max (dr_lastAccess d) (now + dc_tRFC (dr_conf d))\<rparr>)"

definition updateStats :: "'p power_lib \<Rightarrow> nat \<Rightarrow> 'p dram \<Rightarrow> 'p dram" where
  "updateStats W cycle d = (case pw_window W cycle (dr_power d) of ((en, av), p) \<Rightarrow>
     d\<lparr>dr_power := p, dr_totalEnergy := fl_add 53 (dr_totalEnergy d) en, dr_totalPower := av\<rparr>)"

definition page_count :: "'p dram \<Rightarrow> nat \<Rightarrow> nat" where
  "page_count d n = (if n > 0 then (n - 1) div dc_pageSize (dr_conf d) + 1 else 0)"

definition access_latency :: "'p dram \<Rightarrow> nat \<Rightarrow> nat res" where
  "access_latency d n = fl_to_nat (fl_mul 53 (fl_of_nat 53 (page_count d n))
     (fl_add 53 (fl_of_nat 53 (dr_pageFetchLatency d))
        (fl_div 53 (fl_of_nat 53 (dc_pageSize (dr_conf d))) (dr_interfaceBandwidth d))))"

text \<open>The commands of one access, from the cycle it begins at.\<close>

definition access_commands :: "'p power_lib \<Rightarrow> mem_cmd \<Rightarrow> dram_spec \<Rightarrow> nat \<Rightarrow> nat \<Rightarrow> 'p \<Rightarrow> nat \<times> 'p" where
  "access_commands W cmd s pages cycle p =
     (let p = pw_cmd W MC_ACT cycle p;
          p = fold (\<lambda>i. pw_cmd W cmd (cycle + i * sp_RCD s + sp_RCD s)) [0..<pages] p;
          endc = (cycle + pages * sp_RCD s + 18446744073709551616 - sp_RCD s) mod 18446744073709551616 in
      (endc, pw_cmd W MC_PRE ((endc + sp_RAS s) mod 18446744073709551616) p))"

definition dram_access :: "'p power_lib \<Rightarrow> mem_cmd \<Rightarrow> nat \<Rightarrow> nat \<Rightarrow> 'p dram \<Rightarrow> (nat \<times> 'p dram) res" where
  "dram_access W cmd n tick d =
     rbind (rguard (n = 0 \<or> dc_pageSize (dr_conf d) \<noteq> 0) (Undefined ''division by zero'')) (\<lambda>_.
     rbind (access_latency d n) (\<lambda>latency.
     case updateDelay latency tick d of (beginAt, tick, d) \<Rightarrow>
     case access_commands W cmd (dr_spec d) (page_count d n) (beginAt div dc_tCK (dr_conf d)) (dr_power d) of (endc, p) \<Rightarrow>
     Inr (tick, updateStats W ((endc + sp_RAS (dr_spec d) + sp_RP (dr_spec d)) mod 18446744073709551616) (d\<lparr>dr_power := p\<rparr>))))"

definition dram_read :: "'p power_lib \<Rightarrow> nat \<Rightarrow> nat \<Rightarrow> 'p dram \<Rightarrow> (nat \<times> 'p dram) res" where
  "dram_read W n tick d = rbind (dram_access W MC_RD n tick d) (\<lambda>(t, d).
     Inr (t, d\<lparr>dr_readCount := dr_readCount d + 1, dr_readSize := dr_readSize d + n\<rparr>))"

definition dram_write :: "'p power_lib \<Rightarrow> nat \<Rightarrow> nat \<Rightarrow> 'p dram \<Rightarrow> (nat \<times> 'p dram) res" where
  "dram_write W n tick d = rbind (dram_access W MC_WR n tick d) (\<lambda>(t, d).
     Inr (t, d\<lparr>dr_writeCount := dr_writeCount d + 1, dr_writeSize := dr_writeSize d + n\<rparr>))"

section \<open>Accesses are served one after the other\<close>

lemma updateStats_timing [simp]:
  "dr_lastAccess (updateStats W c d) = dr_lastAccess d" "dr_ignoreScheduling (updateStats W c d) = dr_ignoreScheduling d"
  "dr_conf (updateStats W c d) = dr_conf d" "dr_pageFetchLatency (updateStats W c d) = dr_pageFetchLatency d"
  "dr_interfaceBandwidth (updateStats W c d) = dr_interfaceBandwidth d"
  by (simp_all add: updateStats_def split: prod.splits)

lemma updateDelay_keeps:
  assumes "updateDelay l t d = (b, t', d')"
  shows "dr_conf d' = dr_conf d" "dr_pageFetchLatency d' = dr_pageFetchLatency d"
    "dr_interfaceBandwidth d' = dr_interfaceBandwidth d" "dr_ignoreScheduling d' = dr_ignoreScheduling d" "t \<le> t'" "dr_lastAccess d \<le> dr_lastAccess d'"
  using assms by (auto simp: updateDelay_def split: if_splits)

lemma dram_access_latency_cong: "access_latency (d'::'p dram) n = access_latency (d::'q dram) n"
  if "dr_conf d' = dr_conf d" "dr_pageFetchLatency d' = dr_pageFetchLatency d" "dr_interfaceBandwidth d' = dr_interfaceBandwidth d"
  using that by (simp add: access_latency_def page_count_def)

lemma dram_access_ok:
  assumes "dram_access W cmd n tick d = Inr (tick', d')"
  shows "\<exists>l b. access_latency d n = Inr l \<and> updateDelay l tick d = (b, tick', d'\<lparr>dr_power := dr_power d, dr_totalEnergy := dr_totalEnergy d, dr_totalPower := dr_totalPower d\<rparr>)"
proof -
  obtain l where l: "access_latency d n = Inr l" using assms by (auto simp: dram_access_def res_simps)
  obtain b t d1 where u: "updateDelay l tick d = (b, t, d1)" by (cases "updateDelay l tick d") auto
  have p: "dr_power d1 = dr_power d" "dr_totalEnergy d1 = dr_totalEnergy d" "dr_totalPower d1 = dr_totalPower d"
    using u by (auto simp: updateDelay_def split: if_splits)
  obtain endc pw where a: "access_commands W cmd (dr_spec d1) (page_count d1 n) (b div dc_tCK (dr_conf d1)) (dr_power d1) = (endc, pw)"
    by fastforce
  have "d'\<lparr>dr_power := dr_power d1, dr_totalEnergy := dr_totalEnergy d1, dr_totalPower := dr_totalPower d1\<rparr> = d1" "tick' = t"
    using assms l u a by (auto simp: dram_access_def res_simps updateStats_def split: prod.splits)
  then show ?thesis using l u p by auto
qed

text \<open>A run of accesses, each with its kind, size and tick; the result lists when each began and ended.\<close>

fun dram_run :: "'p power_lib \<Rightarrow> (bool \<times> nat \<times> nat) list \<Rightarrow> 'p dram \<Rightarrow> ((nat \<times> nat) list \<times> 'p dram) res" where
  "dram_run W [] d = Inr ([], d)"
| "dram_run W ((wr, n, t) # as) d =
     rbind (if wr then dram_write W n t d else dram_read W n t d) (\<lambda>(t', d').
     rbind (access_latency d n) (\<lambda>l.
     rbind (dram_run W as d') (\<lambda>(xs, d'). Inr ((t' - l, t') # xs, d'))))"

text \<open>The intervals follow one another, and the first begins no earlier than \<open>from\<close>.\<close>

fun serial_from :: "nat \<Rightarrow> (nat \<times> nat) list \<Rightarrow> bool" where
  "serial_from from [] = True"
| "serial_from from ((b, e) # xs) = (from \<le> b \<and> b \<le> e \<and> serial_from e xs)"

lemma dram_step:
  assumes "(if wr then dram_write W n t d else dram_read W n t d) = Inr (t', d')" "access_latency d n = Inr l" "0 < t" "\<not> dr_ignoreScheduling d"
  shows "t' = max t (dr_lastAccess d) + l \<and> dr_lastAccess d' = t' \<and> \<not> dr_ignoreScheduling d' \<and> dr_conf d' = dr_conf d \<and>
    dr_pageFetchLatency d' = dr_pageFetchLatency d \<and> dr_interfaceBandwidth d' = dr_interfaceBandwidth d"
proof -
  obtain cmd d1 where a: "dram_access W cmd n t d = Inr (t', d1)" and d': "dr_lastAccess d' = dr_lastAccess d1"
    "dr_ignoreScheduling d' = dr_ignoreScheduling d1" "dr_conf d' = dr_conf d1" "dr_pageFetchLatency d' = dr_pageFetchLatency d1"
    "dr_interfaceBandwidth d' = dr_interfaceBandwidth d1"
    using assms(1) by (auto simp: dram_write_def dram_read_def res_simps split: if_splits)
  obtain b where u: "updateDelay l t d = (b, t', d1\<lparr>dr_power := dr_power d, dr_totalEnergy := dr_totalEnergy d, dr_totalPower := dr_totalPower d\<rparr>)"
    using dram_access_ok[OF a] assms(2) by auto
  have "t' = fst (snd (updateDelay l t d))" "dr_lastAccess d1 = dr_lastAccess (snd (snd (updateDelay l t d)))" by (simp_all add: u)
  then have "t' = max t (dr_lastAccess d) + l" "dr_lastAccess d1 = t'"
    using assms(3,4) by (auto simp: updateDelay_def max_def split: if_splits)
  then show ?thesis using d' updateDelay_keeps[OF u] assms(4) by simp
qed

lemma dram_run_serial:
  assumes "dram_run W as d = Inr (xs, d')" "\<forall>(wr, n, t) \<in> set as. 0 < t" "\<not> dr_ignoreScheduling d"
  shows "serial_from (dr_lastAccess d) xs \<and> list_all2 (\<lambda>(wr, n, t) (b, e). t \<le> b \<and> access_latency d n = Inr (e - b)) as xs"
  using assms
proof (induction as arbitrary: d xs)
  case (Cons a as)
  obtain wr n t where a: "a = (wr, n, t)" by (cases a) auto
  obtain t' d1 l ys where s: "(if wr then dram_write W n t d else dram_read W n t d) = Inr (t', d1)" "access_latency d n = Inr l"
    "dram_run W as d1 = Inr (ys, d')" "xs = (t' - l, t') # ys"
    using Cons.prems(1) by (auto simp: a res_simps)
  have t: "0 < t" using Cons.prems(2) a by auto
  note st = dram_step[OF s(1,2) t Cons.prems(3)]
  have "access_latency d1 m = access_latency d m" for m using st by (intro dram_access_latency_cong) auto
  moreover have "serial_from (dr_lastAccess d1) ys \<and> list_all2 (\<lambda>(wr, n, t) (b, e). t \<le> b \<and> access_latency d1 n = Inr (e - b)) as ys"
    using Cons.IH[OF s(3)] Cons.prems(2) st by auto
  ultimately show ?case using st s(2,4) by (auto simp: a)
qed simp

end
