(* ===== verification/FreeSlots.thy ===== *)
theory FreeSlots
  imports Prelude
begin

text \<open>
  The free-slot tables of \<open>pal/old/PAL2.cc\<close>: for one channel or one die, the intervals of time in
  which it is free, filed in buckets by length, and the point \<open>sp\<close> from which it is free for ever.  A
  \<open>std::map\<close> is the list of its pairs in the order of the keys.  Ticks are naturals below
  \<open>2^64 - 1\<close>, the value the code uses for "none" in \<open>minTick\<close>.
\<close>

type_synonym slot = "nat \<times> nat"
type_synonym table = "(nat \<times> slot list) list"

text \<open>\<open>tickLen + tickFrom - 1\<close> on \<open>uint64_t\<close>: the last tick of an interval.\<close>

definition end_tick :: "nat \<Rightarrow> nat \<Rightarrow> nat" where
  "end_tick len from = (if len + from = 0 then 18446744073709551615 else len + from - 1)"

section \<open>Operations\<close>

text \<open>One bucket: the slot the tick lies in, if the interval fits there; else the first later slot that is long enough.\<close>

datatype probe = Never | Now nat | Later nat

fun scan_slots :: "nat \<Rightarrow> slot list \<Rightarrow> probe" where
  "scan_slots len [] = Never"
| "scan_slots len (f # fs) = (if end_tick len (fst f) \<le> snd f then Later (fst f) else scan_slots len fs)"

definition probe_bucket :: "nat \<Rightarrow> nat \<Rightarrow> slot list \<Rightarrow> probe" where
  "probe_bucket len from b =
     (let front = takeWhile (\<lambda>f. fst f \<le> from) b; after = dropWhile (\<lambda>f. fst f \<le> from) b in
      if front \<noteq> [] \<and> end_tick len from \<le> snd (last front) then Now (fst (last front)) else scan_slots len after)"

fun find_loop :: "nat \<Rightarrow> nat \<Rightarrow> table \<Rightarrow> nat option \<Rightarrow> (nat \<times> bool) option" where
  "find_loop len from [] minTick = (case minTick of None \<Rightarrow> None | Some m \<Rightarrow> Some (m, True))"
| "find_loop len from ((k, b) # T) minTick =
     (case probe_bucket len from b of
        Now s \<Rightarrow> Some (s, False)
      | Later s \<Rightarrow> find_loop len from T (case minTick of None \<Rightarrow> Some s | Some m \<Rightarrow> if s < m then Some s else Some m)
      | Never \<Rightarrow> find_loop len from T minTick)"

text \<open>
  \<open>FindFreeTime\<close>: the slot that was found and whether the interval has to wait for it; \<open>None\<close> is the
  answer \<open>false\<close>.  A table has at least one bucket.
\<close>

definition FindFreeTime :: "table \<Rightarrow> nat \<Rightarrow> nat \<Rightarrow> (nat \<times> bool) option" where
  "FindFreeTime T tickLen tickFrom =
     (let lo = takeWhile (\<lambda>e. fst e \<le> tickLen) T; hi = dropWhile (\<lambda>e. fst e \<le> tickLen) T in
      if hi = [] then (case probe_bucket tickLen tickFrom (snd (last lo)) of
          Now s \<Rightarrow> Some (s, False) | Later s \<Rightarrow> Some (s, True) | Never \<Rightarrow> None)
      else find_loop tickLen tickFrom (if lo = [] then hi else last lo # hi) None)"

fun map_insert :: "nat \<Rightarrow> 'v \<Rightarrow> (nat \<times> 'v) list \<Rightarrow> (nat \<times> 'v) list" where
  "map_insert k v [] = [(k, v)]"
| "map_insert k v (e # m) = (if k < fst e then (k, v) # e # m else if k = fst e then e # m else e # map_insert k v m)"

definition AddFreeSlot :: "nat \<Rightarrow> nat \<Rightarrow> table \<Rightarrow> table" where
  "AddFreeSlot tickLen tickFrom T =
     (let lo = takeWhile (\<lambda>e. fst e \<le> tickLen) T; hi = dropWhile (\<lambda>e. fst e \<le> tickLen) T in
      if lo = [] then T
      else butlast lo @ [(fst (last lo), map_insert tickFrom (end_tick tickLen tickFrom) (snd (last lo)))] @ hi)"

text \<open>The first bucket with a slot that starts at the tick, without that slot.\<close>

fun take_slot :: "nat \<Rightarrow> table \<Rightarrow> (slot \<times> table) option" where
  "take_slot s [] = None"
| "take_slot s ((k, b) # T) =
     (case map_of b s of
        Some e \<Rightarrow> Some ((s, e), (k, filter (\<lambda>f. fst f \<noteq> s) b) # T)
      | None \<Rightarrow> (case take_slot s T of None \<Rightarrow> None | Some (f, T') \<Rightarrow> Some (f, (k, b) # T')))"

text \<open>
  The slot that was taken out is filed again without the interval.  The difference in the assertions is
  unsigned: when it is negative it wraps around and they hold.
\<close>

definition split_slot :: "slot \<Rightarrow> nat \<Rightarrow> nat \<Rightarrow> bool \<Rightarrow> table \<Rightarrow> table res" where
  "split_slot f tickLen tickFrom split T =
     (let rest = (\<lambda>T. if end_tick tickLen tickFrom < snd f then AddFreeSlot (snd f + 1 - (tickFrom + tickLen)) (tickFrom + tickLen) T else T) in
      if fst f < tickFrom then
        (let T = AddFreeSlot (tickFrom - fst f) (fst f) T; T = (if split then AddFreeSlot tickLen tickFrom T else T) in
         rbind (rguard (snd f + 1 < tickFrom \<or> tickLen \<le> snd f + 1 - tickFrom) (Panic ''assert'')) (\<lambda>_. Inr (rest T)))
      else
        rbind (rguard (fst f = tickFrom \<and> (snd f + 1 < tickFrom \<or> tickLen \<le> snd f + 1 - tickFrom)) (Panic ''assert'')) (\<lambda>_.
        Inr (rest (if split then AddFreeSlot tickLen (fst f) T else T))))"

definition InsertFreeSlot :: "nat \<Rightarrow> nat \<Rightarrow> nat \<Rightarrow> bool \<Rightarrow> table \<times> nat \<Rightarrow> (table \<times> nat) res" where
  "InsertFreeSlot tickLen tickFrom startTick split = (\<lambda>(T, sp).
     if startTick = sp then
       if tickFrom = startTick then Inr (if split then AddFreeSlot tickLen sp T else T, sp + tickLen)
       else rbind (rguard (startTick < tickFrom) (Panic ''assert'')) (\<lambda>_.
         Inr (AddFreeSlot (tickFrom - startTick) startTick (if split then AddFreeSlot tickLen tickFrom T else T), tickFrom + tickLen))
     else
       let lo = takeWhile (\<lambda>e. fst e \<le> tickLen) T; hi = dropWhile (\<lambda>e. fst e \<le> tickLen) T;
           skip = butlast lo; search = (if lo = [] then hi else last lo # hi) in
       case take_slot startTick search of
         None \<Rightarrow> Inr (T, sp)
       | Some (f, T') \<Rightarrow> rbind (split_slot f tickLen tickFrom split (skip @ T')) (\<lambda>T. Inr (T, sp)))"

definition FlushAFreeSlot :: "nat \<Rightarrow> table \<Rightarrow> table" where
  "FlushAFreeSlot currentTick T = map (\<lambda>(k, b). (k, dropWhile (\<lambda>f. snd f < currentTick) b)) T"

section \<open>Well-formed tables\<close>

definition slots_of :: "table \<Rightarrow> slot set" where
  "slots_of T = (\<Union>e \<in> set T. set (snd e))"

definition slot_len :: "slot \<Rightarrow> nat" where
  "slot_len f = snd f + 1 - fst f"

text \<open>Buckets in the order of their keys, each with the slots of its range of lengths in the order of their starts.\<close>

definition filed :: "table \<Rightarrow> bool" where
  "filed T \<longleftrightarrow> T \<noteq> [] \<and> sorted (map fst T) \<and> distinct (map fst T) \<and> (\<forall>e \<in> set T. 0 < fst e) \<and>
     (\<forall>e \<in> set T. sorted (map fst (snd e)) \<and> distinct (map fst (snd e)) \<and>
        (\<forall>f \<in> set (snd e). fst f \<le> snd f \<and> fst e \<le> slot_len f \<and> (\<forall>e' \<in> set T. fst e' \<le> slot_len f \<longrightarrow> fst e' \<le> fst e)))"

definition disjoint_slots :: "slot set \<Rightarrow> bool" where
  "disjoint_slots S \<longleftrightarrow> (\<forall>f \<in> S. \<forall>g \<in> S. f \<noteq> g \<longrightarrow> snd f < fst g \<or> snd g < fst f)"

definition table_ok :: "table \<Rightarrow> nat \<Rightarrow> bool" where
  "table_ok T sp \<longleftrightarrow> filed T \<and> disjoint_slots (slots_of T) \<and> (\<forall>f \<in> slots_of T. snd f < sp)"

text \<open>A tick from which an interval of the given length is free within one slot.\<close>

definition fits :: "slot set \<Rightarrow> nat \<Rightarrow> nat \<Rightarrow> bool" where
  "fits S len t \<longleftrightarrow> (\<exists>f \<in> S. fst f \<le> t \<and> t + len \<le> snd f + 1)"

lemma end_tick_pos: "0 < len \<Longrightarrow> end_tick len from \<le> e \<longleftrightarrow> from + len \<le> e + 1"
  by (auto simp: end_tick_def)

lemma slots_of_append [simp]: "slots_of (T @ U) = slots_of T \<union> slots_of U"
  by (auto simp: slots_of_def)

lemma slots_of_Cons [simp]: "slots_of (e # T) = set (snd e) \<union> slots_of T"
  by (auto simp: slots_of_def)

lemma slots_of_Nil [simp]: "slots_of [] = {}"
  by (simp add: slots_of_def)

section \<open>Searching finds the earliest fit\<close>

text \<open>What one bucket is asked: the earliest tick from \<open>from\<close> on at which the interval fits in it.\<close>

definition probe_spec :: "probe \<Rightarrow> slot set \<Rightarrow> nat \<Rightarrow> nat \<Rightarrow> bool" where
  "probe_spec p S len from = (case p of
     Never \<Rightarrow> \<forall>t \<ge> from. \<not> fits S len t
   | Now s \<Rightarrow> \<exists>f \<in> S. fst f = s \<and> s \<le> from \<and> from + len \<le> snd f + 1
   | Later s \<Rightarrow> from < s \<and> (\<exists>f \<in> S. fst f = s \<and> s + len \<le> snd f + 1) \<and> (\<forall>t. from \<le> t \<longrightarrow> t < s \<longrightarrow> \<not> fits S len t))"

lemma scan_slots_spec:
  assumes "sorted (map fst b)" "\<forall>f \<in> set b. from < fst f" "0 < len"
  shows "probe_spec (scan_slots len b) (set b) len from"
  using assms
proof (induction b)
  case (Cons f b)
  show ?case
  proof (cases "end_tick len (fst f) \<le> snd f")
    case True
    then have "fst f + len \<le> snd f + 1" using Cons.prems(3) by (simp add: end_tick_pos)
    moreover have "\<not> fits (set (f # b)) len t" if "t < fst f" for t
      using Cons.prems(1) that by (auto simp: fits_def)
    ultimately show ?thesis using Cons.prems(2) True by (auto simp: probe_spec_def)
  next
    case False
    then have nf: "\<not> fst f + len \<le> snd f + 1" using Cons.prems(3) by (simp add: end_tick_pos)
    have ih: "probe_spec (scan_slots len b) (set b) len from" using Cons by simp
    have eq: "fits (set (f # b)) len t = fits (set b) len t" for t using nf by (auto simp: fits_def)
    show ?thesis using ih False unfolding probe_spec_def eq by (auto split: probe.splits)
  qed
qed (simp add: probe_spec_def fits_def)

lemma probe_bucket_spec:
  assumes "sorted (map fst b)" "0 < len" "disjoint_slots (set b)" "\<forall>f \<in> set b. fst f \<le> snd f"
  shows "probe_spec (probe_bucket len from b) (set b) len from"
proof -
  let ?p = "takeWhile (\<lambda>f. fst f \<le> from) b" and ?q = "dropWhile (\<lambda>f. fst f \<le> from) b"
  have sp: "set b = set ?p \<union> set ?q" by (metis set_append takeWhile_dropWhile_id)
  have pf: "\<forall>f \<in> set ?p. fst f \<le> from" by (auto dest: set_takeWhileD)
  have qf: "\<forall>f \<in> set ?q. from < fst f"
  proof (cases ?q)
    case (Cons x ys)
    have "\<not> fst x \<le> from" using Cons by (metis hd_dropWhile list.distinct(1) list.sel(1))
    moreover have "sorted (map fst ?q)" using assms(1) by (metis map_append sorted_append takeWhile_dropWhile_id)
    ultimately show ?thesis using Cons by auto
  qed (simp del: dropWhile_eq_Nil_conv)
  have sq: "sorted (map fst ?q)" using assms(1) by (metis map_append sorted_append takeWhile_dropWhile_id)
  show ?thesis
  proof (cases "?p \<noteq> [] \<and> end_tick len from \<le> snd (last ?p)")
    case True
    then have "last ?p \<in> set b" "fst (last ?p) \<le> from" using sp pf last_in_set by blast+
    moreover have "from + len \<le> snd (last ?p) + 1" using True assms(2) by (simp add: end_tick_pos)
    moreover have "probe_bucket len from b = Now (fst (last ?p))" using True by (simp add: probe_bucket_def Let_def)
    ultimately show ?thesis by (auto simp: probe_spec_def)
  next
    case False
    then have eq: "probe_bucket len from b = scan_slots len ?q" by (simp only: probe_bucket_def Let_def if_False)
    have np: "\<not> fits (set ?p) len t" if "from \<le> t" for t
    proof
      assume "fits (set ?p) len t"
      then obtain f where f: "f \<in> set ?p" "fst f \<le> t" "t + len \<le> snd f + 1" by (auto simp: fits_def)
      then have ne: "?p \<noteq> []" by auto
      have "f \<noteq> last ?p"
      proof
        assume "f = last ?p"
        then have "end_tick len from \<le> snd (last ?p)" using f(3) that assms(2) by (simp add: end_tick_pos)
        then show False using False ne by blast
      qed
      have "fst f \<le> fst (last ?p)"
      proof -
        have "sorted (map fst ?p)" using assms(1) by (metis map_append sorted_append takeWhile_dropWhile_id)
        then have "sorted (map fst (butlast ?p @ [last ?p]))" using ne by simp
        moreover have "f \<in> set (butlast ?p)" using f(1) ne \<open>f \<noteq> last ?p\<close> by (metis append_butlast_last_id rotate1.simps(2) set_ConsD set_rotate1)
        ultimately show ?thesis unfolding map_append sorted_append by auto
      qed
      moreover have "last ?p \<in> set b" "f \<in> set b" using sp ne f(1) last_in_set by blast+
      moreover have "fst (last ?p) \<le> from" using pf ne last_in_set by blast
      moreover have "fst (last ?p) \<le> snd (last ?p)" using assms(4) \<open>last ?p \<in> set b\<close> by blast
      ultimately have "snd f < fst (last ?p)" using assms(3) \<open>f \<noteq> last ?p\<close> unfolding disjoint_slots_def by (meson le_trans linorder_not_le)
      then show False using \<open>fst (last ?p) \<le> from\<close> f(3) that assms(2) by linarith
    qed
    have fb: "fits (set b) len t = (fits (set ?p) len t \<or> fits (set ?q) len t)" for t
      unfolding fits_def sp by blast
    have "probe_spec (scan_slots len ?q) (set ?q) len from" by (rule scan_slots_spec[OF sq qf assms(2)])
    then show ?thesis unfolding eq probe_spec_def fb using np sp by (auto split: probe.splits)
  qed
qed

text \<open>The earliest fit in a set of slots: nothing, now, or at the start of a later slot.\<close>

definition find_spec :: "(nat \<times> bool) option \<Rightarrow> slot set \<Rightarrow> nat \<Rightarrow> nat \<Rightarrow> bool" where
  "find_spec r S len from = (case r of
     None \<Rightarrow> \<forall>t \<ge> from. \<not> fits S len t
   | Some (s, False) \<Rightarrow> \<exists>f \<in> S. fst f = s \<and> s \<le> from \<and> from + len \<le> snd f + 1
   | Some (s, True) \<Rightarrow> from < s \<and> (\<exists>f \<in> S. fst f = s \<and> s + len \<le> snd f + 1) \<and> (\<forall>t. from \<le> t \<longrightarrow> t < s \<longrightarrow> \<not> fits S len t))"

lemma fits_union: "fits (A \<union> B) len t = (fits A len t \<or> fits B len t)"
  by (auto simp: fits_def)

lemma find_loop_spec:
  assumes "\<forall>e \<in> set T. probe_spec (probe_bucket len from (snd e)) (set (snd e)) len from"
    and "find_spec (map_option (\<lambda>s. (s, True)) m) S len from"
  shows "find_spec (find_loop len from T m) (S \<union> slots_of T) len from"
  using assms
proof (induction T arbitrary: m S)
  case Nil
  then show ?case by (cases m) auto
next
  case (Cons e T)
  obtain k b where e: "e = (k, b)" by (cases e)
  have pb: "probe_spec (probe_bucket len from b) (set b) len from" using Cons.prems(1) e by auto
  have rest: "\<forall>e \<in> set T. probe_spec (probe_bucket len from (snd e)) (set (snd e)) len from" using Cons.prems(1) by simp
  have un: "S \<union> slots_of (e # T) = (S \<union> set b) \<union> slots_of T" using e by auto
  show ?case
  proof (cases "probe_bucket len from b")
    case Never
    have "find_spec (map_option (\<lambda>s. (s, True)) m) (S \<union> set b) len from"
      using Cons.prems(2) pb Never by (cases m) (auto simp: find_spec_def probe_spec_def fits_union)
    from Cons.IH[OF rest this] show ?thesis using Never e un by simp
  next
    case (Now s)
    then show ?thesis using pb e by (auto simp: find_spec_def probe_spec_def)
  next
    case (Later s)
    let ?m = "case m of None \<Rightarrow> Some s | Some m \<Rightarrow> if s < m then Some s else Some m"
    have "find_spec (map_option (\<lambda>s. (s, True)) ?m) (S \<union> set b) len from"
      using Cons.prems(2) pb Later by (cases m) (auto simp: find_spec_def probe_spec_def fits_union)
    from Cons.IH[OF rest this] show ?thesis using Later e un by simp
  qed
qed

lemma find_spec_small:
  assumes "find_spec r S len from" "\<forall>f \<in> A. slot_len f < len"
  shows "find_spec r (A \<union> S) len from"
proof -
  have "\<not> fits A len t" for t using assms(2) by (fastforce simp: fits_def slot_len_def)
  then show ?thesis using assms(1) unfolding find_spec_def fits_union by (auto split: option.splits bool.splits)
qed

text \<open>The bucket a length belongs to, and the buckets on its two sides.\<close>

lemma table_split:
  assumes "filed T"
  defines "lo \<equiv> \<lambda>len. takeWhile (\<lambda>e. fst e \<le> len) T" and "hi \<equiv> \<lambda>len. dropWhile (\<lambda>e. fst e \<le> len) T"
  shows "T = lo len @ hi len" "\<forall>e \<in> set (hi len). len < fst e"
    and "lo len \<noteq> [] \<Longrightarrow> lo len = butlast (lo len) @ [last (lo len)] \<and> fst (last (lo len)) \<le> len \<and> last (lo len) \<in> set T \<and>
      (\<forall>e \<in> set (butlast (lo len)). fst e < fst (last (lo len)))"
proof -
  show T: "T = lo len @ hi len" by (simp add: lo_def hi_def)
  have so: "sorted (map fst T)" "distinct (map fst T)" using assms(1) by (simp_all add: filed_def)
  show "\<forall>e \<in> set (hi len). len < fst e"
  proof (cases "hi len")
    case (Cons x ys)
    have "\<not> fst x \<le> len" using Cons unfolding hi_def by (metis hd_dropWhile list.distinct(1) list.sel(1))
    moreover have "sorted (map fst (hi len))" using so(1) T by (metis map_append sorted_append)
    ultimately show ?thesis using Cons by auto
  qed simp
  assume ne: "lo len \<noteq> []"
  then have l: "lo len = butlast (lo len) @ [last (lo len)]" by simp
  have "last (lo len) \<in> set (lo len)" using ne by simp
  then have m: "fst (last (lo len)) \<le> len" "last (lo len) \<in> set T" unfolding lo_def by (auto dest: set_takeWhileD)
  have "sorted (map fst (lo len)) \<and> distinct (map fst (lo len))" using so T by (metis distinct_append map_append sorted_append)
  then have "sorted (map fst (butlast (lo len) @ [last (lo len)])) \<and> distinct (map fst (butlast (lo len) @ [last (lo len)]))" using ne by simp
  then have "\<forall>x \<in> set (map fst (butlast (lo len))). x \<le> fst (last (lo len)) \<and> x \<noteq> fst (last (lo len))"
    unfolding map_append sorted_append distinct_append disjoint_iff by (metis list.set_intros(1) list.simps(9))
  then have "\<forall>e \<in> set (butlast (lo len)). fst e < fst (last (lo len))" by (simp add: order_less_le)
  then show "lo len = butlast (lo len) @ [last (lo len)] \<and> fst (last (lo len)) \<le> len \<and> last (lo len) \<in> set T \<and>
      (\<forall>e \<in> set (butlast (lo len)). fst e < fst (last (lo len)))" using l m by blast
qed

lemma small_buckets:
  assumes "filed T" "U \<subseteq> set T" "\<forall>e \<in> U. fst e < k" "k \<le> len" "k \<in> fst ` set T"
  shows "\<forall>f \<in> (\<Union>e \<in> U. set (snd e)). slot_len f < len"
proof
  fix f assume "f \<in> (\<Union>e \<in> U. set (snd e))"
  then obtain e where e: "e \<in> U" "f \<in> set (snd e)" by blast
  have "\<forall>e' \<in> set T. fst e' \<le> slot_len f \<longrightarrow> fst e' \<le> fst e" using assms(1,2) e unfolding filed_def by blast
  then have "k \<le> slot_len f \<longrightarrow> k \<le> fst e" using assms(5) by auto
  then have "slot_len f < k" using assms(3) e(1) by force
  then show "slot_len f < len" using assms(4) by simp
qed

lemma bucket_probe:
  assumes "table_ok T sp" "e \<in> set T" "0 < len"
  shows "probe_spec (probe_bucket len from (snd e)) (set (snd e)) len from"
proof (rule probe_bucket_spec[OF _ assms(3)])
  show "sorted (map fst (snd e))" "\<forall>f \<in> set (snd e). fst f \<le> snd f" using assms(1,2) by (auto simp: table_ok_def filed_def)
  have "set (snd e) \<subseteq> slots_of T" using assms(2) by (auto simp: slots_of_def)
  then show "disjoint_slots (set (snd e))" using assms(1) unfolding table_ok_def disjoint_slots_def by blast
qed

text \<open>\<open>FindFreeTime\<close> finds the earliest tick at which the interval fits into a slot.\<close>

lemma FindFreeTime_spec:
  assumes "table_ok T sp" "0 < len"
  shows "find_spec (FindFreeTime T len from) (slots_of T) len from"
proof -
  let ?lo = "takeWhile (\<lambda>e. fst e \<le> len) T" and ?hi = "dropWhile (\<lambda>e. fst e \<le> len) T"
  have fi: "filed T" using assms(1) by (simp add: table_ok_def)
  note sp = table_split[OF fi, of len]
  have small: "\<forall>f \<in> slots_of (butlast ?lo). slot_len f < len" if "?lo \<noteq> []"
    unfolding slots_of_def using sp(3)[OF that] by (intro small_buckets[OF fi, where k = "fst (last ?lo)"]) (auto dest: in_set_butlastD set_takeWhileD)
  have parts: "slots_of T = (if ?lo = [] then {} else slots_of (butlast ?lo)) \<union> (if ?lo = [] then {} else set (snd (last ?lo))) \<union> slots_of ?hi"
  proof (cases "?lo = []")
    case False
    have "T = butlast ?lo @ [last ?lo] @ ?hi" using sp(1) sp(3)[OF False] by (metis append.assoc)
    then have "slots_of T = slots_of (butlast ?lo @ [last ?lo] @ ?hi)" by (rule arg_cong)
    then show ?thesis using False by auto
  qed (use sp(1) in simp)
  have pb: "\<forall>e \<in> set (if ?lo = [] then ?hi else last ?lo # ?hi). probe_spec (probe_bucket len from (snd e)) (set (snd e)) len from"
    using bucket_probe[OF assms(1) _ assms(2)] sp(3) by (auto dest: set_dropWhileD split: if_splits)
  show ?thesis
  proof (cases "?hi = []")
    case True
    then have ne: "?lo \<noteq> []" using fi sp(1) by (metis append_Nil filed_def)
    have "probe_spec (probe_bucket len from (snd (last ?lo))) (set (snd (last ?lo))) len from" using pb ne by simp
    then have "find_spec (FindFreeTime T len from) (set (snd (last ?lo))) len from"
      unfolding FindFreeTime_def Let_def if_P[OF True] by (auto simp: find_spec_def probe_spec_def split: probe.splits)
    from find_spec_small[OF this small[OF ne]] show ?thesis using parts True ne by simp
  next
    case False
    have "find_spec (map_option (\<lambda>s. (s, True)) None) {} len from" by (simp add: find_spec_def fits_def)
    from find_loop_spec[OF pb this]
    have l: "find_spec (FindFreeTime T len from) (slots_of (if ?lo = [] then ?hi else last ?lo # ?hi)) len from"
      unfolding FindFreeTime_def Let_def if_not_P[OF False] by simp
    show ?thesis
    proof (cases "?lo = []")
      case True
      then show ?thesis using l parts by simp
    next
      case ne: False
      from find_spec_small[OF l small[OF ne]] show ?thesis using parts ne by (simp add: Un_assoc)
    qed
  qed
qed

section \<open>Filing a slot\<close>

definition shrinks :: "nat \<times> slot list \<Rightarrow> nat \<times> slot list \<Rightarrow> bool" where
  "shrinks e e' \<longleftrightarrow> fst e' = fst e \<and> set (snd e') \<subseteq> set (snd e) \<and>
     (sorted (map fst (snd e)) \<longrightarrow> sorted (map fst (snd e'))) \<and> (distinct (map fst (snd e)) \<longrightarrow> distinct (map fst (snd e')))"

lemma shrinks_refl: "shrinks e e"
  by (simp add: shrinks_def)

lemma shrinks_filter: "shrinks (k, b) (k, filter P b)"
  by (auto simp: shrinks_def sorted_filter distinct_map_filter)

lemma shrinks_dropWhile: "shrinks (k, b) (k, dropWhile P b)"
proof -
  have "sorted (map fst b) \<Longrightarrow> sorted (map fst (dropWhile P b))" "distinct (map fst b) \<Longrightarrow> distinct (map fst (dropWhile P b))"
    by (metis map_append sorted_append distinct_append takeWhile_dropWhile_id)+
  then show ?thesis by (auto simp: shrinks_def dest: set_dropWhileD)
qed

lemma shrink_ok:
  assumes "list_all2 shrinks T T'" "table_ok T sp"
  shows "table_ok T' sp \<and> slots_of T' \<subseteq> slots_of T"
proof -
  have k: "map fst T' = map fst T" using assms(1) by (induction rule: list_all2_induct) (auto simp: shrinks_def)
  have ks: "\<forall>e' \<in> set T. P (fst e') \<Longrightarrow> \<forall>e' \<in> set T'. P (fst e')" for P
  proof -
    assume "\<forall>e' \<in> set T. P (fst e')"
    then have "\<forall>x \<in> set (map fst T). P x" by simp
    then have "\<forall>x \<in> set (map fst T'). P x" by (simp only: k)
    then show "\<forall>e' \<in> set T'. P (fst e')" by simp
  qed
  have each: "\<exists>e \<in> set T. shrinks e e'" if "e' \<in> set T'" for e'
    using that assms(1) by (metis in_set_conv_nth list_all2_conv_all_nth)
  have sub: "slots_of T' \<subseteq> slots_of T" using each by (fastforce simp: slots_of_def shrinks_def)
  have fi: "filed T" using assms(2) by (simp add: table_ok_def)
  have "filed T'"
    unfolding filed_def
  proof (intro conjI ballI)
    show "T' \<noteq> []" using k fi by (auto simp: filed_def)
    show "sorted (map fst T')" "distinct (map fst T')" using k fi by (simp_all add: filed_def)
    show "0 < fst e" if "e \<in> set T'" for e using ks[of "\<lambda>x. 0 < x"] that fi by (simp add: filed_def)
    fix e' assume e': "e' \<in> set T'"
    then obtain e where e: "e \<in> set T" "shrinks e e'" using each by blast
    show "sorted (map fst (snd e'))" "distinct (map fst (snd e'))" using e fi by (simp_all add: shrinks_def filed_def)
    fix f assume f: "f \<in> set (snd e')"
    then have "f \<in> set (snd e)" "fst e' = fst e" using e(2) by (auto simp: shrinks_def)
    then have "fst f \<le> snd f \<and> fst e' \<le> slot_len f \<and> (\<forall>x \<in> set T. fst x \<le> slot_len f \<longrightarrow> fst x \<le> fst e')"
      using e(1) fi unfolding filed_def by (metis (no_types, lifting))
    then show "fst f \<le> snd f" "fst e' \<le> slot_len f" "fst x \<le> slot_len f \<longrightarrow> fst x \<le> fst e'" if "x \<in> set T'" for x
      using ks[of "\<lambda>x. x \<le> slot_len f \<longrightarrow> x \<le> fst e'"] that by blast+
  qed
  moreover have "disjoint_slots (slots_of T')" "\<forall>f \<in> slots_of T'. snd f < sp"
    using assms(2) sub unfolding table_ok_def disjoint_slots_def by blast+
  ultimately show ?thesis using sub by (simp add: table_ok_def)
qed

lemma map_insert_props:
  assumes "sorted (map fst m)" "k \<notin> fst ` set m"
  shows "set (map_insert k v m) = insert (k, v) (set m) \<and> sorted (map fst (map_insert k v m)) \<and>
    (distinct (map fst m) \<longrightarrow> distinct (map fst (map_insert k v m)))"
  using assms
proof (induction m)
  case (Cons e m)
  have ih: "set (map_insert k v m) = insert (k, v) (set m) \<and> sorted (map fst (map_insert k v m)) \<and>
    (distinct (map fst m) \<longrightarrow> distinct (map fst (map_insert k v m)))" using Cons by auto
  then show ?case using Cons.prems by (cases "k < fst e") (auto simp: image_iff)
qed simp

lemma AddFreeSlot_ok:
  assumes "table_ok T sp" "0 < len" "\<forall>f \<in> slots_of T. snd f < from \<or> from + len \<le> fst f" "sp \<le> sp'" "from + len \<le> sp'"
  shows "table_ok (AddFreeSlot len from T) sp' \<and> slots_of T \<subseteq> slots_of (AddFreeSlot len from T) \<and>
    slots_of (AddFreeSlot len from T) \<subseteq> insert (from, from + len - 1) (slots_of T)"
proof (cases "takeWhile (\<lambda>e. fst e \<le> len) T = []")
  case True
  then show ?thesis using assms(1,4) by (auto simp: AddFreeSlot_def Let_def table_ok_def)
next
  case False
  let ?lo = "takeWhile (\<lambda>e. fst e \<le> len) T" and ?hi = "dropWhile (\<lambda>e. fst e \<le> len) T"
  have fi: "filed T" and dj: "disjoint_slots (slots_of T)" using assms(1) by (simp_all add: table_ok_def)
  note sp = table_split[OF fi, of len]
  obtain lo l where lo: "lo = butlast ?lo" "l = last ?lo" "l \<in> set T" "fst l \<le> len" "\<forall>e \<in> set lo. fst e < fst l"
    using sp(3)[OF False] by blast
  have T: "T = lo @ [l] @ ?hi" using sp(1) sp(3)[OF False] lo(1,2) by (metis append.assoc)
  have TT: "set T = set lo \<union> {l} \<union> set ?hi"
  proof -
    have "set T = set (lo @ [l] @ ?hi)" using T by (rule arg_cong)
    then show ?thesis by auto
  qed
  have et: "end_tick len from = from + len - 1" using assms(2) by (simp add: end_tick_def)
  let ?f = "(from, from + len - 1)" let ?l = "(fst l, map_insert from (from + len - 1) (snd l))"
  have A: "AddFreeSlot len from T = lo @ [?l] @ ?hi" using False lo(1,2) et by (simp add: AddFreeSlot_def Let_def)
  have lf: "sorted (map fst (snd l))" "distinct (map fst (snd l))" using fi lo(3) by (simp_all add: filed_def)
  have "set (snd l) \<subseteq> slots_of T" using lo(3) by (auto simp: slots_of_def)
  moreover have "fst f \<le> snd f" if "f \<in> slots_of T" for f using fi that by (auto simp: filed_def slots_of_def)
  ultimately have "from \<notin> fst ` set (snd l)" using assms(2,3) by fastforce
  note mi = map_insert_props[OF lf(1) this, of "from + len - 1"]
  have sl: "slots_of (AddFreeSlot len from T) = insert ?f (slots_of T)"
  proof -
    have "slots_of T = slots_of (lo @ [l] @ ?hi)" using T by (rule arg_cong)
    then show ?thesis unfolding A using mi by auto
  qed
  have keys: "map fst (AddFreeSlot len from T) = map fst T"
  proof -
    have "map fst T = map fst (lo @ [l] @ ?hi)" using T by (rule arg_cong)
    then show ?thesis unfolding A by simp
  qed
  have kf: "fst ?f \<le> snd ?f \<and> fst l \<le> slot_len ?f \<and> (\<forall>e \<in> set T. fst e \<le> slot_len ?f \<longrightarrow> fst e \<le> fst l)"
  proof -
    have "slot_len ?f = len" using assms(2) by (simp add: slot_len_def)
    moreover have "fst e \<le> fst l" if "e \<in> set T" "fst e \<le> len" for e
    proof -
      show ?thesis using that TT lo(5) sp(2) by (force intro: less_imp_le)
    qed
    ultimately show ?thesis using assms(2) lo(4) by auto
  qed
  have keyset: "fst ` set (AddFreeSlot len from T) = fst ` set T" using keys by (metis list.set_map)
  have "filed (AddFreeSlot len from T)"
  proof -
    have each: "sorted (map fst (snd e)) \<and> distinct (map fst (snd e)) \<and>
        (\<forall>f \<in> set (snd e). fst f \<le> snd f \<and> fst e \<le> slot_len f \<and> (\<forall>e' \<in> set T. fst e' \<le> slot_len f \<longrightarrow> fst e' \<le> fst e))"
      if "e \<in> set (lo @ [?l] @ ?hi)" for e
    proof (cases "e = ?l")
      case True
      have "f = ?f \<or> f \<in> set (snd l)" if "f \<in> set (snd ?l)" for f using that mi by auto
      moreover have "\<forall>f \<in> set (snd l). fst f \<le> snd f \<and> fst l \<le> slot_len f \<and> (\<forall>e' \<in> set T. fst e' \<le> slot_len f \<longrightarrow> fst e' \<le> fst l)"
        using fi lo(3) unfolding filed_def by blast
      ultimately have "\<forall>f \<in> set (snd ?l). fst f \<le> snd f \<and> fst l \<le> slot_len f \<and> (\<forall>e' \<in> set T. fst e' \<le> slot_len f \<longrightarrow> fst e' \<le> fst l)"
        using kf by metis
      then show ?thesis using True mi lf by simp
    next
      case False
      then have "e \<in> set T" using that TT by auto
      then show ?thesis using fi unfolding filed_def by blast
    qed
    have kall: "(\<forall>e' \<in> set (AddFreeSlot len from T). P (fst e')) = (\<forall>e' \<in> set T. P (fst e'))" for P
    proof -
      have "(\<forall>x \<in> fst ` set (AddFreeSlot len from T). P x) = (\<forall>x \<in> fst ` set T. P x)" by (simp only: keyset)
      then show ?thesis by simp
    qed
    have pos: "\<forall>e \<in> set (AddFreeSlot len from T). 0 < fst e" unfolding kall[of "\<lambda>x. 0 < x"] using fi by (simp add: filed_def)
    show ?thesis
      unfolding filed_def
    proof (intro conjI ballI)
      show "AddFreeSlot len from T \<noteq> []" unfolding A by simp
      show "sorted (map fst (AddFreeSlot len from T))" "distinct (map fst (AddFreeSlot len from T))"
        unfolding keys using fi by (simp_all add: filed_def)
      fix e assume e: "e \<in> set (AddFreeSlot len from T)"
      show "0 < fst e" using pos e by blast
      note ee = each[OF e[unfolded A]]
      show "sorted (map fst (snd e))" "distinct (map fst (snd e))" using ee by simp_all
      fix f assume f: "f \<in> set (snd e)"
      show "fst f \<le> snd f" "fst e \<le> slot_len f" using ee f by simp_all
      fix e' assume "e' \<in> set (AddFreeSlot len from T)"
      moreover have "\<forall>e' \<in> set T. fst e' \<le> slot_len f \<longrightarrow> fst e' \<le> fst e" using ee f by blast
      ultimately show "fst e' \<le> slot_len f \<longrightarrow> fst e' \<le> fst e"
        using kall[of "\<lambda>x. x \<le> slot_len f \<longrightarrow> x \<le> fst e"] by blast
    qed
  qed
  moreover have "disjoint_slots (insert ?f (slots_of T))"
    unfolding disjoint_slots_def
  proof (intro ballI impI)
    fix f g assume fg: "f \<in> insert ?f (slots_of T)" "g \<in> insert ?f (slots_of T)" "f \<noteq> g"
    then consider "f \<in> slots_of T" "g \<in> slots_of T" | "f = ?f" "g \<in> slots_of T" | "g = ?f" "f \<in> slots_of T" by blast
    then show "snd f < fst g \<or> snd g < fst f" using dj fg(3) assms(2,3) unfolding disjoint_slots_def by cases fastforce+
  qed
  moreover have "\<forall>f \<in> insert ?f (slots_of T). snd f < sp'" using assms(1,2,4,5) by (fastforce simp: table_ok_def)
  ultimately show ?thesis using sl by (auto simp: table_ok_def)
qed

section \<open>Taking an interval\<close>

text \<open>The ticks at which the resource is free.\<close>

definition free_at :: "table \<Rightarrow> nat \<Rightarrow> nat \<Rightarrow> bool" where
  "free_at T sp t \<longleftrightarrow> (\<exists>f \<in> slots_of T. fst f \<le> t \<and> t \<le> snd f) \<or> sp \<le> t"

definition one_home :: "table \<Rightarrow> bool" where
  "one_home U \<longleftrightarrow> distinct U \<and> (\<forall>e \<in> set U. \<forall>e' \<in> set U. set (snd e) \<inter> set (snd e') \<noteq> {} \<longrightarrow> e = e') \<and>
     (\<forall>f \<in> slots_of U. \<forall>g \<in> slots_of U. fst f = fst g \<longrightarrow> f = g)"

lemma table_one_home:
  assumes "table_ok T sp"
  shows "one_home T"
proof -
  have fi: "filed T" and dj: "disjoint_slots (slots_of T)" using assms by (simp_all add: table_ok_def)
  have di: "distinct (map fst T)" using fi by (simp add: filed_def)
  have same: "e = e'" if "e \<in> set T" "e' \<in> set T" "f \<in> set (snd e)" "f \<in> set (snd e')" for e e' f
  proof -
    have "fst e \<le> slot_len f" "fst e' \<le> slot_len f" using fi that unfolding filed_def by blast+
    then have "fst e \<le> fst e'" "fst e' \<le> fst e" using fi that unfolding filed_def by blast+
    then show ?thesis using di that(1,2) by (metis eq_key_imp_eq_value le_antisym prod.collapse)
  qed
  have le: "fst f \<le> snd f" if "f \<in> slots_of T" for f using fi that by (auto simp: filed_def slots_of_def)
  have "f = g" if "f \<in> slots_of T" "g \<in> slots_of T" "fst f = fst g" for f g
    using dj le[OF that(1)] le[OF that(2)] that unfolding disjoint_slots_def by fastforce
  then show ?thesis using same di unfolding one_home_def by (auto simp: distinct_map)
qed

lemma one_home_append: "one_home (T @ U) \<Longrightarrow> one_home U"
  unfolding one_home_def by auto

lemma take_slot_spec:
  assumes "one_home U" "f \<in> slots_of U"
  shows "\<exists>U'. take_slot (fst f) U = Some (f, U') \<and> list_all2 shrinks U U' \<and> f \<notin> slots_of U'"
  using assms
proof (induction U)
  case (Cons e U)
  obtain k b where e: "e = (k, b)" by (cases e)
  have un: "g = h" if "g \<in> slots_of (e # U)" "h \<in> slots_of (e # U)" "fst g = fst h" for g h
    using Cons.prems(1) that unfolding one_home_def by blast
  show ?case
  proof (cases "map_of b (fst f)")
    case (Some x)
    then have xb: "(fst f, x) \<in> set b" by (rule map_of_SomeD)
    then have fx: "f = (fst f, x)" using un[of f "(fst f, x)"] Cons.prems(2) e by auto
    have "f \<notin> slots_of U"
    proof
      assume "f \<in> slots_of U"
      then obtain e' where "e' \<in> set U" "f \<in> set (snd e')" by (auto simp: slots_of_def)
      moreover have "f \<in> set (snd e)" using xb fx e by simp
      moreover have "\<forall>x \<in> set (e # U). \<forall>y \<in> set (e # U). set (snd x) \<inter> set (snd y) \<noteq> {} \<longrightarrow> x = y"
        by (rule conjunct1[OF conjunct2[OF Cons.prems(1)[unfolded one_home_def]]])
      ultimately have "e' \<in> set U" "e = e'" by auto
      then show False using Cons.prems(1) by (auto simp: one_home_def)
    qed
    then have "f \<notin> slots_of ((k, filter (\<lambda>g. fst g \<noteq> fst f) b) # U)" by auto
    moreover have "list_all2 shrinks (e # U) ((k, filter (\<lambda>g. fst g \<noteq> fst f) b) # U)"
      by (simp add: e shrinks_filter list_all2_refl shrinks_refl)
    ultimately show ?thesis using Some fx e by auto
  next
    case None
    then have "fst f \<notin> fst ` set b" by (simp add: map_of_eq_None_iff)
    then have "f \<notin> set b" by blast
    then have "f \<in> slots_of U" using Cons.prems(2) e by auto
    moreover have "one_home U" using one_home_append[of "[e]" U] Cons.prems(1) by simp
    ultimately obtain U' where "take_slot (fst f) U = Some (f, U')" "list_all2 shrinks U U'" "f \<notin> slots_of U'"
      using Cons.IH by blast
    then show ?thesis using None e \<open>f \<notin> set b\<close> by (simp add: shrinks_refl)
  qed
qed simp

text \<open>Filing a part of what was free: the rest stays apart from it.\<close>

lemma AddFreeSlot_part:
  assumes "table_ok T sp" "\<forall>f \<in> slots_of T. snd f < from \<or> from + len \<le> fst f" "sp \<le> sp'" "from + len \<le> sp'"
  shows "table_ok (AddFreeSlot len from T) sp' \<and>
    slots_of (AddFreeSlot len from T) \<subseteq> (if len = 0 then slots_of T else insert (from, from + len - 1) (slots_of T))"
proof (cases "len = 0")
  case True
  have "takeWhile (\<lambda>e. fst e \<le> 0) T = []" using assms(1) by (cases T) (auto simp: table_ok_def filed_def)
  then have "AddFreeSlot len from T = T" using True by (simp add: AddFreeSlot_def)
  then show ?thesis using assms(1,3) True by (auto simp: table_ok_def)
qed (use AddFreeSlot_ok[OF assms(1) _ assms(2-4)] in simp)

lemma split_slot_ok:
  assumes "table_ok T sp" "0 < len" "fst f \<le> from" "from + len \<le> snd f + 1" "snd f < sp"
    and apart: "\<forall>g \<in> slots_of T. snd g < fst f \<or> snd f < fst g"
  shows "\<exists>T'. split_slot f len from split T = Inr T' \<and> table_ok T' sp \<and>
    (\<forall>g \<in> slots_of T'. g \<in> slots_of T \<or> (fst f \<le> fst g \<and> snd g \<le> snd f \<and> (split \<or> snd g < from \<or> from + len \<le> fst g)))"
proof -
  define T1 where "T1 = (if fst f < from then AddFreeSlot (from - fst f) (fst f) T else T)"
  define T2 where "T2 = (if split then AddFreeSlot len from T1 else T1)"
  define T3 where "T3 = (if end_tick len from < snd f then AddFreeSlot (snd f + 1 - (from + len)) (from + len) T2 else T2)"
  have et: "end_tick len from = from + len - 1" using assms(2) by (simp add: end_tick_def)
  have g: "len \<le> Suc (snd f) - from" using assms(4) by simp
  have run: "split_slot f len from split T = Inr T3"
    using assms(3,4) g by (auto simp: split_slot_def T1_def T2_def T3_def Let_def)
  let ?P = "\<lambda>g. g \<in> slots_of T \<or> (fst f \<le> fst g \<and> snd g < from \<and> fst f < from)"
  have 1: "table_ok T1 sp \<and> (\<forall>g \<in> slots_of T1. ?P g)"
  proof (cases "fst f < from")
    case True
    have "\<forall>g \<in> slots_of T. snd g < fst f \<or> fst f + (from - fst f) \<le> fst g" using apart assms(2,4) True by fastforce
    from AddFreeSlot_part[OF assms(1) this order_refl] show ?thesis using assms(2,4,5) True by (auto simp: T1_def)
  qed (use assms(1) in \<open>simp add: T1_def\<close>)
  have 2: "table_ok T2 sp \<and> (\<forall>g \<in> slots_of T2. ?P g \<or> split \<and> g = (from, from + len - 1))"
  proof (cases split)
    case True
    have "\<forall>g \<in> slots_of T1. snd g < from \<or> from + len \<le> fst g" using 1 apart assms(3,4) by fastforce
    from AddFreeSlot_part[OF conjunct1[OF 1] this order_refl] show ?thesis using 1 assms(2,4,5) True by (fastforce simp: T2_def)
  qed (use 1 in \<open>simp add: T2_def\<close>)
  have "table_ok T3 sp \<and> (\<forall>g \<in> slots_of T3. ?P g \<or> split \<and> g = (from, from + len - 1) \<or> (from + len \<le> fst g \<and> snd g \<le> snd f))"
  proof (cases "end_tick len from < snd f")
    case True
    then have lt: "from + len \<le> snd f" using assms(2) et by linarith
    have "\<forall>g \<in> slots_of T2. snd g < from + len \<or> from + len + (snd f + 1 - (from + len)) \<le> fst g"
      using 2 apart assms(2-4) lt by fastforce
    from AddFreeSlot_part[OF conjunct1[OF 2] this order_refl] show ?thesis using 2 assms(5) lt True by (fastforce simp: T3_def)
  qed (use 2 in \<open>auto simp: T3_def\<close>)
  then show ?thesis using run assms(2-4) by fastforce
qed

text \<open>
  \<open>InsertFreeSlot\<close> of an interval that is free: no assertion fails, the table stays well-formed, and
  unless the interval is only split off it is not free any more; nothing becomes free.
\<close>

lemma InsertFreeSlot_ok:
  assumes "table_ok T sp" "0 < len"
    and at: "(start = sp \<and> sp \<le> from) \<or> (\<exists>f \<in> slots_of T. fst f = start \<and> start \<le> from \<and> from + len \<le> snd f + 1)"
  shows "\<exists>T' sp'. InsertFreeSlot len from start split (T, sp) = Inr (T', sp') \<and> table_ok T' sp' \<and> sp \<le> sp' \<and> sp' \<le> max sp (from + len) \<and>
    (\<forall>t. free_at T' sp' t \<longrightarrow> free_at T sp t \<and> (split \<or> t < from \<or> from + len \<le> t))"
proof (cases "start = sp")
  case True
  then have ge: "sp \<le> from" using at assms(1) by (fastforce simp: table_ok_def filed_def slots_of_def)
  define T1 where "T1 = (if split then AddFreeSlot len from T else T)"
  define T2 where "T2 = (if from = sp then T1 else AddFreeSlot (from - sp) sp T1)"
  have run: "InsertFreeSlot len from start split (T, sp) = Inr (T2, from + len)"
    using True ge by (auto simp: InsertFreeSlot_def T1_def T2_def)
  have "\<forall>g \<in> slots_of T. snd g < from \<or> from + len \<le> fst g" using assms(1) ge by (fastforce simp: table_ok_def)
  from AddFreeSlot_part[OF assms(1) this, of "from + len"] ge
  have a: "table_ok (AddFreeSlot len from T) (from + len)" "slots_of (AddFreeSlot len from T) \<subseteq> insert (from, from + len - 1) (slots_of T)"
    using assms(2) by auto
  have 1: "table_ok T1 (from + len) \<and> (\<forall>g \<in> slots_of T1. g \<in> slots_of T \<or> split \<and> g = (from, from + len - 1))"
  proof (cases split)
    case False
    have "table_ok T (from + len)" using assms(1) ge by (fastforce simp: table_ok_def)
    then show ?thesis using False by (simp add: T1_def)
  qed (use a in \<open>auto simp: T1_def\<close>)
  have 2: "table_ok T2 (from + len) \<and> (\<forall>g \<in> slots_of T2. g \<in> slots_of T \<or> split \<and> g = (from, from + len - 1) \<or> (sp \<le> fst g \<and> snd g < from))"
  proof (cases "from = sp")
    case False
    have "\<forall>g \<in> slots_of T1. snd g < sp \<or> sp + (from - sp) \<le> fst g" using 1 assms(1) ge by (fastforce simp: table_ok_def)
    from AddFreeSlot_part[OF conjunct1[OF 1] this order_refl] show ?thesis using 1 ge False by (fastforce simp: T2_def)
  qed (use 1 in \<open>auto simp: T2_def\<close>)
  have "free_at T sp t \<and> (split \<or> t < from \<or> from + len \<le> t)" if "free_at T2 (from + len) t" for t
    using that 2 ge assms(1) unfolding free_at_def table_ok_def by fastforce
  then show ?thesis using run 2 ge by (intro exI[of _ T2] exI[of _ "from + len"]) simp
next
  case False
  then obtain f where f: "f \<in> slots_of T" "fst f = start" "start \<le> from" "from + len \<le> snd f + 1" using at by blast
  let ?lo = "takeWhile (\<lambda>e. fst e \<le> len) T" and ?hi = "dropWhile (\<lambda>e. fst e \<le> len) T"
  let ?U = "if ?lo = [] then ?hi else last ?lo # ?hi"
  have fi: "filed T" using assms(1) by (simp add: table_ok_def)
  note sp = table_split[OF fi, of len]
  define L U where "L = butlast ?lo" and "U = ?U"
  have T: "T = L @ U"
  proof (cases "?lo = []")
    case ne: False
    have "T = (butlast ?lo @ [last ?lo]) @ ?hi" by (rule trans[OF sp(1)]) (simp only: append_butlast_last_id[OF ne])
    then show ?thesis unfolding L_def U_def if_not_P[OF ne] by (simp only: append.assoc append_Cons append_Nil)
  qed (use sp(1) in \<open>simp add: L_def U_def\<close>)
  have fL: "f \<notin> slots_of L"
  proof (cases "?lo = []")
    case ne: False
    have "\<forall>f \<in> slots_of L. slot_len f < len"
      unfolding slots_of_def L_def using sp(3)[OF ne] by (intro small_buckets[OF fi, where k = "fst (last ?lo)"]) (auto dest: in_set_butlastD set_takeWhileD)
    then show ?thesis using f by (auto simp: slot_len_def)
  qed (simp add: L_def)
  have "slots_of T = slots_of L \<union> slots_of U" unfolding arg_cong[OF T, of slots_of] by (rule slots_of_append)
  then have fU: "f \<in> slots_of U" using f(1) fL by blast
  have "one_home U" using table_one_home[OF assms(1)] one_home_append[of L U] by (simp only: T[symmetric])
  from take_slot_spec[OF this fU] obtain U' where U': "take_slot start U = Some (f, U')" "list_all2 shrinks U U'" "f \<notin> slots_of U'"
    using f(2) by blast
  have "list_all2 shrinks T (L @ U')" 
  proof -
    have "list_all2 shrinks (L @ U) (L @ U')" using U'(2) list_all2_refl[of shrinks L, OF shrinks_refl] by (rule list_all2_appendI[rotated])
    then show ?thesis by (simp only: T[symmetric])
  qed
  from shrink_ok[OF this assms(1)] have sh: "table_ok (L @ U') sp \<and> slots_of (L @ U') \<subseteq> slots_of T" .
  have out: "f \<notin> slots_of (L @ U')" using U'(3) fL by simp
  have lt: "snd f < sp" using f(1) assms(1) by (simp add: table_ok_def)
  have apart: "\<forall>g \<in> slots_of (L @ U'). snd g < fst f \<or> snd f < fst g"

  proof
    fix g assume g: "g \<in> slots_of (L @ U')"
    have "disjoint_slots (slots_of T)" using assms(1) by (simp add: table_ok_def)
    moreover have "g \<in> slots_of T" "g \<noteq> f" using g sh out by blast+
    ultimately show "snd g < fst f \<or> snd f < fst g" using f(1) unfolding disjoint_slots_def by blast
  qed
  obtain T' where T': "split_slot f len from split (L @ U') = Inr T'" "table_ok T' sp"
    "\<forall>g \<in> slots_of T'. g \<in> slots_of (L @ U') \<or> (fst f \<le> fst g \<and> snd g \<le> snd f \<and> (split \<or> snd g < from \<or> from + len \<le> fst g))"
    using split_slot_ok[OF conjunct1[OF sh] assms(2) _ f(4) lt apart] f(2,3) by blast
  have run: "InsertFreeSlot len from start split (T, sp) = Inr (T', sp)"
    using False U'(1) T'(1) by (simp add: InsertFreeSlot_def Let_def L_def U_def)
  have "free_at T sp t \<and> (split \<or> t < from \<or> from + len \<le> t)" if t: "free_at T' sp t" for t
  proof (cases "sp \<le> t")
    case True
    then show ?thesis using f(4) lt by (auto simp: free_at_def)
  next
    case nsp: False
    then obtain g where g: "g \<in> slots_of T'" "fst g \<le> t" "t \<le> snd g" using t by (auto simp: free_at_def)
    show ?thesis
    proof (cases "g \<in> slots_of (L @ U')")
      case True
      then have "g \<in> slots_of T" "snd g < fst f \<or> snd f < fst g" using sh apart by blast+
      then show ?thesis using g f by (auto simp: free_at_def)
    next
      case out: False
      then have "fst f \<le> fst g \<and> snd g \<le> snd f \<and> (split \<or> snd g < from \<or> from + len \<le> fst g)" using T'(3) g(1) by blast
      then have "fst f \<le> t \<and> t \<le> snd f \<and> (split \<or> t < from \<or> from + len \<le> t)" using g(2,3) by auto
      then show ?thesis using f(1) unfolding free_at_def by blast
    qed
  qed
  then show ?thesis using run T'(2) by (intro exI[of _ T'] exI[of _ sp]) simp
qed

lemma FlushAFreeSlot_ok: "table_ok T sp \<Longrightarrow> table_ok (FlushAFreeSlot c T) sp \<and> slots_of (FlushAFreeSlot c T) \<subseteq> slots_of T"
  by (rule shrink_ok[of T]) (auto simp: FlushAFreeSlot_def list_all2_conv_all_nth shrinks_dropWhile split: prod.split)

end
