(* ===== verification/NandTiming.thy ===== *)
theory NandTiming
  imports Floats "HOL-Library.Multiset"
begin

text \<open>
  \<open>pal/config.cc\<close> and \<open>pal/old/Latency*.cc\<close>: the timing of the flash.  \<open>pal_update\<close> is the step
  that turns the parsed options into DMA times, the order in which a block number is split into
  channel, way, die and plane, and the dimensions a super-block spans.  \<open>float\<close> is the 24-bit \<open>fl\<close>.
\<close>

section \<open>Latencies\<close>

record page_timing =
  pt_read :: nat
  pt_write :: nat

record dma_timing =
  dm_read :: nat
  dm_write :: nat
  dm_erase :: nat

record nand_timing =
  nt_lsb :: page_timing
  nt_csb :: page_timing
  nt_msb :: page_timing
  nt_dma0 :: dma_timing
  nt_dma1 :: dma_timing
  nt_erase :: nat

record nand_power =
  np_voltage :: nat
  np_read :: nat
  np_program :: nat
  np_erase :: nat
  np_busIdle :: nat
  np_standby :: nat

datatype pal_oper = OPER_READ | OPER_WRITE | OPER_ERASE

datatype busy_for = BUSY_DMA0WAIT | BUSY_DMA0 | BUSY_MEM | BUSY_DMA1WAIT | BUSY_DMA1 | BUSY_END

datatype nand_type = NAND_SLC | NAND_MLC | NAND_TLC

datatype page_type = PAGE_LSB | PAGE_CSB | PAGE_MSB

fun page_type_of :: "nat \<Rightarrow> page_type" where
  "page_type_of n = (if n = 0 then PAGE_LSB else if n = 1 then PAGE_CSB else PAGE_MSB)"

definition dma_latency :: "dma_timing \<Rightarrow> pal_oper \<Rightarrow> nat" where
  "dma_latency d oper = (case oper of OPER_READ \<Rightarrow> dm_read d | OPER_WRITE \<Rightarrow> dm_write d | OPER_ERASE \<Rightarrow> dm_erase d)"

definition page_latency :: "page_timing \<Rightarrow> pal_oper \<Rightarrow> nat" where
  "page_latency p oper = (if oper = OPER_READ then pt_read p else pt_write p)"

definition slc_latency :: "nand_timing \<Rightarrow> nat \<Rightarrow> pal_oper \<Rightarrow> busy_for \<Rightarrow> nat" where
  "slc_latency t page oper busy = (case busy of
     BUSY_DMA0 \<Rightarrow> dma_latency (nt_dma0 t) oper
   | BUSY_DMA1 \<Rightarrow> dma_latency (nt_dma1 t) oper
   | BUSY_MEM \<Rightarrow> (case oper of OPER_READ \<Rightarrow> pt_read (nt_lsb t) | OPER_WRITE \<Rightarrow> pt_write (nt_lsb t) | OPER_ERASE \<Rightarrow> nt_erase t)
   | _ \<Rightarrow> 10)"

text \<open>\<open>GetPageType\<close> of an MLC page is 0 or 1, and every page that is not \<open>PAGE_LSB\<close> has the MSB times.\<close>

definition mlc_latency :: "nand_timing \<Rightarrow> nat \<Rightarrow> pal_oper \<Rightarrow> busy_for \<Rightarrow> nat" where
  "mlc_latency t page oper busy = (case busy of
     BUSY_DMA0 \<Rightarrow> dma_latency (nt_dma0 t) oper
   | BUSY_DMA1 \<Rightarrow> dma_latency (nt_dma1 t) oper
   | BUSY_MEM \<Rightarrow> (if oper = OPER_ERASE then nt_erase t
       else page_latency (if page_type_of (page mod 2) = PAGE_LSB then nt_lsb t else nt_msb t) oper)
   | _ \<Rightarrow> 10)"

definition tlc_page_type :: "nat \<Rightarrow> page_type" where
  "tlc_page_type page = (if page \<le> 5 then PAGE_LSB else if page \<le> 7 then PAGE_CSB else page_type_of ((page - 8) div 2 mod 3))"

definition tlc_latency :: "nand_timing \<Rightarrow> nat \<Rightarrow> pal_oper \<Rightarrow> busy_for \<Rightarrow> nat" where
  "tlc_latency t page oper busy = (case busy of
     BUSY_DMA0 \<Rightarrow> dma_latency (nt_dma0 t) oper
   | BUSY_DMA1 \<Rightarrow> dma_latency (nt_dma1 t) oper
   | BUSY_MEM \<Rightarrow> (if oper = OPER_ERASE then nt_erase t
       else page_latency (case tlc_page_type page of PAGE_LSB \<Rightarrow> nt_lsb t | PAGE_CSB \<Rightarrow> nt_csb t | PAGE_MSB \<Rightarrow> nt_msb t) oper)
   | _ \<Rightarrow> 10)"

definition GetLatency :: "nand_type \<Rightarrow> nand_timing \<Rightarrow> nat \<Rightarrow> pal_oper \<Rightarrow> busy_for \<Rightarrow> nat" where
  "GetLatency ty = (case ty of NAND_SLC \<Rightarrow> slc_latency | NAND_MLC \<Rightarrow> mlc_latency | NAND_TLC \<Rightarrow> tlc_latency)"

definition GetPower :: "nand_power \<Rightarrow> pal_oper \<Rightarrow> busy_for \<Rightarrow> nat" where
  "GetPower p oper busy = (case busy of
     BUSY_DMA0 \<Rightarrow> np_voltage p * np_busIdle p
   | BUSY_DMA1 \<Rightarrow> np_voltage p * np_busIdle p
   | BUSY_MEM \<Rightarrow> np_voltage p * (case oper of OPER_READ \<Rightarrow> np_read p | OPER_WRITE \<Rightarrow> np_program p | OPER_ERASE \<Rightarrow> np_erase p)
   | _ \<Rightarrow> np_voltage p * np_standby p)"

section \<open>Configuration\<close>

record pal_options =
  po_pageSize :: nat
  po_dmaSpeed :: nat
  po_dmaWidth :: nat
  po_multiPlane :: bool
  po_superblock :: string
  po_pageAllocation :: string

abbreviation (input) INDEX_CHANNEL :: nat where "INDEX_CHANNEL \<equiv> 1"
abbreviation (input) INDEX_PACKAGE :: nat where "INDEX_PACKAGE \<equiv> 2"
abbreviation (input) INDEX_DIE :: nat where "INDEX_DIE \<equiv> 4"
abbreviation (input) INDEX_PLANE :: nat where "INDEX_PLANE \<equiv> 8"

text \<open>The dimension a letter of the two option strings names.\<close>

definition letter_index :: "char \<Rightarrow> nat option" where
  "letter_index c = (if c = CHR ''C'' \<or> c = CHR ''c'' then Some INDEX_CHANNEL
     else if c = CHR ''W'' \<or> c = CHR ''w'' then Some INDEX_PACKAGE
     else if c = CHR ''D'' \<or> c = CHR ''d'' then Some INDEX_DIE
     else if c = CHR ''P'' \<or> c = CHR ''p'' then Some INDEX_PLANE else None)"

fun parse_allocation :: "string \<Rightarrow> nat \<times> nat \<times> bool \<times> nat list \<Rightarrow> nat \<times> nat \<times> bool \<times> nat list" where
  "parse_allocation [] s = s"
| "parse_allocation (c # cs) (i, check, bad, pa) =
     (let s = (case letter_index c of
          None \<Rightarrow> (i, check, bad, pa)
        | Some x \<Rightarrow> (i + 1, check OR x, bad \<or> check AND x \<noteq> 0, pa[i := x])) in
      if fst s = 4 then s else parse_allocation cs s)"

text \<open>\<open>Move P to front\<close>.\<close>

definition plane_first :: "nat list \<Rightarrow> nat list" where
  "plane_first pa = (let front = takeWhile (\<lambda>x. x \<noteq> INDEX_PLANE) pa in
     if length front < length pa then INDEX_PLANE # front @ drop (length front + 1) pa else pa)"

definition parse_superblock :: "string \<Rightarrow> nat \<Rightarrow> nat" where
  "parse_superblock s old = (if s = [] then old else fold (\<lambda>c m. case letter_index c of None \<Rightarrow> m | Some x \<Rightarrow> m OR x) s 0)"

record pal_setup =
  ps_dma0 :: dma_timing
  ps_dma1 :: dma_timing
  ps_allocation :: "nat list"
  ps_superblock :: nat

text \<open>Products and sums with an unsigned operand are computed in 32 bits, and the rest in \<open>float\<close>.\<close>

definition dma_time :: "pal_options \<Rightarrow> nat \<Rightarrow> nat res" where
  "dma_time po cycles =
     (let f = fl_of_nat 24; tCK = fl_mul 24 (fl_mul 24 (fl_mul 24 (fl_mul 24 (fl_div 24 (Fin 1) (f (wrap32 (po_dmaSpeed po * 1048576))))
            (f 1000)) (f 1000)) (f 1000)) (f 1000) in
      fl_to_nat (fl_div 24 (fl_mul 24 (f cycles) tCK) (f (po_dmaWidth po div 8))))"

definition pal_update :: "pal_options \<Rightarrow> pal_setup res" where
  "pal_update po =
     rbind (rguard (po_dmaWidth po AND 7 = 0) (Panic ''dmaWidth should be multiple of 8.'')) (\<lambda>_.
     rbind (dma_time po 7) (\<lambda>r0. rbind (dma_time po (wrap32 (7 + po_pageSize po))) (\<lambda>w0. rbind (dma_time po 5) (\<lambda>e0.
     rbind (dma_time po (po_pageSize po)) (\<lambda>r1. rbind (dma_time po 1) (\<lambda>w1. rbind (dma_time po 1) (\<lambda>e1.
     case parse_allocation (po_pageAllocation po) (0, 0, False, [0, 0, 0, 0]) of (i, check, bad, pa) \<Rightarrow>
     let pa = (if po_multiPlane po then plane_first pa else pa); sb = parse_superblock (po_superblock po) 0 in
     rbind (rguard (\<not> bad \<and> check = 15) (Panic ''Invalid page allocation string'')) (\<lambda>_.
     Inr \<lparr>ps_dma0 = \<lparr>dm_read = r0, dm_write = w0, dm_erase = e0\<rparr>, ps_dma1 = \<lparr>dm_read = r1, dm_write = w1, dm_erase = e1\<rparr>,
          ps_allocation = pa, ps_superblock = (if po_multiPlane po then sb OR INDEX_PLANE else sb)\<rparr>))))))))"

section \<open>Accepted settings\<close>

abbreviation dims :: "nat set" where
  "dims \<equiv> {INDEX_CHANNEL, INDEX_PACKAGE, INDEX_DIE, INDEX_PLANE}"

lemma letter_index_dims: "letter_index c = Some x \<Longrightarrow> x \<in> dims"
  by (auto simp: letter_index_def split: if_splits)

text \<open>The mask of a list of flags.\<close>

definition ors :: "nat list \<Rightarrow> nat" where
  "ors l = fold (\<lambda>x m. m OR x) l 0"

lemma ors_snoc: "ors (l @ [x]) = ors l OR x"
  by (simp add: ors_def)

lemma bit_ors: "bit (ors l) n \<longleftrightarrow> (\<exists>y \<in> set l. bit y n)"
proof (induction l rule: rev_induct)
  case (snoc x l)
  then show ?case by (auto simp: ors_snoc bit_or_iff)
qed (simp add: ors_def)

lemma less_four: "k < 4 \<longleftrightarrow> k = 0 \<or> k = 1 \<or> k = 2 \<or> k = (3::nat)"
  by linarith

lemma dims_pow: "x \<in> dims \<longleftrightarrow> (\<exists>k < 4. x = 2 ^ k)"
proof -
  have "(\<exists>k. (k = 0 \<or> k = 1 \<or> k = 2 \<or> k = (3::nat)) \<and> P k) \<longleftrightarrow> P 0 \<or> P 1 \<or> P 2 \<or> P 3" for P by blast
  from this[of "\<lambda>k. x = 2 ^ k"] show ?thesis unfolding less_four by simp
qed

lemma ors_dims:
  assumes "set l \<subseteq> dims" "k < 4"
  shows "bit (ors l) k \<longleftrightarrow> 2 ^ k \<in> set l"
proof -
  have "bit y k \<longleftrightarrow> y = 2 ^ k" if "y \<in> set l" for y
  proof -
    have "y \<in> dims" using assms(1) that by (rule subsetD)
    then obtain j where j: "y = 2 ^ j" unfolding dims_pow by blast
    have "bit (2 ^ j :: nat) k \<longleftrightarrow> j = k" by (simp add: bit_exp_iff) blast
    then show ?thesis by (simp add: j)
  qed
  then show ?thesis unfolding bit_ors by blast
qed

lemma ors_mask:
  assumes "set l \<subseteq> dims" "x \<in> dims"
  shows "ors l AND x \<noteq> 0 \<longleftrightarrow> x \<in> set l"
proof -
  obtain k where "k < 4" "x = 2 ^ k" using assms(2) dims_pow by blast
  then show ?thesis using ors_dims[OF assms(1), of k] and_exp_eq_0_iff_not_bit[of "ors l" k] by simp
qed

lemma ors_full:
  assumes "set l \<subseteq> dims" "ors l = 15"
  shows "set l = dims"
proof -
  have "bit (15::nat) k" if "k < 4" for k using that unfolding less_four by (elim disjE) (simp_all add: bit_Suc_0_iff)
  then have "2 ^ k \<in> set l" if "k < 4" for k using that iffD1[OF ors_dims[OF assms(1) that]] by (simp add: assms(2))
  then have "dims \<subseteq> set l" unfolding subset_iff dims_pow by blast
  then show ?thesis using assms(1) by (rule subset_antisym[rotated])
qed

definition parsed :: "nat \<times> nat \<times> bool \<times> nat list \<Rightarrow> bool" where
  "parsed = (\<lambda>(i, check, bad, pa). i \<le> 4 \<and> (bad \<or>
     (\<exists>l. distinct l \<and> set l \<subseteq> dims \<and> length l = i \<and> pa = l @ replicate (4 - i) 0 \<and> check = ors l)))"

lemma parse_allocation_parsed: "parsed s \<Longrightarrow> fst s < 4 \<Longrightarrow> parsed (parse_allocation cs s)"
proof (induction cs s rule: parse_allocation.induct)
  case (2 c cs i check bad pa)
  let ?s = "case letter_index c of None \<Rightarrow> (i, check, bad, pa) | Some x \<Rightarrow> (i + 1, check OR x, bad \<or> check AND x \<noteq> 0, pa[i := x])"
  have "parsed ?s"
  proof (cases "letter_index c")
    case (Some x)
    note x = letter_index_dims[OF Some]
    show ?thesis
    proof (cases "bad \<or> check AND x \<noteq> 0")
      case False
      then obtain l where l: "distinct l" "set l \<subseteq> dims" "length l = i" "pa = l @ replicate (4 - i) 0" "check = ors l"
        using "2.prems"(1) by (auto simp: parsed_def)
      have "x \<notin> set l" "check OR x = ors (l @ [x])" using ors_mask[OF l(2) x] False l(5) by (auto simp: ors_snoc)
      moreover have "pa[i := x] = (l @ [x]) @ replicate (4 - (i + 1)) 0"
      proof -
        have "4 - i = Suc (4 - (i + 1))" using "2.prems"(2) by simp
        then show ?thesis using l(3,4) by (simp add: list_update_append)
      qed
      moreover have "set (l @ [x]) \<subseteq> dims" using l(2) x by auto
      ultimately show ?thesis using Some l "2.prems"(2) False unfolding parsed_def
        by (auto intro!: exI[of _ "l @ [x]"])
    qed (use Some "2.prems" in \<open>auto simp: parsed_def\<close>)
  qed (use "2.prems" in simp)
  then show ?case using 2 by (cases "letter_index c") (auto simp: parsed_def Let_def)
qed simp

lemma plane_first_perm: "mset (plane_first pa) = mset pa"
proof (cases "length (takeWhile (\<lambda>x. x \<noteq> INDEX_PLANE) pa) < length pa")
  case True
  let ?n = "length (takeWhile (\<lambda>x. x \<noteq> INDEX_PLANE) pa)"
  have "pa ! ?n = INDEX_PLANE" using nth_length_takeWhile[OF True] by simp
  then have "pa = take ?n pa @ INDEX_PLANE # drop (?n + 1) pa" using id_take_nth_drop[OF True] by simp
  then have "mset pa = mset (take ?n pa @ INDEX_PLANE # drop (?n + 1) pa)" by (rule arg_cong)
  then show ?thesis using True by (simp add: plane_first_def Let_def takeWhile_eq_take[symmetric])
qed (simp add: plane_first_def)

lemma plane_first_hd:
  assumes "INDEX_PLANE \<in> set pa"
  shows "hd (plane_first pa) = INDEX_PLANE"
proof -
  have "length (takeWhile (\<lambda>x. x \<noteq> INDEX_PLANE) pa) < length pa"
    using assms by (induction pa) auto
  then show ?thesis by (simp add: plane_first_def Let_def)
qed

text \<open>An accepted page allocation names each dimension once; with multi-plane operation the plane comes first.\<close>

lemma pal_update_allocation:
  assumes "pal_update po = Inr s"
  shows "distinct (ps_allocation s) \<and> set (ps_allocation s) = dims \<and> length (ps_allocation s) = 4 \<and>
    (po_multiPlane po \<longrightarrow> hd (ps_allocation s) = INDEX_PLANE \<and> ps_superblock s AND INDEX_PLANE \<noteq> 0)"
proof -
  obtain i check bad pa where p: "parse_allocation (po_pageAllocation po) (0, 0, False, [0, 0, 0, 0]) = (i, check, bad, pa)" by (metis surj_pair)
  have "parsed (0, 0, False, [0, 0, 0, 0])" unfolding parsed_def by (auto intro!: exI[of _ "[]"] simp: numeral_eq_Suc ors_def)
  from parse_allocation_parsed[OF this, of "po_pageAllocation po"] p have pd: "parsed (i, check, bad, pa)" by simp
  have ok: "\<not> bad" "check = 15" "ps_allocation s = (if po_multiPlane po then plane_first pa else pa)"
      "po_multiPlane po \<Longrightarrow> ps_superblock s = parse_superblock (po_superblock po) 0 OR INDEX_PLANE"
    using assms by (auto simp: pal_update_def p res_simps Let_def)
  obtain l where l: "distinct l" "set l \<subseteq> dims" "length l = i" "pa = l @ replicate (4 - i) 0" "check = ors l" "i \<le> 4"
    using pd ok(1) by (auto simp: parsed_def)
  have sl: "set l = dims" using ors_full[OF l(2)] l(5) ok(2) by simp
  then have "i = 4" using l(1,3) distinct_card[OF l(1)] by simp
  then have pa: "pa = l" using l(4) by simp
  have ms: "mset (ps_allocation s) = mset l" using ok(3) pa plane_first_perm by simp
  then have "set (ps_allocation s) = dims" "length (ps_allocation s) = 4" "distinct (ps_allocation s)"
    using sl l(1,3) \<open>i = 4\<close> by (metis set_mset_mset, metis size_mset, metis mset_eq_imp_distinct_iff)
  moreover have "hd (ps_allocation s) = INDEX_PLANE" if "po_multiPlane po" using ok(3) that plane_first_hd[of pa] pa sl by simp
  moreover have "(m OR INDEX_PLANE) AND INDEX_PLANE \<noteq> 0" for m :: nat
  proof -
    have "bit ((m OR INDEX_PLANE) AND INDEX_PLANE) 3" by (simp add: bit_and_iff bit_or_iff bit_Suc_0_iff)
    then show ?thesis by (metis bit_0_eq bot_apply bot_bool_def)
  qed
  ultimately show ?thesis using ok(4) by simp
qed

lemma rnd_positive: "0 < x \<Longrightarrow> 0 < rnd 24 x"
proof -
  assume x: "0 < x"
  have "pow2 (flog2 x) \<le> rnd_pos 24 x" by (rule rnd_pos_range(1)[OF x]) simp
  then have "0 < rnd_pos 24 x" by (rule less_le_trans[OF pow2_pos])
  then show ?thesis using x by (simp add: rnd_def)
qed

lemma rnd_nonneg: "0 \<le> x \<Longrightarrow> 0 \<le> rnd 24 x"
  using rnd_positive[of x] by (cases "x = 0") (simp_all add: rnd_def)

text \<open>A DMA time can be computed unless the width is below 8 or the speed a multiple of 4096.\<close>

lemma dma_time_total:
  assumes "8 \<le> po_dmaWidth po" "wrap32 (po_dmaSpeed po * 1048576) \<noteq> 0"
  shows "\<exists>n. dma_time po cycles = Inr n"
proof -
  have p: "\<exists>r. fl_of_nat 24 n = Fin r \<and> 0 < r" if "0 < n" for n
    using rnd_positive[of "of_nat n"] that by (simp add: fl_of_nat_def)
  have m: "\<exists>r. fl_mul 24 (Fin x) (Fin y) = Fin r \<and> 0 < r" if "0 < x" "0 < y" for x y
    using rnd_positive[of "x * y"] that by simp
  obtain s where s: "fl_of_nat 24 (wrap32 (po_dmaSpeed po * 1048576)) = Fin s" "0 < s" using p assms(2) by blast
  obtain k where k: "fl_of_nat 24 1000 = Fin k" "0 < k" using p[of 1000] by auto
  obtain w where w: "fl_of_nat 24 (po_dmaWidth po div 8) = Fin w" "0 < w" 
  proof -
    have "0 < po_dmaWidth po div 8" using assms(1) by (simp add: div_greater_zero_iff)
    then show ?thesis using p that by blast
  qed
  obtain c where c: "fl_of_nat 24 cycles = Fin c" "0 \<le> c" using rnd_nonneg[of "of_nat cycles"] by (simp add: fl_of_nat_def)
  obtain t0 where t0: "fl_div 24 (Fin 1) (Fin s) = Fin t0" "0 < t0" using rnd_positive[of "1 / s"] s(2) by simp
  obtain t1 where t1: "fl_mul 24 (Fin t0) (Fin k) = Fin t1" "0 < t1" using m[OF t0(2) k(2)] by blast
  obtain t2 where t2: "fl_mul 24 (Fin t1) (Fin k) = Fin t2" "0 < t2" using m[OF t1(2) k(2)] by blast
  obtain t3 where t3: "fl_mul 24 (Fin t2) (Fin k) = Fin t3" "0 < t3" using m[OF t2(2) k(2)] by blast
  obtain t4 where t4: "fl_mul 24 (Fin t3) (Fin k) = Fin t4" "0 < t4" using m[OF t3(2) k(2)] by blast
  have "fl_div 24 (fl_mul 24 (Fin c) (Fin t4)) (Fin w) = Fin (rnd 24 (rnd 24 (c * t4) / w))" using w(2) by simp
  moreover have "0 \<le> rnd 24 (rnd 24 (c * t4) / w)" using rnd_nonneg c(2) t4(2) w(2) by simp
  ultimately show ?thesis unfolding dma_time_def Let_def s(1) k(1) t0(1) t1(1) t2(1) t3(1) t4(1) w(1) c(1) by simp
qed

end
