(* ===== verification/PalSched.thy ===== *)
theory PalSched
  imports FreeSlots NandTiming
begin

text \<open>
  \<open>pal/old/PAL2.cc\<close>: the scheduler of the flash array.  An operation takes its channel for a first
  transfer, then its die, then the channel again; \<open>TimelineScheduling\<close> searches the free-slot tables of
  both for a place in the future and takes it.  The loops of the search are partial functions, whose
  result \<open>None\<close> would be a search that does not end.  Of the statistics the busy times are modelled.
\<close>

section \<open>State\<close>

record pal2_conf =
  qc_channel :: nat
  qc_package :: nat
  qc_die :: nat
  qc_dmaSpeed :: nat
  qc_pageSize :: nat
  qc_type :: nand_type
  qc_timing :: nand_timing

type_synonym calendar = "table \<times> nat"

text \<open>\<open>TimeSlot\<close>: first and last tick.\<close>

type_synonym time_slot = "nat \<times> nat"

record pal2 =
  p2_ch :: "calendar list"
  p2_die :: "calendar list"
  p2_merged :: "time_slot list"
  p2_opStamp :: "(nat \<times> nat) list list"
  p2_opBusy :: "nat list"
  p2_exactBusy :: nat

definition TimeSlot :: "nat \<Rightarrow> nat \<Rightarrow> time_slot" where
  "TimeSlot start duration = (start, end_tick duration start)"

definition buckets :: "nat list \<Rightarrow> table" where
  "buckets ks = fold (\<lambda>k. map_insert k []) ks []"

definition channel_keys :: "nat \<Rightarrow> nat \<Rightarrow> nat list" where
  "channel_keys spdiv pgdiv =
     [100000 div spdiv, 100000 div spdiv + 100000 div spdiv, 185000000 div wrap32 (pgdiv * spdiv),
      185000000 div wrap32 (pgdiv * spdiv) + 100000 div spdiv, 1500000 div spdiv]"

definition die_keys :: "nand_type \<Rightarrow> nat \<Rightarrow> nat list" where
  "die_keys ty spdiv = map (\<lambda>n. n + 100000 div spdiv) (case ty of
     NAND_SLC \<Rightarrow> [25000000, 300000000, 2000000000]
   | NAND_MLC \<Rightarrow> [40000000, 90000000, 500000000, 1300000000, 3500000000]
   | NAND_TLC \<Rightarrow> [58000000, 78000000, 107000000, 558000000, 2201000000, 5001000000, 2274000000])"

definition pal2_new :: "pal2_conf \<Rightarrow> pal2 res" where
  "pal2_new c =
     rbind (rguard (qc_pageSize c \<noteq> 0) (Undefined ''division by zero'')) (\<lambda>_.
     let spdiv = qc_dmaSpeed c div 50; pgdiv = 16384 div qc_pageSize c in
     rbind (rguard (spdiv \<noteq> 0 \<and> pgdiv \<noteq> 0) (Panic ''SPDIV or PGDIV is 0'')) (\<lambda>_.
     rbind (rguard (wrap32 (pgdiv * spdiv) \<noteq> 0) (Undefined ''division by zero'')) (\<lambda>_.
     Inr \<lparr>p2_ch = replicate (qc_channel c) (buckets (channel_keys spdiv pgdiv), 0),
          p2_die = replicate (wrap32 (qc_channel c * qc_package c * qc_die c)) (buckets (die_keys (qc_type c) spdiv), 0),
          p2_merged = [], p2_opStamp = [[], [], []], p2_opBusy = [0, 0, 0], p2_exactBusy = 0\<rparr>)))"

section \<open>Searching\<close>

text \<open>
  Where an interval goes that is wanted from tick \<open>from\<close> on: the tick, and the start of the free slot it
  lies in, which is the start point of the open end if no slot was found.
\<close>

definition place :: "calendar \<Rightarrow> nat \<Rightarrow> nat \<Rightarrow> nat \<times> nat" where
  "place = (\<lambda>(T, sp) len from. case FindFreeTime T len from of
     None \<Rightarrow> (if from < sp then sp else from, sp)
   | Some (s, conflicts) \<Rightarrow> (if conflicts then s else from, s))"

definition verify :: "calendar \<Rightarrow> nat \<Rightarrow> nat \<Rightarrow> nat" where
  "verify = (\<lambda>(T, sp) len from. case FindFreeTime T len from of None \<Rightarrow> sp | Some (s, conflicts) \<Rightarrow> s)"

text \<open>\<open>LOOP1\<close>: a tick at which the channel is free for the first transfer and the die from there on.\<close>

partial_function (option) loop1 :: "calendar \<Rightarrow> calendar \<Rightarrow> nat \<Rightarrow> nat \<Rightarrow> nat \<Rightarrow> (nat \<times> nat \<times> nat) option" where
  [code]: "loop1 ch die lat0 latm d =
     (case place ch lat0 d of (d0, t0) \<Rightarrow>
      case place die (lat0 + latm) d0 of (m, tm) \<Rightarrow>
      if tm = t0 then Some (d0, t0, tm)
      else if verify ch lat0 m = t0 then Some (m, t0, tm)
      else loop1 ch die lat0 latm m)"

text \<open>\<open>LOOP0\<close>: the same, with the die free until the second transfer is over; \<open>anti\<close> is the gap kept before it.\<close>

partial_function (option) loop0 :: "calendar \<Rightarrow> calendar \<Rightarrow> nat \<Rightarrow> nat \<Rightarrow> nat \<Rightarrow> nat \<Rightarrow> (nat \<times> nat \<times> nat \<times> nat \<times> nat) option" where
  [code]: "loop0 ch die lat0 latm lat1 d =
     (case loop1 ch die lat0 latm d of None \<Rightarrow> None | Some (d0, t0, tm) \<Rightarrow>
      case place ch lat1 (d0 + (lat0 + latm)) of (d1, t1) \<Rightarrow>
      if verify die (d1 + lat1 - d0) d0 = tm then Some (d0, t0, tm, d1, d1 + lat1 - d0)
      else loop0 ch die lat0 latm lat1 (verify die (d1 + lat1 - d0) d0))"

section \<open>Busy times\<close>

text \<open>Where a tick lies in \<open>MergedTimeSlots\<close>: the entry it belongs to, and whether it is right of it.\<close>

fun locate :: "nat \<Rightarrow> time_slot list \<Rightarrow> nat \<Rightarrow> (nat \<times> bool) option" where
  "locate x [] i = None"
| "locate x [c] i = Some (i, \<not> (fst c \<le> x \<and> x \<le> snd c))"
| "locate x (c # n # cs) i =
     (if fst c \<le> x \<and> x \<le> snd c then Some (i, False) else if x < fst n then Some (i, True) else locate x (n # cs) (Suc i))"

text \<open>The end of the merge: entry \<open>i\<close> is extended to entry \<open>j\<close>, and the entries after it up to \<open>j\<close> go.\<close>

definition merge_range :: "nat \<Rightarrow> nat \<Rightarrow> bool \<Rightarrow> nat \<Rightarrow> time_slot list \<Rightarrow> time_slot list res" where
  "merge_range i j right e ms =
     rbind (rguard (i < j) (Undefined ''list::erase'')) (\<lambda>_.
     Inr (take i ms @ [(fst (ms ! i), if right then e else snd (ms ! j))] @ drop (Suc j) ms))"

definition merge_busy :: "time_slot \<Rightarrow> time_slot list \<Rightarrow> time_slot list res" where
  "merge_busy ts ms = (case ts of (s, e) \<Rightarrow>
     if ms = [] then Inr [(s, e)]
     else case (locate s ms 0, locate e ms 0) of
       (Some (i, ri), Some (j, rj)) \<Rightarrow>
         if i = j \<and> \<not> ri \<and> \<not> rj then Inr ms
         else if ri then merge_range i (if i = j then Suc i else if i < j then Suc j else j) rj e (take (Suc i) ms @ [(s, e)] @ drop (Suc i) ms)
         else merge_range 0 (Suc j) rj e ((s, s + 998) # ms)
     | _ \<Rightarrow> Inr ((s, e) # ms))"

fun flush_busy :: "nat \<Rightarrow> time_slot list \<Rightarrow> nat \<Rightarrow> time_slot list \<times> nat" where
  "flush_busy now [] acc = ([], acc)"
| "flush_busy now (c # cs) acc = (if snd c < now then flush_busy now cs (acc + wrap64 (snd c + 18446744073709551616 - fst c + 1)) else (c # cs, acc))"

text \<open>\<open>FlushOpTimeStamp\<close> of one kind of operation; the largest value stands for no interval.\<close>

fun op_busy :: "(nat \<times> nat) list \<Rightarrow> nat \<Rightarrow> nat \<Rightarrow> nat \<Rightarrow> nat" where
  "op_busy [] start fin busy = busy + wrap64 (fin + 18446744073709551616 - start + 1)"
| "op_busy (p # ps) start fin busy =
     (if start = 18446744073709551615 \<and> fin = 18446744073709551615 then op_busy ps (fst p) (snd p) busy
      else if fst p < fin \<and> snd p \<le> fin then op_busy ps start fin busy
      else if fst p < fin \<and> fin < snd p then op_busy ps start (snd p) busy
      else op_busy ps (fst p) (snd p) (busy + wrap64 (fin + 18446744073709551616 - start + 1)))"

definition FlushOpTimeStamp :: "pal2 \<Rightarrow> pal2" where
  "FlushOpTimeStamp p = p\<lparr>p2_opBusy := map (\<lambda>(ps, busy). op_busy ps 18446744073709551615 18446744073709551615 busy) (zip (p2_opStamp p) (p2_opBusy p)),
     p2_opStamp := map (\<lambda>_. []) (p2_opStamp p)\<rparr>"

fun stamp_op :: "nat \<Rightarrow> nat \<Rightarrow> (nat \<times> nat) list \<Rightarrow> (nat \<times> nat) list" where
  "stamp_op s e [] = [(s, e)]"
| "stamp_op s e (p # ps) = (if s < fst p then (s, e) # p # ps
     else if s = fst p then (s, if snd p < e then e else snd p) # ps else p # stamp_op s e ps)"

definition oper_index :: "pal_oper \<Rightarrow> nat" where
  "oper_index oper = (case oper of OPER_READ \<Rightarrow> 0 | OPER_WRITE \<Rightarrow> 1 | OPER_ERASE \<Rightarrow> 2)"

section \<open>Scheduling\<close>

text \<open>What an operation occupies: the two transfers on the channel and the time on the die.\<close>

record busy_slots =
  ts_dma0 :: time_slot
  ts_mem :: time_slot
  ts_dma1 :: time_slot

definition after_dma0 :: "nat \<Rightarrow> nat \<Rightarrow> calendar \<Rightarrow> calendar res" where
  "after_dma0 from len ch =
     (case place ch len from of (d, t) \<Rightarrow> if d = from then InsertFreeSlot len d t True ch else Inr ch)"

definition take_slots :: "nat \<Rightarrow> nat \<Rightarrow> nat \<Rightarrow> nat \<times> nat \<times> nat \<times> nat \<times> nat \<Rightarrow> calendar \<times> calendar \<Rightarrow> (busy_slots \<times> calendar \<times> calendar) res" where
  "take_slots lat0 lat1 anti = (\<lambda>(d0, t0, tm, d1, totalLat) (ch, die).
     rbind (InsertFreeSlot lat0 d0 t0 False ch) (\<lambda>ch.
     case place ch (lat1 + anti) d1 of (d1, t1) \<Rightarrow>
     rbind (InsertFreeSlot lat1 ((if t1 < d1 then d1 else t1) + anti) t1 False ch) (\<lambda>ch.
     rbind (InsertFreeSlot totalLat d0 tm False die) (\<lambda>die.
     let ts = \<lparr>ts_dma0 = TimeSlot (if d0 < t0 then t0 else d0) lat0, ts_mem = TimeSlot (if d0 < tm then tm else d0) totalLat,
               ts_dma1 = TimeSlot ((if d1 < t1 then t1 else d1) + anti) lat1\<rparr> in
     rbind (after_dma0 ((if t0 < d0 then d0 else t0) + lat0) (anti * 2) ch) (\<lambda>ch. Inr (ts, ch, die))))))"

definition TimelineScheduling :: "pal2_conf \<Rightarrow> pal_oper \<Rightarrow> nat \<Rightarrow> nat \<Rightarrow> nat \<Rightarrow> nat \<Rightarrow> pal2 \<Rightarrow> (busy_slots \<times> pal2) res" where
  "TimelineScheduling c oper reqCh reqDie page arrived p =
     (let lat = GetLatency (qc_type c) (qc_timing c) page oper; anti = GetLatency (qc_type c) (qc_timing c) page OPER_READ BUSY_DMA0 in
      rbind (rguard (reqCh < length (p2_ch p) \<and> reqDie < length (p2_die p)) (Undefined ''array index'')) (\<lambda>_.
      case loop0 (p2_ch p ! reqCh) (p2_die p ! reqDie) (lat BUSY_DMA0) (lat BUSY_MEM) (lat BUSY_DMA1 + anti) arrived of
        None \<Rightarrow> Inl (NoReturn ''TimelineScheduling'')
      | Some plan \<Rightarrow>
      rbind (take_slots (lat BUSY_DMA0) (lat BUSY_DMA1) anti plan (p2_ch p ! reqCh, p2_die p ! reqDie)) (\<lambda>(ts, ch, die).
      rbind (merge_busy (ts_mem ts) (p2_merged p)) (\<lambda>ms.
      let k = oper_index oper in
      Inr (ts, FlushOpTimeStamp (p\<lparr>p2_ch := (p2_ch p)[reqCh := ch], p2_die := (p2_die p)[reqDie := die], p2_merged := ms,
         p2_opStamp := (p2_opStamp p)[k := stamp_op (fst (ts_dma0 ts)) (snd (ts_dma1 ts)) (p2_opStamp p ! k)]\<rparr>))))))"

definition FlushTimeSlots :: "nat \<Rightarrow> pal2 \<Rightarrow> pal2" where
  "FlushTimeSlots now p = (case flush_busy now (p2_merged p) (p2_exactBusy p) of (ms, b) \<Rightarrow> p\<lparr>p2_merged := ms, p2_exactBusy := b\<rparr>)"

definition FlushFreeSlots :: "nat \<Rightarrow> pal2 \<Rightarrow> pal2" where
  "FlushFreeSlots now p = FlushTimeSlots now (p\<lparr>p2_ch := map (\<lambda>(T, sp). (FlushAFreeSlot now T, sp)) (p2_ch p),
     p2_die := map (\<lambda>(T, sp). (FlushAFreeSlot now T, sp)) (p2_die p)\<rparr>)"

section \<open>The search ends\<close>

abbreviation calendar_ok :: "calendar \<Rightarrow> bool" where
  "calendar_ok c \<equiv> table_ok (fst c) (snd c)"

text \<open>The interval of length \<open>len\<close> from \<open>from\<close> lies in the free slot that starts at \<open>slot\<close>, or in the open end.\<close>

definition holds :: "calendar \<Rightarrow> nat \<Rightarrow> nat \<Rightarrow> nat \<Rightarrow> bool" where
  "holds c len slot from \<longleftrightarrow> (slot = snd c \<and> snd c \<le> from) \<or>
     (\<exists>f \<in> slots_of (fst c). fst f = slot \<and> slot \<le> from \<and> from + len \<le> snd f + 1)"

lemma holds_le: "holds c len slot from \<Longrightarrow> slot \<le> from"
  by (auto simp: holds_def)

lemma slot_bounds:
  assumes "calendar_ok c" "f \<in> slots_of (fst c)"
  shows "fst f \<le> snd f" "snd f < snd c"
  using assms by (auto simp: table_ok_def filed_def slots_of_def)

lemma slot_unique:
  assumes "calendar_ok c" "f \<in> slots_of (fst c)" "g \<in> slots_of (fst c)" "fst f \<le> t" "t \<le> snd f" "fst g \<le> t" "t \<le> snd g"
  shows "f = g"
proof (rule ccontr)
  assume "f \<noteq> g"
  then have "snd f < fst g \<or> snd g < fst f" using assms(1-3) by (simp add: table_ok_def disjoint_slots_def)
  then show False using assms(4-7) by linarith
qed

lemma place_ok:
  assumes "calendar_ok c" "0 < len" "place c len from = (t, slot)"
  shows "holds c len slot t \<and> from \<le> t \<and> (t = from \<or> t = slot \<and> from < slot) \<and> t \<le> max from (snd c)"
proof -
  have sp: "find_spec (FindFreeTime (fst c) len from) (slots_of (fst c)) len from" using FindFreeTime_spec assms(1,2) by blast
  obtain T s where c: "c = (T, s)" by (cases c)
  show ?thesis
  proof (cases "FindFreeTime T len from")
    case None
    then show ?thesis using assms(3) by (auto simp: place_def c holds_def split: if_splits)
  next
    case (Some r)
    obtain x cf where r: "r = (x, cf)" by (cases r)
    have "\<exists>f \<in> slots_of T. fst f = x \<and> (if cf then from < x \<and> x + len \<le> snd f + 1 else x \<le> from \<and> from + len \<le> snd f + 1)"
      using sp Some r c by (cases cf) (auto simp: find_spec_def)
    then obtain f where f: "f \<in> slots_of T" "fst f = x" "if cf then from < x \<and> x + len \<le> snd f + 1 else x \<le> from \<and> from + len \<le> snd f + 1" by blast
    have "snd f < s" using slot_bounds(2)[of c f] assms(1) f(1) c by simp
    then show ?thesis using assms(2,3) Some r f by (cases cf) (auto simp: place_def c holds_def)
  qed
qed

lemma verify_cases:
  assumes "calendar_ok c" "0 < len"
  shows "(verify c len from = snd c \<and> (\<forall>t \<ge> from. \<not> fits (slots_of (fst c)) len t)) \<or>
    (\<exists>f \<in> slots_of (fst c). fst f = verify c len from \<and>
       (fst f \<le> from \<and> from + len \<le> snd f + 1 \<or> from < fst f \<and> (\<forall>t. from \<le> t \<longrightarrow> t < fst f \<longrightarrow> \<not> fits (slots_of (fst c)) len t)))"
proof -
  obtain T s where c: "c = (T, s)" by (cases c)
  have "find_spec (FindFreeTime T len from) (slots_of T) len from" using FindFreeTime_spec[of T s] assms c by simp
  then show ?thesis by (auto simp: verify_def c find_spec_def split: option.splits bool.splits)
qed

lemma verify_le: "calendar_ok c \<Longrightarrow> 0 < len \<Longrightarrow> verify c len from \<le> snd c"
  using verify_cases[of c len "from"] slot_bounds by fastforce

lemma verify_holds:
  assumes "calendar_ok c" "0 < len" "0 < len0" "holds c len0 slot from0" "from0 \<le> from" "verify c len from = slot"
  shows "holds c len slot from"
  using verify_cases[OF assms(1,2), of "from"]
proof (elim disjE conjE bexE)
  assume v: "verify c len from = snd c"
  have "slot \<le> from" using holds_le[OF assms(4)] assms(5) by simp
  then show ?thesis using v assms(6) by (simp add: holds_def)
next
  fix f assume "f \<in> slots_of (fst c)" "fst f = verify c len from" "from < fst f"
  then show ?thesis using holds_le[OF assms(4)] assms(5,6) by simp
qed (use assms(6) in \<open>auto simp: holds_def\<close>)

lemma verify_same:
  assumes "calendar_ok c" "0 < len" "holds c len slot from"
  shows "verify c len from = slot"
  using assms(3) unfolding holds_def
proof (elim disjE conjE bexE)
  assume s: "slot = snd c" "snd c \<le> from"
  have "snd f < from" if "f \<in> slots_of (fst c)" for f using slot_bounds[OF assms(1) that] s(2) by simp
  then show ?thesis using verify_cases[OF assms(1,2), of "from"] slot_bounds[OF assms(1)] s assms(2) by fastforce
next
  fix f assume f: "f \<in> slots_of (fst c)" "fst f = slot" "slot \<le> from" "from + len \<le> snd f + 1"
  then have "fits (slots_of (fst c)) len from" by (auto simp: fits_def)
  then obtain g where g: "g \<in> slots_of (fst c)" "fst g = verify c len from" "fst g \<le> from" "from + len \<le> snd g + 1"
    using verify_cases[OF assms(1,2), of "from"] by auto
  have "f = g" by (rule slot_unique[OF assms(1) f(1) g(1), of "from"]) (use f g assms(2) in auto)
  then show ?thesis using f(2) g(2) by simp
qed

lemma verify_later:
  assumes "calendar_ok c" "0 < len" "0 < len0" "holds c len0 slot from" "verify c len from \<noteq> slot"
  shows "from < verify c len from"
  using verify_cases[OF assms(1,2), of "from"]
proof (elim disjE conjE bexE)
  assume v: "verify c len from = snd c"
  then obtain f where "f \<in> slots_of (fst c)" "from + len0 \<le> snd f + 1" using assms(4,5) by (auto simp: holds_def)
  then show ?thesis using slot_bounds(2)[OF assms(1)] v assms(3) by fastforce
next
  fix g assume g: "g \<in> slots_of (fst c)" "fst g = verify c len from" "fst g \<le> from" "from + len \<le> snd g + 1"
  have "snd g < snd c" using slot_bounds(2)[OF assms(1) g(1)] .
  then have "\<not> snd c \<le> from" using g(4) assms(2) by linarith
  then obtain f where f: "f \<in> slots_of (fst c)" "fst f = slot" "slot \<le> from" "from + len0 \<le> snd f + 1" using assms(4) by (auto simp: holds_def)
  have "f = g" by (rule slot_unique[OF assms(1) f(1) g(1), of "from"]) (use f g assms(2,3) in auto)
  then show ?thesis using f(2) g(2) assms(5) by simp
qed simp

end
