(* ===== verification/PalSafe.thy ===== *)
theory PalSafe
  imports PalSched
begin

text \<open>
  The scheduler of the flash array is safe: the search ends, what it takes was free, and over any history
  no two transfers share a channel at the same time and no two operations a die.
\<close>

section \<open>The search ends\<close>

definition found1 :: "calendar \<Rightarrow> calendar \<Rightarrow> nat \<Rightarrow> nat \<Rightarrow> nat \<Rightarrow> nat \<times> nat \<times> nat \<Rightarrow> bool" where
  "found1 ch die lat0 latm d = (\<lambda>(d0, t0, tm). d \<le> d0 \<and> holds ch lat0 t0 d0 \<and> holds die (lat0 + latm) tm d0)"

lemma loop1_found:
  assumes "calendar_ok ch" "calendar_ok die" "0 < lat0"
  shows "\<exists>r. loop1 ch die lat0 latm d = Some r \<and> found1 ch die lat0 latm d r"
proof (induction "max (snd ch) (snd die) - d" arbitrary: d rule: less_induct)
  case less
  obtain d0 t0 where p0: "place ch lat0 d = (d0, t0)" by (cases "place ch lat0 d")
  obtain m tm where pm: "place die (lat0 + latm) d0 = (m, tm)" by (cases "place die (lat0 + latm) d0")
  have h0: "holds ch lat0 t0 d0" "d \<le> d0" "d0 \<le> max d (snd ch)" using place_ok[OF assms(1,3) p0] by simp_all
  have hm: "holds die (lat0 + latm) tm m" "d0 \<le> m" "m = d0 \<or> m = tm \<and> d0 < tm" "m \<le> max d0 (snd die)"
    using place_ok[OF assms(2) _ pm] assms(3) by simp_all
  note unf = loop1.simps[of ch die lat0 latm d] p0 pm
  consider "tm = t0" | "tm \<noteq> t0" "verify ch lat0 m = t0" | "tm \<noteq> t0" "verify ch lat0 m \<noteq> t0" by blast
  then show ?case
  proof cases
    case 1
    then have "m = d0" using hm(3) holds_le[OF h0(1)] by auto
    then show ?thesis using 1 h0 hm by (simp add: unf found1_def)
  next
    case 2
    then have "holds ch lat0 t0 m" using verify_holds[OF assms(1,3,3) h0(1) hm(2)] by blast
    then show ?thesis using 2 h0 hm by (simp add: unf found1_def)
  next
    case 3
    have "m \<noteq> d0" using 3(2) verify_same[OF assms(1,3) h0(1)] by auto
    then have "d0 < m" using hm(2) by simp
    then have "max (snd ch) (snd die) - m < max (snd ch) (snd die) - d" using h0 hm(4) by (auto simp: max_def split: if_splits)
    from less[OF this] obtain r where "loop1 ch die lat0 latm m = Some r" "found1 ch die lat0 latm m r" by blast
    then show ?thesis using 3 h0 hm(2) by (auto simp: unf found1_def)
  qed
qed

text \<open>\<open>lat1\<close> is here the second transfer with the gap before it.\<close>

definition found0 :: "calendar \<Rightarrow> calendar \<Rightarrow> nat \<Rightarrow> nat \<Rightarrow> nat \<Rightarrow> nat \<Rightarrow> nat \<times> nat \<times> nat \<times> nat \<times> nat \<Rightarrow> bool" where
  "found0 ch die lat0 latm lat1 d = (\<lambda>(d0, t0, tm, d1, totalLat). d \<le> d0 \<and> holds ch lat0 t0 d0 \<and> holds die totalLat tm d0 \<and>
     d0 + lat0 + latm \<le> d1 \<and> totalLat = d1 + lat1 - d0)"

lemma loop0_found:
  assumes "calendar_ok ch" "calendar_ok die" "0 < lat0" "0 < lat1"
  shows "\<exists>r. loop0 ch die lat0 latm lat1 d = Some r \<and> found0 ch die lat0 latm lat1 d r"
proof (induction "snd die - d" arbitrary: d rule: less_induct)
  case less
  obtain d0 t0 tm where l1: "loop1 ch die lat0 latm d = Some (d0, t0, tm)" "found1 ch die lat0 latm d (d0, t0, tm)"
    using loop1_found[OF assms(1-3), of latm d] by (metis surj_pair)
  obtain d1 t1 where p1: "place ch lat1 (d0 + (lat0 + latm)) = (d1, t1)" by (cases "place ch lat1 (d0 + (lat0 + latm))")
  have h: "d \<le> d0" "holds ch lat0 t0 d0" "holds die (lat0 + latm) tm d0" using l1(2) by (simp_all add: found1_def)
  have d1: "d0 + lat0 + latm \<le> d1" using place_ok[OF assms(1,4) p1] by simp
  let ?t = "d1 + lat1 - d0"
  have t: "0 < ?t" "0 < lat0 + latm" using d1 assms(3,4) by simp_all
  note unf = loop0.simps[of ch die lat0 latm lat1 d] l1(1) p1
  show ?case
  proof (cases "verify die ?t d0 = tm")
    case True
    have "holds die ?t tm d0" by (rule verify_holds[OF assms(2) t h(3) order_refl True])
    then show ?thesis using True h d1 by (simp add: unf found0_def)
  next
    case False
    let ?v = "verify die ?t d0"
    have "d0 < ?v" by (rule verify_later[OF assms(2) t h(3) False])
    moreover have "?v \<le> snd die" by (rule verify_le[OF assms(2) t(1)])
    ultimately have "snd die - ?v < snd die - d" using h(1) by linarith
    from less[OF this] obtain r where r: "loop0 ch die lat0 latm lat1 ?v = Some r" "found0 ch die lat0 latm lat1 ?v r" by blast
    have "found0 ch die lat0 latm lat1 d r" using r(2) h(1) \<open>d0 < ?v\<close> by (auto simp: found0_def)
    then show ?thesis using False r(1) by (simp add: unf)
  qed
qed

section \<open>What is taken was free\<close>

abbreviation free_in :: "calendar \<Rightarrow> nat \<Rightarrow> bool" where
  "free_in c \<equiv> free_at (fst c) (snd c)"

definition ticks :: "time_slot \<Rightarrow> nat set" where
  "ticks s = {fst s..snd s}"

lemma TimeSlot_ticks: "0 < len \<Longrightarrow> ticks (TimeSlot start len) = {start..<start + len}"
  by (auto simp: ticks_def TimeSlot_def end_tick_def)

lemma holds_free: "holds c len slot from \<Longrightarrow> t \<in> {from..<from + len} \<Longrightarrow> free_in c t"
proof -
  assume h: "holds c len slot from" and t: "t \<in> {from..<from + len}"
  from h consider "snd c \<le> from" | f where "f \<in> slots_of (fst c)" "fst f \<le> from" "from + len \<le> snd f + 1"
    by (auto simp: holds_def)
  then show ?thesis
  proof cases
    case 2
    then have "fst f \<le> t" "t \<le> snd f" using t by auto
    then show ?thesis using 2 by (auto simp: free_at_def)
  qed (use t in \<open>auto simp: free_at_def\<close>)
qed

lemma take_ok:
  assumes "calendar_ok c" "0 < len" "holds c len slot from"
  shows "\<exists>c'. InsertFreeSlot len from slot split c = Inr c' \<and> calendar_ok c' \<and>
    (\<forall>t. free_in c' t \<longrightarrow> free_in c t \<and> (split \<or> t \<notin> {from..<from + len}))"
proof -
  obtain T sp where c: "c = (T, sp)" by (cases c)
  have "(slot = sp \<and> sp \<le> from) \<or> (\<exists>f \<in> slots_of T. fst f = slot \<and> slot \<le> from \<and> from + len \<le> snd f + 1)"
    using assms(3) by (simp add: holds_def c)
  from InsertFreeSlot_ok[OF _ assms(2) this, of split] assms(1) c obtain T' sp' where
    r: "InsertFreeSlot len from slot split (T, sp) = Inr (T', sp')" "table_ok T' sp'"
      "\<forall>t. free_at T' sp' t \<longrightarrow> free_at T sp t \<and> (split \<or> t < from \<or> from + len \<le> t)" by auto
  then have "\<forall>t. free_in (T', sp') t \<longrightarrow> free_in c t \<and> (split \<or> t \<notin> {from..<from + len})" using c by auto
  then show ?thesis using r c by (intro exI[of _ "(T', sp')"]) simp
qed

lemma after_dma0_ok:
  assumes "calendar_ok c" "0 < len"
  shows "\<exists>c'. after_dma0 from len c = Inr c' \<and> calendar_ok c' \<and> (\<forall>t. free_in c' t \<longrightarrow> free_in c t)"
proof -
  obtain d t where p: "place c len from = (d, t)" by (cases "place c len from")
  have h: "holds c len t d" using place_ok[OF assms p] by simp
  obtain c' where "InsertFreeSlot len d t True c = Inr c'" "calendar_ok c'" "\<forall>x. free_in c' x \<longrightarrow> free_in c x"
    using take_ok[OF assms h, of True] by blast
  then have "after_dma0 from len c = Inr (if d = from then c' else c)" using p by (auto simp: after_dma0_def)
  then show ?thesis using assms(1) \<open>calendar_ok c'\<close> \<open>\<forall>x. free_in c' x \<longrightarrow> free_in c x\<close>
    by (intro exI[of _ "if d = from then c' else c"]) simp
qed

text \<open>What an operation that is wanted from \<open>arrived\<close> on gets.\<close>

definition granted :: "nat \<Rightarrow> nat \<Rightarrow> nat \<Rightarrow> nat \<Rightarrow> busy_slots \<Rightarrow> bool" where
  "granted lat0 latm lat1 arrived ts \<longleftrightarrow> arrived \<le> fst (ts_dma0 ts) \<and> snd (ts_dma0 ts) + 1 = fst (ts_dma0 ts) + lat0 \<and>
     snd (ts_dma0 ts) + latm < fst (ts_dma1 ts) \<and> snd (ts_dma1 ts) + 1 = fst (ts_dma1 ts) + lat1 \<and>
     fst (ts_mem ts) = fst (ts_dma0 ts) \<and> fst (ts_mem ts) \<le> snd (ts_mem ts)"

lemma take_slots_ok:
  assumes "calendar_ok ch" "calendar_ok die" "0 < lat0" "0 < lat1" "0 < anti"
    and "found0 ch die lat0 latm (lat1 + anti) arrived plan"
  shows "\<exists>ts ch' die'. take_slots lat0 lat1 anti plan (ch, die) = Inr (ts, ch', die') \<and> calendar_ok ch' \<and> calendar_ok die' \<and>
    granted lat0 latm lat1 arrived ts \<and> ticks (ts_dma0 ts) \<inter> ticks (ts_dma1 ts) = {} \<and>
    (\<forall>t. free_in ch' t \<longrightarrow> free_in ch t \<and> t \<notin> ticks (ts_dma0 ts) \<and> t \<notin> ticks (ts_dma1 ts)) \<and>
    (\<forall>t \<in> ticks (ts_dma0 ts) \<union> ticks (ts_dma1 ts). free_in ch t) \<and>
    (\<forall>t. free_in die' t \<longrightarrow> free_in die t \<and> t \<notin> ticks (ts_mem ts)) \<and> (\<forall>t \<in> ticks (ts_mem ts). free_in die t)"
proof -
  obtain d0 t0 tm d1 total where plan: "plan = (d0, t0, tm, d1, total)" by (metis surj_pair)
  have f: "arrived \<le> d0" "holds ch lat0 t0 d0" "holds die total tm d0" "d0 + lat0 + latm \<le> d1" "total = d1 + (lat1 + anti) - d0"
    using assms(6) unfolding found0_def plan prod.case by blast+
  have tot: "0 < total" using f(4,5) assms(4) by simp
  obtain ch1 where c1: "InsertFreeSlot lat0 d0 t0 False ch = Inr ch1" "calendar_ok ch1"
      "\<forall>t. free_in ch1 t \<longrightarrow> free_in ch t \<and> t \<notin> {d0..<d0 + lat0}"
    using take_ok[OF assms(1,3) f(2), of False] by blast
  obtain e1 t1 where p1: "place ch1 (lat1 + anti) d1 = (e1, t1)" by (cases "place ch1 (lat1 + anti) d1")
  have h1: "holds ch1 (lat1 + anti) t1 e1" "d1 \<le> e1" "t1 \<le> e1" using place_ok[OF c1(2) _ p1] assms(4) holds_le by (simp, simp, fastforce)
  let ?s1 = "e1 + anti"
  have s1: "(if t1 < e1 then e1 else t1) + anti = ?s1" "(if e1 < t1 then t1 else e1) + anti = ?s1" using h1(3) by auto
  have "holds ch1 lat1 t1 ?s1" using h1(1) by (auto simp: holds_def)
  then obtain ch2 where c2: "InsertFreeSlot lat1 ?s1 t1 False ch1 = Inr ch2" "calendar_ok ch2"
      "\<forall>t. free_in ch2 t \<longrightarrow> free_in ch1 t \<and> t \<notin> {?s1..<?s1 + lat1}"
    using take_ok[OF c1(2) assms(4), of t1 ?s1 False] by blast
  obtain die' where di: "InsertFreeSlot total d0 tm False die = Inr die'" "calendar_ok die'"
      "\<forall>t. free_in die' t \<longrightarrow> free_in die t \<and> t \<notin> {d0..<d0 + total}"
    using take_ok[OF assms(2) tot f(3), of False] by blast
  have m: "t0 \<le> d0" "tm \<le> d0" using f(2,3) holds_le by blast+
  obtain ch3 where c3: "after_dma0 ((if t0 < d0 then d0 else t0) + lat0) (anti * 2) ch2 = Inr ch3" "calendar_ok ch3"
      "\<forall>t. free_in ch3 t \<longrightarrow> free_in ch2 t"
    using after_dma0_ok[OF c2(2), of "anti * 2"] assms(5) by (metis mult_pos_pos zero_less_numeral)
  let ?ts = "\<lparr>ts_dma0 = TimeSlot d0 lat0, ts_mem = TimeSlot d0 total, ts_dma1 = TimeSlot ?s1 lat1\<rparr>"
  have run: "take_slots lat0 lat1 anti plan (ch, die) = Inr (?ts, ch3, die')"
    using c1(1) p1 c2(1) di(1) c3(1) m by (simp add: take_slots_def plan s1)
  have tk: "ticks (TimeSlot d0 lat0) = {d0..<d0 + lat0}" "ticks (TimeSlot ?s1 lat1) = {?s1..<?s1 + lat1}" "ticks (TimeSlot d0 total) = {d0..<d0 + total}"
    using assms(3,4) tot TimeSlot_ticks by simp_all
  have "granted lat0 latm lat1 arrived ?ts"
    using assms(3-5) tot f(1,4) h1(2) by (auto simp: granted_def TimeSlot_def end_tick_def)
  moreover have "{d0..<d0 + lat0} \<inter> {?s1..<?s1 + lat1} = {}" using f(4) h1(2) by auto
  moreover have "free_in ch t" if "t \<in> {d0..<d0 + lat0} \<union> {?s1..<?s1 + lat1}" for t
    using that holds_free[OF f(2)] holds_free[OF \<open>holds ch1 lat1 t1 ?s1\<close>] c1(3) by blast
  moreover have "free_in die t" if "t \<in> {d0..<d0 + total}" for t using that holds_free[OF f(3)] by blast
  ultimately show ?thesis using run c1(3) c2(3) c3(2,3) di(2,3) by (intro exI[of _ ?ts] exI[of _ ch3] exI[of _ die']) (simp add: tk)
qed

section \<open>Merged slots\<close>

text \<open>The list of merged slots never has more than one entry, so it is a span, not a set of busy times.\<close>

lemma merge_single:
  assumes "length ms \<le> 1"
  shows "\<exists>ms'. merge_busy ts ms = Inr ms' \<and> length ms' = 1"
proof (cases ms)
  case Nil
  then show ?thesis by (cases ts) (simp add: merge_busy_def)
next
  case (Cons c cs)
  then have "ms = [c]" using assms by (cases cs) auto
  then show ?thesis by (cases ts) (simp add: merge_busy_def merge_range_def)
qed

lemma flush_busy_length: "length (fst (flush_busy now ms b)) \<le> length ms"
  by (induction ms arbitrary: b) (auto simp: le_SucI)

section \<open>Histories\<close>

definition busy_positive :: "pal2_conf \<Rightarrow> bool" where
  "busy_positive c \<longleftrightarrow> (\<forall>page oper. 0 < GetLatency (qc_type c) (qc_timing c) page oper BUSY_DMA0 \<and>
     0 < GetLatency (qc_type c) (qc_timing c) page oper BUSY_DMA1)"

lemma busy_positive_iff: "busy_positive c \<longleftrightarrow> (\<forall>oper. 0 < dma_latency (nt_dma0 (qc_timing c)) oper \<and> 0 < dma_latency (nt_dma1 (qc_timing c)) oper)"
  by (cases "qc_type c") (auto simp: busy_positive_def GetLatency_def slc_latency_def mlc_latency_def tlc_latency_def)

text \<open>The log of a history: which channel and die each operation had, and when.\<close>

type_synonym pal_log = "(nat \<times> nat \<times> busy_slots) list"

definition channel_busy :: "nat \<Rightarrow> nat \<times> nat \<times> busy_slots \<Rightarrow> nat set" where
  "channel_busy ch = (\<lambda>(c, d, ts). if c = ch then ticks (ts_dma0 ts) \<union> ticks (ts_dma1 ts) else {})"

definition die_busy :: "nat \<Rightarrow> nat \<times> nat \<times> busy_slots \<Rightarrow> nat set" where
  "die_busy die = (\<lambda>(c, d, ts). if d = die then ticks (ts_mem ts) else {})"

definition apart :: "('a \<Rightarrow> nat set) \<Rightarrow> 'a list \<Rightarrow> bool" where
  "apart f l \<longleftrightarrow> sorted_wrt (\<lambda>x y. f x \<inter> f y = {}) l"

lemma apart_Nil [simp]: "apart f []"
  by (simp add: apart_def)

lemma apart_snoc: "apart f (l @ [x]) \<longleftrightarrow> apart f l \<and> (\<forall>y \<in> set l. f y \<inter> f x = {})"
  by (simp add: apart_def sorted_wrt_append)

definition pal2_inv :: "pal2 \<Rightarrow> pal_log \<Rightarrow> bool" where
  "pal2_inv p l \<longleftrightarrow> (\<forall>c \<in> set (p2_ch p). calendar_ok c) \<and> (\<forall>c \<in> set (p2_die p). calendar_ok c) \<and> length (p2_merged p) \<le> 1 \<and>
     (\<forall>k < length (p2_ch p). apart (channel_busy k) l \<and> (\<forall>x \<in> set l. \<forall>t \<in> channel_busy k x. \<not> free_in (p2_ch p ! k) t)) \<and>
     (\<forall>k < length (p2_die p). apart (die_busy k) l \<and> (\<forall>x \<in> set l. \<forall>t \<in> die_busy k x. \<not> free_in (p2_die p ! k) t))"

lemma FlushOpTimeStamp_keeps [simp]:
  "p2_ch (FlushOpTimeStamp p) = p2_ch p" "p2_die (FlushOpTimeStamp p) = p2_die p" "p2_merged (FlushOpTimeStamp p) = p2_merged p"
  by (simp_all add: FlushOpTimeStamp_def)

lemma TimelineScheduling_ok:
  assumes "pal2_inv p l" "busy_positive c" "reqCh < length (p2_ch p)" "reqDie < length (p2_die p)"
  shows "\<exists>ts p'. TimelineScheduling c oper reqCh reqDie page arrived p = Inr (ts, p') \<and> pal2_inv p' (l @ [(reqCh, reqDie, ts)]) \<and>
    length (p2_ch p') = length (p2_ch p) \<and> length (p2_die p') = length (p2_die p) \<and>
    granted (GetLatency (qc_type c) (qc_timing c) page oper BUSY_DMA0) (GetLatency (qc_type c) (qc_timing c) page oper BUSY_MEM)
      (GetLatency (qc_type c) (qc_timing c) page oper BUSY_DMA1) arrived ts"
proof -
  define lat where "lat = GetLatency (qc_type c) (qc_timing c) page oper"
  define anti where "anti = GetLatency (qc_type c) (qc_timing c) page OPER_READ BUSY_DMA0"
  let ?ch = "p2_ch p ! reqCh" and ?die = "p2_die p ! reqDie"
  have pos: "0 < lat BUSY_DMA0" "0 < lat BUSY_DMA1" "0 < anti" using assms(2) by (simp_all add: busy_positive_def lat_def anti_def)
  have ok: "calendar_ok ?ch" "calendar_ok ?die" using assms(1,3,4) by (simp_all add: pal2_inv_def)
  obtain plan where plan: "loop0 ?ch ?die (lat BUSY_DMA0) (lat BUSY_MEM) (lat BUSY_DMA1 + anti) arrived = Some plan"
    "found0 ?ch ?die (lat BUSY_DMA0) (lat BUSY_MEM) (lat BUSY_DMA1 + anti) arrived plan"
    using loop0_found[OF ok pos(1), of "lat BUSY_DMA1 + anti"] pos(2) by fastforce
  obtain ts ch' die' where t: "take_slots (lat BUSY_DMA0) (lat BUSY_DMA1) anti plan (?ch, ?die) = Inr (ts, ch', die')"
    "calendar_ok ch'" "calendar_ok die'" "granted (lat BUSY_DMA0) (lat BUSY_MEM) (lat BUSY_DMA1) arrived ts"
    "\<forall>t. free_in ch' t \<longrightarrow> free_in ?ch t \<and> t \<notin> ticks (ts_dma0 ts) \<and> t \<notin> ticks (ts_dma1 ts)"
    "\<forall>t \<in> ticks (ts_dma0 ts) \<union> ticks (ts_dma1 ts). free_in ?ch t"
    "\<forall>t. free_in die' t \<longrightarrow> free_in ?die t \<and> t \<notin> ticks (ts_mem ts)" "\<forall>t \<in> ticks (ts_mem ts). free_in ?die t"
    using take_slots_ok[OF ok pos plan(2)] by blast
  obtain ms where ms: "merge_busy (ts_mem ts) (p2_merged p) = Inr ms" "length ms = 1"
    using merge_single[of "p2_merged p" "ts_mem ts"] assms(1) by (auto simp: pal2_inv_def)
  define p' where "p' = FlushOpTimeStamp (p\<lparr>p2_ch := (p2_ch p)[reqCh := ch'], p2_die := (p2_die p)[reqDie := die'], p2_merged := ms,
      p2_opStamp := (p2_opStamp p)[oper_index oper := stamp_op (fst (ts_dma0 ts)) (snd (ts_dma1 ts)) (p2_opStamp p ! oper_index oper)]\<rparr>)"
  have run: "TimelineScheduling c oper reqCh reqDie page arrived p = Inr (ts, p')"
    using assms(3,4) plan(1) t(1) ms(1) by (simp add: TimelineScheduling_def lat_def anti_def Let_def p'_def)
  have f: "p2_ch p' = (p2_ch p)[reqCh := ch']" "p2_die p' = (p2_die p)[reqDie := die']" "p2_merged p' = ms" by (simp_all add: p'_def)
  have "pal2_inv p' (l @ [(reqCh, reqDie, ts)])"
    unfolding pal2_inv_def
  proof (intro conjI allI impI)
    have "\<forall>c \<in> set (p2_ch p). calendar_ok c" "\<forall>c \<in> set (p2_die p). calendar_ok c" using assms(1) by (simp_all add: pal2_inv_def)
    then show "\<forall>c \<in> set (p2_ch p'). calendar_ok c" "\<forall>c \<in> set (p2_die p'). calendar_ok c"
      using t(2,3) set_update_subset_insert[of "p2_ch p" reqCh ch'] set_update_subset_insert[of "p2_die p" reqDie die'] unfolding f by blast+
    show "length (p2_merged p') \<le> 1" using ms(2) f(3) by simp
  next
    fix k assume k: "k < length (p2_ch p')"
    then have o: "apart (channel_busy k) l" "\<forall>x \<in> set l. \<forall>t \<in> channel_busy k x. \<not> free_in (p2_ch p ! k) t"
      using assms(1) f(1) by (simp_all add: pal2_inv_def)
    have "channel_busy k x \<inter> channel_busy k (reqCh, reqDie, ts) = {}" if "x \<in> set l" for x
      using o(2) that t(6) by (auto simp: channel_busy_def)
    then show "apart (channel_busy k) (l @ [(reqCh, reqDie, ts)])" using o(1) by (simp add: apart_snoc)
    show "\<forall>x \<in> set (l @ [(reqCh, reqDie, ts)]). \<forall>t \<in> channel_busy k x. \<not> free_in (p2_ch p' ! k) t"
    proof (cases "k = reqCh")
      case True
      then have "p2_ch p' ! k = ch'" using assms(3) f(1) by simp
      then show ?thesis using o(2) t(5) True by (auto simp: channel_busy_def)
    next
      case False
      then show ?thesis using o(2) f(1) by (auto simp: channel_busy_def)
    qed
  next
    fix k assume k: "k < length (p2_die p')"
    then have o: "apart (die_busy k) l" "\<forall>x \<in> set l. \<forall>t \<in> die_busy k x. \<not> free_in (p2_die p ! k) t"
      using assms(1) f(2) by (simp_all add: pal2_inv_def)
    have "die_busy k x \<inter> die_busy k (reqCh, reqDie, ts) = {}" if "x \<in> set l" for x
      using o(2) that t(8) by (auto simp: die_busy_def)
    then show "apart (die_busy k) (l @ [(reqCh, reqDie, ts)])" using o(1) by (simp add: apart_snoc)
    show "\<forall>x \<in> set (l @ [(reqCh, reqDie, ts)]). \<forall>t \<in> die_busy k x. \<not> free_in (p2_die p' ! k) t"
    proof (cases "k = reqDie")
      case True
      then have "p2_die p' ! k = die'" using assms(4) f(2) by simp
      then show ?thesis using o(2) t(7) True by (auto simp: die_busy_def)
    next
      case False
      then show ?thesis using o(2) f(2) by (auto simp: die_busy_def)
    qed
  qed
  then show ?thesis using run t(4) f by (intro exI[of _ ts] exI[of _ p']) (simp add: lat_def)
qed

lemma flush_calendar:
  assumes "calendar_ok c"
  shows "calendar_ok (case c of (T, sp) \<Rightarrow> (FlushAFreeSlot now T, sp)) \<and>
    (free_in (case c of (T, sp) \<Rightarrow> (FlushAFreeSlot now T, sp)) t \<longrightarrow> free_in c t)"
proof -
  obtain T sp where c: "c = (T, sp)" by (cases c)
  then have "table_ok (FlushAFreeSlot now T) sp \<and> slots_of (FlushAFreeSlot now T) \<subseteq> slots_of T"
    using FlushAFreeSlot_ok[of T sp now] assms by simp
  then show ?thesis by (auto simp: c free_at_def)
qed

lemma FlushTimeSlots_keeps: "p2_ch (FlushTimeSlots now p) = p2_ch p \<and> p2_die (FlushTimeSlots now p) = p2_die p \<and>
    length (p2_merged (FlushTimeSlots now p)) \<le> length (p2_merged p)"
  using flush_busy_length[of now "p2_merged p" "p2_exactBusy p"] by (auto simp: FlushTimeSlots_def split: prod.splits)

lemma FlushFreeSlots_ok:
  assumes "pal2_inv p l"
  shows "pal2_inv (FlushFreeSlots now p) l \<and> length (p2_ch (FlushFreeSlots now p)) = length (p2_ch p) \<and>
    length (p2_die (FlushFreeSlots now p)) = length (p2_die p)"
proof -
  let ?f = "\<lambda>(T, sp). (FlushAFreeSlot now T, sp)"
  let ?p = "p\<lparr>p2_ch := map ?f (p2_ch p), p2_die := map ?f (p2_die p)\<rparr>"
  note fl = FlushTimeSlots_keeps[of now ?p]
  have F: "p2_ch (FlushFreeSlots now p) = map ?f (p2_ch p)" "p2_die (FlushFreeSlots now p) = map ?f (p2_die p)"
    "length (p2_merged (FlushFreeSlots now p)) \<le> length (p2_merged p)" using fl by (simp_all add: FlushFreeSlots_def)
  have cal: "\<forall>c \<in> set (p2_ch p). calendar_ok c" "\<forall>c \<in> set (p2_die p). calendar_ok c" using assms by (simp_all add: pal2_inv_def)
  have C: "\<forall>c \<in> set (map ?f xs). calendar_ok c" if "\<forall>c \<in> set xs. calendar_ok c" for xs
    using that flush_calendar by auto
  have L: "\<not> free_in (map ?f xs ! k) t" if "k < length xs" "\<forall>c \<in> set xs. calendar_ok c" "\<not> free_in (xs ! k) t" for k xs t
    using that flush_calendar[of "xs ! k" now t] nth_map[OF that(1), of ?f] nth_mem[OF that(1)] by auto
  have A: "length (p2_merged p) \<le> 1"
    "\<And>k. k < length (p2_ch p) \<Longrightarrow> apart (channel_busy k) l \<and> (\<forall>x \<in> set l. \<forall>t \<in> channel_busy k x. \<not> free_in (p2_ch p ! k) t)"
    "\<And>k. k < length (p2_die p) \<Longrightarrow> apart (die_busy k) l \<and> (\<forall>x \<in> set l. \<forall>t \<in> die_busy k x. \<not> free_in (p2_die p ! k) t)"
    using assms by (simp_all add: pal2_inv_def)
  have "pal2_inv (FlushFreeSlots now p) l"
    unfolding pal2_inv_def F(1,2) length_map
    using C[OF cal(1)] C[OF cal(2)] A F(3) L[OF _ cal(1)] L[OF _ cal(2)] by (intro conjI allI impI) (blast | simp)+
  then show ?thesis by (simp add: F)
qed

text \<open>The entry also covers what lies between two slots.\<close>

lemma merge_busy_spans_gap: "merge_busy (30, 40) [(10, 20)] = Inr [(10, 40)] \<and> flush_busy 50 [(10, 40)] 0 = ([], 31)"
  by (simp add: merge_busy_def merge_range_def wrap64_def)

end
