(* ===== verification/PalAddress.thy ===== *)
theory PalAddress
  imports IclLayer NandTiming
begin

text \<open>
  The addresses of \<open>pal/pal_old.cc\<close> and \<open>pal/old/PAL2.cc\<close>: a block number of the FTL and a page number
  become one address per I/O unit of the super-page.  Dimensions a super-block does not span are digits
  of the block number, in the order of the page allocation; the others run through all their values.
\<close>

section \<open>Addresses\<close>

record cpdpbp =
  ad_Channel :: nat
  ad_Package :: nat
  ad_Die :: nat
  ad_Plane :: nat
  ad_Block :: nat
  ad_Page :: nat

definition get_dim :: "nat \<Rightarrow> cpdpbp \<Rightarrow> nat" where
  "get_dim i a = (if i = INDEX_CHANNEL then ad_Channel a else if i = INDEX_PACKAGE then ad_Package a
     else if i = INDEX_DIE then ad_Die a else ad_Plane a)"

definition set_dim :: "nat \<Rightarrow> nat \<Rightarrow> cpdpbp \<Rightarrow> cpdpbp" where
  "set_dim i v a = (if i = INDEX_CHANNEL then a\<lparr>ad_Channel := v\<rparr> else if i = INDEX_PACKAGE then a\<lparr>ad_Package := v\<rparr>
     else if i = INDEX_DIE then a\<lparr>ad_Die := v\<rparr> else a\<lparr>ad_Plane := v\<rparr>)"

definition dim_size :: "pal_conf \<Rightarrow> nat \<Rightarrow> nat" where
  "dim_size c i = (if i = INDEX_CHANNEL then pc_channel c else if i = INDEX_PACKAGE then pc_package c
     else if i = INDEX_DIE then pc_die c else pc_plane c)"

text \<open>\<open>superblock & INDEX_...\<close>.\<close>

definition spans :: "pal_conf \<Rightarrow> nat \<Rightarrow> bool" where
  "spans c i = (if i = INDEX_CHANNEL then pc_superChannel c else if i = INDEX_PACKAGE then pc_superPackage c
     else if i = INDEX_DIE then pc_superDie c else pc_superPlane c)"

section \<open>Conversion\<close>

record address_conf =
  ac_pal :: pal_conf
  ac_allocation :: nat
  ac_randomTweak :: bool
  ac_pageInSuperPage :: nat

text \<open>The four bytes of the page allocation, packed by \<open>config.cc\<close> and taken apart by \<open>convertCPDPBP\<close>.\<close>

definition getPageAllocationConfig :: "nat list \<Rightarrow> nat" where
  "getPageAllocationConfig pa = pa ! 0 OR push_bit 8 (pa ! 1) OR push_bit 16 (pa ! 2) OR push_bit 24 (pa ! 3)"

definition allocation_byte :: "nat \<Rightarrow> nat \<Rightarrow> nat" where
  "allocation_byte pa i = drop_bit (i * 8) pa AND 255"

text \<open>The digits of the block number; the dimensions the super-block spans are collected with their sizes.\<close>

fun pick_dims :: "pal_conf \<Rightarrow> nat list \<Rightarrow> nat \<Rightarrow> cpdpbp \<Rightarrow> (nat \<times> nat) list \<Rightarrow> (nat \<times> cpdpbp \<times> (nat \<times> nat) list) res" where
  "pick_dims c [] tmp a ds = Inr (tmp, a, ds)"
| "pick_dims c (i # is) tmp a ds =
     (if i \<notin> dims \<or> i = INDEX_PLANE \<and> pc_multiPlane c then pick_dims c is tmp a ds
      else if spans c i then pick_dims c is tmp a (ds @ [(i, dim_size c i)])
      else rbind (rguard (dim_size c i \<noteq> 0) (Undefined ''division by zero'')) (\<lambda>_.
        pick_dims c is (tmp div dim_size c i) (set_dim i (tmp mod dim_size c i) a) ds))"

text \<open>The nested loops: the first dimension runs fastest.\<close>

fun offsets :: "(nat \<times> nat) list \<Rightarrow> (nat \<times> nat) list list" where
  "offsets [] = [[]]"
| "offsets ((i, n) # ds) = concat (map (\<lambda>os. map (\<lambda>l. (i, l) # os) [0..<n]) (offsets ds))"

definition apply_offsets :: "cpdpbp \<Rightarrow> (nat \<times> nat) list \<Rightarrow> cpdpbp" where
  "apply_offsets a os = fold (\<lambda>(i, l). set_dim i l) os a"

definition collect_units :: "bitset \<Rightarrow> cpdpbp \<Rightarrow> (nat \<times> nat) list list \<Rightarrow> cpdpbp list res" where
  "collect_units flag a oss = rfold (\<lambda>(k, os) l.
     rbind (rguard (k < bs_size flag) (Undefined ''bitset index'')) (\<lambda>_.
     Inr (if bs_test flag k then l @ [apply_offsets a os] else l))) (enumerate 0 oss) []"

text \<open>\<open>junk\<close> is what the uninitialised fields of \<open>addr\<close> hold; the flags are those the loops go by.\<close>

definition io_flags :: "address_conf \<Rightarrow> bitset \<Rightarrow> bitset res" where
  "io_flags A flag =
     rbind (rguard (\<not> (ac_randomTweak A \<and> bs_size flag \<noteq> ac_pageInSuperPage A)) (Panic ''Invalid size of I/O flag'')) (\<lambda>_.
     Inr (if \<not> ac_randomTweak A \<and> bs_size flag \<noteq> ac_pageInSuperPage A then bs_set_all (bs_new (ac_pageInSuperPage A)) else flag))"

definition convertCPDPBP :: "address_conf \<Rightarrow> cpdpbp \<Rightarrow> pal_request \<Rightarrow> cpdpbp list res" where
  "convertCPDPBP A junk req =
     rbind (io_flags A (p_ioFlag req)) (\<lambda>flag.
     rbind (pick_dims (ac_pal A) (map (allocation_byte (ac_allocation A)) [0..<4]) (p_blockIndex req) (junk\<lparr>ad_Plane := 0\<rparr>) []) (\<lambda>(tmp, a, ds).
     let a = a\<lparr>ad_Block := wrap32 tmp, ad_Page := p_pageIndex req\<rparr>; oss = offsets ds in
     rbind (collect_units flag a oss) (\<lambda>l.
     rbind (rguard (length oss = ac_pageInSuperPage A) (Panic ''I/O flag size != # pages in super page'')) (\<lambda>_. Inr l))))"

definition CPDPBPtoDieIdx :: "pal_conf \<Rightarrow> cpdpbp \<Rightarrow> nat" where
  "CPDPBPtoDieIdx c a = wrap32 (ad_Die a + wrap32 (ad_Package a * pc_die c) + wrap32 (wrap32 (ad_Channel a * pc_die c) * pc_package c))"

section \<open>Physical page numbers\<close>

text \<open>\<open>RearrangedSizes\<close> in the order page, block, plane, die, package, channel; \<open>RearrangedSizes[6]\<close> is always 0.\<close>

definition rearranged_sizes :: "pal_conf \<Rightarrow> nat list" where
  "rearranged_sizes c = [pc_page c, pc_block c, if pc_multiPlane c then 1 else pc_plane c, pc_die c, pc_package c, pc_channel c]"

text \<open>The product of the last \<open>n\<close> sizes, multiplied on \<open>uint32_t\<close>.\<close>

definition tail_size :: "nat list \<Rightarrow> nat \<Rightarrow> nat" where
  "tail_size rs n = fold (\<lambda>x p. wrap32 (p * x)) (take n (rev rs)) 1"

definition PPNdisassemble :: "nat list \<Rightarrow> nat \<Rightarrow> cpdpbp res" where
  "PPNdisassemble rs ppn =
     (let q = tail_size rs; m5 = ppn mod q 5; m4 = m5 mod q 4; m3 = m4 mod q 3; m2 = m3 mod q 2; m1 = m2 mod q 1 in
      rbind (rguard (\<forall>n \<in> {1, 2, 3, 4, 5}. q n \<noteq> 0) (Undefined ''division by zero'')) (\<lambda>_.
      Inr \<lparr>ad_Channel = wrap32 m1, ad_Package = wrap32 (m2 div q 1), ad_Die = wrap32 (m3 div q 2), ad_Plane = wrap32 (m4 div q 3),
           ad_Block = wrap32 (m5 div q 4), ad_Page = wrap32 (ppn div q 5)\<rparr>))"

definition AssemblePPN :: "nat list \<Rightarrow> cpdpbp \<Rightarrow> nat" where
  "AssemblePPN rs a = ad_Channel a + wrap32 (ad_Package a * tail_size rs 1) + wrap32 (ad_Die a * tail_size rs 2) +
     wrap32 (ad_Plane a * tail_size rs 3) + wrap32 (ad_Block a * tail_size rs 4) + wrap32 (ad_Page a * tail_size rs 5)"

section \<open>Dimensions\<close>

lemma get_set_dim: "i \<in> dims \<Longrightarrow> j \<in> dims \<Longrightarrow> get_dim i (set_dim j v a) = (if i = j then v else get_dim i a)"
  by (auto simp: get_dim_def set_dim_def)

lemma set_dim_rest [simp]: "ad_Block (set_dim i v a) = ad_Block a" "ad_Page (set_dim i v a) = ad_Page a"
  by (simp_all add: set_dim_def)

lemma get_dim_rest [simp]: "get_dim i (a\<lparr>ad_Block := b, ad_Page := p\<rparr>) = get_dim i a"
  by (simp add: get_dim_def)

text \<open>A dimension that is a digit of the block number.\<close>

definition digit :: "pal_conf \<Rightarrow> nat \<Rightarrow> bool" where
  "digit c i \<longleftrightarrow> i \<in> dims \<and> \<not> (i = INDEX_PLANE \<and> pc_multiPlane c) \<and> \<not> spans c i"

definition swept :: "pal_conf \<Rightarrow> nat \<Rightarrow> bool" where
  "swept c i \<longleftrightarrow> i \<in> dims \<and> \<not> (i = INDEX_PLANE \<and> pc_multiPlane c) \<and> spans c i"

lemma pick_dims_Cons:
  "pick_dims c (i # is) t a ds =
     (if digit c i then rbind (rguard (dim_size c i \<noteq> 0) (Undefined ''division by zero''))
        (\<lambda>_. pick_dims c is (t div dim_size c i) (set_dim i (t mod dim_size c i) a) ds)
      else pick_dims c is t a (if swept c i then ds @ [(i, dim_size c i)] else ds))"
  by (auto simp: digit_def swept_def)

declare pick_dims.simps(2) [simp del]

lemma digit_swept: "digit c i \<Longrightarrow> \<not> swept c i"
  by (simp add: digit_def swept_def)

lemma pick_dims_swept:
  "pick_dims c is t a ds = Inr (b, r, es) \<Longrightarrow> es = ds @ map (\<lambda>i. (i, dim_size c i)) (filter (swept c) is)"
proof (induction "is" arbitrary: t a ds)
  case (Cons i "is")
  show ?case
  proof (cases "digit c i")
    case True
    then obtain t' a' where "pick_dims c is t' a' ds = Inr (b, r, es)" using Cons.prems by (auto simp: pick_dims_Cons res_simps)
    from Cons.IH[OF this] show ?thesis using digit_swept[OF True] by simp
  next
    case False
    then have "pick_dims c is t a (if swept c i then ds @ [(i, dim_size c i)] else ds) = Inr (b, r, es)" using Cons.prems by (simp add: pick_dims_Cons)
    from Cons.IH[OF this] show ?thesis by simp
  qed
qed simp

lemma pick_dims_keeps:
  "pick_dims c is t a ds = Inr (b, r, es) \<Longrightarrow> i \<in> dims \<Longrightarrow> i \<notin> set is \<Longrightarrow> get_dim i r = get_dim i a"
proof (induction "is" arbitrary: t a ds)
  case (Cons j js)
  show ?case
  proof (cases "digit c j")
    case True
    then have "pick_dims c js (t div dim_size c j) (set_dim j (t mod dim_size c j) a) ds = Inr (b, r, es)"
      using Cons.prems(1) by (auto simp: pick_dims_Cons res_simps)
    from Cons.IH[OF this Cons.prems(2)] show ?thesis using Cons.prems(2,3) True by (simp add: digit_def get_set_dim)
  next
    case False
    then show ?thesis using Cons.IH Cons.prems by (simp add: pick_dims_Cons)
  qed
qed simp

lemma pick_dims_digit:
  "pick_dims c is t a ds = Inr (b, r, es) \<Longrightarrow> i \<in> set is \<Longrightarrow> digit c i \<Longrightarrow> distinct is \<Longrightarrow> get_dim i r < dim_size c i"
proof (induction "is" arbitrary: t a ds)
  case (Cons j js)
  show ?case
  proof (cases "i = j")
    case True
    then have p: "dim_size c i \<noteq> 0" "pick_dims c js (t div dim_size c i) (set_dim i (t mod dim_size c i) a) ds = Inr (b, r, es)"
      using Cons.prems(1,3) by (auto simp: pick_dims_Cons res_simps)
    have "get_dim i r = t mod dim_size c i"
      using pick_dims_keeps[OF p(2), of i] Cons.prems(3,4) True by (simp add: digit_def get_set_dim)
    then show ?thesis using p(1) by simp
  next
    case False
    then have i: "i \<in> set js" "distinct js" using Cons.prems(2,4) by simp_all
    obtain t' a' ds' where "pick_dims c js t' a' ds' = Inr (b, r, es)"
      using Cons.prems(1) by (cases "digit c j") (auto simp: pick_dims_Cons res_simps)
    then show ?thesis using Cons.IH i Cons.prems(3) by blast
  qed
qed simp

text \<open>The digits and what is left of the block number determine it.\<close>

lemma pick_dims_inj:
  assumes "pick_dims c is t a ds = Inr (b, r, es)" "pick_dims c is u a' ds' = Inr (b, r', es')" "distinct is"
    and "\<forall>i \<in> set is. digit c i \<longrightarrow> get_dim i r = get_dim i r'"
  shows "t = u"
  using assms
proof (induction "is" arbitrary: t u a a' ds ds')
  case (Cons j js)
  show ?case
  proof (cases "digit c j")
    case True
    let ?n = "dim_size c j"
    have p: "?n \<noteq> 0" "pick_dims c js (t div ?n) (set_dim j (t mod ?n) a) ds = Inr (b, r, es)"
        "pick_dims c js (u div ?n) (set_dim j (u mod ?n) a') ds' = Inr (b, r', es')"
      using Cons.prems(1,2) True by (auto simp: pick_dims_Cons res_simps)
    have "t div ?n = u div ?n" using Cons.IH[OF p(2,3)] Cons.prems(3,4) by auto
    moreover have "get_dim j r = t mod ?n" "get_dim j r' = u mod ?n"
      using pick_dims_keeps[OF p(2), of j] pick_dims_keeps[OF p(3), of j] Cons.prems(3) True by (simp_all add: digit_def get_set_dim)
    then have "t mod ?n = u mod ?n" using Cons.prems(4) True by simp
    ultimately show ?thesis by (metis div_mult_mod_eq)
  next
    case False
    then obtain es1 es2 where "pick_dims c js t a es1 = Inr (b, r, es)" "pick_dims c js u a' es2 = Inr (b, r', es')"
      using Cons.prems(1,2) by (auto simp: pick_dims_Cons)
    then show ?thesis using Cons.IH Cons.prems(3,4) by simp
  qed
qed simp

text \<open>What is left of the block number is below the number of blocks.\<close>

lemma pick_dims_block:
  "pick_dims c is t a ds = Inr (b, r, es) \<Longrightarrow> t < n * prod_list (map (dim_size c) (filter (digit c) is)) \<Longrightarrow> b < n"
proof (induction "is" arbitrary: t a ds)
  case (Cons j js)
  show ?case
  proof (cases "digit c j")
    case True
    let ?n = "dim_size c j"
    have p: "?n \<noteq> 0" "pick_dims c js (t div ?n) (set_dim j (t mod ?n) a) ds = Inr (b, r, es)"
      using Cons.prems(1) True by (auto simp: pick_dims_Cons res_simps)
    have "t < n * prod_list (map (dim_size c) (filter (digit c) js)) * ?n" using Cons.prems(2) True by (simp add: ac_simps)
    then have "t div ?n < n * prod_list (map (dim_size c) (filter (digit c) js))" using p(1) by (simp add: less_mult_imp_div_less)
    then show ?thesis using Cons.IH[OF p(2)] by simp
  next
    case False
    then obtain es1 where "pick_dims c js t a es1 = Inr (b, r, es)" using Cons.prems(1) by (auto simp: pick_dims_Cons)
    then show ?thesis using Cons.IH Cons.prems(2) False by simp
  qed
qed simp

section \<open>Units of a super-page\<close>

lemma offsets_keys: "os \<in> set (offsets ds) \<Longrightarrow> map fst os = map fst ds \<and> list_all2 (\<lambda>o' d. snd o' < snd d) os ds"
  by (induction ds arbitrary: os rule: offsets.induct) auto

lemma offsets_distinct: "distinct (offsets ds)"
proof (induction ds rule: offsets.induct)
  case (2 i n ds)
  show ?case
  proof (cases n)
    case (Suc m)
    let ?f = "\<lambda>os. map (\<lambda>l. (i, l) # os) [0..<n]"
    have "inj_on ?f (set (offsets ds))" by (rule inj_onI) (auto simp: Suc upt_conv_Cons simp del: upt_Suc)
    then have "distinct (map ?f (offsets ds))" using 2 by (simp add: distinct_map)
    then have "distinct (concat (map ?f (offsets ds)))"
      by (rule distinct_concat) (auto simp: distinct_map inj_on_def)
    then show ?thesis by simp
  next
    case 0
    have z: "concat (map (\<lambda>os. []) xs) = ([] :: (nat \<times> nat) list list)" for xs :: "(nat \<times> nat) list list" by (induction xs) simp_all
    show ?thesis by (simp add: 0 z)
  qed
qed simp

lemma length_offsets: "length (offsets ds) = prod_list (map snd ds)"
proof (induction ds rule: offsets.induct)
  case (2 i n ds)
  have "length (concat (map (\<lambda>os. map (\<lambda>l. (i, l) # os) [0..<n]) xs)) = length xs * n" for xs :: "(nat \<times> nat) list list"
    by (induction xs) auto
  then show ?case using 2 by simp
qed simp

lemma apply_offsets_get:
  assumes "distinct (map fst os)" "fst ` set os \<subseteq> dims" "i \<in> dims"
  shows "get_dim i (apply_offsets a os) = (case map_of os i of Some l \<Rightarrow> l | None \<Rightarrow> get_dim i a)"
  using assms(1,2)
proof (induction os arbitrary: a)
  case (Cons x os)
  obtain j l where x: "x = (j, l)" by (cases x)
  have j: "j \<in> dims" "j \<notin> fst ` set os" using Cons.prems x by auto
  have "get_dim i (apply_offsets a (x # os)) = (case map_of os i of Some l \<Rightarrow> l | None \<Rightarrow> get_dim i (set_dim j l a))"
    using Cons.IH[of "set_dim j l a"] Cons.prems x by (simp add: apply_offsets_def)
  moreover have "map_of os j = None" using j(2) by (simp add: map_of_eq_None_iff)
  ultimately show ?case using x get_set_dim[OF assms(3) j(1), of l a] by (cases "map_of os i") auto
qed (simp add: apply_offsets_def)

lemma apply_offsets_rest [simp]: "ad_Block (apply_offsets a os) = ad_Block a" "ad_Page (apply_offsets a os) = ad_Page a"
  unfolding apply_offsets_def by (induction os arbitrary: a) (auto split: prod.split)

lemma apply_offsets_inj:
  assumes "apply_offsets a os = apply_offsets a os'" "map fst os = ks" "map fst os' = ks" "distinct ks" "set ks \<subseteq> dims"
  shows "os = os'"
proof -
  have "map_of os i = map_of os' i" if "i \<in> set ks" for i
  proof -
    have i: "i \<in> dims" using that assms(5) by blast
    have "i \<in> fst ` set os" "i \<in> fst ` set os'" using that assms(2,3) by (metis list.set_map)+
    then obtain l l' where l: "map_of os i = Some l" "map_of os' i = Some l'" by (metis map_of_eq_None_iff not_None_eq)
    have "get_dim i (apply_offsets a os) = l" using apply_offsets_get[of os i a] assms(2,4,5) i l by (auto simp: list.set_map[symmetric] simp del: list.set_map)
    moreover have "get_dim i (apply_offsets a os') = l'" using apply_offsets_get[of os' i a] assms(3-5) i l by (auto simp: list.set_map[symmetric] simp del: list.set_map)
    ultimately show ?thesis using assms(1) l by simp
  qed
  then have eq: "map_of os i = map_of os' i" if "i \<in> set ks" for i using that by blast
  have len: "length os = length ks" "length os' = length ks" using assms(2,3) by (metis length_map)+
  show ?thesis
  proof (rule nth_equalityI)
    fix n assume n: "n < length os"
    have k: "fst (os ! n) = ks ! n" "fst (os' ! n) = ks ! n" using n len assms(2,3) by (metis nth_map)+
    have "map_of os (ks ! n) = Some (snd (os ! n))" "map_of os' (ks ! n) = Some (snd (os' ! n))"
      using n len k assms(2-4) by (metis map_of_is_SomeI nth_mem prod.collapse)+
    then have "snd (os ! n) = snd (os' ! n)" using eq[of "ks ! n"] n len by simp
    then show "os ! n = os' ! n" using k by (simp add: prod_eq_iff)
  qed (simp add: len)
qed

lemma filter_enumerate_sub: "snd ` set (filter P (enumerate 0 xs)) \<subseteq> set xs"
proof -
  have "snd ` set (enumerate 0 xs) = set xs" by (metis list.set_map map_snd_enumerate)
  moreover have "snd ` set (filter P (enumerate 0 xs)) \<subseteq> snd ` set (enumerate 0 xs)" by (rule image_mono) (rule filter_is_subset)
  ultimately show ?thesis by blast
qed

lemma collect_units_eq:
  assumes "collect_units flag a oss = Inr l"
  shows "l = map (apply_offsets a \<circ> snd) (filter (bs_test flag \<circ> fst) (enumerate 0 oss))"
proof -
  let ?f = "\<lambda>(k, os) l. rbind (rguard (k < bs_size flag) (Undefined ''bitset index'')) (\<lambda>_.
     Inr (if bs_test flag k then l @ [apply_offsets a os] else l))"
  have "m = l0 @ map (apply_offsets a \<circ> snd) (filter (bs_test flag \<circ> fst) xs)" if "rfold ?f xs l0 = Inr m" for xs l0 m
    using that
  proof (induction xs arbitrary: l0)
    case (Cons x xs)
    obtain k os where x: "x = (k, os)" by (cases x)
    then have "rfold ?f xs (if bs_test flag k then l0 @ [apply_offsets a os] else l0) = Inr m"
      using Cons.prems by (auto simp: res_simps)
    from Cons.IH[OF this] show ?case by (simp add: x)
  qed simp
  from this[OF assms[unfolded collect_units_def]] show ?thesis by simp
qed

section \<open>Conversion is exact\<close>

lemma pick_dims_le: "pick_dims c is t a ds = Inr (b, r, es) \<Longrightarrow> b \<le> t"
proof (induction "is" arbitrary: t a ds)
  case (Cons j js)
  show ?case
  proof (cases "digit c j")
    case True
    then have "pick_dims c js (t div dim_size c j) (set_dim j (t mod dim_size c j) a) ds = Inr (b, r, es)"
      using Cons.prems by (auto simp: pick_dims_Cons res_simps)
    from Cons.IH[OF this] show ?thesis using div_le_dividend le_trans by blast
  next
    case False
    then show ?thesis using Cons by (simp add: pick_dims_Cons)
  qed
qed simp

abbreviation allocation_order :: "address_conf \<Rightarrow> nat list" where
  "allocation_order A \<equiv> map (allocation_byte (ac_allocation A)) [0..<4]"

lemma convert_parts:
  assumes "convertCPDPBP A junk req = Inr l" "p_blockIndex req < 4294967296"
  shows "\<exists>b r flag. pick_dims (ac_pal A) (allocation_order A) (p_blockIndex req) (junk\<lparr>ad_Plane := 0\<rparr>) [] =
      Inr (b, r, map (\<lambda>i. (i, dim_size (ac_pal A) i)) (filter (swept (ac_pal A)) (allocation_order A))) \<and>
    l = map (apply_offsets (r\<lparr>ad_Block := b, ad_Page := p_pageIndex req\<rparr>) \<circ> snd) (filter (bs_test flag \<circ> fst)
      (enumerate 0 (offsets (map (\<lambda>i. (i, dim_size (ac_pal A) i)) (filter (swept (ac_pal A)) (allocation_order A)))))) \<and>
    io_flags A (p_ioFlag req) = Inr flag \<and> length (offsets (map (\<lambda>i. (i, dim_size (ac_pal A) i)) (filter (swept (ac_pal A)) (allocation_order A)))) = ac_pageInSuperPage A"
proof -
  obtain flag b r ds where f: "io_flags A (p_ioFlag req) = Inr flag"
    and p: "pick_dims (ac_pal A) (allocation_order A) (p_blockIndex req) (junk\<lparr>ad_Plane := 0\<rparr>) [] = Inr (b, r, ds)"
    and c: "collect_units flag (r\<lparr>ad_Block := wrap32 b, ad_Page := p_pageIndex req\<rparr>) (offsets ds) = Inr l" and n: "length (offsets ds) = ac_pageInSuperPage A"
    using assms(1) by (auto simp: convertCPDPBP_def res_simps Let_def)
  have ds: "ds = map (\<lambda>i. (i, dim_size (ac_pal A) i)) (filter (swept (ac_pal A)) (allocation_order A))" using pick_dims_swept[OF p] by simp
  have "wrap32 b = b" using pick_dims_le[OF p] assms(2) by (simp add: wrap32_def)
  then show ?thesis using collect_units_eq[OF c] p f n unfolding ds by auto
qed

lemma convert_elem:
  assumes "convertCPDPBP A junk req = Inr l" "p_blockIndex req < 4294967296" "distinct (allocation_order A)" "x \<in> set l"
  shows "\<exists>b r es. pick_dims (ac_pal A) (allocation_order A) (p_blockIndex req) (junk\<lparr>ad_Plane := 0\<rparr>) [] = Inr (b, r, es) \<and>
    ad_Block x = b \<and> ad_Page x = p_pageIndex req \<and> (\<forall>i \<in> dims. \<not> swept (ac_pal A) i \<longrightarrow> get_dim i x = get_dim i r) \<and>
    (\<forall>i \<in> set (allocation_order A). swept (ac_pal A) i \<longrightarrow> get_dim i x < dim_size (ac_pal A) i)"
proof -
  let ?c = "ac_pal A" let ?ks = "filter (swept ?c) (allocation_order A)"
  obtain b r flag where p: "pick_dims ?c (allocation_order A) (p_blockIndex req) (junk\<lparr>ad_Plane := 0\<rparr>) [] = Inr (b, r, map (\<lambda>i. (i, dim_size ?c i)) ?ks)"
    and l: "l = map (apply_offsets (r\<lparr>ad_Block := b, ad_Page := p_pageIndex req\<rparr>) \<circ> snd) (filter (bs_test flag \<circ> fst) (enumerate 0 (offsets (map (\<lambda>i. (i, dim_size ?c i)) ?ks))))"
    using convert_parts[OF assms(1,2)] by blast
  define Y where "Y = filter (bs_test flag \<circ> fst) (enumerate 0 (offsets (map (\<lambda>i. (i, dim_size ?c i)) ?ks)))"
  have "x \<in> (apply_offsets (r\<lparr>ad_Block := b, ad_Page := p_pageIndex req\<rparr>) \<circ> snd) ` set Y" using assms(4) by (simp only: l Y_def list.set_map)
  then obtain y where y: "y \<in> set Y" "x = apply_offsets (r\<lparr>ad_Block := b, ad_Page := p_pageIndex req\<rparr>) (snd y)" by auto
  define os where "os = snd y"
  have os: "os \<in> set (offsets (map (\<lambda>i. (i, dim_size ?c i)) ?ks))" "x = apply_offsets (r\<lparr>ad_Block := b, ad_Page := p_pageIndex req\<rparr>) os"
    using subsetD[OF filter_enumerate_sub imageI[OF y(1)[unfolded Y_def], of snd]] y(2) by (simp_all only: os_def)
  have k: "map fst os = ?ks" "list_all2 (\<lambda>o' d. snd o' < snd d) os (map (\<lambda>i. (i, dim_size ?c i)) ?ks)"
    using offsets_keys[OF os(1)] by (simp_all add: comp_def)
  have kd3: "fst ` set os = set ?ks" using arg_cong[OF k(1), of set] by (simp only: list.set_map)
  have kd: "distinct (map fst os)" "fst ` set os \<subseteq> dims" "fst ` set os = set ?ks"
  proof -
    show "distinct (map fst os)" using distinct_filter[OF assms(3), of "swept ?c"] by (simp only: k(1))
    show "fst ` set os \<subseteq> dims" unfolding kd3 by (auto simp: swept_def)
  qed (rule kd3)
  have lt: "snd y < dim_size ?c (fst y)" if "y \<in> set os" for y
  proof -
    obtain n where n: "n < length os" "y = os ! n" using \<open>y \<in> set os\<close> by (metis in_set_conv_nth)
    have len: "length os = length ?ks" using k(1) by (metis length_map)
    have "snd (os ! n) < dim_size ?c (?ks ! n)" using k(2) n(1) len by (simp add: list_all2_conv_all_nth)
    moreover have "?ks ! n = fst (os ! n)" using k(1) n(1) by (metis nth_map)
    ultimately show ?thesis using n(2) by simp
  qed
  have "get_dim i x = get_dim i r" if "i \<in> dims" "\<not> swept ?c i" for i
  proof -
    have "map_of os i = None" using that(2) kd(3) by (simp add: map_of_eq_None_iff)
    then show ?thesis using apply_offsets_get[OF kd(1,2) that(1)] os(2) by simp
  qed
  moreover have "get_dim i x < dim_size ?c i" if "i \<in> set (allocation_order A)" "swept ?c i" for i
  proof -
    have "i \<in> fst ` set os" using that kd(3) by simp
    then obtain v where v: "map_of os i = Some v" by (metis map_of_eq_None_iff not_None_eq)
    then have "v < dim_size ?c i" using lt[OF map_of_SomeD[OF v]] by simp
    moreover have "i \<in> dims" using that(2) by (simp add: swept_def)
    ultimately show ?thesis using apply_offsets_get[OF kd(1,2) \<open>i \<in> dims\<close>] os(2) v by simp
  qed
  ultimately show ?thesis using p os(2) by (intro exI[of _ b] exI[of _ r]) auto
qed

text \<open>Different super-pages have no physical page in common.\<close>

lemma convert_disjoint:
  assumes "convertCPDPBP A junk q = Inr l" "convertCPDPBP A junk' q' = Inr l'" "x \<in> set l" "x \<in> set l'"
    and "p_blockIndex q < 4294967296" "p_blockIndex q' < 4294967296" "distinct (allocation_order A)"
  shows "p_blockIndex q = p_blockIndex q' \<and> p_pageIndex q = p_pageIndex q'"
proof -
  obtain b r es where 1: "pick_dims (ac_pal A) (allocation_order A) (p_blockIndex q) (junk\<lparr>ad_Plane := 0\<rparr>) [] = Inr (b, r, es)"
    "ad_Block x = b" "ad_Page x = p_pageIndex q" "\<forall>i \<in> dims. \<not> swept (ac_pal A) i \<longrightarrow> get_dim i x = get_dim i r"
    using convert_elem[OF assms(1,5,7,3)] by blast
  obtain b' r' es' where 2: "pick_dims (ac_pal A) (allocation_order A) (p_blockIndex q') (junk'\<lparr>ad_Plane := 0\<rparr>) [] = Inr (b', r', es')"
    "ad_Block x = b'" "ad_Page x = p_pageIndex q'" "\<forall>i \<in> dims. \<not> swept (ac_pal A) i \<longrightarrow> get_dim i x = get_dim i r'"
    using convert_elem[OF assms(2,6,7,4)] by blast
  have "get_dim i r = get_dim i r'" if "digit (ac_pal A) i" for i
    using 1(4) 2(4) that digit_swept[OF that] unfolding digit_def by metis
  then have "p_blockIndex q = p_blockIndex q'" using pick_dims_inj[OF 1(1) 2(1)[folded 2(2), unfolded 1(2)] assms(7)] by blast
  then show ?thesis using 1(3) 2(3) by simp
qed

lemma convert_distinct:
  assumes "convertCPDPBP A junk q = Inr l" "p_blockIndex q < 4294967296" "distinct (allocation_order A)"
  shows "distinct l"
proof -
  let ?c = "ac_pal A" let ?ks = "filter (swept ?c) (allocation_order A)" let ?oss = "offsets (map (\<lambda>i. (i, dim_size ?c i)) ?ks)"
  obtain a flag where l: "l = map (apply_offsets a \<circ> snd) (filter (bs_test flag \<circ> fst) (enumerate 0 ?oss))"
    using convert_parts[OF assms(1,2)] by blast
  have "inj_on (apply_offsets a) (set ?oss)"
  proof (rule inj_onI)
    fix os os' assume o: "os \<in> set ?oss" "os' \<in> set ?oss" "apply_offsets a os = apply_offsets a os'"
    have "map fst os = ?ks" "map fst os' = ?ks" using offsets_keys[OF o(1)] offsets_keys[OF o(2)] by (simp_all add: comp_def)
    then show "os = os'" using apply_offsets_inj[OF o(3), of ?ks] assms(3) by (auto simp: swept_def)
  qed
  moreover have "distinct (map snd (filter (bs_test flag \<circ> fst) (enumerate 0 ?oss)))"
    by (rule distinct_map_filter) (simp add: offsets_distinct)
  moreover have "set (map snd (filter (bs_test flag \<circ> fst) (enumerate 0 ?oss))) \<subseteq> set ?oss"
    using filter_enumerate_sub by (simp only: list.set_map)
  ultimately have "distinct (map (apply_offsets a) (map snd (filter (bs_test flag \<circ> fst) (enumerate 0 ?oss))))"
    unfolding distinct_map by (meson inj_on_subset)
  then show ?thesis unfolding l by simp
qed

text \<open>Packing and taking apart.\<close>

lemma bit_byte: "b < 256 \<Longrightarrow> bit (b::nat) n \<Longrightarrow> n < 8"
proof -
  assume "b < 256" "bit b n"
  then have "b = take_bit 8 b" by (simp add: take_bit_eq_mod)
  then have "bit (take_bit 8 b) n" using \<open>bit b n\<close> by simp
  then show "n < 8" by (simp add: bit_take_bit_iff)
qed

lemma allocation_bytes:
  assumes "length pa = 4" "\<forall>b \<in> set pa. b < 256"
  shows "map (allocation_byte (getPageAllocationConfig pa)) [0..<4] = pa"
proof (rule nth_equalityI)
  fix i assume "i < length (map (allocation_byte (getPageAllocationConfig pa)) [0..<4])"
  then have i: "i < 4" by simp
  have b: "bit (pa ! k) n \<Longrightarrow> n < 8" if "k < 4" for k n
  proof -
    have "pa ! k \<in> set pa" using that assms(1) by simp
    then show "bit (pa ! k) n \<Longrightarrow> n < 8" using assms(2) bit_byte by blast
  qed
  have "bit (allocation_byte (getPageAllocationConfig pa) i) n \<longleftrightarrow> bit (pa ! i) n" for n
  proof -
    have m: "bit (255::nat) n \<longleftrightarrow> n < 8"
      using bit_mask_iff[of 8 n, where 'a = nat] by (simp add: mask_eq_exp_minus_1)
    show ?thesis using b[of 0 "i * 8 + n"] b[of 1 "i * 8 + n - 8"] b[of 2 "i * 8 + n - 16"] b[of 3 "i * 8 + n - 24"] b[OF i, of n] i
      unfolding less_four
      by (elim disjE) (auto simp: allocation_byte_def getPageAllocationConfig_def bit_and_iff bit_drop_bit_eq m bit_or_iff bit_push_bit_iff)
  qed
  then have "allocation_byte (getPageAllocationConfig pa) i = pa ! i" by (rule bit_eqI)
  then show "map (allocation_byte (getPageAllocationConfig pa)) [0..<4] ! i = pa ! i" using i by simp
qed (simp add: assms)

end
