(* ===== verification/PalStack.thy ===== *)
theory PalStack
  imports PalSafe PalAddress
begin

text \<open>
  \<open>pal/pal_old.cc\<close>: the flash array as the FTL sees it.  A read, write or erase of a super-page is converted
  to physical addresses that are scheduled one after the other from the same tick, and ends with the
  last of them; the direct interface of the open-channel controller schedules one address.  The
  periodic event forgets the free slots of the past.
\<close>

section \<open>Range of the addresses\<close>

lemma pick_dims_still:
  "pick_dims c is t a ds = Inr (b, r, es) \<Longrightarrow> i \<in> dims \<Longrightarrow> \<not> digit c i \<Longrightarrow> get_dim i r = get_dim i a"
proof (induction "is" arbitrary: t a ds)
  case (Cons j js)
  show ?case
  proof (cases "digit c j")
    case True
    then have "pick_dims c js (t div dim_size c j) (set_dim j (t mod dim_size c j) a) ds = Inr (b, r, es)"
      using Cons.prems(1) by (auto simp: pick_dims_Cons res_simps)
    from Cons.IH[OF this Cons.prems(2,3)] show ?thesis using Cons.prems(2,3) True by (auto simp: digit_def get_set_dim)
  qed (use Cons in \<open>simp add: pick_dims_Cons\<close>)
qed simp

lemma pick_dims_total:
  "\<forall>i \<in> dims. dim_size c i \<noteq> 0 \<Longrightarrow> \<exists>b r. pick_dims c is t a ds = Inr (b, r, ds @ map (\<lambda>i. (i, dim_size c i)) (filter (swept c) is))"
proof (induction "is" arbitrary: t a ds)
  case (Cons j js)
  have z: "rguard (dim_size c j \<noteq> 0) (Undefined ''division by zero'') = Inr ()" if "digit c j"
  proof -
    have "j \<in> dims" using that by (simp add: digit_def)
    then have "dim_size c j \<noteq> 0" by (rule bspec[OF Cons.prems])
    then show ?thesis by (simp only: rguard_def if_True not_False_eq_True)
  qed
  have ih: "\<exists>b r. pick_dims c js t a ds = Inr (b, r, ds @ map (\<lambda>i. (i, dim_size c i)) (filter (swept c) js))" for t a ds
    by (rule Cons.IH) (rule Cons.prems)
  consider "digit c j" "\<not> swept c j" | "\<not> digit c j" "swept c j" | "\<not> digit c j" "\<not> swept c j" using digit_swept by blast
  then show ?case
  proof cases
    case 1
    then show ?thesis using ih z[OF 1(1)] by (simp only: pick_dims_Cons if_True if_False filter.simps rbind.simps)
  next
    case 2
    then show ?thesis using ih[of t a "ds @ [(j, dim_size c j)]"]
      by (simp only: pick_dims_Cons if_True if_False filter.simps list.map append_assoc append_Cons append_Nil)
  next
    case 3
    then show ?thesis using ih by (simp only: pick_dims_Cons if_False filter.simps)
  qed
qed simp

lemma collect_units_total:
  assumes "length oss \<le> bs_size flag"
  shows "\<exists>l. collect_units flag a oss = Inr l"
proof -
  have lt: "k < bs_size flag" if "(k, os) \<in> set (enumerate 0 oss)" for k os
  proof -
    have "k \<in> fst ` set (enumerate 0 oss)" using that by force
    also have "fst ` set (enumerate 0 oss) = {0..<length oss}" by (metis list.set_map map_fst_enumerate set_upt add_0)
    finally show ?thesis using assms by simp
  qed
  have step: "\<exists>l'. (\<lambda>(k, os) l. rbind (rguard (k < bs_size flag) (Undefined ''bitset index'')) (\<lambda>_.
       Inr (if bs_test flag k then l @ [apply_offsets a os] else l))) x l = Inr l' \<and> True" if "x \<in> set (enumerate 0 oss)" for x l
  proof -
    obtain k os where x: "x = (k, os)" by (cases x)
    with that have "k < bs_size flag" using lt by blast
    then show ?thesis by (simp add: x)
  qed
  have "\<exists>l. rfold (\<lambda>(k, os) l. rbind (rguard (k < bs_size flag) (Undefined ''bitset index'')) (\<lambda>_.
       Inr (if bs_test flag k then l @ [apply_offsets a os] else l))) (enumerate 0 oss) [] = Inr l \<and> True"
    by (rule rfold_total) (simp, rule step)
  then show ?thesis by (simp only: collect_units_def simp_thms)
qed

text \<open>The number of pages in a super-page is that of the units the loops run over.\<close>

definition sizes_ok :: "pal_conf \<Rightarrow> bool" where
  "sizes_ok c \<longleftrightarrow> 0 < pc_channel c \<and> 0 < pc_package c \<and> 0 < pc_die c \<and> 0 < pc_plane c \<and> 0 < pc_pageSize c \<and>
     pc_pageSize c * (pc_channel c * pc_package c * pc_die c * pc_plane c) < 4294967296 \<and>
     pc_block c * (pc_channel c * pc_package c * pc_die c * pc_plane c) < 4294967296"

lemma sizes_pos: "sizes_ok c \<Longrightarrow> i \<in> dims \<Longrightarrow> 0 < dim_size c i"
  by (auto simp: sizes_ok_def dim_size_def)

lemma prod_if: "prod_list (map f (filter P xs)) = prod_list (map (\<lambda>x. if P x then f x else (1::nat)) xs)"
  by (induction xs) simp_all

lemma prod_perm: "mset xs = mset ys \<Longrightarrow> prod_list (map f xs) = (prod_list (map f ys) :: nat)"
  by (metis mset_map prod_mset_prod_list)

lemma prod_dims:
  assumes "distinct ks" "set ks = dims"
  shows "prod_list (map f ks) = (f INDEX_CHANNEL * f INDEX_PACKAGE * f INDEX_DIE * f INDEX_PLANE :: nat)"
proof -
  have "distinct [1, 2, 4, 8 :: nat]" "set ks = set [1, 2, 4, 8 :: nat]" using assms(2) by simp_all
  then have "mset ks = mset [1, 2, 4, 8]" using assms(1) set_eq_iff_mset_eq_distinct by blast
  from prod_perm[OF this, of f] show ?thesis by (simp add: mult.assoc)
qed

lemma scaled:
  assumes "(m::nat) * (ch * pk * di * pl) < 4294967296" "0 < ch" "0 < pk" "0 < di" "0 < pl"
    and "a \<in> {1, ch}" "b \<in> {1, pk}" "c \<in> {1, di}" "d \<in> {1, pl}"
  shows "m * a < 4294967296" "m * a * b < 4294967296" "m * a * b * c < 4294967296" "m * a * b * c * d < 4294967296"
proof -
  have le: "a \<le> ch" "b \<le> pk" "c \<le> di" "d \<le> pl" "0 < a" "0 < b" "0 < c" "0 < d" using assms by auto
  have "a * b * c * d \<le> ch * pk * di * pl" using le by (intro mult_le_mono)
  then have "m * (a * b * c * d) \<le> m * (ch * pk * di * pl)" by (rule mult_le_mono2)
  then have "m * (a * b * c * d) < 4294967296" using assms(1) by (rule le_less_trans)
  then show 4: "m * a * b * c * d < 4294967296" by (simp only: mult.assoc)
  have up: "x < 4294967296" if "x * y < 4294967296" "0 < y" for x y :: nat
    using that mult_le_mono2[of 1 y x] by linarith
  show 3: "m * a * b * c < 4294967296" by (rule up[OF 4 le(8)])
  show 2: "m * a * b < 4294967296" by (rule up[OF 3 le(7)])
  show "m * a < 4294967296" by (rule up[OF 2 le(6)])
qed

lemma pal_param_products:
  assumes "sizes_ok c" "pal_param_of c = Inr g"
  shows "pp_superBlock g = pc_block c * prod_list (map (dim_size c) (filter (digit c) [1, 2, 4, 8])) \<and>
    pp_pageInSuperPage g = prod_list (map (dim_size c) (filter (swept c) [1, 2, 4, 8])) \<and> pp_page g = pc_page c"
proof -
  let ?M = "pc_multiPlane c \<or> pc_superPlane c"
  have s: "pc_pageSize c * (pc_channel c * pc_package c * pc_die c * pc_plane c) < 4294967296"
      "pc_block c * (pc_channel c * pc_package c * pc_die c * pc_plane c) < 4294967296"
      "0 < pc_channel c" "0 < pc_package c" "0 < pc_die c" "0 < pc_plane c" "0 < pc_pageSize c"
    using assms(1) by (simp_all add: sizes_ok_def)
  have P: "prod_list (map (dim_size c) (filter (digit c) [1, 2, 4, 8])) =
      (if pc_superChannel c then 1 else pc_channel c) * (if pc_superPackage c then 1 else pc_package c) *
      (if pc_superDie c then 1 else pc_die c) * (if ?M then 1 else pc_plane c)"
    by (simp add: digit_def spans_def dim_size_def)
  have Q: "prod_list (map (dim_size c) (filter (swept c) [1, 2, 4, 8])) =
      (if pc_superChannel c then pc_channel c else 1) * (if pc_superPackage c then pc_package c else 1) *
      (if pc_superDie c then pc_die c else 1) * (if pc_superPlane c \<and> \<not> pc_multiPlane c then pc_plane c else 1)"
    by (simp add: swept_def spans_def dim_size_def)
  let ?a = "if pc_superChannel c then pc_channel c else 1" and ?b = "if pc_superPackage c then pc_package c else 1"
    and ?c = "if pc_superDie c then pc_die c else 1" and ?d = "if ?M then pc_plane c else 1"
  let ?a' = "if pc_superChannel c then 1 else pc_channel c" and ?b' = "if pc_superPackage c then 1 else pc_package c"
    and ?c' = "if pc_superDie c then 1 else pc_die c" and ?d' = "if ?M then 1 else pc_plane c"
  have w: "wrap32 x = x" if "x < 4294967296" for x using that by (simp add: wrap32_def)
  have A: "?a \<in> {1, pc_channel c}" "?b \<in> {1, pc_package c}" "?c \<in> {1, pc_die c}" "?d \<in> {1, pc_plane c}" by simp_all
  have A': "?a' \<in> {1, pc_channel c}" "?b' \<in> {1, pc_package c}" "?c' \<in> {1, pc_die c}" "?d' \<in> {1, pc_plane c}" by simp_all
  note b1 = scaled[OF s(1,3-6) A] and b2 = scaled[OF s(2,3-6) A']
  let ?ds = "[(pc_superChannel c, pc_channel c), (pc_superPackage c, pc_package c), (pc_superDie c, pc_die c), (?M, pc_plane c)]"
  have f1: "(if q then wrap32 (x * n) else x) = x * (if q then n else 1)" if "x * (if q then n else 1) < 4294967296" for q x n
    using that by (cases q) (simp_all add: w)
  have f2: "(if q then x else wrap32 (x * n)) = x * (if q then 1 else n)" if "x * (if q then 1 else n) < 4294967296" for q x n
    using that by (cases q) (simp_all add: w)
  have F1: "fold (\<lambda>(s, n) x. if s then wrap32 (x * n) else x) ?ds (pc_pageSize c) = pc_pageSize c * ?a * ?b * ?c * ?d"
    by (simp only: fold_simps comp_def id_apply prod.case f1[OF b1(1)] f1[OF b1(2)] f1[OF b1(3)] f1[OF b1(4)])
  have F2: "fold (\<lambda>(s, n) x. if s then x else wrap32 (x * n)) ?ds (pc_block c) = pc_block c * ?a' * ?b' * ?c' * ?d'"
    by (simp only: fold_simps comp_def id_apply prod.case f2[OF b2(1)] f2[OF b2(2)] f2[OF b2(3)] f2[OF b2(4)])
  have g: "pp_superBlock g = pc_block c * ?a' * ?b' * ?c' * ?d'" "pp_page g = pc_page c"
    "pp_pageInSuperPage g = pc_pageSize c * ?a * ?b * ?c * ?d div pc_pageSize c div (if pc_multiPlane c then pc_plane c else 1)"
    using assms(2) F1 F2 by (auto simp: pal_param_of_def Let_def res_simps simp del: fold_simps)
  have "pc_pageSize c * ?a * ?b * ?c * ?d div pc_pageSize c = ?a * ?b * ?c * ?d" using s(7) by (simp add: mult.assoc)
  moreover have "?a * ?b * ?c * ?d div (if pc_multiPlane c then pc_plane c else 1) = ?a * ?b * ?c * (if pc_superPlane c \<and> \<not> pc_multiPlane c then pc_plane c else 1)"
    using s(6) by simp
  ultimately have "pp_pageInSuperPage g = prod_list (map (dim_size c) (filter (swept c) [1, 2, 4, 8]))"
    by (simp only: g(3) Q)
  moreover have "pp_superBlock g = pc_block c * prod_list (map (dim_size c) (filter (digit c) [1, 2, 4, 8]))"
    by (simp only: g(1) P mult.assoc)
  ultimately show ?thesis using g(2) by blast
qed

text \<open>The settings the conversion reads agree with the geometry.\<close>

definition conf_ok :: "address_conf \<Rightarrow> pal_param \<Rightarrow> bool" where
  "conf_ok A g \<longleftrightarrow> sizes_ok (ac_pal A) \<and> pal_param_of (ac_pal A) = Inr g \<and> ac_pageInSuperPage A = pp_pageInSuperPage g \<and>
     distinct (allocation_order A) \<and> set (allocation_order A) = dims"

definition request_ok :: "address_conf \<Rightarrow> pal_param \<Rightarrow> pal_request \<Rightarrow> bool" where
  "request_ok A g req \<longleftrightarrow> p_blockIndex req < pp_superBlock g \<and> p_pageIndex req < pp_page g \<and>
     (ac_randomTweak A \<longrightarrow> bs_size (p_ioFlag req) = ac_pageInSuperPage A)"

definition in_array :: "pal_conf \<Rightarrow> cpdpbp \<Rightarrow> bool" where
  "in_array c x \<longleftrightarrow> (\<forall>i \<in> dims. get_dim i x < dim_size c i) \<and> ad_Block x < pc_block c \<and> ad_Page x < pc_page c"

lemma block_bound:
  assumes "conf_ok A g" "request_ok A g req"
  shows "p_blockIndex req < pc_block (ac_pal A) * prod_list (map (dim_size (ac_pal A)) (filter (digit (ac_pal A)) (allocation_order A)))
    \<and> p_blockIndex req < 4294967296 \<and> p_pageIndex req < pc_page (ac_pal A)"
proof -
  let ?c = "ac_pal A"
  have c: "sizes_ok ?c" "pal_param_of ?c = Inr g" "distinct (allocation_order A)" "set (allocation_order A) = dims"
    using assms(1) by (simp_all only: conf_ok_def)
  note pr = pal_param_products[OF c(1,2)]
  let ?f = "\<lambda>i. if digit ?c i then dim_size ?c i else 1"
  have q: "prod_list (map (dim_size ?c) (filter (digit ?c) (allocation_order A))) = prod_list (map (dim_size ?c) (filter (digit ?c) [1, 2, 4, 8]))"
    unfolding prod_if prod_dims[OF c(3,4)] by simp
  have b: "p_blockIndex req < pp_superBlock g" "p_pageIndex req < pp_page g" using assms(2) by (simp_all only: request_ok_def)
  have "?f 1 * ?f 2 * ?f 4 * ?f 8 \<le> pc_channel ?c * pc_package ?c * pc_die ?c * pc_plane ?c"
    by (intro mult_le_mono) (use c(1) in \<open>auto simp: sizes_ok_def dim_size_def\<close>)
  then have "pc_block ?c * (?f 1 * ?f 2 * ?f 4 * ?f 8) \<le> pc_block ?c * (pc_channel ?c * pc_package ?c * pc_die ?c * pc_plane ?c)"
    by (rule mult_le_mono2)
  moreover have "pp_superBlock g = pc_block ?c * (?f 1 * ?f 2 * ?f 4 * ?f 8)"
    using pr prod_dims[of "[1, 2, 4, 8]" ?f] unfolding prod_if by simp
  ultimately have "pp_superBlock g < 4294967296" using c(1) unfolding sizes_ok_def by linarith
  then show ?thesis using b pr q by simp
qed

lemma units_count:
  assumes "conf_ok A g"
  shows "length (offsets (map (\<lambda>i. (i, dim_size (ac_pal A) i)) (filter (swept (ac_pal A)) (allocation_order A)))) = ac_pageInSuperPage A"
proof -
  let ?c = "ac_pal A"
  have c: "sizes_ok ?c" "pal_param_of ?c = Inr g" "ac_pageInSuperPage A = pp_pageInSuperPage g" "distinct (allocation_order A)" "set (allocation_order A) = dims"
    using assms by (simp_all only: conf_ok_def)
  have q: "prod_list (map (dim_size ?c) (filter (swept ?c) (allocation_order A))) = prod_list (map (dim_size ?c) (filter (swept ?c) [1, 2, 4, 8]))"
    unfolding prod_if prod_dims[OF c(4,5)] by simp
  have "map snd (map (\<lambda>i. (i, dim_size ?c i)) xs) = map (dim_size ?c) xs" for xs by simp
  then show ?thesis using pal_param_products[OF c(1,2)] unfolding length_offsets c(3) q by (simp only: q)
qed

lemma convert_total:
  assumes "conf_ok A g" "request_ok A g req"
  shows "\<exists>l. convertCPDPBP A junk req = Inr l"
proof -
  let ?c = "ac_pal A" let ?ds = "map (\<lambda>i. (i, dim_size ?c i)) (filter (swept ?c) (allocation_order A))"
  have "\<forall>i \<in> dims. dim_size ?c i \<noteq> 0" using assms(1) sizes_pos unfolding conf_ok_def by (metis less_numeral_extra(3))
  from pick_dims_total[OF this, of "allocation_order A" "p_blockIndex req" "junk\<lparr>ad_Plane := 0\<rparr>" "[]"] obtain b r where
    p: "pick_dims ?c (allocation_order A) (p_blockIndex req) (junk\<lparr>ad_Plane := 0\<rparr>) [] = Inr (b, r, ?ds)" by (auto simp del: pick_dims.simps)
  obtain flag where f: "io_flags A (p_ioFlag req) = Inr flag" "bs_size flag = ac_pageInSuperPage A"
    using assms(2) unfolding io_flags_def request_ok_def
    by (cases "ac_randomTweak A"; cases "bs_size (p_ioFlag req) = ac_pageInSuperPage A") (simp_all add: bs_size_def)
  obtain l where "collect_units flag (r\<lparr>ad_Block := wrap32 b, ad_Page := p_pageIndex req\<rparr>) (offsets ?ds) = Inr l"
    using collect_units_total[of "offsets ?ds" flag] units_count[OF assms(1)] f(2) by (auto simp only: order_refl)
  then show ?thesis using p f(1) units_count[OF assms(1)] by (simp add: convertCPDPBP_def Let_def)
qed

lemma convert_in_array:
  assumes "conf_ok A g" "request_ok A g req" "convertCPDPBP A junk req = Inr l" "x \<in> set l"
  shows "in_array (ac_pal A) x"
proof -
  let ?c = "ac_pal A"
  have c: "sizes_ok ?c" "distinct (allocation_order A)" "set (allocation_order A) = dims" using assms(1) by (simp_all only: conf_ok_def)
  note b = block_bound[OF assms(1,2)]
  obtain b r es where e: "pick_dims ?c (allocation_order A) (p_blockIndex req) (junk\<lparr>ad_Plane := 0\<rparr>) [] = Inr (b, r, es)"
    "ad_Block x = b" "ad_Page x = p_pageIndex req" "\<forall>i \<in> dims. \<not> swept ?c i \<longrightarrow> get_dim i x = get_dim i r"
    "\<forall>i \<in> set (allocation_order A). swept ?c i \<longrightarrow> get_dim i x < dim_size ?c i"
    using convert_elem[OF assms(3) _ c(2) assms(4)] b by blast
  have "get_dim i x < dim_size ?c i" if i: "i \<in> dims" for i
  proof -
    consider "swept ?c i" | "digit ?c i" | "\<not> swept ?c i" "\<not> digit ?c i" by blast
    then show ?thesis
    proof cases
      case 1
      then show ?thesis using e(5) i c(3) by blast
    next
      case 2
      then have "get_dim i x = get_dim i r" using e(4) i digit_swept by blast
      then show ?thesis using pick_dims_digit[OF e(1) _ 2 c(2)] i c(3) by simp
    next
      case 3
      then have "i = INDEX_PLANE" using i by (simp only: swept_def digit_def) blast
      moreover have "get_dim i x = get_dim i (junk\<lparr>ad_Plane := 0\<rparr>)" using bspec[OF e(4) i] 3(1) pick_dims_still[OF e(1) i 3(2)] by (simp only: not_False_eq_True simp_thms)
      ultimately have "get_dim i x = 0" by (simp add: get_dim_def)
      then show ?thesis using sizes_pos[OF c(1) i] by simp
    qed
  qed
  moreover have "b < pc_block ?c" using pick_dims_block[OF e(1)] b by blast
  ultimately show ?thesis using e(2,3) b by (simp only: in_array_def) blast
qed

lemma pair_bound: "a < n \<Longrightarrow> b < m \<Longrightarrow> a + n * b < n * (m::nat)"
proof -
  assume a: "a < n" and "b < m"
  then have "n * Suc b \<le> n * m" by (intro mult_le_mono2) simp
  then show ?thesis using a by simp
qed

lemma die_count:
  assumes "sizes_ok c"
  shows "pc_channel c * pc_package c * pc_die c < 4294967296"
proof -
  have "pc_pageSize c * (pc_channel c * pc_package c * pc_die c * pc_plane c) < 4294967296" "0 < pc_pageSize c" "0 < pc_plane c"
    using assms by (simp_all add: sizes_ok_def)
  moreover have "pc_channel c * pc_package c * pc_die c * 1 \<le> pc_channel c * pc_package c * pc_die c * pc_plane c"
    "1 * (pc_channel c * pc_package c * pc_die c * pc_plane c) \<le> pc_pageSize c * (pc_channel c * pc_package c * pc_die c * pc_plane c)"
    by (intro mult_le_mono; use assms in \<open>simp add: sizes_ok_def\<close>)+
  ultimately show ?thesis by linarith
qed

lemma die_index_bound:
  assumes "sizes_ok c" "in_array c x"
  shows "CPDPBPtoDieIdx c x = ad_Die x + pc_die c * (ad_Package x + pc_package c * ad_Channel x) \<and>
    CPDPBPtoDieIdx c x < pc_channel c * pc_package c * pc_die c"
proof -
  have d: "ad_Channel x < pc_channel c" "ad_Package x < pc_package c" "ad_Die x < pc_die c"
    using assms(2) by (auto simp: in_array_def get_dim_def dim_size_def)
  let ?n = "ad_Die x + pc_die c * (ad_Package x + pc_package c * ad_Channel x)"
  have "ad_Package x + pc_package c * ad_Channel x < pc_package c * pc_channel c"
    by (rule pair_bound[OF d(2,1)])
  then have n: "?n < pc_die c * (pc_package c * pc_channel c)" by (rule pair_bound[OF d(3)])
  have "pc_channel c * pc_package c * pc_die c < 4294967296" by (rule die_count[OF assms(1)])
  then have lt: "?n < 4294967296" using n by (simp add: ac_simps)
  have s: "?n = ad_Die x + ad_Package x * pc_die c + ad_Channel x * pc_die c * pc_package c" by (simp add: algebra_simps)
  have "ad_Channel x * pc_die c * 1 \<le> ad_Channel x * pc_die c * pc_package c" using d(2) by (intro mult_le_mono2) simp
  then have "ad_Package x * pc_die c < 4294967296" "ad_Channel x * pc_die c < 4294967296" "ad_Channel x * pc_die c * pc_package c < 4294967296"
    using lt unfolding s by linarith+
  then have "wrap32 (ad_Package x * pc_die c) = ad_Package x * pc_die c" "wrap32 (ad_Channel x * pc_die c) = ad_Channel x * pc_die c"
    "wrap32 (ad_Channel x * pc_die c * pc_package c) = ad_Channel x * pc_die c * pc_package c" by (simp_all only: wrap32_def mod_less)
  then show ?thesis using lt n by (simp add: CPDPBPtoDieIdx_def wrap32_def algebra_simps)
qed

lemma convert_full:
  assumes "conf_ok A g" "convertCPDPBP A junk req = Inr l" "request_ok A g req"
    "bs_size (p_ioFlag req) = ac_pageInSuperPage A" "\<forall>k < ac_pageInSuperPage A. bs_test (p_ioFlag req) k"
  shows "length l = ac_pageInSuperPage A"
proof -
  let ?oss = "offsets (map (\<lambda>i. (i, dim_size (ac_pal A) i)) (filter (swept (ac_pal A)) (allocation_order A)))"
  have lt: "p_blockIndex req < 4294967296" using block_bound[OF assms(1,3)] by blast
  obtain a flag where l: "l = map (apply_offsets a \<circ> snd) (filter (bs_test flag \<circ> fst) (enumerate 0 ?oss))"
    and f: "io_flags A (p_ioFlag req) = Inr flag"
    using convert_parts[OF assms(2) lt] by blast
  have "flag = p_ioFlag req" using f assms(4) by (simp add: io_flags_def)
  moreover have "k < ac_pageInSuperPage A" if "(k, os) \<in> set (enumerate 0 ?oss)" for k os
    using that units_count[OF assms(1)] by (simp add: in_set_enumerate_eq)
  ultimately have "\<forall>y \<in> set (enumerate 0 ?oss). (bs_test flag \<circ> fst) y" using assms(5) by (auto simp del: in_set_enumerate_eq)
  then have "filter (bs_test flag \<circ> fst) (enumerate 0 ?oss) = enumerate 0 ?oss" by (rule filter_True)
  then have "length l = length (enumerate 0 ?oss)" unfolding l by (simp only: length_map)
  then show ?thesis using units_count[OF assms(1)] by simp
qed

lemma convert_exact:
  assumes "conf_ok A g" "request_ok A g q" "request_ok A g q'"
  shows "\<exists>l l'. convertCPDPBP A junk q = Inr l \<and> convertCPDPBP A junk' q' = Inr l' \<and> distinct l \<and>
    (\<forall>x \<in> set l. ad_Channel x < pc_channel (ac_pal A) \<and> ad_Package x < pc_package (ac_pal A) \<and> ad_Die x < pc_die (ac_pal A) \<and>
       ad_Plane x < pc_plane (ac_pal A) \<and> ad_Block x < pc_block (ac_pal A) \<and> ad_Page x < pc_page (ac_pal A)) \<and>
    (bs_size (p_ioFlag q) = ac_pageInSuperPage A \<and> (\<forall>k < ac_pageInSuperPage A. bs_test (p_ioFlag q) k) \<longrightarrow> length l = ac_pageInSuperPage A) \<and>
    ((p_blockIndex q, p_pageIndex q) \<noteq> (p_blockIndex q', p_pageIndex q') \<longrightarrow> set l \<inter> set l' = {})"
proof -
  obtain l l' where l: "convertCPDPBP A junk q = Inr l" "convertCPDPBP A junk' q' = Inr l'"
    using convert_total[OF assms(1,2)] convert_total[OF assms(1,3)] by blast
  have d: "distinct (allocation_order A)" using assms(1) by (simp only: conf_ok_def)
  have b: "p_blockIndex q < 4294967296" "p_blockIndex q' < 4294967296" using block_bound[OF assms(1,2)] block_bound[OF assms(1,3)] by blast+
  have i: "ad_Channel x < pc_channel (ac_pal A) \<and> ad_Package x < pc_package (ac_pal A) \<and> ad_Die x < pc_die (ac_pal A) \<and>
       ad_Plane x < pc_plane (ac_pal A) \<and> ad_Block x < pc_block (ac_pal A) \<and> ad_Page x < pc_page (ac_pal A)" if "x \<in> set l" for x
    using convert_in_array[OF assms(1,2) l(1) that] by (auto simp: in_array_def get_dim_def dim_size_def)
  have "set l \<inter> set l' = {}" if "(p_blockIndex q, p_pageIndex q) \<noteq> (p_blockIndex q', p_pageIndex q')"
    using convert_disjoint[OF l _ _ b d] that by blast
  then show ?thesis using l i convert_distinct[OF l(1) b(1) d] convert_full[OF assms(1) l(1) assms(2)] by blast
qed

end
