(* ===== verification/PalHistory.thy ===== *)
theory PalHistory
  imports PalStack
begin

text \<open>
  \<open>pal/pal_old.cc\<close>: the device around the scheduler.  \<open>pd_log\<close> are the calls of
  \<open>PALStatistics::AddLatency\<close>: the channel, the die and the three intervals of every scheduled operation.
\<close>

section \<open>The device\<close>

record pal_dev =
  pd_pal :: pal2
  pd_reads :: nat
  pd_writes :: nat
  pd_erases :: nat
  pd_log :: pal_log

definition PALOLD_new :: "pal2_conf \<Rightarrow> pal_dev res" where
  "PALOLD_new c = rbind (pal2_new c) (\<lambda>p. Inr \<lparr>pd_pal = p, pd_reads = 0, pd_writes = 0, pd_erases = 0, pd_log = []\<rparr>)"

definition count_oper :: "pal_oper \<Rightarrow> pal_dev \<Rightarrow> pal_dev" where
  "count_oper oper d = (case oper of OPER_READ \<Rightarrow> d\<lparr>pd_reads := pd_reads d + 1\<rparr>
     | OPER_WRITE \<Rightarrow> d\<lparr>pd_writes := pd_writes d + 1\<rparr> | OPER_ERASE \<Rightarrow> d\<lparr>pd_erases := pd_erases d + 1\<rparr>)"

text \<open>\<open>pal->submit\<close> of one address; the result is \<open>cmd.finished\<close>.\<close>

definition pal_submit :: "pal2_conf \<Rightarrow> pal_conf \<Rightarrow> pal_oper \<Rightarrow> nat \<Rightarrow> cpdpbp \<Rightarrow> pal_dev \<Rightarrow> (nat \<times> pal_dev) res" where
  "pal_submit c g oper arrived x d =
     rbind (TimelineScheduling c oper (ad_Channel x) (CPDPBPtoDieIdx g x) (ad_Page x) arrived (pd_pal d)) (\<lambda>(ts, p).
     Inr (snd (ts_dma1 ts), count_oper oper (d\<lparr>pd_pal := p, pd_log := pd_log d @ [(ad_Channel x, CPDPBPtoDieIdx g x, ts)]\<rparr>)))"

definition submit_units :: "pal2_conf \<Rightarrow> pal_conf \<Rightarrow> pal_oper \<Rightarrow> nat \<Rightarrow> cpdpbp list \<Rightarrow> nat \<times> pal_dev \<Rightarrow> (nat \<times> pal_dev) res" where
  "submit_units c g oper tick = rfold (\<lambda>x (finishedAt, d).
     rbind (pal_submit c g oper tick x d) (\<lambda>(t, d). Inr (if t < finishedAt then finishedAt else t, d)))"

definition pal_io :: "pal2_conf \<Rightarrow> address_conf \<Rightarrow> cpdpbp \<Rightarrow> pal_oper \<Rightarrow> pal_request \<Rightarrow> nat \<Rightarrow> pal_dev \<Rightarrow> (nat \<times> pal_dev) res" where
  "pal_io c A junk oper req tick d =
     rbind (convertCPDPBP A junk req) (\<lambda>l. submit_units c (ac_pal A) oper tick l (tick, d))"

text \<open>The periodic event: it comes again after \<open>FLUSH_PERIOD\<close>.\<close>

definition flushFunction :: "nat \<Rightarrow> pal_dev \<Rightarrow> nat \<times> pal_dev" where
  "flushFunction tick d =
     (let now = wrap64 (tick + 18446744073709551616 - 10000000000) in
      (tick + 100000000000, d\<lparr>pd_pal := FlushTimeSlots now (FlushFreeSlots now (pd_pal d))\<rparr>))"

text \<open>The calls of the layers above, and the event.\<close>

datatype pal_call = PalIo pal_oper pal_request nat | PalDirect pal_oper cpdpbp nat | PalFlush nat

definition pal_step :: "pal2_conf \<Rightarrow> address_conf \<Rightarrow> cpdpbp \<Rightarrow> pal_call \<Rightarrow> pal_dev \<Rightarrow> pal_dev res" where
  "pal_step c A junk call d = (case call of
     PalIo oper req tick \<Rightarrow> rbind (pal_io c A junk oper req tick d) (\<lambda>(t, d). Inr d)
   | PalDirect oper x tick \<Rightarrow> rbind (pal_submit c (ac_pal A) oper tick x d) (\<lambda>(t, d). Inr d)
   | PalFlush tick \<Rightarrow> Inr (snd (flushFunction tick d)))"

section \<open>Construction\<close>

lemma buckets_ok:
  assumes "ks \<noteq> []" "0 \<notin> set ks"
  shows "table_ok (buckets ks) 0"
proof -
  have ins: "snd ` set (map_insert k [] T) \<subseteq> {[]} \<and> sorted (map fst (map_insert k [] T)) \<and> distinct (map fst (map_insert k [] T)) \<and>
      fst ` set (map_insert k [] T) = insert k (fst ` set T)"
    if "snd ` set T \<subseteq> {[]}" "sorted (map fst T)" "distinct (map fst T)" for k and T :: table
  proof (cases "k \<in> fst ` set T")
    case True
    then have "map_insert k [] T = T" using that(2) by (induction T) auto
    then show ?thesis using that True by auto
  next
    case False
    then show ?thesis using map_insert_props[of T k "[]"] that by auto
  qed
  have "snd ` set (fold (\<lambda>k. map_insert k []) ks T) \<subseteq> {[]} \<and> sorted (map fst (fold (\<lambda>k. map_insert k []) ks T)) \<and>
      distinct (map fst (fold (\<lambda>k. map_insert k []) ks T)) \<and> fst ` set (fold (\<lambda>k. map_insert k []) ks T) = set ks \<union> fst ` set T"
    if "snd ` set T \<subseteq> {[]}" "sorted (map fst T)" "distinct (map fst T)" for T :: table
    using that
  proof (induction ks arbitrary: T)
    case (Cons k ks)
    note i = ins[OF Cons.prems, of k]
    from Cons.IH[of "map_insert k [] T"] i show ?case by simp
  qed simp
  from this[of "[]"] have b: "snd ` set (buckets ks) \<subseteq> {[]}" "sorted (map fst (buckets ks))" "distinct (map fst (buckets ks))" "fst ` set (buckets ks) = set ks"
    by (simp_all add: buckets_def)
  have e: "snd e = []" "0 < fst e" if "e \<in> set (buckets ks)" for e
  proof -
    show "snd e = []" using b(1) that by blast
    have "fst e \<in> set ks" using b(4) that by blast
    then show "0 < fst e" using assms(2) by (metis gr0I)
  qed
  have "buckets ks \<noteq> []" using b(4) assms(1) by auto
  moreover have "slots_of (buckets ks) = {}" using e(1) by (simp add: slots_of_def)
  ultimately show ?thesis using b(2,3) e by (simp add: table_ok_def filed_def disjoint_slots_def)
qed

text \<open>The bucket sizes of the channels are positive unless the interface is very fast.\<close>

definition keys_positive :: "pal2_conf \<Rightarrow> bool" where
  "keys_positive c \<longleftrightarrow> 0 \<notin> set (channel_keys (qc_dmaSpeed c div 50) (16384 div qc_pageSize c))"

lemma pal2_new_ok:
  assumes "pal2_new c = Inr p" "keys_positive c"
  shows "pal2_inv p [] \<and> length (p2_ch p) = qc_channel c \<and> length (p2_die p) = wrap32 (qc_channel c * qc_package c * qc_die c)"
proof -
  let ?s = "qc_dmaSpeed c div 50" and ?g = "16384 div qc_pageSize c"
  have p: "p2_ch p = replicate (qc_channel c) (buckets (channel_keys ?s ?g), 0)"
    "p2_die p = replicate (wrap32 (qc_channel c * qc_package c * qc_die c)) (buckets (die_keys (qc_type c) ?s), 0)" "p2_merged p = []"
    using assms(1) by (auto simp: pal2_new_def res_simps Let_def)
  have "table_ok (buckets (channel_keys ?s ?g)) 0"
    using assms(2) unfolding keys_positive_def by (rule buckets_ok[rotated]) (simp add: channel_keys_def)
  moreover have "table_ok (buckets (die_keys (qc_type c) ?s)) 0"
    by (intro buckets_ok) (cases "qc_type c"; simp add: die_keys_def)+
  ultimately show ?thesis by (auto simp: pal2_inv_def p)
qed

section \<open>Histories\<close>

text \<open>The scheduler and the address conversion are set up for the same array.\<close>

definition device_conf :: "pal2_conf \<Rightarrow> address_conf \<Rightarrow> pal_param \<Rightarrow> bool" where
  "device_conf c A g \<longleftrightarrow> conf_ok A g \<and> busy_positive c \<and> keys_positive c \<and>
     qc_channel c = pc_channel (ac_pal A) \<and> qc_package c = pc_package (ac_pal A) \<and> qc_die c = pc_die (ac_pal A)"

definition dev_inv :: "pal2_conf \<Rightarrow> pal_dev \<Rightarrow> bool" where
  "dev_inv c d \<longleftrightarrow> pal2_inv (pd_pal d) (pd_log d) \<and> length (p2_ch (pd_pal d)) = qc_channel c \<and>
     length (p2_die (pd_pal d)) = qc_channel c * qc_package c * qc_die c \<and>
     length (pd_log d) = pd_reads d + pd_writes d + pd_erases d"

definition call_ok :: "address_conf \<Rightarrow> pal_param \<Rightarrow> pal_call \<Rightarrow> bool" where
  "call_ok A g call = (case call of PalIo oper req tick \<Rightarrow> request_ok A g req
     | PalDirect oper x tick \<Rightarrow> in_array (ac_pal A) x | PalFlush tick \<Rightarrow> True)"

text \<open>What one operation is granted.\<close>

definition served :: "pal2_conf \<Rightarrow> pal_oper \<Rightarrow> nat \<Rightarrow> nat \<Rightarrow> busy_slots \<Rightarrow> bool" where
  "served c oper page tick ts \<longleftrightarrow> granted (GetLatency (qc_type c) (qc_timing c) page oper BUSY_DMA0)
     (GetLatency (qc_type c) (qc_timing c) page oper BUSY_MEM) (GetLatency (qc_type c) (qc_timing c) page oper BUSY_DMA1) tick ts"

lemma count_oper_keeps [simp]: "pd_pal (count_oper oper d) = pd_pal d" "pd_log (count_oper oper d) = pd_log d"
  "pd_reads (count_oper oper d) + pd_writes (count_oper oper d) + pd_erases (count_oper oper d) = Suc (pd_reads d + pd_writes d + pd_erases d)"
  by (cases oper; simp add: count_oper_def)+

lemma PALOLD_new_ok:
  assumes "PALOLD_new c = Inr d" "device_conf c A g"
  shows "dev_inv c d"
proof -
  obtain p where p: "pal2_new c = Inr p" "d = \<lparr>pd_pal = p, pd_reads = 0, pd_writes = 0, pd_erases = 0, pd_log = []\<rparr>"
    using assms(1) by (auto simp: PALOLD_new_def res_simps)
  have q: "sizes_ok (ac_pal A)" "keys_positive c" "qc_channel c = pc_channel (ac_pal A)" "qc_package c = pc_package (ac_pal A)" "qc_die c = pc_die (ac_pal A)"
    using assms(2) by (simp_all add: device_conf_def conf_ok_def)
  have "qc_channel c * qc_package c * qc_die c < 4294967296" using q die_count by simp
  then have "wrap32 (qc_channel c * qc_package c * qc_die c) = qc_channel c * qc_package c * qc_die c" by (simp only: wrap32_def mod_less)
  then show ?thesis using pal2_new_ok[OF p(1) q(2)] p(2) by (simp add: dev_inv_def)
qed

lemma pal_submit_ok:
  assumes "device_conf c A g" "dev_inv c d" "in_array (ac_pal A) x"
  shows "\<exists>ts d'. pal_submit c (ac_pal A) oper tick x d = Inr (snd (ts_dma1 ts), d') \<and> dev_inv c d' \<and>
    pd_log d' = pd_log d @ [(ad_Channel x, CPDPBPtoDieIdx (ac_pal A) x, ts)] \<and> served c oper (ad_Page x) tick ts"
proof -
  have q: "sizes_ok (ac_pal A)" "busy_positive c" "qc_channel c = pc_channel (ac_pal A)" "qc_package c = pc_package (ac_pal A)" "qc_die c = pc_die (ac_pal A)"
    using assms(1) by (simp_all add: device_conf_def conf_ok_def)
  have i: "pal2_inv (pd_pal d) (pd_log d)" "length (p2_ch (pd_pal d)) = qc_channel c" "length (p2_die (pd_pal d)) = qc_channel c * qc_package c * qc_die c"
    "length (pd_log d) = pd_reads d + pd_writes d + pd_erases d"
    using assms(2) by (simp_all only: dev_inv_def)
  have ch: "ad_Channel x < length (p2_ch (pd_pal d))" using assms(3) i(2) q(3) by (auto simp: in_array_def get_dim_def dim_size_def)
  have di: "CPDPBPtoDieIdx (ac_pal A) x < length (p2_die (pd_pal d))" using die_index_bound[OF q(1) assms(3)] unfolding i(3) q(3-5) by (rule conjunct2)
  obtain ts p' where t: "TimelineScheduling c oper (ad_Channel x) (CPDPBPtoDieIdx (ac_pal A) x) (ad_Page x) tick (pd_pal d) = Inr (ts, p')"
    "pal2_inv p' (pd_log d @ [(ad_Channel x, CPDPBPtoDieIdx (ac_pal A) x, ts)])" "length (p2_ch p') = length (p2_ch (pd_pal d))"
    "length (p2_die p') = length (p2_die (pd_pal d))" "served c oper (ad_Page x) tick ts"
    using TimelineScheduling_ok[OF i(1) q(2) ch di, of oper "ad_Page x" tick] unfolding served_def by blast
  let ?d = "count_oper oper (d\<lparr>pd_pal := p', pd_log := pd_log d @ [(ad_Channel x, CPDPBPtoDieIdx (ac_pal A) x, ts)]\<rparr>)"
  have "pal_submit c (ac_pal A) oper tick x d = Inr (snd (ts_dma1 ts), ?d)" by (simp add: pal_submit_def t(1))
  moreover have "dev_inv c ?d" using t(2-4) i by (simp add: dev_inv_def)
  ultimately show ?thesis using t(5) by (intro exI[of _ ts] exI[of _ ?d]) simp
qed

text \<open>The units of a super-page, all from the same tick.\<close>

lemma submit_units_ok:
  assumes "device_conf c A g" "dev_inv c d" "\<forall>x \<in> set xs. in_array (ac_pal A) x"
  shows "\<exists>tss d'. submit_units c (ac_pal A) oper tick xs (f, d) = Inr (fold (\<lambda>ts t. max t (snd (ts_dma1 ts))) tss f, d') \<and> dev_inv c d' \<and>
    length tss = length xs \<and> pd_log d' = pd_log d @ map (\<lambda>(x, ts). (ad_Channel x, CPDPBPtoDieIdx (ac_pal A) x, ts)) (zip xs tss) \<and>
    (\<forall>(x, ts) \<in> set (zip xs tss). served c oper (ad_Page x) tick ts)"
  using assms(2,3)
proof (induction xs arbitrary: f d)
  case Nil
  then show ?case by (intro exI[of _ "[]"] exI[of _ d]) (simp add: submit_units_def)
next
  case (Cons x xs)
  obtain ts d1 where s: "pal_submit c (ac_pal A) oper tick x d = Inr (snd (ts_dma1 ts), d1)" "dev_inv c d1"
    "pd_log d1 = pd_log d @ [(ad_Channel x, CPDPBPtoDieIdx (ac_pal A) x, ts)]" "served c oper (ad_Page x) tick ts"
    using pal_submit_ok[OF assms(1) Cons.prems(1), of x oper tick] Cons.prems(2) by auto
  have fin: "(if snd (ts_dma1 ts) < f then f else snd (ts_dma1 ts)) = max f (snd (ts_dma1 ts))" by (simp add: max_def)
  obtain tss d' where r: "submit_units c (ac_pal A) oper tick xs (max f (snd (ts_dma1 ts)), d1) =
      Inr (fold (\<lambda>ts t. max t (snd (ts_dma1 ts))) tss (max f (snd (ts_dma1 ts))), d')" "dev_inv c d'"
    "length tss = length xs" "pd_log d' = pd_log d1 @ map (\<lambda>(x, ts). (ad_Channel x, CPDPBPtoDieIdx (ac_pal A) x, ts)) (zip xs tss)"
    "\<forall>(x, ts) \<in> set (zip xs tss). served c oper (ad_Page x) tick ts"
    using Cons.IH[OF s(2), of "max f (snd (ts_dma1 ts))"] Cons.prems(2) by (auto simp del: fold_simps)
  have "submit_units c (ac_pal A) oper tick (x # xs) (f, d) = submit_units c (ac_pal A) oper tick xs (max f (snd (ts_dma1 ts)), d1)"
    by (simp add: submit_units_def s(1) fin)
  then show ?case using r s(3,4) by (intro exI[of _ "ts # tss"] exI[of _ d']) simp
qed

lemma pal_io_ok:
  assumes "device_conf c A g" "dev_inv c d" "request_ok A g req"
  shows "\<exists>xs tss d'. convertCPDPBP A junk req = Inr xs \<and> length tss = length xs \<and>
    pal_io c A junk oper req tick d = Inr (fold (\<lambda>ts t. max t (snd (ts_dma1 ts))) tss tick, d') \<and> dev_inv c d' \<and>
    pd_log d' = pd_log d @ map (\<lambda>(x, ts). (ad_Channel x, CPDPBPtoDieIdx (ac_pal A) x, ts)) (zip xs tss) \<and>
    (\<forall>(x, ts) \<in> set (zip xs tss). served c oper (ad_Page x) tick ts)"
proof -
  have A: "conf_ok A g" using assms(1) by (simp add: device_conf_def)
  obtain xs where x: "convertCPDPBP A junk req = Inr xs" using convert_total[OF A assms(3)] by blast
  then have "\<forall>x \<in> set xs. in_array (ac_pal A) x" using convert_in_array[OF A assms(3)] by blast
  from submit_units_ok[OF assms(1,2) this, of oper tick tick] obtain tss d' where
    "submit_units c (ac_pal A) oper tick xs (tick, d) = Inr (fold (\<lambda>ts t. max t (snd (ts_dma1 ts))) tss tick, d') \<and> dev_inv c d' \<and>
    length tss = length xs \<and> pd_log d' = pd_log d @ map (\<lambda>(x, ts). (ad_Channel x, CPDPBPtoDieIdx (ac_pal A) x, ts)) (zip xs tss) \<and>
    (\<forall>(x, ts) \<in> set (zip xs tss). served c oper (ad_Page x) tick ts)" by (elim exE)
  then show ?thesis using x by (intro exI[of _ xs] exI[of _ tss] exI[of _ d']) (simp add: pal_io_def)
qed

lemma FlushTimeSlots_inv: "pal2_inv p l \<Longrightarrow> pal2_inv (FlushTimeSlots now p) l"
  using FlushTimeSlots_keeps[of now p] by (simp add: pal2_inv_def)

lemma flushFunction_ok:
  assumes "dev_inv c d"
  shows "dev_inv c (snd (flushFunction tick d)) \<and> pd_log (snd (flushFunction tick d)) = pd_log d"
proof -
  define now where "now = wrap64 (tick + 18446744073709551616 - 10000000000)"
  define q where "q = FlushFreeSlots now (pd_pal d)"
  have f: "snd (flushFunction tick d) = d\<lparr>pd_pal := FlushTimeSlots now q\<rparr>" by (simp only: flushFunction_def Let_def snd_conv now_def q_def)
  have i: "pal2_inv (pd_pal d) (pd_log d)" using assms by (simp add: dev_inv_def)
  have "pal2_inv q (pd_log d) \<and> length (p2_ch q) = length (p2_ch (pd_pal d)) \<and> length (p2_die q) = length (p2_die (pd_pal d))"
    unfolding q_def by (rule FlushFreeSlots_ok[OF i])
  then show ?thesis using FlushTimeSlots_inv[of q "pd_log d" now] FlushTimeSlots_keeps[of now q] assms unfolding f by (simp add: dev_inv_def)
qed

lemma pal_step_ok:
  assumes "device_conf c A g" "dev_inv c d" "call_ok A g call"
  shows "\<exists>d'. pal_step c A junk call d = Inr d' \<and> dev_inv c d'"
proof (cases call)
  case (PalIo oper req tick)
  then show ?thesis using pal_io_ok[OF assms(1,2), of req junk oper tick] assms(3) by (auto simp: pal_step_def call_ok_def)
next
  case (PalDirect oper x tick)
  then show ?thesis using pal_submit_ok[OF assms(1,2), of x oper tick] assms(3) by (auto simp: pal_step_def call_ok_def)
next
  case (PalFlush tick)
  then show ?thesis using flushFunction_ok[OF assms(2), of tick] by (simp add: pal_step_def)
qed

lemma pal_history_ok:
  assumes "device_conf c A g" "PALOLD_new c = Inr d" "\<forall>call \<in> set calls. call_ok A g call"
  shows "\<exists>d'. rfold (pal_step c A junk) calls d = Inr d' \<and> dev_inv c d'"
  by (rule rfold_total[where P = "dev_inv c"]) (use PALOLD_new_ok[OF assms(2,1)] pal_step_ok[OF assms(1)] assms(3) in auto)

lemma log_apart:
  assumes "dev_inv c d"
  shows "length (pd_log d) = pd_reads d + pd_writes d + pd_erases d \<and>
    (\<forall>i j ch die ts ch' die' ts'. i < j \<longrightarrow> j < length (pd_log d) \<longrightarrow> pd_log d ! i = (ch, die, ts) \<longrightarrow> pd_log d ! j = (ch', die', ts') \<longrightarrow>
       (ch < qc_channel c \<and> ch = ch' \<longrightarrow> (ticks (ts_dma0 ts) \<union> ticks (ts_dma1 ts)) \<inter> (ticks (ts_dma0 ts') \<union> ticks (ts_dma1 ts')) = {}) \<and>
       (die < qc_channel c * qc_package c * qc_die c \<and> die = die' \<longrightarrow> ticks (ts_mem ts) \<inter> ticks (ts_mem ts') = {}))"
proof -
  have i: "pal2_inv (pd_pal d) (pd_log d)" "length (p2_ch (pd_pal d)) = qc_channel c"
    "length (p2_die (pd_pal d)) = qc_channel c * qc_package c * qc_die c" "length (pd_log d) = pd_reads d + pd_writes d + pd_erases d"
    using assms by (simp_all only: dev_inv_def)
  have ap: "f (l ! i) \<inter> f (l ! j) = {}" if "apart f l" "i < j" "j < length l" for f :: "nat \<times> nat \<times> busy_slots \<Rightarrow> nat set" and l i j
    using that sorted_wrt_nth_less[of "\<lambda>x y. f x \<inter> f y = {}" l i j] by (simp add: apart_def)
  have A: "(ticks (ts_dma0 ts) \<union> ticks (ts_dma1 ts)) \<inter> (ticks (ts_dma0 ts') \<union> ticks (ts_dma1 ts')) = {}"
    if "i < j" "j < length (pd_log d)" "pd_log d ! i = (ch, die, ts)" "pd_log d ! j = (ch, die', ts')" "ch < qc_channel c" for i j ch die die' ts ts'
  proof -
    have "apart (channel_busy ch) (pd_log d)" using i(1,2) that(5) by (simp add: pal2_inv_def)
    from ap[OF this that(1,2)] show ?thesis by (simp add: that(3,4) channel_busy_def)
  qed
  have B: "ticks (ts_mem ts) \<inter> ticks (ts_mem ts') = {}"
    if "i < j" "j < length (pd_log d)" "pd_log d ! i = (ch, die, ts)" "pd_log d ! j = (ch', die, ts')" "die < qc_channel c * qc_package c * qc_die c"
    for i j ch ch' die ts ts'
  proof -
    have "apart (die_busy die) (pd_log d)" using i(1,3) that(5) by (simp add: pal2_inv_def)
    from ap[OF this that(1,2)] show ?thesis by (simp add: that(3,4) die_busy_def)
  qed
  show ?thesis
    by (intro conjI[OF i(4)] allI impI conjI; elim conjE; hypsubst) (rule A, assumption+, rule B, assumption+)
qed

lemma pal_io_served:
  assumes "device_conf c A g" "dev_inv c d" "request_ok A g req"
  shows "\<exists>xs tss d'. convertCPDPBP A junk req = Inr xs \<and> length tss = length xs \<and>
    pal_io c A junk oper req tick d = Inr (fold (\<lambda>ts t. max t (snd (ts_dma1 ts))) tss tick, d') \<and> dev_inv c d' \<and>
    pd_log d' = pd_log d @ map (\<lambda>(x, ts). (ad_Channel x, CPDPBPtoDieIdx (ac_pal A) x, ts)) (zip xs tss) \<and>
    (\<forall>(x, ts) \<in> set (zip xs tss). let lat = GetLatency (qc_type c) (qc_timing c) (ad_Page x) oper in
       tick \<le> fst (ts_dma0 ts) \<and> snd (ts_dma0 ts) + 1 = fst (ts_dma0 ts) + lat BUSY_DMA0 \<and>
       snd (ts_dma0 ts) + lat BUSY_MEM < fst (ts_dma1 ts) \<and> snd (ts_dma1 ts) + 1 = fst (ts_dma1 ts) + lat BUSY_DMA1)"
proof -
  obtain xs tss d' where r: "convertCPDPBP A junk req = Inr xs" "length tss = length xs"
    "pal_io c A junk oper req tick d = Inr (fold (\<lambda>ts t. max t (snd (ts_dma1 ts))) tss tick, d')" "dev_inv c d'"
    "pd_log d' = pd_log d @ map (\<lambda>(x, ts). (ad_Channel x, CPDPBPtoDieIdx (ac_pal A) x, ts)) (zip xs tss)"
    "\<forall>(x, ts) \<in> set (zip xs tss). served c oper (ad_Page x) tick ts"
    using pal_io_ok[OF assms, of junk oper tick] by (elim exE conjE)
  have "\<forall>(x, ts) \<in> set (zip xs tss). let lat = GetLatency (qc_type c) (qc_timing c) (ad_Page x) oper in
       tick \<le> fst (ts_dma0 ts) \<and> snd (ts_dma0 ts) + 1 = fst (ts_dma0 ts) + lat BUSY_DMA0 \<and>
       snd (ts_dma0 ts) + lat BUSY_MEM < fst (ts_dma1 ts) \<and> snd (ts_dma1 ts) + 1 = fst (ts_dma1 ts) + lat BUSY_DMA1"
    using r(6) by (auto simp: served_def granted_def Let_def)
  then show ?thesis using r(1-5) by (intro exI[of _ xs] exI[of _ tss] exI[of _ d'] conjI)
qed

end
