(* ===== verification/SsdServe.thy ===== *)
theory SsdServe
  imports SsdStack Dram PalHistory
begin

text \<open>
  A request on a quiet SSD, event by event: the client's, the end of the job on its core, the completion
  of the HIL.  Between them the periodic events of the layers below run.  The theorem \<open>serve_refines\<close>
  says that the whole run is one call of the ICL, with the state below as the periodic events leave it.
\<close>

abbreviation ssd_loop :: "'w ssd_low \<Rightarrow> ('c \<Rightarrow> nat \<Rightarrow> nat \<Rightarrow> 's \<Rightarrow> 's) \<Rightarrow>
    (nat \<Rightarrow> nat \<Rightarrow> engine \<times> ('c, 'w, 's) ssd \<Rightarrow> (engine \<times> ('c, 'w, 's) ssd) res) \<Rightarrow> ('s \<Rightarrow> bool) \<Rightarrow> nat \<Rightarrow>
    engine \<times> ('c, 'w, 's) ssd \<Rightarrow> (engine \<times> ('c, 'w, 's) ssd) res" where
  "ssd_loop L invoke client fin m \<equiv> runEvents m (ssd_event L invoke client) (\<lambda>S. fin (sd_client S))"

definition free_client :: "nat \<Rightarrow> engine \<times> ('c, 'w, 's) ssd \<Rightarrow> (engine \<times> ('c, 'w, 's) ssd) res" where
  "free_client sid = (\<lambda>(e, S). rbind (deallocateEvent sid e) (\<lambda>e. Inr (e, S)))"

lemma own_quiet: "ssd_quiet L (e, S) \<Longrightarrow> own_events L (S\<lparr>sd_client := s\<rparr>)"
  by (simp add: ssd_quiet_def own_events_def cores_idle_def)

lemma cores_idle_more: "cores_idle L e h cs \<Longrightarrow> set (en_list e) \<subseteq> set (en_list e') \<Longrightarrow> cores_idle L e' h cs"
  by (auto simp: cores_idle_def)

section \<open>The client's event\<close>

text \<open>The client's event is a new one.\<close>

lemma client_awaits:
  assumes "ssd_quiet L (e, S)"
  defines "sid \<equiv> Suc (en_counter e)"
  shows "\<exists>e0. (\<forall>m. ssd_serve L D invoke m prepare fin arrival (e, S) =
        rbind (ssd_loop L invoke (ssd_client_event L D prepare) fin m (e0, S)) (free_client sid)) \<and>
      awaits L sid (max (en_simTick e) arrival) e0 \<and> en_simTick e0 = en_simTick e \<and> en_list e0 = sid # en_list e \<and> en_counter e0 = sid"
proof -
  let ?e = "e\<lparr>en_counter := sid, en_list := sid # en_list e\<rparr>"
  have al: "allocateEvent e = (sid, ?e)" by (simp add: allocateEvent_def sid_def)
  have q: "rests L e" "\<forall>i \<in> set (sl_back L). i \<le> en_counter e" using assms(1) by (simp_all add: ssd_quiet_def)
  have "rests L ?e" using allocateEvent_ok[OF al] q(1) by (simp add: rests_def only_due_def)
  moreover have "sid \<notin> set (sl_back L)" using q(2) by (auto simp: sid_def)
  ultimately obtain e0 where e0: "scheduleEvent sid arrival ?e = Inr e0" "awaits L sid (max (en_simTick e) arrival) e0"
    "en_simTick e0 = en_simTick e" "en_list e0 = sid # en_list e" "en_counter e0 = sid"
    using schedule_awaits[of L ?e sid arrival] by auto
  then show ?thesis by (intro exI[of _ e0]) (simp add: ssd_serve_def al free_client_def)
qed

context timely_icl
begin

lemma client_phase:
  fixes S :: "('c, 'w, 's) ssd"
  assumes quiet: "ssd_quiet L (e, S)" and P: "P (sd_world S)" and nf: "\<not> fin (sd_client S)"
    and prep: "prepare (max (en_simTick e) arrival) (sd_client S) = (b, s1)" and req: "driver_request D b = Inr r"
  defines "T \<equiv> max (en_simTick e) arrival" and "i \<equiv> hil_inst (b_type b) (clockPeriod (sd_cpu S))" and "cs \<equiv> hilCore (sd_cpu S)"
    and "k \<equiv> leastBusyCPU (hilCore (sd_cpu S))" and "sid \<equiv> Suc (en_counter e)"
  shows "\<exists>n e1 w. (\<forall>m. ssd_serve L D invoke (n + Suc m) prepare fin arrival (e, S) =
        rbind (ssd_loop L invoke (ssd_client_event L D prepare) fin m (e1,
          S\<lparr>sd_world := w, sd_client := s1, sd_cpu := (sd_cpu S)\<lparr>hilCore := cs[k := hil_started (driver_job (b_type b) r) i T (cs ! k)]\<rparr>,
            sd_bil := snd (bil_submitIO T b (sd_bil S))\<rparr>)) (free_client sid)) \<and>
      back_steps L (en_simTick e) T (sd_world S) w \<and> awaits L (co_event (cs ! k)) (T + is_latency i) e1 \<and>
      en_simTick e1 = T \<and> en_list e1 = sid # en_list e \<and> en_counter e1 = sid"
proof -
  define fn where "fn = ssd_event L invoke (ssd_client_event L D prepare)"
  obtain e0 where serve: "\<forall>m. ssd_serve L D invoke m prepare fin arrival (e, S) =
        rbind (runEvents m fn (\<lambda>S. fin (sd_client S)) (e0, S)) (free_client sid)"
    and e0: "awaits L sid T e0" "en_simTick e0 = en_simTick e" "en_list e0 = sid # en_list e" "en_counter e0 = sid"
    using client_awaits[OF quiet, of D invoke prepare fin arrival] unfolding fn_def T_def sid_def by blast
  have own: "own_events L S" using own_quiet[OF quiet, of "sd_client S"] by simp
  obtain n e1 w where run: "\<forall>m. runEvents (n + Suc m) fn (\<lambda>S. fin (sd_client S)) (e0, S) =
        rbind (fn sid T (e1, S\<lparr>sd_world := w\<rparr>)) (\<lambda>(e, S). runEvents m fn (\<lambda>S. fin (sd_client S)) (handled e, S))"
    and w: "back_steps L (en_simTick e0) T (sd_world S) w"
    and e1: "rests L e1" "en_simTick e1 = T" "en_list e1 = en_list e0" "en_counter e1 = en_counter e0"
    using reach_event[where fin = fin, OF e0(1) own P nf fn_def refl] by blast
  let ?S = "S\<lparr>sd_world := w\<rparr>"
  have q: "cores_idle L e (sd_hil S) cs" "hl_event (sd_hil S) \<in> set (en_list e)" using quiet by (simp_all add: ssd_quiet_def cs_def)
  have "\<forall>x \<in> set (en_list e). x < sid" using quiet by (auto simp: ssd_quiet_def rests_def engine_inv_def sid_def le_imp_less_Suc)
  then have "sid \<noteq> hl_event (sd_hil S)" "find_core sid 0 cs = None"
    using q by (auto simp: cores_idle_def intro!: find_core_None)
  moreover have "sid \<notin> set (sl_back L)" using e0(1) by (simp add: awaits_def)
  ultimately have client: "fn sid T (e1, ?S) = ssd_submitIO L D b (e1, ?S\<lparr>sd_client := s1\<rparr>)"
    using prep by (simp add: fn_def ssd_event_def ssd_client_event_def e1(2) T_def cs_def)
  have ci: "cores_idle L e1 (sd_hil S) cs" by (rule cores_idle_more[OF q(1)]) (simp add: e1(3) e0(3) subset_insertI)
  have "k < length cs" unfolding k_def cs_def by (rule leastBusy_idle) (use q(1) in \<open>auto simp: cores_idle_def cs_def\<close>)
  then have core: "co_event (cs ! k) \<in> set (en_list e1)" "co_event (cs ! k) \<notin> set (sl_back L)" using ci by (simp_all add: cores_idle_def)
  obtain e2 where e2: "scheduleEvent (co_event (cs ! k)) (T + is_latency i) e1 = Inr e2" "awaits L (co_event (cs ! k)) (T + is_latency i) e2"
    "en_simTick e2 = T" "en_list e2 = en_list e1" "en_counter e2 = en_counter e1"
    using schedule_awaits[OF e1(1) core, of "T + is_latency i"] by (auto simp: e1(2) max_def)
  have kk: "leastBusyCPU cs = k" by (simp add: k_def cs_def)
  have "ssd_submitIO L D b (e1, ?S\<lparr>sd_client := s1\<rparr>) = Inr (e2, (?S\<lparr>sd_client := s1\<rparr>)\<lparr>sd_cpu :=
      (sd_cpu S)\<lparr>hilCore := cs[k := hil_started (driver_job (b_type b) r) i T (cs ! k)]\<rparr>, sd_bil := snd (bil_submitIO T b (sd_bil S))\<rparr>)"
    using submit_quiet[of L e1 "?S\<lparr>sd_client := s1\<rparr>" D b r e2] ci req e2(1) by (simp add: cs_def[symmetric] kk i_def[symmetric] e1(2))
  then show ?thesis using serve run client w e0 e1 e2 unfolding fn_def
    by (intro exI[of _ n] exI[of _ "handled e2"] exI[of _ w]) simp
qed

section \<open>The event of the core\<close>

lemma job_phase:
  fixes S :: "('c, 'w, 's) ssd"
  assumes aw: "awaits L (co_event (cs ! k)) T e" and ci: "cores_idle L e h cs" "k < length cs"
    and S: "hilCore (sd_cpu S) = cs[k := hil_started (driver_job ty r) i t (cs ! k)]" "sd_hil S = h"
    and P: "P (sd_world S)" and nf: "\<not> fin (sd_client S)"
    and h: "hl_queue h = []" "hl_lastScheduled h \<le> T" "hl_event h \<in> set (en_list e)" "hl_event h \<notin> set (sl_back L)"
  defines "op \<equiv> icl_op (sl_icl L) ty (r\<lparr>h_reqID := hl_reqCount h + 1\<rparr>) T"
  shows "\<exists>n w. back_steps L (en_simTick e) T (sd_world S) w \<and>
    (case op w of Inl f \<Rightarrow> \<forall>m. ssd_loop L invoke client fin (n + Suc m) (e, S) = Inl f
     | Inr (t2, w2) \<Rightarrow> T < t2 \<and> P w2 \<and> (\<exists>e1 st. (\<forall>m. ssd_loop L invoke client fin (n + Suc m) (e, S) =
          ssd_loop L invoke client fin m (e1, S\<lparr>sd_cpu := (sd_cpu S)\<lparr>hilCore := cs[k := hil_finished i (cs ! k)]\<rparr>,
            sd_hil := h\<lparr>hl_reqCount := hl_reqCount h + 1, hl_stat := st, hl_queue := [r\<lparr>h_reqID := hl_reqCount h + 1, h_finishedAt := t2\<rparr>],
                        hl_lastScheduled := t2\<rparr>, sd_world := w2\<rparr>)) \<and>
        awaits L (hl_event h) t2 e1 \<and> en_simTick e1 = T \<and> en_list e1 = en_list e \<and> en_counter e1 = en_counter e))"
proof -
  define fn where "fn = ssd_event L invoke client"
  have "\<forall>c \<in> set (hilCore (sd_cpu S)). co_event c \<notin> set (sl_back L)"
    by (rule core_events[OF ci(1)], rule disjI2, intro exI conjI, rule S(1)) (simp add: hil_started_def)
  then have own: "own_events L S" using h(4) S(2) by (simp add: own_events_def)
  obtain n e1 w where run: "\<forall>m. runEvents (n + Suc m) fn (\<lambda>S. fin (sd_client S)) (e, S) =
        rbind (fn (co_event (cs ! k)) T (e1, S\<lparr>sd_world := w\<rparr>)) (\<lambda>(e, S). runEvents m fn (\<lambda>S. fin (sd_client S)) (handled e, S))"
    and w: "back_steps L (en_simTick e) T (sd_world S) w"
    and e1: "rests L e1" "en_simTick e1 = T" "en_list e1 = en_list e" "en_counter e1 = en_counter e"
    using reach_event[where fin = fin, OF aw own P nf fn_def refl] by blast
  let ?S = "S\<lparr>sd_world := w\<rparr>"
  have ci1: "cores_idle L e1 h cs" by (rule cores_idle_more[OF ci(1)]) (simp add: e1(3))
  have S1: "hilCore (sd_cpu ?S) = cs[k := hil_started (driver_job ty r) i t (cs ! k)]" "sd_hil ?S = h" using S by simp_all
  show ?thesis
  proof (cases "op w")
    case (Inl f)
    then have "fn (co_event (cs ! k)) T (e1, ?S) = Inl f"
      using job_event_fault[OF ci1 ci(2) S1, of T f invoke client e1] unfolding fn_def op_def by simp
    then show ?thesis using w run Inl unfolding fn_def by (intro exI[of _ n] exI[of _ w]) simp
  next
    case (Inr x)
    obtain t2 w2 where x: "x = (t2, w2)" by (cases x)
    have op: "icl_op (sl_icl L) ty (r\<lparr>h_reqID := hl_reqCount h + 1\<rparr>) (en_simTick e1) (sd_world ?S) = Inr (t2, w2)"
      using Inr x by (simp add: op_def e1(2))
    have later: "P w2" "T < t2" using icl_later[OF op] back_keeps[OF w P] by (simp_all add: e1(2))
    obtain e2 where e2: "scheduleEvent (hl_event h) t2 e1 = Inr e2" "awaits L (hl_event h) t2 e2" "en_simTick e2 = T" "en_list e2 = en_list e"
      "en_counter e2 = en_counter e"
      using schedule_awaits[OF e1(1) _ h(4), of t2] h(3) later(2) by (auto simp: e1 max_def split: if_splits)
    obtain st where "fn (co_event (cs ! k)) T (e1, ?S) =
      Inr (e2, ?S\<lparr>sd_cpu := (sd_cpu ?S)\<lparr>hilCore := cs[k := hil_finished i (cs ! k)]\<rparr>,
           sd_hil := h\<lparr>hl_reqCount := hl_reqCount h + 1, hl_stat := st, hl_queue := [r\<lparr>h_reqID := hl_reqCount h + 1, h_finishedAt := t2\<rparr>],
                       hl_lastScheduled := t2\<rparr>, sd_world := w2\<rparr>)"
      using job_event[OF ci1 ci(2) S1 op _ h(1) _ e2(1), of invoke client] later(2) h(2) unfolding fn_def e1(2) by blast
    then show ?thesis using w run Inr x later e2 unfolding fn_def
      by (intro exI[of _ n] exI[of _ w]) (auto intro!: exI[of _ "handled e2"] exI[of _ st])
  qed
qed

section \<open>The completion\<close>

lemma done_phase:
  fixes S :: "('c, 'w, 's) ssd"
  assumes aw: "awaits L (hl_event (sd_hil S)) T e" and own: "own_events L S" and P: "P (sd_world S)"
    and nf: "\<not> fin (sd_client S)" "\<And>t. fin (invoke (b_callback b) (b_id b) t (sd_client S))"
    and S: "hl_queue (sd_hil S) = [q]" "h_finishedAt q = T" "bl_ioQueue (sd_bil S) = [b]" "b_id b = h_context q"
  shows "\<exists>n e1 w B. (\<forall>m. ssd_loop L invoke client fin (n + Suc m) (e, S) =
        Inr (e1, S\<lparr>sd_hil := (sd_hil S)\<lparr>hl_queue := []\<rparr>, sd_bil := B,
          sd_client := invoke (b_callback b) (b_id b) T (sd_client S), sd_world := w\<rparr>)) \<and>
      back_steps L (en_simTick e) T (sd_world S) w \<and> bl_ioQueue B = [] \<and> bl_io_count B = bl_io_count (sd_bil S) \<and>
      rests L e1 \<and> en_simTick e1 = T \<and> en_list e1 = en_list e \<and> en_counter e1 = en_counter e"
proof -
  define fn where "fn = ssd_event L invoke client"
  obtain n e1 w where run: "\<forall>m. runEvents (n + Suc m) fn (\<lambda>S. fin (sd_client S)) (e, S) =
        rbind (fn (hl_event (sd_hil S)) T (e1, S\<lparr>sd_world := w\<rparr>)) (\<lambda>(e, S). runEvents m fn (\<lambda>S. fin (sd_client S)) (handled e, S))"
    and w: "back_steps L (en_simTick e) T (sd_world S) w"
    and e1: "rests L e1" "en_simTick e1 = T" "en_list e1 = en_list e" "en_counter e1 = en_counter e"
    using reach_event[where fin = fin, OF aw own P nf(1) fn_def refl] by blast
  let ?S = "S\<lparr>sd_world := w\<rparr>"
  obtain B where B: "fn (hl_event (sd_hil S)) T (e1, ?S) =
      Inr (e1, ?S\<lparr>sd_hil := (sd_hil S)\<lparr>hl_queue := []\<rparr>, sd_bil := B, sd_client := invoke (b_callback b) (b_id b) T (sd_client S)\<rparr>)"
    "bl_ioQueue B = []" "bl_io_count B = bl_io_count (sd_bil S)"
    using done_event[of ?S q e1 b L invoke client] S unfolding fn_def e1(2) by auto
  have "runEvents m fn (\<lambda>S. fin (sd_client S)) (handled e1, ?S\<lparr>sd_hil := (sd_hil S)\<lparr>hl_queue := []\<rparr>, sd_bil := B,
      sd_client := invoke (b_callback b) (b_id b) T (sd_client S)\<rparr>) =
    Inr (handled e1, ?S\<lparr>sd_hil := (sd_hil S)\<lparr>hl_queue := []\<rparr>, sd_bil := B, sd_client := invoke (b_callback b) (b_id b) T (sd_client S)\<rparr>)" for m
    by (rule run_stopped) (simp add: nf(2))
  then show ?thesis using run B w e1 unfolding fn_def by (intro exI[of _ n] exI[of _ "handled e1"] exI[of _ w] exI[of _ B]) simp
qed

end

section \<open>The SSD as a client sees it\<close>

text \<open>
  Abstractly an SSD is a clock, a number of requests and the state below the ICL.  A request is one call
  of the ICL, \<open>hil_inst\<close> after it is made, on the state that the periodic events have left by then.
\<close>

type_synonym 'w ssd_abs = "nat \<times> nat \<times> 'w"

definition ssd_view :: "engine \<times> ('c, 'w, 's) ssd \<Rightarrow> 'w ssd_abs" where
  "ssd_view = (\<lambda>(e, S). (en_simTick e, hl_reqCount (sd_hil S), sd_world S))"

inductive ssd_direct :: "'w ssd_low \<Rightarrow> driver \<Rightarrow> nat \<Rightarrow> 'c bio \<Rightarrow> nat \<Rightarrow> 'w ssd_abs \<Rightarrow> 'w ssd_abs res \<Rightarrow> bool" for L D clock b arrival where
  direct_fails: "driver_request D b = Inr r \<Longrightarrow> t1 = max t arrival + is_latency (hil_inst (b_type b) clock) \<Longrightarrow>
    back_steps L t t1 w w1 \<Longrightarrow> icl_op (sl_icl L) (b_type b) (r\<lparr>h_reqID := n + 1\<rparr>) t1 w1 = Inl f \<Longrightarrow>
    ssd_direct L D clock b arrival (t, n, w) (Inl f)"
| direct_answers: "driver_request D b = Inr r \<Longrightarrow> t1 = max t arrival + is_latency (hil_inst (b_type b) clock) \<Longrightarrow>
    back_steps L t t1 w w1 \<Longrightarrow> icl_op (sl_icl L) (b_type b) (r\<lparr>h_reqID := n + 1\<rparr>) t1 w1 = Inr (t2, w2) \<Longrightarrow>
    back_steps L t1 t2 w2 w3 \<Longrightarrow> ssd_direct L D clock b arrival (t, n, w) (Inr (t2, n + 1, w3))"

inductive_cases ssd_directE: "ssd_direct L D clock b arrival a res"

text \<open>What is left when a request is through.\<close>

definition serve_left :: "'w ssd_low \<Rightarrow> ('w \<Rightarrow> bool) \<Rightarrow> nat \<Rightarrow> (nat \<Rightarrow> 's) \<Rightarrow> engine \<times> ('c, 'w, 's) ssd \<Rightarrow> engine \<times> ('c, 'w, 's) ssd \<Rightarrow> bool" where
  "serve_left L P arrival client = (\<lambda>(e, S) (e', S'). ssd_quiet L (e', S') \<and> P (sd_world S') \<and> en_list e' = en_list e \<and>
     max (en_simTick e) arrival < en_simTick e' \<and> sd_client S' = client (en_simTick e') \<and> clockPeriod (sd_cpu S') = clockPeriod (sd_cpu S))"

text \<open>The answer of the ICL waits for its completion.\<close>

definition answered :: "'w ssd_low \<Rightarrow> hil_request \<Rightarrow> 'c bio \<Rightarrow> nat \<Rightarrow> 's \<Rightarrow> engine \<times> ('c, 'w, 's) ssd \<Rightarrow> engine \<times> ('c, 'w, 's) ssd \<Rightarrow> bool" where
  "answered L q b arrival s1 = (\<lambda>(e, S) (e2, S2).
     awaits L (hl_event (sd_hil S)) (h_finishedAt q) e2 \<and> en_list e2 = Suc (en_counter e) # en_list e \<and> en_counter e2 = Suc (en_counter e) \<and>
     sd_client S2 = s1 \<and> hl_queue (sd_hil S2) = [q] \<and> hl_event (sd_hil S2) = hl_event (sd_hil S) \<and>
     hl_reqCount (sd_hil S2) = hl_reqCount (sd_hil S) + 1 \<and> hl_lastScheduled (sd_hil S2) = h_finishedAt q \<and>
     bl_ioQueue (sd_bil S2) = [b\<lparr>b_submittedAt := max (en_simTick e) arrival\<rparr>] \<and>
     cores_idle L e (sd_hil S) (hilCore (sd_cpu S2)) \<and> clockPeriod (sd_cpu S2) = clockPeriod (sd_cpu S))"

lemma free_client_ok:
  assumes "rests L e" "en_list e = sid # l" "\<forall>x \<in> set l. x < sid" "sid \<notin> set (sl_back L)"
  shows "\<exists>e'. free_client sid (e, S) = Inr (e', S) \<and> rests L e' \<and> en_list e' = l \<and> en_simTick e' = en_simTick e \<and> en_counter e' = en_counter e"
proof -
  obtain e' where e': "deallocateEvent sid e = Inr e'" "engine_inv e'"
    "\<forall>x. isEventExist x (en_queue e') = (if x = sid then None else isEventExist x (en_queue e))"
    using deallocateEvent_ok[of e sid] assms(1,2) by (auto simp: rests_def)
  have "filter (\<lambda>x. x \<noteq> sid) l = l" using assms(3) by (auto simp: filter_id_conv)
  then have "en_list e' = l" "en_simTick e' = en_simTick e" "en_counter e' = en_counter e" "en_forceStop e' = en_forceStop e"
    using e'(1) assms(2) by (auto simp: deallocateEvent_def)
  then show ?thesis using e' assms(1) by (intro exI[of _ e']) (auto simp: free_client_def rests_def only_due_def)
qed

context timely_icl
begin

lemma serve_starts:
  fixes S :: "('c, 'w, 's) ssd"
  assumes quiet: "ssd_quiet L (e, S)" and P: "P (sd_world S)" and req: "driver_request D b = Inr r"
    and prep: "prepare (max (en_simTick e) arrival) (sd_client S) = (b, s1)" and nf: "\<not> fin (sd_client S)" "\<not> fin s1"
  defines "t1 \<equiv> max (en_simTick e) arrival + is_latency (hil_inst (b_type b) (clockPeriod (sd_cpu S)))"
    and "q \<equiv> r\<lparr>h_reqID := hl_reqCount (sd_hil S) + 1\<rparr>"
  shows "\<exists>n w1. back_steps L (en_simTick e) t1 (sd_world S) w1 \<and>
    (case icl_op (sl_icl L) (b_type b) q t1 w1 of Inl f \<Rightarrow> \<forall>m. ssd_serve L D invoke (n + Suc m) prepare fin arrival (e, S) = Inl f
     | Inr (t2, w2) \<Rightarrow> t1 < t2 \<and> P w2 \<and> (\<exists>e2 S2. (\<forall>m. ssd_serve L D invoke (n + Suc m) prepare fin arrival (e, S) =
          rbind (ssd_loop L invoke (ssd_client_event L D prepare) fin m (e2, S2)) (free_client (Suc (en_counter e)))) \<and>
        en_simTick e2 = t1 \<and> sd_world S2 = w2 \<and> answered L (q\<lparr>h_finishedAt := t2\<rparr>) b arrival s1 (e, S) (e2, S2)))"
proof -
  define cf where "cf = ssd_client_event L D (prepare :: nat \<Rightarrow> 's \<Rightarrow> 'c bio \<times> 's)"
  define T where "T = max (en_simTick e) arrival"
  define i where "i = hil_inst (b_type b) (clockPeriod (sd_cpu S))"
  define cs where "cs = hilCore (sd_cpu S)"
  define k where "k = leastBusyCPU cs"
  let ?h = "sd_hil S"
  have t1: "t1 = T + is_latency i" by (simp add: t1_def T_def i_def)
  have ok: "hl_queue ?h = []" "hl_lastScheduled ?h \<le> t1" "hl_event ?h \<in> set (en_list e)" "hl_event ?h \<notin> set (sl_back L)"
    "cores_idle L e ?h cs" "bl_ioQueue (sd_bil S) = []"
    using quiet by (auto simp: ssd_quiet_def cs_def t1 T_def)
  have kl: "k < length cs" unfolding k_def by (rule leastBusy_idle) (use ok(5) in \<open>auto simp: cores_idle_def\<close>)
  obtain n1 e1 w where serve: "\<forall>m. ssd_serve L D invoke (n1 + Suc m) prepare fin arrival (e, S) =
        rbind (ssd_loop L invoke cf fin m (e1,
          S\<lparr>sd_world := w, sd_client := s1, sd_cpu := (sd_cpu S)\<lparr>hilCore := cs[k := hil_started (driver_job (b_type b) r) i T (cs ! k)]\<rparr>,
            sd_bil := snd (bil_submitIO T b (sd_bil S))\<rparr>)) (free_client (Suc (en_counter e)))"
    and w: "back_steps L (en_simTick e) T (sd_world S) w" "awaits L (co_event (cs ! k)) t1 e1"
    and e1: "en_simTick e1 = T" "en_list e1 = Suc (en_counter e) # en_list e" "en_counter e1 = Suc (en_counter e)"
    using client_phase[where fin = fin and invoke = invoke and prepare = prepare, OF quiet P nf(1) prep req]
    unfolding T_def[symmetric] i_def[symmetric] cs_def[symmetric] k_def[symmetric] cf_def[symmetric] t1[symmetric] by blast
  define S1 where "S1 = S\<lparr>sd_world := w, sd_client := s1, sd_cpu := (sd_cpu S)\<lparr>hilCore := cs[k := hil_started (driver_job (b_type b) r) i T (cs ! k)]\<rparr>,
            sd_bil := snd (bil_submitIO T b (sd_bil S))\<rparr>"
  have S1: "hilCore (sd_cpu S1) = cs[k := hil_started (driver_job (b_type b) r) i T (cs ! k)]" "sd_hil S1 = ?h" "P (sd_world S1)" "\<not> fin (sd_client S1)"
    using back_keeps[OF w(1) P] nf(2) by (simp_all add: S1_def)
  have ci: "cores_idle L e1 ?h cs" by (rule cores_idle_more[OF ok(5)]) (simp add: e1 subset_insertI)
  have hev: "hl_event ?h \<in> set (en_list e1)" using ok(3) by (simp add: e1)
  obtain n2 w1 where w1: "back_steps L T t1 w w1" and job: "case icl_op (sl_icl L) (b_type b) q t1 w1 of
       Inl f \<Rightarrow> \<forall>m. ssd_loop L invoke cf fin (n2 + Suc m) (e1, S1) = Inl f
     | Inr (t2, w2) \<Rightarrow> t1 < t2 \<and> P w2 \<and> (\<exists>e2 st. (\<forall>m. ssd_loop L invoke cf fin (n2 + Suc m) (e1, S1) =
          ssd_loop L invoke cf fin m (e2, S1\<lparr>sd_cpu := (sd_cpu S1)\<lparr>hilCore := cs[k := hil_finished i (cs ! k)]\<rparr>,
            sd_hil := ?h\<lparr>hl_reqCount := hl_reqCount ?h + 1, hl_stat := st, hl_queue := [q\<lparr>h_finishedAt := t2\<rparr>], hl_lastScheduled := t2\<rparr>,
            sd_world := w2\<rparr>)) \<and>
        awaits L (hl_event ?h) t2 e2 \<and> en_simTick e2 = t1 \<and> en_list e2 = en_list e1 \<and> en_counter e2 = en_counter e1)"
    using job_phase[where fin = fin and invoke = invoke and client = cf, OF w(2) ci kl S1 ok(1,2) hev ok(4)]
    unfolding q_def e1(1) by (auto simp: S1_def)
  have steps: "back_steps L (en_simTick e) t1 (sd_world S) w1"
    by (rule back_trans[OF w(1) w1]) (simp_all add: t1 T_def)
  show ?thesis
  proof (cases "icl_op (sl_icl L) (b_type b) q t1 w1")
    case (Inl f)
    have "ssd_serve L D invoke (n1 + Suc n2 + Suc m) prepare fin arrival (e, S) = Inl f" for m
      using serve[rule_format, of "n2 + Suc m"] job Inl by (simp add: S1_def add.assoc del: runEvents.simps)
    then show ?thesis using steps Inl by (intro exI[of _ "n1 + Suc n2"] exI[of _ w1]) simp
  next
    case (Inr x)
    obtain t2 w2 where x: "x = (t2, w2)" by (cases x)
    obtain e2 st where later: "t1 < t2" "P w2"
      and run2: "\<forall>m. ssd_loop L invoke cf fin (n2 + Suc m) (e1, S1) =
          ssd_loop L invoke cf fin m (e2, S1\<lparr>sd_cpu := (sd_cpu S1)\<lparr>hilCore := cs[k := hil_finished i (cs ! k)]\<rparr>,
            sd_hil := ?h\<lparr>hl_reqCount := hl_reqCount ?h + 1, hl_stat := st, hl_queue := [q\<lparr>h_finishedAt := t2\<rparr>], hl_lastScheduled := t2\<rparr>,
            sd_world := w2\<rparr>)"
      and e2: "awaits L (hl_event ?h) t2 e2" "en_simTick e2 = t1" "en_list e2 = en_list e1" "en_counter e2 = en_counter e1"
      using job Inr x by auto
    define S2 where "S2 = S1\<lparr>sd_cpu := (sd_cpu S1)\<lparr>hilCore := cs[k := hil_finished i (cs ! k)]\<rparr>,
            sd_hil := ?h\<lparr>hl_reqCount := hl_reqCount ?h + 1, hl_stat := st, hl_queue := [q\<lparr>h_finishedAt := t2\<rparr>], hl_lastScheduled := t2\<rparr>,
            sd_world := w2\<rparr>"
    have run: "ssd_serve L D invoke (n1 + Suc n2 + Suc m) prepare fin arrival (e, S) =
        rbind (ssd_loop L invoke cf fin m (e2, S2)) (free_client (Suc (en_counter e)))" for m
      using serve[rule_format, of "n2 + Suc m"] run2[rule_format, of m] by (simp add: S1_def S2_def add.assoc del: runEvents.simps)
    have "answered L (q\<lparr>h_finishedAt := t2\<rparr>) b arrival s1 (e, S) (e2, S2)"
      using e2 e1 ok(6) cores_idle_finished[OF ok(5) kl refl, of i] later(1)
      by (simp add: answered_def S2_def S1_def bil_submitIO_def T_def cs_def)
    then show ?thesis using steps later e2(2) run Inr x unfolding cf_def
      by (intro exI[of _ "n1 + Suc n2"] exI[of _ w1]) (auto intro!: exI[of _ e2] exI[of _ S2] simp: S2_def)
  qed
qed

lemma serve_ends:
  fixes S :: "('c, 'w, 's) ssd"
  assumes quiet: "ssd_quiet L (e, S)" and ans: "answered L q b arrival s1 (e, S) (e2, S2)" and P: "P (sd_world S2)" and id: "b_id b = h_context q"
    and late: "max (en_simTick e) arrival < h_finishedAt q"
    and nf: "\<not> fin s1" "\<And>t. fin (invoke (b_callback b) (b_id b) t s1)"
  shows "\<exists>n z w3. (\<forall>m. rbind (ssd_loop L invoke client fin (n + m) (e2, S2)) (free_client (Suc (en_counter e))) = Inr z) \<and>
      back_steps L (en_simTick e2) (h_finishedAt q) (sd_world S2) w3 \<and> ssd_view z = (h_finishedAt q, hl_reqCount (sd_hil S) + 1, w3) \<and>
      serve_left L P arrival (\<lambda>t. invoke (b_callback b) (b_id b) t s1) (e, S) z"
proof -
  let ?sid = "Suc (en_counter e)" and ?b = "b\<lparr>b_submittedAt := max (en_simTick e) arrival\<rparr>"
  have known: "\<forall>x \<in> set (en_list e). x < ?sid" "?sid \<notin> set (sl_back L)" "\<forall>i \<in> set (sl_back L). i \<le> en_counter e"
    using quiet by (auto simp: ssd_quiet_def rests_def engine_inv_def le_imp_less_Suc)
  have S2: "awaits L (hl_event (sd_hil S2)) (h_finishedAt q) e2" "hl_queue (sd_hil S2) = [q]" "bl_ioQueue (sd_bil S2) = [?b]" "sd_client S2 = s1"
    "hl_event (sd_hil S2) = hl_event (sd_hil S)" "en_list e2 = ?sid # en_list e" "en_counter e2 = ?sid"
    "cores_idle L e (sd_hil S2) (hilCore (sd_cpu S2))"
    using ans by (simp_all add: answered_def cores_idle_def)
  have own: "own_events L S2" using quiet S2(5,8) by (simp add: own_events_def ssd_quiet_def cores_idle_def)
  obtain n e3 w3 B where run: "\<forall>m. ssd_loop L invoke client fin (n + Suc m) (e2, S2) =
        Inr (e3, S2\<lparr>sd_hil := (sd_hil S2)\<lparr>hl_queue := []\<rparr>, sd_bil := B,
          sd_client := invoke (b_callback ?b) (b_id ?b) (h_finishedAt q) (sd_client S2), sd_world := w3\<rparr>)"
    and w3: "back_steps L (en_simTick e2) (h_finishedAt q) (sd_world S2) w3" and B: "bl_ioQueue B = []"
    and e3: "rests L e3" "en_simTick e3 = h_finishedAt q" "en_list e3 = en_list e2" "en_counter e3 = en_counter e2"
    using done_phase[where fin = fin and invoke = invoke and client = client and b = ?b, OF S2(1) own P _ _ S2(2) refl S2(3)] id nf S2(4) by auto
  define S3 where "S3 = S2\<lparr>sd_hil := (sd_hil S2)\<lparr>hl_queue := []\<rparr>, sd_bil := B,
          sd_client := invoke (b_callback b) (b_id b) (h_finishedAt q) s1, sd_world := w3\<rparr>"
  obtain e4 where e4: "free_client ?sid (e3, S3) = Inr (e4, S3)" "rests L e4" "en_list e4 = en_list e" "en_simTick e4 = h_finishedAt q" "en_counter e4 = ?sid"
    using free_client_ok[OF e3(1) _ known(1,2), of S3] by (auto simp: e3 S2)
  have all: "rbind (ssd_loop L invoke client fin (Suc n + m) (e2, S2)) (free_client ?sid) = Inr (e4, S3)" for m
    using run[rule_format, of m] e4(1) by (simp add: S3_def S2(4))
  have "ssd_quiet L (e4, S3)"
    using quiet e4 ans known(3) B by (auto simp: ssd_quiet_def S3_def answered_def cores_idle_def)
  then have "serve_left L P arrival (\<lambda>t. invoke (b_callback b) (b_id b) t s1) (e, S) (e4, S3)"
    using e4 ans late back_keeps[OF w3 P] by (simp add: serve_left_def S3_def answered_def)
  then show ?thesis using all w3 e4(4) ans
    by (intro exI[of _ "Suc n"] exI[of _ "(e4, S3)"] exI[of _ w3]) (simp add: ssd_view_def S3_def answered_def)
qed

lemma serve_refines:
  fixes S :: "('c, 'w, 's) ssd"
  assumes quiet: "ssd_quiet L (e, S)" and P: "P (sd_world S)" and lps: "0 < dr_logicalPageSize D"
    and prep: "prepare (max (en_simTick e) arrival) (sd_client S) = (b, s1)"
    and nf: "\<not> fin (sd_client S)" "\<not> fin s1" "\<And>t. fin (invoke (b_callback b) (b_id b) t s1)"
  shows "\<exists>n res. (\<forall>m. ssd_serve L D invoke (n + m) prepare fin arrival (e, S) = res) \<and>
    ssd_direct L D (clockPeriod (sd_cpu S)) b arrival (ssd_view (e, S)) (map_sum id ssd_view res) \<and>
    (\<forall>z. res = Inr z \<longrightarrow> serve_left L P arrival (\<lambda>t. invoke (b_callback b) (b_id b) t s1) (e, S) z)"
proof -
  obtain r where req: "driver_request D b = Inr r" using driver_request_ok[OF lps] by blast
  have ctx: "h_context r = b_id b" using req by (auto simp: driver_request_def res_simps)
  let ?q = "r\<lparr>h_reqID := hl_reqCount (sd_hil S) + 1\<rparr>"
  define t1 where t1: "t1 = max (en_simTick e) arrival + is_latency (hil_inst (b_type b) (clockPeriod (sd_cpu S)))"
  let ?serve = "\<lambda>m. ssd_serve L D invoke m prepare fin arrival (e, S)"
  obtain n w1 where w1: "back_steps L (en_simTick e) t1 (sd_world S) w1"
    and starts: "case icl_op (sl_icl L) (b_type b) ?q t1 w1 of Inl f \<Rightarrow> \<forall>m. ?serve (n + Suc m) = Inl f
     | Inr (t2, w2) \<Rightarrow> t1 < t2 \<and> P w2 \<and> (\<exists>e2 S2. (\<forall>m. ?serve (n + Suc m) =
          rbind (ssd_loop L invoke (ssd_client_event L D prepare) fin m (e2, S2)) (free_client (Suc (en_counter e)))) \<and>
        en_simTick e2 = t1 \<and> sd_world S2 = w2 \<and> answered L (?q\<lparr>h_finishedAt := t2\<rparr>) b arrival s1 (e, S) (e2, S2))"
    using serve_starts[where fin = fin and invoke = invoke and prepare = prepare, OF quiet P req prep nf(1,2)] unfolding t1 by blast
  show ?thesis
  proof (cases "icl_op (sl_icl L) (b_type b) ?q t1 w1")
    case (Inl f)
    have "?serve (Suc n + m) = Inl f" for m using starts Inl by simp
    moreover have "ssd_direct L D (clockPeriod (sd_cpu S)) b arrival (ssd_view (e, S)) (Inl f)"
      unfolding ssd_view_def by (simp add: direct_fails[OF req t1 w1 Inl])
    ultimately show ?thesis by (intro exI[of _ "Suc n"] exI[of _ "Inl f"]) simp
  next
    case (Inr x)
    obtain t2 w2 where x: "x = (t2, w2)" by (cases x)
    obtain e2 S2 where later: "t1 < t2" "P w2" and run: "\<forall>m. ?serve (n + Suc m) =
          rbind (ssd_loop L invoke (ssd_client_event L D prepare) fin m (e2, S2)) (free_client (Suc (en_counter e)))"
      and e2: "en_simTick e2 = t1" "sd_world S2 = w2" "answered L (?q\<lparr>h_finishedAt := t2\<rparr>) b arrival s1 (e, S) (e2, S2)"
      using starts Inr x by auto
    have late: "max (en_simTick e) arrival < h_finishedAt (?q\<lparr>h_finishedAt := t2\<rparr>)" using later(1) unfolding t1 by simp linarith
    obtain n2 z w3 where fin: "\<forall>m. rbind (ssd_loop L invoke (ssd_client_event L D prepare) fin (n2 + m) (e2, S2)) (free_client (Suc (en_counter e))) = Inr z"
      and w3: "back_steps L t1 t2 w2 w3" and z: "ssd_view z = (t2, hl_reqCount (sd_hil S) + 1, w3)"
        "serve_left L P arrival (\<lambda>t. invoke (b_callback b) (b_id b) t s1) (e, S) z"
      using serve_ends[where fin = fin and invoke = invoke and client = "ssd_client_event L D prepare", OF quiet e2(3) _ _ late nf(2,3)] later(2) ctx e2(1,2)
      by auto
    have "?serve (Suc (n + n2) + m) = Inr z" for m using run[rule_format, of "n2 + m"] fin by (simp add: add.assoc)
    moreover have "ssd_direct L D (clockPeriod (sd_cpu S)) b arrival (ssd_view (e, S)) (Inr (t2, hl_reqCount (sd_hil S) + 1, w3))"
      using direct_answers[OF req t1 w1 Inr[unfolded x] w3] by (simp add: ssd_view_def)
    ultimately show ?thesis using z by (intro exI[of _ "Suc (n + n2)"] exI[of _ "Inr z"]) simp
  qed
qed

end

text \<open>A larger fuel does not change an answer; with the fuel that the loop needs, every answer is the direct one.\<close>

lemma serve_more: "ssd_serve L D invoke n prepare fin arrival (e, S) = Inr z \<Longrightarrow> ssd_serve L D invoke (n + k) prepare fin arrival (e, S) = Inr z"
  by (auto simp: ssd_serve_def res_simps split_paired_Ex run_more split: prod.splits)

context timely_icl
begin

lemma serve_any:
  fixes S :: "('c, 'w, 's) ssd"
  assumes "ssd_quiet L (e, S)" "P (sd_world S)" "0 < dr_logicalPageSize D"
    and "prepare (max (en_simTick e) arrival) (sd_client S) = (b, s1)"
    and "\<not> fin (sd_client S)" "\<not> fin s1" "\<And>t. fin (invoke (b_callback b) (b_id b) t s1)"
    and run: "ssd_serve L D invoke fuel prepare fin arrival (e, S) = Inr z"
  shows "ssd_direct L D (clockPeriod (sd_cpu S)) b arrival (ssd_view (e, S)) (Inr (ssd_view z)) \<and>
    serve_left L P arrival (\<lambda>t. invoke (b_callback b) (b_id b) t s1) (e, S) z"
proof -
  obtain n res where res: "\<forall>m. ssd_serve L D invoke (n + m) prepare fin arrival (e, S) = res"
    "ssd_direct L D (clockPeriod (sd_cpu S)) b arrival (ssd_view (e, S)) (map_sum id ssd_view res)"
    "\<forall>z. res = Inr z \<longrightarrow> serve_left L P arrival (\<lambda>t. invoke (b_callback b) (b_id b) t s1) (e, S) z"
    using serve_refines[where fin = fin and invoke = invoke and prepare = prepare, OF assms(1-7)] by blast
  have "res = Inr z" using serve_more[OF run, of n] res(1)[rule_format, of fuel] by (simp add: add.commute)
  then show ?thesis using res(2,3) by simp
qed

end

section \<open>The ICL over the cache keeps the contract\<close>

lemma sweep_later:
  assumes "sweep p L fn step tick k w = Inr (t, k', w')"
    and "\<And>q rq t f k w rq' t' f' k' w'. step q (rq, t, f, k, w) = Inr (rq', t', f', k', w') \<Longrightarrow> f \<le> f'"
  shows "tick \<le> t"
proof (cases "useReadCaching p \<or> useWriteCaching p")
  case True
  then obtain rq1 tick1 fin1 k1 w1 where run: "rfold step (all_lines p) (ftl_request_new (lineCountInSuperPage p), tick, tick, k, w) = Inr (rq1, tick1, fin1, k1, w1)"
    and t: "(case charge L fn (max tick1 fin1) w1 of (t, w) \<Rightarrow> Inr (t, k1, w)) = (Inr (t, k', w') :: (nat \<times> cache \<times> 'a) res)"
    using assms(1) by (auto simp: sweep_def res_simps split_paired_Ex)
  have "(\<lambda>(rq, t, f, k, w). tick \<le> f) (rq1, tick1, fin1, k1, w1)"
  proof (rule rfold_invariant[OF run])
    fix q s s'
    assume "(\<lambda>(rq, t, f, k, w). tick \<le> f) s" "step q s = Inr s'"
    obtain rq1 t1 f1 k1 w1 rq2 t2 f2 k2 w2 where s: "s = (rq1, t1, f1, k1, w1)" "s' = (rq2, t2, f2, k2, w2)" by (metis surj_pair)
    have "f1 \<le> f2" by (rule assms(2)) (use \<open>step q s = Inr s'\<close> s in simp)
    then show "(\<lambda>(rq, t, f, k, w). tick \<le> f) s'" using \<open>(\<lambda>(rq, t, f, k, w). tick \<le> f) s\<close> s by simp
  qed simp
  then show ?thesis using t by (auto simp: charge_def split: prod.splits)
qed (use assms(1) in \<open>simp add: sweep_def\<close>)

lemma icl_then_ok:
  assumes "icl_then I fn m = Inr (t, kw)" "cpu_positive I"
  shows "\<exists>t0 k0 w0. m = Inr (t0, k0, w0) \<and> fst kw = k0 \<and> t0 < t"
proof -
  obtain t0 kw0 where m: "m = Inr (t0, kw0)" and c: "(case icl_cpu I fn kw0 of (d, kw) \<Rightarrow> Inr (t0 + d, kw)) = (Inr (t, kw) :: (nat \<times> cache \<times> 'a) res)"
    using assms(1) by (auto simp: icl_then_def res_simps split_paired_Ex)
  obtain d where "icl_cpu I fn kw0 = (d, kw)" "t = t0 + d" using c by (cases "icl_cpu I fn kw0") simp
  then show ?thesis using icl_cpu_inv[OF _ assms(2), of fn kw0 d kw] m by (cases kw0) auto
qed

definition stack_ok :: "'w icl_env \<Rightarrow> cache \<times> 'w \<Rightarrow> bool" where
  "stack_ok I kw \<longleftrightarrow> geometry_ok (ie_param I) \<and> cpu_positive I \<and> cache_inv (ie_param I) (fst kw)"

lemma icl_flush_later:
  assumes "icl_flush I r tick (k, w) = Inr (t, kw)" "stack_ok I (k, w)"
  shows "stack_ok I kw \<and> tick < t"
proof -
  obtain t0 k0 w0 where f: "cache_flush (ie_param I) (ie_low I) r tick k w = Inr (t0, k0, w0)" "fst kw = k0" "t0 < t"
    using icl_then_ok[of I FN_FLUSH "cache_flush (ie_param I) (ie_low I) r tick k w" t kw] assms by (auto simp: icl_flush_def stack_ok_def)
  have "tick \<le> t0" using f(1) unfolding cache_flush_def
    by (rule sweep_later) (auto simp: flush_line_def Let_def res_simps split_paired_Ex split: if_splits)
  then show ?thesis using f cache_flush_ok[OF f(1)] assms(2) by (simp add: stack_ok_def)
qed

lemma icl_trim_later:
  assumes "icl_trim I r tick (k, w) = Inr (t, kw)" "stack_ok I (k, w)"
  shows "stack_ok I kw \<and> tick < t"
proof -
  obtain t0 k0 w0 where f: "cache_trim (ie_param I) (ie_low I) r tick k w = Inr (t0, k0, w0)" "fst kw = k0" "t0 < t"
    using icl_then_ok[of I FN_TRIM "cache_trim (ie_param I) (ie_low I) r tick k w" t kw] assms by (auto simp: icl_trim_def stack_ok_def)
  have "tick \<le> t0" using f(1) unfolding cache_trim_def
    by (rule sweep_later) (auto simp: trim_line_def Let_def res_simps split_paired_Ex split: if_splits)
  then show ?thesis using f cache_trim_ok[OF f(1)] assms(2) by (simp add: stack_ok_def)
qed

lemma stack_later:
  assumes "icl_op (icl_as_ops I) ty r t kw = Inr (t', kw')" "stack_ok I kw"
  shows "stack_ok I kw' \<and> t < t'"
proof -
  obtain k w k' w' where kw: "kw = (k, w)" "kw' = (k', w')" by (metis surj_pair)
  have g: "cache_inv (ie_param I) k" "geometry_ok (ie_param I)" "cpu_positive I" using assms(2) kw by (simp_all add: stack_ok_def)
  show ?thesis
  proof (cases ty)
    case BIO_READ
    then show ?thesis using assms kw g icl_read_ok[OF _ g, of "icl_of_hil r" t w t' k' w'] by (simp add: icl_op_def icl_as_ops_def stack_ok_def)
  next
    case BIO_WRITE
    then show ?thesis using assms kw g icl_write_ok[OF _ g, of "icl_of_hil r" t w t' k' w'] by (simp add: icl_op_def icl_as_ops_def stack_ok_def)
  next
    case BIO_FLUSH
    then show ?thesis using assms kw icl_flush_later[of I "h_range r" t k w t' kw'] by (simp add: icl_op_def icl_as_ops_def)
  next
    case BIO_TRIM
    then show ?thesis using assms kw icl_trim_later[of I "h_range r" t k w t' kw'] by (simp add: icl_op_def icl_as_ops_def)
  qed
qed

text \<open>
  Below the cache are the DRAM, the flash array and what is between them.  The periodic events are the
  refresh of the DRAM and the flush of the time slots of the flash array.
\<close>

definition device_low :: "'p power_lib \<Rightarrow> nat \<Rightarrow> nat \<Rightarrow> ('p dram \<times> pal_dev \<times> 'x) icl_env \<Rightarrow> (cache \<times> 'p dram \<times> pal_dev \<times> 'x) ssd_low" where
  "device_low W refresh flush I = \<lparr>sl_icl = icl_as_ops I, sl_back = [refresh, flush],
     sl_run = (\<lambda>i t (k, d, f, x).
       if i = refresh then (case autoRefresh W t d of (t', d) \<Rightarrow> (t', k, d, f, x))
       else (case flushFunction t f of (t', f) \<Rightarrow> (t', k, d, f, x)))\<rparr>"

interpretation stack: timely_icl "device_low W refresh flush I" "stack_ok I" for W refresh flush and I :: "('p dram \<times> pal_dev \<times> 'x) icl_env"
proof
  fix ty r t t' and w w' :: "cache \<times> 'p dram \<times> pal_dev \<times> 'x"
  assume "icl_op (sl_icl (device_low W refresh flush I)) ty r t w = Inr (t', w')" "stack_ok I w"
  then show "stack_ok I w' \<and> t < t'" using stack_later[of I ty r t w t' w'] by (simp add: device_low_def)
next
  fix i t t' and w w' :: "cache \<times> 'p dram \<times> pal_dev \<times> 'x"
  assume "sl_run (device_low W refresh flush I) i t w = (t', w')" "stack_ok I w"
  then show "stack_ok I w' \<and> t < t'"
    by (cases w) (auto simp: device_low_def stack_ok_def autoRefresh_def flushFunction_def Let_def split: if_splits)
qed

end
