(* ===== verification/LegoServer.thy ===== *)
theory LegoServer
  imports LegoIo SsdProtocol SsdServe
begin

text \<open>
  The SSD as a server of the co-simulation: \<open>runRuntimeIpc\<close> of \<open>sim/legosim_main.cc\<close>.  A round takes
  one request from the FIFO, lets the bridge time its arrival, runs the SSD until the request is done,
  writes the response and lets the bridge time its way back.
\<close>

section \<open>Options and helpers\<close>

datatype storage_op = OP_READ | OP_WRITE

record options =
  op_simConfig :: string
  op_ssdConfig :: string
  op_outputDir :: string
  op_ssdX :: int
  op_ssdY :: int
  op_npuX :: int
  op_npuY :: int
  op_requestBytes :: nat
  op_iterations :: nat
  op_clockRate :: fl
  op_startOffset :: nat
  op_op :: storage_op
  op_runtimeIpc :: bool

definition options_new :: options where
  "options_new = \<lparr>op_simConfig = [], op_ssdConfig = [], op_outputDir = [], op_ssdX = 1, op_ssdY = 0, op_npuX = 0, op_npuY = 0,
     op_requestBytes = 4096, op_iterations = 1, op_clockRate = Fin 1, op_startOffset = 0, op_op = OP_READ, op_runtimeIpc = False\<rparr>"

text \<open>A \<open>long\<close> passed as \<open>int\<close>.\<close>

definition as_int :: "int \<Rightarrow> int" where
  "as_int x = (x + 2147483648) mod 4294967296 - 2147483648"

definition requestWireBytes :: "ssd_request \<Rightarrow> nat" where
  "requestWireBytes q = (if q_operation q = op_code Op_Write then q_length q else kSsdReadCommandBytes)"

definition responseWireBytes :: "ssd_request \<Rightarrow> nat" where
  "responseWireBytes q = (if q_operation q = op_code Op_Read then q_length q else kSsdReadCommandBytes)"

definition requestToBioType :: "ssd_request \<Rightarrow> bio_type option" where
  "requestToBioType q =
     (if q_operation q = op_code Op_Read then Some BIO_READ else if q_operation q = op_code Op_Write then Some BIO_WRITE
      else if q_operation q = op_code Op_Flush then Some BIO_FLUSH else if q_operation q = op_code Op_Trim then Some BIO_TRIM else None)"

definition validateRuntimeRequest :: "ssd_request \<Rightarrow> nat \<Rightarrow> ssd_status" where
  "validateRuntimeRequest q capacity =
     (if \<not> hasValidHeader (q_magic q) (q_version q) \<or> q_flags q \<noteq> 0 \<or> q_id q = kInvalidSsdRequestId \<or> nat LONG_MAX < q_id q
      then InvalidProtocol
      else if q_operation q = op_code Op_Shutdown then Success
      else if requestToBioType q = None then InvalidOperation
      else if q_operation q = op_code Op_Flush then Success
      else if q_length q = 0 \<or> capacity \<le> q_offset q \<or> capacity - q_offset q < q_length q then InvalidRange
      else Success)"

definition emit_line :: "string \<Rightarrow> string" where
  "emit_line s = endl @ s"

definition emitResult :: "string list \<Rightarrow> string" where
  "emitResult ws = emit_line (sendResultCmd_strings ws)"

definition emitCycle :: "nat \<Rightarrow> string" where
  "emitCycle cyc = emit_line (sendCycleCmd (int cyc))"

definition to_string :: "nat \<Rightarrow> string" where
  "to_string n = put_int (int n)"

fun fl_ceil :: "fl \<Rightarrow> fl" where
  "fl_ceil (Fin x) = Fin (of_int \<lceil>x\<rceil>)"
| "fl_ceil x = x"

section \<open>Serving a request\<close>

text \<open>The variables of one round that the event of the submission and the callback of the request write.\<close>

record run_io =
  rn_submitted :: nat
  rn_completed :: nat
  rn_done :: bool
  rn_trace :: "trace_line list"

definition run_prepare :: "ssd_request \<Rightarrow> bio_type \<Rightarrow> nat \<Rightarrow> nat \<Rightarrow> run_io \<Rightarrow> (ssd_request \<times> nat) bio \<times> run_io" where
  "run_prepare q ty arrival now s =
     (\<lparr>b_id = q_id q, b_type = ty, b_offset = q_offset q, b_length = q_length q, b_callback = (q, arrival), b_submittedAt = 0\<rparr>,
      s\<lparr>rn_submitted := now, rn_trace := trace_emit ''SSD_BIO_SUBMITTED'' q arrival now (status_code Success) (rn_trace s)\<rparr>)"

text \<open>The callback holds the request and its arrival.\<close>

definition run_callback :: "ssd_request \<times> nat \<Rightarrow> nat \<Rightarrow> nat \<Rightarrow> run_io \<Rightarrow> run_io" where
  "run_callback c i now s =
     (if i = q_id (fst c)
      then s\<lparr>rn_completed := now, rn_trace := trace_emit ''SSD_BIO_COMPLETED'' (fst c) (snd c) now (status_code Success) (rn_trace s), rn_done := True\<rparr>
      else s)"

record server =
  sv_cycle :: nat
  sv_reads :: nat
  sv_writes :: nat
  sv_bytesRead :: nat
  sv_bytesWritten :: nat
  sv_completed :: nat
  sv_trace :: "trace_line list"

definition server_new :: server where
  "server_new = \<lparr>sv_cycle = 1, sv_reads = 0, sv_writes = 0, sv_bytesRead = 0, sv_bytesWritten = 0, sv_completed = 0, sv_trace = []\<rparr>"

definition count_request :: "ssd_request \<Rightarrow> server \<Rightarrow> server" where
  "count_request q V = (let V = V\<lparr>sv_completed := wrap64 (sv_completed V + 1)\<rparr> in
     if q_operation q = op_code Op_Read then V\<lparr>sv_reads := wrap64 (sv_reads V + 1), sv_bytesRead := wrap64 (sv_bytesRead V + q_length q)\<rparr>
     else if q_operation q = op_code Op_Write then V\<lparr>sv_writes := wrap64 (sv_writes V + 1), sv_bytesWritten := wrap64 (sv_bytesWritten V + q_length q)\<rparr>
     else V)"

text \<open>The cycle of the bridge as a tick of the SSD, and back.\<close>

definition cycle_to_tick :: "fl \<Rightarrow> nat \<Rightarrow> nat res" where
  "cycle_to_tick rate cyc = fl_to_nat (fl_mul 53 (fl_of_nat 53 cyc) rate)"

definition tick_to_cycle :: "fl \<Rightarrow> nat \<Rightarrow> nat res" where
  "tick_to_cycle rate t = fl_to_nat (fl_ceil (fl_div 53 (fl_of_nat 53 t) rate))"

text \<open>The SSD of the server: its driver, what is below the HIL, and the fuel of the event loop.\<close>

record 'w ssd_conf =
  sc_low :: "'w ssd_low"
  sc_driver :: driver
  sc_fuel :: nat

type_synonym 'w server_ssd = "engine \<times> (ssd_request \<times> nat, 'w, run_io) ssd"

definition server_serve :: "'w ssd_conf \<Rightarrow> fl \<Rightarrow> nat \<Rightarrow> ssd_request \<Rightarrow> nat \<Rightarrow> server \<times> 'w server_ssd \<Rightarrow> (ssd_response \<times> server \<times> 'w server_ssd) res" where
  "server_serve C rate capacity q arrival = (\<lambda>(V, e, S).
     let st = validateRuntimeRequest q capacity; a = ssd_response_new\<lparr>a_id := q_id q, a_status := status_code st\<rparr> in
     if st = Success \<and> q_operation q \<noteq> op_code Op_Shutdown then
       (case requestToBioType q of
          None \<Rightarrow> Inr (a\<lparr>a_status := status_code InvalidOperation\<rparr>, V, e, S)
        | Some ty \<Rightarrow>
            rbind (cycle_to_tick rate arrival) (\<lambda>t.
            rbind (ssd_serve (sc_low C) (sc_driver C) run_callback (sc_fuel C) (run_prepare q ty arrival) rn_done (max (en_simTick e) t)
                     (e, S\<lparr>sd_client := \<lparr>rn_submitted = 0, rn_completed = 0, rn_done = False, rn_trace = sv_trace V\<rparr>\<rparr>)) (\<lambda>(e, S).
            let r = sd_client S; a = a\<lparr>a_submitted := rn_submitted r, a_completed := rn_completed r\<rparr>; V = V\<lparr>sv_trace := rn_trace r\<rparr> in
            Inr (if rn_done r then (a, count_request q V, e, S)
                 else (a\<lparr>a_status := status_code InternalError, a_completed := en_simTick e\<rparr>, V, e, S)))))
     else Inr (a, V, e, S))"

section \<open>A round\<close>

datatype outcome = Again | Finished | Exit nat

definition server_trace :: "string \<Rightarrow> ssd_request \<Rightarrow> nat \<Rightarrow> nat \<Rightarrow> nat \<Rightarrow> server \<Rightarrow> server" where
  "server_trace ev q cyc tick st V = V\<lparr>sv_trace := trace_emit ev q cyc tick st (sv_trace V)\<rparr>"

text \<open>The first half: the request and the cycle it arrives at.\<close>

definition server_receive :: "options \<Rightarrow> nat \<Rightarrow> server \<Rightarrow> sim_io \<Rightarrow> (nat option \<times> ssd_request \<times> nat \<times> server \<times> sim_io) res" where
  "server_receive opt now V io =
     rbind (receiveSync (as_int (op_npuX opt)) (as_int (op_npuY opt)) (as_int (op_ssdX opt)) (as_int (op_ssdY opt)) io) (\<lambda>(p, io).
     rbind (pipe_read p 32 io) (\<lambda>(bs, io).
     if length bs \<noteq> 32 then Inr (Some 4, ssd_request_new, 0, V, io)
     else let q = request_of_bytes bs; V = server_trace ''SSD_REQUEST_FIFO_RECEIVED'' q (sv_cycle V) now (status_code Success) V in
       if nat INT_MAX < requestWireBytes q then Inr (Some 4, q, 0, V, io)
       else rbind (readSync (sv_cycle V) (as_int (op_npuX opt)) (as_int (op_npuY opt)) (as_int (op_ssdX opt)) (as_int (op_ssdY opt))
                     (int (requestWireBytes q)) 0 io) (\<lambda>(arrival, io).
            Inr (None, q, arrival, server_trace ''SSD_REQUEST_ARRIVED'' q arrival now (status_code Success) V, io))))"

text \<open>The second half: the response and its way back.\<close>

definition completion_cycle :: "fl \<Rightarrow> server \<Rightarrow> nat \<Rightarrow> ssd_response \<Rightarrow> nat res" where
  "completion_cycle rate V arrival a =
     rbind (if 0 < a_completed a then tick_to_cycle rate (a_completed a) else Inr (sv_cycle V)) (\<lambda>c. Inr (max c arrival))"

definition server_return :: "options \<Rightarrow> nat \<Rightarrow> ssd_request \<Rightarrow> ssd_response \<Rightarrow> nat \<Rightarrow> server \<Rightarrow> sim_io \<Rightarrow> (outcome \<times> server \<times> sim_io) res" where
  "server_return opt now q a c V io =
     (let bytes = (if a_status a = status_code Success then responseWireBytes q else kSsdReadCommandBytes) in
      if nat INT_MAX < bytes then Inr (Exit 5, V, io)
      else rbind (writeSync c (as_int (op_ssdX opt)) (as_int (op_ssdY opt)) (as_int (op_npuX opt)) (as_int (op_npuY opt)) (int bytes) 0 io) (\<lambda>(ret, io).
        let V = server_trace ''SSD_RESPONSE_TRANSFER_RESOLVED'' q ret (a_completed a) (a_status a) V; V = V\<lparr>sv_cycle := max c ret\<rparr> in
        Inr (if a_status a = status_code Success \<and> q_operation q = op_code Op_Shutdown
             then (Finished, server_trace ''SSD_SHUTDOWN'' q (sv_cycle V) now (a_status a) V, io) else (Again, V, io))))"

definition server_reply :: "options \<Rightarrow> nat \<Rightarrow> ssd_request \<Rightarrow> nat \<Rightarrow> ssd_response \<Rightarrow> server \<Rightarrow> sim_io \<Rightarrow> (outcome \<times> server \<times> sim_io) res" where
  "server_reply opt now q arrival a V io =
     rbind (completion_cycle (op_clockRate opt) V arrival a) (\<lambda>c.
     rbind (sendSync (as_int (op_ssdX opt)) (as_int (op_ssdY opt)) (as_int (op_npuX opt)) (as_int (op_npuY opt)) io) (\<lambda>(p, io).
     rbind (pipe_write p (response_bytes a) io) (\<lambda>(n, io).
     if n \<noteq> 32 then Inr (Exit 5, V, io) else server_return opt now q a c V io)))"

definition server_round :: "'w ssd_conf \<Rightarrow> options \<Rightarrow> nat \<Rightarrow> server \<times> sim_io \<times> 'w server_ssd \<Rightarrow> (outcome \<times> server \<times> sim_io \<times> 'w server_ssd) res" where
  "server_round C opt capacity = (\<lambda>(V, io, e, S).
     rbind (server_receive opt (en_simTick e) V io) (\<lambda>(exit, q, arrival, V, io).
     case exit of
       Some n \<Rightarrow> Inr (Exit n, V, io, e, S)
     | None \<Rightarrow>
         rbind (server_serve C (op_clockRate opt) capacity q arrival (V, e, S)) (\<lambda>(a, V, e, S).
         rbind (server_reply opt (en_simTick e) q arrival a V io) (\<lambda>(out, V, io). Inr (out, V, io, e, S)))))"

text \<open>The loop, for at most \<open>rounds\<close> requests, and the whole run with its exit code.\<close>

fun server_loop :: "'w ssd_conf \<Rightarrow> options \<Rightarrow> nat \<Rightarrow> nat \<Rightarrow> server \<times> sim_io \<times> 'w server_ssd \<Rightarrow> (nat \<times> server \<times> sim_io \<times> 'w server_ssd) res" where
  "server_loop C opt capacity 0 x = Inl (NoReturn ''runRuntimeIpc'')"
| "server_loop C opt capacity (Suc n) x =
     rbind (server_round C opt capacity x) (\<lambda>(out, x). case out of Again \<Rightarrow> server_loop C opt capacity n x | Finished \<Rightarrow> Inr (0, x) | Exit k \<Rightarrow> Inr (k, x))"

definition runRuntimeIpc :: "'w ssd_conf \<Rightarrow> options \<Rightarrow> nat \<Rightarrow> nat \<Rightarrow> nat \<Rightarrow> sim_io \<times> 'w server_ssd \<Rightarrow> (nat \<times> server \<times> sim_io \<times> 'w server_ssd) res" where
  "runRuntimeIpc C opt capacity minBlockSize rounds = (\<lambda>(io, x).
     let io = io_print (emitResult [''capacity'', to_string capacity, ''min_io_size'', to_string minBlockSize, ''runtime_ipc'', ''1'']) io in
     rbind (server_loop C opt capacity rounds (server_new, io, x)) (\<lambda>(code, V, io, x).
     if code \<noteq> 0 then Inr (code, V, io, x)
     else Inr (0, V, io_print (emitResult [''reads'', to_string (sv_reads V), ''writes'', to_string (sv_writes V), ''bytes_read'', to_string (sv_bytesRead V),
            ''bytes_written'', to_string (sv_bytesWritten V), ''completed'', to_string (sv_completed V)] @ emitCycle (sv_cycle V)) io, x)))"

end
