(* ===== verification/LegoServe.thy ===== *)
theory LegoServe
  imports LegoServer
begin

text \<open>
  What the server promises: every request that is answered is answered with its own identifier and with
  the status its check gives; only requests inside the capacity reach the SSD, where they do what the
  direct call does; and its counters are those of its trace.
\<close>

definition io_request :: "ssd_request \<Rightarrow> nat \<Rightarrow> bool" where
  "io_request q capacity \<longleftrightarrow> validateRuntimeRequest q capacity = Success \<and> q_operation q \<noteq> op_code Op_Shutdown"

lemma io_request_type: "io_request q capacity \<Longrightarrow> \<exists>ty. requestToBioType q = Some ty"
  by (auto simp: io_request_def validateRuntimeRequest_def split: if_splits)

lemma io_request_range:
  "io_request q capacity \<Longrightarrow> q_operation q \<noteq> op_code Op_Flush \<Longrightarrow> 0 < q_length q \<and> q_offset q + q_length q \<le> capacity"
  by (auto simp: io_request_def validateRuntimeRequest_def split: if_splits)

definition run_line :: "string \<Rightarrow> ssd_request \<Rightarrow> nat \<Rightarrow> nat \<Rightarrow> trace_line" where
  "run_line ev q cyc tick = \<lparr>tr_event = ev, tr_request = q, tr_cycle = cyc, tr_tick = tick, tr_status = status_code Success\<rparr>"

definition run_bio :: "ssd_request \<Rightarrow> bio_type \<Rightarrow> nat \<Rightarrow> (ssd_request \<times> nat) bio" where
  "run_bio q ty arrival = \<lparr>b_id = q_id q, b_type = ty, b_offset = q_offset q, b_length = q_length q, b_callback = (q, arrival), b_submittedAt = 0\<rparr>"

section \<open>The trace and the counters\<close>

definition served_lines :: "server \<Rightarrow> trace_line list" where
  "served_lines V = filter (\<lambda>l. tr_event l = ''SSD_BIO_COMPLETED'') (sv_trace V)"

definition served_of :: "ssd_op \<Rightarrow> server \<Rightarrow> ssd_request list" where
  "served_of o' V = filter (\<lambda>q. q_operation q = op_code o') (map tr_request (served_lines V))"

definition submitted_lines :: "server \<Rightarrow> trace_line list" where
  "submitted_lines V = filter (\<lambda>l. tr_event l = ''SSD_BIO_SUBMITTED'') (sv_trace V)"

text \<open>Every submitted request passed the check and was completed, and the counters count the completed ones.\<close>

definition server_inv :: "nat \<Rightarrow> server \<Rightarrow> bool" where
  "server_inv capacity V \<longleftrightarrow> (\<forall>l \<in> set (submitted_lines V). io_request (tr_request l) capacity) \<and>
     map tr_request (served_lines V) = map tr_request (submitted_lines V) \<and>
     sv_completed V = wrap64 (length (served_lines V)) \<and>
     sv_reads V = wrap64 (length (served_of Op_Read V)) \<and> sv_bytesRead V = wrap64 (sum_list (map q_length (served_of Op_Read V))) \<and>
     sv_writes V = wrap64 (length (served_of Op_Write V)) \<and> sv_bytesWritten V = wrap64 (sum_list (map q_length (served_of Op_Write V)))"

lemma wrap64_add: "wrap64 (wrap64 a + b) = wrap64 (a + b)"
  by (simp add: wrap64_def mod_add_left_eq)

lemma wrap64_Suc: "wrap64 (Suc (wrap64 a)) = wrap64 (Suc a)"
  using wrap64_add[of a 1] by simp

lemma server_new_inv: "server_inv capacity server_new"
  by (simp add: server_inv_def server_new_def served_lines_def submitted_lines_def served_of_def wrap64_def)

lemma server_inv_trace:
  assumes "ev \<noteq> ''SSD_BIO_SUBMITTED''" "ev \<noteq> ''SSD_BIO_COMPLETED''"
  shows "server_inv capacity (server_trace ev q cyc t st V) = server_inv capacity V"
  using assms by (simp add: server_inv_def server_trace_def trace_emit_def served_lines_def submitted_lines_def served_of_def)

lemma server_inv_cycle: "server_inv capacity (V\<lparr>sv_cycle := c\<rparr>) = server_inv capacity V"
  by (simp add: server_inv_def served_lines_def submitted_lines_def served_of_def)

lemma count_request_sel:
  "sv_trace (count_request q V) = sv_trace V" "sv_cycle (count_request q V) = sv_cycle V"
  "sv_completed (count_request q V) = wrap64 (sv_completed V + 1)"
  "sv_reads (count_request q V) = (if q_operation q = op_code Op_Read then wrap64 (sv_reads V + 1) else sv_reads V)"
  "sv_bytesRead (count_request q V) = (if q_operation q = op_code Op_Read then wrap64 (sv_bytesRead V + q_length q) else sv_bytesRead V)"
  "sv_writes (count_request q V) = (if q_operation q = op_code Op_Write then wrap64 (sv_writes V + 1) else sv_writes V)"
  "sv_bytesWritten (count_request q V) = (if q_operation q = op_code Op_Write then wrap64 (sv_bytesWritten V + q_length q) else sv_bytesWritten V)"
  by (simp_all add: count_request_def Let_def op_code_def)

lemma server_inv_count:
  assumes "server_inv capacity V" "io_request q capacity"
  shows "server_inv capacity (count_request q (V\<lparr>sv_trace := sv_trace V @ [run_line ''SSD_BIO_SUBMITTED'' q c t, run_line ''SSD_BIO_COMPLETED'' q c t']\<rparr>))"
proof -
  let ?V = "V\<lparr>sv_trace := sv_trace V @ [run_line ''SSD_BIO_SUBMITTED'' q c t, run_line ''SSD_BIO_COMPLETED'' q c t']\<rparr>"
  let ?W = "count_request q ?V"
  have l: "served_lines ?W = served_lines V @ [run_line ''SSD_BIO_COMPLETED'' q c t']"
    "submitted_lines ?W = submitted_lines V @ [run_line ''SSD_BIO_SUBMITTED'' q c t]"
    by (simp_all add: served_lines_def submitted_lines_def count_request_sel run_line_def)
  then have o': "served_of op ?W = served_of op V @ (if q_operation q = op_code op then [q] else [])" for op
    by (simp add: served_of_def run_line_def)
  show ?thesis using assms unfolding server_inv_def l o' count_request_sel
    by (simp add: run_line_def wrap64_add wrap64_Suc)
qed

lemma server_reply_cases:
  assumes "server_reply opt now q arrival a V io = Inr (out, V', io')"
  obtains (failed) "out = Exit 5" "V' = V"
  | (again) c ret where "completion_cycle (op_clockRate opt) V arrival a = Inr c" "out = Again" "\<not> (a_status a = status_code Success \<and> q_operation q = op_code Op_Shutdown)"
      "V' = (server_trace ''SSD_RESPONSE_TRANSFER_RESOLVED'' q ret (a_completed a) (a_status a) V)\<lparr>sv_cycle := max c ret\<rparr>"
  | (finished) c ret where "completion_cycle (op_clockRate opt) V arrival a = Inr c" "out = Finished" "a_status a = status_code Success" "q_operation q = op_code Op_Shutdown"
      "V' = server_trace ''SSD_SHUTDOWN'' q (max c ret) now (a_status a)
              ((server_trace ''SSD_RESPONSE_TRANSFER_RESOLVED'' q ret (a_completed a) (a_status a) V)\<lparr>sv_cycle := max c ret\<rparr>)"
proof -
  obtain c io2 and n :: nat where c: "completion_cycle (op_clockRate opt) V arrival a = Inr c"
    and r: "(if n \<noteq> 32 then Inr (Exit 5, V, io2) else server_return opt now q a c V io2) = Inr (out, V', io')"
    using assms by (auto simp: server_reply_def res_simps split_paired_Ex simp del: if_split)
  show thesis
  proof (cases "out = Exit 5 \<and> V' = V")
    case False
    then obtain ret io3 where w: "(let V = server_trace ''SSD_RESPONSE_TRANSFER_RESOLVED'' q ret (a_completed a) (a_status a) V; V = V\<lparr>sv_cycle := max c ret\<rparr> in
         if a_status a = status_code Success \<and> q_operation q = op_code Op_Shutdown
              then (Finished, server_trace ''SSD_SHUTDOWN'' q (sv_cycle V) now (a_status a) V, io3) else (Again, V, io3)) = (out, V', io')"
      using r by (auto simp: server_return_def res_simps split_paired_Ex Let_def split: if_splits)
    show thesis
    proof (cases "a_status a = status_code Success \<and> q_operation q = op_code Op_Shutdown")
      case True
      then show thesis using w c by (intro that(3)[of c ret]) (auto simp: Let_def)
    next
      case f: False
      show thesis using w c f by (intro that(2)[of c ret]) (auto simp: Let_def)
    qed
  qed (use that(1) in blast)
qed

context timely_icl
begin

lemma server_serve_ok:
  assumes idle: "ssd_quiet L (e, S)" "P (sd_world S)" and conf: "sc_low C = L" "0 < dr_logicalPageSize (sc_driver C)"
    and run: "server_serve C rate capacity q arrival (V, e, S) = Inr (a, V', e', S')"
  shows "ssd_quiet L (e', S') \<and> P (sd_world S') \<and> clockPeriod (sd_cpu S') = clockPeriod (sd_cpu S) \<and>
    a_magic a = kSsdIpcMagic \<and> a_version a = kSsdIpcVersion \<and> a_id a = q_id q \<and>
    a_status a = status_code (validateRuntimeRequest q capacity)"
    and "\<not> io_request q capacity \<Longrightarrow> e' = e \<and> S' = S \<and> V' = V \<and> a_submitted a = 0 \<and> a_completed a = 0"
    and "io_request q capacity \<Longrightarrow> \<exists>ty t. requestToBioType q = Some ty \<and> cycle_to_tick rate arrival = Inr t \<and>
      ssd_direct L (sc_driver C) (clockPeriod (sd_cpu S)) (run_bio q ty arrival) (max (en_simTick e) t) (ssd_view (e, S)) (Inr (ssd_view (e', S'))) \<and>
      a_submitted a = max (en_simTick e) t \<and> a_completed a = en_simTick e' \<and> a_submitted a < a_completed a \<and>
      V' = count_request q (V\<lparr>sv_trace := sv_trace V @ [run_line ''SSD_BIO_SUBMITTED'' q arrival (a_submitted a), run_line ''SSD_BIO_COMPLETED'' q arrival (a_completed a)]\<rparr>)"
proof -
  define st where "st = validateRuntimeRequest q capacity"
  define a0 where "a0 = ssd_response_new\<lparr>a_id := q_id q, a_status := status_code st\<rparr>"
  have a0: "a_magic a0 = kSsdIpcMagic" "a_version a0 = kSsdIpcVersion" "a_id a0 = q_id q" "a_status a0 = status_code st" "a_submitted a0 = 0" "a_completed a0 = 0"
    by (simp_all add: a0_def ssd_response_new_def)
  have off: "a = a0 \<and> V' = V \<and> e' = e \<and> S' = S" if "\<not> io_request q capacity"
  proof -
    have "\<not> (st = Success \<and> q_operation q \<noteq> op_code Op_Shutdown)" using that by (simp add: io_request_def st_def)
    then have "server_serve C rate capacity q arrival (V, e, S) = Inr (a0, V, e, S)"
      unfolding server_serve_def prod.case Let_def st_def[symmetric] a0_def[symmetric] by (rule if_not_P)
    then show ?thesis using run by simp
  qed
  have on: "\<exists>ty t. requestToBioType q = Some ty \<and> cycle_to_tick rate arrival = Inr t \<and>
      ssd_direct L (sc_driver C) (clockPeriod (sd_cpu S)) (run_bio q ty arrival) (max (en_simTick e) t) (ssd_view (e, S)) (Inr (ssd_view (e', S'))) \<and>
      a = a0\<lparr>a_submitted := max (en_simTick e) t, a_completed := en_simTick e'\<rparr> \<and> max (en_simTick e) t < en_simTick e' \<and>
      V' = count_request q (V\<lparr>sv_trace := sv_trace V @ [run_line ''SSD_BIO_SUBMITTED'' q arrival (max (en_simTick e) t), run_line ''SSD_BIO_COMPLETED'' q arrival (en_simTick e')]\<rparr>) \<and>
      ssd_quiet L (e', S') \<and> P (sd_world S') \<and> clockPeriod (sd_cpu S') = clockPeriod (sd_cpu S)" if io: "io_request q capacity"
  proof -
    obtain ty where ty: "requestToBioType q = Some ty" using io_request_type[OF io] by blast
    have c: "st = Success \<and> q_operation q \<noteq> op_code Op_Shutdown" using io by (simp add: io_request_def st_def)
    define S0 where "S0 = S\<lparr>sd_client := \<lparr>rn_submitted = 0, rn_completed = 0, rn_done = False, rn_trace = sv_trace V\<rparr>\<rparr>"
    obtain t e1 S1 where t: "cycle_to_tick rate arrival = Inr t"
      and s: "ssd_serve L (sc_driver C) run_callback (sc_fuel C) (run_prepare q ty arrival) rn_done (max (en_simTick e) t) (e, S0) = Inr (e1, S1)"
      and r: "(let r = sd_client S1; a = a0\<lparr>a_submitted := rn_submitted r, a_completed := rn_completed r\<rparr>; V = V\<lparr>sv_trace := rn_trace r\<rparr> in
            (if rn_done r then (a, count_request q V, e1, S1)
                 else (a\<lparr>a_status := status_code InternalError, a_completed := en_simTick e1\<rparr>, V, e1, S1))) = (a, V', e', S')"
      using run unfolding server_serve_def prod.case Let_def st_def[symmetric] a0_def[symmetric] if_P[OF c] ty option.case conf S0_def
      by (auto simp: res_simps split_paired_Ex)
    define T where "T = max (en_simTick e) t"
    define s1 where "s1 = \<lparr>rn_submitted = T, rn_completed = 0, rn_done = False, rn_trace = sv_trace V @ [run_line ''SSD_BIO_SUBMITTED'' q arrival T]\<rparr>"
    have i0: "ssd_quiet L (e, S0)" "P (sd_world S0)" using idle by (simp_all add: ssd_quiet_def S0_def)
    have pr: "run_prepare q ty arrival (max (en_simTick e) (max (en_simTick e) t)) (sd_client S0) = (run_bio q ty arrival, s1)"
      by (simp add: run_prepare_def S0_def s1_def T_def run_bio_def trace_emit_def run_line_def)
    have fin: "\<not> rn_done (sd_client S0)" "\<not> rn_done s1"
      "\<And>t. rn_done (run_callback (b_callback (run_bio q ty arrival)) (b_id (run_bio q ty arrival)) t s1)"
      by (simp_all add: S0_def s1_def run_callback_def run_bio_def)
    note ref = serve_any[where prepare = "run_prepare q ty arrival" and fin = rn_done and invoke = run_callback, OF i0 conf(2) pr fin s]
    have v0: "ssd_view (e, S0) = ssd_view (e, S)" "clockPeriod (sd_cpu S0) = clockPeriod (sd_cpu S)" by (simp_all add: ssd_view_def S0_def)
    have d: "ssd_direct L (sc_driver C) (clockPeriod (sd_cpu S)) (run_bio q ty arrival) T (ssd_view (e, S)) (Inr (ssd_view (e1, S1)))"
      using ref v0 by (simp add: T_def)
    have k: "ssd_quiet L (e1, S1)" "P (sd_world S1)" "T < en_simTick e1" "clockPeriod (sd_cpu S1) = clockPeriod (sd_cpu S)"
      "sd_client S1 = run_callback (b_callback (run_bio q ty arrival)) (b_id (run_bio q ty arrival)) (en_simTick e1) s1"
      using ref v0 by (simp_all add: T_def serve_left_def)
    have cl: "sd_client S1 = \<lparr>rn_submitted = T, rn_completed = en_simTick e1, rn_done = True,
        rn_trace = sv_trace V @ [run_line ''SSD_BIO_SUBMITTED'' q arrival T, run_line ''SSD_BIO_COMPLETED'' q arrival (en_simTick e1)]\<rparr>"
      using k(5) by (simp add: run_callback_def run_bio_def s1_def trace_emit_def run_line_def)
    have "a = a0\<lparr>a_submitted := T, a_completed := en_simTick e1\<rparr>" "e' = e1" "S' = S1"
      "V' = count_request q (V\<lparr>sv_trace := sv_trace V @ [run_line ''SSD_BIO_SUBMITTED'' q arrival T, run_line ''SSD_BIO_COMPLETED'' q arrival (en_simTick e1)]\<rparr>)"
      using r by (auto simp: Let_def cl)
    then show ?thesis using ty t d k by (intro exI[of _ ty] exI[of _ t]) (simp add: T_def)
  qed
  show "ssd_quiet L (e', S') \<and> P (sd_world S') \<and> clockPeriod (sd_cpu S') = clockPeriod (sd_cpu S) \<and>
    a_magic a = kSsdIpcMagic \<and> a_version a = kSsdIpcVersion \<and> a_id a = q_id q \<and>
    a_status a = status_code (validateRuntimeRequest q capacity)"
    using off on idle a0 by (cases "io_request q capacity") (auto simp: st_def)
  show "\<not> io_request q capacity \<Longrightarrow> e' = e \<and> S' = S \<and> V' = V \<and> a_submitted a = 0 \<and> a_completed a = 0"
    using off a0 by simp
  show "\<exists>ty t. requestToBioType q = Some ty \<and> cycle_to_tick rate arrival = Inr t \<and>
      ssd_direct L (sc_driver C) (clockPeriod (sd_cpu S)) (run_bio q ty arrival) (max (en_simTick e) t) (ssd_view (e, S)) (Inr (ssd_view (e', S'))) \<and>
      a_submitted a = max (en_simTick e) t \<and> a_completed a = en_simTick e' \<and> a_submitted a < a_completed a \<and>
      V' = count_request q (V\<lparr>sv_trace := sv_trace V @ [run_line ''SSD_BIO_SUBMITTED'' q arrival (a_submitted a), run_line ''SSD_BIO_COMPLETED'' q arrival (a_completed a)]\<rparr>)"
    if io: "io_request q capacity"
  proof -
    obtain ty t where "requestToBioType q = Some ty \<and> cycle_to_tick rate arrival = Inr t \<and>
      ssd_direct L (sc_driver C) (clockPeriod (sd_cpu S)) (run_bio q ty arrival) (max (en_simTick e) t) (ssd_view (e, S)) (Inr (ssd_view (e', S'))) \<and>
      a = a0\<lparr>a_submitted := max (en_simTick e) t, a_completed := en_simTick e'\<rparr> \<and> max (en_simTick e) t < en_simTick e' \<and>
      V' = count_request q (V\<lparr>sv_trace := sv_trace V @ [run_line ''SSD_BIO_SUBMITTED'' q arrival (max (en_simTick e) t), run_line ''SSD_BIO_COMPLETED'' q arrival (en_simTick e')]\<rparr>)"
      using on[OF io] by blast
    then show ?thesis by (intro exI[of _ ty] exI[of _ t]) simp
  qed
qed

text \<open>A round, whatever the environment does.\<close>

lemma server_round_ok:
  assumes idle: "ssd_quiet L (e, S)" "P (sd_world S)" and conf: "sc_low C = L" "0 < dr_logicalPageSize (sc_driver C)"
    and inv: "server_inv capacity V"
    and run: "server_round C opt capacity (V, io, e, S) = Inr (out, V', io', e', S')"
  shows "ssd_quiet L (e', S') \<and> P (sd_world S') \<and> server_inv capacity V' \<and> (\<forall>k. out = Exit k \<longrightarrow> k = 4 \<or> k = 5) \<and>
    (out = Finished \<longrightarrow> (\<exists>l. sv_trace V' \<noteq> [] \<and> l = last (sv_trace V') \<and> tr_event l = ''SSD_SHUTDOWN'' \<and> tr_cycle l = sv_cycle V' \<and>
       validateRuntimeRequest (tr_request l) capacity = Success \<and> q_operation (tr_request l) = op_code Op_Shutdown))"
proof -
  obtain ex q arrival V1 io1 where rc: "server_receive opt (en_simTick e) V io = Inr (ex, q, arrival, V1, io1)"
    and rest: "(case ex of Some n \<Rightarrow> Inr (Exit n, V1, io1, e, S)
     | None \<Rightarrow> rbind (server_serve C (op_clockRate opt) capacity q arrival (V1, e, S)) (\<lambda>(a, V, e, S).
         rbind (server_reply opt (en_simTick e) q arrival a V io1) (\<lambda>(out, V, io). Inr (out, V, io, e, S)))) = Inr (out, V', io', e', S')"
    using run by (auto simp: server_round_def res_simps split_paired_Ex)
  have v1: "server_inv capacity V1" "ex = None \<or> ex = Some 4"
    using rc inv by (auto simp: server_receive_def res_simps split_paired_Ex Let_def server_inv_trace split: if_splits)
  show ?thesis
  proof (cases ex)
    case (Some k)
    then show ?thesis using rest v1 idle by auto
  next
    case None
    obtain a V2 e2 S2 where sv: "server_serve C (op_clockRate opt) capacity q arrival (V1, e, S) = Inr (a, V2, e2, S2)"
      and rp: "server_reply opt (en_simTick e2) q arrival a V2 io1 = Inr (out, V', io')" and eq: "e' = e2" "S' = S2"
      using rest None by (auto simp: res_simps split_paired_Ex)
    note so = server_serve_ok[OF idle conf sv]
    have v2: "server_inv capacity V2"
    proof (cases "io_request q capacity")
      case True
      then show ?thesis using so(3)[OF True] server_inv_count[OF v1(1) True] by auto
    qed (use so(2) v1(1) in simp)
    have sd: "(a_status a = status_code Success) = (validateRuntimeRequest q capacity = Success)"
      using so(1) by (cases "validateRuntimeRequest q capacity") (simp_all add: status_code_def)
    have "server_inv capacity V' \<and> (\<forall>k. out = Exit k \<longrightarrow> k = 4 \<or> k = 5) \<and>
        (out = Finished \<longrightarrow> (\<exists>l. sv_trace V' \<noteq> [] \<and> l = last (sv_trace V') \<and> tr_event l = ''SSD_SHUTDOWN'' \<and> tr_cycle l = sv_cycle V' \<and>
           validateRuntimeRequest (tr_request l) capacity = Success \<and> q_operation (tr_request l) = op_code Op_Shutdown))"
      using rp
    proof (cases rule: server_reply_cases)
      case failed
      then show ?thesis using v2 by simp
    next
      case (again c ret)
      then show ?thesis using v2 by (simp add: server_inv_trace server_inv_cycle)
    next
      case (finished c ret)
      then have "server_inv capacity V'" using v2 by (simp add: server_inv_trace server_inv_cycle)
      moreover have "sv_trace V' \<noteq> []" "last (sv_trace V') = \<lparr>tr_event = ''SSD_SHUTDOWN'', tr_request = q, tr_cycle = max c ret, tr_tick = en_simTick e2, tr_status = a_status a\<rparr>"
        "sv_cycle V' = max c ret" unfolding finished(5) by (simp_all add: server_trace_def trace_emit_def)
      ultimately show ?thesis using finished(2-4) sd by simp
    qed
    then show ?thesis using so(1) eq by auto
  qed
qed

text \<open>The whole loop.\<close>

lemma server_loop_ok:
  "\<lbrakk>server_loop C opt capacity rounds (V, io, e, S) = Inr (code, V', io', e', S'); ssd_quiet L (e, S); P (sd_world S); sc_low C = L;
    0 < dr_logicalPageSize (sc_driver C); server_inv capacity V\<rbrakk> \<Longrightarrow>
   ssd_quiet L (e', S') \<and> P (sd_world S') \<and> server_inv capacity V' \<and> code \<in> {0, 4, 5} \<and>
   (code = 0 \<longrightarrow> (\<exists>l. sv_trace V' \<noteq> [] \<and> l = last (sv_trace V') \<and> tr_event l = ''SSD_SHUTDOWN'' \<and> tr_cycle l = sv_cycle V' \<and>
       validateRuntimeRequest (tr_request l) capacity = Success \<and> q_operation (tr_request l) = op_code Op_Shutdown))"
proof (induction rounds arbitrary: V io e S)
  case (Suc m)
  obtain out V1 io1 e1 S1 where r: "server_round C opt capacity (V, io, e, S) = Inr (out, V1, io1, e1, S1)"
    and rest: "(case out of Again \<Rightarrow> server_loop C opt capacity m (V1, io1, e1, S1) | Finished \<Rightarrow> Inr (0, V1, io1, e1, S1) | Exit k \<Rightarrow> Inr (k, V1, io1, e1, S1)) =
        Inr (code, V', io', e', S')"
    using Suc.prems(1) by (auto simp: res_simps split_paired_Ex)
  note ro = server_round_ok[OF Suc.prems(2-6) r]
  show ?case
  proof (cases out)
    case Again
    have l: "server_loop C opt capacity m (V1, io1, e1, S1) = Inr (code, V', io', e', S')" using rest Again by simp
    show ?thesis by (rule Suc.IH[OF l _ _ Suc.prems(4,5)]) (use ro in simp_all)
  next
    case Finished
    then show ?thesis using rest ro by auto
  next
    case (Exit k)
    then show ?thesis using rest ro by auto
  qed
qed simp

lemma server_serve_total:
  assumes idle: "ssd_quiet L (e, S)" "P (sd_world S)" and conf: "sc_low C = L" "0 < dr_logicalPageSize (sc_driver C)"
    and io: "io_request q capacity" "requestToBioType q = Some ty" "cycle_to_tick rate arrival = Inr t"
    and answers: "\<And>r. ssd_direct L (sc_driver C) (clockPeriod (sd_cpu S)) (run_bio q ty arrival) (max (en_simTick e) t) (ssd_view (e, S)) r \<Longrightarrow> \<exists>v. r = Inr v"
  shows "\<exists>n. \<forall>fuel \<ge> n. \<exists>x. server_serve (C\<lparr>sc_fuel := fuel\<rparr>) rate capacity q arrival (V, e, S) = Inr x"
proof -
  let ?S = "S\<lparr>sd_client := \<lparr>rn_submitted = 0, rn_completed = 0, rn_done = False, rn_trace = sv_trace V\<rparr>\<rparr>"
  let ?serve = "\<lambda>n. ssd_serve L (sc_driver C) run_callback n (run_prepare q ty arrival) rn_done (max (en_simTick e) t) (e, ?S)"
  let ?s1 = "snd (run_prepare q ty arrival (max (en_simTick e) t) (sd_client ?S))"
  have c: "validateRuntimeRequest q capacity = Success \<and> q_operation q \<noteq> op_code Op_Shutdown" using io(1) by (simp add: io_request_def)
  have i0: "ssd_quiet L (e, ?S)" "P (sd_world ?S)" using idle by (simp_all add: ssd_quiet_def)
  have pr: "run_prepare q ty arrival (max (en_simTick e) (max (en_simTick e) t)) (sd_client ?S) = (run_bio q ty arrival, ?s1)"
    by (simp add: run_prepare_def run_bio_def)
  have fin: "\<not> rn_done (sd_client ?S)" "\<not> rn_done ?s1"
    "\<And>u. rn_done (run_callback (b_callback (run_bio q ty arrival)) (b_id (run_bio q ty arrival)) u ?s1)"
    by (simp_all add: run_prepare_def run_callback_def run_bio_def)
  obtain n res where res: "\<forall>m. ?serve (n + m) = res"
    "ssd_direct L (sc_driver C) (clockPeriod (sd_cpu ?S)) (run_bio q ty arrival) (max (en_simTick e) t) (ssd_view (e, ?S)) (map_sum id ssd_view res)"
    using serve_refines[where prepare = "run_prepare q ty arrival" and fin = rn_done and invoke = run_callback, OF i0 conf(2) pr fin] by blast
  obtain z where z: "res = Inr z" using answers[of "map_sum id ssd_view res"] res(2) by (cases res) (auto simp: ssd_view_def)
  show ?thesis
  proof (intro exI[of _ n] allI impI)
    fix fuel assume "n \<le> fuel"
    then have "?serve fuel = Inr z" using res(1) z by (metis le_Suc_ex)
    then show "\<exists>x. server_serve (C\<lparr>sc_fuel := fuel\<rparr>) rate capacity q arrival (V, e, S) = Inr x"
      unfolding server_serve_def prod.case Let_def if_P[OF c] io(2,3) option.case by (cases z) (simp add: conf)
  qed
qed

end

section \<open>A round that the bridge answers\<close>

text \<open>
  The bridge answers the four commands of a round in order: the FIFO of the request, its arrival, the
  FIFO of the response, its arrival; the request is in the FIFO, and the FIFOs make progress.
\<close>

definition round_env :: "string \<Rightarrow> string \<Rightarrow> ssd_request \<Rightarrow> nat \<Rightarrow> nat \<Rightarrow> string list \<Rightarrow> sim_io \<Rightarrow> bool" where
  "round_env p p' q arrival ret ms io \<longleftrightarrow>
     io_reads io = sendResultCmd_strings [p] # sendSyncCmd_desc (int arrival) 0 # sendResultCmd_strings [p'] # sendSyncCmd_desc (int ret) 0 # ms \<and>
     p \<noteq> [] \<and> (\<forall>c \<in> set p. \<not> is_space c) \<and> length (pipe_answer p) < 1023 \<and>
     p' \<noteq> [] \<and> (\<forall>c \<in> set p'. \<not> is_space c) \<and> length (pipe_answer p') < 1023 \<and>
     arrival < 2 ^ 53 \<and> ret < 2 ^ 53 \<and> length (transfer_answer (int arrival) 0) < 1023 \<and> length (transfer_answer (int ret) 0) < 1023 \<and>
     io_steady p 32 io \<and> take 32 (io_pending p io) = request_bytes q \<and> request_fits q \<and>
     steady (io_takes io p') \<and> 32 \<le> length (io_takes io p')"

lemma server_receive_env:
  assumes "round_env p p' q arrival ret ms io" "requestWireBytes q \<le> nat INT_MAX"
  shows "\<exists>io'. server_receive opt now V io = Inr (None, q, arrival, server_trace ''SSD_REQUEST_ARRIVED'' q arrival now (status_code Success)
        (server_trace ''SSD_REQUEST_FIFO_RECEIVED'' q (sv_cycle V) now (status_code Success) V), io') \<and>
      io_reads io' = sendResultCmd_strings [p'] # sendSyncCmd_desc (int ret) 0 # ms \<and> io_sent io' = io_sent io \<and> io_takes io' = io_takes io \<and>
      io_pending p io' = drop 32 (io_pending p io)"
proof -
  have env: "io_reads io = sendResultCmd_strings [p] # sendSyncCmd_desc (int arrival) 0 # sendResultCmd_strings [p'] # sendSyncCmd_desc (int ret) 0 # ms"
    "p \<noteq> []" "\<forall>c \<in> set p. \<not> is_space c" "length (pipe_answer p) < 1023" "0 \<le> int arrival" "int arrival < 2 ^ 53" "length (transfer_answer (int arrival) 0) < 1023"
    "io_steady p 32 io" "take 32 (io_pending p io) = request_bytes q" "request_fits q"
    using assms(1) by (auto simp: round_env_def)
  obtain io1 where r1: "receiveSync (as_int (op_npuX opt)) (as_int (op_npuY opt)) (as_int (op_ssdX opt)) (as_int (op_ssdY opt)) io = Inr (p, io1)"
    "io_reads io1 = sendSyncCmd_desc (int arrival) 0 # sendResultCmd_strings [p'] # sendSyncCmd_desc (int ret) 0 # ms" "io_fifo io1 = io_fifo io"
    "io_units io1 = io_units io" "io_sent io1 = io_sent io" "io_takes io1 = io_takes io"
    using pipe_answered(1)[OF env(1-4)] by auto
  have pe: "io_pending p io1 = io_pending p io" "io_steady p 32 io1 = io_steady p 32 io"
    using r1 by (simp_all add: io_pending_def io_unit_def io_steady_def)
  obtain io2 where r2: "pipe_read p 32 io1 = Inr (request_bytes q, io2)" "io_pending p io2 = drop 32 (io_pending p io)" "io_reads io2 = io_reads io1"
    "io_sent io2 = io_sent io1" "io_takes io2 = io_takes io1"
    using pipe_read_ok[of p 32 io1] env(8,9) pe by auto
  obtain io3 where r3: "readSync (sv_cycle V) (as_int (op_npuX opt)) (as_int (op_npuY opt)) (as_int (op_ssdX opt)) (as_int (op_ssdY opt))
      (int (requestWireBytes q)) 0 io2 = Inr (arrival, io3)" "io_reads io3 = sendResultCmd_strings [p'] # sendSyncCmd_desc (int ret) 0 # ms"
    "io_fifo io3 = io_fifo io2" "io_units io3 = io_units io2" "io_sent io3 = io_sent io2" "io_takes io3 = io_takes io2"
    using transfer_answered(1)[of io2 "int arrival" 0] env(5-7) r2(3) r1(2) by auto
  have "io_pending p io3 = io_pending p io2" using r3 by (simp add: io_pending_def io_unit_def)
  then show ?thesis using r1 r2 r3 env(10) assms(2) by (simp add: server_receive_def request_round_trip Let_def server_trace_def)
qed

lemma server_reply_env:
  assumes "io_reads io = sendResultCmd_strings [p'] # sendSyncCmd_desc (int ret) 0 # ms" "p' \<noteq> []" "\<forall>c \<in> set p'. \<not> is_space c" "length (pipe_answer p') < 1023"
    "ret < 2 ^ 53" "length (transfer_answer (int ret) 0) < 1023" "steady (io_takes io p')" "32 \<le> length (io_takes io p')"
    and "completion_cycle (op_clockRate opt) V arrival a = Inr c" "responseWireBytes q \<le> nat INT_MAX"
  shows "\<exists>out V' io'. server_reply opt now q arrival a V io = Inr (out, V', io') \<and>
    out = (if a_status a = status_code Success \<and> q_operation q = op_code Op_Shutdown then Finished else Again) \<and>
    sv_cycle V' = max c ret \<and> io_reads io' = ms \<and> io_sent io' = (io_sent io)(p' := io_sent io p' @ response_bytes a) \<and> io_fifo io' = io_fifo io"
proof -
  obtain io1 where r1: "sendSync (as_int (op_ssdX opt)) (as_int (op_ssdY opt)) (as_int (op_npuX opt)) (as_int (op_npuY opt)) io = Inr (p', io1)"
    "io_reads io1 = sendSyncCmd_desc (int ret) 0 # ms" "io_sent io1 = io_sent io" "io_takes io1 = io_takes io" "io_fifo io1 = io_fifo io"
    using pipe_answered(2)[OF assms(1-4)] by auto
  obtain io2 where r2: "pipe_write p' (response_bytes a) io1 = Inr (32, io2)" "io_sent io2 = (io_sent io)(p' := io_sent io p' @ response_bytes a)"
    "io_reads io2 = io_reads io1" "io_fifo io2 = io_fifo io"
    using pipe_write_ok[of io1 p' "response_bytes a"] assms(7,8) r1 by auto
  let ?bytes = "if a_status a = status_code Success then responseWireBytes q else kSsdReadCommandBytes"
  have b: "\<not> nat INT_MAX < ?bytes" using assms(10) by (simp add: kSsdReadCommandBytes_def INT_MAX_def)
  obtain io3 where r3: "writeSync c (as_int (op_ssdX opt)) (as_int (op_ssdY opt)) (as_int (op_npuX opt)) (as_int (op_npuY opt)) (int ?bytes) 0 io2 = Inr (ret, io3)"
    "io_reads io3 = ms" "io_sent io3 = io_sent io2" "io_fifo io3 = io_fifo io2"
    using transfer_answered(2)[of io2 "int ret" 0] assms(5,6) r2(3) r1(2) by auto
  show ?thesis using r1 r2 r3 b assms(9) unfolding server_reply_def server_return_def Let_def
    by (simp add: server_trace_def)
qed

context timely_icl
begin

text \<open>
  A request inside the capacity, on a quiet SSD, with the bridge and the FIFOs as above: if the ICL answers
  whatever the periodic events did before, so does the server, with the times of the call.
\<close>

lemma server_round_answers:
  assumes idle: "ssd_quiet L (e, S)" "P (sd_world S)" and conf: "sc_low C = L" "0 < dr_logicalPageSize (sc_driver C)"
    and env: "round_env p p' q arrival ret ms io" and bytes: "requestWireBytes q \<le> nat INT_MAX" "responseWireBytes q \<le> nat INT_MAX"
    and req: "io_request q capacity" "requestToBioType q = Some ty" "cycle_to_tick (op_clockRate opt) arrival = Inr t"
    and answers: "\<And>r. ssd_direct L (sc_driver C) (clockPeriod (sd_cpu S)) (run_bio q ty arrival) (max (en_simTick e) t) (ssd_view (e, S)) r \<Longrightarrow>
        \<exists>t2 v c. r = Inr (t2, v) \<and> tick_to_cycle (op_clockRate opt) t2 = Inr c"
  shows "\<exists>n. \<forall>fuel \<ge> n. \<exists>V' io' e' S' c. server_round (C\<lparr>sc_fuel := fuel\<rparr>) opt capacity (V, io, e, S) = Inr (Again, V', io', e', S') \<and>
    ssd_quiet L (e', S') \<and> P (sd_world S') \<and>
    ssd_direct L (sc_driver C) (clockPeriod (sd_cpu S)) (run_bio q ty arrival) (max (en_simTick e) t) (ssd_view (e, S)) (Inr (ssd_view (e', S'))) \<and>
    tick_to_cycle (op_clockRate opt) (en_simTick e') = Inr c \<and> sv_cycle V' = max (max c arrival) ret \<and> io_reads io' = ms \<and>
    io_sent io' = (io_sent io)(p' := io_sent io p' @ response_bytes \<lparr>a_magic = kSsdIpcMagic, a_version = kSsdIpcVersion, a_status = status_code Success,
      a_id = q_id q, a_submitted = max (en_simTick e) t, a_completed = en_simTick e'\<rparr>)"
proof -
  obtain io1 where rc: "server_receive opt (en_simTick e) V io = Inr (None, q, arrival, server_trace ''SSD_REQUEST_ARRIVED'' q arrival (en_simTick e) (status_code Success)
        (server_trace ''SSD_REQUEST_FIFO_RECEIVED'' q (sv_cycle V) (en_simTick e) (status_code Success) V), io1)"
      "io_reads io1 = sendResultCmd_strings [p'] # sendSyncCmd_desc (int ret) 0 # ms" "io_sent io1 = io_sent io" "io_takes io1 = io_takes io"
    using server_receive_env[OF env bytes(1)] by blast
  define V1 where "V1 = server_trace ''SSD_REQUEST_ARRIVED'' q arrival (en_simTick e) (status_code Success)
        (server_trace ''SSD_REQUEST_FIFO_RECEIVED'' q (sv_cycle V) (en_simTick e) (status_code Success) V)"
  have "\<exists>v. r = Inr v" if "ssd_direct L (sc_driver C) (clockPeriod (sd_cpu S)) (run_bio q ty arrival) (max (en_simTick e) t) (ssd_view (e, S)) r" for r
    using answers[OF that] by blast
  from server_serve_total[OF idle conf req this, of V1] obtain n
    where n: "\<forall>fuel \<ge> n. \<exists>x. server_serve (C\<lparr>sc_fuel := fuel\<rparr>) (op_clockRate opt) capacity q arrival (V1, e, S) = Inr x" by blast
  show ?thesis
  proof (intro exI[of _ n] allI impI)
    fix fuel assume "n \<le> fuel"
    let ?C = "C\<lparr>sc_fuel := fuel\<rparr>"
    obtain a V2 e2 S2 where sv: "server_serve ?C (op_clockRate opt) capacity q arrival (V1, e, S) = Inr (a, V2, e2, S2)"
      using n[rule_format, OF \<open>n \<le> fuel\<close>] by (metis surj_pair)
    have conf': "sc_low ?C = L" "0 < dr_logicalPageSize (sc_driver ?C)" using conf by simp_all
    note so = server_serve_ok[OF idle conf' sv]
    have sub: "a_submitted a = max (en_simTick e) t" "a_completed a = en_simTick e2" "max (en_simTick e) t < en_simTick e2"
      and dir: "ssd_direct L (sc_driver C) (clockPeriod (sd_cpu S)) (run_bio q ty arrival) (max (en_simTick e) t) (ssd_view (e, S)) (Inr (ssd_view (e2, S2)))"
      using so(3)[OF req(1)] req by auto
    obtain c where c: "tick_to_cycle (op_clockRate opt) (en_simTick e2) = Inr c" using answers[OF dir] by (auto simp: ssd_view_def)
    have st: "a_status a = status_code Success" "a_id a = q_id q" "a_magic a = kSsdIpcMagic" "a_version a = kSsdIpcVersion"
      using so(1) req(1) by (simp_all add: io_request_def)
    have a: "a = \<lparr>a_magic = kSsdIpcMagic, a_version = kSsdIpcVersion, a_status = status_code Success, a_id = q_id q, a_submitted = max (en_simTick e) t,
        a_completed = en_simTick e2\<rparr>"
      using sub st by (cases a) simp
    have cc: "completion_cycle (op_clockRate opt) V2 arrival a = Inr (max c arrival)" using c sub by (simp add: completion_cycle_def)
    have env2: "p' \<noteq> []" "\<forall>c \<in> set p'. \<not> is_space c" "length (pipe_answer p') < 1023" "ret < 2 ^ 53" "length (transfer_answer (int ret) 0) < 1023"
      "steady (io_takes io1 p')" "32 \<le> length (io_takes io1 p')" using env rc(4) by (auto simp: round_env_def)
    obtain out V3 io3 where rp: "server_reply opt (en_simTick e2) q arrival a V2 io1 = Inr (out, V3, io3)"
        "out = (if a_status a = status_code Success \<and> q_operation q = op_code Op_Shutdown then Finished else Again)"
        "sv_cycle V3 = max (max c arrival) ret" "io_reads io3 = ms" "io_sent io3 = (io_sent io)(p' := io_sent io p' @ response_bytes a)"
      using server_reply_env[OF rc(2) env2 cc bytes(2), of "en_simTick e2"] rc(3) by auto
    have "out = Again" using rp(2) req(1) by (simp add: io_request_def)
    then have "server_round ?C opt capacity (V, io, e, S) = Inr (Again, V3, io3, e2, S2)"
      using rc(1) sv rp(1) by (simp add: server_round_def V1_def)
    then show "\<exists>V' io' e' S' c. server_round ?C opt capacity (V, io, e, S) = Inr (Again, V', io', e', S') \<and>
        ssd_quiet L (e', S') \<and> P (sd_world S') \<and>
        ssd_direct L (sc_driver C) (clockPeriod (sd_cpu S)) (run_bio q ty arrival) (max (en_simTick e) t) (ssd_view (e, S)) (Inr (ssd_view (e', S'))) \<and>
        tick_to_cycle (op_clockRate opt) (en_simTick e') = Inr c \<and> sv_cycle V' = max (max c arrival) ret \<and> io_reads io' = ms \<and>
        io_sent io' = (io_sent io)(p' := io_sent io p' @ response_bytes \<lparr>a_magic = kSsdIpcMagic, a_version = kSsdIpcVersion, a_status = status_code Success,
          a_id = q_id q, a_submitted = max (en_simTick e) t, a_completed = en_simTick e'\<rparr>)"
      using so(1) dir c rp(3-5) a by (intro exI[of _ V3] exI[of _ io3] exI[of _ e2] exI[of _ S2] exI[of _ c] conjI) simp_all
  qed
qed

end

end
