(* ===== verification/SsdBoot.thy ===== *)
theory SsdBoot
  imports LegoServe
begin

text \<open>
  The simulator from its constructors to the first request: the cores of the processor, the DRAM and the flash array with
  their periodic events, the HIL, the driver, and the loop of \<open>main\<close> that runs the engine until the
  driver has called back; then the server, if it is asked for.
\<close>

section \<open>Construction\<close>

text \<open>The constructor of every core allocates its event.\<close>

fun cores_new :: "nat \<Rightarrow> engine \<Rightarrow> 'f core list \<times> engine" where
  "cores_new 0 e = ([], e)"
| "cores_new (Suc n) e = (case allocateEvent e of (i, e) \<Rightarrow> case cores_new n e of (cs, e) \<Rightarrow> (core_new i # cs, e))"

definition cpu_new :: "nat \<Rightarrow> nat \<Rightarrow> nat \<Rightarrow> nat \<Rightarrow> engine \<Rightarrow> 'f cpu \<times> engine" where
  "cpu_new hils icls ftls clock e = (case cores_new hils e of (h, e) \<Rightarrow> case cores_new icls e of (i, e) \<Rightarrow> case cores_new ftls e of (f, e) \<Rightarrow>
     (\<lparr>hilCore = h, iclCore = i, ftlCore = f, clockPeriod = clock\<rparr>, e))"

text \<open>The event of the DRAM or of the flash array, first due after its period.\<close>

definition periodic_new :: "nat \<Rightarrow> engine \<Rightarrow> (nat \<times> engine) res" where
  "periodic_new period e = (case allocateEvent e of (i, e) \<Rightarrow> rbind (scheduleEvent i (en_simTick e + period) e) (\<lambda>e. Inr (i, e)))"

definition dram_event_new :: "engine \<Rightarrow> (nat \<times> engine) res" where
  "dram_event_new = periodic_new 64000000000"

definition flash_event_new :: "engine \<Rightarrow> (nat \<times> engine) res" where
  "flash_event_new = periodic_new 100000000000"

text \<open>What is below the HIL is there when its constructor ends; \<open>low\<close> is its part of the model, given the numbers of the events.\<close>

definition ssd_new :: "(nat \<Rightarrow> nat \<Rightarrow> 'w ssd_low) \<Rightarrow> nat \<times> nat \<times> nat \<Rightarrow> nat \<Rightarrow> nat \<times> nat \<Rightarrow> progress \<Rightarrow> 'w \<Rightarrow>
    ('w ssd_low \<times> nat \<times> driver \<times> engine \<times> ('c, 'w, bool) ssd) res" where
  "ssd_new low = (\<lambda>(hils, icls, ftls) clock lpn pg w.
     case cpu_new hils icls ftls clock engine_new of (u, e) \<Rightarrow>
     rbind (dram_event_new e) (\<lambda>(refresh, e).
     rbind (flash_event_new e) (\<lambda>(flush, e).
     case allocateEvent e of (c, e) \<Rightarrow>
     rbind (driver_init lpn e) (\<lambda>(i, D, e).
     Inr (low refresh flush, i, D, e, \<lparr>sd_cpu = u, sd_hil = hil_new c, sd_bil = bil_new pg None, sd_world = w, sd_client = False\<rparr>)))))"

text \<open>The loop of \<open>main\<close> before the first request: it ends when the driver has called back, or fails with exit code 3.\<close>

definition ssd_begin :: "'w ssd_low \<Rightarrow> nat \<Rightarrow> ('c \<Rightarrow> nat \<Rightarrow> nat \<Rightarrow> bool \<Rightarrow> bool) \<Rightarrow> engine \<times> ('c, 'w, bool) ssd \<Rightarrow> (engine \<times> ('c, 'w, bool) ssd) res" where
  "ssd_begin L fuel invoke = runEvents fuel (ssd_event L invoke (\<lambda>i t (e, S). Inr (e, S\<lparr>sd_client := True\<rparr>))) sd_client"

definition client_state :: "'t \<Rightarrow> ('c, 'w, 's) ssd \<Rightarrow> ('c, 'w, 't) ssd" where
  "client_state s S = \<lparr>sd_cpu = sd_cpu S, sd_hil = sd_hil S, sd_bil = sd_bil S, sd_world = sd_world S, sd_client = s\<rparr>"

record ssd_build =
  sb_cores :: "nat \<times> nat \<times> nat"
  sb_clock :: nat
  sb_lpn :: "nat \<times> nat"
  sb_progress :: progress

definition legosim_runtime :: "(nat \<Rightarrow> nat \<Rightarrow> 'w ssd_low) \<Rightarrow> ssd_build \<Rightarrow> nat \<Rightarrow> nat \<Rightarrow> options \<Rightarrow> run_io \<Rightarrow> sim_io \<times> 'w \<Rightarrow>
    ('w ssd_low \<times> nat \<times> server \<times> sim_io \<times> 'w server_ssd) res" where
  "legosim_runtime low B fuel rounds opt s0 = (\<lambda>(io, w).
     rbind (ssd_new low (sb_cores B) (sb_clock B) (sb_lpn B) (sb_progress B) w) (\<lambda>(L, i, D, e, S).
     rbind (ssd_begin L fuel (\<lambda>c i t s. s) (e, S)) (\<lambda>(e, S).
     if \<not> sd_client S then Inr (L, 3, server_new, io, e, client_state s0 S)
     else case driver_getInfo D of (capacity, mbs) \<Rightarrow>
       rbind (runRuntimeIpc \<lparr>sc_low = L, sc_driver = D, sc_fuel = fuel\<rparr> opt capacity mbs rounds (io, e, client_state s0 S)) (\<lambda>(code, V, io, e, S).
       Inr (L, code, V, io, e, S)))))"

section \<open>The SSD is quiet when it is built\<close>

lemma cores_new_ok:
  "\<lbrakk>cores_new n e = (cs, e'); engine_inv e; \<not> en_forceStop e\<rbrakk> \<Longrightarrow>
   engine_inv e' \<and> \<not> en_forceStop e' \<and> en_queue e' = en_queue e \<and> en_simTick e' = en_simTick e \<and> set (en_list e) \<subseteq> set (en_list e') \<and>
   en_counter e \<le> en_counter e' \<and> length cs = n \<and> distinct (map co_event cs) \<and>
   (\<forall>c \<in> set cs. \<not> co_busy c \<and> co_jobs c = [] \<and> co_event c \<in> set (en_list e') \<and> en_counter e < co_event c \<and> co_event c \<le> en_counter e')"
proof (induction n arbitrary: e cs)
  case (Suc n)
  obtain i e1 cs1 where a: "allocateEvent e = (i, e1)" "cores_new n e1 = (cs1, e')" "cs = core_new i # cs1"
    using Suc.prems(1) by (auto split: prod.splits)
  have i: "i = Suc (en_counter e)" "en_counter e1 = i" "i \<in> set (en_list e1)" "\<not> en_forceStop e1" using a(1) Suc.prems(3) by (auto simp: allocateEvent_def)
  note al = allocateEvent_ok[OF a(1) Suc.prems(2)]
  note ih = Suc.IH[OF a(2) conjunct1[OF al] i(4)]
  have "co_event c \<noteq> i" if "c \<in> set cs1" for c using ih i that by auto
  then have "distinct (map co_event cs)" using ih a(3) by (auto simp: core_new_def)
  then show ?case using ih al i a(3) by (auto simp: core_new_def)
qed auto

lemma periodic_new_ok:
  assumes "engine_inv e" "\<not> en_forceStop e"
  shows "\<exists>e'. periodic_new p e = Inr (Suc (en_counter e), e') \<and> engine_inv e' \<and> \<not> en_forceStop e' \<and> en_simTick e' = en_simTick e \<and>
    en_list e' = Suc (en_counter e) # en_list e \<and> en_counter e' = Suc (en_counter e) \<and>
    (\<forall>x. isEventExist x (en_queue e') = (if x = Suc (en_counter e) then Some (en_simTick e + p) else isEventExist x (en_queue e)))"
proof -
  let ?i = "Suc (en_counter e)" and ?e = "e\<lparr>en_counter := Suc (en_counter e), en_list := Suc (en_counter e) # en_list e\<rparr>"
  have a: "allocateEvent e = (?i, ?e)" by (simp add: allocateEvent_def)
  have "engine_inv ?e" "?i \<in> set (en_list ?e)" using allocateEvent_ok[OF a assms(1)] by simp_all
  from scheduleEvent_ok[OF this, of "en_simTick e + p"] obtain e' where e': "scheduleEvent ?i (en_simTick e + p) ?e = Inr e'" "engine_inv e'"
    "en_simTick e' = en_simTick e" "en_list e' = ?i # en_list e"
    "\<forall>x. isEventExist x (en_queue e') = (if x = ?i then Some (en_simTick e + p) else isEventExist x (en_queue e))"
    by (auto simp: max_def)
  then show ?thesis using schedule_more[OF e'(1)] assms(2) a by (intro exI[of _ e']) (simp add: periodic_new_def)
qed

text \<open>Before the loop: the cores and the HIL wait, the event of the driver is due, the periodic ones are due later.\<close>

definition built :: "'w ssd_low \<Rightarrow> nat \<Rightarrow> engine \<times> ('c, 'w, bool) ssd \<Rightarrow> bool" where
  "built L i = (\<lambda>(e, S). engine_inv e \<and> \<not> en_forceStop e \<and> en_simTick e = 0 \<and> i \<in> set (en_list e) \<and> i \<notin> set (sl_back L) \<and>
     (\<forall>x. isEventExist x (en_queue e) \<noteq> None \<longrightarrow> x = i \<or> (x \<in> set (sl_back L) \<and> isEventExist x (en_queue e) \<noteq> Some 0)) \<and>
     isEventExist i (en_queue e) = Some 0 \<and> (\<forall>x \<in> set (sl_back L). x \<le> en_counter e) \<and>
     hl_queue (sd_hil S) = [] \<and> hl_lastScheduled (sd_hil S) = 0 \<and> hl_event (sd_hil S) \<in> set (en_list e) \<and> hl_event (sd_hil S) \<notin> set (sl_back L) \<and>
     hl_event (sd_hil S) \<noteq> i \<and> cores_idle L e (sd_hil S) (hilCore (sd_cpu S)) \<and> i \<notin> co_event ` set (hilCore (sd_cpu S)) \<and>
     bl_ioQueue (sd_bil S) = [] \<and> \<not> sd_client S)"

lemma ssd_new_ok:
  assumes "0 < hils" "\<And>r f. sl_back (low r f) = [r, f]"
  shows "\<exists>r f i D e S. ssd_new low (hils, icls, ftls) clock lpn pg w = Inr (low r f, i, D, e, S) \<and> built (low r f) i (e, S) \<and>
    sd_world S = w \<and> dr_totalLogicalPages D = fst lpn \<and> dr_logicalPageSize D = snd lpn \<and> clockPeriod (sd_cpu S) = clock"
proof -
  obtain hc :: "hil_job core list" and e1 where h: "cores_new hils engine_new = (hc, e1)" by (metis surj_pair)
  obtain ic :: "hil_job core list" and e2 where i: "cores_new icls e1 = (ic, e2)" by (metis surj_pair)
  obtain fc :: "hil_job core list" and e3 where f: "cores_new ftls e2 = (fc, e3)" by (metis surj_pair)
  have n0: "\<not> en_forceStop engine_new" "en_queue engine_new = []" "en_simTick engine_new = 0" by (simp_all add: engine_new_def)
  note hk = cores_new_ok[OF h engine_new_inv n0(1)]
  note ik = cores_new_ok[OF i conjunct1[OF hk] conjunct1[OF conjunct2[OF hk]]]
  note fk = cores_new_ok[OF f conjunct1[OF ik] conjunct1[OF conjunct2[OF ik]]]
  have e3: "engine_inv e3" "\<not> en_forceStop e3" "en_simTick e3 = 0" "en_queue e3 = []" using hk ik fk n0 by simp_all
  obtain e4 where r: "dram_event_new e3 = Inr (Suc (en_counter e3), e4)" "engine_inv e4" "\<not> en_forceStop e4" "en_simTick e4 = 0"
    "en_list e4 = Suc (en_counter e3) # en_list e3" "en_counter e4 = Suc (en_counter e3)"
    "\<forall>x. isEventExist x (en_queue e4) = (if x = Suc (en_counter e3) then Some 64000000000 else None)"
    using periodic_new_ok[OF e3(1,2), of 64000000000] e3(3,4) by (auto simp: dram_event_new_def)
  obtain e5 where p: "flash_event_new e4 = Inr (Suc (en_counter e4), e5)" "engine_inv e5" "\<not> en_forceStop e5" "en_simTick e5 = 0"
    "en_list e5 = Suc (en_counter e4) # en_list e4" "en_counter e5 = Suc (en_counter e4)"
    "\<forall>x. isEventExist x (en_queue e5) = (if x = Suc (en_counter e4) then Some 100000000000 else isEventExist x (en_queue e4))"
    using periodic_new_ok[OF r(2,3), of 100000000000] r(4) by (auto simp: flash_event_new_def)
  let ?n = "en_counter e3"
  let ?c = "Suc (en_counter e5)"
  obtain e6 where a: "allocateEvent e5 = (?c, e6)" "en_counter e6 = ?c" "en_list e6 = ?c # en_list e5" "en_queue e6 = en_queue e5"
    "en_simTick e6 = 0" "\<not> en_forceStop e6" "engine_inv e6"
    using allocateEvent_ok[of e5 ?c, OF _ p(2)] p(3,4) by (simp add: allocateEvent_def)
  have di: "driver_init lpn e6 = rbind (periodic_new 0 e6) (\<lambda>(i, e). Inr (i, \<lparr>dr_totalLogicalPages = fst lpn, dr_logicalPageSize = snd lpn\<rparr>, e))"
    using a(5) by (auto simp: driver_init_def periodic_new_def rbind_assoc allocateEvent_def)
  let ?i = "Suc ?c"
  obtain e7 where d: "periodic_new 0 e6 = Inr (?i, e7)" "engine_inv e7" "\<not> en_forceStop e7" "en_simTick e7 = 0"
    "en_list e7 = ?i # en_list e6" "en_counter e7 = ?i"
    "\<forall>x. isEventExist x (en_queue e7) = (if x = ?i then Some 0 else isEventExist x (en_queue e6))"
    using periodic_new_ok[OF a(7,6), of 0] a(2,5) by auto
  let ?S = "\<lparr>sd_cpu = \<lparr>hilCore = hc, iclCore = ic, ftlCore = fc, clockPeriod = clock\<rparr>, sd_hil = hil_new ?c, sd_bil = bil_new pg None, sd_world = w, sd_client = False\<rparr>"
  let ?L = "low (Suc ?n) (Suc (en_counter e4))"
  have run: "ssd_new low (hils, icls, ftls) clock lpn pg w = Inr (?L, ?i, \<lparr>dr_totalLogicalPages = fst lpn, dr_logicalPageSize = snd lpn\<rparr>, e7, ?S)"
    using r(1) p(1) a(1) d(1) by (simp add: ssd_new_def cpu_new_def h i f di)
  have num: "Suc (en_counter e4) = Suc (Suc ?n)" "?c = Suc (Suc (Suc ?n))" "?i = Suc (Suc (Suc (Suc ?n)))" using r(6) p(6) by simp_all
  have "length hc = hils" "distinct (map co_event hc)" using hk by simp_all
  moreover have "\<forall>c \<in> set hc. \<not> co_busy c \<and> co_jobs c = [] \<and> co_event c \<in> set (en_list e7) \<and> co_event c \<le> ?n"
    using hk ik fk d(5) a(3) p(5) r(5) by auto
  ultimately have ci: "cores_idle ?L e7 (hil_new ?c) hc" "?i \<notin> co_event ` set hc"
    using assms num by (auto simp: cores_idle_def hil_new_def)
  have "isEventExist x (en_queue e7) = (if x = ?i then Some 0 else if x = Suc (Suc ?n) then Some 100000000000
      else if x = Suc ?n then Some 64000000000 else None)" for x
    using d(7) a(4) p(7) r(7) num by simp
  then have "built ?L ?i (e7, ?S)" using d(2-6) a(3) ci assms(2) num
    by (auto simp: built_def hil_new_def bil_new_def)
  then show ?thesis unfolding run by (intro exI conjI) (rule refl | assumption | simp)+
qed

text \<open>The first event is the driver's: the loop ends with it, and the SSD is quiet.\<close>

lemma ssd_begin_quiet:
  assumes "built L i (e, S)"
  shows "\<exists>e' S'. ssd_begin L (Suc n) invoke (e, S) = Inr (e', S') \<and> sd_client S' \<and> ssd_quiet L (e', client_state s S') \<and>
    en_simTick e' = 0 \<and> sd_world S' = sd_world S \<and> clockPeriod (sd_cpu S') = clockPeriod (sd_cpu S)"
proof -
  have b: "engine_inv e" "\<not> en_forceStop e" "en_simTick e = 0" "i \<in> set (en_list e)" "i \<notin> set (sl_back L)"
    "\<forall>x. isEventExist x (en_queue e) \<noteq> None \<longrightarrow> x = i \<or> (x \<in> set (sl_back L) \<and> isEventExist x (en_queue e) \<noteq> Some 0)"
    "isEventExist i (en_queue e) = Some 0" "\<not> sd_client S" "hl_event (sd_hil S) \<noteq> i" "i \<notin> co_event ` set (hilCore (sd_cpu S))"
    using assms by (simp_all add: built_def)
  obtain j t q where q: "en_queue e = (j, t) # q" using b(7) by (cases "en_queue e") auto
  note nx = next_event_ok[OF b(1) q]
  have "t = 0" using isEventExist_in[OF b(7)] q nx by auto
  moreover have "isEventExist j (en_queue e) = Some t" using q by simp
  ultimately have jt: "j = i" "t = 0" using b(6) by auto
  let ?e = "e\<lparr>en_simTick := 0, en_queue := q\<rparr>" and ?S = "S\<lparr>sd_client := True\<rparr>"
  let ?fn = "ssd_event L invoke (\<lambda>i t (e, S). Inr (e, S\<lparr>sd_client := True\<rparr>))"
  have "?fn i 0 (?e, S) = Inr (?e, ?S)" using b(5,9,10) find_core_None[of i "hilCore (sd_cpu S)" 0] by (simp add: ssd_event_def)
  then have "doNextEvent ?fn (e, S) = Inr (True, handled ?e, ?S)"
    using next_head[OF b(2) q[unfolded jt] b(4), of ?fn S] by (simp add: handled_def)
  then have run: "ssd_begin L (Suc n) invoke (e, S) = Inr (handled ?e, ?S)"
    unfolding ssd_begin_def using run_step[where stop = sd_client, OF b(8)] run_stopped[of sd_client ?S] by simp
  have "only_due [] L ?e" unfolding only_due_def
  proof (intro allI impI)
    fix x assume "isEventExist x (en_queue ?e) \<noteq> None"
    then have x: "isEventExist x q \<noteq> None" by simp
    then have "x \<noteq> i" using nx jt by auto
    then show "x \<in> set (sl_back L) \<or> x \<in> set []" using x nx jt b(6) by auto
  qed
  then have "rests L ?e" using nx b(2) jt by (simp add: rests_def)
  then have "rests L (handled ?e)" by simp
  then have "ssd_quiet L (handled ?e, client_state s ?S)" using assms b(3)
    by (simp add: ssd_quiet_def built_def client_state_def cores_idle_def)
  then show ?thesis using run by (intro exI[of _ "handled ?e"] exI[of _ ?S]) simp
qed

text \<open>The whole run of the server, from the constructors on.\<close>

lemma legosim_runtime_ok:
  fixes I :: "('p dram \<times> pal_dev \<times> 'x) icl_env"
  assumes cores: "sb_cores B = (hils, icls, ftls)" "0 < hils" and lps: "0 < snd (sb_lpn B)" and ok: "stack_ok I w"
    and run: "legosim_runtime (\<lambda>r f. device_low W r f I) B fuel rounds opt s0 (io, w) = Inr (L, code, V, io', e', S')"
  shows "(\<exists>r f. L = device_low W r f I) \<and> ssd_quiet L (e', S') \<and> stack_ok I (sd_world S') \<and>
    server_inv (wrap64 (fst (sb_lpn B) * snd (sb_lpn B))) V \<and> code \<in> {0, 4, 5} \<and>
    (code = 0 \<longrightarrow> (\<exists>l. sv_trace V \<noteq> [] \<and> l = last (sv_trace V) \<and> tr_event l = ''SSD_SHUTDOWN'' \<and> tr_cycle l = sv_cycle V \<and>
       validateRuntimeRequest (tr_request l) (wrap64 (fst (sb_lpn B) * snd (sb_lpn B))) = Success \<and> q_operation (tr_request l) = op_code Op_Shutdown))"
proof -
  define cap where "cap = wrap64 (fst (sb_lpn B) * snd (sb_lpn B))"
  let ?low = "\<lambda>r f. device_low W r f I"
  obtain r f i D e and S :: "(ssd_request \<times> nat, cache \<times> 'p dram \<times> pal_dev \<times> 'x, bool) ssd" where n: "ssd_new ?low (sb_cores B) (sb_clock B) (sb_lpn B) (sb_progress B) w = Inr (?low r f, i, D, e, S)"
    "built (?low r f) i (e, S)" "sd_world S = w" "dr_totalLogicalPages D = fst (sb_lpn B)" "dr_logicalPageSize D = snd (sb_lpn B)"
    using ssd_new_ok[of hils ?low icls ftls "sb_clock B" "sb_lpn B" "sb_progress B" w] cores by (auto simp: device_low_def)
  obtain k where k: "fuel = Suc k" using run n(1) n(2) by (cases fuel) (auto simp: legosim_runtime_def ssd_begin_def built_def)
  obtain e1 S1 where b: "ssd_begin (?low r f) fuel (\<lambda>c i t s. s) (e, S) = Inr (e1, S1)" "sd_client S1" "ssd_quiet (?low r f) (e1, client_state s0 S1)" "sd_world S1 = w"
    using ssd_begin_quiet[OF n(2), of k "\<lambda>c i t s. s" s0] n(3) unfolding k by auto
  define C where "C = \<lparr>sc_low = ?low r f, sc_driver = D, sc_fuel = fuel\<rparr>"
  define io0 where "io0 = io_print (emitResult [''capacity'', to_string cap, ''min_io_size'', to_string 512, ''runtime_ipc'', ''1'']) io"
  obtain io1 where l: "server_loop C opt cap rounds (server_new, io0, e1, client_state s0 S1) = Inr (code, V, io1, e', S')" and L: "L = ?low r f"
    using run n(1,4,5) b(1,2) unfolding legosim_runtime_def runRuntimeIpc_def C_def[symmetric]
    by (auto simp: driver_getInfo_def res_simps split_paired_Ex Let_def cap_def[symmetric] io0_def[symmetric] C_def[symmetric] split: if_splits)
  have "stack_ok I (sd_world (client_state s0 S1))" "sc_low C = ?low r f" "0 < dr_logicalPageSize (sc_driver C)"
    using b(4) ok lps n(5) by (simp_all add: client_state_def C_def)
  note lo = stack.server_loop_ok[OF l b(3) this server_new_inv]
  show ?thesis using lo unfolding L cap_def[symmetric] by blast
qed

end
