(* ===== verification/SsdDriver.thy ===== *)
theory SsdDriver
  imports BlockEntry IclProps
begin

text \<open>
  Which bytes the SSD serves of a request of the block layer.  The driver counts the pages of a request
  by its length alone, whatever its offset in the first page.
\<close>

lemma driver_pieces:
  assumes r: "driver_request D b = Inr r" and G: "ig_logicalPageSize G = dr_logicalPageSize D" "dr_logicalPageSize D < 18446744073709551616"
    and len: "0 < b_length b" "b_length b < 18446744073709551616"
  defines "n \<equiv> divceil (b_length b) (dr_logicalPageSize D)"
  shows "\<exists>rs. icl_io G (recorder fin) (\<lambda>w. (d, w)) (icl_of_hil r) tick [] = Inr (fold max (map (\<lambda>r. fin r tick) rs) tick + d, map (\<lambda>r. (r, tick)) rs) \<and>
    length rs = n \<and>
    concat (map (bytes_of G) rs) = [b_offset b..<b_offset b + min (b_length b) (n * dr_logicalPageSize D - b_offset b mod dr_logicalPageSize D)]"
proof -
  let ?ps = "dr_logicalPageSize D"
  have ps: "0 < ?ps" using r by (auto simp: driver_request_def res_simps split: if_splits)
  let ?q = "icl_of_hil r"
  have q: "i_offset ?q = b_offset b mod ?ps" "i_length ?q = b_length b" "slpn (i_range ?q) = b_offset b div ?ps" "nlp (i_range ?q) = n"
    using driver_request_ok[OF ps, of b] r ceil64_eq[OF len ps impI[OF len(2)]] by (auto simp: icl_of_hil_def n_def)
  have off: "i_offset ?q < ig_logicalPageSize G" "ig_logicalPageSize G < 18446744073709551616" using q(1) ps G by simp_all
  let ?rs = "map (icl_piece G ?q) [0..<n]"
  have run: "icl_io G (recorder fin) (\<lambda>w. (d, w)) ?q tick [] = Inr (fold max (map (\<lambda>r. fin r tick) ?rs) tick + d, map (\<lambda>r. (r, tick)) ?rs)"
    using q(4) by (simp add: icl_io_def icl_loop_recorded[OF off] comp_def)
  have "concat (map (bytes_of G) ?rs) = [b_offset b..<b_offset b + min (b_length b) (n * ?ps - b_offset b mod ?ps)]"
    using pieces_bytes[OF off(1), of n] q(1-3) G(1) by (simp add: piece_end_def comp_def Let_def)
  then show ?thesis using run by (intro exI[of _ ?rs]) simp
qed

text \<open>A request is served in full exactly when its pages, counted from the first one it touches, are that many.\<close>

lemma driver_whole: "0 < (len :: nat) \<Longrightarrow> min len (k - m) = len \<longleftrightarrow> m + len \<le> k"
  by auto

end
