(* ===== verification/LegoOptions.thy ===== *)
theory LegoOptions
  imports LegoServer
begin

text \<open>
  The command lines of \<open>sim/legosim_main.cc\<close> and \<open>dummy_npu_main.cc\<close>: numbers as the C library reads
  them (any base, any sign), and the options by position.
\<close>

section \<open>Numbers\<close>

definition hex_val :: "char \<Rightarrow> nat option" where
  "hex_val c = (let n = (of_char c :: nat) in
     if 48 \<le> n \<and> n \<le> 57 then Some (n - 48) else if 97 \<le> n \<and> n \<le> 102 then Some (n - 87)
     else if 65 \<le> n \<and> n \<le> 70 then Some (n - 55) else None)"

definition digit_in :: "nat \<Rightarrow> char \<Rightarrow> bool" where
  "digit_in base c = (case hex_val c of Some d \<Rightarrow> d < base | None \<Rightarrow> False)"

definition value_in :: "nat \<Rightarrow> string \<Rightarrow> nat" where
  "value_in base ds = fold (\<lambda>c v. v * base + (case hex_val c of Some d \<Rightarrow> d | None \<Rightarrow> 0)) ds 0"

text \<open>\<open>strtoll(text, &end, 0)\<close> before the range check: the sign, the magnitude and the text from \<open>end\<close>.\<close>

definition number_base :: "string \<Rightarrow> nat \<times> string" where
  "number_base s =
     (if 2 < length s \<and> s ! 0 = CHR ''0'' \<and> (s ! 1 = CHR ''x'' \<or> s ! 1 = CHR ''X'') \<and> digit_in 16 (s ! 2) then (16, drop 2 s)
      else if s \<noteq> [] \<and> s ! 0 = CHR ''0'' then (8, s) else (10, s))"

definition strto_int :: "string \<Rightarrow> (bool \<times> nat \<times> string) option" where
  "strto_int text = (case split_sign (skip_space text) of (neg, s) \<Rightarrow> case number_base s of (base, s) \<Rightarrow>
     let ds = takeWhile (digit_in base) s in
     if ds = [] then None else Some (neg, value_in base ds, dropWhile (digit_in base) s))"

definition parseUint64 :: "string \<Rightarrow> nat option" where
  "parseUint64 text = (case strto_int text of None \<Rightarrow> None
     | Some (neg, v, rest) \<Rightarrow> if 18446744073709551615 < v \<or> rest \<noteq> [] then None
         else Some (if neg then wrap64 (18446744073709551616 - v) else v))"

definition parseLong :: "string \<Rightarrow> int option" where
  "parseLong text = (case strto_int text of None \<Rightarrow> None
     | Some (neg, v, rest) \<Rightarrow> let x = (if neg then - int v else int v) in
         if x < - LONG_MAX - 1 \<or> LONG_MAX < x \<or> rest \<noteq> [] then None else Some x)"

text \<open>
  \<open>strtod\<close>: infinity and NaN by name, hexadecimal and decimal numerals; the exponent range of \<open>double\<close>
  gives \<open>ERANGE\<close> (results that are subnormal are rejected too).
\<close>

definition to_lower :: "char \<Rightarrow> char" where
  "to_lower c = (let n = (of_char c :: nat) in if 65 \<le> n \<and> n \<le> 90 then char_of (n + 32) else c)"

definition frac_in :: "nat \<Rightarrow> string \<Rightarrow> string \<times> string" where
  "frac_in base s = (case s of [] \<Rightarrow> ([], []) | c # r \<Rightarrow> if c = CHR ''.'' then (takeWhile (digit_in base) r, dropWhile (digit_in base) r) else ([], s))"

text \<open>An exponent: absent or without digits, it is not part of the number.\<close>

definition exp_in :: "char \<Rightarrow> string \<Rightarrow> int \<times> string" where
  "exp_in mark s = (case s of [] \<Rightarrow> (0, [])
     | c # r \<Rightarrow> if to_lower c = mark then
          (case split_sign r of (neg, b) \<Rightarrow> let ds = takeWhile is_digit b in
             if ds = [] then (0, s) else (if neg then - digits_val ds else digits_val ds, dropWhile is_digit b))
        else (0, s))"

definition numeral_in :: "nat \<Rightarrow> string \<Rightarrow> (rat \<times> string) option" where
  "numeral_in base s =
     (let ip = takeWhile (digit_in base) s in
      case frac_in base (dropWhile (digit_in base) s) of (fp, r) \<Rightarrow>
      if ip = [] \<and> fp = [] then None
      else case exp_in (if base = 16 then CHR ''p'' else CHR ''e'') r of (e, r) \<Rightarrow>
        let m = of_nat (value_in base (ip @ fp)) / of_nat (base ^ length fp) in
        Some (m * (if base = 16 then pow2 e else pow10 e), r))"

definition double_range :: "rat \<Rightarrow> bool" where
  "double_range x \<longleftrightarrow> x = 0 \<or> (pow2 (- 1022) \<le> x \<and> x < pow2 1024)"

definition nan_char :: "char \<Rightarrow> bool" where
  "nan_char c \<longleftrightarrow> is_digit c \<or> c = CHR ''_'' \<or> (97 \<le> (of_char (to_lower c) :: nat) \<and> (of_char (to_lower c) :: nat) \<le> 122)"

text \<open>The value, or \<open>None\<close> when nothing was converted, the value is out of range, or text is left over.\<close>

definition strtod :: "string \<Rightarrow> fl option" where
  "strtod text = (case split_sign (skip_space text) of (neg, s) \<Rightarrow>
     let l = map to_lower s in
     if l = ''inf'' \<or> l = ''infinity'' then Some (if neg then NInf else PInf)
     else if l = ''nan'' \<or> (take 4 l = ''nan('' \<and> last l = CHR '')'' \<and> list_all nan_char (butlast (drop 4 l))) then Some NaN
     else
       let hex = number_base s; n = (if fst hex = 16 \<or> take 3 l = ''0x.'' then numeral_in 16 (drop 2 s) else numeral_in 10 s) in
       case n of None \<Rightarrow> None
       | Some (x, r) \<Rightarrow> let v = rnd 53 x in if r \<noteq> [] \<or> \<not> double_range v then None else Some (Fin (if neg then - v else v)))"

text \<open>\<open>parsed <= 0.0\<close> is false for NaN.\<close>

definition parseDouble :: "string \<Rightarrow> fl option" where
  "parseDouble text = (case strtod text of None \<Rightarrow> None
     | Some (Fin x) \<Rightarrow> if x \<le> 0 then None else Some (Fin x) | Some NInf \<Rightarrow> None | Some v \<Rightarrow> Some v)"

definition parseOp :: "string \<Rightarrow> storage_op option" where
  "parseOp text = (if text = ''read'' then Some OP_READ else if text = ''write'' then Some OP_WRITE else None)"

section \<open>Options by position\<close>

text \<open>\<open>argc >= i + 1 && !parse(argv[i], field)\<close>: an argument that is there must parse.\<close>

definition arg_at :: "string list \<Rightarrow> nat \<Rightarrow> (string \<Rightarrow> 'a option) \<Rightarrow> ('a \<Rightarrow> 'o \<Rightarrow> 'o) \<Rightarrow> 'o \<Rightarrow> 'o option" where
  "arg_at argv i parse put o' = (if i < length argv then map_option (\<lambda>v. put v o') (parse (argv ! i)) else Some o')"

definition obind :: "'a option \<Rightarrow> ('a \<Rightarrow> 'b option) \<Rightarrow> 'b option" where
  "obind m f = (case m of None \<Rightarrow> None | Some x \<Rightarrow> f x)"

definition parse_place :: "string list \<Rightarrow> nat \<Rightarrow> options \<Rightarrow> options option" where
  "parse_place argv i opt =
     obind (arg_at argv i parseLong (\<lambda>v opt. opt\<lparr>op_ssdX := v\<rparr>) opt) (\<lambda>opt.
     obind (arg_at argv (i + 1) parseLong (\<lambda>v opt. opt\<lparr>op_ssdY := v\<rparr>) opt) (\<lambda>opt.
     obind (arg_at argv (i + 2) parseLong (\<lambda>v opt. opt\<lparr>op_npuX := v\<rparr>) opt) (\<lambda>opt.
     arg_at argv (i + 3) parseLong (\<lambda>v opt. opt\<lparr>op_npuY := v\<rparr>) opt)))"

definition parseOptions :: "string list \<Rightarrow> options option" where
  "parseOptions argv =
     (if length argv < 4 then None
      else let opt = options_new\<lparr>op_simConfig := argv ! 1, op_ssdConfig := argv ! 2, op_outputDir := argv ! 3\<rparr> in
      if 5 \<le> length argv \<and> argv ! 4 = ''--runtime-ipc'' then
        (if 10 < length argv then None
         else obind (parse_place argv 5 (opt\<lparr>op_runtimeIpc := True\<rparr>)) (\<lambda>opt.
              arg_at argv 9 parseDouble (\<lambda>v opt. opt\<lparr>op_clockRate := v\<rparr>) opt))
      else if 13 < length argv then None
      else
        obind (parse_place argv 4 opt) (\<lambda>opt.
        obind (arg_at argv 8 parseUint64 (\<lambda>v opt. opt\<lparr>op_requestBytes := v\<rparr>) opt) (\<lambda>opt.
        obind (arg_at argv 9 parseUint64 (\<lambda>v opt. opt\<lparr>op_iterations := v\<rparr>) opt) (\<lambda>opt.
        obind (arg_at argv 10 parseDouble (\<lambda>v opt. opt\<lparr>op_clockRate := v\<rparr>) opt) (\<lambda>opt.
        obind (arg_at argv 11 parseUint64 (\<lambda>v opt. opt\<lparr>op_startOffset := v\<rparr>) opt) (\<lambda>opt.
        obind (arg_at argv 12 parseOp (\<lambda>v opt. opt\<lparr>op_op := v\<rparr>) opt) (\<lambda>opt.
        if op_requestBytes opt > 0 \<and> op_iterations opt > 0 then Some opt else None)))))))"

text \<open>\<open>dummy_npu_main.cc\<close>.\<close>

record npu_options =
  nu_npuX :: int
  nu_npuY :: int
  nu_ssdX :: int
  nu_ssdY :: int
  nu_requestBytes :: nat
  nu_iterations :: nat
  nu_startCycle :: nat

definition npu_options_new :: npu_options where
  "npu_options_new = \<lparr>nu_npuX = 0, nu_npuY = 0, nu_ssdX = 1, nu_ssdY = 0, nu_requestBytes = 4096, nu_iterations = 1, nu_startCycle = 1\<rparr>"

definition npu_parseOptions :: "string list \<Rightarrow> npu_options option" where
  "npu_parseOptions argv =
     (if 8 < length argv then None
      else
        obind (arg_at argv 1 parseLong (\<lambda>v opt. opt\<lparr>nu_npuX := v\<rparr>) npu_options_new) (\<lambda>opt.
        obind (arg_at argv 2 parseLong (\<lambda>v opt. opt\<lparr>nu_npuY := v\<rparr>) opt) (\<lambda>opt.
        obind (arg_at argv 3 parseLong (\<lambda>v opt. opt\<lparr>nu_ssdX := v\<rparr>) opt) (\<lambda>opt.
        obind (arg_at argv 4 parseLong (\<lambda>v opt. opt\<lparr>nu_ssdY := v\<rparr>) opt) (\<lambda>opt.
        obind (arg_at argv 5 parseUint64 (\<lambda>v opt. opt\<lparr>nu_requestBytes := v\<rparr>) opt) (\<lambda>opt.
        obind (arg_at argv 6 parseUint64 (\<lambda>v opt. opt\<lparr>nu_iterations := v\<rparr>) opt) (\<lambda>opt.
        obind (arg_at argv 7 parseUint64 (\<lambda>v opt. opt\<lparr>nu_startCycle := v\<rparr>) opt) (\<lambda>opt.
        if nu_requestBytes opt > 0 \<and> nu_iterations opt > 0 then Some opt else None))))))))"

section \<open>Numbers that were printed are read back\<close>

lemma of_char_int: "(of_char c :: int) = int (of_char c)"
  by (simp add: of_nat_of_char)

lemma hex_val_digit: "is_digit c \<Longrightarrow> hex_val c = Some (of_char c - 48)"
  by (simp add: hex_val_def is_digit_def of_char_int Let_def)

lemma digit_in_10: "digit_in 10 c = is_digit c"
proof (cases "is_digit c")
  case True
  then have "48 \<le> (of_char c :: nat)" "(of_char c :: nat) \<le> 57" by (simp_all add: is_digit_def of_char_int)
  then have "(of_char c :: nat) - 48 < 10" by arith
  then show ?thesis using hex_val_digit[OF True] True by (simp add: digit_in_def)
next
  case False
  then show ?thesis by (auto simp: digit_in_def hex_val_def is_digit_def of_char_int Let_def split: if_splits)
qed

lemma value_in_10: "\<forall>c \<in> set ds. is_digit c \<Longrightarrow> int (value_in 10 ds) = digits_val ds"
proof (induction ds rule: rev_induct)
  case (snoc c ds)
  have "is_digit c" using snoc.prems by simp
  then have "48 \<le> (of_char c :: nat)" by (simp add: is_digit_def of_char_int)
  then show ?case using snoc hex_val_digit[OF \<open>is_digit c\<close>]
    by (simp add: value_in_def digits_val_snoc of_char_int of_nat_diff)
qed (simp add: value_in_def digits_val_def)

lemma put_digits_head: "0 < n \<Longrightarrow> \<exists>c r. put_digits n = c # r \<and> c \<noteq> CHR ''0''"
proof (induction n rule: put_digits.induct)
  case (1 n)
  show ?case
  proof (cases "n < 10")
    case True
    have "(of_char (digit_char n) :: int) \<noteq> of_char CHR ''0''" using 1(2) True by (simp add: of_char_digit)
    then show ?thesis using True by (auto simp: put_digits.simps[of n])
  next
    case False
    then have "0 < n div 10" by simp
    from 1(1)[OF False this] show ?thesis using False by (auto simp: put_digits.simps[of n])
  qed
qed

lemma number_base_put: "0 \<le> n \<Longrightarrow> (n = 0 \<and> number_base (put_digits n) = (8, ''0'')) \<or> number_base (put_digits n) = (10, put_digits n)"
proof (cases "n = 0")
  case True
  have "char_of (of_char CHR ''0'' :: int) = CHR ''0''" by (rule char_of_char)
  then have "put_digits n = ''0''" using True by (simp add: put_digits.simps[of 0] digit_char_def)
  then show ?thesis using True by (simp add: number_base_def)
next
  case False
  assume "0 \<le> n"
  then obtain c r where "put_digits n = c # r" "c \<noteq> CHR ''0''" using put_digits_head[of n] False by auto
  then show ?thesis by (simp add: number_base_def)
qed

lemma strto_int_put: "strto_int (put_int n) = Some (n < 0, nat \<bar>n\<bar>, [])"
proof -
  have d: "\<forall>c \<in> set (put_digits \<bar>n\<bar>). is_digit c" "digits_val (put_digits \<bar>n\<bar>) = \<bar>n\<bar>" using put_digits_ok[of "\<bar>n\<bar>"] by simp_all
  have sp: "split_sign (skip_space (put_int n)) = (n < 0, put_digits \<bar>n\<bar>)" using skip_put_int[of n "[]"] split_put_int[of n "[]"] by simp
  consider "n = 0" "number_base (put_digits \<bar>n\<bar>) = (8, ''0'')" | "number_base (put_digits \<bar>n\<bar>) = (10, put_digits \<bar>n\<bar>)"
    using number_base_put[of "\<bar>n\<bar>"] by auto
  then show ?thesis
  proof cases
    case 1
    have "takeWhile (digit_in 8) ''0'' = ''0''" "dropWhile (digit_in 8) ''0'' = []" "value_in 8 ''0'' = 0"
      by (simp_all add: digit_in_def hex_val_def value_in_def)
    then show ?thesis unfolding strto_int_def sp prod.case 1(2) Let_def using 1(1) by simp
  next
    case 2
    have tw: "takeWhile (digit_in 10) (put_digits \<bar>n\<bar>) = put_digits \<bar>n\<bar>" "dropWhile (digit_in 10) (put_digits \<bar>n\<bar>) = []"
      using d(1) by (simp_all add: digit_in_10)
    have "value_in 10 (put_digits \<bar>n\<bar>) = nat \<bar>n\<bar>" using value_in_10[OF d(1)] d(2) by linarith
    then show ?thesis unfolding strto_int_def sp prod.case 2 Let_def tw by simp
  qed
qed

lemma parseLong_put: "in_long n \<Longrightarrow> parseLong (put_int n) = Some n"
  by (auto simp: parseLong_def strto_int_put Let_def in_long_def)

lemma parseUint64_put: "n < 18446744073709551616 \<Longrightarrow> parseUint64 (put_int (int n)) = Some n"
  by (simp add: parseUint64_def strto_int_put)

section \<open>A command line for every set of options\<close>

definition op_text :: "storage_op \<Rightarrow> string" where
  "op_text o' = (case o' of OP_READ \<Rightarrow> ''read'' | OP_WRITE \<Rightarrow> ''write'')"

definition place_argv :: "options \<Rightarrow> string list" where
  "place_argv opt = [put_int (op_ssdX opt), put_int (op_ssdY opt), put_int (op_npuX opt), put_int (op_npuY opt)]"

definition batch_argv :: "string \<Rightarrow> string \<Rightarrow> options \<Rightarrow> string list" where
  "batch_argv prog rate opt = [prog, op_simConfig opt, op_ssdConfig opt, op_outputDir opt] @ place_argv opt @
     [put_int (int (op_requestBytes opt)), put_int (int (op_iterations opt)), rate, put_int (int (op_startOffset opt)), op_text (op_op opt)]"

definition runtime_argv :: "string \<Rightarrow> string \<Rightarrow> options \<Rightarrow> string list" where
  "runtime_argv prog rate opt = [prog, op_simConfig opt, op_ssdConfig opt, op_outputDir opt, ''--runtime-ipc''] @ place_argv opt @ [rate]"

definition options_fit :: "string \<Rightarrow> options \<Rightarrow> bool" where
  "options_fit rate opt \<longleftrightarrow> in_long (op_ssdX opt) \<and> in_long (op_ssdY opt) \<and> in_long (op_npuX opt) \<and> in_long (op_npuY opt) \<and>
     op_requestBytes opt < 18446744073709551616 \<and> op_iterations opt < 18446744073709551616 \<and> op_startOffset opt < 18446744073709551616 \<and>
     parseDouble rate = Some (op_clockRate opt)"

lemma put_int_not_option: "put_int n \<noteq> ''--runtime-ipc''"
proof
  assume a: "put_int n = ''--runtime-ipc''"
  then have "split_sign (put_int n) = (True, ''-runtime-ipc'')" by (simp add: split_sign_def)
  then have "put_digits \<bar>n\<bar> = ''-runtime-ipc''" using split_put_int[of n "[]"] by simp
  then have "is_digit CHR ''-''" using put_digits_ok[of "\<bar>n\<bar>"] by simp
  then show False by (simp add: is_digit_def)
qed

lemma parseOp_text: "parseOp (op_text o') = Some o'"
  by (cases o') (simp_all add: parseOp_def op_text_def)

lemma parse_batch:
  assumes "options_fit rate opt" "\<not> op_runtimeIpc opt" "0 < op_requestBytes opt" "0 < op_iterations opt"
  shows "parseOptions (batch_argv prog rate opt) = Some opt"
  using assms unfolding options_fit_def
  by (simp add: parseOptions_def batch_argv_def place_argv_def put_int_not_option parse_place_def arg_at_def obind_def parseLong_put parseUint64_put
      parseOp_text options_new_def nth_Cons')

lemma parse_runtime:
  assumes "options_fit rate opt" "op_runtimeIpc opt"
  shows "parseOptions (runtime_argv prog rate opt) = Some (options_new\<lparr>op_simConfig := op_simConfig opt, op_ssdConfig := op_ssdConfig opt, op_outputDir := op_outputDir opt,
     op_ssdX := op_ssdX opt, op_ssdY := op_ssdY opt, op_npuX := op_npuX opt, op_npuY := op_npuY opt, op_clockRate := op_clockRate opt, op_runtimeIpc := True\<rparr>)"
  using assms unfolding options_fit_def
  by (simp add: parseOptions_def runtime_argv_def place_argv_def parse_place_def arg_at_def obind_def parseLong_put options_new_def nth_Cons')

end
