(* ===== verification/ProtocolClient.thy ===== *)
theory ProtocolClient
  imports LegoOptions
begin

text \<open>
  The peers of the SSD: \<open>demo/runtime_protocol_client.cc\<close>, which sends one read and a shutdown through the
  FIFO protocol, and \<open>dummy_npu_main.cc\<close>, which only exchanges timing commands.
\<close>

section \<open>The protocol client\<close>

text \<open>An unsigned 64-bit value as \<open>long\<close>.\<close>

definition as_long :: "nat \<Rightarrow> int" where
  "as_long n = (int n + 9223372036854775808) mod 18446744073709551616 - 9223372036854775808"

record client =
  cl_io :: sim_io
  cl_trace :: "trace_line list"

definition client_trace :: "string \<Rightarrow> ssd_request \<Rightarrow> nat \<Rightarrow> nat \<Rightarrow> nat \<Rightarrow> client \<Rightarrow> client" where
  "client_trace ev q cyc tick st c = c\<lparr>cl_trace := trace_emit ev q cyc tick st (cl_trace c)\<rparr>"

definition client_io :: "('a \<Rightarrow> client \<Rightarrow> 'b res) \<Rightarrow> (sim_io \<Rightarrow> ('a \<times> sim_io) res) \<Rightarrow> client \<Rightarrow> 'b res" where
  "client_io k f c = rbind (f (cl_io c)) (\<lambda>(x, io). k x (c\<lparr>cl_io := io\<rparr>))"

definition valid_response :: "ssd_request \<Rightarrow> ssd_response \<Rightarrow> bool" where
  "valid_response q a \<longleftrightarrow> hasValidHeader (a_magic a) (a_version a) \<and> a_id a = q_id q \<and> a_status a = status_code Success"

text \<open>The demo runs between the NPU at (0, 0) and the SSD at (1, 0).\<close>

definition roundTrip :: "ssd_request \<Rightarrow> nat \<Rightarrow> nat \<Rightarrow> nat \<Rightarrow> client \<Rightarrow> ((ssd_response \<times> nat) \<times> client) res" where
  "roundTrip q issue requestBytes responseBytes c =
     (let desc = as_long (q_id q) in
      client_io (\<lambda>p.
      client_io (\<lambda>n c.
      if n \<noteq> 32 then Inl (Throws ''failed to write complete SSD request'')
      else let c = client_trace ''NPU_REQUEST_FIFO_SENT'' q issue 0 (status_code Success) c in
      client_io (\<lambda>arrival c.
      let c = client_trace ''NPU_COMMAND_ARRIVAL_RESOLVED'' q arrival 0 (status_code Success) c in
      client_io (\<lambda>p.
      client_io (\<lambda>bs c.
      if length bs \<noteq> 32 then Inl (Throws ''failed to read complete SSD response'')
      else let a = response_of_bytes bs; c = client_trace ''NPU_RESPONSE_FIFO_RECEIVED'' q issue (a_completed a) (a_status a) c;
               bytes = (if a_status a = status_code Success then responseBytes else kSsdReadCommandBytes) in
      client_io (\<lambda>completion c.
      let c = client_trace ''NPU_RESPONSE_ARRIVED'' q completion (a_completed a) (a_status a) c in
      if \<not> valid_response q a then Inl (Throws ''SimpleSSD returned an invalid protocol response'')
      else Inr ((a, completion), client_trace ''NPU_REQUEST_COMPLETE'' q completion (a_completed a) (a_status a) c))
        (readSync issue 1 0 0 0 (as_int (int bytes)) desc) c)
        (pipe_read p 32))
        (receiveSync 1 0 0 0) c)
        (writeSync issue 0 0 1 0 (as_int (int requestBytes)) desc) c)
        (pipe_write p (request_bytes q)))
        (sendSync 0 0 1 0) c)"

text \<open>\<open>main\<close>: the exit code; an exception inside the \<open>try\<close> block ends the run with 1.\<close>

definition demo_read :: "nat \<Rightarrow> nat \<Rightarrow> ssd_request" where
  "demo_read off len = ssd_request_new\<lparr>q_operation := op_code Op_Read, q_id := 1, q_offset := off, q_length := len\<rparr>"

definition demo_shutdown :: ssd_request where
  "demo_shutdown = ssd_request_new\<lparr>q_operation := op_code Op_Shutdown, q_id := 2\<rparr>"

definition demo_run :: "nat \<Rightarrow> nat \<Rightarrow> client \<Rightarrow> client res" where
  "demo_run off len c =
     (let c = client_trace ''NPU_ISSUE'' (demo_read off len) 1 0 (status_code Success) c in
      rbind (roundTrip (demo_read off len) 1 kSsdReadCommandBytes len c) (\<lambda>((a, done), c).
      let c = client_trace ''NPU_SHUTDOWN'' demo_shutdown done 0 (status_code Success) c in
      rbind (roundTrip demo_shutdown done kSsdReadCommandBytes kSsdReadCommandBytes c) (\<lambda>((a2, done2), c).
      Inr (c\<lparr>cl_io := io_print (sendCycleCmd (int done2) @ ''NUSSD protocol demo completed: request_id=1 offset='' @ to_string off @
          '' bytes='' @ to_string len @ '' completion_cycle='' @ to_string done @ endl) (cl_io c)\<rparr>))))"

definition demo_main :: "string list \<Rightarrow> client \<Rightarrow> nat res" where
  "demo_main argv c =
     (if length argv \<noteq> 3 then Inr 2
      else case parseUint64 (argv ! 1) of None \<Rightarrow> Inr 2 | Some off \<Rightarrow>
      case parseUint64 (argv ! 2) of None \<Rightarrow> Inr 2 | Some len \<Rightarrow>
      if len = 0 \<or> nat INT_MAX < len then Inr 2
      else case demo_run off len c of Inr c \<Rightarrow> Inr 0 | Inl (Throws x) \<Rightarrow> Inr 1 | Inl f \<Rightarrow> Inl f)"

section \<open>SYNC lines\<close>

text \<open>\<open>parseSyncLine\<close> of both programs: the cycle and the rest of the line.\<close>

definition sync_line :: "string \<Rightarrow> (nat \<times> istream) option res" where
  "sync_line line =
     rbind (strip_head line) (\<lambda>m. case get_word (Some m) of (w, st) \<Rightarrow>
     Inr (if w \<noteq> ''SYNC'' then None else case get_ull st of (Some v, Some r) \<Rightarrow> Some (nat v, Some r) | _ \<Rightarrow> None))"

text \<open>\<open>waitForSync\<close>: lines that are empty or no SYNC are skipped; \<open>None\<close> at the end of the input.\<close>

fun waitForSync :: "string list \<Rightarrow> ((nat \<times> istream) option \<times> string list) res" where
  "waitForSync [] = Inr (None, [])"
| "waitForSync (l # ls) =
     (if l = [] then waitForSync ls
      else rbind (sync_line l) (\<lambda>r. case r of None \<Rightarrow> waitForSync ls | Some x \<Rightarrow> Inr (Some x, ls)))"

section \<open>The dummy NPU\<close>

definition npu_emitWrite :: "nat \<Rightarrow> npu_options \<Rightarrow> string" where
  "npu_emitWrite cyc opt = send_cmd ''WRITE'' [int cyc, nu_npuX opt, nu_npuY opt, nu_ssdX opt, nu_ssdY opt, int (nu_requestBytes opt), 0]"

definition npu_emitRead :: "nat \<Rightarrow> npu_options \<Rightarrow> string" where
  "npu_emitRead cyc opt = send_cmd ''READ'' [int cyc, nu_ssdX opt, nu_ssdY opt, nu_npuX opt, nu_npuY opt, int (nu_requestBytes opt), 0]"

fun npu_loop :: "npu_options \<Rightarrow> nat \<Rightarrow> nat \<Rightarrow> string list \<Rightarrow> string \<Rightarrow> (nat \<times> nat \<times> string) res" where
  "npu_loop opt 0 cyc ls out = Inr (0, cyc, out)"
| "npu_loop opt (Suc n) cyc ls out =
     rbind (waitForSync ls) (\<lambda>(r, ls). case r of None \<Rightarrow> Inr (2, cyc, out @ npu_emitWrite cyc opt)
     | Some (reqDone, _) \<Rightarrow>
       rbind (waitForSync ls) (\<lambda>(r, ls). case r of None \<Rightarrow> Inr (3, cyc, out @ npu_emitWrite cyc opt @ npu_emitRead reqDone opt)
       | Some (respDone, _) \<Rightarrow> npu_loop opt n respDone ls (out @ npu_emitWrite cyc opt @ npu_emitRead reqDone opt)))"

definition npu_main :: "string list \<Rightarrow> string list \<Rightarrow> (nat \<times> string) res" where
  "npu_main argv ls = (case npu_parseOptions argv of None \<Rightarrow> Inr (1, [])
     | Some opt \<Rightarrow> rbind (npu_loop opt (nu_iterations opt) (nu_startCycle opt) ls []) (\<lambda>(code, cyc, out).
         if code \<noteq> 0 then Inr (code, out)
         else Inr (0, out @ sendResultCmd_strings [''requests'', to_string (nu_iterations opt), ''last_cycle'', to_string cyc] @ sendCycleCmd (int cyc))))"

section \<open>What the peers and the server say to the bridge\<close>

text \<open>A READ and a WRITE of the same transfer, as they are parsed by the bridge.\<close>

lemma parse_transfer_cmds:
  assumes "in_time cyc" "in_long sx" "in_long sy" "in_long dx" "in_long dy" "in_int n" "in_long d"
  shows "parse_cmd (sendReadCmd cyc sx sy dx dy n d) = Inr \<lparr>c_type = SC_READ, c_cycle = Fin (rnd 53 (of_int cyc)), c_clock_rate = Fin 0, c_src = [sx, sy],
          c_dst = [dx, dy], c_nbytes = n, c_desc = d, c_res_list = [], c_stdin_fd = 0\<rparr>"
    and "parse_cmd (sendWriteCmd cyc sx sy dx dy n d) = Inr \<lparr>c_type = SC_WRITE, c_cycle = Fin (rnd 53 (of_int cyc)), c_clock_rate = Fin 0, c_src = [sx, sy],
          c_dst = [dx, dy], c_nbytes = n, c_desc = d, c_res_list = [], c_stdin_fd = 0\<rparr>"
proof -
  have "parse_cmd (send_cmd ''READ'' [cyc, sx, sy, dx, dy, n, d]) = parse_body (cmd_type_of ''READ'') (Some (put_args [cyc, sx, sy, dx, dy, n, d] @ endl))"
    "parse_cmd (send_cmd ''WRITE'' [cyc, sx, sy, dx, dy, n, d]) = parse_body (cmd_type_of ''WRITE'') (Some (put_args [cyc, sx, sy, dx, dy, n, d] @ endl))"
    by (rule parse_send, simp)+
  then show "parse_cmd (sendReadCmd cyc sx sy dx dy n d) = Inr \<lparr>c_type = SC_READ, c_cycle = Fin (rnd 53 (of_int cyc)), c_clock_rate = Fin 0, c_src = [sx, sy],
          c_dst = [dx, dy], c_nbytes = n, c_desc = d, c_res_list = [], c_stdin_fd = 0\<rparr>"
    "parse_cmd (sendWriteCmd cyc sx sy dx dy n d) = Inr \<lparr>c_type = SC_WRITE, c_cycle = Fin (rnd 53 (of_int cyc)), c_clock_rate = Fin 0, c_src = [sx, sy],
          c_dst = [dx, dy], c_nbytes = n, c_desc = d, c_res_list = [], c_stdin_fd = 0\<rparr>"
    using parse_transfer[of SC_READ] parse_transfer[of SC_WRITE] assms by (simp_all add: sendReadCmd_def sendWriteCmd_def cmd_type_of_def del: put_args_simps)
qed

end
