(* ===== verification/LegoPeers.thy ===== *)
theory LegoPeers
  imports LegoServe ProtocolClient CmdStructs
begin

text \<open>
  The SSD server and its peers on the two ends of the bridge: a message through a FIFO, and the transfers
  the two ends announce.
\<close>

section \<open>Requests that reach no SSD\<close>

text \<open>
  A request that is not an I/O inside the capacity is answered with the status of its check and no
  times, and the SSD is as before.
\<close>

lemma server_round_declines:
  assumes env: "round_env p p' q arrival ret ms io" and bytes: "requestWireBytes q \<le> nat INT_MAX" "responseWireBytes q \<le> nat INT_MAX"
    and no: "\<not> io_request q capacity"
  shows "\<exists>V' io'. server_round C opt capacity (V, io, e, S) =
      Inr (if validateRuntimeRequest q capacity = Success then Finished else Again, V', io', e, S) \<and>
    sv_cycle V' = max (max (sv_cycle V) arrival) ret \<and> io_reads io' = ms \<and>
    io_sent io' = (io_sent io)(p' := io_sent io p' @ response_bytes \<lparr>a_magic = kSsdIpcMagic, a_version = kSsdIpcVersion,
      a_status = status_code (validateRuntimeRequest q capacity), a_id = q_id q, a_submitted = 0, a_completed = 0\<rparr>)"
proof -
  let ?V1 = "server_trace ''SSD_REQUEST_ARRIVED'' q arrival (en_simTick e) (status_code Success)
        (server_trace ''SSD_REQUEST_FIFO_RECEIVED'' q (sv_cycle V) (en_simTick e) (status_code Success) V)"
  obtain io1 where rc: "server_receive opt (en_simTick e) V io = Inr (None, q, arrival, ?V1, io1)"
      "io_reads io1 = sendResultCmd_strings [p'] # sendSyncCmd_desc (int ret) 0 # ms" "io_sent io1 = io_sent io" "io_takes io1 = io_takes io"
    using server_receive_env[OF env bytes(1)] by blast
  define st where "st = validateRuntimeRequest q capacity"
  let ?a = "\<lparr>a_magic = kSsdIpcMagic, a_version = kSsdIpcVersion, a_status = status_code st, a_id = q_id q, a_submitted = 0, a_completed = 0\<rparr>"
  have off: "\<not> (st = Success \<and> q_operation q \<noteq> op_code Op_Shutdown)" using no by (simp add: io_request_def st_def)
  have sv: "server_serve C (op_clockRate opt) capacity q arrival (?V1, e, S) = Inr (?a, ?V1, e, S)"
    unfolding server_serve_def prod.case Let_def st_def[symmetric] if_not_P[OF off] by (simp add: ssd_response_new_def)
  have cc: "completion_cycle (op_clockRate opt) ?V1 arrival ?a = Inr (max (sv_cycle V) arrival)"
    by (simp add: completion_cycle_def server_trace_def)
  have env2: "p' \<noteq> []" "\<forall>c \<in> set p'. \<not> is_space c" "length (pipe_answer p') < 1023" "ret < 2 ^ 53" "length (transfer_answer (int ret) 0) < 1023"
    "steady (io_takes io1 p')" "32 \<le> length (io_takes io1 p')" using env rc(4) by (auto simp: round_env_def)
  obtain out V3 io3 where rp: "server_reply opt (en_simTick e) q arrival ?a ?V1 io1 = Inr (out, V3, io3)"
      "out = (if a_status ?a = status_code Success \<and> q_operation q = op_code Op_Shutdown then Finished else Again)"
      "sv_cycle V3 = max (max (sv_cycle V) arrival) ret" "io_reads io3 = ms" "io_sent io3 = (io_sent io)(p' := io_sent io p' @ response_bytes ?a)"
    using server_reply_env[OF rc(2) env2 cc bytes(2), of "en_simTick e"] rc(3) by auto
  have "status_code st = status_code Success \<longleftrightarrow> st = Success" by (cases st) (simp_all add: status_code_def)
  then have out: "out = (if st = Success then Finished else Again)" using rp(2) off by auto
  have "server_round C opt capacity (V, io, e, S) = Inr (out, V3, io3, e, S)"
    using rc(1) sv rp(1) by (simp add: server_round_def)
  then show ?thesis using rp(3-5) out unfolding st_def by blast
qed

section \<open>A message through a FIFO\<close>

text \<open>
  Whatever pieces the system moves, a message written at one end is the message read at the other, and
  the reader is left with what follows.
\<close>

lemma message_delivered:
  assumes bs: "length bs \<le> length (io_takes io p)" "steady (io_takes io p)" and rd: "io_steady p (length bs) io2" "io_pending p io2 = bs @ rest"
  shows "\<exists>io' io2'. pipe_write p bs io = Inr (length bs, io') \<and> io_sent io' = (io_sent io)(p := io_sent io p @ bs) \<and>
    pipe_read p (length bs) io2 = Inr (bs, io2') \<and> io_pending p io2' = rest"
proof -
  obtain io' where "pipe_write p bs io = Inr (length bs, io')" "io_sent io' = (io_sent io)(p := io_sent io p @ bs)"
    using pipe_write_ok[OF bs(2,1)] by blast
  moreover obtain io2' where "pipe_read p (length bs) io2 = Inr (bs, io2')" "io_pending p io2' = rest"
    using pipe_read_ok[OF rd(1)] rd(2) by auto
  ultimately show ?thesis by blast
qed

section \<open>What is printed\<close>

text \<open>Everything the calls print is appended, the command first.\<close>

definition says :: "sim_io \<Rightarrow> sim_io \<Rightarrow> bool" where
  "says io io' \<longleftrightarrow> (\<exists>s. io_out io' = io_out io @ s)"

lemma says_refl [simp]: "says io io"
  by (simp add: says_def)

lemma says_trans: "says io io1 \<Longrightarrow> says io1 io2 \<Longrightarrow> says io io2"
  by (auto simp: says_def)

lemma sync_call_says: "sync_call cmd io = Inr (c, io') \<Longrightarrow> \<exists>s. io_out io' = io_out io @ cmd @ s"
  by (auto simp: sync_call_def parseCmd_def io_print_def res_simps split: list.splits)

lemma sync_says:
  "writeSync t sx sy dx dy n d io = Inr (x, io') \<Longrightarrow> \<exists>s. io_out io' = io_out io @ sendWriteCmd (int t) sx sy dx dy n d @ s"
  "readSync t sx sy dx dy n d io = Inr (x, io') \<Longrightarrow> \<exists>s. io_out io' = io_out io @ sendReadCmd (int t) sx sy dx dy n d @ s"
  "sendSync sx sy dx dy io = Inr (p, io') \<Longrightarrow> \<exists>s. io_out io' = io_out io @ sendSendCmd sx sy dx dy @ s"
  "receiveSync sx sy dx dy io = Inr (p, io') \<Longrightarrow> \<exists>s. io_out io' = io_out io @ sendReceiveCmd sx sy dx dy @ s"
  by (auto simp: writeSync_def readSync_def sendSync_def receiveSync_def res_simps split_paired_Ex dest!: sync_call_says)

lemma pipe_says:
  "pipe_read p n io = Inr (bs, io') \<Longrightarrow> says io io'"
  "pipe_write p bs io = Inr (n, io') \<Longrightarrow> says io io'"
  by (auto simp: pipe_read_def pipe_write_def open_unit_def io_print_def says_def res_simps split_paired_Ex split: option.splits)

lemma sync_says_says:
  "writeSync t sx sy dx dy n d io = Inr (x, io') \<Longrightarrow> says io io'"
  "readSync t sx sy dx dy n d io = Inr (x, io') \<Longrightarrow> says io io'"
  "sendSync sx sy dx dy io = Inr (p, io') \<Longrightarrow> says io io'"
  "receiveSync sx sy dx dy io = Inr (p, io') \<Longrightarrow> says io io'"
  using sync_says by (fastforce simp: says_def)+

lemma roundTrip_says:
  assumes "roundTrip q issue rb pb c = Inr (x, c')"
  shows "\<exists>s s' s'' n. io_out (cl_io c') = io_out (cl_io c) @ s @ sendWriteCmd (int issue) 0 0 1 0 (as_int (int rb)) (as_long (q_id q)) @ s' @
    sendReadCmd (int issue) 1 0 0 0 (as_int (int n)) (as_long (q_id q)) @ s''"
proof -
  obtain p io1 where 1: "sendSync 0 0 1 0 (cl_io c) = Inr (p, io1)" using assms by (auto simp: roundTrip_def client_io_def res_simps split_paired_Ex Let_def)
  obtain io2 where 2: "pipe_write p (request_bytes q) io1 = Inr (32, io2)"
    using assms by (auto simp: roundTrip_def client_io_def res_simps split_paired_Ex Let_def 1 split: if_splits)
  obtain a io3 where 3: "writeSync issue 0 0 1 0 (as_int (int rb)) (as_long (q_id q)) io2 = Inr (a, io3)"
    using assms by (auto simp: roundTrip_def client_io_def res_simps split_paired_Ex Let_def client_trace_def 1 2)
  obtain p' io4 where 4: "receiveSync 1 0 0 0 io3 = Inr (p', io4)"
    using assms by (auto simp: roundTrip_def client_io_def res_simps split_paired_Ex Let_def client_trace_def 1 2 3)
  obtain bs io5 where 5: "pipe_read p' 32 io4 = Inr (bs, io5)" "length bs = 32"
    using assms by (auto simp: roundTrip_def client_io_def res_simps split_paired_Ex Let_def client_trace_def 1 2 3 4 split: if_splits)
  obtain n d io6 where 6: "readSync issue 1 0 0 0 (as_int (int n)) (as_long (q_id q)) io5 = Inr (d, io6)" "cl_io c' = io6"
    using assms by (auto simp: roundTrip_def client_io_def res_simps split_paired_Ex Let_def client_trace_def 1 2 3 4 5 split: if_splits)
  have "says (cl_io c) io2" using sync_says_says(3)[OF 1] pipe_says(2)[OF 2] says_trans by blast
  moreover obtain s' where "io_out io3 = io_out io2 @ sendWriteCmd (int issue) 0 0 1 0 (as_int (int rb)) (as_long (q_id q)) @ s'" using sync_says(1)[OF 3] by blast
  moreover have "says io3 io5" using sync_says_says(4)[OF 4] pipe_says(1)[OF 5(1)] says_trans by blast
  moreover obtain s'' where "io_out io6 = io_out io5 @ sendReadCmd (int issue) 1 0 0 0 (as_int (int n)) (as_long (q_id q)) @ s''" using sync_says(2)[OF 6(1)] by blast
  ultimately show ?thesis unfolding 6(2) says_def by (metis append.assoc)
qed

lemma server_receive_says:
  assumes "server_receive opt now V io = Inr (None, q, arrival, V', io')"
  shows "requestWireBytes q \<le> nat INT_MAX \<and> (\<exists>s s'. io_out io' = io_out io @ s @ sendReadCmd (int (sv_cycle V)) (as_int (op_npuX opt)) (as_int (op_npuY opt))
    (as_int (op_ssdX opt)) (as_int (op_ssdY opt)) (int (requestWireBytes q)) 0 @ s')"
proof -
  let ?rs = "receiveSync (as_int (op_npuX opt)) (as_int (op_npuY opt)) (as_int (op_ssdX opt)) (as_int (op_ssdY opt))"
  obtain p io1 where 1: "?rs io = Inr (p, io1)" using assms by (auto simp: server_receive_def res_simps split_paired_Ex)
  obtain bs io2 where 2: "pipe_read p 32 io1 = Inr (bs, io2)" "length bs = 32"
    using assms by (auto simp: server_receive_def res_simps split_paired_Ex 1 split: if_splits)
  have 3: "readSync (sv_cycle V) (as_int (op_npuX opt)) (as_int (op_npuY opt)) (as_int (op_ssdX opt)) (as_int (op_ssdY opt)) (int (requestWireBytes q)) 0 io2 =
      Inr (arrival, io')" "requestWireBytes q \<le> nat INT_MAX"
    using assms by (auto simp: server_receive_def res_simps split_paired_Ex Let_def server_trace_def 1 2 split: if_splits)
  obtain s s' where "io_out io2 = io_out io @ s" "io_out io' = io_out io2 @ sendReadCmd (int (sv_cycle V)) (as_int (op_npuX opt)) (as_int (op_npuY opt))
      (as_int (op_ssdX opt)) (as_int (op_ssdY opt)) (int (requestWireBytes q)) 0 @ s'"
    using says_trans[OF sync_says_says(4)[OF 1] pipe_says(1)[OF 2(1)]] sync_says(2)[OF 3(1)] by (auto simp: says_def)
  then show ?thesis using 3(2) by (intro conjI exI[of _ s] exI[of _ s']) simp_all
qed

text \<open>
  The client puts the identifier of the request into the descriptor of its transfers, the server 0: what
  the two announce for the request never is one transfer.
\<close>

lemma legs_apart:
  assumes "in_time cyc" "in_time cyc'" "in_int n" "in_int n'" "in_long d" "d \<noteq> 0"
  shows "\<exists>w r. parse_cmd (sendWriteCmd cyc 0 0 1 0 n d) = Inr w \<and> parse_cmd (sendReadCmd cyc' 0 0 1 0 n' 0) = Inr r \<and>
    c_type w = SC_WRITE \<and> c_type r = SC_READ \<and> c_src w = c_src r \<and> c_dst w = c_dst r \<and> \<not> comm_match w r \<and> \<not> comm_match r w"
proof -
  have l: "in_long 0" "in_long 1" by (simp_all add: in_long_def LONG_MAX_def)
  show ?thesis using parse_transfer_cmds(2)[OF assms(1) l(1,1,2,1) assms(3,5)] parse_transfer_cmds(1)[OF assms(2) l(1,1,2,1) assms(4) l(1)] assms(6)
    by (simp add: comm_match_def)
qed

section \<open>A round trip of the client that is answered\<close>

definition client_env :: "string \<Rightarrow> string \<Rightarrow> ssd_response \<Rightarrow> nat \<Rightarrow> nat \<Rightarrow> string list \<Rightarrow> sim_io \<Rightarrow> bool" where
  "client_env p p' a arrival ret ms io \<longleftrightarrow>
     io_reads io = sendResultCmd_strings [p] # sendSyncCmd_desc (int arrival) 0 # sendResultCmd_strings [p'] # sendSyncCmd_desc (int ret) 0 # ms \<and>
     p \<noteq> [] \<and> (\<forall>c \<in> set p. \<not> is_space c) \<and> length (pipe_answer p) < 1023 \<and>
     p' \<noteq> [] \<and> (\<forall>c \<in> set p'. \<not> is_space c) \<and> length (pipe_answer p') < 1023 \<and> p' \<noteq> p \<and>
     arrival < 2 ^ 53 \<and> ret < 2 ^ 53 \<and> length (transfer_answer (int arrival) 0) < 1023 \<and> length (transfer_answer (int ret) 0) < 1023 \<and>
     steady (io_takes io p) \<and> 32 \<le> length (io_takes io p) \<and>
     io_steady p' 32 io \<and> take 32 (io_pending p' io) = response_bytes a \<and> response_fits a"

lemma pipe_write_unit: "pipe_write p bs io = Inr (n, io') \<Longrightarrow> q \<noteq> p \<Longrightarrow> io_unit q io' = io_unit q io"
  by (auto simp: pipe_write_def open_unit_def io_print_def io_unit_def res_simps split_paired_Ex split: option.splits)

lemma roundTrip_env:
  assumes env: "client_env p p' a arrival ret ms (cl_io c)" and ok: "valid_response q a"
  shows "\<exists>c'. roundTrip q issue rb pb c = Inr ((a, ret), c') \<and> io_reads (cl_io c') = ms \<and>
    io_sent (cl_io c') = (io_sent (cl_io c))(p := io_sent (cl_io c) p @ request_bytes q)"
proof -
  let ?io = "cl_io c"
  have e: "io_reads ?io = sendResultCmd_strings [p] # sendSyncCmd_desc (int arrival) 0 # sendResultCmd_strings [p'] # sendSyncCmd_desc (int ret) 0 # ms"
    "p \<noteq> []" "\<forall>c \<in> set p. \<not> is_space c" "length (pipe_answer p) < 1023" "p' \<noteq> []" "\<forall>c \<in> set p'. \<not> is_space c" "length (pipe_answer p') < 1023" "p' \<noteq> p"
    "0 \<le> int arrival" "int arrival < 2 ^ 53" "length (transfer_answer (int arrival) 0) < 1023"
    "0 \<le> int ret" "int ret < 2 ^ 53" "length (transfer_answer (int ret) 0) < 1023"
    "steady (io_takes ?io p)" "32 \<le> length (io_takes ?io p)" "io_steady p' 32 ?io" "take 32 (io_pending p' ?io) = response_bytes a" "response_fits a"
    using env by (auto simp: client_env_def)
  obtain io1 where 1: "sendSync 0 0 1 0 ?io = Inr (p, io1)"
    "io_reads io1 = sendSyncCmd_desc (int arrival) 0 # sendResultCmd_strings [p'] # sendSyncCmd_desc (int ret) 0 # ms"
    "io_takes io1 = io_takes ?io" "io_sent io1 = io_sent ?io" "io_fifo io1 = io_fifo ?io" "io_units io1 = io_units ?io"
    using pipe_answered(2)[OF e(1-4)] by auto
  obtain io2 where 2: "pipe_write p (request_bytes q) io1 = Inr (32, io2)" "io_sent io2 = (io_sent ?io)(p := io_sent ?io p @ request_bytes q)"
    "io_reads io2 = io_reads io1" "io_fifo io2 = io_fifo ?io"
    using pipe_write_ok[of io1 p "request_bytes q"] e(15,16) 1 by auto
  have u2: "io_unit p' io2 = io_unit p' ?io" using pipe_write_unit[OF 2(1) e(8)] 1(6) by (simp add: io_unit_def)
  obtain io3 where 3: "writeSync issue 0 0 1 0 (as_int (int rb)) (as_long (q_id q)) io2 = Inr (arrival, io3)"
    "io_reads io3 = sendResultCmd_strings [p'] # sendSyncCmd_desc (int ret) 0 # ms" "io_fifo io3 = io_fifo io2" "io_units io3 = io_units io2" "io_sent io3 = io_sent io2"
    using transfer_answered(2)[of io2 "int arrival" 0] e(9-11) 2(3) 1(2) by auto
  obtain io4 where 4: "receiveSync 1 0 0 0 io3 = Inr (p', io4)" "io_reads io4 = sendSyncCmd_desc (int ret) 0 # ms" "io_fifo io4 = io_fifo io3" "io_units io4 = io_units io3"
    "io_sent io4 = io_sent io3"
    using pipe_answered(1)[OF 3(2) e(5-7)] by auto
  have p4: "io_pending p' io4 = io_pending p' ?io" "io_steady p' 32 io4 = io_steady p' 32 ?io"
    using u2 2(4) 3(3,4) 4(3,4) by (simp_all add: io_pending_def io_steady_def io_unit_def)
  obtain io5 where 5: "pipe_read p' 32 io4 = Inr (response_bytes a, io5)" "io_reads io5 = io_reads io4" "io_sent io5 = io_sent io4"
    using pipe_read_ok[of p' 32 io4] p4 e(17,18) by auto
  obtain io6 where 6: "readSync issue 1 0 0 0 n (as_long (q_id q)) io5 = Inr (ret, io6)" "io_reads io6 = ms" "io_sent io6 = io_sent io5"
    if "n = as_int (int (if a_status a = status_code Success then pb else kSsdReadCommandBytes))" for n
    using transfer_answered(1)[of io5 "int ret" 0] e(12-14) 5(2) 4(2) by auto
  show ?thesis using 1(1) 2(1,2) 3(1,5) 4(1,5) 5(1,3) 6[OF refl] ok e(19)
    by (simp add: roundTrip_def client_io_def client_trace_def Let_def response_round_trip)
qed

end
