(* ===== verification/LegoBatch.thy ===== *)
theory LegoBatch
  imports ProtocolClient
begin

text \<open>
  The batch mode of \<open>sim/legosim_main.cc\<close> (\<open>main\<close>): a fixed number of equal requests, announced to the
  bridge at the start, submitted to the SSD as their arrivals are reported, and reported back as they
  complete.  The SSD's client state holds the requests in flight; a request's event runs the request it
  was allocated for, whatever event the request has now.
\<close>

section \<open>Requests in flight\<close>

record pending_io =
  pd_desc :: int
  pd_offset :: nat
  pd_bytes :: nat
  pd_arrivalCycle :: nat
  pd_submittedTick :: nat
  pd_completionTick :: nat
  pd_completionCycle :: nat
  pd_done :: bool
  pd_returned :: bool
  pd_submitEvent :: nat

definition pending_io_new :: pending_io where
  "pending_io_new = \<lparr>pd_desc = 0, pd_offset = 0, pd_bytes = 0, pd_arrivalCycle = 0, pd_submittedTick = 0, pd_completionTick = 0,
     pd_completionCycle = 0, pd_done = False, pd_returned = False, pd_submitEvent = 0\<rparr>"

text \<open>
  \<open>ba_events\<close> are the submissions allocated so far, \<open>ba_block\<close> the variables of a blocking request, and
  \<open>ba_fault\<close> a conversion that a callback could not do.
\<close>

record batch =
  ba_pending :: "pending_io list"
  ba_events :: "(nat \<times> nat) list"
  ba_nextID :: nat
  ba_reads :: nat
  ba_writes :: nat
  ba_bytesRead :: nat
  ba_bytesWritten :: nat
  ba_blockDone :: bool
  ba_blockSubmitted :: nat
  ba_blockCompleted :: nat
  ba_fault :: "fault option"

definition batch_new :: "nat \<Rightarrow> batch" where
  "batch_new n = \<lparr>ba_pending = replicate n pending_io_new, ba_events = [], ba_nextID = 1, ba_reads = 0, ba_writes = 0, ba_bytesRead = 0,
     ba_bytesWritten = 0, ba_blockDone = False, ba_blockSubmitted = 0, ba_blockCompleted = 0, ba_fault = None\<rparr>"

datatype batch_cb = CB_Block | CB_Pending nat

definition bio_of_op :: "storage_op \<Rightarrow> bio_type" where
  "bio_of_op o' = (case o' of OP_READ \<Rightarrow> BIO_READ | OP_WRITE \<Rightarrow> BIO_WRITE)"

definition batch_count :: "storage_op \<Rightarrow> nat \<Rightarrow> batch \<Rightarrow> batch" where
  "batch_count o' n b = (case o' of
     OP_READ \<Rightarrow> b\<lparr>ba_reads := wrap64 (ba_reads b + 1), ba_bytesRead := wrap64 (ba_bytesRead b + n)\<rparr>
   | OP_WRITE \<Rightarrow> b\<lparr>ba_writes := wrap64 (ba_writes b + 1), ba_bytesWritten := wrap64 (ba_bytesWritten b + n)\<rparr>)"

definition sub64 :: "nat \<Rightarrow> nat \<Rightarrow> nat" where
  "sub64 a b = wrap64 (a + 18446744073709551616 - b)"

text \<open>\<open>(uint64_t)((completion - submitted) / clockRate)\<close>\<close>

definition batch_latency :: "fl \<Rightarrow> nat \<Rightarrow> nat \<Rightarrow> nat res" where
  "batch_latency rate completed submitted = fl_to_nat (fl_div 53 (fl_of_nat 53 (sub64 completed submitted)) rate)"

text \<open>The callbacks of the requests.\<close>

definition batch_callback :: "fl \<Rightarrow> batch_cb \<Rightarrow> nat \<Rightarrow> nat \<Rightarrow> batch \<Rightarrow> batch" where
  "batch_callback rate c i now b = (case c of
     CB_Block \<Rightarrow> b\<lparr>ba_blockCompleted := now, ba_blockDone := True\<rparr>
   | CB_Pending k \<Rightarrow>
       let p = (ba_pending b ! k)\<lparr>pd_completionTick := now\<rparr> in
       (case batch_latency rate now (pd_submittedTick p) of
          Inl f \<Rightarrow> b\<lparr>ba_fault := Some f\<rparr>
        | Inr l \<Rightarrow> b\<lparr>ba_pending := (ba_pending b)[k := p\<lparr>pd_completionCycle := wrap64 (pd_arrivalCycle p + l), pd_done := True\<rparr>]\<rparr>))"

type_synonym 'w batch_ssd = "engine \<times> (batch_cb, 'w, batch) ssd"

section \<open>Blocking requests\<close>

definition block_prepare :: "storage_op \<Rightarrow> nat \<Rightarrow> nat \<Rightarrow> nat \<Rightarrow> batch \<Rightarrow> batch_cb bio \<times> batch" where
  "block_prepare o' off n now b =
     (\<lparr>b_id = ba_nextID b, b_type = bio_of_op o', b_offset = off, b_length = n, b_callback = CB_Block, b_submittedAt = 0\<rparr>,
      batch_count o' n (b\<lparr>ba_blockSubmitted := now, ba_nextID := wrap64 (ba_nextID b + 1)\<rparr>))"

definition runStorageIOBlocking :: "'w ssd_conf \<Rightarrow> fl \<Rightarrow> nat \<Rightarrow> nat \<Rightarrow> nat \<Rightarrow> storage_op \<Rightarrow> 'w batch_ssd \<Rightarrow> (nat \<times> 'w batch_ssd) res" where
  "runStorageIOBlocking C rate arrival off n o' = (\<lambda>(e, S).
     rbind (cycle_to_tick rate arrival) (\<lambda>t.
     rbind (ssd_serve (sc_low C) (sc_driver C) (batch_callback rate) (sc_fuel C) (block_prepare o' off n) ba_blockDone t
              (e, S\<lparr>sd_client := (sd_client S)\<lparr>ba_blockDone := False, ba_blockSubmitted := 0, ba_blockCompleted := 0\<rparr>\<rparr>)) (\<lambda>(e, S).
     rbind (batch_latency rate (ba_blockCompleted (sd_client S)) (ba_blockSubmitted (sd_client S))) (\<lambda>l. Inr (l, e, S)))))"

text \<open>The requests and, before reads, the data they will read.\<close>

definition pending_set :: "nat \<Rightarrow> (pending_io \<Rightarrow> pending_io) \<Rightarrow> batch \<Rightarrow> batch" where
  "pending_set k f b = b\<lparr>ba_pending := (ba_pending b)[k := f (ba_pending b ! k)]\<rparr>"

definition batch_desc :: "nat \<Rightarrow> int" where
  "batch_desc i = as_long (wrap64 ((i + 1) * 8))"

definition next_offset :: "nat \<Rightarrow> nat \<Rightarrow> nat \<Rightarrow> nat" where
  "next_offset capacity n off = (let off = wrap64 (off + n) in if capacity > 0 \<and> capacity \<le> off then off mod capacity else off)"

definition fill_step :: "'w ssd_conf \<Rightarrow> options \<Rightarrow> nat \<Rightarrow> nat \<Rightarrow> nat \<times> 'w batch_ssd \<Rightarrow> (nat \<times> 'w batch_ssd) res" where
  "fill_step C opt capacity i = (\<lambda>(off, e, S).
     let S = S\<lparr>sd_client := pending_set i (\<lambda>p. p\<lparr>pd_desc := batch_desc i, pd_offset := off, pd_bytes := op_requestBytes opt\<rparr>) (sd_client S)\<rparr> in
     rbind (if op_op opt = OP_READ then rbind (runStorageIOBlocking C (op_clockRate opt) 0 off (op_requestBytes opt) OP_WRITE (e, S)) (\<lambda>(l, x). Inr x)
            else Inr (e, S)) (\<lambda>x.
     Inr (next_offset capacity (op_requestBytes opt) off, x)))"

section \<open>Arrivals\<close>

text \<open>The request a SYNC is about: by its descriptor, or the next one.\<close>

definition batch_index :: "int option \<Rightarrow> nat \<Rightarrow> nat \<Rightarrow> nat option" where
  "batch_index d got reqs = (case d of None \<Rightarrow> Some got
     | Some d \<Rightarrow> if d \<le> 0 \<or> d mod 8 \<noteq> 0 \<or> d div 8 = 0 \<or> int reqs < d div 8 then None else Some (nat (d div 8 - 1)))"

definition sync_desc :: "istream \<Rightarrow> int option" where
  "sync_desc st = (case get_long st of (Some d, Some r) \<Rightarrow> Some d | _ \<Rightarrow> None)"

definition submitStorageIOAsync :: "options \<Rightarrow> nat \<Rightarrow> 'w batch_ssd \<Rightarrow> 'w batch_ssd res" where
  "submitStorageIOAsync opt k = (\<lambda>(e, S). case allocateEvent e of (i, e) \<Rightarrow>
     let b = (pending_set k (\<lambda>p. p\<lparr>pd_submitEvent := i\<rparr>) (sd_client S)); b = b\<lparr>ba_events := (i, k) # ba_events b\<rparr> in
     rbind (cycle_to_tick (op_clockRate opt) (pd_arrivalCycle (ba_pending b ! k))) (\<lambda>t.
     rbind (scheduleEvent i t e) (\<lambda>e. Inr (e, S\<lparr>sd_client := b\<rparr>))))"

text \<open>The loop over the arrivals; \<open>n\<close> of them are still missing.\<close>

fun batch_arrivals :: "options \<Rightarrow> nat \<Rightarrow> nat \<Rightarrow> string list \<times> 'w batch_ssd \<Rightarrow> (nat option \<times> string list \<times> 'w batch_ssd) res" where
  "batch_arrivals opt 0 got x = Inr (None, x)"
| "batch_arrivals opt (Suc n) got (ls, e, S) =
     rbind (waitForSync ls) (\<lambda>(r, ls). case r of None \<Rightarrow> Inr (Some 4, ls, e, S)
     | Some (cyc, st) \<Rightarrow>
       (case batch_index (sync_desc st) got (length (ba_pending (sd_client S))) of None \<Rightarrow> Inr (Some 4, ls, e, S)
        | Some k \<Rightarrow>
          rbind (submitStorageIOAsync opt k (e, S\<lparr>sd_client := pending_set k (\<lambda>p. p\<lparr>pd_arrivalCycle := cyc\<rparr>) (sd_client S)\<rparr>)) (\<lambda>x.
          batch_arrivals opt n (Suc got) (ls, x))))"

section \<open>Completions\<close>

text \<open>The event of a submission.\<close>

definition batch_event :: "'w ssd_conf \<Rightarrow> storage_op \<Rightarrow> nat \<Rightarrow> nat \<Rightarrow> 'w batch_ssd \<Rightarrow> 'w batch_ssd res" where
  "batch_event C o' i t = (\<lambda>(e, S). case map_of (ba_events (sd_client S)) i of
     None \<Rightarrow> no_event
   | Some k \<Rightarrow>
       let b = pending_set k (\<lambda>p. p\<lparr>pd_submittedTick := en_simTick e\<rparr>) (sd_client S); p = ba_pending b ! k in
       rbind (ssd_submitIO (sc_low C) (sc_driver C)
          \<lparr>b_id = ba_nextID b, b_type = bio_of_op o', b_offset = pd_offset p, b_length = pd_bytes p, b_callback = CB_Pending k, b_submittedAt = 0\<rparr>
          (e, S\<lparr>sd_client := b\<lparr>ba_nextID := wrap64 (ba_nextID b + 1)\<rparr>\<rparr>)) (\<lambda>(e, S).
       Inr (e, S\<lparr>sd_client := batch_count o' (pd_bytes p) (sd_client S)\<rparr>)))"

definition batch_emitWrite :: "options \<Rightarrow> pending_io \<Rightarrow> string" where
  "batch_emitWrite opt p = emit_line (send_cmd ''WRITE'' [int (pd_completionCycle p), op_ssdX opt, op_ssdY opt, op_npuX opt, op_npuY opt,
     int (pd_bytes p), pd_desc p])"

text \<open>After an event: every request that is done and still has its event is reported.\<close>

definition report_step :: "options \<Rightarrow> nat \<Rightarrow> nat \<times> string \<times> 'w batch_ssd \<Rightarrow> (nat \<times> string \<times> 'w batch_ssd) res" where
  "report_step opt k = (\<lambda>(n, out, e, S). let p = ba_pending (sd_client S) ! k in
     if pd_done p \<and> pd_submitEvent p \<noteq> 0 then
       rbind (deallocateEvent (pd_submitEvent p) e) (\<lambda>e.
       Inr (n + 1, out @ batch_emitWrite opt p, e, S\<lparr>sd_client := pending_set k (\<lambda>p. p\<lparr>pd_submitEvent := 0\<rparr>) (sd_client S)\<rparr>))
     else Inr (n, out, e, S))"

fun batch_service :: "'w ssd_conf \<Rightarrow> options \<Rightarrow> nat \<Rightarrow> nat \<times> string \<times> 'w batch_ssd \<Rightarrow> (nat \<times> string \<times> 'w batch_ssd) res" where
  "batch_service C opt 0 x = Inl (NoReturn ''batch events'')"
| "batch_service C opt (Suc f) (n, out, e, S) =
     (if n < op_iterations opt then
        rbind (doNextEvent (ssd_event (sc_low C) (batch_callback (op_clockRate opt)) (batch_event C (op_op opt))) (e, S)) (\<lambda>(go, e, S).
        if \<not> go then Inr (n, out, e, S)
        else case ba_fault (sd_client S) of Some g \<Rightarrow> Inl g
        | None \<Rightarrow> rbind (rfold (report_step opt) [0..<length (ba_pending (sd_client S))] (n, out, e, S)) (batch_service C opt f))
      else Inr (n, out, e, S))"

section \<open>Return\<close>

fun batch_returns :: "nat \<Rightarrow> nat \<Rightarrow> nat \<Rightarrow> string list \<Rightarrow> batch \<Rightarrow> (nat option \<times> nat \<times> batch) res" where
  "batch_returns 0 got cyc ls b = Inr (None, cyc, b)"
| "batch_returns (Suc n) got cyc ls b =
     rbind (waitForSync ls) (\<lambda>(r, ls). case r of None \<Rightarrow> Inr (Some 6, cyc, b)
     | Some (c, st) \<Rightarrow>
       (case batch_index (sync_desc st) got (length (ba_pending b)) of None \<Rightarrow> Inr (Some 6, cyc, b)
        | Some k \<Rightarrow> batch_returns n (Suc got) (max cyc c) ls (pending_set k (\<lambda>p. p\<lparr>pd_returned := True\<rparr>) b)))"

section \<open>The run\<close>

definition requestLegBytes :: "options \<Rightarrow> nat" where
  "requestLegBytes opt = (if op_op opt = OP_READ then 64 else op_requestBytes opt)"

definition batch_emitRead :: "options \<Rightarrow> nat \<Rightarrow> pending_io \<Rightarrow> string" where
  "batch_emitRead opt i p = emit_line (send_cmd ''READ'' [int (wrap64 (1 + i)), op_npuX opt, op_npuY opt, op_ssdX opt, op_ssdY opt,
     int (requestLegBytes opt), pd_desc p])"

text \<open>The exit code, the output and the final state; \<open>fuel\<close> bounds the events of the service loop.\<close>

definition batch_run :: "'w ssd_conf \<Rightarrow> options \<Rightarrow> nat \<Rightarrow> nat \<Rightarrow> nat \<Rightarrow> string list \<Rightarrow> 'w batch_ssd \<Rightarrow> (nat \<times> string \<times> 'w batch_ssd) res" where
  "batch_run C opt capacity minBlockSize fuel ls = (\<lambda>(e, S).
     let N = op_iterations opt; out = emitResult [''capacity'', to_string capacity, ''min_io_size'', to_string minBlockSize] in
     rbind (rfold (fill_step C opt capacity) [0..<N] (op_startOffset opt, e, S\<lparr>sd_client := batch_new N\<rparr>)) (\<lambda>(off, e, S).
     let out = out @ concat (map (\<lambda>i. batch_emitRead opt i (ba_pending (sd_client S) ! i)) [0..<N]) in
     rbind (batch_arrivals opt N 0 (ls, e, S)) (\<lambda>(exit, ls, e, S).
     case exit of Some k \<Rightarrow> Inr (k, out, e, S)
     | None \<Rightarrow>
       rbind (batch_service C opt fuel (0, out, e, S)) (\<lambda>(n, out, e, S).
       if n \<noteq> N then Inr (5, out, e, S)
       else rbind (batch_returns N 0 1 ls (sd_client S)) (\<lambda>(exit, cyc, b).
         case exit of Some k \<Rightarrow> Inr (k, out, e, S)
         | None \<Rightarrow> Inr (0, out @ emitResult [''reads'', to_string (ba_reads b), ''writes'', to_string (ba_writes b), ''bytes_read'', to_string (ba_bytesRead b),
             ''bytes_written'', to_string (ba_bytesWritten b), ''completed'', to_string N] @ emitCycle cyc, e, S\<lparr>sd_client := b\<rparr>))))))"

text \<open>The loops as they are evaluated, with the number of rounds in one place.\<close>

lemma batch_service_code [code]:
  "batch_service C opt fuel (n, out, e, S) = (case fuel of 0 \<Rightarrow> Inl (NoReturn ''batch events'') | Suc f \<Rightarrow>
     (if n < op_iterations opt then
        rbind (doNextEvent (ssd_event (sc_low C) (batch_callback (op_clockRate opt)) (batch_event C (op_op opt))) (e, S)) (\<lambda>(go, e, S).
        if \<not> go then Inr (n, out, e, S)
        else case ba_fault (sd_client S) of Some g \<Rightarrow> Inl g
        | None \<Rightarrow> rbind (rfold (report_step opt) [0..<length (ba_pending (sd_client S))] (n, out, e, S)) (batch_service C opt f))
      else Inr (n, out, e, S)))"
  by (cases fuel) simp_all

lemma batch_arrivals_code [code]:
  "batch_arrivals opt n got (ls, e, S) = (case n of 0 \<Rightarrow> Inr (None, ls, e, S) | Suc n \<Rightarrow>
     rbind (waitForSync ls) (\<lambda>(r, ls). case r of None \<Rightarrow> Inr (Some 4, ls, e, S)
     | Some (cyc, st) \<Rightarrow>
       (case batch_index (sync_desc st) got (length (ba_pending (sd_client S))) of None \<Rightarrow> Inr (Some 4, ls, e, S)
        | Some k \<Rightarrow>
          rbind (submitStorageIOAsync opt k (e, S\<lparr>sd_client := pending_set k (\<lambda>p. p\<lparr>pd_arrivalCycle := cyc\<rparr>) (sd_client S)\<rparr>)) (\<lambda>x.
          batch_arrivals opt n (Suc got) (ls, x)))))"
  by (cases n) simp_all

section \<open>Descriptors\<close>

lemma batch_desc_small: "i < 1152921504606846975 \<Longrightarrow> batch_desc i = 8 * (int i + 1)"
  by (simp add: batch_desc_def as_long_def wrap64_def)

lemma batch_index_range:
  assumes "batch_index d got reqs = Some k" "got < reqs"
  shows "k < reqs"
  using assms by (auto simp: batch_index_def split: option.splits if_splits)

lemma batch_index_desc:
  assumes "k < reqs" "reqs \<le> 1152921504606846975"
  shows "batch_index (Some (batch_desc k)) got reqs = Some k"
  using assms by (simp add: batch_index_def batch_desc_small)

text \<open>Every request is reported at most once, as often as the counter says.\<close>

definition reportable :: "pending_io \<Rightarrow> bool" where
  "reportable p \<longleftrightarrow> pd_done p \<and> pd_submitEvent p \<noteq> 0"

lemma report_all:
  assumes "rfold (report_step opt) ks (n, out, e, S) = Inr (n', out', e', S')" "distinct ks" "\<forall>k \<in> set ks. k < length (ba_pending (sd_client S))"
  shows "n' = n + length (filter (\<lambda>k. reportable (ba_pending (sd_client S) ! k)) ks) \<and>
    out' = out @ concat (map (\<lambda>k. batch_emitWrite opt (ba_pending (sd_client S) ! k))
      (filter (\<lambda>k. reportable (ba_pending (sd_client S) ! k)) ks)) \<and>
    length (ba_pending (sd_client S')) = length (ba_pending (sd_client S)) \<and>
    (\<forall>k < length (ba_pending (sd_client S)). ba_pending (sd_client S') ! k = (if k \<in> set ks \<and> pd_done (ba_pending (sd_client S) ! k)
       then (ba_pending (sd_client S) ! k)\<lparr>pd_submitEvent := 0\<rparr> else ba_pending (sd_client S) ! k))"
  using assms
proof (induction ks arbitrary: n out e S)
  case (Cons k ks)
  let ?P = "ba_pending (sd_client S)"
  obtain n1 out1 e1 S1 where s: "report_step opt k (n, out, e, S) = Inr (n1, out1, e1, S1)"
    and r: "rfold (report_step opt) ks (n1, out1, e1, S1) = Inr (n', out', e', S')"
    using Cons.prems(1) by (auto simp: res_simps split_paired_Ex)
  have k: "k < length ?P" "k \<notin> set ks" using Cons.prems(2,3) by simp_all
  have s1: "ba_pending (sd_client S1) = (if pd_done (?P ! k) then ?P[k := (?P ! k)\<lparr>pd_submitEvent := 0\<rparr>] else ?P)"
    "n1 = (if reportable (?P ! k) then n + 1 else n)"
    "out1 = (if reportable (?P ! k) then out @ batch_emitWrite opt (?P ! k) else out)"
    using s by (auto simp: reportable_def report_step_def Let_def res_simps pending_set_def split: if_splits) (metis list_update_id pending_io.surjective pending_io.update_convs(10))+
  have eq: "ba_pending (sd_client S1) ! j = ?P ! j" if "j \<noteq> k" for j using that by (simp add: s1(1))
  have ks: "\<forall>j \<in> set ks. j < length (ba_pending (sd_client S1))" "distinct ks" using Cons.prems(2,3) by (simp_all add: s1(1))
  have ne: "\<forall>j \<in> set ks. ba_pending (sd_client S1) ! j = ?P ! j" by (metis eq k(2))
  note ih = Cons.IH[OF r ks(2,1)]
  have f: "filter (\<lambda>j. reportable (ba_pending (sd_client S1) ! j)) ks =
      filter (\<lambda>j. reportable (?P ! j)) ks" using ne by (auto intro: filter_cong)
  have m: "map (\<lambda>j. batch_emitWrite opt (ba_pending (sd_client S1) ! j)) (filter (\<lambda>j. reportable (?P ! j)) ks) =
      map (\<lambda>j. batch_emitWrite opt (?P ! j)) (filter (\<lambda>j. reportable (?P ! j)) ks)" using ne by auto
  show ?case
  proof (intro conjI allI impI)
    show "n' = n + length (filter (\<lambda>k. reportable (?P ! k)) (k # ks))" using ih s1(2) by (simp add: f)
    show "out' = out @ concat (map (\<lambda>k. batch_emitWrite opt (?P ! k)) (filter (\<lambda>k. reportable (?P ! k)) (k # ks)))"
      using ih s1(3) by (simp add: f m)
    show "length (ba_pending (sd_client S')) = length ?P" using ih s1(1) by simp
    fix j assume j: "j < length ?P"
    then have j1: "j < length (ba_pending (sd_client S1))" by (simp add: s1(1))
    show "ba_pending (sd_client S') ! j = (if j \<in> set (k # ks) \<and> pd_done (?P ! j) then (?P ! j)\<lparr>pd_submitEvent := 0\<rparr> else ?P ! j)"
    proof (cases "j = k")
      case True
      then show ?thesis using ih j1 k by (simp add: s1(1))
    next
      case False
      then show ?thesis using ih j1 eq[OF False] by simp
    qed
  qed
qed simp

end
