(* ===== verification/LegoReports.thy ===== *)
theory LegoReports
  imports LegoBatch
begin

text \<open>
  A batch run that ends well has announced and reported every request exactly once.  What an event may
  do to the client's state is bounded by what the callbacks and the client's own events do.
\<close>

section \<open>What events do to the client\<close>

lemma complete_due_client:
  assumes "\<And>q t e B s e' B' s'. cb q t (e, B, s) = Inr (e', B', s') \<Longrightarrow> Q s \<Longrightarrow> Q s'"
  shows "complete_due cb tick qs (e, B, s) = Inr (qs', e', B', s') \<Longrightarrow> Q s \<Longrightarrow> Q s'"
proof (induction qs arbitrary: e B s)
  case (Cons q qs)
  show ?case
  proof (cases "h_finishedAt q \<le> tick")
    case True
    then obtain e1 B1 s1 where c: "cb q tick (e, B, s) = Inr (e1, B1, s1)" "complete_due cb tick qs (e1, B1, s1) = Inr (qs', e', B', s')"
      using Cons.prems(1) by (auto simp: res_simps split_paired_Ex)
    show ?thesis by (rule Cons.IH[OF c(2) assms[OF c(1) Cons.prems(2)]])
  qed (use Cons.prems in simp)
qed simp

lemma updateCompletion_client: "updateCompletion sched_with (h, e, B, s) = Inr (h', e', B', s') \<Longrightarrow> s' = s"
  by (auto simp: updateCompletion_def sched_with_def res_simps split_paired_Ex split: list.splits if_splits)

definition keeps :: "('s \<Rightarrow> bool) \<Rightarrow> ('c \<Rightarrow> nat \<Rightarrow> nat \<Rightarrow> 's \<Rightarrow> 's) \<Rightarrow> (nat \<Rightarrow> nat \<Rightarrow> engine \<times> ('c, 'w, 's) ssd \<Rightarrow> (engine \<times> ('c, 'w, 's) ssd) res) \<Rightarrow> bool" where
  "keeps Q invoke client \<longleftrightarrow> (\<forall>c i t s. Q s \<longrightarrow> Q (invoke c i t s)) \<and>
     (\<forall>i t e S e' S'. client i t (e, S) = Inr (e', S') \<longrightarrow> Q (sd_client S) \<longrightarrow> Q (sd_client S'))"

lemma bil_completion_client: "bil_completion invoke now i (B, s) = (B', s') \<Longrightarrow> s' = s \<or> (\<exists>c. s' = invoke c i now s)"
  by (auto simp: bil_completion_def Let_def split: option.splits)

lemma ssd_event_client:
  assumes "ssd_event L invoke client i t (e, S) = Inr (e', S')" "keeps Q invoke client" "Q (sd_client S)"
  shows "Q (sd_client S')"
proof (cases "i = hl_event (sd_hil S)")
  case True
  let ?cb = "\<lambda>q t (e, B, s). Inr (e, bil_completion invoke (en_simTick e) (h_context q) (B, s))"
  obtain h1 e1 B1 s1 where c: "completion sched_with ?cb t (sd_hil S, e, sd_bil S, sd_client S) = Inr (h1, e1, B1, s1)" "S' = S\<lparr>sd_hil := h1, sd_bil := B1, sd_client := s1\<rparr>"
    using assms(1) True by (auto simp: ssd_event_def res_simps split_paired_Ex)
  obtain qs e2 B2 s2 where d: "complete_due ?cb t (hl_queue (sd_hil S)) (e, sd_bil S, sd_client S) = Inr (qs, e2, B2, s2)"
    "updateCompletion sched_with ((sd_hil S)\<lparr>hl_queue := qs\<rparr>, e2, B2, s2) = Inr (h1, e1, B1, s1)"
    using c(1) by (auto simp: completion_def res_simps split_paired_Ex)
  have "Q s2"
  proof (rule complete_due_client[where Q = Q and cb = ?cb, OF _ d(1) assms(3)])
    fix q t e B s e' B' s'
    assume "?cb q t (e, B, s) = Inr (e', B', s')" "Q s"
    then have "bil_completion invoke (en_simTick e) (h_context q) (B, s) = (B', s')" by auto
    from bil_completion_client[OF this] show "Q s'" using assms(2) \<open>Q s\<close> by (auto simp: keeps_def)
  qed
  then show ?thesis using updateCompletion_client[OF d(2)] c(2) by simp
next
  case f: False
  show ?thesis
  proof (cases "find_core i 0 (hilCore (sd_cpu S))")
    case None
    show ?thesis
    proof (cases "i \<in> set (sl_back L)")
      case True
      then show ?thesis using assms(1,3) f None by (auto simp: ssd_event_def res_simps split_paired_Ex split: prod.splits)
    next
      case False
      then have "client i t (e, S) = Inr (e', S')" using assms(1) f None by (simp add: ssd_event_def)
      then show ?thesis using assms(2,3) unfolding keeps_def by blast
    qed
  next
    case (Some k)
    then show ?thesis using assms(1,3) f by (auto simp: ssd_event_def res_simps split_paired_Ex)
  qed
qed

lemma next_client:
  assumes "doNextEvent (ssd_event L invoke client) (e, S) = Inr (go, e', S')" "keeps Q invoke client" "Q (sd_client S)"
  shows "Q (sd_client S')"
proof (cases "en_forceStop e \<or> en_queue e = []")
  case True
  then show ?thesis using assms(1,3) by (auto simp: doNextEvent_def split: list.splits)
next
  case False
  then obtain i t q where q: "en_queue e = (i, t) # q" by (metis list.exhaust surj_pair)
  then obtain e1 where "ssd_event L invoke client i t (e\<lparr>en_simTick := t, en_queue := q\<rparr>, S) = Inr (e1, S')"
    using assms(1) False by (auto simp: doNextEvent_def res_simps split_paired_Ex no_event_def split: if_splits)
  then show ?thesis by (rule ssd_event_client[OF _ assms(2,3)])
qed

lemma run_client:
  "runEvents n (ssd_event L invoke client) stop (e, S) = Inr (e', S') \<Longrightarrow> keeps Q invoke client \<Longrightarrow> Q (sd_client S) \<Longrightarrow> Q (sd_client S')"
proof (induction n arbitrary: e S)
  case (Suc n)
  show ?case
  proof (cases "stop S")
    case False
    then obtain go e1 S1 where d: "doNextEvent (ssd_event L invoke client) (e, S) = Inr (go, e1, S1)"
      "(if go then runEvents n (ssd_event L invoke client) stop (e1, S1) else Inr (e1, S1)) = Inr (e', S')"
      using Suc.prems(1) by (auto simp: res_simps split_paired_Ex)
    have "Q (sd_client S1)" by (rule next_client[OF d(1) Suc.prems(2,3)])
    then show ?thesis using d(2) Suc.IH Suc.prems(2) by (cases go) auto
  qed (use Suc.prems in simp)
qed (auto split: if_splits)

lemma submit_client: "ssd_submitIO L D b (e, S) = Inr (e', S') \<Longrightarrow> sd_client S' = sd_client S"
  by (auto simp: ssd_submitIO_def bil_submitIO_def Let_def res_simps split_paired_Ex)

section \<open>Batch runs\<close>

text \<open>The events of the requests in flight and their descriptors.\<close>

definition in_flight :: "nat list \<Rightarrow> int list \<Rightarrow> batch \<Rightarrow> bool" where
  "in_flight evs ds b \<longleftrightarrow> map pd_submitEvent (ba_pending b) = evs \<and> map pd_desc (ba_pending b) = ds"

lemma map_update_same: "(\<And>p. g (f p) = g p) \<Longrightarrow> map g (xs[k := f (xs ! k)]) = map g xs"
  by (cases "k < length xs") (auto simp: nth_list_update intro!: nth_equalityI)

lemma in_flight_set:
  assumes "in_flight evs ds b" "\<And>p. pd_submitEvent (f p) = pd_submitEvent p" "\<And>p. pd_desc (f p) = pd_desc p"
  shows "in_flight evs ds (pending_set k f b)"
  using assms(1) map_update_same[of pd_submitEvent f, OF assms(2)] map_update_same[of pd_desc f, OF assms(3)]
  by (simp add: in_flight_def pending_set_def)

lemma batch_callback_flight: "in_flight evs ds b \<Longrightarrow> in_flight evs ds (batch_callback rate c i t b)"
proof (cases c)
  case (CB_Pending k)
  assume a: "in_flight evs ds b"
  let ?p = "(ba_pending b ! k)\<lparr>pd_completionTick := t\<rparr>"
  show ?thesis
  proof (cases "batch_latency rate t (pd_submittedTick ?p)")
    case (Inr l)
    have "batch_callback rate c i t b = pending_set k (\<lambda>p. p\<lparr>pd_completionTick := t, pd_completionCycle := wrap64 (pd_arrivalCycle p + l), pd_done := True\<rparr>) b"
      using CB_Pending Inr by (simp add: batch_callback_def Let_def pending_set_def)
    moreover have "in_flight evs ds (pending_set k (\<lambda>p. p\<lparr>pd_completionTick := t, pd_completionCycle := wrap64 (pd_arrivalCycle p + l), pd_done := True\<rparr>) b)"
      by (rule in_flight_set[OF a]) simp_all
    ultimately show ?thesis by simp
  qed (use CB_Pending a in \<open>simp add: batch_callback_def in_flight_def\<close>)
qed (simp add: batch_callback_def in_flight_def)

lemma batch_count_pending [simp]: "ba_pending (batch_count o' n b) = ba_pending b"
  by (cases o') (simp_all add: batch_count_def)

lemma batch_event_flight:
  assumes "batch_event C o' i t (e, S) = Inr (e', S')" "in_flight evs ds (sd_client S)"
  shows "in_flight evs ds (sd_client S')"
proof -
  obtain k where k: "map_of (ba_events (sd_client S)) i = Some k" using assms(1) by (auto simp: batch_event_def no_event_def split: option.splits)
  define b where "b = pending_set k (\<lambda>p. p\<lparr>pd_submittedTick := en_simTick e\<rparr>) (sd_client S)"
  obtain S1 where s: "ssd_submitIO (sc_low C) (sc_driver C)
          \<lparr>b_id = ba_nextID b, b_type = bio_of_op o', b_offset = pd_offset (ba_pending b ! k), b_length = pd_bytes (ba_pending b ! k), b_callback = CB_Pending k, b_submittedAt = 0\<rparr>
          (e, S\<lparr>sd_client := b\<lparr>ba_nextID := wrap64 (ba_nextID b + 1)\<rparr>\<rparr>) = Inr (e', S1)"
    "S' = S1\<lparr>sd_client := batch_count o' (pd_bytes (ba_pending b ! k)) (sd_client S1)\<rparr>"
    using assms(1) k unfolding batch_event_def prod.case k option.case Let_def b_def by (auto simp: res_simps split_paired_Ex)
  have "in_flight evs ds b" unfolding b_def by (rule in_flight_set[OF assms(2)]) simp_all
  then show ?thesis using submit_client[OF s(1)] s(2) by (simp add: in_flight_def)
qed

lemma batch_keeps: "keeps (in_flight evs ds) (batch_callback rate) (batch_event C o')"
  unfolding keeps_def using batch_callback_flight batch_event_flight by blast

text \<open>The service loop: a request is reported when it has its event, and loses it then.\<close>

lemma service_reports:
  "\<lbrakk>batch_service C opt f (n, out, e, S) = Inr (n', out', e', S'); in_flight evs ds (sd_client S)\<rbrakk> \<Longrightarrow>
   \<exists>ks ps. n' = n + length ks \<and> distinct ks \<and> (\<forall>k \<in> set ks. k < length evs \<and> evs ! k \<noteq> 0) \<and> map pd_desc ps = map (\<lambda>k. ds ! k) ks \<and>
     out' = out @ concat (map (batch_emitWrite opt) ps)"
proof (induction f arbitrary: n out e S evs)
  case (Suc f)
  show ?case
  proof (cases "n < op_iterations opt")
    case False
    then show ?thesis using Suc.prems by (intro exI[of _ "[]"]) simp
  next
    case True
    let ?fn = "ssd_event (sc_low C) (batch_callback (op_clockRate opt)) (batch_event C (op_op opt))"
    obtain go e1 S1 where d: "doNextEvent ?fn (e, S) = Inr (go, e1, S1)"
      and rest: "(if \<not> go then Inr (n, out, e1, S1) else case ba_fault (sd_client S1) of Some g \<Rightarrow> Inl g
        | None \<Rightarrow> rbind (rfold (report_step opt) [0..<length (ba_pending (sd_client S1))] (n, out, e1, S1)) (batch_service C opt f)) = Inr (n', out', e', S')"
      using Suc.prems(1) True by (auto simp: res_simps split_paired_Ex)
    have f1: "in_flight evs ds (sd_client S1)" by (rule next_client[OF d batch_keeps Suc.prems(2)])
    show ?thesis
    proof (cases go)
      case False
      then show ?thesis using rest by (intro exI[of _ "[]"]) simp
    next
      case go: True
      let ?P = "ba_pending (sd_client S1)"
      have len: "length ?P = length evs" "length ds = length evs" using f1 by (auto simp: in_flight_def)
      obtain n2 out2 e2 S2 where r: "rfold (report_step opt) [0..<length ?P] (n, out, e1, S1) = Inr (n2, out2, e2, S2)"
        and l: "batch_service C opt f (n2, out2, e2, S2) = Inr (n', out', e', S')"
        using rest go by (auto simp: res_simps split_paired_Ex split: option.splits)
      define ks where "ks = filter (\<lambda>k. reportable (?P ! k)) [0..<length ?P]"
      have rep: "n2 = n + length ks" "out2 = out @ concat (map (\<lambda>k. batch_emitWrite opt (?P ! k)) ks)" "length (ba_pending (sd_client S2)) = length ?P"
        "\<forall>k < length ?P. ba_pending (sd_client S2) ! k = (if pd_done (?P ! k) then (?P ! k)\<lparr>pd_submitEvent := 0\<rparr> else ?P ! k)"
        using report_all[OF r] by (simp_all add: ks_def)
      define evs2 where "evs2 = map pd_submitEvent (ba_pending (sd_client S2))"
      have f2: "in_flight evs2 ds (sd_client S2)"
      proof -
        have "map pd_desc (ba_pending (sd_client S2)) = map pd_desc ?P"
          by (rule nth_equalityI) (use rep(3,4) in auto)
        then show ?thesis using f1 by (simp add: in_flight_def evs2_def)
      qed
      have ev: "evs ! k = pd_submitEvent (?P ! k)" if "k < length evs" for k using f1 that by (auto simp: in_flight_def)
      have ev2: "evs2 ! k = (if pd_done (?P ! k) then 0 else evs ! k)" if "k < length evs" for k
        using rep(3,4) that len ev by (simp add: evs2_def)
      obtain js ps where j: "n' = n2 + length js" "distinct js" "\<forall>k \<in> set js. k < length evs2 \<and> evs2 ! k \<noteq> 0" "map pd_desc ps = map (\<lambda>k. ds ! k) js"
        "out' = out2 @ concat (map (batch_emitWrite opt) ps)" using Suc.IH[OF l f2] by blast
      have l2: "length evs2 = length evs" using rep(3) len by (simp add: evs2_def)
      have "k \<notin> set ks" if "k \<in> set js" for k
      proof
        assume "k \<in> set ks"
        then have "pd_done (?P ! k)" by (simp add: ks_def reportable_def)
        then show False using j(3) that ev2[of k] l2 by force
      qed
      then have "distinct (ks @ js)" using j(2) by (auto simp: ks_def)
      moreover have "k < length evs \<and> evs ! k \<noteq> 0" if "k \<in> set (ks @ js)" for k
      proof (cases "k \<in> set js")
        case True
        then have "k < length evs" "evs2 ! k \<noteq> 0" using j(3) l2 by simp_all
        then show ?thesis using ev2[of k] by (cases "pd_done (?P ! k)") simp_all
      next
        case False
        then have "k < length evs" "reportable (?P ! k)" using that len(1) by (simp_all add: ks_def)
        then show ?thesis using ev by (simp add: reportable_def)
      qed
      moreover have "map pd_desc (map (\<lambda>k. ?P ! k) ks @ ps) = map (\<lambda>k. ds ! k) (ks @ js)"
      proof -
        have ds: "ds = map pd_desc ?P" using f1 by (simp add: in_flight_def)
        have "\<forall>k \<in> set ks. k < length ?P" by (simp add: ks_def)
        then have "map pd_desc (map (\<lambda>k. ?P ! k) ks) = map (\<lambda>k. ds ! k) ks" unfolding ds by (simp only: map_map comp_def) (rule map_cong, simp_all)
        then show ?thesis using j(4) by (simp only: map_append)
      qed
      moreover have "out' = out @ concat (map (batch_emitWrite opt) (map (\<lambda>k. ?P ! k) ks @ ps))" using j(5) rep(2) by (simp add: comp_def)
      ultimately show ?thesis using j(1) rep(1)
        by (intro exI[of _ "ks @ js"] exI[of _ "map (\<lambda>k. ?P ! k) ks @ ps"] conjI ballI) simp_all
    qed
  qed
qed simp

text \<open>Before and after the service loop the descriptors stay as they were set.\<close>

lemma serve_client:
  assumes "ssd_serve L D invoke n prepare fin arrival (e, S) = Inr (e', S')" "keeps Q invoke (ssd_client_event L D prepare)" "Q (sd_client S)"
  shows "Q (sd_client S')"
proof -
  obtain i e0 e1 e2 S2 where "runEvents n (ssd_event L invoke (ssd_client_event L D prepare)) (\<lambda>S. fin (sd_client S)) (e1, S) = Inr (e2, S2)" "S' = S2"
    using assms(1) by (auto simp: ssd_serve_def res_simps split_paired_Ex split: prod.splits)
  then show ?thesis using run_client assms(2,3) by metis
qed

lemma block_keeps: "keeps (in_flight evs ds) (batch_callback rate) (ssd_client_event L D (block_prepare o' off n))"
  unfolding keeps_def
proof (intro conjI allI impI)
  show "in_flight evs ds b \<Longrightarrow> in_flight evs ds (batch_callback rate c i t b)" for c i t b by (rule batch_callback_flight)
  fix i t e e' and S S' :: "(batch_cb, 'a, batch) ssd"
  assume a: "ssd_client_event L D (block_prepare o' off n) i t (e, S) = Inr (e', S')" "in_flight evs ds (sd_client S)"
  obtain b s where p: "block_prepare o' off n (en_simTick e) (sd_client S) = (b, s)" by (cases "block_prepare o' off n (en_simTick e) (sd_client S)")
  then have "sd_client S' = s" using a(1) submit_client[of L D b e "S\<lparr>sd_client := s\<rparr>" e' S'] by (simp add: ssd_client_event_def)
  moreover have "ba_pending s = ba_pending (sd_client S)" using p by (auto simp: block_prepare_def)
  ultimately show "in_flight evs ds (sd_client S')" using a(2) by (simp add: in_flight_def)
qed

definition descs :: "int list \<Rightarrow> batch \<Rightarrow> bool" where
  "descs ds b \<longleftrightarrow> map pd_desc (ba_pending b) = ds"

lemma fill_descs:
  assumes "fill_step C opt capacity i (off, e, S) = Inr (off', e', S')" "i < length ds" "descs ds (sd_client S)"
  shows "descs (ds[i := batch_desc i]) (sd_client S')"
proof -
  define b where "b = pending_set i (\<lambda>p. p\<lparr>pd_desc := batch_desc i, pd_offset := off, pd_bytes := op_requestBytes opt\<rparr>) (sd_client S)"
  have b: "descs (ds[i := batch_desc i]) b" using assms(3) by (auto simp: descs_def b_def pending_set_def map_update)
  obtain evs where fl: "in_flight evs (ds[i := batch_desc i]) b" using b by (auto simp: in_flight_def descs_def)
  show ?thesis
  proof (cases "op_op opt = OP_READ")
    case False
    then show ?thesis using assms(1) b by (auto simp: fill_step_def Let_def b_def)
  next
    case True
    then obtain l where "runStorageIOBlocking C (op_clockRate opt) 0 off (op_requestBytes opt) OP_WRITE (e, S\<lparr>sd_client := b\<rparr>) = Inr (l, e', S')"
      using assms(1) by (auto simp: fill_step_def Let_def b_def res_simps split_paired_Ex)
    then obtain t where s: "ssd_serve (sc_low C) (sc_driver C) (batch_callback (op_clockRate opt)) (sc_fuel C) (block_prepare OP_WRITE off (op_requestBytes opt)) ba_blockDone t
        (e, S\<lparr>sd_client := b\<lparr>ba_blockDone := False, ba_blockSubmitted := 0, ba_blockCompleted := 0\<rparr>\<rparr>) = Inr (e', S')"
      by (auto simp: runStorageIOBlocking_def res_simps split_paired_Ex)
    have "in_flight evs (ds[i := batch_desc i]) (sd_client S')"
      by (rule serve_client[OF s block_keeps]) (use fl in \<open>simp add: in_flight_def\<close>)
    then show ?thesis by (simp add: in_flight_def descs_def)
  qed
qed

lemma fill_all:
  assumes "rfold (fill_step C opt capacity) [0..<N] (off, e, S) = Inr (off', e', S')" "ba_pending (sd_client S) = replicate N pending_io_new"
  shows "descs (map batch_desc [0..<N]) (sd_client S')"
proof -
  define J where "J = (\<lambda>i (x :: nat \<times> 'a batch_ssd). descs (map batch_desc [0..<i] @ replicate (N - i) 0) (sd_client (snd (snd x))))"
  have "J N (off', e', S')"
  proof (rule rfold_upt_invariant[OF assms(1)])
    show "J 0 (off, e, S)" using assms(2) by (simp add: J_def descs_def pending_io_new_def)
    fix i x y
    assume i: "i < N" and j: "J i x" and f: "fill_step C opt capacity i x = Inr y"
    obtain o1 e1 S1 o2 e2 S2 where xy: "x = (o1, e1, S1)" "y = (o2, e2, S2)" by (metis surj_pair)
    have "descs ((map batch_desc [0..<i] @ replicate (N - i) 0)[i := batch_desc i]) (sd_client S2)"
      by (rule fill_descs[OF f[unfolded xy]]) (use i j xy in \<open>simp_all add: J_def\<close>)
    moreover have "(map batch_desc [0..<i] @ replicate (N - i) 0)[i := batch_desc i] = map batch_desc [0..<Suc i] @ replicate (N - Suc i) 0"
      using i by (simp add: list_update_append Suc_diff_Suc[symmetric])
    ultimately show "J (Suc i) y" by (simp only: J_def xy snd_conv)
  qed
  then show ?thesis by (simp add: J_def)
qed

lemma descs_set: "descs ds b \<Longrightarrow> (\<And>p. pd_desc (f p) = pd_desc p) \<Longrightarrow> descs ds (pending_set k f b)"
  using map_update_same[of pd_desc f] by (simp add: descs_def pending_set_def)

lemma arrivals_descs: "batch_arrivals opt n got (ls, e, S) = Inr (r, ls', e', S') \<Longrightarrow> descs ds (sd_client S) \<Longrightarrow> descs ds (sd_client S')"
proof (induction n arbitrary: got ls e S)
  case (Suc n)
  obtain w ls1 where w: "waitForSync ls = Inr (w, ls1)" using Suc.prems(1) by (auto simp: res_simps split_paired_Ex)
  show ?case
  proof (cases w)
    case None
    then show ?thesis using Suc.prems w by simp
  next
    case (Some c)
    obtain cyc st where c: "c = (cyc, st)" by (cases c)
    show ?thesis
    proof (cases "batch_index (sync_desc st) got (length (ba_pending (sd_client S)))")
      case None
      then show ?thesis using Suc.prems w Some c by simp
    next
      case k: (Some k)
      let ?S = "S\<lparr>sd_client := pending_set k (\<lambda>p. p\<lparr>pd_arrivalCycle := cyc\<rparr>) (sd_client S)\<rparr>"
      obtain e1 S1 where s: "submitStorageIOAsync opt k (e, ?S) = Inr (e1, S1)" "batch_arrivals opt n (Suc got) (ls1, e1, S1) = Inr (r, ls', e', S')"
        using Suc.prems(1) w Some c k by (auto simp: res_simps split_paired_Ex)
      have "descs ds (sd_client ?S)" using descs_set[OF Suc.prems(2), of "\<lambda>p. p\<lparr>pd_arrivalCycle := cyc\<rparr>" k] by simp
      then have d: "descs ds (pending_set k (\<lambda>p. p\<lparr>pd_submitEvent := i\<rparr>) (sd_client ?S))" for i by (rule descs_set) simp
      have "descs ds (sd_client S1)"
        using s(1) d by (auto simp: submitStorageIOAsync_def Let_def res_simps split_paired_Ex descs_def split: prod.splits)
      then show ?thesis by (rule Suc.IH[OF s(2)])
    qed
  qed
qed simp

lemma arrivals_exit: "batch_arrivals opt n got (ls, e, S) = Inr (r, y) \<Longrightarrow> r = None \<or> r = Some 4"
proof (induction n arbitrary: got ls e S)
  case (Suc n)
  obtain w ls1 where w: "waitForSync ls = Inr (w, ls1)" using Suc.prems(1) by (auto simp: res_simps split_paired_Ex)
  show ?case
  proof (cases w)
    case None
    then show ?thesis using Suc.prems w by simp
  next
    case (Some c)
    obtain cyc st where c: "c = (cyc, st)" by (cases c)
    show ?thesis
    proof (cases "batch_index (sync_desc st) got (length (ba_pending (sd_client S)))")
      case None
      then show ?thesis using Suc.prems w Some c by simp
    next
      case k: (Some k)
      obtain e1 S1 where "batch_arrivals opt n (Suc got) (ls1, e1, S1) = Inr (r, y)"
        using Suc.prems(1) w Some c k by (auto simp: res_simps split_paired_Ex)
      then show ?thesis by (rule Suc.IH)
    qed
  qed
qed simp

lemma returns_exit: "batch_returns n got cyc ls b = Inr (r, y) \<Longrightarrow> r = None \<or> r = Some 6"
proof (induction n got cyc ls b arbitrary: r y rule: batch_returns.induct)
  case (2 n got cyc ls b)
  then show ?case by (fastforce simp: res_simps split_paired_Ex split: option.splits)
qed simp

text \<open>A run that ends well: the output, and a report for every request.\<close>

lemma batch_run_reports:
  assumes "batch_run C opt capacity mbs fuel ls (e, S) = Inr (0, out, e', S')"
  shows "\<exists>qs ks ps rest. map pd_desc qs = map batch_desc [0..<op_iterations opt] \<and> map pd_desc ps = map batch_desc ks \<and>
    mset ks = mset [0..<op_iterations opt] \<and>
    out = emitResult [''capacity'', to_string capacity, ''min_io_size'', to_string mbs] @
      concat (map (\<lambda>i. batch_emitRead opt i (qs ! i)) [0..<op_iterations opt]) @ concat (map (batch_emitWrite opt) ps) @ rest"
proof -
  define N where "N = op_iterations opt"
  define hd0 where "hd0 = emitResult [''capacity'', to_string capacity, ''min_io_size'', to_string mbs]"
  obtain o1 e1 S1 where f: "rfold (fill_step C opt capacity) [0..<N] (op_startOffset opt, e, S\<lparr>sd_client := batch_new N\<rparr>) = Inr (o1, e1, S1)"
    and r1: "rbind (batch_arrivals opt N 0 (ls, e1, S1)) (\<lambda>(exit, ls, e, S).
     case exit of Some k \<Rightarrow> Inr (k, hd0 @ concat (map (\<lambda>i. batch_emitRead opt i (ba_pending (sd_client S1) ! i)) [0..<N]), e, S)
     | None \<Rightarrow>
       rbind (batch_service C opt fuel (0, hd0 @ concat (map (\<lambda>i. batch_emitRead opt i (ba_pending (sd_client S1) ! i)) [0..<N]), e, S)) (\<lambda>(n, out, e, S).
       if n \<noteq> N then Inr (5, out, e, S)
       else rbind (batch_returns N 0 1 ls (sd_client S)) (\<lambda>(exit, cyc, b).
         case exit of Some k \<Rightarrow> Inr (k, out, e, S)
         | None \<Rightarrow> Inr (0, out @ emitResult [''reads'', to_string (ba_reads b), ''writes'', to_string (ba_writes b), ''bytes_read'', to_string (ba_bytesRead b),
             ''bytes_written'', to_string (ba_bytesWritten b), ''completed'', to_string N] @ emitCycle cyc, e, S\<lparr>sd_client := b\<rparr>)))) = Inr (0, out, e', S')"
    using assms unfolding batch_run_def prod.case Let_def N_def[symmetric] hd0_def[symmetric] by (auto simp: res_simps split_paired_Ex)
  define rd where "rd = concat (map (\<lambda>i. batch_emitRead opt i (ba_pending (sd_client S1) ! i)) [0..<N])"
  have d1: "descs (map batch_desc [0..<N]) (sd_client S1)" by (rule fill_all[OF f]) (simp add: batch_new_def)
  obtain ex ls2 e2 S2 where a: "batch_arrivals opt N 0 (ls, e1, S1) = Inr (ex, ls2, e2, S2)"
    and r2: "(case ex of Some k \<Rightarrow> Inr (k, hd0 @ rd, e2, S2)
     | None \<Rightarrow>
       rbind (batch_service C opt fuel (0, hd0 @ rd, e2, S2)) (\<lambda>(n, out, e, S).
       if n \<noteq> N then Inr (5, out, e, S)
       else rbind (batch_returns N 0 1 ls2 (sd_client S)) (\<lambda>(exit, cyc, b).
         case exit of Some k \<Rightarrow> Inr (k, out, e, S)
         | None \<Rightarrow> Inr (0, out @ emitResult [''reads'', to_string (ba_reads b), ''writes'', to_string (ba_writes b), ''bytes_read'', to_string (ba_bytesRead b),
             ''bytes_written'', to_string (ba_bytesWritten b), ''completed'', to_string N] @ emitCycle cyc, e, S\<lparr>sd_client := b\<rparr>)))) = Inr (0, out, e', S')"
    using r1 unfolding rd_def[symmetric] by (auto simp: res_simps split_paired_Ex)
  have ex: "ex = None" using arrivals_exit[OF a] r2 by auto
  obtain n3 out3 e3 S3 where sv: "batch_service C opt fuel (0, hd0 @ rd, e2, S2) = Inr (n3, out3, e3, S3)"
    and r3: "(if n3 \<noteq> N then Inr (5, out3, e3, S3)
       else rbind (batch_returns N 0 1 ls2 (sd_client S3)) (\<lambda>(exit, cyc, b).
         case exit of Some k \<Rightarrow> Inr (k, out3, e3, S3)
         | None \<Rightarrow> Inr (0, out3 @ emitResult [''reads'', to_string (ba_reads b), ''writes'', to_string (ba_writes b), ''bytes_read'', to_string (ba_bytesRead b),
             ''bytes_written'', to_string (ba_bytesWritten b), ''completed'', to_string N] @ emitCycle cyc, e3, S3\<lparr>sd_client := b\<rparr>))) = Inr (0, out, e', S')"
    using r2 ex by (auto simp: res_simps split_paired_Ex simp del: if_split)
  have n3: "n3 = N" using r3 by (auto split: if_splits)
  obtain rest where out: "out = out3 @ rest" using r3 n3 returns_exit by (auto simp: res_simps split_paired_Ex split: option.splits)
  define evs where "evs = map pd_submitEvent (ba_pending (sd_client S2))"
  have fl: "in_flight evs (map batch_desc [0..<N]) (sd_client S2)"
    using arrivals_descs[OF a d1] by (simp add: in_flight_def descs_def evs_def)
  obtain ks ps where k: "N = 0 + length ks" "distinct ks" "\<forall>k \<in> set ks. k < length evs \<and> evs ! k \<noteq> 0"
    "map pd_desc ps = map (\<lambda>k. map batch_desc [0..<N] ! k) ks" "out3 = (hd0 @ rd) @ concat (map (batch_emitWrite opt) ps)"
    using service_reports[OF sv fl] n3 by blast
  have le: "length evs = N" using arrivals_descs[OF a d1] by (auto simp: descs_def evs_def dest: arg_cong[where f = length])
  have sub: "set ks \<subseteq> set [0..<N]" using k(3) le by auto
  have "card (set ks) = N" using distinct_card[OF k(2)] k(1) by simp
  then have "set ks = set [0..<N]" by (intro card_subset_eq[OF _ sub]) simp_all
  then have ms: "mset ks = mset [0..<N]" using k(2) by (intro set_eq_iff_mset_eq_distinct[THEN iffD1]) simp_all
  have "map pd_desc ps = map batch_desc ks" using k(3,4) le by simp
  moreover have "map pd_desc (ba_pending (sd_client S1)) = map batch_desc [0..<N]" using d1 by (simp add: descs_def)
  moreover have "out = hd0 @ rd @ concat (map (batch_emitWrite opt) ps) @ rest" using out k(5) by simp
  ultimately show ?thesis unfolding N_def[symmetric] hd0_def[symmetric] using ms unfolding rd_def by blast
qed

end
