(* ===== verification/HilDrain.thy ===== *)
theory HilDrain
  imports HilQueue
begin

text \<open>
  Left alone, the completion event empties the queue of the HIL: every waiting request is completed after
  at most as many events as there are requests.
\<close>

section \<open>Nothing but the completion is scheduled\<close>

definition alone :: "nat \<Rightarrow> engine \<Rightarrow> bool" where
  "alone ev e \<longleftrightarrow> (\<forall>x. x \<noteq> ev \<longrightarrow> isEventExist x (en_queue e) = None)"

text \<open>Functions of requests that do not touch the engine.\<close>

definition note_done :: "hil_request \<Rightarrow> nat \<Rightarrow> engine \<Rightarrow> engine res" where
  "note_done q t e = Inr e"

lemma note_done_tame: "tame note_done"
  by (simp add: tame_def note_done_def)

lemma note_done_run: "run_all note_done t qs e = Inr e"
  by (induction qs) (simp_all add: note_done_def)

lemma alone_queue:
  assumes "alone ev e" "engine_inv e" "isEventExist ev (en_queue e) = Some t"
  shows "en_queue e = [(ev, t)]"
proof -
  have d: "distinct (map fst (en_queue e))" using assms(2) by (simp add: engine_inv_def queue_ok_def)
  have "fst x = ev" if "x \<in> set (en_queue e)" for x
    using that assms(1) d by (metis alone_def isEventExist_map_of map_of_eq_None_iff image_eqI)
  moreover have "(ev, t) \<in> set (en_queue e)" using assms(3) by (rule isEventExist_in)
  ultimately show ?thesis using d
  proof (cases "en_queue e")
    case (Cons x xs)
    moreover from this have "fst x = ev" using \<open>\<And>x. x \<in> set (en_queue e) \<Longrightarrow> fst x = ev\<close> by simp
    moreover have "xs = []"
    proof (rule ccontr)
      assume "xs \<noteq> []"
      then obtain y ys where "xs = y # ys" by (cases xs) auto
      then have "fst y = fst x" using Cons \<open>\<And>x. x \<in> set (en_queue e) \<Longrightarrow> fst x = ev\<close> by simp
      then show False using d Cons \<open>xs = y # ys\<close> by simp
    qed
    ultimately show ?thesis using \<open>(ev, t) \<in> set (en_queue e)\<close> by (cases x) auto
  qed simp
qed

lemma updateCompletion_alone:
  assumes "updateCompletion scheduleEvent (h, e) = Inr (h', e')" "alone (hl_event h) e" "engine_inv e" "hl_event h \<in> set (en_list e)"
  shows "alone (hl_event h) e' \<and> hl_event h' = hl_event h \<and> en_forceStop e' = en_forceStop e \<and> en_list e' = en_list e"
proof (cases "hl_queue h")
  case Nil
  then show ?thesis using assms by (auto simp: updateCompletion_def)
next
  case (Cons q qs)
  show ?thesis
  proof (cases "hl_lastScheduled h = h_finishedAt q")
    case True
    then show ?thesis using assms Cons by (auto simp: updateCompletion_def)
  next
    case False
    obtain e1 where e1: "scheduleEvent (hl_event h) (h_finishedAt q) e = Inr e1" "en_list e1 = en_list e"
      "\<forall>x. isEventExist x (en_queue e1) = (if x = hl_event h then Some (max (en_simTick e) (h_finishedAt q)) else isEventExist x (en_queue e))"
      using scheduleEvent_ok[OF assms(3,4)] by metis
    have "en_forceStop e1 = en_forceStop e" using e1(1) assms(4) by (auto simp: scheduleEvent_def)
    moreover have "h' = h\<lparr>hl_lastScheduled := h_finishedAt q\<rparr>" "e' = e1"
      using assms(1) e1(1) Cons False by (auto simp: updateCompletion_def)
    ultimately show ?thesis using e1 assms(2) by (simp add: alone_def)
  qed
qed

section \<open>One completion, then all\<close>

lemma drain_step:
  assumes "engine_inv e" "\<not> en_forceStop e" "hl_event h \<in> set (en_list e)" "hil_ready (h, e)" "alone (hl_event h) e" "hl_queue h \<noteq> []"
  shows "\<exists>e' h'. doNextEvent (hil_events (hl_event h) note_done other) (e, h) = Inr (True, e', h') \<and> engine_inv e' \<and>
    \<not> en_forceStop e' \<and> hl_event h' = hl_event h \<and> hl_event h' \<in> set (en_list e') \<and> hil_ready (h', e') \<and> alone (hl_event h') e' \<and>
    en_simTick e' = h_finishedAt (hd (hl_queue h)) \<and>
    hl_queue h' = dropWhile (\<lambda>q. h_finishedAt q \<le> h_finishedAt (hd (hl_queue h))) (hl_queue h)"
proof -
  obtain x xs where hq: "hl_queue h = x # xs" using assms(6) by (cases "hl_queue h") auto
  define t where "t = h_finishedAt x"
  have due: "isEventExist (hl_event h) (en_queue e) = Some t" using assms(4) hq by (simp add: hil_live_def t_def)
  have q: "en_queue e = [(hl_event h, t)]" by (rule alone_queue[OF assms(5,1) due])
  let ?e = "e\<lparr>en_simTick := t, en_queue := []\<rparr>"
  let ?qs = "dropWhile (\<lambda>q. h_finishedAt q \<le> t) (hl_queue h)"
  obtain e' h' where d: "doNextEvent (hil_events (hl_event h) note_done other) (e, h) = Inr (True, e', h')" "engine_inv e'"
    "hil_ready (h', e')" "en_simTick e' = t" "hl_queue h' = ?qs"
    using completion_event[OF assms(1-4) q note_done_tame assms(6)] by blast
  have ei: "engine_inv ?e" using next_event_ok[OF assms(1) q] by simp
  obtain e1 where u: "updateCompletion scheduleEvent (h\<lparr>hl_queue := ?qs\<rparr>, ?e) = Inr (h', e1)" "e' = e1\<lparr>en_handled := en_handled e1 + 1\<rparr>"
    using d(1) assms(2,3) q
    by (auto simp: doNextEvent_def hil_events_def completion_def complete_due_prefix note_done_run res_simps split_paired_Ex split: prod.splits)
  have "alone (hl_event h) ?e" by (simp add: alone_def)
  from updateCompletion_alone[OF u(1) _ ei] this assms(3)
  have "alone (hl_event h) e1 \<and> hl_event h' = hl_event h \<and> en_forceStop e1 = en_forceStop e \<and> en_list e1 = en_list e" by simp
  then have "alone (hl_event h') e' \<and> \<not> en_forceStop e' \<and> hl_event h' = hl_event h \<and> hl_event h' \<in> set (en_list e')"
    using assms(2,3) u(2) by (simp add: alone_def)
  then show ?thesis using d hq by (auto simp: t_def)
qed

lemma hil_drain:
  "\<lbrakk>engine_inv e; \<not> en_forceStop e; hl_event h \<in> set (en_list e); hil_ready (h, e); alone (hl_event h) e; length (hl_queue h) \<le> n\<rbrakk> \<Longrightarrow>
    \<exists>e' h'. runEvents n (hil_events (hl_event h) note_done other) (\<lambda>h. hl_queue h = []) (e, h) = Inr (e', h') \<and> hl_queue h' = [] \<and>
      (hl_queue h \<noteq> [] \<longrightarrow> en_simTick e' = h_finishedAt (last (hl_queue h)))"
proof (induction n arbitrary: e h)
  case (Suc n)
  show ?case
  proof (cases "hl_queue h = []")
    case False
    let ?t = "h_finishedAt (hd (hl_queue h))"
    obtain e1 h1 where s: "doNextEvent (hil_events (hl_event h) note_done other) (e, h) = Inr (True, e1, h1)" "engine_inv e1"
      "\<not> en_forceStop e1" "hl_event h1 = hl_event h" "hl_event h1 \<in> set (en_list e1)" "hil_ready (h1, e1)" "alone (hl_event h1) e1"
      "en_simTick e1 = ?t" "hl_queue h1 = dropWhile (\<lambda>q. h_finishedAt q \<le> ?t) (hl_queue h)"
      using drain_step[OF Suc.prems(1-5) False, of other] by blast
    obtain x xs where hq: "hl_queue h = x # xs" using False by (cases "hl_queue h") auto
    have "length (hl_queue h1) \<le> length xs" using s(9) hq length_dropWhile_le[of _ xs] by simp
    then have "length (hl_queue h1) \<le> n" using Suc.prems(6) hq by simp
    from Suc.IH[OF s(2,3,5-7) this] obtain e' h' where r: "runEvents n (hil_events (hl_event h) note_done other) (\<lambda>h. hl_queue h = []) (e1, h1) = Inr (e', h')"
      "hl_queue h' = []" "hl_queue h1 \<noteq> [] \<longrightarrow> en_simTick e' = h_finishedAt (last (hl_queue h1))" by (auto simp: s(4))
    have "en_simTick e' = h_finishedAt (last (hl_queue h))"
    proof (cases "hl_queue h1 = []")
      case True
      then have "e' = e1" using r(1) by (cases n) auto
      have "\<forall>q \<in> set (hl_queue h). h_finishedAt q \<le> ?t" using True s(9) by (simp add: dropWhile_eq_Nil_conv)
      moreover have "?t \<le> h_finishedAt (last (hl_queue h))"
      proof -
        have "sorted (map h_finishedAt (x # xs))" using Suc.prems(4) hq by (simp add: hil_live_def)
        then show ?thesis using hq by (cases xs rule: rev_cases) auto
      qed
      ultimately show ?thesis using s(8) \<open>e' = e1\<close> False by (simp add: le_antisym)
    next
      case nz: False
      have "last (hl_queue h1) = last (hl_queue h)" using nz unfolding s(9) by (metis last_appendR takeWhile_dropWhile_id)
      then show ?thesis using r(3) nz by simp
    qed
    then show ?thesis using s(1) r False by auto
  qed (use Suc.prems in simp)
qed simp

end
