(* ===== verification/SimDemo.thy ===== *)
theory SimDemo
  imports IclProps CpuCore Dram HilDrain
begin

text \<open>
  Small instances of the simulator: a clock, two waiting requests, a core with two jobs, an ICL over the
  one-line cache, and a DRAM without power model.
\<close>

section \<open>Engine, HIL and core\<close>

text \<open>An event that schedules itself ten ticks later and counts its runs.\<close>

definition ticker :: "nat \<Rightarrow> nat \<Rightarrow> engine \<times> nat \<Rightarrow> (engine \<times> nat) res" where
  "ticker i t = (\<lambda>(e, n). rbind (scheduleEvent i (en_simTick e + 10) e) (\<lambda>e. Inr (e, n + 1)))"

definition ticker_engine :: engine where
  "ticker_engine = \<lparr>en_simTick = 0, en_counter = 1, en_forceStop = False, en_list = [1], en_queue = [(1, 10)], en_handled = 0\<rparr>"

lemma ticker_ok: "handlers_ok ticker"
  unfolding handlers_ok_def
proof (intro allI impI)
  fix i t e e' and s s' :: nat
  assume a: "engine_inv e \<and> ticker i t (e, s) = Inr (e', s')"
  then have sc: "scheduleEvent i (en_simTick e + 10) e = Inr e'" by (auto simp: ticker_def res_simps)
  then have "i \<in> set (en_list e)" by (auto simp: scheduleEvent_def no_event_def split: if_splits)
  then show "engine_inv e' \<and> en_simTick e' = en_simTick e" using scheduleEvent_ok[of e i "en_simTick e + 10"] a sc by auto
qed

definition small_host :: hil_request where
  "small_host = \<lparr>h_reqID = 0, h_reqSubID = 0, h_offset = 0, h_length = 8, h_range = \<lparr>slpn = 1, nlp = 1\<rparr>, h_finishedAt = 0, h_context = 0\<rparr>"

definition two_waiting :: "engine \<times> hil" where
  "two_waiting = (ticker_engine\<lparr>en_queue := [(1, 40)]\<rparr>,
     (hil_new 1)\<lparr>hl_queue := [small_host\<lparr>h_finishedAt := 40\<rparr>, small_host\<lparr>h_finishedAt := 70\<rparr>], hl_lastScheduled := 40\<rparr>)"

definition two_jobs :: "bool core" where
  "two_jobs = (core_new 1)\<lparr>co_busy := True,
     co_jobs := [\<lparr>j_func = True, j_inst = inst_new 1 0 0 0 0 0 5, j_submitAt = 0, j_delay = 0\<rparr>,
                 \<lparr>j_func = False, j_inst = inst_new 1 0 1 0 0 0 5, j_submitAt = 0, j_delay = 2\<rparr>]\<rparr>"

section \<open>ICL over a one-line cache\<close>

definition small_icl :: "nat list icl_env" where
  "small_icl = \<lparr>ie_geometry = \<lparr>ig_totalLogicalPages = 9, ig_logicalPageSize = 8, ig_ratio = 1\<rparr>, ie_param = small_param 1,
     ie_low = low_log, ie_cpu = (\<lambda>fn w. (4, w))\<rparr>"

lemma small_icl_param [simp]: "ie_param small_icl = small_param 1"
  by (simp add: small_icl_def)

lemma small_icl_positive: "cpu_positive small_icl"
  by (simp add: cpu_positive_def small_icl_def)

definition hil_view :: "hil \<times> engine \<times> cache \<times> nat list \<Rightarrow> nat list \<times> (nat \<times> nat) list \<times> (nat \<times> bool \<times> bool) list \<times> nat list" where
  "hil_view = (\<lambda>(h, e, k, w). (map h_finishedAt (hl_queue h), en_queue e, way_view k, w))"

lemma small_stack_runs:
  "map_sum id hil_view (hil_body (icl_as_ops small_icl) scheduleEvent (io_job True small_host) 0
      (hil_new 1, snd (allocateEvent engine_new), cache_new (small_param 1), [])) = Inr ([25], [(1, 25)], [(1, True, False)], [1])"
  by code_simp

lemma map_sum_InrE:
  assumes "map_sum f g m = Inr v" "\<And>x. m = Inr x \<Longrightarrow> thesis"
  shows thesis
  using assms by (cases m) auto

section \<open>DRAM\<close>

definition small_dram :: dram_conf where
  "small_dram = \<lparr>dc_channel = 1, dc_chip = 1, dc_busWidth = 8, dc_pageSize = 8, dc_burstLength = 8, dc_tCK = 2, dc_tRCD = 4,
     dc_tRP = 4, dc_tRAS = 8, dc_tBURST = 8, dc_tRFC = 16\<rparr>"

definition no_power :: "unit power_lib" where
  "no_power = \<lparr>pw_cmd = (\<lambda>c n p. p), pw_window = (\<lambda>n p. ((Fin 0, Fin 0), p))\<rparr>"

lemma small_dram_runs:
  "map_sum id fst (rbind (dram_new small_dram ()) (dram_run no_power [(False, 8, 5), (True, 16, 6)])) = Inr [(5, 25), (25, 65)]"
  by code_simp

end
