(* ===== verification/PalDemo.thy ===== *)
theory PalDemo
  imports PalHistory
begin

text \<open>A small flash array for concrete runs: two channels of two dies, super-pages over the channels.\<close>

definition flash_demo_array :: pal_conf where
  "flash_demo_array = \<lparr>pc_channel = 2, pc_package = 1, pc_die = 2, pc_plane = 1, pc_block = 4, pc_page = 8, pc_pageSize = 8192,
     pc_superChannel = True, pc_superPackage = False, pc_superDie = False, pc_superPlane = False, pc_multiPlane = False\<rparr>"

definition flash_demo_timing :: nand_timing where
  "flash_demo_timing = \<lparr>nt_lsb = \<lparr>pt_read = 58000000, pt_write = 558000000\<rparr>, nt_csb = \<lparr>pt_read = 78000000, pt_write = 2201000000\<rparr>,
     nt_msb = \<lparr>pt_read = 107000000, pt_write = 5001000000\<rparr>, nt_dma0 = \<lparr>dm_read = 100000, dm_write = 185000000, dm_erase = 100000\<rparr>,
     nt_dma1 = \<lparr>dm_read = 185000000, dm_write = 100000, dm_erase = 100000\<rparr>, nt_erase = 2274000000\<rparr>"

definition flash_demo_pal2 :: pal2_conf where
  "flash_demo_pal2 = \<lparr>qc_channel = 2, qc_package = 1, qc_die = 2, qc_dmaSpeed = 50, qc_pageSize = 8192, qc_type = NAND_TLC, qc_timing = flash_demo_timing\<rparr>"

definition flash_demo_address :: address_conf where
  "flash_demo_address = \<lparr>ac_pal = flash_demo_array, ac_allocation = getPageAllocationConfig [1, 2, 4, 8], ac_randomTweak = False, ac_pageInSuperPage = 2\<rparr>"

definition flash_demo_param :: pal_param where
  "flash_demo_param = \<lparr>pp_superBlock = 8, pp_superPageSize = 16384, pp_pageInSuperPage = 2, pp_block = 4, pp_page = 8\<rparr>"

definition flash_demo_request :: "nat \<Rightarrow> nat \<Rightarrow> pal_request" where
  "flash_demo_request b p = \<lparr>p_reqID = 0, p_reqSubID = 0, p_blockIndex = b, p_pageIndex = p, p_ioFlag = bs_set_all (bs_new 2)\<rparr>"

definition flash_demo_junk :: cpdpbp where
  "flash_demo_junk = \<lparr>ad_Channel = 9, ad_Package = 9, ad_Die = 9, ad_Plane = 9, ad_Block = 9, ad_Page = 9\<rparr>"

lemma flash_demo_busy: "busy_positive flash_demo_pal2"
proof -
  have "0 < dma_latency (nt_dma0 flash_demo_timing) oper \<and> 0 < dma_latency (nt_dma1 flash_demo_timing) oper" for oper
    by (cases oper) (simp_all add: dma_latency_def flash_demo_timing_def)
  then show ?thesis unfolding busy_positive_iff by (simp add: flash_demo_pal2_def)
qed

lemma flash_demo_keys: "keys_positive flash_demo_pal2"
  by (simp add: keys_positive_def flash_demo_pal2_def channel_keys_def wrap32_def)

lemma flash_demo_conf: "conf_ok flash_demo_address flash_demo_param"
proof -
  have "sizes_ok (ac_pal flash_demo_address)" by (simp add: sizes_ok_def flash_demo_address_def flash_demo_array_def)
  moreover have "pal_param_of (ac_pal flash_demo_address) = Inr flash_demo_param"
    by (simp add: pal_param_of_def flash_demo_address_def flash_demo_array_def flash_demo_param_def wrap32_def)
  moreover have "allocation_order flash_demo_address = [1, 2, 4, 8]"
    by (simp add: flash_demo_address_def getPageAllocationConfig_def allocation_byte_def upt_conv_Cons push_bit_eq_mult drop_bit_eq_div)
  ultimately show ?thesis by (simp add: conf_ok_def, simp add: flash_demo_address_def flash_demo_param_def)
qed

lemma flash_demo_device: "device_conf flash_demo_pal2 flash_demo_address flash_demo_param"
  unfolding device_conf_def using flash_demo_conf flash_demo_busy flash_demo_keys by (simp, simp add: flash_demo_pal2_def flash_demo_address_def flash_demo_array_def)

lemma flash_demo_request_ok: "b < 8 \<Longrightarrow> p < 8 \<Longrightarrow> request_ok flash_demo_address flash_demo_param (flash_demo_request b p)"
  by (simp add: request_ok_def flash_demo_param_def flash_demo_request_def flash_demo_address_def)

lemma flash_demo_new: "\<exists>d. PALOLD_new flash_demo_pal2 = Inr d"
  by (simp add: PALOLD_new_def pal2_new_def flash_demo_pal2_def wrap32_def)

definition flash_demo_options :: pal_options where
  "flash_demo_options = \<lparr>po_pageSize = 8192, po_dmaSpeed = 400, po_dmaWidth = 8, po_multiPlane = True, po_superblock = ''C'', po_pageAllocation = ''CWDP''\<rparr>"

lemma flash_demo_update: "\<exists>s. pal_update flash_demo_options = Inr s"
proof -
  have "8 \<le> po_dmaWidth flash_demo_options" "wrap32 (po_dmaSpeed flash_demo_options * 1048576) \<noteq> 0" "po_dmaWidth flash_demo_options AND 7 = 0"
    by (simp_all add: flash_demo_options_def wrap32_def)
  note t = dma_time_total[OF this(1,2)] this(3)
  have "case parse_allocation (po_pageAllocation flash_demo_options) (0, 0, False, [0, 0, 0, 0]) of (i, check, bad, pa) \<Rightarrow> \<not> bad \<and> check = 15"
    by code_simp
  then show ?thesis using t(1)[of 7] t(1)[of "wrap32 (7 + po_pageSize flash_demo_options)"] t(1)[of 5] t(1)[of "po_pageSize flash_demo_options"] t(1)[of 1] t(2)
    by (auto simp: pal_update_def Let_def split: prod.splits)
qed

definition flash_demo_table :: table where
  "flash_demo_table = [(3, [(10, 14)]), (8, [(30, 44)])]"

end
