(* ===== verification/LegoDemo.thy ===== *)
theory LegoDemo
  imports SsdBoot SsdDriver LegoPeers LegoReports SimDemo PalDemo
begin

text \<open>
  Concrete instances for the SSD endpoint: an SSD whose cache has one line, a bridge that answers the
  four commands of a round, FIFOs that move one byte per call.
\<close>

section \<open>The bridge and the FIFOs\<close>

definition one_byte_calls :: "nat option list" where
  "one_byte_calls = replicate 32 (Some 1)"

definition demo_io :: "ssd_request \<Rightarrow> sim_io" where
  "demo_io q = \<lparr>io_reads = [sendResultCmd_strings [''a''], sendSyncCmd_desc 100 0, sendResultCmd_strings [''b''], sendSyncCmd_desc 700 0],
     io_out = [], io_units = Map.empty, io_fifo = (\<lambda>_. \<lparr>pi_bytes = request_bytes q, pi_grants = one_byte_calls\<rparr>),
     io_sent = (\<lambda>_. []), io_takes = (\<lambda>_. one_byte_calls)\<rparr>"

lemma demo_steady: "steady one_byte_calls" "length one_byte_calls = 32"
  by (simp_all add: steady_def one_byte_calls_def)

lemma demo_answers: "length (pipe_answer ''a'') < 1023" "length (pipe_answer ''b'') < 1023"
  "length (transfer_answer 100 0) < 1023" "length (transfer_answer 700 0) < 1023"
  by code_simp+

lemma demo_round: "request_fits q \<Longrightarrow> round_env ''a'' ''b'' q 100 700 [] (demo_io q\<lparr>io_out := s\<rparr>)"
  using demo_steady demo_answers
  by (simp add: round_env_def demo_io_def io_steady_def io_pending_def io_unit_def pending_def pipe_unit_new_def unit_ok_def is_space_def
      PIPE_COMMON_UNIT_CAPACITY_def request_bytes_def)

section \<open>The SSD\<close>

text \<open>A cache of one line over an FTL that only notes the pages written; the DRAM and the flash array beside it.\<close>

definition under_devices :: "'x cache_low \<Rightarrow> ('d \<times> 'f \<times> 'x) cache_low" where
  "under_devices B = \<lparr>b_ftl_read = (\<lambda>r t (d, f, x). rbind (b_ftl_read B r t x) (\<lambda>(t, x). Inr (t, d, f, x))),
     b_ftl_write = (\<lambda>r t (d, f, x). rbind (b_ftl_write B r t x) (\<lambda>(t, x). Inr (t, d, f, x))),
     b_ftl_trim = (\<lambda>r t (d, f, x). rbind (b_ftl_trim B r t x) (\<lambda>(t, x). Inr (t, d, f, x))),
     b_ftl_format = (\<lambda>r t (d, f, x). rbind (b_ftl_format B r t x) (\<lambda>(t, x). Inr (t, d, f, x))),
     b_dram_read = (\<lambda>q n t (d, f, x). rbind (b_dram_read B q n t x) (\<lambda>(t, x). Inr (t, d, f, x))),
     b_dram_write = (\<lambda>q n t (d, f, x). rbind (b_dram_write B q n t x) (\<lambda>(t, x). Inr (t, d, f, x))),
     b_dram_sched = (\<lambda>s (d, f, x). (d, f, b_dram_sched B s x)),
     b_cpu = (\<lambda>fn (d, f, x). case b_cpu B fn x of (n, x) \<Rightarrow> (n, d, f, x)),
     b_dist = (\<lambda>n (d, f, x). case b_dist B n x of (i, x) \<Rightarrow> (i, d, f, x))\<rparr>"

definition lego_env :: "(unit dram \<times> pal_dev \<times> nat list) icl_env" where
  "lego_env = \<lparr>ie_geometry = \<lparr>ig_totalLogicalPages = 9, ig_logicalPageSize = 8, ig_ratio = 1\<rparr>, ie_param = small_param 1,
     ie_low = under_devices low_log, ie_cpu = (\<lambda>fn w. (4, w))\<rparr>"

definition demo_world :: "cache \<times> unit dram \<times> pal_dev \<times> nat list" where
  "demo_world = (cache_new (small_param 1), projr (dram_new small_dram ()), projr (PALOLD_new flash_demo_pal2), [])"

definition demo_low :: "nat \<Rightarrow> nat \<Rightarrow> (cache \<times> unit dram \<times> pal_dev \<times> nat list) ssd_low" where
  "demo_low r f = device_low no_power r f lego_env"

definition demo_build :: ssd_build where
  "demo_build = \<lparr>sb_cores = (1, 1, 1), sb_clock = 2, sb_lpn = (9, 8), sb_progress = \<lparr>pg_iops = 0, pg_bandwidth = 0, pg_latency = 0\<rparr>\<rparr>"

definition demo_driver :: driver where
  "demo_driver = \<lparr>dr_totalLogicalPages = 9, dr_logicalPageSize = 8\<rparr>"

lemma demo_stack: "stack_ok lego_env demo_world"
  using small_geometry[of 1] by (simp add: stack_ok_def lego_env_def demo_world_def cpu_positive_def cache_new_inv)

lemma demo_quiet:
  obtains r f e and S :: "('c, cache \<times> unit dram \<times> pal_dev \<times> nat list, 's) ssd"
  where "ssd_quiet (demo_low r f) (e, S)" "sd_world S = demo_world" "sd_client S = s" "en_simTick e = 0" "clockPeriod (sd_cpu S) = 2"
proof -
  obtain r f i D e and S :: "('c, cache \<times> unit dram \<times> pal_dev \<times> nat list, bool) ssd"
    where n: "built (demo_low r f) i (e, S)" "sd_world S = demo_world" "clockPeriod (sd_cpu S) = 2"
    using ssd_new_ok[of 1 demo_low 1 1 2 "(9, 8)" "sb_progress demo_build" demo_world] by (auto simp: demo_low_def device_low_def)
  from ssd_begin_quiet[OF n(1), of 0 "\<lambda>c i t s. s" s] obtain e' and S' :: "('c, cache \<times> unit dram \<times> pal_dev \<times> nat list, bool) ssd"
    where "ssd_quiet (demo_low r f) (e', client_state s S')" "en_simTick e' = 0" "sd_world S' = demo_world" "clockPeriod (sd_cpu S') = 2"
    using n(2,3) by auto
  then show thesis by (intro that[of r f e' "client_state s S'"]) (simp_all add: client_state_def)
qed

text \<open>The periodic events leave the cache and the FTL alone.\<close>

lemma back_devices:
  "back_steps (device_low W r f I) a b w w' \<Longrightarrow> \<exists>d' g'. w' = (fst w, d', g', snd (snd (snd w)))"
proof (induction rule: back_steps.induct)
  case (back_none a b w)
  then show ?case by (cases w) auto
next
  case (back_one i a t b w t' w1 w2)
  then show ?case by (cases w) (auto simp: device_low_def split: if_splits prod.splits)
qed

definition demo_request :: "ssd_op \<Rightarrow> nat \<Rightarrow> nat \<Rightarrow> ssd_request" where
  "demo_request o' off len = \<lparr>q_magic = kSsdIpcMagic, q_version = kSsdIpcVersion, q_operation = op_code o', q_flags = 0, q_id = 1, q_offset = off, q_length = len\<rparr>"

lemma demo_read_tick:
  "map_sum id fst (icl_op (icl_as_ops lego_env) BIO_READ \<lparr>h_reqID = n, h_reqSubID = 0, h_offset = 0, h_length = 8, h_range = \<lparr>slpn = 1, nlp = 1\<rparr>,
      h_finishedAt = 0, h_context = 1\<rparr> (100 + is_latency (hil_inst BIO_READ 2)) (cache_new (small_param 1), d, g, [])) = Inr 1330"
  by code_simp

lemma demo_request_reads:
  "io_request (demo_request Op_Read 8 8) 72" "requestToBioType (demo_request Op_Read 8 8) = Some BIO_READ"
  "request_fits (demo_request o' 8 8)" "requestWireBytes (demo_request o' 8 8) \<le> nat INT_MAX" "responseWireBytes (demo_request o' 8 8) \<le> nat INT_MAX"
  by (simp_all add: io_request_def demo_request_def validateRuntimeRequest_def requestToBioType_def hasValidHeader_def op_code_def request_fits_def
      requestWireBytes_def responseWireBytes_def kSsdIpcMagic_def kSsdIpcVersion_def kInvalidSsdRequestId_def kSsdReadCommandBytes_def LONG_MAX_def INT_MAX_def
      split: ssd_op.splits)

lemma demo_direct:
  assumes "ssd_direct (demo_low r f) demo_driver 2 (run_bio (demo_request Op_Read 8 8) BIO_READ 100) 100 (0, n, demo_world) res"
  shows "\<exists>v. res = Inr (1330, v)"
proof -
  have req: "driver_request demo_driver (run_bio (demo_request Op_Read 8 8) BIO_READ 100) =
      Inr \<lparr>h_reqID = 1, h_reqSubID = 0, h_offset = 0, h_length = 8, h_range = \<lparr>slpn = 1, nlp = 1\<rparr>, h_finishedAt = 0, h_context = 1\<rparr>"
    by code_simp
  have w: "\<exists>d g. w = (cache_new (small_param 1), d, g, [])" if "back_steps (demo_low r f) a b demo_world w" for a b w
    using back_devices[of no_power r f lego_env a b demo_world w] that by (simp add: demo_low_def demo_world_def)
  have i: "sl_icl (demo_low r f) = icl_as_ops lego_env" "b_type (run_bio (demo_request Op_Read 8 8) BIO_READ 100) = BIO_READ"
    by (simp_all add: demo_low_def device_low_def run_bio_def)
  let ?q = "\<lambda>n. \<lparr>h_reqID = n, h_reqSubID = 0, h_offset = 0, h_length = 8, h_range = \<lparr>slpn = 1, nlp = 1\<rparr>, h_finishedAt = 0, h_context = 1\<rparr>"
  have t: "max 0 100 + is_latency (hil_inst BIO_READ 2) = 100 + is_latency (hil_inst BIO_READ 2)" by simp
  show ?thesis using assms
  proof (rule ssd_directE)
    fix q t w w1 m ff
    assume a: "(0, n, demo_world) = (t, m, w)" "driver_request demo_driver (run_bio (demo_request Op_Read 8 8) BIO_READ 100) = Inr q"
      "back_steps (demo_low r f) t (max t 100 + is_latency (hil_inst (b_type (run_bio (demo_request Op_Read 8 8) BIO_READ 100)) 2)) w w1"
      "icl_op (sl_icl (demo_low r f)) (b_type (run_bio (demo_request Op_Read 8 8) BIO_READ 100)) (q\<lparr>h_reqID := Suc m\<rparr>)
        (max t 100 + is_latency (hil_inst (b_type (run_bio (demo_request Op_Read 8 8) BIO_READ 100)) 2)) w1 = Inl ff"
    obtain d g where "w1 = (cache_new (small_param 1), d, g, [])" using w a(1,3) by blast
    moreover have "q = ?q 1" using a(2) req by simp
    ultimately show "\<exists>v. res = Inr (1330, v)" using a(1,4) demo_read_tick[of "Suc n" d g] i by simp
  next
    fix q t w w1 m t2 w2 w3
    assume a: "(0, n, demo_world) = (t, m, w)" "res = Inr (t2, Suc m, w3)" "driver_request demo_driver (run_bio (demo_request Op_Read 8 8) BIO_READ 100) = Inr q"
      "back_steps (demo_low r f) t (max t 100 + is_latency (hil_inst (b_type (run_bio (demo_request Op_Read 8 8) BIO_READ 100)) 2)) w w1"
      "icl_op (sl_icl (demo_low r f)) (b_type (run_bio (demo_request Op_Read 8 8) BIO_READ 100)) (q\<lparr>h_reqID := Suc m\<rparr>)
        (max t 100 + is_latency (hil_inst (b_type (run_bio (demo_request Op_Read 8 8) BIO_READ 100)) 2)) w1 = Inr (t2, w2)"
    obtain d g where "w1 = (cache_new (small_param 1), d, g, [])" using w a(1,4) by blast
    moreover have "q = ?q 1" using a(3) req by simp
    ultimately have "t2 = 1330" using a(1,5) demo_read_tick[of "Suc n" d g] i by simp
    then show "\<exists>v. res = Inr (1330, v)" using a(2) by blast
  qed
qed

text \<open>The server from its construction to the shutdown it is sent.\<close>

lemma demo_request_stops:
  "\<not> io_request (demo_request Op_Shutdown 0 0) c" "validateRuntimeRequest (demo_request Op_Shutdown 0 0) c = Success"
  "request_fits (demo_request Op_Shutdown 0 0)" "requestWireBytes (demo_request Op_Shutdown 0 0) \<le> nat INT_MAX" "responseWireBytes (demo_request Op_Shutdown 0 0) \<le> nat INT_MAX"
  by (simp_all add: io_request_def demo_request_def validateRuntimeRequest_def requestToBioType_def hasValidHeader_def op_code_def request_fits_def
      requestWireBytes_def responseWireBytes_def kSsdIpcMagic_def kSsdIpcVersion_def kInvalidSsdRequestId_def kSsdReadCommandBytes_def LONG_MAX_def INT_MAX_def)

lemma demo_runtime:
  obtains L V io' e' S' where "legosim_runtime demo_low demo_build (Suc 0) (Suc 0) options_new s0 (demo_io (demo_request Op_Shutdown 0 0), demo_world) =
    Inr (L, 0, V, io', e', S')"
proof -
  let ?q = "demo_request Op_Shutdown 0 0"
  obtain r f i D e and S :: "(ssd_request \<times> nat, cache \<times> unit dram \<times> pal_dev \<times> nat list, bool) ssd"
    where n: "ssd_new demo_low (1, 1, 1) 2 (9, 8) (sb_progress demo_build) demo_world = Inr (demo_low r f, i, D, e, S)" "built (demo_low r f) i (e, S)"
    using ssd_new_ok[of 1 demo_low 1 1 2 "(9, 8)" "sb_progress demo_build" demo_world] by (auto simp: demo_low_def device_low_def)
  obtain e1 and S1 :: "(ssd_request \<times> nat, cache \<times> unit dram \<times> pal_dev \<times> nat list, bool) ssd"
    where b: "ssd_begin (demo_low r f) (Suc 0) (\<lambda>c i t s. s) (e, S) = Inr (e1, S1)" "sd_client S1"
    using ssd_begin_quiet[OF n(2), of 0 "\<lambda>c i t s. s" s0] by auto
  obtain cap mbs where g: "driver_getInfo D = (cap, mbs)" by (cases "driver_getInfo D")
  define out where "out = emitResult [''capacity'', to_string cap, ''min_io_size'', to_string mbs, ''runtime_ipc'', ''1'']"
  have io: "io_print out (demo_io ?q) = demo_io ?q\<lparr>io_out := out\<rparr>" by (simp add: io_print_def demo_io_def)
  obtain V io' where rd: "server_round \<lparr>sc_low = demo_low r f, sc_driver = D, sc_fuel = Suc 0\<rparr> options_new cap
      (server_new, demo_io ?q\<lparr>io_out := out\<rparr>, e1, client_state s0 S1) = Inr (Finished, V, io', e1, client_state s0 S1)"
    using server_round_declines[OF demo_round[OF demo_request_stops(3), of out] demo_request_stops(4,5,1),
        where S = "client_state s0 S1" and e = e1 and V = server_new and opt = options_new and
        C = "\<lparr>sc_low = demo_low r f, sc_driver = D, sc_fuel = Suc 0\<rparr>" and capacity = cap] demo_request_stops(2) by auto
  have n1: "ssd_new demo_low (sb_cores demo_build) (sb_clock demo_build) (sb_lpn demo_build) (sb_progress demo_build) demo_world = Inr (demo_low r f, i, D, e, S)"
    using n(1) by (simp add: demo_build_def)
  have "runRuntimeIpc \<lparr>sc_low = demo_low r f, sc_driver = D, sc_fuel = Suc 0\<rparr> options_new cap mbs (Suc 0) (demo_io ?q, e1, client_state s0 S1) =
      Inr (0, V, io_print (emitResult [''reads'', to_string (sv_reads V), ''writes'', to_string (sv_writes V), ''bytes_read'', to_string (sv_bytesRead V),
            ''bytes_written'', to_string (sv_bytesWritten V), ''completed'', to_string (sv_completed V)] @ emitCycle (sv_cycle V)) io', e1, client_state s0 S1)"
    by (simp add: runRuntimeIpc_def Let_def out_def[symmetric] io rd)
  then show thesis by (intro that) (simp only: legosim_runtime_def prod.case n1 b rbind.simps g not_True_eq_False if_False)
qed

section \<open>A client\<close>

definition demo_response :: ssd_response where
  "demo_response = \<lparr>a_magic = kSsdIpcMagic, a_version = kSsdIpcVersion, a_status = status_code Success, a_id = 1, a_submitted = 100, a_completed = 1330\<rparr>"

definition demo_client :: client where
  "demo_client = \<lparr>cl_io = (demo_io (demo_request Op_Read 8 8))\<lparr>io_fifo := (\<lambda>_. \<lparr>pi_bytes = response_bytes demo_response, pi_grants = one_byte_calls\<rparr>)\<rparr>, cl_trace = []\<rparr>"

lemma demo_response_ok: "response_fits demo_response" "valid_response (demo_request Op_Read 8 8) demo_response"
  by (simp_all add: response_fits_def valid_response_def demo_response_def demo_request_def hasValidHeader_def status_code_def kSsdIpcMagic_def kSsdIpcVersion_def)

lemma demo_client_env: "client_env ''a'' ''b'' demo_response 100 700 [] (cl_io demo_client)"
  using demo_steady demo_answers demo_response_ok(1)
  by (simp add: client_env_def demo_client_def demo_io_def io_steady_def io_pending_def io_unit_def pending_def pipe_unit_new_def unit_ok_def is_space_def
      PIPE_COMMON_UNIT_CAPACITY_def)

section \<open>A batch\<close>

definition batch_demo_conf :: "(cache \<times> nat list) ssd_conf" where
  "batch_demo_conf = \<lparr>sc_low = \<lparr>sl_icl = icl_as_ops small_icl, sl_back = [], sl_run = (\<lambda>i t w. (t, w))\<rparr>,
     sc_driver = \<lparr>dr_totalLogicalPages = 9, dr_logicalPageSize = 8\<rparr>, sc_fuel = 10\<rparr>"

definition batch_demo_ssd :: "(cache \<times> nat list) batch_ssd" where
  "batch_demo_ssd = (snd (allocateEvent (snd (allocateEvent engine_new))),
     \<lparr>sd_cpu = \<lparr>hilCore = [core_new 1], iclCore = [], ftlCore = [], clockPeriod = 2\<rparr>, sd_hil = hil_new 2,
      sd_bil = bil_new \<lparr>pg_iops = 0, pg_bandwidth = 0, pg_latency = 0\<rparr> None, sd_world = (cache_new (small_param 1), []), sd_client = batch_new 1\<rparr>)"

definition batch_demo_options :: options where
  "batch_demo_options = options_new\<lparr>op_requestBytes := 8, op_op := OP_WRITE\<rparr>"

text \<open>One write: the request leg arrives at cycle 100, the answer is back at cycle 900.\<close>

lemma batch_demo_runs:
  "map_sum id fst (batch_run batch_demo_conf batch_demo_options 72 512 10 [''[INTERCMD] SYNC 100 8'', ''[INTERCMD] SYNC 900 8''] batch_demo_ssd) = Inr 0"
  by code_simp

end
