(* ===== verification/IoGen.thy ===== *)
theory IoGen
  imports SsdStack
begin

text \<open>
  \<open>igl/request/request_generator.cc\<close>: the workload generator of the stand-alone simulator.  It keeps a
  number of requests on the fly until it has submitted the bytes it was asked for, and calls back when
  the last one has completed.  The block entry is the argument \<open>sub\<close>, the random distribution the argument
  \<open>draw\<close> (a value between its bounds, both included), the callback the argument \<open>fin\<close>.
\<close>

section \<open>Configuration and state\<close>

datatype io_type = IO_READ | IO_WRITE | IO_RANDREAD | IO_RANDWRITE | IO_READWRITE | IO_RANDRW
datatype io_mode = IO_SYNC | IO_ASYNC

record req_conf =
  rc_io_size :: nat
  rc_type :: io_type
  rc_mode :: io_mode
  rc_iodepth :: nat
  rc_rwmixread :: fl
  rc_offset :: nat
  rc_size :: nat
  rc_blocksize :: nat
  rc_blockalign :: nat
  rc_time_based :: bool
  rc_runtime :: nat
  rc_submissionLatency :: nat
  rc_completionLatency :: nat

record 'r req_gen =
  rg_conf :: req_conf
  rg_io_submitted :: nat
  rg_io_count :: nat
  rg_read_count :: nat
  rg_io_depth :: nat
  rg_initTime :: nat
  rg_reserve :: bool
  rg_submitEvent :: nat
  rg_low :: nat
  rg_high :: nat
  rg_rand :: 'r

text \<open>The constructor: no alignment means that of the block region, and synchronous requests are one request at a time.\<close>

definition rg_new :: "req_conf \<Rightarrow> 'r \<Rightarrow> engine \<Rightarrow> 'r req_gen \<times> engine" where
  "rg_new C r e = (case allocateEvent e of (i, e) \<Rightarrow>
     let C = (if rc_blockalign C = 0 then C\<lparr>rc_blockalign := rc_blocksize C\<rparr> else C);
         C = (if rc_mode C = IO_SYNC then C\<lparr>rc_iodepth := 1, rc_mode := IO_ASYNC\<rparr> else C) in
     (\<lparr>rg_conf = C, rg_io_submitted = 0, rg_io_count = 0, rg_read_count = 0, rg_io_depth = 0, rg_initTime = 0, rg_reserve = False,
       rg_submitEvent = i, rg_low = 0, rg_high = 0, rg_rand = r\<rparr>, e))"

definition down_to :: "nat \<Rightarrow> nat \<Rightarrow> nat" where
  "down_to b x = (if x mod b \<noteq> 0 then x div b * b else x)"

definition rg_init :: "nat \<Rightarrow> nat \<Rightarrow> 'r req_gen \<Rightarrow> 'r req_gen res" where
  "rg_init bytesize bs g =
     (let C = rg_conf g in
      rbind (rguard (rc_offset C \<le> bytesize) (Panic ''offset is larger than SSD size'')) (\<lambda>_.
      rbind (rguard (bs \<le> rc_blocksize C) (Panic ''blocksize is smaller than SSD's logical block'')) (\<lambda>_.
      rbind (rguard (bs \<le> rc_blockalign C) (Panic ''blockalign is smaller than SSD's logical block'')) (\<lambda>_.
      rbind (rguard (bs \<noteq> 0 \<and> rc_blockalign C \<noteq> 0) (Undefined ''division by zero'')) (\<lambda>_.
      let C = C\<lparr>rc_blocksize := down_to bs (rc_blocksize C), rc_blockalign := down_to bs (rc_blockalign C)\<rparr>;
          C = C\<lparr>rc_offset := down_to (rc_blockalign C) (rc_offset C)\<rparr>;
          C = (if rc_size C = 0 \<or> bytesize < wrap64 (rc_offset C + rc_size C) then C\<lparr>rc_size := bytesize - rc_offset C\<rparr> else C) in
      rbind (rguard (rc_size C \<noteq> 0) (Panic ''Invalid offset and size provided'')) (\<lambda>_.
      Inr (g\<lparr>rg_conf := C, rg_low := rc_offset C, rg_high := wrap64 (rc_offset C + rc_size C)\<rparr>)))))))"

section \<open>Addresses\<close>

text \<open>The loop that moves a sequential address back into the region, on \<open>uint64_t\<close>.\<close>

partial_function (option) wrap_address :: "nat \<Rightarrow> nat \<Rightarrow> nat \<Rightarrow> nat option" where
  "wrap_address region len off =
     (if region < wrap64 (off + len) then
        (if region \<le> off then wrap_address region len (off - region) else wrap_address region len (wrap64 (off + 18446744073709551616 - len)))
      else Some off)"

declare wrap_address.simps [code]

definition rg_generateAddress :: "(nat \<Rightarrow> nat \<Rightarrow> 'r \<Rightarrow> nat \<times> 'r) \<Rightarrow> 'r req_gen \<Rightarrow> ((nat \<times> nat) \<times> 'r req_gen) res" where
  "rg_generateAddress draw g =
     (let C = rg_conf g in
      if rc_type C \<in> {IO_RANDREAD, IO_RANDWRITE, IO_RANDRW} then
        rbind (rguard (rc_blockalign C \<noteq> 0) (Undefined ''division by zero'')) (\<lambda>_.
        case draw (rg_low g) (rg_high g) (rg_rand g) of (v, r) \<Rightarrow>
        Inr ((v - v mod rc_blockalign C, rc_blocksize C), g\<lparr>rg_rand := r\<rparr>))
      else case wrap_address (rc_size C) (rc_blocksize C) (wrap64 (rg_io_count g * rc_blockalign C)) of
          None \<Rightarrow> Inl (NoReturn ''generateAddress'')
        | Some off \<Rightarrow> Inr ((wrap64 (off + rc_offset C), rc_blocksize C), g))"

text \<open>The quotient is one of \<open>float\<close>.\<close>

definition rg_nextIOIsRead :: "'r req_gen \<Rightarrow> bool" where
  "rg_nextIOIsRead g = (let ty = rc_type (rg_conf g) in
     if ty \<in> {IO_READWRITE, IO_RANDRW}
     then fl_less (fl_div 24 (fl_of_nat 24 (rg_read_count g)) (fl_of_nat 24 (rg_io_count g))) (rc_rwmixread (rg_conf g))
     else ty \<in> {IO_READ, IO_RANDREAD})"

section \<open>Submission and completion\<close>

definition rg_finished :: "nat \<Rightarrow> 'r req_gen \<Rightarrow> bool" where
  "rg_finished tick g = (let C = rg_conf g in
     (\<not> rc_time_based C \<and> rc_io_size C \<le> rg_io_submitted g) \<or>
     (rc_time_based C \<and> rc_runtime C \<le> wrap64 (tick + 18446744073709551616 - rg_initTime g)))"

definition rg_rescheduleSubmit :: "(engine \<Rightarrow> engine res) \<Rightarrow> nat \<Rightarrow> engine \<times> 'r req_gen \<Rightarrow> (engine \<times> 'r req_gen) res" where
  "rg_rescheduleSubmit fin brk = (\<lambda>(e, g).
     let tick = en_simTick e in
     if rg_finished tick g then
       (if rg_io_depth g = 0 then rbind (fin e) (\<lambda>e. Inr (e, g\<lparr>rg_reserve := True\<rparr>)) else Inr (e, g\<lparr>rg_reserve := True\<rparr>))
     else if rg_io_depth g < rc_iodepth (rg_conf g) then
       rbind (isScheduled (rg_submitEvent g) e) (\<lambda>due.
       if (case due of Some t \<Rightarrow> wrap64 (tick + brk) \<le> t | None \<Rightarrow> False) then Inr (e, g)
       else rbind (scheduleEvent (rg_submitEvent g) (wrap64 (tick + brk)) e) (\<lambda>e. Inr (e, g)))
     else Inr (e, g))"

text \<open>\<open>_submitIO\<close>: the request gets the count as its number; the type is chosen after the count has moved.\<close>

definition rg_count :: "nat \<Rightarrow> bool \<Rightarrow> 'r req_gen \<Rightarrow> 'r req_gen" where
  "rg_count len rd g = g\<lparr>rg_io_submitted := wrap64 (rg_io_submitted g + len),
     rg_read_count := (if rd then wrap64 (rg_read_count g + 1) else rg_read_count g), rg_io_depth := wrap64 (rg_io_depth g + 1)\<rparr>"

definition rg_submitIO :: "(engine \<Rightarrow> engine res) \<Rightarrow> (nat \<Rightarrow> nat \<Rightarrow> 'r \<Rightarrow> nat \<times> 'r) \<Rightarrow> (unit bio \<Rightarrow> engine \<times> 'b \<Rightarrow> (engine \<times> 'b) res) \<Rightarrow>
    engine \<times> 'r req_gen \<times> 'b \<Rightarrow> (engine \<times> 'r req_gen \<times> 'b) res" where
  "rg_submitIO fin draw sub = (\<lambda>(e, g, b).
     rbind (rg_generateAddress draw g) (\<lambda>((off, len), g).
     let i = rg_io_count g; g = g\<lparr>rg_io_count := wrap64 (i + 1)\<rparr>; rd = rg_nextIOIsRead g; g = rg_count len rd g in
     rbind (sub \<lparr>b_id = i, b_type = (if rd then BIO_READ else BIO_WRITE), b_offset = off, b_length = len, b_callback = (), b_submittedAt = 0\<rparr> (e, b)) (\<lambda>(e, b).
     rbind (rg_rescheduleSubmit fin (rc_submissionLatency (rg_conf g)) (e, g)) (\<lambda>(e, g). Inr (e, g, b)))))"

definition rg_iocallback :: "(engine \<Rightarrow> engine res) \<Rightarrow> engine \<times> 'r req_gen \<Rightarrow> (engine \<times> 'r req_gen) res" where
  "rg_iocallback fin = (\<lambda>(e, g).
     let g = g\<lparr>rg_io_depth := wrap64 (rg_io_depth g + 18446744073709551615)\<rparr>; C = rg_conf g in
     if rg_reserve g then (if rg_io_depth g = 0 then rbind (fin e) (\<lambda>e. Inr (e, g)) else Inr (e, g))
     else rg_rescheduleSubmit fin (wrap64 (rc_submissionLatency C + rc_completionLatency C)) (e, g))"

definition rg_begin :: "(engine \<Rightarrow> engine res) \<Rightarrow> (nat \<Rightarrow> nat \<Rightarrow> 'r \<Rightarrow> nat \<times> 'r) \<Rightarrow> (unit bio \<Rightarrow> engine \<times> 'b \<Rightarrow> (engine \<times> 'b) res) \<Rightarrow>
    engine \<times> 'r req_gen \<times> 'b \<Rightarrow> (engine \<times> 'r req_gen \<times> 'b) res" where
  "rg_begin fin draw sub = (\<lambda>(e, g, b). rg_submitIO fin draw sub (e, g\<lparr>rg_initTime := en_simTick e\<rparr>, b))"

definition rg_getProgress :: "nat \<Rightarrow> 'r req_gen \<Rightarrow> fl" where
  "rg_getProgress tick g =
     (if rg_io_submitted g = 0 then Fin 0
      else if rc_time_based (rg_conf g) then
        fl_div 24 (fl_of_nat 24 (wrap64 (tick + 18446744073709551616 - rg_initTime g))) (fl_of_nat 24 (rc_runtime (rg_conf g)))
      else fl_div 24 (fl_of_nat 24 (rg_io_submitted g)) (fl_of_nat 24 (rc_io_size (rg_conf g))))"

text \<open>The callback of \<open>sim/main.cc\<close>: the periodic statistics, if there are any, are taken off the queue and the engine stops.\<close>

definition end_simulation :: "nat option \<Rightarrow> engine \<Rightarrow> engine res" where
  "end_simulation stat e = rbind (case stat of Some i \<Rightarrow> descheduleEvent i e | None \<Rightarrow> Inr e) (\<lambda>e. Inr (stopEngine e))"

section \<open>Where sequential requests go\<close>

lemma wrap_address_closed:
  assumes "0 < len" "2 * len \<le> region" "off + len < 18446744073709551616"
  shows "wrap_address region len off = Some (if off mod region + len \<le> region then off mod region else off mod region - len)"
  using assms(3)
proof (induction off rule: less_induct)
  case (less off)
  have w: "wrap64 (off + len) = off + len" using less.prems by (simp add: wrap64_def)
  consider "off + len \<le> region" | "off < region" "region < off + len" | "region \<le> off" by linarith
  then show ?case
  proof cases
    case 1
    then have "off mod region = off" using assms(1) by simp
    then show ?thesis using 1 w by (subst wrap_address.simps) simp
  next
    case 2
    have "off + 18446744073709551616 - len = (off - len) + 18446744073709551616" using 2 assms(2) by linarith
    moreover have "off - len < 18446744073709551616" using less.prems by linarith
    ultimately have o: "wrap64 (off + 18446744073709551616 - len) = off - len" by (simp only: wrap64_def mod_add_self2 mod_less)
    have "wrap64 (off - len + len) \<le> region" using 2 assms(2) less.prems by (simp add: wrap64_def)
    then have "wrap_address region len (off - len) = Some (off - len)" by (subst wrap_address.simps) simp
    then show ?thesis using 2 w o by (subst wrap_address.simps) simp
  next
    case 3
    have "off - region < off" "off - region + len < 18446744073709551616" using 3 assms less.prems by auto
    from less.IH[OF this] have "wrap_address region len (off - region) =
        Some (if off mod region + len \<le> region then off mod region else off mod region - len)" using 3 by (simp add: le_mod_geq)
    then show ?thesis using 3 w assms(1) by (subst wrap_address.simps) simp
  qed
qed

lemma wrap_address_inside:
  assumes "0 < len" "2 * len \<le> region" "off + len < 18446744073709551616"
  shows "\<exists>a. wrap_address region len off = Some a \<and> a + len \<le> region"
proof -
  have "off mod region < region" using assms by (intro mod_less_divisor) linarith
  then show ?thesis using wrap_address_closed[OF assms] assms(2) by auto
qed

text \<open>What \<open>init\<close> leaves: a region inside the SSD.\<close>

lemma down_to_le: "down_to b x \<le> x"
  by (simp add: down_to_def)

lemma rg_init_region:
  assumes "rg_init bytesize bs g = Inr g'" "bytesize < 18446744073709551616" "rc_size (rg_conf g) < 18446744073709551616 - rc_offset (rg_conf g)"
  shows "0 < rc_size (rg_conf g') \<and> rc_offset (rg_conf g') + rc_size (rg_conf g') \<le> bytesize \<and>
    rg_high g' = rc_offset (rg_conf g') + rc_size (rg_conf g') \<and> rg_low g' = rc_offset (rg_conf g')"
proof -
  have o: "down_to b (rc_offset (rg_conf g)) \<le> rc_offset (rg_conf g)" for b by (rule down_to_le)
  have w: "wrap64 (down_to b (rc_offset (rg_conf g)) + rc_size (rg_conf g)) = down_to b (rc_offset (rg_conf g)) + rc_size (rg_conf g)" for b
    using o[of b] assms(3) by (simp add: wrap64_def)
  have h: "rc_offset (rg_conf g) \<le> bytesize" using assms(1) by (auto simp: rg_init_def Let_def res_simps split: if_splits)
  have d: "wrap64 bytesize = bytesize" using assms(2) by (simp add: wrap64_def)
  show ?thesis using assms(1) h o le_trans[OF o h] d w by (auto simp: rg_init_def Let_def res_simps w d split: if_splits)
qed

end
