(* ===== verification/IoGenRun.thy ===== *)
theory IoGenRun
  imports IoGen
begin

text \<open>
  The workload generator between the engine and a device.  The device is any that keeps the event of the
  generator where it is: it may schedule events of its own, let time pass, and complete any outstanding
  request at any tick.  \<open>out\<close> are the outstanding requests, \<open>subs\<close> the submitted ones.
\<close>

section \<open>Runs\<close>

type_synonym gen_log = "nat list \<times> unit bio list"

definition device :: "nat \<Rightarrow> (unit bio \<Rightarrow> engine \<times> gen_log \<Rightarrow> (engine \<times> gen_log) res) \<Rightarrow> bool" where
  "device i sub \<longleftrightarrow> (\<forall>b e w e' w'. engine_inv e \<longrightarrow> sub b (e, w) = Inr (e', w') \<longrightarrow>
     w' = (fst w @ [b_id b], snd w @ [b]) \<and> engine_inv e' \<and> en_simTick e' = en_simTick e \<and> set (en_list e) \<subseteq> set (en_list e') \<and>
     en_forceStop e' = en_forceStop e \<and> isEventExist i (en_queue e') = isEventExist i (en_queue e))"

inductive gen_step :: "(engine \<Rightarrow> engine res) \<Rightarrow> (nat \<Rightarrow> nat \<Rightarrow> 'r \<Rightarrow> nat \<times> 'r) \<Rightarrow>
    engine \<times> 'r req_gen \<times> gen_log \<Rightarrow> engine \<times> 'r req_gen \<times> gen_log \<Rightarrow> bool" for fin draw where
  gen_time: "\<lbrakk>\<not> en_forceStop e; engine_inv e'; en_simTick e \<le> en_simTick e'; set (en_list e) \<subseteq> set (en_list e'); \<not> en_forceStop e';
      isEventExist (rg_submitEvent g) (en_queue e') = isEventExist (rg_submitEvent g) (en_queue e)\<rbrakk> \<Longrightarrow> gen_step fin draw (e, g, w) (e', g, w)"
| gen_done: "\<lbrakk>\<not> en_forceStop e; i \<in> set out; rg_iocallback fin (e, g) = Inr (e', g')\<rbrakk> \<Longrightarrow>
      gen_step fin draw (e, g, out, subs) (e', g', remove1 i out, subs)"
| gen_fires: "\<lbrakk>\<not> en_forceStop e; en_queue e = (rg_submitEvent g, t) # q; device (rg_submitEvent g) sub;
      rg_submitIO fin draw sub (e\<lparr>en_simTick := t, en_queue := q\<rparr>, g, w) = Inr (e', g', w')\<rbrakk> \<Longrightarrow> gen_step fin draw (e, g, w) (e', g', w')"

definition gen_conf :: "req_conf \<Rightarrow> bool" where
  "gen_conf C \<longleftrightarrow> \<not> rc_time_based C \<and> 0 < rc_io_size C \<and> 0 < rc_blocksize C \<and> 0 < rc_iodepth C \<and>
     rc_io_size C + rc_blocksize C < 18446744073709551616"

text \<open>\<open>stat\<close> is the event of the periodic statistics.\<close>

definition gen_engine :: "nat \<Rightarrow> nat option \<Rightarrow> engine \<Rightarrow> bool" where
  "gen_engine ev stat e \<longleftrightarrow> engine_inv e \<and> ev \<in> set (en_list e) \<and> (\<forall>i. stat = Some i \<longrightarrow> i \<in> set (en_list e) \<and> i \<noteq> ev)"

definition gen_counts :: "req_conf \<Rightarrow> 'r req_gen \<Rightarrow> gen_log \<Rightarrow> bool" where
  "gen_counts C g = (\<lambda>(out, subs). rg_conf g = C \<and> rg_io_count g = length subs \<and> map b_id subs = [0..<length subs] \<and>
     (\<forall>b \<in> set subs. b_length b = rc_blocksize C) \<and> rg_io_submitted g = length subs * rc_blocksize C \<and>
     distinct out \<and> set out \<subseteq> {..<length subs} \<and> rg_io_depth g = length out \<and> length out \<le> rc_iodepth C \<and>
     (length subs - 1) * rc_blocksize C < rc_io_size C)"

definition gen_inv :: "req_conf \<Rightarrow> nat \<Rightarrow> nat option \<Rightarrow> engine \<times> 'r req_gen \<times> gen_log \<Rightarrow> bool" where
  "gen_inv C ev stat = (\<lambda>(e, g, out, subs). gen_engine ev stat e \<and> gen_counts C g (out, subs) \<and> rg_submitEvent g = ev \<and> subs \<noteq> [] \<and>
     (rg_reserve g \<longleftrightarrow> rc_io_size C \<le> length subs * rc_blocksize C) \<and> (en_forceStop e \<longleftrightarrow> rg_reserve g \<and> out = []) \<and>
     (isEventExist ev (en_queue e) \<noteq> None \<longleftrightarrow> \<not> rg_reserve g \<and> length out < rc_iodepth C))"

section \<open>Every step keeps the books\<close>

lemma end_simulation_ok:
  assumes "gen_engine ev stat e"
  shows "\<exists>e'. end_simulation stat e = Inr e' \<and> gen_engine ev stat e' \<and> en_forceStop e' \<and> en_simTick e' = en_simTick e \<and>
    isEventExist ev (en_queue e') = isEventExist ev (en_queue e)"
proof (cases stat)
  case None
  then show ?thesis using assms by (simp add: end_simulation_def stopEngine_def gen_engine_def engine_inv_def)
next
  case (Some i)
  obtain e' where "descheduleEvent i e = Inr e'" "engine_inv e'" "en_simTick e' = en_simTick e" "en_list e' = en_list e"
    "\<forall>x. isEventExist x (en_queue e') = (if x = i then None else isEventExist x (en_queue e))"
    using descheduleEvent_ok[of e i] assms Some by (auto simp: gen_engine_def)
  then show ?thesis using assms Some
    by (intro exI[of _ "stopEngine e'"]) (simp add: end_simulation_def stopEngine_def gen_engine_def engine_inv_def)
qed

lemma resched_ok:
  assumes e: "gen_engine ev stat e" and g: "rg_submitEvent g = ev" "\<not> rc_time_based (rg_conf g)"
  shows "\<exists>e' g'. rg_rescheduleSubmit (end_simulation stat) brk (e, g) = Inr (e', g') \<and> gen_engine ev stat e' \<and>
    (if rc_io_size (rg_conf g) \<le> rg_io_submitted g
     then g' = g\<lparr>rg_reserve := True\<rparr> \<and> isEventExist ev (en_queue e') = isEventExist ev (en_queue e) \<and>
          en_forceStop e' = (en_forceStop e \<or> rg_io_depth g = 0)
     else g' = g \<and> en_forceStop e' = en_forceStop e \<and>
          (if rg_io_depth g < rc_iodepth (rg_conf g) then isEventExist ev (en_queue e') \<noteq> None
           else isEventExist ev (en_queue e') = isEventExist ev (en_queue e)))"
proof (cases "rc_io_size (rg_conf g) \<le> rg_io_submitted g")
  case True
  then have "rg_finished (en_simTick e) g" using g(2) by (simp add: rg_finished_def Let_def)
  then show ?thesis using True end_simulation_ok[OF e] e by (auto simp: rg_rescheduleSubmit_def)
next
  case False
  then have nf: "\<not> rg_finished (en_simTick e) g" using g(2) by (simp add: rg_finished_def Let_def)
  let ?t = "wrap64 (en_simTick e + brk)"
  have ev: "engine_inv e" "ev \<in> set (en_list e)" using e by (simp_all add: gen_engine_def)
  obtain e' where s: "scheduleEvent ev ?t e = Inr e'" "engine_inv e'" "en_list e' = en_list e"
    "\<forall>x. isEventExist x (en_queue e') = (if x = ev then Some (max (en_simTick e) ?t) else isEventExist x (en_queue e))"
    using scheduleEvent_ok[OF ev] by metis
  then have "gen_engine ev stat e'" "en_forceStop e' = en_forceStop e" "isEventExist ev (en_queue e') \<noteq> None"
    using e schedule_more[OF s(1)] by (simp_all add: gen_engine_def)
  then show ?thesis using False nf s(1) ev e g(1)
    by (auto simp: rg_rescheduleSubmit_def isScheduled_def Let_def split: option.splits)
qed

lemma generateAddress_len:
  assumes "rg_generateAddress draw g = Inr ((off, len), g1)"
  shows "len = rc_blocksize (rg_conf g) \<and> (\<exists>r. g1 = g\<lparr>rg_rand := r\<rparr>)"
proof -
  have "g = g\<lparr>rg_rand := rg_rand g\<rparr>" by simp
  moreover have "len = rc_blocksize (rg_conf g) \<and> (g1 = g \<or> (\<exists>r. g1 = g\<lparr>rg_rand := r\<rparr>))"
    using assms by (auto simp: rg_generateAddress_def Let_def res_simps split: if_splits prod.splits option.splits)
  ultimately show ?thesis by metis
qed

text \<open>A submission, from below the depth and with bytes still to submit.\<close>

lemma submit_ok:
  assumes C: "gen_conf C" and e: "gen_engine ev stat e" "\<not> en_forceStop e" "isEventExist ev (en_queue e) = None"
    and g: "gen_counts C g (out, subs)" "rg_submitEvent g = ev" "\<not> rg_reserve g"
    and room: "length out < rc_iodepth C" "length subs * rc_blocksize C < rc_io_size C"
    and sub: "device ev sub" and run: "rg_submitIO (end_simulation stat) draw sub (e, g, out, subs) = Inr (e', g', out', subs')"
  shows "gen_inv C ev stat (e', g', out', subs') \<and> (\<exists>b. subs' = subs @ [b])"
proof -
  have conf: "rg_conf g = C" using g(1) by (simp add: gen_counts_def)
  obtain off len g1 where a0: "rg_generateAddress draw g = Inr ((off, len), g1)"
    using run by (auto simp: rg_submitIO_def res_simps split_paired_Ex)
  then have a: "rg_generateAddress draw g = Inr ((off, rc_blocksize C), g1)" "\<exists>r. g1 = g\<lparr>rg_rand := r\<rparr>"
    using generateAddress_len[OF a0] conf by simp_all
  define rd where "rd = rg_nextIOIsRead (g1\<lparr>rg_io_count := wrap64 (rg_io_count g1 + 1)\<rparr>)"
  define g2 where "g2 = rg_count (rc_blocksize C) rd (g1\<lparr>rg_io_count := wrap64 (rg_io_count g1 + 1)\<rparr>)"
  define bio where "bio = \<lparr>b_id = rg_io_count g1, b_type = (if rd then BIO_READ else BIO_WRITE), b_offset = off, b_length = rc_blocksize C, b_callback = (), b_submittedAt = 0\<rparr>"
  have run2: "rbind (sub bio (e, out, subs)) (\<lambda>(e, b). rbind (rg_rescheduleSubmit (end_simulation stat) (rc_submissionLatency (rg_conf g2)) (e, g2)) (\<lambda>(e, g). Inr (e, g, b))) =
      Inr (e', g', out', subs')"
    using run unfolding rg_submitIO_def prod.case a(1) rbind.simps Let_def rd_def[symmetric] g2_def[symmetric] bio_def[symmetric] .
  obtain e1 w1 where s: "sub bio (e, out, subs) = Inr (e1, w1)" using run2 by (cases "sub bio (e, out, subs)") auto
  have r: "rbind (rg_rescheduleSubmit (end_simulation stat) (rc_submissionLatency (rg_conf g2)) (e1, g2)) (\<lambda>(e, g). Inr (e, g, w1)) = Inr (e', g', out', subs')"
    using run2 s by simp
  have "engine_inv e" using e(1) by (simp add: gen_engine_def)
  then have w1: "w1 = (out @ [b_id bio], subs @ [bio])" and d: "engine_inv e1" "set (en_list e) \<subseteq> set (en_list e1)" "en_forceStop e1 = en_forceStop e"
      "isEventExist ev (en_queue e1) = None"
    using sub[unfolded device_def, rule_format, of e bio "(out, subs)" e1 w1] s e(3) by auto
  have e1: "gen_engine ev stat e1" using e(1) d by (auto simp: gen_engine_def)
  let ?n = "length subs" and ?B = "rc_blocksize C"
  have small: "length subs * ?B + ?B < 18446744073709551616" using room(2) C by (simp add: gen_conf_def)
  have "?n \<le> ?n * ?B" using C by (simp add: gen_conf_def)
  moreover have "0 < ?B" using C by (simp add: gen_conf_def)
  ultimately have n: "?n + 1 < 18446744073709551616" using small room(2) C unfolding gen_conf_def by linarith
  have o: "length out \<le> ?n" using g(1) card_mono[of "{..<?n}" "set out"] by (auto simp: gen_counts_def distinct_card)
  have g1: "rg_conf g1 = C" "rg_io_count g1 = ?n" "rg_io_submitted g1 = ?n * ?B" "rg_io_depth g1 = length out" "rg_submitEvent g1 = ev" "rg_reserve g1 = False"
    using a(2) g by (auto simp: gen_counts_def)
  have g2: "rg_conf g2 = C" "rg_io_count g2 = ?n + 1" "rg_io_submitted g2 = (?n + 1) * ?B" "rg_io_depth g2 = length out + 1" "rg_submitEvent g2 = ev" "rg_reserve g2 = False"
    using g1 n o small by (simp_all add: g2_def rg_count_def wrap64_def)
  have cnt: "gen_counts C g2 (out @ [b_id bio], subs @ [bio])"
    using g(1) g2 room g1(2) by (auto simp: gen_counts_def bio_def)
  have tb: "\<not> rc_time_based (rg_conf g2)" using g2(1) C by (simp add: gen_conf_def)
  obtain e2 g3 where q: "rg_rescheduleSubmit (end_simulation stat) (rc_submissionLatency (rg_conf g2)) (e1, g2) = Inr (e2, g3)" "gen_engine ev stat e2"
    "if rc_io_size (rg_conf g2) \<le> rg_io_submitted g2
     then g3 = g2\<lparr>rg_reserve := True\<rparr> \<and> isEventExist ev (en_queue e2) = isEventExist ev (en_queue e1) \<and> en_forceStop e2 = (en_forceStop e1 \<or> rg_io_depth g2 = 0)
     else g3 = g2 \<and> en_forceStop e2 = en_forceStop e1 \<and>
       (if rg_io_depth g2 < rc_iodepth (rg_conf g2) then isEventExist ev (en_queue e2) \<noteq> None else isEventExist ev (en_queue e2) = isEventExist ev (en_queue e1))"
    using resched_ok[OF e1 g2(5) tb] by blast
  have res: "e' = e2" "g' = g3" "out' = out @ [b_id bio]" "subs' = subs @ [bio]" using r q(1) w1 by simp_all
  have "gen_counts C g3 (out @ [b_id bio], subs @ [bio])" using cnt q(3) by (auto simp: gen_counts_def split: if_splits)
  then have "gen_inv C ev stat (e', g', out', subs')"
    using q(2,3) g2 d(3,4) e(2) unfolding gen_inv_def res by (auto split: if_splits)
  then show ?thesis using res(4) by blast
qed

lemma callback_ok:
  assumes C: "gen_conf C" and inv: "gen_inv C ev stat (e, g, out, subs)" and i: "i \<in> set out"
    and run: "rg_iocallback (end_simulation stat) (e, g) = Inr (e', g')"
  shows "gen_inv C ev stat (e', g', remove1 i out, subs)"
proof -
  have I: "gen_engine ev stat e" "gen_counts C g (out, subs)" "rg_submitEvent g = ev" "subs \<noteq> []"
    "rg_reserve g \<longleftrightarrow> rc_io_size C \<le> length subs * rc_blocksize C" "en_forceStop e \<longleftrightarrow> rg_reserve g \<and> out = []"
    "isEventExist ev (en_queue e) \<noteq> None \<longleftrightarrow> \<not> rg_reserve g \<and> length out < rc_iodepth C"
    using inv by (simp_all add: gen_inv_def)
  have out: "out \<noteq> []" "0 < length out" using i by auto
  have dc: "rg_io_depth g = length out" "rg_conf g = C" using I(2) by (simp_all add: gen_counts_def)
  have lo: "length out \<le> length subs" using I(2) card_mono[of "{..<length subs}" "set out"] by (auto simp: gen_counts_def distinct_card)
  have "length subs - 1 \<le> (length subs - 1) * rc_blocksize C" "(length subs - 1) * rc_blocksize C < rc_io_size C"
    using I(2) C by (simp_all add: gen_counts_def gen_conf_def)
  then have "length subs - 1 < rc_io_size C" by linarith
  then have l: "length out < 18446744073709551616" using lo C unfolding gen_conf_def by linarith
  define g1 where "g1 = g\<lparr>rg_io_depth := wrap64 (rg_io_depth g + 18446744073709551615)\<rparr>"
  have "wrap64 (length out + 18446744073709551615) = length out - 1" using out(2) l by (simp add: wrap64_def mod_if)
  then have d: "rg_io_depth g1 = length (remove1 i out)" using dc i by (simp add: g1_def length_remove1)
  have cnt: "gen_counts C g1 (remove1 i out, subs)"
    using I(2) d i set_remove1_subset[of i out] by (auto simp: gen_counts_def g1_def length_remove1)
  have g1: "rg_conf g1 = C" "rg_submitEvent g1 = ev" "rg_reserve g1 = rg_reserve g" "rg_io_submitted g1 = rg_io_submitted g"
    using I(3) dc(2) by (simp_all add: g1_def)
  have sb: "rg_io_submitted g = length subs * rc_blocksize C" using I(2) by (simp add: gen_counts_def)
  show ?thesis
  proof (cases "rg_reserve g")
    case True
    obtain e2 where e2: "end_simulation stat e = Inr e2" "gen_engine ev stat e2" "en_forceStop e2" "isEventExist ev (en_queue e2) = isEventExist ev (en_queue e)"
      using end_simulation_ok[OF I(1)] by blast
    have "g' = g1" "e' = (if remove1 i out = [] then e2 else e)"
      using run True e2(1) d by (auto simp: rg_iocallback_def Let_def g1_def[symmetric] g1(3) split: if_splits)
    then show ?thesis using True cnt I(1,4,5,6,7) e2 g1 out(1) by (auto simp: gen_inv_def)
  next
    case False
    have tb: "\<not> rc_time_based (rg_conf g1)" using g1(1) C by (simp add: gen_conf_def)
    have more: "\<not> rc_io_size (rg_conf g1) \<le> rg_io_submitted g1" using False I(5) g1(1,4) sb by simp
    obtain e2 g2 where q: "rg_rescheduleSubmit (end_simulation stat) (wrap64 (rc_submissionLatency C + rc_completionLatency C)) (e, g1) = Inr (e2, g2)"
      "gen_engine ev stat e2" "g2 = g1" "en_forceStop e2 = en_forceStop e" "rg_io_depth g1 < rc_iodepth C \<Longrightarrow> isEventExist ev (en_queue e2) \<noteq> None"
      using resched_ok[OF I(1) g1(2) tb, of "wrap64 (rc_submissionLatency C + rc_completionLatency C)"] more g1(1) by (auto split: if_splits)
    have "length (remove1 i out) < length out" "length out \<le> rc_iodepth C" using I(2) i out(2) by (simp_all add: gen_counts_def length_remove1)
    then have below: "length (remove1 i out) < rc_iodepth C" by linarith
    have "e' = e2" "g' = g1" using run False q(1,3) g1(1,3) by (auto simp: rg_iocallback_def Let_def g1_def[symmetric])
    then show ?thesis using False cnt I(4,5,6) q(2,4,5) g1 below d out(1) by (auto simp: gen_inv_def)
  qed
qed

lemma gen_step_ok:
  assumes C: "gen_conf C" and step: "gen_step (end_simulation stat) draw x y" and inv: "gen_inv C ev stat x"
  shows "gen_inv C ev stat y"
  using step inv
proof (cases rule: gen_step.cases)
  case (gen_time e e' g w)
  then show ?thesis using inv by (cases w) (auto simp: gen_inv_def gen_engine_def)
next
  case (gen_done e i out g e' g' subs)
  then show ?thesis using callback_ok[OF C, of ev stat e g out subs i e' g'] inv by simp
next
  case (gen_fires e g t q sub w e' g' w')
  obtain out subs where w: "w = (out, subs)" by (cases w)
  have I: "gen_engine ev stat e" "gen_counts C g (out, subs)" "rg_submitEvent g = ev" "subs \<noteq> []"
    "rg_reserve g \<longleftrightarrow> rc_io_size C \<le> length subs * rc_blocksize C"
    "isEventExist ev (en_queue e) \<noteq> None \<longleftrightarrow> \<not> rg_reserve g \<and> length out < rc_iodepth C"
    using inv gen_fires(1) w by (simp_all add: gen_inv_def)
  let ?e = "e\<lparr>en_simTick := t, en_queue := q\<rparr>"
  have e: "engine_inv e" using I(1) by (simp add: gen_engine_def)
  have nx: "engine_inv ?e" using next_event_ok[OF e gen_fires(4)] by simp
  have "queue_ok (en_queue e)" using e by (simp add: engine_inv_def)
  then have none: "isEventExist ev q = None"
    using gen_fires(4) I(3) by (auto simp: queue_ok_def isEventExist_map_of map_of_eq_None_iff)
  have "isEventExist ev (en_queue e) \<noteq> None" using gen_fires(4) I(3) by simp
  then have go: "\<not> rg_reserve g" "length out < rc_iodepth C" using I(6) by simp_all
  have ge: "gen_engine ev stat ?e" using nx I(1) by (simp add: gen_engine_def)
  obtain out' subs' where w': "w' = (out', subs')" by (cases w')
  show ?thesis
    using submit_ok[OF C ge _ _ I(2,3) go(1,2) _ gen_fires(5)[unfolded I(3)], of draw e' g' out' subs'] gen_fires(2,3,6) none go(1) I(5) w w' by simp
qed

lemma gen_steps_ok:
  assumes "gen_conf C" "(gen_step (end_simulation stat) draw)\<^sup>*\<^sup>* x y" "gen_inv C ev stat x"
  shows "gen_inv C ev stat y"
  using assms(2) by (induction rule: rtranclp_induct) (use assms(1,3) gen_step_ok in auto)

text \<open>The beginning.\<close>

lemma rg_begin_ok:
  assumes C: "gen_conf C" and n: "rg_conf g = C" "rg_submitEvent g = ev" "rg_io_submitted g = 0" "rg_io_count g = 0" "rg_io_depth g = 0" "\<not> rg_reserve g"
    and e: "gen_engine ev stat e" "\<not> en_forceStop e" "isEventExist ev (en_queue e) = None" and sub: "device ev sub"
    and run: "rg_begin (end_simulation stat) draw sub (e, g, [], []) = Inr (e', g', w')"
  shows "gen_inv C ev stat (e', g', w')"
proof -
  obtain out' subs' where w': "w' = (out', subs')" by (cases w')
  let ?g = "g\<lparr>rg_initTime := en_simTick e\<rparr>"
  have "gen_counts C ?g ([], [])" using n C by (simp add: gen_counts_def gen_conf_def)
  then show ?thesis
    using submit_ok[OF C e, of ?g "[]" "[]" sub draw e' g' out' subs'] n C sub run w' by (simp add: rg_begin_def gen_conf_def)
qed

text \<open>A completion always returns.\<close>

lemma callback_returns:
  assumes C: "gen_conf C" and inv: "gen_inv C ev stat (e, g, out, subs)"
  shows "\<exists>y. rg_iocallback (end_simulation stat) (e, g) = Inr y"
proof -
  have I: "gen_engine ev stat e" "rg_conf g = C" "rg_submitEvent g = ev" using inv by (simp_all add: gen_inv_def gen_counts_def)
  define g1 where "g1 = g\<lparr>rg_io_depth := wrap64 (rg_io_depth g + 18446744073709551615)\<rparr>"
  have g1: "rg_submitEvent g1 = ev" "\<not> rc_time_based (rg_conf g1)" using I C by (simp_all add: g1_def gen_conf_def)
  obtain e2 where "end_simulation stat e = Inr e2" using end_simulation_ok[OF I(1)] by blast
  moreover obtain y where "rg_rescheduleSubmit (end_simulation stat) (wrap64 (rc_submissionLatency (rg_conf g1) + rc_completionLatency (rg_conf g1))) (e, g1) = Inr y"
    using resched_ok[OF I(1) g1] by blast
  ultimately show ?thesis by (auto simp: rg_iocallback_def Let_def g1_def[symmetric])
qed

text \<open>A generator from its construction.\<close>

lemma generator_run_ok:
  assumes new: "rg_new C0 r e0 = (g0, e)" "rg_init bytesize bs g0 = Inr g" and C: "gen_conf (rg_conf g)"
    and e0: "engine_inv e0" "\<not> en_forceStop e0" "\<forall>i. stat = Some i \<longrightarrow> i \<in> set (en_list e0)" and sub: "device (rg_submitEvent g) sub"
    and run: "rg_begin (end_simulation stat) draw sub (e, g, [], []) = Inr x" "(gen_step (end_simulation stat) draw)\<^sup>*\<^sup>* x y"
  shows "gen_inv (rg_conf g) (rg_submitEvent g) stat y"
proof -
  obtain i where al: "allocateEvent e0 = (i, e)" and g0: "rg_submitEvent g0 = i" "rg_io_submitted g0 = 0" "rg_io_count g0 = 0" "rg_io_depth g0 = 0" "\<not> rg_reserve g0"
    using new(1) by (auto simp: rg_new_def Let_def split: prod.splits)
  have g: "rg_submitEvent g = i" "rg_io_submitted g = 0" "rg_io_count g = 0" "rg_io_depth g = 0" "\<not> rg_reserve g"
    using new(2) g0 by (auto simp: rg_init_def Let_def res_simps)
  note ao = allocateEvent_ok[OF al e0(1)]
  have ne: "isEventExist i (en_queue e) = None"
    using ao e0(1) by (fastforce simp: isEventExist_map_of map_of_eq_None_iff engine_inv_def)
  have ge: "gen_engine i stat e" "\<not> en_forceStop e" using ao e0(2,3) al by (auto simp: gen_engine_def allocateEvent_def)
  obtain e1 g1 w1 where x: "x = (e1, g1, w1)" by (metis surj_pair)
  have "gen_inv (rg_conf g) i stat x"
    using rg_begin_ok[OF C refl g ge ne sub[unfolded g(1)] run(1)[unfolded x]] x by simp
  then show ?thesis using gen_steps_ok[OF C run(2)] g(1) by simp
qed

end
