(* ===== verification/TraceGen.thy ===== *)
theory TraceGen
  imports LegoOptions
begin

text \<open>
  \<open>igl/trace/trace_replayer.cc\<close>: the trace replayer of the stand-alone simulator.  It reads the lines of a
  file that match a regular expression, takes the request from the groups of the match, and submits
  the requests one after the other, at the ticks of the trace or as completions allow.  The regular
  expression of the configuration is the argument \<open>m\<close>: the groups of a line that matches.
\<close>

section \<open>Configuration and state\<close>

datatype timing_mode = MODE_SYNC | MODE_ASYNC | MODE_STRICT

datatype trace_id = ID_OPERATION | ID_BYTE_OFFSET | ID_BYTE_LENGTH | ID_LBA_OFFSET | ID_LBA_LENGTH
  | ID_TIME_SEC | ID_TIME_MS | ID_TIME_US | ID_TIME_NS | ID_TIME_PS

record trace_conf =
  tc_mode :: timing_mode
  tc_submissionLatency :: nat
  tc_completionLatency :: nat
  tc_maxQueueDepth :: nat
  tc_max_io :: nat
  tc_group :: "trace_id \<Rightarrow> nat"
  tc_lbaSize :: nat
  tc_useHex :: bool

text \<open>A line of the trace; the type is \<open>None\<close> for \<open>BIO_NUM\<close>.\<close>

record trace_data =
  td_tick :: nat
  td_offset :: nat
  td_length :: nat
  td_type :: "bio_type option"

definition trace_data_new :: trace_data where
  "trace_data_new = \<lparr>td_tick = 0, td_offset = 0, td_length = 0, td_type = None\<rparr>"

text \<open>\<open>tr_file\<close> is what is left of the file, \<open>tr_eof\<close> the end-of-file bit of its stream.\<close>

record replayer =
  tr_conf :: trace_conf
  tr_file :: string
  tr_eof :: bool
  tr_initTime :: nat
  tr_firstTick :: nat
  tr_nextIOIsSync :: bool
  tr_reserve :: bool
  tr_io_count :: nat
  tr_read_count :: nat
  tr_write_count :: nat
  tr_io_depth :: nat
  tr_linedata :: trace_data
  tr_submitEvent :: nat

text \<open>\<open>popcount<uint32_t>\<close>.\<close>

definition popcount32 :: "32 word \<Rightarrow> 32 word" where
  "popcount32 v0 =
     (let v1 = v0 - and (drop_bit 1 v0) 0x55555555;
          v2 = and v1 0x33333333 + and (drop_bit 2 v1) 0x33333333;
          v3 = and (v2 + drop_bit 4 v2) 0x0F0F0F0F
      in drop_bit 24 (v3 * 0x01010101))"

definition useLBA :: "trace_conf \<Rightarrow> trace_id \<Rightarrow> bool" where
  "useLBA C k \<longleftrightarrow> tc_group C k > 0"

definition time_ids :: "(trace_id \<times> nat) list" where
  "time_ids = [(ID_TIME_SEC, 1000000000000), (ID_TIME_MS, 1000000000), (ID_TIME_US, 1000000), (ID_TIME_NS, 1000), (ID_TIME_PS, 1)]"

definition tr_new :: "trace_conf \<Rightarrow> string \<Rightarrow> engine \<Rightarrow> (replayer \<times> engine) res" where
  "tr_new C file e =
     (let lbaOff = useLBA C ID_LBA_OFFSET; lbaLen = useLBA C ID_LBA_LENGTH in
      rbind (rguard (tc_group C ID_OPERATION \<noteq> 0) (Panic ''Operation group ID cannot be 0'')) (\<lambda>_.
      rbind (rguard (\<not> (lbaOff \<or> lbaLen) \<or> popcount32 (word_of_nat (tc_lbaSize C)) = 1) (Panic ''LBA size should be power of 2'')) (\<lambda>_.
      rbind (rguard (lbaOff \<or> tc_group C ID_BYTE_OFFSET \<noteq> 0) (Panic ''Both LBA Offset and Byte Offset group ID cannot be 0'')) (\<lambda>_.
      rbind (rguard (lbaLen \<or> tc_group C ID_BYTE_LENGTH \<noteq> 0) (Panic ''Both LBA Length and Byte Length group ID cannot be 0'')) (\<lambda>_.
      rbind (rguard (list_ex (\<lambda>(k, f). tc_group C k > 0) time_ids \<or> tc_mode C \<noteq> MODE_STRICT) (Panic ''No valid time field specified'')) (\<lambda>_.
      case allocateEvent e of (i, e) \<Rightarrow>
      Inr (\<lparr>tr_conf = C, tr_file = file, tr_eof = False, tr_initTime = 0, tr_firstTick = 18446744073709551615, tr_nextIOIsSync = False,
            tr_reserve = False, tr_io_count = 0, tr_read_count = 0, tr_write_count = 0, tr_io_depth = 0, tr_linedata = trace_data_new, tr_submitEvent = i\<rparr>, e)))))))"

section \<open>Lines\<close>

text \<open>\<open>std::getline\<close> on a stream that has not met its end: the line, the rest, and the end-of-file bit.\<close>

definition get_line :: "string \<Rightarrow> string \<times> string \<times> bool" where
  "get_line s = (let l = takeWhile (\<lambda>c. c \<noteq> CHR 0x0A) s in
     if CHR 0x0A \<in> set s then (l, drop (Suc (length l)) s, False) else (l, [], True))"

text \<open>The loop of \<open>parseLine\<close>: the groups of the next line that matches, if there is one.\<close>

function next_match :: "(string \<Rightarrow> string list option) \<Rightarrow> string \<Rightarrow> bool \<Rightarrow> string list option \<times> string \<times> bool" where
  "next_match m s eof =
     (if eof then (None, s, eof)
      else case get_line s of (l, s, eof) \<Rightarrow>
        (case m l of Some gs \<Rightarrow> (Some gs, s, eof) | None \<Rightarrow> next_match m s eof))"
  by pat_completeness auto
termination
  by (relation "measure (\<lambda>(m, s, eof). length s + (if eof then 0 else 1))")
    (auto simp: get_line_def Let_def split: if_splits dest: length_pos_if_in_set)

declare next_match.simps [simp del]

text \<open>\<open>strtoul\<close>: 0 when there is no number, the largest value when it does not fit, wrapped when it is negative.\<close>

definition strtoul :: "nat \<Rightarrow> string \<Rightarrow> nat" where
  "strtoul base text = (case split_sign (skip_space text) of (neg, s) \<Rightarrow>
     let s = (if base = 16 \<and> 2 < length s \<and> s ! 0 = CHR ''0'' \<and> (s ! 1 = CHR ''x'' \<or> s ! 1 = CHR ''X'') \<and> digit_in 16 (s ! 2) then drop 2 s else s);
         v = value_in base (takeWhile (digit_in base) s) in
     if 18446744073709551615 < v then 18446744073709551615 else if neg then wrap64 (18446744073709551616 - v) else v)"

text \<open>A group of a match; a group the match does not have is empty.\<close>

definition group :: "trace_conf \<Rightarrow> string list \<Rightarrow> trace_id \<Rightarrow> string" where
  "group C gs k = (if tc_group C k < length gs then gs ! tc_group C k else [])"

definition mergeTime :: "trace_conf \<Rightarrow> string list \<Rightarrow> nat res" where
  "mergeTime C gs =
     (if list_all (\<lambda>(k, f). tc_group C k = 0 \<or> tc_group C k < length gs) time_ids
      then Inr (fold (\<lambda>(k, f) t. if tc_group C k > 0 then wrap64 (t + wrap64 (strtoul 10 (group C gs k) * f)) else t) time_ids 0)
      else Inl (Panic ''Time parse failed''))"

definition getType :: "string \<Rightarrow> bio_type option" where
  "getType s = (case s of [] \<Rightarrow> None
     | c # _ \<Rightarrow> if c \<in> {CHR ''r'', CHR ''R''} then Some BIO_READ else if c \<in> {CHR ''w'', CHR ''W''} then Some BIO_WRITE
         else if c \<in> {CHR ''f'', CHR ''F''} then Some BIO_FLUSH
         else if c \<in> {CHR ''t'', CHR ''T'', CHR ''d'', CHR ''D''} then Some BIO_TRIM else None)"

text \<open>A number of bytes, given as such or in units of \<open>lbaSize\<close>.\<close>

definition byte_field :: "trace_conf \<Rightarrow> string list \<Rightarrow> trace_id \<Rightarrow> trace_id \<Rightarrow> nat" where
  "byte_field C gs lba byte = (let base = (if tc_useHex C then 16 else 10) in
     if useLBA C lba then wrap64 (strtoul base (group C gs lba) * tc_lbaSize C) else strtoul base (group C gs byte))"

definition parse_groups :: "trace_conf \<Rightarrow> string list \<Rightarrow> trace_data res" where
  "parse_groups C gs = rbind (mergeTime C gs) (\<lambda>t.
     Inr \<lparr>td_tick = t, td_offset = byte_field C gs ID_LBA_OFFSET ID_BYTE_OFFSET, td_length = byte_field C gs ID_LBA_LENGTH ID_BYTE_LENGTH,
          td_type = getType (group C gs ID_OPERATION)\<rparr>)"

definition count_type :: "bio_type option \<Rightarrow> replayer \<Rightarrow> replayer" where
  "count_type ty g = g\<lparr>tr_io_count := wrap64 (tr_io_count g + 1), tr_read_count := (if ty = Some BIO_READ then wrap64 (tr_read_count g + 1) else tr_read_count g),
     tr_write_count := (if ty = Some BIO_WRITE then wrap64 (tr_write_count g + 1) else tr_write_count g)\<rparr>"

text \<open>\<open>parseLine\<close>: at the end of the file no request is left, and if none is on the fly the callback runs.\<close>

definition tr_parseLine :: "(engine \<Rightarrow> engine res) \<Rightarrow> (string \<Rightarrow> string list option) \<Rightarrow> engine \<times> replayer \<Rightarrow> (engine \<times> replayer) res" where
  "tr_parseLine fin m = (\<lambda>(e, g). case next_match m (tr_file g) (tr_eof g) of (r, s, eof) \<Rightarrow>
     let g = g\<lparr>tr_file := s, tr_eof := eof\<rparr> in
     case r of
       None \<Rightarrow> let g = g\<lparr>tr_reserve := True\<rparr> in
         if tr_io_depth g = 0 then rbind (fin e) (\<lambda>e. Inr (e, g)) else Inr (e, g)
     | Some gs \<Rightarrow> rbind (parse_groups (tr_conf g) gs) (\<lambda>d. Inr (e, count_type (td_type d) (g\<lparr>tr_linedata := d\<rparr>))))"

section \<open>Submission and completion\<close>

definition tr_rescheduleSubmit :: "nat \<Rightarrow> engine \<times> replayer \<Rightarrow> (engine \<times> replayer) res" where
  "tr_rescheduleSubmit brk = (\<lambda>(e, g). let C = tr_conf g in
     if tc_mode C = MODE_ASYNC \<and> tc_maxQueueDepth C \<le> tr_io_depth g then Inr (e, g\<lparr>tr_nextIOIsSync := True\<rparr>)
     else if tc_mode C = MODE_STRICT then Inr (e, g)
     else rbind (scheduleEvent (tr_submitEvent g) (wrap64 (en_simTick e + brk)) e) (\<lambda>e. Inr (e, g)))"

definition strict_tick :: "replayer \<Rightarrow> nat" where
  "strict_tick g = wrap64 (td_tick (tr_linedata g) + 18446744073709551616 - tr_firstTick g + tr_initTime g)"

definition tr_submitIO :: "(engine \<Rightarrow> engine res) \<Rightarrow> (string \<Rightarrow> string list option) \<Rightarrow> (unit bio \<Rightarrow> engine \<times> 'b \<Rightarrow> (engine \<times> 'b) res) \<Rightarrow>
    engine \<times> replayer \<times> 'b \<Rightarrow> (engine \<times> replayer \<times> 'b) res" where
  "tr_submitIO fin m sub = (\<lambda>(e, g, b). let d = tr_linedata g; C = tr_conf g in
     case td_type d of
       None \<Rightarrow> Inl (Panic ''Unexpected request type.'')
     | Some ty \<Rightarrow>
       rbind (sub \<lparr>b_id = tr_io_count g, b_type = ty, b_offset = td_offset d, b_length = td_length d, b_callback = (), b_submittedAt = 0\<rparr> (e, b)) (\<lambda>(e, b).
       let g = g\<lparr>tr_io_depth := wrap64 (tr_io_depth g + 1)\<rparr> in
       if tc_max_io C \<noteq> 0 \<and> tc_max_io C \<le> tr_io_count g then Inr (e, g\<lparr>tr_reserve := True\<rparr>, b)
       else rbind (tr_parseLine fin m (e, g)) (\<lambda>(e, g).
       if tr_reserve g then Inr (e, g, b)
       else rbind (case tc_mode C of
              MODE_STRICT \<Rightarrow> rbind (scheduleEvent (tr_submitEvent g) (strict_tick g) e) (\<lambda>e. Inr (e, g))
            | MODE_ASYNC \<Rightarrow> tr_rescheduleSubmit (tc_submissionLatency C) (e, g)
            | MODE_SYNC \<Rightarrow> Inr (e, g)) (\<lambda>(e, g). Inr (e, g, b)))))"

definition tr_iocallback :: "(engine \<Rightarrow> engine res) \<Rightarrow> engine \<times> replayer \<Rightarrow> (engine \<times> replayer) res" where
  "tr_iocallback fin = (\<lambda>(e, g).
     let g = g\<lparr>tr_io_depth := wrap64 (tr_io_depth g + 18446744073709551615)\<rparr>; C = tr_conf g in
     rbind (if tr_reserve g \<and> tr_io_depth g = 0 then fin e else Inr e) (\<lambda>e.
     if tc_mode C = MODE_SYNC \<or> tr_nextIOIsSync g
     then tr_rescheduleSubmit (wrap64 (tc_submissionLatency C + tc_completionLatency C)) (e, g\<lparr>tr_nextIOIsSync := False\<rparr>)
     else Inr (e, g)))"

definition tr_begin :: "(engine \<Rightarrow> engine res) \<Rightarrow> (string \<Rightarrow> string list option) \<Rightarrow> (unit bio \<Rightarrow> engine \<times> 'b \<Rightarrow> (engine \<times> 'b) res) \<Rightarrow>
    engine \<times> replayer \<times> 'b \<Rightarrow> (engine \<times> replayer \<times> 'b) res" where
  "tr_begin fin m sub = (\<lambda>(e, g, b).
     rbind (tr_parseLine fin m (e, g\<lparr>tr_initTime := en_simTick e\<rparr>)) (\<lambda>(e, g).
     let g = g\<lparr>tr_firstTick := (if tc_mode (tr_conf g) = MODE_STRICT then td_tick (tr_linedata g) else tr_initTime g)\<rparr> in
     if tr_reserve g then rbind (fin e) (\<lambda>e. Inr (e, g, b)) else tr_submitIO fin m sub (e, g, b)))"

definition tr_getProgress :: "nat \<Rightarrow> nat \<Rightarrow> replayer \<Rightarrow> fl" where
  "tr_getProgress pos fileSize g =
     (if tc_max_io (tr_conf g) = 0 then fl_div 24 (fl_of_nat 24 pos) (fl_of_nat 24 fileSize)
      else fl_div 24 (fl_of_nat 24 (tr_io_count g)) (fl_of_nat 24 (tc_max_io (tr_conf g))))"

section \<open>The requests of a trace\<close>

text \<open>The matches of a file, in order.\<close>

function trace_matches :: "(string \<Rightarrow> string list option) \<Rightarrow> string \<Rightarrow> bool \<Rightarrow> string list list" where
  "trace_matches m s eof =
     (if eof then [] else case get_line s of (l, s, eof) \<Rightarrow> (case m l of Some gs \<Rightarrow> [gs] | None \<Rightarrow> []) @ trace_matches m s eof)"
  by pat_completeness auto
termination
  by (relation "measure (\<lambda>(m, s, eof). length s + (if eof then 0 else 1))")
    (auto simp: get_line_def Let_def split: if_splits dest: length_pos_if_in_set)

declare trace_matches.simps [simp del]

lemma next_match_first:
  "next_match m s eof = (r, s', eof') \<Longrightarrow>
   trace_matches m s eof = (case r of None \<Rightarrow> [] | Some gs \<Rightarrow> gs # trace_matches m s' eof')"
proof (induction m s eof arbitrary: r s' eof' rule: next_match.induct)
  case (1 m s eof)
  obtain l s1 eof1 where l: "get_line s = (l, s1, eof1)" by (metis surj_pair)
  show ?case
  proof (cases eof)
    case True
    then show ?thesis using "1.prems" by (subst trace_matches.simps) (auto simp: next_match.simps[of m s])
  next
    case False
    show ?thesis
    proof (cases "m l")
      case None
      then have "next_match m s1 eof1 = (r, s', eof')" using "1.prems" False l by (simp add: next_match.simps[of m s])
      from "1.IH"[OF False l[symmetric] refl None this] show ?thesis using False l None by (subst trace_matches.simps) simp
    next
      case (Some gs)
      then have "r = Some gs" "s' = s1" "eof' = eof1" using "1.prems" False l by (simp_all add: next_match.simps[of m s])
      then show ?thesis using False l Some by (subst trace_matches.simps) simp
    qed
  qed
qed

end
