(* ===== verification/TraceRun.thy ===== *)
theory TraceRun
  imports IoGenRun TraceGen
begin

text \<open>
  The trace replayer between the engine and a device, as for the workload generator.  The requests that
  reach the device are the first ones of the trace, in its order, each once.
\<close>

section \<open>Runs\<close>

inductive tr_step :: "(engine \<Rightarrow> engine res) \<Rightarrow> (string \<Rightarrow> string list option) \<Rightarrow>
    engine \<times> replayer \<times> gen_log \<Rightarrow> engine \<times> replayer \<times> gen_log \<Rightarrow> bool" for fin m where
  tr_time: "\<lbrakk>\<not> en_forceStop e; engine_inv e'; en_simTick e \<le> en_simTick e'; set (en_list e) \<subseteq> set (en_list e'); \<not> en_forceStop e';
      isEventExist (tr_submitEvent g) (en_queue e') = isEventExist (tr_submitEvent g) (en_queue e)\<rbrakk> \<Longrightarrow> tr_step fin m (e, g, w) (e', g, w)"
| tr_done: "\<lbrakk>\<not> en_forceStop e; i \<in> set out; tr_iocallback fin (e, g) = Inr (e', g')\<rbrakk> \<Longrightarrow>
      tr_step fin m (e, g, out, subs) (e', g', remove1 i out, subs)"
| tr_fires: "\<lbrakk>\<not> en_forceStop e; en_queue e = (tr_submitEvent g, t) # q; device (tr_submitEvent g) sub;
      tr_submitIO fin m sub (e\<lparr>en_simTick := t, en_queue := q\<rparr>, g, w) = Inr (e', g', w')\<rbrakk> \<Longrightarrow> tr_step fin m (e, g, w) (e', g', w')"

text \<open>The requests that will be submitted: all of the trace, or the first ones up to the limit.\<close>

definition tr_total :: "trace_conf \<Rightarrow> string list list \<Rightarrow> nat" where
  "tr_total C Ms = (if tc_max_io C = 0 then length Ms else min (tc_max_io C) (length Ms))"

definition asks :: "trace_data \<Rightarrow> unit bio \<Rightarrow> bool" where
  "asks d b \<longleftrightarrow> td_type d = Some (b_type b) \<and> td_offset d = b_offset b \<and> td_length d = b_length b"

definition tr_books :: "trace_conf \<Rightarrow> string list list \<Rightarrow> replayer \<Rightarrow> gen_log \<Rightarrow> bool" where
  "tr_books C Ms g = (\<lambda>(out, subs). tr_conf g = C \<and> length subs \<le> tr_total C Ms \<and> map b_id subs = map Suc [0..<length subs] \<and>
     (\<forall>k < length subs. \<exists>d. parse_groups C (Ms ! k) = Inr d \<and> asks d (subs ! k)) \<and>
     distinct out \<and> set out \<subseteq> {1..length subs} \<and> tr_io_depth g = length out)"

definition tr_next :: "trace_conf \<Rightarrow> (string \<Rightarrow> string list option) \<Rightarrow> string list list \<Rightarrow> nat \<Rightarrow> replayer \<Rightarrow> bool" where
  "tr_next C m Ms n g \<longleftrightarrow> n < tr_total C Ms \<and> parse_groups C (Ms ! n) = Inr (tr_linedata g) \<and> tr_io_count g = Suc n \<and>
     trace_matches m (tr_file g) (tr_eof g) = drop (Suc n) Ms"

text \<open>When the next submission is due, and how many requests can be on the fly.\<close>

definition tr_due :: "trace_conf \<Rightarrow> replayer \<Rightarrow> nat list \<Rightarrow> bool" where
  "tr_due C g out \<longleftrightarrow> \<not> tr_reserve g \<and> (tc_mode C = MODE_SYNC \<longrightarrow> out = []) \<and> \<not> tr_nextIOIsSync g"

definition tr_depth :: "trace_conf \<Rightarrow> replayer \<Rightarrow> nat list \<Rightarrow> bool" where
  "tr_depth C g out \<longleftrightarrow> (tr_nextIOIsSync g \<longrightarrow> tc_mode C = MODE_ASYNC \<and> \<not> tr_reserve g \<and> length out = tc_maxQueueDepth C) \<and>
     (tc_mode C = MODE_ASYNC \<longrightarrow> length out \<le> tc_maxQueueDepth C \<and> (\<not> tr_reserve g \<longrightarrow> \<not> tr_nextIOIsSync g \<longrightarrow> length out < tc_maxQueueDepth C)) \<and>
     (tc_mode C = MODE_SYNC \<longrightarrow> length out \<le> 1)"

definition tr_inv :: "trace_conf \<Rightarrow> (string \<Rightarrow> string list option) \<Rightarrow> string list list \<Rightarrow> nat \<Rightarrow> nat option \<Rightarrow> engine \<times> replayer \<times> gen_log \<Rightarrow> bool" where
  "tr_inv C m Ms ev stat = (\<lambda>(e, g, out, subs). gen_engine ev stat e \<and> tr_submitEvent g = ev \<and> tr_books C Ms g (out, subs) \<and>
     (if tr_reserve g then length subs = tr_total C Ms else tr_next C m Ms (length subs) g) \<and> tr_depth C g out \<and>
     (en_forceStop e \<longleftrightarrow> tr_reserve g \<and> out = []) \<and>
     (\<not> en_forceStop e \<longrightarrow> (isEventExist ev (en_queue e) \<noteq> None \<longleftrightarrow> tr_due C g out)))"

section \<open>Every step keeps the order\<close>

lemma schedule_live:
  assumes "gen_engine ev stat e"
  shows "\<exists>e'. scheduleEvent ev t e = Inr e' \<and> gen_engine ev stat e' \<and> en_forceStop e' = en_forceStop e \<and> isEventExist ev (en_queue e') \<noteq> None"
proof -
  have "engine_inv e" "ev \<in> set (en_list e)" using assms by (simp_all add: gen_engine_def)
  from scheduleEvent_ok[OF this, of t] obtain e' where e': "scheduleEvent ev t e = Inr e'" "engine_inv e'" "en_list e' = en_list e"
    "isEventExist ev (en_queue e') = Some (max (en_simTick e) t)" by auto
  then show ?thesis using schedule_more[OF e'(1)] assms by (intro exI[of _ e']) (simp add: gen_engine_def)
qed

text \<open>Reading on, with requests on the fly or at the beginning.\<close>

lemma parseLine_ok:
  assumes e: "gen_engine ev stat e" and g: "tr_conf g = C" "trace_matches m (tr_file g) (tr_eof g) = drop n Ms" "tr_io_count g = n"
    and n: "n \<le> length Ms" "length Ms < 18446744073709551615" "tc_max_io C = 0 \<or> n < tc_max_io C"
    and run: "tr_parseLine (end_simulation stat) m (e, g) = Inr (e', g')"
  shows "gen_engine ev stat e' \<and> isEventExist ev (en_queue e') = isEventExist ev (en_queue e) \<and>
    tr_conf g' = C \<and> tr_io_depth g' = tr_io_depth g \<and> tr_submitEvent g' = tr_submitEvent g \<and> tr_nextIOIsSync g' = tr_nextIOIsSync g \<and>
    ((tr_reserve g' \<and> n = tr_total C Ms \<and> en_forceStop e' = (en_forceStop e \<or> tr_io_depth g = 0)) \<or>
     (tr_reserve g' = tr_reserve g \<and> e' = e \<and> tr_next C m Ms n g'))"
proof -
  obtain r s eof where nm: "next_match m (tr_file g) (tr_eof g) = (r, s, eof)" by (metis surj_pair)
  note fm = next_match_first[OF nm, unfolded g(2)]
  show ?thesis
  proof (cases r)
    case None
    then have "n = length Ms" using fm n(1) by simp
    then have t: "n = tr_total C Ms" using n(3) by (auto simp: tr_total_def)
    let ?g = "g\<lparr>tr_file := s, tr_eof := eof, tr_reserve := True\<rparr>"
    obtain e2 where e2: "end_simulation stat e = Inr e2" "gen_engine ev stat e2" "en_forceStop e2" "isEventExist ev (en_queue e2) = isEventExist ev (en_queue e)"
      using end_simulation_ok[OF e] by blast
    have "g' = ?g" "e' = (if tr_io_depth g = 0 then e2 else e)" using run nm None e2(1) by (auto simp: tr_parseLine_def Let_def split: if_splits)
    then show ?thesis using e e2 g(1) t by simp
  next
    case (Some gs)
    then have d: "drop n Ms = gs # trace_matches m s eof" using fm by simp
    then have k: "n < length Ms" by (metis drop_all list.distinct(1) not_le)
    then have nth: "Ms ! n = gs" "drop (Suc n) Ms = trace_matches m s eof" using d by (simp_all add: Cons_nth_drop_Suc[symmetric])
    obtain td where p: "parse_groups C gs = Inr td" and r: "e' = e" "g' = count_type (td_type td) (g\<lparr>tr_file := s, tr_eof := eof, tr_linedata := td\<rparr>)"
      using run nm Some g(1) by (auto simp: tr_parseLine_def Let_def res_simps)
    have "n < tr_total C Ms" using k n(3) by (auto simp: tr_total_def)
    then have "tr_next C m Ms n g'" using p r(2) nth g(3) n(2) k by (simp add: tr_next_def count_type_def wrap64_def)
    then show ?thesis using r e g(1) by (simp add: count_type_def)
  qed
qed

lemma tr_submit_ok:
  assumes small: "length Ms < 18446744073709551615" "0 < tc_maxQueueDepth C"
    and e: "gen_engine ev stat e" "\<not> en_forceStop e" "isEventExist ev (en_queue e) = None"
    and g: "tr_submitEvent g = ev" "\<not> tr_reserve g" "tr_books C Ms g (out, subs)" "tr_next C m Ms (length subs) g" "tr_depth C g out" "tr_due C g out"
    and sub: "device ev sub" and run: "tr_submitIO (end_simulation stat) m sub (e, g, out, subs) = Inr (e', g', out', subs')"
  shows "tr_inv C m Ms ev stat (e', g', out', subs')"
proof -
  let ?n = "length subs" and ?d = "tr_linedata g"
  have conf: "tr_conf g = C" "tr_io_depth g = length out" using g(3) by (simp_all add: tr_books_def)
  have nx: "?n < tr_total C Ms" "parse_groups C (Ms ! ?n) = Inr ?d" "tr_io_count g = Suc ?n" "trace_matches m (tr_file g) (tr_eof g) = drop (Suc ?n) Ms"
    using g(4) by (simp_all add: tr_next_def)
  obtain ty where ty: "td_type ?d = Some ty" using run by (cases "td_type ?d") (simp_all add: tr_submitIO_def Let_def)
  define bio where "bio = \<lparr>b_id = Suc ?n, b_type = ty, b_offset = td_offset ?d, b_length = td_length ?d, b_callback = (), b_submittedAt = 0\<rparr>"
  define g1 where "g1 = g\<lparr>tr_io_depth := wrap64 (tr_io_depth g + 1)\<rparr>"
  obtain e1 w1 where s: "sub bio (e, out, subs) = Inr (e1, w1)"
    using run unfolding tr_submitIO_def by (cases "sub bio (e, out, subs)") (auto simp: Let_def ty nx(3) bio_def)
  have ei: "engine_inv e" using e(1) by (simp add: gen_engine_def)
  have w1: "w1 = (out @ [Suc ?n], subs @ [bio])" and d: "engine_inv e1" "set (en_list e) \<subseteq> set (en_list e1)" "\<not> en_forceStop e1" "isEventExist ev (en_queue e1) = None"
    using sub[unfolded device_def, rule_format, of e bio "(out, subs)" e1 w1] ei s e(2,3) by (auto simp: bio_def)
  have e1: "gen_engine ev stat e1" using e(1) d by (auto simp: gen_engine_def)
  have rest: "(if tc_max_io C \<noteq> 0 \<and> tc_max_io C \<le> tr_io_count g1 then Inr (e1, g1\<lparr>tr_reserve := True\<rparr>, w1)
       else rbind (tr_parseLine (end_simulation stat) m (e1, g1)) (\<lambda>(e, g).
       if tr_reserve g then Inr (e, g, w1)
       else rbind (case tc_mode C of
              MODE_STRICT \<Rightarrow> rbind (scheduleEvent (tr_submitEvent g) (strict_tick g) e) (\<lambda>e. Inr (e, g))
            | MODE_ASYNC \<Rightarrow> tr_rescheduleSubmit (tc_submissionLatency C) (e, g)
            | MODE_SYNC \<Rightarrow> Inr (e, g)) (\<lambda>(e, g). Inr (e, g, w1)))) = Inr (e', g', out', subs')"
    using run unfolding tr_submitIO_def prod.case Let_def ty option.case conf(1) g1_def[symmetric] bio_def[folded nx(3), symmetric] s rbind.simps by simp
  have tot: "tr_total C Ms \<le> length Ms" by (simp add: tr_total_def)
  have o: "length out \<le> ?n" using g(3) card_mono[of "{1..?n}" "set out"] by (auto simp: tr_books_def distinct_card)
  have dep: "tr_io_depth g1 = length (out @ [Suc ?n])" using o nx(1) tot small(1) conf(2) by (simp add: g1_def wrap64_def)
  have g1: "tr_conf g1 = C" "tr_submitEvent g1 = ev" "tr_reserve g1 = False" "tr_nextIOIsSync g1 = False" "tr_io_count g1 = Suc ?n"
      "trace_matches m (tr_file g1) (tr_eof g1) = drop (Suc ?n) Ms"
    using conf(1) g(1,2,6) nx by (simp_all add: g1_def tr_due_def)
  have books: "tr_books C Ms g2 (out @ [Suc ?n], subs @ [bio])" if "tr_conf g2 = C" "tr_io_depth g2 = tr_io_depth g1" for g2
  proof -
    have "\<exists>td. parse_groups C (Ms ! k) = Inr td \<and> asks td ((subs @ [bio]) ! k)" if k: "k < Suc ?n" for k
      using g(3) nx(2) ty less_Suc_eq[THEN iffD1, OF k] by (auto simp: tr_books_def nth_append asks_def bio_def)
    then show ?thesis using g(3) that dep nx(1) by (auto simp: tr_books_def bio_def)
  qed
  have room: "tc_mode C = MODE_ASYNC \<Longrightarrow> Suc (length out) \<le> tc_maxQueueDepth C" "tc_mode C = MODE_SYNC \<Longrightarrow> out = []"
    using g(2,5,6) by (auto simp: tr_depth_def tr_due_def)
  show ?thesis
  proof (cases "tc_max_io C \<noteq> 0 \<and> tc_max_io C \<le> tr_io_count g1")
    case True
    have r: "e' = e1" "g' = g1\<lparr>tr_reserve := True\<rparr>" "out' = out @ [Suc ?n]" "subs' = subs @ [bio]" using rest True w1 by simp_all
    have "Suc ?n = tr_total C Ms" using True g1(5) nx(1) by (auto simp: tr_total_def)
    then show ?thesis using r e1 g1 books[of g'] d(3,4) room by (auto simp: tr_inv_def tr_depth_def tr_due_def)
  next
    case False
    obtain e2 g2 where p: "tr_parseLine (end_simulation stat) m (e1, g1) = Inr (e2, g2)"
      using rest[unfolded if_not_P[OF False]] by (cases "tr_parseLine (end_simulation stat) m (e1, g1)") auto
    note rest2 = rest[unfolded if_not_P[OF False] p rbind.simps prod.case]
    have bnd: "Suc ?n \<le> length Ms" "tc_max_io C = 0 \<or> Suc ?n < tc_max_io C" using nx(1) tot False g1(5) by auto
    note pl = parseLine_ok[OF e1 g1(1,6,5) bnd(1) small(1) bnd(2) p]
    have dp: "tr_io_depth g1 \<noteq> 0" using dep by simp
    show ?thesis
    proof (cases "tr_reserve g2")
      case True
      then have r: "e' = e2" "g' = g2" "out' = out @ [Suc ?n]" "subs' = subs @ [bio]" using rest2 w1 by simp_all
      have "Suc ?n = tr_total C Ms \<and> \<not> en_forceStop e2" using pl True g1(3) dp d(3) by auto
      then show ?thesis using True r pl g1 books[of g'] d(4) room by (auto simp: tr_inv_def tr_depth_def tr_due_def)
    next
      case False2: False
      then have nxt: "tr_next C m Ms (Suc ?n) g2" "e2 = e1" using pl by auto
      have g2: "tr_conf g2 = C" "tr_io_depth g2 = tr_io_depth g1" "tr_submitEvent g2 = ev" "\<not> tr_nextIOIsSync g2" using pl g1 by auto
      obtain e3 g3 where q: "(case tc_mode C of
              MODE_STRICT \<Rightarrow> rbind (scheduleEvent (tr_submitEvent g2) (strict_tick g2) e2) (\<lambda>e. Inr (e, g2))
            | MODE_ASYNC \<Rightarrow> tr_rescheduleSubmit (tc_submissionLatency C) (e2, g2)
            | MODE_SYNC \<Rightarrow> Inr (e2, g2)) = Inr (e3, g3)" and r: "e' = e3" "g' = g3" "out' = out @ [Suc ?n]" "subs' = subs @ [bio]"
        using rest2[unfolded if_not_P[OF False2]] w1 by (auto simp: res_simps split_paired_Ex)
      show ?thesis
      proof (cases "tc_mode C")
        case MODE_SYNC
        then have "e3 = e1" "g3 = g2" using q nxt(2) by simp_all
        then show ?thesis using r MODE_SYNC False2 nxt(1) g2 books[of g2] e1 d(3,4) room(2) by (auto simp: tr_inv_def tr_depth_def tr_due_def)
      next
        case MODE_STRICT
        then have "scheduleEvent ev (strict_tick g2) e1 = Inr e3" "g3 = g2" using q nxt(2) g2(3) by (auto simp: res_simps)
        then have "gen_engine ev stat e3" "en_forceStop e3 = en_forceStop e1" "isEventExist ev (en_queue e3) \<noteq> None" "g3 = g2"
          using schedule_live[OF e1, of "strict_tick g2"] by auto
        then show ?thesis using r MODE_STRICT False2 nxt(1) g2 books[of g2] d(3) by (auto simp: tr_inv_def tr_depth_def tr_due_def)
      next
        case MODE_ASYNC
        show ?thesis
        proof (cases "tc_maxQueueDepth C \<le> tr_io_depth g2")
          case True
          then have "e3 = e1" "g3 = g2\<lparr>tr_nextIOIsSync := True\<rparr>" using q nxt(2) MODE_ASYNC g2(1) by (simp_all add: tr_rescheduleSubmit_def)
          moreover have "Suc (length out) = tc_maxQueueDepth C" using True room(1)[OF MODE_ASYNC] g2(2) dep by simp
          moreover have "tr_next C m Ms (Suc ?n) (g2\<lparr>tr_nextIOIsSync := True\<rparr>)" using nxt(1) by (simp add: tr_next_def)
          ultimately show ?thesis using r MODE_ASYNC False2 g2 books[of g3] e1 d(3,4) by (auto simp: tr_inv_def tr_depth_def tr_due_def)
        next
          case False
          let ?t = "wrap64 (en_simTick e1 + tc_submissionLatency C)"
          have "scheduleEvent ev ?t e1 = Inr e3" "g3 = g2"
            using q nxt(2) MODE_ASYNC g2(1,3) False by (auto simp: tr_rescheduleSubmit_def res_simps)
          then have "gen_engine ev stat e3" "en_forceStop e3 = en_forceStop e1" "isEventExist ev (en_queue e3) \<noteq> None" "g3 = g2"
            using schedule_live[OF e1, of ?t] by auto
          then show ?thesis using r MODE_ASYNC False False2 nxt(1) g2 dep books[of g2] d(3) by (auto simp: tr_inv_def tr_depth_def tr_due_def)
        qed
      qed
    qed
  qed
qed

text \<open>A completion always returns.\<close>

lemma tr_callback_ok:
  assumes small: "length Ms < 18446744073709551615" "0 < tc_maxQueueDepth C"
    and inv: "tr_inv C m Ms ev stat (e, g, out, subs)" and go: "\<not> en_forceStop e" and i: "i \<in> set out"
  shows "\<exists>e' g'. tr_iocallback (end_simulation stat) (e, g) = Inr (e', g') \<and> tr_inv C m Ms ev stat (e', g', remove1 i out, subs)"
proof -
  have I: "gen_engine ev stat e" "tr_submitEvent g = ev" "tr_books C Ms g (out, subs)" "tr_depth C g out"
    "if tr_reserve g then length subs = tr_total C Ms else tr_next C m Ms (length subs) g"
    "isEventExist ev (en_queue e) \<noteq> None \<longleftrightarrow> tr_due C g out"
    using inv go by (simp_all add: tr_inv_def)
  have B: "tr_conf g = C" "tr_io_depth g = length out" "length subs \<le> tr_total C Ms" using I(3) by (simp_all add: tr_books_def)
  have "tr_total C Ms \<le> length Ms" by (simp add: tr_total_def)
  moreover have "length out \<le> length subs" using I(3) card_mono[of "{1..length subs}" "set out"] by (auto simp: tr_books_def distinct_card)
  ultimately have l: "length out < 18446744073709551616" using B(3) small(1) by linarith
  have out: "0 < length out" using i by (cases out) auto
  define out' where "out' = remove1 i out"
  have lo: "length out' = length out - 1" using i by (simp add: out'_def length_remove1)
  define g1 where "g1 = g\<lparr>tr_io_depth := wrap64 (tr_io_depth g + 18446744073709551615)\<rparr>"
  define g2 where "g2 = g1\<lparr>tr_nextIOIsSync := False\<rparr>"
  have "wrap64 (length out + 18446744073709551615) = length out - 1" using out l by (simp add: wrap64_def mod_if)
  then have d: "tr_io_depth g1 = length out'" using B(2) lo by (simp add: g1_def)
  have g1: "tr_conf g1 = C" "tr_submitEvent g1 = ev" "tr_reserve g1 = tr_reserve g" "tr_nextIOIsSync g1 = tr_nextIOIsSync g"
    using I(2) B(1) by (simp_all add: g1_def)
  have books: "tr_books C Ms g1 (out', subs)" "tr_books C Ms g2 (out', subs)"
    using I(3) d set_remove1_subset[of i out] by (auto simp: tr_books_def g1_def g2_def out'_def)
  have nxt: "tr_next C m Ms (length subs) g1 = tr_next C m Ms (length subs) g" "tr_next C m Ms (length subs) g2 = tr_next C m Ms (length subs) g"
    by (simp_all add: tr_next_def g1_def g2_def)
  let ?brk = "wrap64 (tc_submissionLatency C + tc_completionLatency C)"
  have cb: "tr_iocallback (end_simulation stat) (e, g) =
      rbind (if tr_reserve g \<and> out' = [] then end_simulation stat e else Inr e) (\<lambda>e.
      if tc_mode C = MODE_SYNC \<or> tr_nextIOIsSync g then tr_rescheduleSubmit ?brk (e, g2) else Inr (e, g1))"
    unfolding tr_iocallback_def prod.case Let_def g1_def[symmetric] g1(1,3,4) d g2_def[symmetric] length_0_conv ..
  have again: "\<exists>e'. tr_rescheduleSubmit ?brk (e0, g2) = Inr (e', g2) \<and> gen_engine ev stat e' \<and> en_forceStop e' = en_forceStop e0 \<and> isEventExist ev (en_queue e') \<noteq> None"
    if "tc_mode C = MODE_SYNC \<or> tr_nextIOIsSync g" "gen_engine ev stat e0" for e0
  proof -
    have "\<not> (tc_mode C = MODE_ASYNC \<and> tc_maxQueueDepth C \<le> tr_io_depth g2)" "tc_mode C \<noteq> MODE_STRICT"
      using that(1) I(4) lo out d small(2) by (auto simp: tr_depth_def g2_def)
    then show ?thesis using schedule_live[OF that(2), of "wrap64 (en_simTick e0 + ?brk)"] g1(1,2)
      by (auto simp: tr_rescheduleSubmit_def g2_def)
  qed
  show ?thesis
  proof (cases "tr_reserve g")
    case True
    have ns: "\<not> tr_nextIOIsSync g" using I(4) True by (auto simp: tr_depth_def)
    obtain e2 where e2: "end_simulation stat e = Inr e2" "gen_engine ev stat e2" "en_forceStop e2" "isEventExist ev (en_queue e2) = isEventExist ev (en_queue e)"
      using end_simulation_ok[OF I(1)] by blast
    show ?thesis
    proof (cases "tc_mode C = MODE_SYNC")
      case sync: True
      then have "out' = []" using I(4) lo by (auto simp: tr_depth_def)
      obtain e3 where "tr_rescheduleSubmit ?brk (e2, g2) = Inr (e3, g2)" "gen_engine ev stat e3" "en_forceStop e3" using again[OF _ e2(2)] sync e2(3) by auto
      then show ?thesis using cb True sync \<open>out' = []\<close> e2(1) books(2) I(4,5) g1
        by (intro exI[of _ e3] exI[of _ g2]) (simp add: tr_inv_def tr_depth_def out'_def[symmetric] g2_def)
    next
      case other: False
      show ?thesis using cb True other ns e2 books(1) I g1 lo
        by (intro exI[of _ "if out' = [] then e2 else e"] exI[of _ g1]) (auto simp: tr_inv_def tr_depth_def tr_due_def out'_def[symmetric] go)
    qed
  next
    case False
    show ?thesis
    proof (cases "tc_mode C = MODE_SYNC \<or> tr_nextIOIsSync g")
      case True
      obtain e3 where e3: "tr_rescheduleSubmit ?brk (e, g2) = Inr (e3, g2)" "gen_engine ev stat e3" "\<not> en_forceStop e3" "isEventExist ev (en_queue e3) \<noteq> None"
        using again[OF True I(1)] go by auto
      have less: "length out' < length out" and o0: "tc_mode C = MODE_SYNC \<Longrightarrow> out' = []"
        using lo out I(4) by (auto simp: tr_depth_def)
      have "tr_depth C g2 out' \<and> tr_due C g2 out'"
        using I(4) False True less o0 g1 by (auto simp: tr_depth_def tr_due_def g2_def)
      then show ?thesis using e3 cb False True books(2) I(5) nxt(2) g1
        by (intro exI[of _ e3] exI[of _ g2]) (simp add: tr_inv_def out'_def[symmetric] g2_def)
    next
      case other: False
      then show ?thesis using cb False books(1) I g1 nxt(1) lo
        by (intro exI[of _ e] exI[of _ g1]) (auto simp: tr_inv_def tr_depth_def tr_due_def out'_def[symmetric] go)
    qed
  qed
qed

lemma tr_step_ok:
  assumes small: "length Ms < 18446744073709551615" "0 < tc_maxQueueDepth C"
    and step: "tr_step (end_simulation stat) m x y" and inv: "tr_inv C m Ms ev stat x"
  shows "tr_inv C m Ms ev stat y"
  using step inv
proof (cases rule: tr_step.cases)
  case (tr_time e e' g w)
  then show ?thesis using inv by (cases w) (auto simp: tr_inv_def gen_engine_def)
next
  case (tr_done e i out g e' g' subs)
  then show ?thesis using tr_callback_ok[OF small, of m ev stat e g out subs i] inv by auto
next
  case (tr_fires e g t q sub w e' g' w')
  obtain out subs where w: "w = (out, subs)" by (cases w)
  obtain out' subs' where w': "w' = (out', subs')" by (cases w')
  have I: "gen_engine ev stat e" "tr_submitEvent g = ev" "tr_books C Ms g (out, subs)" "tr_depth C g out"
    "if tr_reserve g then length subs = tr_total C Ms else tr_next C m Ms (length subs) g"
    "isEventExist ev (en_queue e) \<noteq> None \<longleftrightarrow> tr_due C g out"
    using inv tr_fires(1,3) w by (simp_all add: tr_inv_def)
  let ?e = "e\<lparr>en_simTick := t, en_queue := q\<rparr>"
  have e: "engine_inv e" using I(1) by (simp add: gen_engine_def)
  have nx: "engine_inv ?e" using next_event_ok[OF e tr_fires(4)] by simp
  have "queue_ok (en_queue e)" using e by (simp add: engine_inv_def)
  then have none: "isEventExist ev (en_queue ?e) = None"
    using tr_fires(4) I(2) by (auto simp: queue_ok_def isEventExist_map_of map_of_eq_None_iff)
  have due: "tr_due C g out" using tr_fires(4) I(2,6) by simp
  then have nr: "\<not> tr_reserve g" by (simp add: tr_due_def)
  have ge: "gen_engine ev stat ?e" using nx I(1) by (simp add: gen_engine_def)
  have go: "\<not> en_forceStop ?e" using tr_fires(3) by simp
  have n: "tr_next C m Ms (length subs) g" using I(5) nr by simp
  show ?thesis
    using tr_submit_ok[OF small ge go none I(2) nr I(3) n I(4) due tr_fires(5)[unfolded I(2)] tr_fires(6)[unfolded w w']] tr_fires(2) w' by simp
qed

lemma tr_steps_ok:
  assumes "length Ms < 18446744073709551615" "0 < tc_maxQueueDepth C" "(tr_step (end_simulation stat) m)\<^sup>*\<^sup>* x y" "tr_inv C m Ms ev stat x"
  shows "tr_inv C m Ms ev stat y"
  using assms(3) by (induction rule: rtranclp_induct) (use assms(1,2,4) tr_step_ok in auto)

lemma tr_begin_ok:
  assumes new: "tr_new C file e0 = Inr (g, e)" and e0: "engine_inv e0" "\<not> en_forceStop e0" "\<forall>i. stat = Some i \<longrightarrow> i \<in> set (en_list e0)"
    and small: "length (trace_matches m file False) < 18446744073709551615" "0 < tc_maxQueueDepth C"
    and sub: "device (tr_submitEvent g) sub" and run: "tr_begin (end_simulation stat) m sub (e, g, [], []) = Inr (e', g', w')"
  shows "tr_inv C m (trace_matches m file False) (tr_submitEvent g) stat (e', g', w')"
proof -
  let ?Ms = "trace_matches m file False" and ?ev = "tr_submitEvent g"
  obtain i where al: "allocateEvent e0 = (i, e)" and g: "g = \<lparr>tr_conf = C, tr_file = file, tr_eof = False, tr_initTime = 0, tr_firstTick = 18446744073709551615,
      tr_nextIOIsSync = False, tr_reserve = False, tr_io_count = 0, tr_read_count = 0, tr_write_count = 0, tr_io_depth = 0, tr_linedata = trace_data_new, tr_submitEvent = i\<rparr>"
    using new by (auto simp: tr_new_def Let_def res_simps split: prod.splits)
  note ao = allocateEvent_ok[OF al e0(1)]
  have ne: "isEventExist ?ev (en_queue e) = None"
    using ao e0(1) g by (fastforce simp: isEventExist_map_of map_of_eq_None_iff engine_inv_def)
  have ge: "gen_engine ?ev stat e" "\<not> en_forceStop e" using ao e0(2,3) g al by (auto simp: gen_engine_def allocateEvent_def)
  obtain out' subs' where w': "w' = (out', subs')" by (cases w')
  let ?g = "g\<lparr>tr_initTime := en_simTick e\<rparr>"
  obtain e1 g1 where p: "tr_parseLine (end_simulation stat) m (e, ?g) = Inr (e1, g1)"
    using run by (cases "tr_parseLine (end_simulation stat) m (e, ?g)") (auto simp: tr_begin_def)
  have h: "tr_conf ?g = C" "trace_matches m (tr_file ?g) (tr_eof ?g) = drop 0 ?Ms" "tr_io_count ?g = 0" "0 \<le> length ?Ms" "tc_max_io C = 0 \<or> 0 < tc_max_io C"
    using g by auto
  note pl = parseLine_ok[OF ge(1) h(1-4) small(1) h(5) p]
  define g2 where "g2 = g1\<lparr>tr_firstTick := (if tc_mode (tr_conf g1) = MODE_STRICT then td_tick (tr_linedata g1) else tr_initTime g1)\<rparr>"
  have rest: "(if tr_reserve g2 then rbind (end_simulation stat e1) (\<lambda>e. Inr (e, g2, [], [])) else tr_submitIO (end_simulation stat) m sub (e1, g2, [], [])) = Inr (e', g', out', subs')"
    using run unfolding tr_begin_def prod.case p rbind.simps Let_def g2_def[symmetric] w' by (simp add: g2_def)
  have g2: "tr_submitEvent g2 = ?ev" "tr_conf g2 = C" "tr_reserve g2 = tr_reserve g1" "tr_io_depth g2 = 0" "\<not> tr_nextIOIsSync g2"
    using pl g by (auto simp: g2_def)
  have books: "tr_books C ?Ms g2 ([], [])" using g2 by (simp add: tr_books_def)
  have dep: "tr_depth C g2 []" using g2(5) small(2) by (simp add: tr_depth_def)
  show ?thesis
  proof (cases "tr_reserve g2")
    case True
    then have t: "tr_total C ?Ms = 0" using pl g g2(3) by auto
    obtain e2 where "end_simulation stat e1 = Inr e2" "gen_engine ?ev stat e2" "en_forceStop e2" using end_simulation_ok[of ?ev stat e1] pl by blast
    then show ?thesis using rest True t books dep g2 w' by (simp add: tr_inv_def)
  next
    case False
    then have n: "tr_next C m ?Ms (length ([] :: unit bio list)) g2" "e1 = e" using pl g2(3) g by (auto simp: tr_next_def g2_def)
    have due: "tr_due C g2 []" using False g2(5) by (simp add: tr_due_def)
    show ?thesis using tr_submit_ok[OF small ge ne g2(1) False books n(1) dep due sub] rest False n(2) w' by simp
  qed
qed

end
