(* ===== verification/IoGenDemo.thy ===== *)
theory IoGenDemo
  imports TraceRun
begin

text \<open>
  A generator that writes eight bytes and a trace of two requests, on a device that takes every request;
  and where the addresses of the generator can leave their region.
\<close>

definition note_bio :: "unit bio \<Rightarrow> engine \<times> gen_log \<Rightarrow> (engine \<times> gen_log) res" where
  "note_bio b = (\<lambda>(e, w). Inr (e, fst w @ [b_id b], snd w @ [b]))"

lemma note_bio_device: "device i note_bio"
  by (auto simp: device_def note_bio_def)

definition lowest :: "nat \<Rightarrow> nat \<Rightarrow> unit \<Rightarrow> nat \<times> unit" where
  "lowest lo hi r = (lo, r)"

definition gen_demo :: "io_type \<Rightarrow> nat \<Rightarrow> req_conf" where
  "gen_demo ty n = \<lparr>rc_io_size = n, rc_type = ty, rc_mode = IO_SYNC, rc_iodepth = 0, rc_rwmixread = Fin 0, rc_offset = 0, rc_size = 0, rc_blocksize = 8,
     rc_blockalign = 0, rc_time_based = False, rc_runtime = 0, rc_submissionLatency = 5, rc_completionLatency = 7\<rparr>"

text \<open>The generator after \<open>init\<close> on an SSD of 32 bytes in blocks of 8.\<close>

definition gen_demo_ready :: "io_type \<Rightarrow> nat \<Rightarrow> unit req_gen res" where
  "gen_demo_ready ty n = rg_init 32 8 (fst (rg_new (gen_demo ty n) () engine_new))"

lemma gen_demo_ready_is:
  "gen_demo_ready ty n = Inr \<lparr>rg_conf = \<lparr>rc_io_size = n, rc_type = ty, rc_mode = IO_ASYNC, rc_iodepth = 1, rc_rwmixread = Fin 0, rc_offset = 0, rc_size = 32,
     rc_blocksize = 8, rc_blockalign = 8, rc_time_based = False, rc_runtime = 0, rc_submissionLatency = 5, rc_completionLatency = 7\<rparr>,
     rg_io_submitted = 0, rg_io_count = 0, rg_read_count = 0, rg_io_depth = 0, rg_initTime = 0, rg_reserve = False, rg_submitEvent = 1, rg_low = 0, rg_high = 32, rg_rand = ()\<rparr>"
  by code_simp

section \<open>A whole run of the generator\<close>

lemma gen_demo_begins:
  "map_sum id (\<lambda>(e, g, out, subs). (en_forceStop e, rg_reserve g, out, map b_id subs))
     (rbind (gen_demo_ready IO_WRITE 8) (\<lambda>g. rg_begin (end_simulation None) lowest note_bio (snd (allocateEvent engine_new), g, [], []))) = Inr (False, True, [0], [0])"
  by code_simp

section \<open>Addresses outside the region\<close>

text \<open>
  The distribution includes its upper bound, so a random request can start behind the region; and a sequential one
  can wrap below it when the region is shorter than two blocks.
\<close>

lemma random_address_escapes:
  "rbind (gen_demo_ready IO_RANDWRITE 8) (\<lambda>g. rg_generateAddress (\<lambda>lo hi r. (hi, r)) g) =
     rbind (gen_demo_ready IO_RANDWRITE 8) (\<lambda>g. Inr ((rc_offset (rg_conf g) + rc_size (rg_conf g), 8), g))"
  by (simp add: gen_demo_ready_is rg_generateAddress_def)

lemma short_region_wraps: "wrap_address 10 8 4 = Some 18446744073709551612"
proof -
  have "wrap_address 10 8 18446744073709551612 = Some 18446744073709551612" by (subst wrap_address.simps) (simp add: wrap64_def)
  then show ?thesis by (subst wrap_address.simps) (simp add: wrap64_def)
qed

section \<open>A trace of two requests\<close>

text \<open>Lines \<open>X,o\<close>: a type and an offset; every request has length 8.\<close>

definition demo_match :: "string \<Rightarrow> string list option" where
  "demo_match l = (case l of [c, d, x] \<Rightarrow> if d = CHR '','' then Some [l, [c], [x], ''8''] else None | _ \<Rightarrow> None)"

definition trace_demo :: trace_conf where
  "trace_demo = \<lparr>tc_mode = MODE_ASYNC, tc_submissionLatency = 5, tc_completionLatency = 7, tc_maxQueueDepth = 2, tc_max_io = 0,
     tc_group = (\<lambda>k. case k of ID_OPERATION \<Rightarrow> 1 | ID_BYTE_OFFSET \<Rightarrow> 2 | ID_BYTE_LENGTH \<Rightarrow> 3 | _ \<Rightarrow> 0), tc_lbaSize = 512, tc_useHex = False\<rparr>"

definition trace_demo_file :: string where
  "trace_demo_file = ''W,0'' @ [CHR 0x0A] @ ''#'' @ [CHR 0x0A] @ ''R,4'' @ [CHR 0x0A]"

lemma trace_demo_matches:
  "trace_matches demo_match trace_demo_file False = [[''W,0'', ''W'', ''0'', ''8''], [''R,4'', ''R'', ''4'', ''8'']]"
  by code_simp

lemma trace_demo_begins:
  "map_sum id (\<lambda>(e, g, out, subs). (out, map b_id subs, map b_offset subs))
     (rbind (tr_new trace_demo trace_demo_file engine_new) (\<lambda>(g, e). tr_begin (end_simulation None) demo_match note_bio (e, g, [], []))) = Inr ([1], [1], [0])"
  by code_simp

end
