(* ===== verification/Spec2Isabelle.thy ===== *)
theory Spec2Isabelle
  imports PageMapDemo BridgeDemo LegoDemo IoGenDemo
begin

text \<open>
  NUSSD couples the SSD simulator SimpleSSD to LegoSim, a bridge that lets several simulators run
  against one network.  This library models the C++ code of the repository that makes up the program
  itself, translates it into executable definitions, and proves what its parts promise.

  The program.  A simulated NPU (\<open>demo/runtime_protocol_client.cc\<close>, \<open>dummy_npu/dummy_npu_main.cc\<close>) and a
  simulated SSD (\<open>SimpleSSD-Standalone/sim/legosim_main.cc\<close>) are processes that print commands of a text
  protocol (\<open>interchiplet/includes/sync_protocol.h\<close>) and read the answers.  The bridge
  (\<open>interchiplet/srcs\<close>) pairs the commands, decides when a transfer ends from delays computed by a
  network simulator, and repeats the whole run until the cycle no longer moves.  The data of a request
  travels through a FIFO (\<open>interchiplet/includes/pipe_comm.h\<close>) as a message of
  \<open>protocol/ssd_ipc_protocol.h\<close>.  Inside the SSD a request passes the block entry (\<open>bil/entry.cc\<close>), the driver
  (\<open>sil/none/none.cc\<close>), the host interface layer (\<open>hil/hil.cc\<close>), the cache (\<open>icl/icl.cc\<close>,
  \<open>icl/generic_cache.cc\<close>), the flash translation layer (\<open>ftl/ftl.cc\<close>, \<open>ftl/page_mapping.cc\<close>) and the flash
  array (\<open>pal/pal_old.cc\<close>, \<open>pal/old/PAL2.cc\<close>), with a DRAM (\<open>dram/simple.cc\<close>) and an embedded processor
  (\<open>cpu/cpu.cc\<close>) charged on the way.  All of it is driven by one event queue (\<open>sim/engine.cc\<close>).

  Conventions.  An operation that can stop returns \<open>'a res\<close>, which is \<open>fault + 'a\<close>: \<open>Panic\<close> is a call
  of \<open>panic\<close>, \<open>Throws\<close> an exception of the library or the program, \<open>Undefined\<close> a step the C++ standard gives no
  meaning (a division by zero, an index out of range), \<open>NoReturn\<close> a loop that does not end within its
  fuel or a call that blocks for ever.  \<open>rbind\<close> sequences such operations.  Counters, ticks and sizes are natural
  numbers; where the code lets a value of 32 or 64 bits wrap and a property depends on it, the wrap-around is written out
  (\<open>wrap64\<close>, \<open>sub64\<close>, \<open>ceil64\<close>) or the value is a word (\<open>Bits\<close>).  \<open>float\<close> and \<open>double\<close> are the type \<open>fl\<close> of
  \<open>Floats\<close>: rationals rounded to 24 or 53 bits, infinities and NaN, without a bound on the exponent.  What is outside the
  code (random numbers, the power library, the system's \<open>read\<close> and \<open>write\<close>, and for each layer the layers
  below it) is an argument of the definitions, usually a record of operations over a state \<open>'w\<close>.

  The theories, and what each group of lemmas shows.

  \<^item> \<open>Prelude\<close>, \<open>Floats\<close>, \<open>StreamText\<close>: results, checked list access, rounding, \<open>std::istream\<close> and \<open>std::ostream\<close>.
  \<^item> \<open>Bits\<close>, \<open>Blocks\<close>, \<open>Requests\<close>: \<open>util/bitset.cc\<close> refines lists of truth values; a flash block is written in
    order between erases, in both representations of its pages (locale \<open>flash_block\<close>); the requests of the layers.
  \<^item> \<open>PageMap\<close>, \<open>PageMapInv\<close>, \<open>PageMapGC\<close>, \<open>PageMapOps\<close>, \<open>PageMapDemo\<close>: \<open>ftl/page_mapping.cc\<close>.  The invariant \<open>pm_inv\<close> says
    that the mapping table, read as a partial map from logical to physical units (\<open>logi\<close>), and the valid units
    of the blocks (\<open>phys\<close>) are inverse to each other, and that free and used blocks partition the array.  Writes,
    trims, collections and the constructor keep it; a collection keeps the set of mapped units.
  \<^item> \<open>GenericCache\<close>, \<open>CacheInv\<close>, \<open>CacheOps\<close>, \<open>CacheRead\<close>, \<open>CacheSweep\<close>, \<open>CacheTotal\<close>, \<open>CacheDemo\<close>:
    \<open>icl/generic_cache.cc\<close>.  Tags are unique and in their sets, every operation keeps it, a write always
    finds a line, a read never writes to the FTL, and what a flush leaves.
  \<^item> \<open>SimEngine\<close>, \<open>CpuCore\<close>, \<open>HilQueue\<close>, \<open>HilDrain\<close>, \<open>Dram\<close>, \<open>IclLayer\<close>, \<open>IclProps\<close>, \<open>SimDemo\<close>: the event queue equals a
    reference definition and time never goes back (locale \<open>event_scheduler\<close>, which the HIL relies on); the cores
    serve their jobs one at a time; the completion queue of the HIL empties; DRAM commands are
    serialised; a request is cut into pieces that cover its bytes once.
  \<^item> \<open>NandTiming\<close>, \<open>FreeSlots\<close>, \<open>PalSched\<close>, \<open>PalSafe\<close>, \<open>PalAddress\<close>, \<open>PalStack\<close>, \<open>PalHistory\<close>, \<open>PalDemo\<close>: the flash array.
    The search for a free interval ends at the earliest place, what is taken was free, no two operations of any history
    share a channel or a die, and block and page numbers become distinct addresses.
  \<^item> \<open>CmdText\<close>, \<open>SimTime\<close>, \<open>NetDelay\<close>, \<open>CmdStructs\<close>, \<open>CmdHandler\<close>, \<open>BridgeLines\<close>, \<open>BridgeInv\<close>, \<open>BridgeProps\<close>, \<open>BridgeLoop\<close>,
    \<open>BridgeDemo\<close>: the bridge.  The state of all handlers is \<open>sync_struct\<close>; \<open>handle_cmd\<close> is the dispatch, and runs
    are lists of commands.  Commands print and parse back; text split into buffers in any way gives the
    same lines; no READ waits while a WRITE that answers it waits (locale \<open>rendezvous\<close>, used for transfers and
    for launches); transfers are paired in order; barriers release everyone; a mutex passes to the oldest request.
  \<^item> \<open>SsdProtocol\<close>, \<open>PipeComm\<close>, \<open>LegoIo\<close>: the messages as bytes, FIFOs that move any number of bytes per call,
    and the calls by which a simulator talks to the bridge.
  \<^item> \<open>BlockEntry\<close>, \<open>SsdStack\<close>, \<open>SsdServe\<close>, \<open>SsdBoot\<close>, \<open>SsdDriver\<close>: the layers of the SSD composed through the engine
    (\<open>ssd_event\<close> is the function of every event).  The abstract specification is \<open>ssd_direct\<close>: a request is one call of
    the ICL after a fixed delay, on the state that the periodic events of DRAM and flash have left by then.
    \<open>stack.serve_refines\<close> proves it of the event-driven run, under the contract of locale \<open>timely_icl\<close>, which is
    interpreted by the ICL, cache, DRAM refresh and flash flush of the model.
  \<^item> \<open>LegoServer\<close>, \<open>LegoServe\<close>, \<open>LegoOptions\<close>, \<open>LegoBatch\<close>, \<open>LegoReports\<close>, \<open>ProtocolClient\<close>, \<open>LegoPeers\<close>, \<open>LegoDemo\<close>: the
    two modes of \<open>legosim_main.cc\<close> and the two NPU programs: every round answers, the counters follow the
    trace, a batch reports every request once, command lines are read back, and the demonstration client
    and the server do not agree on the descriptor of their transfers.
  \<^item> \<open>IoGen\<close>, \<open>IoGenRun\<close>, \<open>TraceGen\<close>, \<open>TraceRun\<close>, \<open>IoGenDemo\<close>: the workload generator (\<open>igl/request\<close>) and the trace
    replayer (\<open>igl/trace\<close>) of the stand-alone simulator, as step relations with the engine and any device: the
    requests are submitted in order and within the depth, and the run stops when, and only when, all have completed.

  Fuel and bounds.  Loops of the C++ code that may not end carry fuel: the event loops (\<open>runEvents\<close>,
  \<open>batch_service\<close>), the rounds of the server (\<open>server_loop\<close>), the sampling of garbage-collection candidates (\<open>pm_sample\<close>),
  and reading from a FIFO (\<open>read_iter\<close>); the search of the flash scheduler (\<open>loop0\<close>, \<open>loop1\<close>) is a partial function
  with \<open>None\<close> for a search that does not end.  Where such a loop ends, this is proved: a request of the SSD
  needs some number \<open>n\<close> of events, and any larger fuel gives the same result; one call of \<open>read\<close> per
  byte suffices for a message; the search of the flash scheduler always returns.  Where it does not end (sampling more
  candidates than there are), that is proved as well.  The outer loop of the bridge is bounded by its number of rounds.

  Not modelled.  The front ends NVMe, SATA, UFS and open-channel SSD and the drivers and helpers that only they use:
  the programs of this repository are built on the driver without interface.  The configuration readers (the model takes their values as records), logging, statistics lists
  and energy figures.  Processes, threads and pipes of the bridge: a handler is atomic, as the mutex of the
  code makes it, and a round of the simulators is an argument of the outer loop.  McPAT, DRAMPower, inih, CLI11, spdlog,
  yaml-cpp and the patched files of gem5, GPGPU-Sim, Sniper and PopNet are third-party code.  The
  manifest lists each of these parts.
\<close>

text \<open>C1. Writing a page (writeInternal up to the collection) on a consistent FTL with open blocks and a free block always succeeds; it re-establishes the invariant (the mapping table and the valid bits of the blocks are inverse to each other), keeps an open block for every slot, maps each selected unit of the LPN to a slot that held no valid copy of another page, leaves every other mapping alone and never goes back in time.\<close>

theorem ftl_write_out_of_place:
  assumes "pm_inv (e_param E) s" and "lower_ok (e_low E)"
    and "bs_wf (f_ioFlag req)" "bs_dataSize (f_ioFlag req) = ioUnitInPage (e_param E)"
    and "pm_open (e_param E) s" "0 < pm_nFreeBlocks s"
  shows "\<exists>t s' w'. pm_writePages E req send tick s w = Inr (t, s', w') \<and> pm_inv (e_param E) s' \<and>
     pm_open (e_param E) s' \<and> (send \<longrightarrow> tick \<le> t) \<and>
     (\<forall>l i. \<not> (l = f_lpn req \<and> i < pm_bitsetSize s \<and> pm_selects s (f_ioFlag req) i) \<longrightarrow>
        logi (e_param E) (pm_table s') (l, i) = logi (e_param E) (pm_table s) (l, i)) \<and>
     (\<forall>i < pm_bitsetSize s. pm_selects s (f_ioFlag req) i \<longrightarrow>
        (\<exists>k p. logi (e_param E) (pm_table s') (f_lpn req, i) = Some (k, p) \<and>
           (phys (pm_blocks s) (k, p, i) = None \<or> phys (pm_blocks s) (k, p, i) = Some (f_lpn req))))"
proof -
  obtain t s' w' where "pm_writePages E req send tick s w = Inr (t, s', w')" "pm_inv (e_param E) s'"
    "pm_open (e_param E) s'" "pm_wrote (e_param E) req s s'" "send \<longrightarrow> tick \<le> t"
    using pm_writePages_ok[OF assms] by metis
  then show ?thesis unfolding pm_wrote_def by (intro exI[of _ t] exI[of _ s'] exI[of _ w'] conjI) simp_all
qed

theorem ftl_write_out_of_place_witness:
  "\<exists>s t s' w'. pm_new (demo_env 1 2) = Inr s \<and>
     pm_writePages (demo_env 1 2) (demo_req 0 [0, 1]) True 0 s () = Inr (t, s', w') \<and> pm_inv (demo_param 1 2) s'"
proof -
  obtain s where s: "pm_new (demo_env 1 2) = Inr s" "pm_inv (demo_param 1 2) s" "pm_open (demo_param 1 2) s"
    "0 < pm_nFreeBlocks s" by (rule demo_new[of 1 2]) simp_all
  then show ?thesis
    using ftl_write_out_of_place[of "demo_env 1 2" s "demo_req 0 [0, 1]" True 0 "()"] demo_env_ok(2) demo_req_ok[of 0 1]
    by auto
qed

text \<open>C2. Garbage collection of any list of distinct full blocks keeps the FTL consistent: exactly the same logical units are mapped afterwards (each to a valid copy of it), every victim has left the block map, and time does not go back. It holds for pages of at least two I/O units.\<close>

theorem ftl_collection_preserves_mapping:
  assumes "lower_ok (e_low E)" and "1 < ioUnitInPage (e_param E)"
    and "pm_doGarbageCollection E vs tick s w = Inr (t, s', w')"
    and "pm_inv (e_param E) s" and "distinct vs"
    and "\<forall>v \<in> set vs. \<exists>b. pm_blocks s v = Some b \<and> blk_full b"
  shows "pm_inv (e_param E) s' \<and> dom (logi (e_param E) (pm_table s')) = dom (logi (e_param E) (pm_table s)) \<and>
    (\<forall>v \<in> set vs. pm_blocks s' v = None) \<and> tick \<le> t"
proof -
  have "\<forall>v \<in> set vs. pm_drained s v 0" using assms(6) by (simp add: pm_drained_def blk_drained_def)
  then show ?thesis using pm_doGarbageCollection_ok[OF assms(1-5)] by blast
qed

theorem ftl_collection_preserves_mapping_witness:
  "\<exists>t s t' s' w'. pm_doGarbageCollection (demo_env 2 1) [0] t s () = Inr (t', s', w') \<and>
     pm_blocks s 0 \<noteq> None \<and> pm_blocks s' 0 = None \<and> pm_inv (demo_param 2 1) s'"
proof -
  obtain s0 t s w where s: "pm_new (demo_env 2 1) = Inr s0"
    "pm_writePages (demo_env 2 1) (demo_req 0 [0, 1]) True 0 s0 () = Inr (t, s, w)" "pm_inv (demo_param 2 1) s"
    by (rule demo_written[of 2 1]) simp_all
  from demo_collect_run[unfolded s(1) rbind.simps s(2) prod.case]
  obtain b t' s' w' where b: "pm_blocks s 0 = Some b" "blk_full b"
    and g: "pm_doGarbageCollection (demo_env 2 1) [0] t s w = Inr (t', s', w')"
    by (cases "pm_blocks s 0"; cases "pm_doGarbageCollection (demo_env 2 1) [0] t s w")
       (auto simp: rguard_def split: if_splits)
  show ?thesis
    using ftl_collection_preserves_mapping[OF demo_env_ok(2) _ g] s(3) b g by (cases w) fastforce
qed



text \<open>C4. Whatever commands the simulators send, in whatever order, in every state the bridge reaches from loaded delay information: no pending READ matches a pending WRITE, a barrier holds fewer commands than its count, a locked mutex has a recorded last command, and the traffic record and all delay orders are sorted by cycle.\<close>

theorem bridge_invariant:
  assumes "ds_inv ds" and "bridge_reach fs n (ss_new\<lparr>ss_delay := ds\<rparr>) s"
  shows "(\<forall>a. \<forall>x \<in> set (pend_list (co_read (ss_comm s)) a). \<forall>y \<in> set (pend_list (co_write (ss_comm s)) a).
            \<not> comm_match x y) \<and>
         (\<forall>u. barrierCmd u (ss_barrier s) = [] \<or>
            (\<exists>m. bar_count (ss_barrier s) u = Some m \<and> int (length (barrierCmd u (ss_barrier s))) < to_size m)) \<and>
         (\<forall>u. isLocked u (ss_lock s) \<longrightarrow> hasLastCmd u (ss_lock s)) \<and>
         (\<forall>u. isLocked u (ss_lock_t s) \<longrightarrow> hasLastCmd u (ss_lock_t s)) \<and>
         mm_sorted (ss_bench s) \<and> ds_inv (ss_delay s)"
proof -
  have "bridge_inv s" using bridge_reach_inv[OF assms(2) bridge_inv_start[OF assms(1)]] .
  then show ?thesis unfolding bridge_inv_def comm_sep_def bar_inv_def lk_inv_def bench_ok_def by blast
qed

theorem bridge_invariant_witness:
  "\<exists>s. waiting_writes (demo_cmd SC_WRITE 0 1 16 7) s \<noteq> [] \<and> mm_sorted (ss_bench s) \<and> ds_inv (ss_delay s)"
proof -
  obtain s where s: "bridge_reach demo_fs 1 ss_new s" "waiting_writes (demo_cmd SC_WRITE 0 1 16 7) s \<noteq> []"
    using demo_reach by blast
  have "bridge_reach demo_fs 1 (ss_new\<lparr>ss_delay := ds_new\<rparr>) s" using s(1) unfolding ss_new_delay[symmetric] .
  from bridge_invariant[OF ds_inv_new this] s(2) show ?thesis by blast
qed

text \<open>C5. READ and WRITE pairing refines two queues per kind of transfer (same nodes, size and descriptor): after any sequence of them, the waiting READs are those after the first as many as there were WRITEs, in order, and the other way round. So the i-th READ meets the i-th WRITE and never both kinds wait.\<close>

theorem bridge_transfers_fifo:
  assumes "run_cmds fs n cs s0 = Inr (o1, s)" and "\<forall>c \<in> set cs. is_read c \<or> plain_write c" and "ss_comm s0 = co_new"
  shows "waiting_reads k s = drop (length (filter (\<lambda>c. plain_write c \<and> comm_match k c) cs))
                                 (filter (\<lambda>c. is_read c \<and> comm_match k c) cs) \<and>
         waiting_writes k s = drop (length (filter (\<lambda>c. is_read c \<and> comm_match k c) cs))
                                  (filter (\<lambda>c. plain_write c \<and> comm_match k c) cs)"
  by (rule transfers_fifo[OF assms])

theorem bridge_transfers_fifo_witness:
  "\<exists>s. waiting_writes (demo_cmd SC_READ 0 1 16 8) s = [demo_cmd SC_WRITE 0 1 16 7]"
proof -
  let ?w = "demo_cmd SC_WRITE 0 1 16 7" and ?r = "demo_cmd SC_READ 0 1 16 8"
  obtain o1 s where run: "run_cmds demo_fs 1 [?w, ?w, ?r] ss_new = Inr (o1, s)"
    using demo_wait by (auto simp: out_of_Some)
  have "waiting_writes ?r s = drop 1 [?w, ?w]"
    using bridge_transfers_fifo[OF run, of ?r]
    by (simp add: is_read_def plain_write_def comm_match_def ss_new_def)
  then show ?thesis by auto
qed

text \<open>C6. A barrier of n participants answers nobody before the n-th BARRIER command has arrived, then answers all n in the order of arrival, and is empty again for the next use.\<close>

theorem bridge_barrier_releases_all:
  assumes "\<forall>c \<in> set cs. c_type c = SC_BARRIER \<and> uid_of c = u \<and> c_nbytes c = int (length cs)"
    and "cs \<noteq> []" and "int (length cs) \<le> INT_MAX" and "bar_inv (ss_barrier s)" and "barrierCmd u (ss_barrier s) = []"
  shows "(\<exists>s'. run_cmds fs n cs s = Inr (map (\<lambda>c. (c_stdin_fd c, sendResultCmd)) cs, s') \<and> barrierCmd u (ss_barrier s') = []) \<and>
     (\<forall>k < length cs. \<exists>s'. run_cmds fs n (take k cs) s = Inr ([], s') \<and> barrierCmd u (ss_barrier s') = take k cs)"
  by (rule barrier_run[OF assms])

theorem bridge_barrier_releases_all_witness:
  "\<exists>s'. run_cmds demo_fs 1 [demo_cmd SC_BARRIER 0 1 2 7, demo_cmd SC_BARRIER 3 1 2 8] ss_new =
     Inr ([(7, sendResultCmd), (8, sendResultCmd)], s')"
  using bridge_barrier_releases_all[of "[demo_cmd SC_BARRIER 0 1 2 7, demo_cmd SC_BARRIER 3 1 2 8]" 1 ss_new demo_fs 1]
  by (auto simp: INT_MAX_def ss_new_def bar_new_def barrierCmd_def bar_inv_def)

text \<open>C7. A request on an idle SSD refines one call of the ICL: the run through block entry, driver, processor, event queue, HIL and completion, interleaved with the periodic events of the DRAM and the flash array, ends after some number of events with what the direct relation allows (a fixed processor delay, one ICL call on the state the periodic events left, one request counted), and leaves the SSD idle with the client called back once at that tick; if the ICL fails, the run fails with its error.\<close>

theorem ssd_request_is_one_call:
  fixes S :: "('c, cache \<times> 'p dram \<times> pal_dev \<times> 'x, 's) ssd"
  assumes "ssd_quiet (device_low W refresh flush I) (e, S)" and "stack_ok I (sd_world S)" and "0 < dr_logicalPageSize D"
    and "prepare (max (en_simTick e) arrival) (sd_client S) = (b, s1)" and "\<not> fin (sd_client S)" and "\<not> fin s1"
    and "\<And>t. fin (invoke (b_callback b) (b_id b) t s1)"
  shows "\<exists>n res. (\<forall>m. ssd_serve (device_low W refresh flush I) D invoke (n + m) prepare fin arrival (e, S) = res) \<and>
    ssd_direct (device_low W refresh flush I) D (clockPeriod (sd_cpu S)) b arrival (ssd_view (e, S)) (map_sum id ssd_view res) \<and>
    (\<forall>z. res = Inr z \<longrightarrow> serve_left (device_low W refresh flush I) (stack_ok I) arrival (\<lambda>t. invoke (b_callback b) (b_id b) t s1) (e, S) z)"
  by (rule stack.serve_refines[where fin = fin and invoke = invoke and prepare = prepare, OF assms])

theorem ssd_request_is_one_call_witness:
  "\<exists>r f e S n z. ssd_quiet (demo_low r f) (e, S) \<and> en_simTick e = 0 \<and> fst (ssd_view z) = 1330 \<and>
     (\<forall>m. ssd_serve (demo_low r f) demo_driver (\<lambda>c i t s. True) (n + m) (\<lambda>t s. (run_bio (demo_request Op_Read 8 8) BIO_READ 100, False)) (\<lambda>s. s) 100 (e, S) = Inr z)"
proof -
  let ?b = "run_bio (demo_request Op_Read 8 8) BIO_READ 100"
  obtain r f e and S :: "(ssd_request \<times> nat, cache \<times> unit dram \<times> pal_dev \<times> nat list, bool) ssd"
    where q: "ssd_quiet (demo_low r f) (e, S)" "sd_world S = demo_world" "sd_client S = False" "en_simTick e = 0" "clockPeriod (sd_cpu S) = 2"
    by (rule demo_quiet)
  have h: "stack_ok lego_env (sd_world S)" "0 < dr_logicalPageSize demo_driver" "(?b, False) = (?b, False)" "\<not> sd_client S" "\<not> False"
    "\<And>t. (\<lambda>c i t s. True) (b_callback ?b) (b_id ?b) t False"
    using q(2,3) demo_stack by (simp_all add: demo_driver_def)
  obtain n res where run: "\<forall>m. ssd_serve (demo_low r f) demo_driver (\<lambda>c i t s. True) (n + m) (\<lambda>t s. (?b, False)) (\<lambda>s. s) 100 (e, S) = res"
    and d: "ssd_direct (demo_low r f) demo_driver (clockPeriod (sd_cpu S)) ?b 100 (ssd_view (e, S)) (map_sum id ssd_view res)"
    using ssd_request_is_one_call[where invoke = "\<lambda>c i t s. True" and fin = "\<lambda>s. s" and prepare = "\<lambda>t s. (?b, False)" and arrival = 100,
      OF q(1)[unfolded demo_low_def] h] unfolding demo_low_def by blast
  obtain v where "map_sum id ssd_view res = Inr (1330, v)"
    using demo_direct[of r f "hl_reqCount (sd_hil S)" "map_sum id ssd_view res"] d q(2,4,5) by (auto simp: ssd_view_def)
  then obtain z where "res = Inr z" "fst (ssd_view z) = 1330" by (cases res) auto
  then show ?thesis using run q(1,4) by blast
qed



text \<open>C9. The server from the construction of the SSD to its end, for any requests and any behaviour of the bridge: the SSD is idle after every run, the counters of the server are the ones its trace of requests accounts for, the exit code is 0, 4 or 5, and code 0 is reached only by a valid shutdown request, the last event of the trace.\<close>

theorem server_run_keeps_books:
  fixes I :: "('p dram \<times> pal_dev \<times> 'x) icl_env"
  assumes "sb_cores B = (hils, icls, ftls)" and "0 < hils" and "0 < snd (sb_lpn B)" and "stack_ok I w"
    and "legosim_runtime (\<lambda>r f. device_low W r f I) B fuel k opt s0 (io, w) = Inr (L, code, V, io', e', S')"
  shows "ssd_quiet L (e', S') \<and> stack_ok I (sd_world S') \<and> server_inv (wrap64 (fst (sb_lpn B) * snd (sb_lpn B))) V \<and> code \<in> {0, 4, 5} \<and>
    (code = 0 \<longrightarrow> (\<exists>l. sv_trace V \<noteq> [] \<and> l = last (sv_trace V) \<and> tr_event l = ''SSD_SHUTDOWN'' \<and> tr_cycle l = sv_cycle V \<and>
       validateRuntimeRequest (tr_request l) (wrap64 (fst (sb_lpn B) * snd (sb_lpn B))) = Success \<and> q_operation (tr_request l) = op_code Op_Shutdown))"
  using legosim_runtime_ok[OF assms] by blast

theorem server_run_keeps_books_witness:
  "\<exists>L V io' e' S'. legosim_runtime demo_low demo_build (Suc 0) (Suc 0) options_new (\<lparr>rn_submitted = 0, rn_completed = 0, rn_done = False, rn_trace = []\<rparr>)
      (demo_io (demo_request Op_Shutdown 0 0), demo_world) = Inr (L, 0, V, io', e', S') \<and> ssd_quiet L (e', S') \<and> server_inv 72 V"
proof -
  obtain L V io' e' S' where run: "legosim_runtime demo_low demo_build (Suc 0) (Suc 0) options_new (\<lparr>rn_submitted = 0, rn_completed = 0, rn_done = False, rn_trace = []\<rparr>)
      (demo_io (demo_request Op_Shutdown 0 0), demo_world) = Inr (L, 0, V, io', e', S')"
    by (rule demo_runtime)
  have "sb_cores demo_build = (1, 1, 1)" "(0 :: nat) < 1" "0 < snd (sb_lpn demo_build)" "stack_ok lego_env demo_world"
    using demo_stack by (simp_all add: demo_build_def)
  from server_run_keeps_books[OF this run[unfolded demo_low_def[abs_def]]] have "ssd_quiet L (e', S')" "server_inv 72 V"
    by (simp_all add: demo_build_def wrap64_def)
  then show ?thesis using run by blast
qed

text \<open>C10. Without recorded lock order a mutex serves its requests first come first served, one holder at a time: of LOCK commands from different sources only the first is answered; every UNLOCK is answered and answers exactly the oldest waiting LOCK, whose source becomes the holder; the mutex stays locked until nobody waits.\<close>

theorem bridge_lock_handover:
  assumes "c_type h = SC_LOCK" "uid_of h = u" "\<forall>c \<in> set ws. c_type c = SC_LOCK \<and> uid_of c = u \<and> c_src h \<noteq> c_src c"
    and "\<forall>c \<in> set us. c_type c = SC_UNLOCK \<and> uid_of c = u" "length us = length ws"
    and "no_lock_order s" "\<not> isLocked u (ss_lock s)" "lk_pending u (ss_lock s) = []"
  shows "\<exists>s'. run_cmds fs n ([h] @ ws @ us) s =
      Inr ((c_stdin_fd h, sendResultCmd) #
           concat (map (\<lambda>(x, w). [(c_stdin_fd x, sendResultCmd), (c_stdin_fd w, sendResultCmd)]) (zip us ws)), s') \<and>
    isLocked u (ss_lock s') \<and> getLastCmd u (ss_lock s') = Some (last (h # ws)) \<and> lk_pending u (ss_lock s') = []"
proof -
  obtain s1 where "handle_cmd fs n h s = Inr ([(c_stdin_fd h, sendResultCmd)], s1)"
    and s1: "lock_held u h [] s1" "no_lock_order s1" using lock_taken[OF assms(1,2,6-8)] by blast
  then have r1: "run_cmds fs n [h] s = Inr ([(c_stdin_fd h, sendResultCmd)], s1)"
    using run_cmds_snoc[of fs n "[]" h s] by simp
  obtain s2 where r2: "run_cmds fs n ws s1 = Inr ([], s2)" and s2: "lock_held u h ws s2" "no_lock_order s2"
    using locks_queue[OF assms(3) s1(2,1)] by blast
  obtain s3 where r3: "run_cmds fs n us s2 =
      Inr (concat (map (\<lambda>(x, w). [(c_stdin_fd x, sendResultCmd), (c_stdin_fd w, sendResultCmd)]) (zip us ws)), s3)"
    and s3: "lock_held u (last (h # ws)) [] s3"
    using unlocks_serve[OF assms(5,4) s2(2), of h "[]"] s2(1) by auto
  show ?thesis using run_cmds_append[OF r1 run_cmds_append[OF r2 r3]] s3 by (auto simp: lock_held_def)
qed

theorem bridge_lock_handover_witness:
  "\<exists>s'. run_cmds demo_fs 1 [demo_cmd SC_LOCK 0 1 0 7, demo_cmd SC_LOCK 2 1 0 8, demo_cmd SC_UNLOCK 0 1 0 7] ss_new =
     Inr ([(7, sendResultCmd), (7, sendResultCmd), (8, sendResultCmd)], s') \<and>
     getLastCmd 1 (ss_lock s') = Some (demo_cmd SC_LOCK 2 1 0 8)"
  using bridge_lock_handover[of "demo_cmd SC_LOCK 0 1 0 7" 1 "[demo_cmd SC_LOCK 2 1 0 8]" "[demo_cmd SC_UNLOCK 0 1 0 7]" ss_new demo_fs 1]
    demo_no_order(1)
  by (auto simp: ss_new_def lk_new_def isLocked_def lk_pending_def)

text \<open>C11. Constructing the page-mapping FTL on a drive with at least as many blocks as parallel slots succeeds and yields a consistent FTL with an empty table, an open block for every slot and the remaining blocks free.\<close>

theorem ftl_construction:
  assumes "ftl_param_ok (e_param E)" and "pageCountToMaxPerf (e_param E) \<le> totalPhysicalBlocks (e_param E)"
  shows "\<exists>s. pm_new E = Inr s \<and> pm_inv (e_param E) s \<and> pm_open (e_param E) s \<and> pm_table s = Map.empty \<and>
    pm_nFreeBlocks s = totalPhysicalBlocks (e_param E) - pageCountToMaxPerf (e_param E)"
  using pm_new_ok[OF assms] by blast

theorem ftl_construction_witness: "\<exists>s. pm_new (demo_env 2 1) = Inr s \<and> pm_nFreeBlocks s = 2"
  using ftl_construction[of "demo_env 2 1"] demo_env_ok(3) by auto

text \<open>C12. Reading any LPN from a consistent FTL succeeds (no mapped unit points to a block that is not in use), keeps the invariant, the mapping table and the physical contents, and never goes back in time.\<close>

theorem ftl_read_finds_mapped:
  assumes "lower_ok (e_low E)" and "pm_inv (e_param E) s"
  shows "\<exists>t s' w'. pm_readInternal E req tick s w = Inr (t, s', w') \<and> pm_inv (e_param E) s' \<and>
    pm_table s' = pm_table s \<and> phys (pm_blocks s') = phys (pm_blocks s) \<and> tick \<le> t"
  using pm_readInternal_ok[OF assms] by blast

theorem ftl_read_finds_mapped_witness:
  "\<exists>s t s' w'. pm_inv (demo_param 1 2) s \<and> pm_readInternal (demo_env 1 2) (demo_req 0 [0, 1]) 0 s () = Inr (t, s', w') \<and>
     pm_table s' = pm_table s \<and> pm_table s 0 \<noteq> None"
proof -
  obtain s0 t s w where s: "pm_writePages (demo_env 1 2) (demo_req 0 [0, 1]) True 0 s0 () = Inr (t, s, w)"
    "pm_inv (demo_param 1 2) s" "pm_wrote (demo_param 1 2) (demo_req 0 [0, 1]) s0 s"
    by (rule demo_written[of 1 2]) simp_all
  have "0 \<in> dom (pm_table s)" using s(3) by (simp add: pm_wrote_def)
  then have "pm_table s 0 \<noteq> None" by blast
  then show ?thesis
    using ftl_read_finds_mapped[of "demo_env 1 2" s "demo_req 0 [0, 1]" 0 "()"] demo_env_ok(2) s(2) by auto
qed

text \<open>C13. Trimming an LPN all of whose units are mapped succeeds, removes exactly the table entry of that LPN and keeps the FTL consistent: its copies become invalid and no other page is touched.\<close>

theorem ftl_trim_removes_page:
  assumes "lower_ok (e_low E)" and "pm_inv (e_param E) s"
    and "\<forall>i < pm_bitsetSize s. logi (e_param E) (pm_table s) (f_lpn req, i) \<noteq> None"
  shows "\<exists>t s' w'. pm_trimInternal E req tick s w = Inr (t, s', w') \<and> pm_inv (e_param E) s' \<and>
    pm_table s' = (pm_table s)(f_lpn req := None) \<and> tick \<le> t"
  using pm_trimInternal_ok[OF assms] by blast

theorem ftl_trim_removes_page_witness:
  "\<exists>s t s' w'. pm_table s 0 \<noteq> None \<and> pm_trimInternal (demo_env 1 2) (demo_req 0 [0, 1]) 0 s () = Inr (t, s', w') \<and>
     pm_table s' 0 = None"
proof -
  obtain s0 t s w where s: "pm_writePages (demo_env 1 2) (demo_req 0 [0, 1]) True 0 s0 () = Inr (t, s, w)"
    "pm_inv (demo_param 1 2) s" "pm_wrote (demo_param 1 2) (demo_req 0 [0, 1]) s0 s" "pm_bRandomTweak s0"
    "pm_inv (demo_param 1 2) s0"
    by (rule demo_written[of 1 2]) simp_all
  have "0 \<in> dom (pm_table s)" using s(3) by (simp add: pm_wrote_def)
  then have ne: "pm_table s 0 \<noteq> None" by blast
  have "pm_bitsetSize s0 = 2" using s(4,5) by (simp add: pm_inv_def pm_shape_def)
  moreover have "bs_test (f_ioFlag (demo_req 0 [0, 1])) i" if "i < 2" for i
    using that bs_new_wf[of 2] by (auto simp: demo_req_def less_2_cases_iff)
  ultimately have "\<forall>i < pm_bitsetSize s. logi (demo_param 1 2) (pm_table s) (0, i) \<noteq> None"
    using s(3) by (auto simp: pm_wrote_def pm_selects_def)
  then show ?thesis
    using ftl_trim_removes_page[of "demo_env 1 2" s "demo_req 0 [0, 1]" 0 "()"] demo_env_ok(2) s(2) ne by auto
qed

text \<open>C14. Block::write on a slot in range panics on a programmed slot and on an out-of-order page, and otherwise programs exactly that slot: it becomes valid, owned by the LPN and no longer erased, the write pointer moves just past it, every other slot keeps its state, and the NAND discipline (no slot both valid and erased, everything above the pointer erased) is kept.\<close>

theorem block_write_contract:
  assumes "blk_inv b" and "p < b_pageCount b" and "i < b_ioUnitInPage b"
  shows "(\<not> blk_erased b p i \<longrightarrow> blk_write b p l i t = Inl (Panic ''Write to non erased page'')) \<and>
     (blk_erased b p i \<and> p < blk_next b i \<longrightarrow> blk_write b p l i t = Inl (Panic ''Write to block should sequential'')) \<and>
     (blk_erased b p i \<and> blk_next b i \<le> p \<longrightarrow> (\<exists>b'. blk_write b p l i t = Inr (True, b') \<and> blk_inv b' \<and>
        blk_getLastAccessedTime b' = t \<and>
        (\<forall>q < b_pageCount b. \<forall>j < b_ioUnitInPage b.
           blk_valid b' q j = (blk_valid b q j \<or> q = p \<and> j = i) \<and>
           blk_erased b' q j = (blk_erased b q j \<and> \<not> (q = p \<and> j = i)) \<and>
           blk_lpn b' q j = (if q = p \<and> j = i then l else blk_lpn b q j) \<and>
           blk_next b' j = (if j = i then Suc p else blk_next b j))))"
  using assms blk_write_eq[OF blk_inv_rep[OF assms(1)] assms(2,3), of l t]
    blk_program_inv[OF assms, of l t] blk_program_obs[OF blk_inv_rep[OF assms(1)] assms(2,3)]
  by (auto simp: blk_getLastAccessedTime_def)

theorem block_write_contract_witness:
  "\<exists>b b'. blk_write b 0 7 1 5 = Inr (True, b') \<and> blk_valid b' 0 1 \<and> blk_lpn b' 0 1 = 7"
proof -
  obtain b where b: "blk_inv b" "b_pageCount b = 2" "b_ioUnitInPage b = 2"
    "\<And>p i. p < 2 \<Longrightarrow> i < 2 \<Longrightarrow> blk_erased b p i" "\<And>i. i < 2 \<Longrightarrow> blk_next b i = 0"
    by (rule blk_new_ok[of 2 2 0]) auto
  have h: "0 < b_pageCount b" "1 < b_ioUnitInPage b" "blk_erased b 0 1 \<and> blk_next b 1 \<le> 0" using b by auto
  from block_write_contract[OF b(1) h(1,2), of 7 5, THEN conjunct2, THEN conjunct2, THEN mp, OF h(3)]
  obtain b' where w: "blk_write b 0 7 1 5 = Inr (True, b')" and o: "\<forall>q < b_pageCount b. \<forall>j < b_ioUnitInPage b.
      blk_valid b' q j = (blk_valid b q j \<or> q = 0 \<and> j = 1) \<and> blk_erased b' q j = (blk_erased b q j \<and> \<not> (q = 0 \<and> j = 1)) \<and>
      blk_lpn b' q j = (if q = 0 \<and> j = 1 then 7 else blk_lpn b q j) \<and> blk_next b' j = (if j = 1 then Suc 0 else blk_next b j)"
    by blast
  then have "blk_valid b' 0 1 \<and> blk_lpn b' 0 1 = 7" using h(1,2) by simp
  with w show ?thesis by blast
qed



text \<open>C16. For every cache the constructor builds and every history of reads, writes, flushes, trims and formats, every valid line lies in the set of its tag, no address is cached twice, and no eviction is left pending.\<close>

theorem cache_history_inv:
  assumes "cache_param_of cf pg maxPerf ioUnit = Inr p" and "cc_readCache cf \<or> cc_writeCache cf" and "0 < maxPerf"
    and "maxPerf * ioUnit < 2 ^ 32" and "cc_cacheSize cf div lineSize p < 2 ^ 32"
    and "cache_history p L ops (t, cache_new p, w) = Inr (t', k, w')"
  shows "cache_inv p k"
proof -
  have geo: "geometry_ok p" by (rule cache_param_geometry[OF assms(1-5)])
  have "cache_inv p (fst (snd s'))"
    if "rfold (cache_do p L) ops s = Inr s'" "cache_inv p (fst (snd s))" for s s'
  proof (rule rfold_invariant[where P = "\<lambda>s. cache_inv p (fst (snd s))", OF that])
    show "cache_inv p (fst (snd s2))" if "cache_inv p (fst (snd s1))" "cache_do p L x s1 = Inr s2" for x s1 s2
      using that cache_do_inv[OF _ _ geo] by (cases s1; cases s2) fastforce
  qed
  from this[OF assms(6)[unfolded cache_history_def]] cache_new_inv show ?thesis by simp
qed

theorem cache_history_inv_witness:
  "\<exists>p t k w. cache_param_of small_conf 8 1 1 = Inr p \<and>
     cache_history p low_log [KWrite (small_req 1 4), KWrite (small_req 2 4)] (0, cache_new p, []) = Inr (t, k, w) \<and> cache_inv p k"
proof -
  obtain t k w where run: "cache_history (small_param 1) low_log [KWrite (small_req 1 4), KWrite (small_req 2 4)]
      (0, cache_new (small_param 1), []) = Inr (t, k, w)"
    using small_cache_runs(3) by (elim run_view_InrE)
  have "lineSize (small_param 1) = 8" by (simp add: small_param_def)
  then have "cache_inv (small_param 1) k"
    using cache_history_inv[OF small_conf_param _ _ _ _ run] by (simp add: small_conf_def)
  then show ?thesis using small_conf_param run by blast
qed

text \<open>C17. The cycles a transfer ends at are causal in double arithmetic: the reader never gets a cycle before its own READ or before the WRITE, the writer of a plain transfer never one before its WRITE, and consuming the delay item keeps the delay information well-formed.\<close>

theorem bridge_end_cycle_bounds:
  assumes "getEndCycle w r ds = Inr ((we, re), ds')" and "ds_inv ds"
    and "cycle_ok (c_cycle w)" "cycle_ok (c_cycle r)" "0 \<le> c_nbytes w"
  shows "fl_le (c_cycle w) re \<and> fl_le (c_cycle r) re \<and>
         (c_desc w AND sync_flags = 0 \<longrightarrow> fl_le (c_cycle w) we) \<and> ds_inv ds'"
  using getEndCycle_bounds[OF assms] by blast

theorem bridge_end_cycle_bounds_witness:
  "\<exists>ds ds'. getEndCycle (demo_cmd SC_WRITE 0 1 16 7) (demo_cmd SC_READ 0 1 16 8) ds = Inr ((Fin 7, Fin 9), ds') \<and>
     fl_le (Fin 4) (Fin 9) \<and> ds_inv ds'"
proof -
  obtain ds ds' where d: "loadDelayInfo (Some demo_delay_text) (Fin 1) 2 ds_new = Inr ds"
    "getEndCycle (demo_cmd SC_WRITE 0 1 16 7) (demo_cmd SC_READ 0 1 16 8) ds = Inr ((Fin 7, Fin 9), ds')"
    using demo_load by blast
  have "ds_inv ds" by (rule loadDelayInfo_inv[OF d(1)]) simp_all
  from bridge_end_cycle_bounds[OF d(2) this] d(2) show ?thesis by auto
qed

text \<open>C18. With lower layers that answer before the largest tick, a cached write always succeeds (in particular it never ends in the panic Cache corrupted!), keeps the invariant and leaves its address cached.\<close>

theorem cache_write_always_fits:
  assumes "geometry_ok p" and "cache_inv p k" and "useWriteCaching p" and "\<forall>r. answers T (b_ftl_write L r)"
    and "\<forall>q n. answers T (b_dram_write L q n)" and "T < U64MAX" and "stamps_ok p T k" and "write_bound p tick \<le> T"
  shows "\<exists>h t k' w'. cache_write p L req tick k w = Inr (h, t, k', w') \<and> cache_inv p k' \<and> cached p k' (slpn (i_range req))"
proof -
  obtain h t k' w' where run: "cache_write p L req tick k w = Inr (h, t, k', w')" using cache_write_total[OF assms] by blast
  show ?thesis using run cache_write_ok[OF run assms(2,1)] assms(3) by blast
qed

theorem cache_write_always_fits_witness:
  "\<exists>h t k w. cache_write (small_param 1) low_log (small_req 2 4) 21 (cache_new (small_param 1)) [] = Inr (h, t, k, w) \<and>
     cached (small_param 1) k 2"
proof -
  have "stamps_ok (small_param 1) 1000 (cache_new (small_param 1))" by (rule cache_new_stamps)
  moreover have "write_bound (small_param 1) 21 \<le> 1000" by (simp add: write_bound_def small_param_def meta_time_def)
  moreover have "useWriteCaching (small_param 1)" by (simp add: small_param_def)
  ultimately show ?thesis
    using cache_write_always_fits[OF small_geometry[of 1] cache_new_inv, of 1000 low_log 21 "small_req 2 4" "[]"] low_log_answers
    by (auto simp: small_req_def)
qed

text \<open>C19. Over any history of reads, writes, erases and flushes of the flash array, starting from the constructor, every call returns, no two operations use a channel for a transfer at the same tick, and no two operations occupy a die at the same tick.\<close>

theorem flash_no_overlap:
  assumes "device_conf c A g" and "PALOLD_new c = Inr d" and "\<forall>call \<in> set calls. call_ok A g call"
  shows "\<exists>d'. rfold (pal_step c A junk) calls d = Inr d' \<and>
    length (pd_log d') = pd_reads d' + pd_writes d' + pd_erases d' \<and>
    (\<forall>i j ch die ts ch' die' ts'. i < j \<longrightarrow> j < length (pd_log d') \<longrightarrow> pd_log d' ! i = (ch, die, ts) \<longrightarrow> pd_log d' ! j = (ch', die', ts') \<longrightarrow>
       (ch < qc_channel c \<and> ch = ch' \<longrightarrow> (ticks (ts_dma0 ts) \<union> ticks (ts_dma1 ts)) \<inter> (ticks (ts_dma0 ts') \<union> ticks (ts_dma1 ts')) = {}) \<and>
       (die < qc_channel c * qc_package c * qc_die c \<and> die = die' \<longrightarrow> ticks (ts_mem ts) \<inter> ticks (ts_mem ts') = {}))"
proof -
  obtain d' where "rfold (pal_step c A junk) calls d = Inr d'" "dev_inv c d'" using pal_history_ok[OF assms, of junk] by blast
  then show ?thesis using conjI[OF _ log_apart] by (intro exI[of _ d'])
qed

theorem flash_no_overlap_witness:
  "\<exists>d d'. PALOLD_new flash_demo_pal2 = Inr d \<and> rfold (pal_step flash_demo_pal2 flash_demo_address flash_demo_junk)
      [PalIo OPER_WRITE (flash_demo_request 0 0) 0, PalIo OPER_READ (flash_demo_request 0 0) 0, PalFlush 100000000000, PalIo OPER_ERASE (flash_demo_request 1 0) 5] d = Inr d' \<and>
    length (pd_log d') = pd_reads d' + pd_writes d' + pd_erases d'"
proof -
  obtain d where "PALOLD_new flash_demo_pal2 = Inr d" using flash_demo_new by blast
  then show ?thesis
    using flash_no_overlap[OF flash_demo_device, of d "[PalIo OPER_WRITE (flash_demo_request 0 0) 0, PalIo OPER_READ (flash_demo_request 0 0) 0, PalFlush 100000000000, PalIo OPER_ERASE (flash_demo_request 1 0) 5]" flash_demo_junk]
    by (auto simp: call_ok_def flash_demo_request_ok)
qed

text \<open>C20. A read, write or erase of a super-page always returns: the search ends for every unit, each unit starts at or after the tick of the request, its first transfer, its array time and its second transfer follow one another with the latencies of the flash, and the request ends with the last unit.\<close>

theorem flash_io_served:
  assumes "device_conf c A g" and "dev_inv c d" and "request_ok A g req"
  shows "\<exists>xs tss d'. convertCPDPBP A junk req = Inr xs \<and> length tss = length xs \<and>
    pal_io c A junk oper req tick d = Inr (fold (\<lambda>ts t. max t (snd (ts_dma1 ts))) tss tick, d') \<and> dev_inv c d' \<and>
    pd_log d' = pd_log d @ map (\<lambda>(x, ts). (ad_Channel x, CPDPBPtoDieIdx (ac_pal A) x, ts)) (zip xs tss) \<and>
    (\<forall>(x, ts) \<in> set (zip xs tss). let lat = GetLatency (qc_type c) (qc_timing c) (ad_Page x) oper in
       tick \<le> fst (ts_dma0 ts) \<and> snd (ts_dma0 ts) + 1 = fst (ts_dma0 ts) + lat BUSY_DMA0 \<and>
       snd (ts_dma0 ts) + lat BUSY_MEM < fst (ts_dma1 ts) \<and> snd (ts_dma1 ts) + 1 = fst (ts_dma1 ts) + lat BUSY_DMA1)"
  by (rule pal_io_served[OF assms])

theorem flash_io_served_witness:
  "\<exists>d fin d'. pal_io flash_demo_pal2 flash_demo_address flash_demo_junk OPER_READ (flash_demo_request 3 5) 1000 d = Inr (fin, d')"
proof -
  obtain d where "PALOLD_new flash_demo_pal2 = Inr d" using flash_demo_new by blast
  then have "dev_inv flash_demo_pal2 d" using flash_demo_device by (rule PALOLD_new_ok)
  from flash_io_served[OF flash_demo_device this flash_demo_request_ok[of 3 5], of flash_demo_junk OPER_READ 1000] show ?thesis by auto
qed

text \<open>C21. A block number and page number become distinct addresses inside the array, one per page of the super-page when all I/O flags are set; two different super-pages have no address in common.\<close>

theorem flash_conversion_exact:
  assumes "conf_ok A g" and "request_ok A g q" and "request_ok A g q'"
  shows "\<exists>l l'. convertCPDPBP A junk q = Inr l \<and> convertCPDPBP A junk' q' = Inr l' \<and> distinct l \<and>
    (\<forall>x \<in> set l. ad_Channel x < pc_channel (ac_pal A) \<and> ad_Package x < pc_package (ac_pal A) \<and> ad_Die x < pc_die (ac_pal A) \<and>
       ad_Plane x < pc_plane (ac_pal A) \<and> ad_Block x < pc_block (ac_pal A) \<and> ad_Page x < pc_page (ac_pal A)) \<and>
    (bs_size (p_ioFlag q) = ac_pageInSuperPage A \<and> (\<forall>k < ac_pageInSuperPage A. bs_test (p_ioFlag q) k) \<longrightarrow> length l = ac_pageInSuperPage A) \<and>
    ((p_blockIndex q, p_pageIndex q) \<noteq> (p_blockIndex q', p_pageIndex q') \<longrightarrow> set l \<inter> set l' = {})"
  by (rule convert_exact[OF assms])

theorem flash_conversion_exact_witness:
  "\<exists>l l'. convertCPDPBP flash_demo_address flash_demo_junk (flash_demo_request 3 5) = Inr l \<and>
     convertCPDPBP flash_demo_address flash_demo_junk (flash_demo_request 4 5) = Inr l' \<and> set l \<inter> set l' = {}"
  using flash_conversion_exact[OF flash_demo_conf flash_demo_request_ok[of 3 5] flash_demo_request_ok[of 4 5], of flash_demo_junk flash_demo_junk]
  by (auto simp: flash_demo_request_def)

text \<open>C22. The search through the buckets of free slots, which skips the buckets of too short slots, finds what a search through all free slots would: a slot that holds the interval now, else the earliest later start of a slot that is long enough, else nothing.\<close>

theorem flash_search_earliest:
  assumes "table_ok T sp" and "0 < len"
  shows "case FindFreeTime T len from of
      None \<Rightarrow> \<forall>t \<ge> from. \<not> fits (slots_of T) len t
    | Some (s, False) \<Rightarrow> \<exists>f \<in> slots_of T. fst f = s \<and> s \<le> from \<and> from + len \<le> snd f + 1
    | Some (s, True) \<Rightarrow> from < s \<and> fits (slots_of T) len s \<and> (\<forall>t. from \<le> t \<longrightarrow> t < s \<longrightarrow> \<not> fits (slots_of T) len t)"
  using FindFreeTime_spec[OF assms, of "from"] by (auto simp: find_spec_def fits_def split: option.splits bool.splits)

theorem flash_search_earliest_witness: "FindFreeTime flash_demo_table 5 12 = Some (30, True)"
proof -
  have t: "slots_of flash_demo_table = {(10, 14), (30, 44)}" "table_ok flash_demo_table 100"
    by (auto simp: flash_demo_table_def table_ok_def filed_def slots_of_def slot_len_def disjoint_slots_def)
  have f: "fits (slots_of flash_demo_table) 5 t \<longleftrightarrow> t = 10 \<or> 30 \<le> t \<and> t \<le> 40" for t unfolding t(1) fits_def by auto
  note s = flash_search_earliest[OF t(2), of 5 12]
  show ?thesis
  proof (cases "FindFreeTime flash_demo_table 5 12")
    case None
    then show ?thesis using s f[of 30] by auto
  next
    case (Some r)
    obtain x b where r: "r = (x, b)" by (cases r)
    show ?thesis
    proof (cases b)
      case True
      then have "12 < x" "x = 10 \<or> 30 \<le> x \<and> x \<le> 40" "\<not> 30 < x" using s f[of 30] f[of x] Some r by auto
      then have "x = 30" by linarith
      then show ?thesis using True Some r by simp
    next
      case False
      then show ?thesis using s Some r t(1) by auto
    qed
  qed
qed

text \<open>C23. A request that is no I/O inside the capacity is answered with the status of its check and no times, the SSD is untouched, and the server goes on, or ends when the request is a valid shutdown.\<close>

theorem server_declines_request:
  assumes "round_env p p' q arrival ret ms io" and "requestWireBytes q \<le> nat INT_MAX" and "responseWireBytes q \<le> nat INT_MAX"
    and "\<not> io_request q capacity"
  shows "\<exists>V' io'. server_round C opt capacity (V, io, e, S) =
      Inr (if validateRuntimeRequest q capacity = Success then Finished else Again, V', io', e, S) \<and>
    sv_cycle V' = max (max (sv_cycle V) arrival) ret \<and> io_reads io' = ms \<and>
    io_sent io' = (io_sent io)(p' := io_sent io p' @ response_bytes \<lparr>a_magic = kSsdIpcMagic, a_version = kSsdIpcVersion,
      a_status = status_code (validateRuntimeRequest q capacity), a_id = q_id q, a_submitted = 0, a_completed = 0\<rparr>)"
  by (rule server_round_declines[OF assms])

theorem server_declines_request_witness:
  "\<forall>x. \<exists>V' io'. server_round batch_demo_conf options_new 8 (server_new, demo_io (demo_request Op_Read 8 8), x) = Inr (Again, V', io', x) \<and>
     io_sent io' ''b'' = response_bytes \<lparr>a_magic = kSsdIpcMagic, a_version = kSsdIpcVersion, a_status = status_code InvalidRange, a_id = 1, a_submitted = 0, a_completed = 0\<rparr>"
proof
  fix x
  let ?q = "demo_request Op_Read 8 8"
  have v: "validateRuntimeRequest ?q 8 = InvalidRange" "q_id ?q = 1" by code_simp+
  have "round_env ''a'' ''b'' ?q 100 700 [] (demo_io ?q)" using demo_round[OF demo_request_reads(3), where s = "[]"] by (simp add: demo_io_def)
  from server_declines_request[OF this demo_request_reads(4,5), of 8 batch_demo_conf options_new server_new "fst x" "snd x"] v
  show "\<exists>V' io'. server_round batch_demo_conf options_new 8 (server_new, demo_io ?q, x) = Inr (Again, V', io', x) \<and>
     io_sent io' ''b'' = response_bytes \<lparr>a_magic = kSsdIpcMagic, a_version = kSsdIpcVersion, a_status = status_code InvalidRange, a_id = 1, a_submitted = 0, a_completed = 0\<rparr>"
    by (cases x) (auto simp: io_request_def demo_io_def)
qed





text \<open>C26. The trace replayer in each of its timing modes, through any behaviour of the device: the requests submitted are those of the lines that match, in the order of the file, numbered from 1, up to the limit; the simulation is stopped exactly when all of them are submitted and completed, until then a request is outstanding or the next submission is scheduled, and every completion returns.\<close>

theorem trace_replayed_in_order:
  assumes new: "tr_new C file e0 = Inr (g, e)" and e0: "engine_inv e0" "\<not> en_forceStop e0" "\<forall>i. stat = Some i \<longrightarrow> i \<in> set (en_list e0)"
    and small: "length (trace_matches m file False) < 18446744073709551615" "0 < tc_maxQueueDepth C"
    and sub: "device (tr_submitEvent g) sub" and run: "tr_begin (end_simulation stat) m sub (e, g, [], []) = Inr x"
      "(tr_step (end_simulation stat) m)\<^sup>*\<^sup>* x (e', g', out, subs)"
  shows "length subs \<le> tr_total C (trace_matches m file False) \<and> map b_id subs = map Suc [0..<length subs] \<and>
    (\<forall>k < length subs. \<exists>d. parse_groups C (trace_matches m file False ! k) = Inr d \<and> asks d (subs ! k)) \<and>
    distinct out \<and> set out \<subseteq> {1..length subs} \<and>
    (en_forceStop e' \<longleftrightarrow> length subs = tr_total C (trace_matches m file False) \<and> out = []) \<and>
    (\<not> en_forceStop e' \<longrightarrow> out \<noteq> [] \<or> isEventExist (tr_submitEvent g) (en_queue e') \<noteq> None) \<and>
    (\<forall>i \<in> set out. \<exists>z. tr_iocallback (end_simulation stat) (e', g') = Inr z)"
proof -
  let ?Ms = "trace_matches m file False"
  obtain e1 g1 w1 where x: "x = (e1, g1, w1)" by (metis surj_pair)
  have inv: "tr_inv C m ?Ms (tr_submitEvent g) stat (e', g', out, subs)"
    by (rule tr_steps_ok[OF small run(2) tr_begin_ok[OF new e0 small sub run(1)[unfolded x], folded x]])
  have cb: "\<forall>i \<in> set out. \<exists>z. tr_iocallback (end_simulation stat) (e', g') = Inr z"
  proof
    fix i assume "i \<in> set out"
    moreover from this have "\<not> en_forceStop e'" using inv by (auto simp: tr_inv_def)
    ultimately show "\<exists>z. tr_iocallback (end_simulation stat) (e', g') = Inr z" using tr_callback_ok[OF small] inv by blast
  qed
  have I: "tr_books C ?Ms g' (out, subs)" "if tr_reserve g' then length subs = tr_total C ?Ms else tr_next C m ?Ms (length subs) g'" "tr_depth C g' out"
    "en_forceStop e' \<longleftrightarrow> tr_reserve g' \<and> out = []" "\<not> en_forceStop e' \<longrightarrow> (isEventExist (tr_submitEvent g) (en_queue e') \<noteq> None \<longleftrightarrow> tr_due C g' out)"
    using inv by (simp_all add: tr_inv_def)
  have s: "en_forceStop e' \<longleftrightarrow> length subs = tr_total C ?Ms \<and> out = []" using I(2,4) by (auto simp: tr_next_def split: if_splits)
  have l: "out \<noteq> [] \<or> isEventExist (tr_submitEvent g) (en_queue e') \<noteq> None" if "\<not> en_forceStop e'"
    using I(3,4,5) that small(2) by (auto simp: tr_depth_def tr_due_def)
  have "length subs \<le> tr_total C ?Ms \<and> map b_id subs = map Suc [0..<length subs] \<and>
    (\<forall>k < length subs. \<exists>d. parse_groups C (?Ms ! k) = Inr d \<and> asks d (subs ! k)) \<and> distinct out \<and> set out \<subseteq> {1..length subs}"
    using I(1) by (simp add: tr_books_def)
  then show ?thesis using s l cb by blast
qed

theorem trace_replayed_in_order_witness:
  "case rbind (tr_new trace_demo trace_demo_file engine_new) (\<lambda>(g, e). tr_begin (end_simulation None) demo_match note_bio (e, g, [], [])) of
     Inl _ \<Rightarrow> False
   | Inr (e, g, out, subs) \<Rightarrow> map b_id subs = [1] \<and> out = [1] \<and> \<not> en_forceStop e \<and>
       (\<exists>d. parse_groups trace_demo [''W,0'', ''W'', ''0'', ''8''] = Inr d \<and> asks d (hd subs))"
proof -
  obtain g e where n: "tr_new trace_demo trace_demo_file engine_new = Inr (g, e)"
    using trace_demo_begins by (cases "tr_new trace_demo trace_demo_file engine_new") auto
  obtain e1 g1 b where x: "tr_begin (end_simulation None) demo_match note_bio (e, g, [], []) = Inr (e1, g1, [1], [b])" "b_id b = 1"
    using trace_demo_begins n by (cases "tr_begin (end_simulation None) demo_match note_bio (e, g, [], [])") auto
  have en: "engine_inv engine_new" "\<not> en_forceStop engine_new" by (simp_all add: engine_new_def engine_inv_def queue_ok_def)
  have sm: "length (trace_matches demo_match trace_demo_file False) < 18446744073709551615" "0 < tc_maxQueueDepth trace_demo"
    by (simp_all add: trace_demo_matches trace_demo_def)
  note T = trace_replayed_in_order[OF n en _ sm note_bio_device x(1) rtranclp.rtrancl_refl]
  have "(\<forall>k < length [b]. \<exists>d. parse_groups trace_demo (trace_matches demo_match trace_demo_file False ! k) = Inr d \<and> asks d ([b] ! k)) \<and> \<not> en_forceStop e1"
    using T by simp
  then show ?thesis using n x by (simp add: trace_demo_matches)
qed

text \<open>C27. A read gives the same result whatever the FTL does on a write: it never writes. The dirty line a read miss evicts is therefore lost; the witness runs a partial write of page 1 and a read of page 2 on a one-line cache, after which page 1 is neither cached nor written.\<close>

theorem cache_read_never_writes:
  assumes "cache_inv p k" and "geometry_ok p"
  shows "cache_read p (L\<lparr>b_ftl_write := g\<rparr>) req tick k w = cache_read p L req tick k w"
  by (rule cache_read_no_write[OF assms])

theorem cache_read_never_writes_witness:
  "cache_read (small_param 1) (low_log\<lparr>b_ftl_write := (\<lambda>r t w. Inl (Panic []))\<rparr>) (small_req 2 8) 0 (cache_new (small_param 1)) [] =
     cache_read (small_param 1) low_log (small_req 2 8) 0 (cache_new (small_param 1)) [] \<and>
   run_view (cache_history (small_param 1) low_log [KWrite (small_req 1 4), KRead (small_req 2 8)] (0, cache_new (small_param 1), [])) =
     Inr (53, [(2, False, False)], [])"
  using cache_read_never_writes[OF cache_new_inv small_geometry[of 1], where L = low_log and g = "\<lambda>r t w. Inl (Panic [])"]
    small_cache_runs(2) by simp





text \<open>C30. A request written into a FIFO is the request read from it at the other end, whatever number of bytes the system moves per call, and the reader is left with what follows.\<close>

theorem ipc_request_delivered:
  assumes "request_fits q" and "steady (io_takes io p)" and "32 \<le> length (io_takes io p)"
  shows "\<exists>io'. pipe_write p (request_bytes q) io = Inr (32, io') \<and>
    (\<forall>io2 rest. io_steady p 32 io2 \<longrightarrow> io_sent io p @ io_pending p io2 = io_sent io' p @ rest \<longrightarrow>
       (\<exists>bs io2'. pipe_read p 32 io2 = Inr (bs, io2') \<and> request_of_bytes bs = q \<and> io_pending p io2' = rest))"
proof -
  have len: "length (request_bytes q) \<le> length (io_takes io p)" using assms(3) by simp
  obtain io' where w: "pipe_write p (request_bytes q) io = Inr (32, io')" "io_sent io' = (io_sent io)(p := io_sent io p @ request_bytes q)"
    using pipe_write_ok[OF assms(2) len] by auto
  show ?thesis
  proof (intro exI[of _ io'] conjI allI impI)
    fix io2 rest assume r: "io_steady p 32 io2" "io_sent io p @ io_pending p io2 = io_sent io' p @ rest"
    show "\<exists>bs io2'. pipe_read p 32 io2 = Inr (bs, io2') \<and> request_of_bytes bs = q \<and> io_pending p io2' = rest"
      using message_delivered[OF len assms(2), of io2 rest] r w(2) request_round_trip[OF assms(1)] by auto
  qed (rule w(1))
qed

theorem ipc_request_delivered_witness:
  "\<exists>io' io2'. pipe_write ''a'' (request_bytes (demo_request Op_Read 8 8)) (demo_io (demo_request Op_Read 8 8)) = Inr (32, io') \<and>
     pipe_read ''a'' 32 (demo_io (demo_request Op_Read 8 8)) = Inr (request_bytes (demo_request Op_Read 8 8), io2')"
proof -
  let ?q = "demo_request Op_Read 8 8"
  have r: "io_steady ''a'' 32 (demo_io ?q)" "io_pending ''a'' (demo_io ?q) = request_bytes ?q" "io_sent (demo_io ?q) ''a'' = []"
    using demo_round[OF demo_request_reads(3)[of Op_Read], where s = "[]"] by (auto simp: demo_io_def round_env_def io_pending_def pending_def io_unit_def pipe_unit_new_def)
  obtain io' where w: "pipe_write ''a'' (request_bytes ?q) (demo_io ?q) = Inr (32, io')"
    "\<And>io2 rest. io_steady ''a'' 32 io2 \<Longrightarrow> io_sent (demo_io ?q) ''a'' @ io_pending ''a'' io2 = io_sent io' ''a'' @ rest \<Longrightarrow>
       \<exists>bs io2'. pipe_read ''a'' 32 io2 = Inr (bs, io2') \<and> request_of_bytes bs = ?q \<and> io_pending ''a'' io2' = rest"
    using ipc_request_delivered[OF demo_request_reads(3)[of Op_Read], of "demo_io ?q" "''a''"] demo_steady by (auto simp: demo_io_def)
  obtain io2' where "pipe_read ''a'' 32 (demo_io ?q) = Inr (request_bytes ?q, io2')" using pipe_read_ok[OF r(1)] r(2) by auto
  then show ?thesis using w(1) by blast
qed

text \<open>C31. The command lines of the batch and of the runtime server are read back: any placement, sizes, counts, offset, operation and rate written on them are the options that are parsed.\<close>

theorem command_lines_read_back:
  assumes "options_fit rate opt"
  shows "(\<not> op_runtimeIpc opt \<and> 0 < op_requestBytes opt \<and> 0 < op_iterations opt \<longrightarrow> parseOptions (batch_argv prog rate opt) = Some opt) \<and>
    (op_runtimeIpc opt \<longrightarrow> parseOptions (runtime_argv prog rate opt) = Some (options_new\<lparr>op_simConfig := op_simConfig opt, op_ssdConfig := op_ssdConfig opt,
       op_outputDir := op_outputDir opt, op_ssdX := op_ssdX opt, op_ssdY := op_ssdY opt, op_npuX := op_npuX opt, op_npuY := op_npuY opt,
       op_clockRate := op_clockRate opt, op_runtimeIpc := True\<rparr>))"
  using parse_batch[OF assms, where prog = prog] parse_runtime[OF assms, where prog = prog] by (intro conjI impI) simp_all

theorem command_lines_read_back_witness:
  "parseOptions (batch_argv ''simplessd-legosim'' ''1'' batch_demo_options) = Some batch_demo_options"
proof -
  have one: "rnd 53 1 = 1" using rnd_nat_exact[of 1 53] by simp
  have range: "double_range 1" by (simp add: double_range_def pow2_def)
  have "numeral_in 10 ''1'' = Some (1, [])" by code_simp
  then have "parseDouble ''1'' = Some (op_clockRate batch_demo_options)"
    using one range by (simp add: parseDouble_def strtod_def split_sign_def skip_space_def is_space_def to_lower_def number_base_def Let_def batch_demo_options_def options_new_def)
  then have "options_fit ''1'' batch_demo_options" by (simp add: options_fit_def batch_demo_options_def options_new_def in_long_def LONG_MAX_def)
  from command_lines_read_back[OF this, of "''simplessd-legosim''"] show ?thesis by (simp add: batch_demo_options_def options_new_def)
qed



text \<open>C33. The outer loop always ends: after at least one and at most the allowed number of rounds; it returns the cycle of the last round that ran, and it stops early exactly at the first round whose cycle differs from the previous one by less than the threshold.\<close>

theorem bridge_rounds_converge_or_stop:
  assumes "1 \<le> timeout"
  shows "case simulate rc threshold timeout of (c, k) \<Rightarrow> 1 \<le> k \<and> k \<le> timeout \<and> c = rc k \<and>
     (k < timeout \<longrightarrow> 1 < k \<and> fl_less (err_rate (rc k) (rc (k - 1))) threshold) \<and>
     (\<forall>j. 1 < j \<and> j < k \<longrightarrow> \<not> fl_less (err_rate (rc j) (rc (j - 1))) threshold)"
proof -
  obtain c k where r: "rounds rc threshold timeout 1 (Fin 0) = (c, k)" by force
  from rounds_result[OF r _ assms] show ?thesis by (simp add: simulate_def r)
qed

theorem bridge_rounds_converge_or_stop_witness:
  "\<exists>c k. simulate (\<lambda>r. Fin 100) (Fin (1 / 2)) 5 = (c, k) \<and> k \<le> 5 \<and> c = Fin 100"
  using bridge_rounds_converge_or_stop[of 5 "\<lambda>r. Fin 100" "Fin (1 / 2)"] by (auto split: prod.splits)





text \<open>C36. The bytes the ICL is asked for by the driver are the first ones of the request, in order, up to the end of the pages counted from its length alone: a request is served whole exactly when its offset in the first page and its length together fit in that many pages.\<close>

theorem driver_serves_bytes:
  assumes "driver_request D b = Inr r" and "ig_logicalPageSize G = dr_logicalPageSize D" and "dr_logicalPageSize D < 18446744073709551616"
    and "0 < b_length b" and "b_length b < 18446744073709551616"
  shows "let k = divceil (b_length b) (dr_logicalPageSize D); off = b_offset b mod dr_logicalPageSize D in
    \<exists>rs t. icl_io G (recorder fin) (\<lambda>w. (d, w)) (icl_of_hil r) tick [] = Inr (t, map (\<lambda>r. (r, tick)) rs) \<and> length rs = k \<and>
    concat (map (bytes_of G) rs) = [b_offset b..<b_offset b + min (b_length b) (k * dr_logicalPageSize D - off)] \<and>
    (min (b_length b) (k * dr_logicalPageSize D - off) = b_length b \<longleftrightarrow> off + b_length b \<le> k * dr_logicalPageSize D)"
  using driver_pieces[OF assms, of fin d tick] driver_whole[OF assms(4)] unfolding Let_def by blast

theorem driver_serves_bytes_witness:
  "\<exists>r rs t. driver_request demo_driver (run_bio (demo_request Op_Read 12 8) BIO_READ 100) = Inr r \<and>
     icl_io (ie_geometry lego_env) (recorder (\<lambda>r t. t)) (\<lambda>w. (4, w)) (icl_of_hil r) 0 [] = Inr (t, map (\<lambda>r. (r, 0)) rs) \<and>
     concat (map (bytes_of (ie_geometry lego_env)) rs) = [12..<16]"
proof -
  let ?b = "run_bio (demo_request Op_Read 12 8) BIO_READ 100"
  obtain r where r: "driver_request demo_driver ?b = Inr r" using driver_request_ok[of demo_driver ?b] by (auto simp: demo_driver_def)
  have g: "ig_logicalPageSize (ie_geometry lego_env) = dr_logicalPageSize demo_driver" "dr_logicalPageSize demo_driver < 18446744073709551616"
    "0 < b_length ?b" "b_length ?b < 18446744073709551616" by (simp_all add: lego_env_def demo_driver_def run_bio_def demo_request_def)
  show ?thesis using driver_serves_bytes[OF r g, of "\<lambda>r t. t" 4 0] r
    by (auto simp: Let_def demo_driver_def run_bio_def demo_request_def divceil_def)
qed



text \<open>C38. A page allocation that the configuration accepts names channel, way, die and plane exactly once, has the plane first with multi-plane operation, and survives being packed into four bytes and taken apart again.\<close>

theorem flash_setup_accepted:
  assumes "pal_update po = Inr s"
  shows "distinct (ps_allocation s) \<and> set (ps_allocation s) = {1, 2, 4, 8} \<and>
    (po_multiPlane po \<longrightarrow> hd (ps_allocation s) = 8 \<and> ps_superblock s AND 8 \<noteq> 0) \<and>
    map (allocation_byte (getPageAllocationConfig (ps_allocation s))) [0..<4] = ps_allocation s"
proof -
  note p = pal_update_allocation[OF assms]
  then have "map (allocation_byte (getPageAllocationConfig (ps_allocation s))) [0..<4] = ps_allocation s" by (intro allocation_bytes) auto
  then show ?thesis using p by blast
qed

theorem flash_setup_accepted_witness:
  "\<exists>s. pal_update flash_demo_options = Inr s \<and> hd (ps_allocation s) = 8"
proof -
  obtain s where "pal_update flash_demo_options = Inr s" using flash_demo_update by blast
  then show ?thesis using flash_setup_accepted by (auto simp: flash_demo_options_def)
qed



text \<open>C40. The random victim sampling does not end when more victims are requested than there are candidate blocks: whatever is drawn, no number of draws is enough.\<close>

theorem ftl_sampling_never_returns:
  assumes "weight \<noteq> []" and "length weight < 2 ^ 64"
    and "\<And>n w. fst (ll_random L n w) \<le> n"
    and "length (filter (\<lambda>x. fst x < U32MAX) weight) + length selected < randomRange"
  shows "pm_sample L fuel randomRange weight selected w = Inl (NoReturn ''victim sampling'')"
  using assms
proof (induction fuel arbitrary: weight selected w)
  case 0
  then show ?case by (subst pm_sample.simps) auto
next
  case (Suc fuel)
  let ?u = "\<lambda>x::nat \<times> fl. fst x < U32MAX"
  have len: "length selected < randomRange" using Suc.prems(4) by linarith
  obtain idx w1 where dr: "ll_random L ((length weight + 2 ^ 64 - 1) mod 2 ^ 64) w = (idx, w1)" by fastforce
  have "(length weight + 2 ^ 64 - 1) mod 2 ^ 64 = length weight - 1"
    using Suc.prems(1,2) by (cases weight) auto
  then have idx: "idx < length weight"
    using Suc.prems(3)[of "(length weight + 2 ^ 64 - 1) mod 2 ^ 64" w] dr Suc.prems(1) by (cases weight) auto
  let ?wt = "weight[idx := (U32MAX, snd (weight ! idx))]"
  have a: "filter ?u ?wt = filter ?u (take idx weight) @ filter ?u (drop (Suc idx) weight)"
    by (simp add: upd_conv_take_nth_drop[OF idx])
  have b: "length (filter ?u weight) = length (filter ?u ?wt) + (if ?u (weight ! idx) then 1 else 0)"
    by (subst id_take_nth_drop[OF idx]) (simp add: a)
  have 1: "pm_sample L fuel randomRange weight selected w1 = Inl (NoReturn ''victim sampling'')"
    by (rule Suc.IH) (use Suc.prems in auto)
  have 2: "pm_sample L fuel randomRange ?wt (selected @ [weight ! idx]) w1 = Inl (NoReturn ''victim sampling'')"
    if "?u (weight ! idx)"
    by (rule Suc.IH) (use Suc.prems b that in auto)
  show ?case using len dr idx 1 2 by (subst pm_sample.simps) simp
qed

theorem ftl_sampling_never_returns_witness:
  "\<forall>fuel. pm_sample (lower_fixed 1 1) fuel 2 [(0, Fin 0)] [] () = Inl (NoReturn ''victim sampling'')"
  by (rule allI, rule ftl_sampling_never_returns) (simp_all add: lower_fixed_def)

section \<open>Further facts\<close>

text \<open>The cycle a timed barrier opens at is not before the arrival of any of the packets it waits for, and not negative.\<close>

theorem bridge_barrier_cycle_latest:
  assumes "getBarrierCycle items ds = Inr b" and "ds_inv ds"
    and "\<forall>c \<in> set items. cycle_ok (c_cycle c) \<and> 0 \<le> c_nbytes c"
  shows "fl_le (Fin 0) b \<and> (\<forall>c \<in> set items. \<exists>t. barrier_item_cycle ds c = Inr t \<and> fl_le t b)"
  by (rule getBarrierCycle_max[OF assms])

theorem bridge_barrier_cycle_latest_witness:
  "\<exists>b. getBarrierCycle [demo_cmd SC_WRITE 0 1 16 7] ds_new = Inr b \<and> fl_le (Fin 0) b"
proof -
  obtain b where b: "getBarrierCycle [demo_cmd SC_WRITE 0 1 16 7] ds_new = Inr b"
    by (simp add: getBarrierCycle_def barrier_item_cycle_def dm_hasPair_def ds_new_def)
  from bridge_barrier_cycle_latest[OF b ds_inv_new] b show ?thesis by auto
qed

text \<open>Whatever text the delay file holds, if loading it returns, every item is filed under its source and cycle (and its destination in the order maps), every order is sorted by cycle and every delay is a non-negative double.\<close>

theorem bridge_delay_file_loads:
  assumes "loadDelayInfo file (Fin c) width ds = Inr ds'" and "0 < c" and "ds_inv ds"
  shows "ds_inv ds'"
  by (rule loadDelayInfo_inv[OF assms])

theorem bridge_delay_file_loads_witness:
  "\<exists>ds. loadDelayInfo (Some demo_delay_text) (Fin 1) 2 ds_new = Inr ds \<and> ds_inv ds"
proof -
  obtain ds where d: "loadDelayInfo (Some demo_delay_text) (Fin 1) 2 ds_new = Inr ds" using demo_load by blast
  from bridge_delay_file_loads[OF d _ ds_inv_new] d show ?thesis by auto
qed

text \<open>The byte-array bitset implements a list of bits: on a well-formed bitset each single-bit operation is a list update at that index, each whole-set operation acts on all bits, the padding bits of the last byte stay zero, and the size never changes.\<close>

theorem bitset_operations_refine_bit_lists:
  assumes "bs_wf b" and "i < bs_dataSize b"
  shows "bs_test b i = bs_bits b ! i \<and>
     bs_bits (bs_set b i v) = (bs_bits b)[i := v] \<and> bs_wf (bs_set b i v) \<and>
     bs_bits (bs_reset b i) = (bs_bits b)[i := False] \<and> bs_wf (bs_reset b i) \<and>
     bs_bits (bs_flip b i) = (bs_bits b)[i := \<not> bs_bits b ! i] \<and> bs_wf (bs_flip b i) \<and>
     bs_bits (bs_set_all b) = replicate (length (bs_bits b)) True \<and> bs_wf (bs_set_all b) \<and>
     bs_bits (bs_reset_all b) = replicate (length (bs_bits b)) False \<and> bs_wf (bs_reset_all b) \<and>
     bs_bits (bs_flip_all b) = map Not (bs_bits b) \<and> bs_wf (bs_flip_all b)"
  using assms
  by (simp add: bs_bits_set bs_bits_flip bs_bits_set_all bs_bits_reset_all bs_bits_flip_all bs_reset_eq_set)

theorem bitset_operations_refine_bit_lists_witness:
  "bs_bits (bs_set (bs_new 11) 9 True) = (replicate 11 False)[9 := True]"
  using bitset_operations_refine_bit_lists[of "bs_new 11" 9 True] by (simp add: bs_new_wf bs_bits_new)

text \<open>A host read or write that runs through HIL, ICL and cache keeps the invariants of cache, engine and completion queue; the request is queued with a finish tick in the future and the completion event is due by then.\<close>

theorem stack_io_ok:
  assumes "engine_inv e" and "hl_event h \<in> set (en_list e)" and "hil_ready (h, e)" and "cache_inv (ie_param I) k"
    and "geometry_ok (ie_param I)" and "cpu_positive I"
    and "hil_body (icl_as_ops I) scheduleEvent (io_job wr r) (en_simTick e) (h, e, k, w) = Inr (h', e', k', w')"
  shows "engine_inv e' \<and> hil_ready (h', e') \<and> cache_inv (ie_param I) k' \<and> en_simTick e' = en_simTick e \<and>
    (\<exists>t > en_simTick e. hl_queue h' = push_request (r\<lparr>h_reqID := hl_reqCount h + 1, h_finishedAt := t\<rparr>) (hl_queue h) \<and>
       (\<exists>d \<le> t. isEventExist (hl_event h) (en_queue e') = Some d))"
  by (rule stack_io[OF assms])

theorem stack_io_ok_witness:
  "\<exists>h e k w. hil_body (icl_as_ops small_icl) scheduleEvent (io_job True small_host) 0
      (hil_new 1, snd (allocateEvent engine_new), cache_new (small_param 1), []) = Inr (h, e, k, w) \<and>
    hil_ready (h, e) \<and> cache_inv (small_param 1) k \<and> length (hl_queue h) = 1"
proof -
  obtain h e k w where run: "hil_body (icl_as_ops small_icl) scheduleEvent (io_job True small_host) 0
      (hil_new 1, snd (allocateEvent engine_new), cache_new (small_param 1), []) = Inr (h, e, k, w)"
    using small_stack_runs by (elim map_sum_InrE) (auto simp: hil_view_def)
  have e: "engine_inv (snd (allocateEvent engine_new))" "1 \<in> set (en_list (snd (allocateEvent engine_new)))"
      "en_simTick (snd (allocateEvent engine_new)) = 0"
    by (simp_all add: allocateEvent_def engine_new_def engine_inv_def queue_ok_def)
  have "hil_ready (hil_new 1, snd (allocateEvent engine_new))" by (simp add: hil_live_def hil_new_def)
  with stack_io_ok[of "snd (allocateEvent engine_new)" "hil_new 1" small_icl "cache_new (small_param 1)" True small_host "[]" h e k w]
    e run cache_new_inv[of "small_param 1"] small_geometry[of 1] small_icl_positive
  show ?thesis by (auto simp: small_icl_param hil_new_def length_push)
qed

text \<open>On well-formed bitsets count returns the number of set bits (popcount being right for all 256 bytes), any, none and all quantify over exactly the first dataSize bits, and the comparison of two bitsets of equal size compares their bits.\<close>

theorem bitset_queries:
  assumes "bs_wf b"
  shows "bs_count b = count_list (bs_bits b) True \<and> unat (popcount8 v) = count_list (map (bit v) [0..<8]) True \<and>
     (bs_any b \<longleftrightarrow> (\<exists>i < bs_dataSize b. bs_test b i)) \<and> (bs_none b \<longleftrightarrow> \<not> bs_any b) \<and>
     (bs_all b \<longleftrightarrow> (\<forall>i < bs_dataSize b. bs_test b i)) \<and>
     (\<forall>c. bs_wf c \<and> bs_dataSize b = bs_dataSize c \<longrightarrow> bs_eq b c = Inr (bs_bits b = bs_bits c))"
  using assms popcount8_count[of v]
  by (simp add: bs_count_bits bs_any_iff bs_none_iff bs_all_iff bs_eq_iff byte_bits_def)

theorem bitset_queries_witness: "bs_count (bs_set (bs_new 11) 9 True) = 1"
  using bitset_queries[of "bs_set (bs_new 11) 9 True"] bs_new_wf[of 11]
  by (simp add: bs_bits_set bs_bits_new numeral_eq_Suc)

text \<open>The node number the traffic record writes for an address of a mesh is turned back into that address when the delay file is loaded with the same width.\<close>

theorem bridge_node_numbers:
  assumes "0 \<le> x" "x < w" "0 \<le> y" "x + y * w \<le> INT_MAX"
  shows "node_addr (bench_node [x, y] w) w = Inr [x, y]"
  by (rule node_addr_bench_node[OF assms])

theorem bridge_node_numbers_witness: "node_addr (bench_node [2, 1] 3) 3 = Inr [2, 1]"
  by (rule bridge_node_numbers) (simp_all add: INT_MAX_def)

text \<open>However many events the loop of the simulator runs, with handlers that use the engine through its operations: the queue stays sorted, duplicate-free, made of allocated events and never in the past, and time never goes back.\<close>

theorem event_loop_monotone:
  assumes "runEvents n fn stop (e, s) = Inr (e', s')" and "engine_inv e" and "handlers_ok fn"
  shows "engine_inv e' \<and> en_simTick e \<le> en_simTick e'"
  by (rule runEvents_ok[OF assms])

theorem event_loop_monotone_witness:
  "\<exists>e. runEvents 5 ticker (\<lambda>s. s = 3) (ticker_engine, 0) = Inr (e, 3) \<and> engine_inv e \<and> en_simTick e = 30"
proof -
  have run: "map_sum id (\<lambda>(e, s). (en_simTick e, s)) (runEvents 5 ticker (\<lambda>s. s = 3) (ticker_engine, 0)) = Inr (30, 3)" by code_simp
  then obtain e where e: "runEvents 5 ticker (\<lambda>s. s = 3) (ticker_engine, 0) = Inr (e, 3)" "en_simTick e = 30"
    by (cases "runEvents 5 ticker (\<lambda>s. s = 3) (ticker_engine, 0)") auto
  have "engine_inv ticker_engine" by (simp add: ticker_engine_def engine_inv_def queue_ok_def)
  then show ?thesis using event_loop_monotone[OF e(1) _ ticker_ok] e by blast
qed

text \<open>A job submitted to a core is queued last; on an idle core its event is due after the delay and the latency, on a busy core nothing is rescheduled, and the event of a core with jobs is always due.\<close>

theorem core_submit_timing:
  assumes "engine_inv e" and "co_event c \<in> set (en_list e)" and "core_live (\<lambda>e i. isEventExist i (en_queue e)) (c, e)"
  shows "\<exists>c' e'. submitJob scheduleEvent (en_simTick e) f i delay (c, e) = Inr (c', e') \<and> engine_inv e' \<and> en_simTick e' = en_simTick e \<and>
    core_live (\<lambda>e i. isEventExist i (en_queue e)) (c', e') \<and> co_event c' = co_event c \<and>
    co_jobs c' = co_jobs c @ [\<lparr>j_func = f, j_inst = i, j_submitAt = en_simTick e, j_delay = delay\<rparr>] \<and>
    (co_jobs c = [] \<longrightarrow> isEventExist (co_event c) (en_queue e') = Some (en_simTick e + delay + is_latency i)) \<and>
    (\<forall>x. x \<noteq> co_event c \<longrightarrow> isEventExist x (en_queue e') = isEventExist x (en_queue e))"
  by (rule en.submitJob_ok[OF assms])

theorem core_submit_timing_witness:
  "\<exists>c e. submitJob scheduleEvent 0 True (inst_new 1 2 3 4 0 0 100) 50 (core_new 1, snd (allocateEvent engine_new)) = Inr (c, e) \<and>
     isEventExist 1 (en_queue e) = Some 1050"
proof -
  have "engine_inv (snd (allocateEvent engine_new))" by (simp add: allocateEvent_def engine_new_def engine_inv_def queue_ok_def)
  moreover have "co_event (core_new 1) \<in> set (en_list (snd (allocateEvent engine_new)))" by (simp add: allocateEvent_def engine_new_def core_new_def)
  moreover have "core_live (\<lambda>e i. isEventExist i (en_queue e)) (core_new 1, snd (allocateEvent engine_new))" by (simp add: core_live_def core_new_def)
  ultimately show ?thesis
    using core_submit_timing[of "snd (allocateEvent engine_new)" "core_new 1" True "inst_new 1 2 3 4 0 0 100" 50]
    by (auto simp: allocateEvent_def engine_new_def core_new_def inst_new_def inst_sum_def Let_def)
qed

text \<open>When the event of a core fires, the job at the front has run and is charged, and the next job starts at once: its event is due at the later of now and its own delay, plus its latency.\<close>

theorem core_serves_next:
  assumes "engine_inv e" and "co_event c \<in> set (en_list e)" and "co_jobs c = j # js" and "\<forall>x \<in> set js. j_submitAt x \<le> en_simTick e"
    and "run (j_func j) (en_simTick e) (c, e) = Inr (c, e)"
  shows "\<exists>c' e'. jobDone scheduleEvent run (en_simTick e) (c, e) = Inr (c', e') \<and> engine_inv e' \<and>
    core_live (\<lambda>e i. isEventExist i (en_queue e)) (c', e') \<and> co_jobs c' = js \<and>
    co_busyTime c' = co_busyTime c + is_latency (j_inst j) \<and>
    (js \<noteq> [] \<longrightarrow> isEventExist (co_event c) (en_queue e') =
       Some (max (en_simTick e) (j_submitAt (hd js) + j_delay (hd js)) + is_latency (j_inst (hd js))))"
  using en.jobDone_ok[of e c j js run, OF assms] .

theorem core_serves_next_witness:
  "\<exists>c e. jobDone scheduleEvent (\<lambda>f t s. Inr s) 0 (two_jobs, snd (allocateEvent engine_new)) = Inr (c, e) \<and>
     isEventExist 1 (en_queue e) = Some 12"
proof -
  have "engine_inv (snd (allocateEvent engine_new))" by (simp add: allocateEvent_def engine_new_def engine_inv_def queue_ok_def)
  moreover have "co_event two_jobs \<in> set (en_list (snd (allocateEvent engine_new)))" by (simp add: allocateEvent_def engine_new_def two_jobs_def core_new_def)
  ultimately show ?thesis
    using core_serves_next[of "snd (allocateEvent engine_new)" two_jobs "hd (co_jobs two_jobs)" "tl (co_jobs two_jobs)" "\<lambda>f t s. Inr s"]
    by (auto simp: allocateEvent_def engine_new_def two_jobs_def inst_new_def inst_sum_def Let_def)
qed

text \<open>A request is split into one access per logical page, all issued at the tick of the request; their byte ranges, put one after the other, are exactly the first bytes of the request up to the end of its pages, each byte once, and the request finishes with the latest access.\<close>

theorem icl_splits_exactly:
  assumes "i_offset req < ig_logicalPageSize G" and "ig_logicalPageSize G < 18446744073709551616"
    and "i_offset req + i_length req \<le> nlp (i_range req) * ig_logicalPageSize G"
  shows "\<exists>rs. icl_io G (recorder fin) (\<lambda>w. (d, w)) req tick [] = Inr (fold max (map (\<lambda>r. fin r tick) rs) tick + d, map (\<lambda>r. (r, tick)) rs) \<and>
    length rs = nlp (i_range req) \<and> concat (map (bytes_of G) rs) = bytes_of G req"
proof -
  let ?rs = "map (icl_piece G req) [0..<nlp (i_range req)]"
  have run: "icl_io G (recorder fin) (\<lambda>w. (d, w)) req tick [] =
      Inr (fold max (map (\<lambda>r. fin r tick) ?rs) tick + d, map (\<lambda>r. (r, tick)) ?rs)"
    by (simp add: icl_io_def icl_loop_recorded[OF assms(1,2)] comp_def)
  have "i_length req \<le> nlp (i_range req) * ig_logicalPageSize G - i_offset req" using assms(3) by simp
  then have "piece_end G req (nlp (i_range req)) = i_length req" by (simp add: piece_end_def)
  then have "concat (map (bytes_of G) ?rs) = bytes_of G req"
    using pieces_bytes[OF assms(1), of "nlp (i_range req)"] by (simp add: bytes_of_def Let_def comp_def)
  then show ?thesis using run by (intro exI[of _ ?rs]) simp
qed

theorem icl_splits_exactly_witness:
  "\<exists>rs. icl_io \<lparr>ig_totalLogicalPages = 9, ig_logicalPageSize = 4, ig_ratio = 1\<rparr> (recorder (\<lambda>r t. t + i_length r)) (\<lambda>w. (7, w))
     \<lparr>i_reqID = 0, i_reqSubID = 0, i_offset = 3, i_length = 6, i_range = \<lparr>slpn = 2, nlp = 3\<rparr>\<rparr> 10 [] =
       Inr (21, map (\<lambda>r. (r, 10)) rs) \<and> length rs = 3"
proof -
  let ?G = "\<lparr>ig_totalLogicalPages = 9, ig_logicalPageSize = 4, ig_ratio = 1\<rparr>"
  let ?r = "\<lparr>i_reqID = 0, i_reqSubID = 0, i_offset = 3, i_length = 6, i_range = \<lparr>slpn = 2, nlp = 3\<rparr>\<rparr>"
  have "i_offset ?r < ig_logicalPageSize ?G" "ig_logicalPageSize ?G < 18446744073709551616"
    "i_offset ?r + i_length ?r \<le> nlp (i_range ?r) * ig_logicalPageSize ?G" by simp_all
  from icl_splits_exactly[OF this, of "\<lambda>r t. t + i_length r" 7 10] obtain rs where
    rs: "icl_io ?G (recorder (\<lambda>r t. t + i_length r)) (\<lambda>w. (7, w)) ?r 10 [] =
      Inr (fold max (map (\<lambda>r. 10 + i_length r) rs) 10 + 7, map (\<lambda>r. (r, 10)) rs)" "length rs = nlp (i_range ?r)" by blast
  have "map_sum id fst (icl_io ?G (recorder (\<lambda>r t. t + i_length r)) (\<lambda>w. (7, w)) ?r 10 []) = Inr 21" by code_simp
  then have "fold max (map (\<lambda>r. 10 + i_length r) rs) 10 + 7 = 21" unfolding rs(1) by simp
  then show ?thesis using rs by (intro exI[of _ rs]) simp
qed

text \<open>Trimming a page of which only one I/O unit has been written stops the simulator: on a fresh drive, write unit 0 of LPN 1 and trim LPN 1; the unmapped unit is looked up as if it were mapped.\<close>

theorem ftl_trim_partial_panics:
  "fault_of (rbind (pm_new (demo_env 1 2)) (\<lambda>s.
     rbind (pm_write (demo_env 1 2) (demo_req 1 [0]) 0 s ()) (\<lambda>(t, s, w).
       pm_trim (demo_env 1 2) (demo_req 1 [0]) 0 s ()))) = Some (Panic ''Block is not in use'')"
  by code_simp

text \<open>Formatting a range whose pages lie in the open block of a slot breaks the FTL: on a fresh drive, write LPN 0, format it, and the next write panics because the open block was reclaimed.\<close>

theorem ftl_format_then_write_panics:
  "fault_of (rbind (pm_new (demo_env 1 2)) (\<lambda>s.
     rbind (pm_write (demo_env 1 2) (demo_req 0 [0, 1]) 0 s ()) (\<lambda>(t, s, w).
     rbind (pm_format (demo_env 1 2) \<lparr>slpn = 0, nlp = 1\<rparr> 0 s ()) (\<lambda>(t, s, w).
       pm_write (demo_env 1 2) (demo_req 0 [0, 1]) 0 s ())))) = Some (Panic ''Corrupted'')"
  by code_simp

text \<open>The timing legs of the protocol client and of the server do not match in the bridge: the WRITE the client announces for a request carries its identifier as descriptor, the READ of the server for the same leg carries 0, and the two are never paired although source and destination agree.\<close>

theorem demo_client_unmatched:
  assumes "roundTrip q issue rb pb c = Inr (x, c')" and "server_receive opt now V io = Inr (None, q', arrival, V', io')"
    and "op_npuX opt = 0" and "op_npuY opt = 0" and "op_ssdX opt = 1" and "op_ssdY opt = 0"
    and "0 < q_id q" and "q_id q \<le> nat LONG_MAX" and "rb \<le> nat INT_MAX" and "in_time (int issue)" and "in_time (int (sv_cycle V))"
  shows "\<exists>w r wc rc. (\<exists>s s'. io_out (cl_io c') = io_out (cl_io c) @ s @ w @ s') \<and> (\<exists>s s'. io_out io' = io_out io @ s @ r @ s') \<and>
    parse_cmd w = Inr wc \<and> parse_cmd r = Inr rc \<and> c_type wc = SC_WRITE \<and> c_type rc = SC_READ \<and> c_src wc = c_src rc \<and> c_dst wc = c_dst rc \<and>
    \<not> comm_match wc rc \<and> \<not> comm_match rc wc"
proof -
  have i: "as_int 0 = 0" "as_int 1 = 1" by code_simp+
  have n: "in_int (as_int (int rb))" "in_int (int (requestWireBytes q'))" "in_long (as_long (q_id q))" "as_long (q_id q) \<noteq> 0"
    using assms(7-9) server_receive_says[OF assms(2)] by (auto simp: in_int_def as_int_def as_long_def in_long_def INT_MAX_def LONG_MAX_def)
  obtain s s' where w: "io_out (cl_io c') = io_out (cl_io c) @ s @ sendWriteCmd (int issue) 0 0 1 0 (as_int (int rb)) (as_long (q_id q)) @ s'"
    using roundTrip_says[OF assms(1)] by auto
  obtain t t' where r: "io_out io' = io_out io @ t @ sendReadCmd (int (sv_cycle V)) 0 0 1 0 (int (requestWireBytes q')) 0 @ t'"
    using server_receive_says[OF assms(2)] assms(3-6) i by auto
  show ?thesis using legs_apart[OF assms(10,11) n] w r by blast
qed

theorem demo_client_unmatched_witness:
  "\<exists>c' io' V' w r wc rc. roundTrip (demo_request Op_Read 8 8) 1 64 8 demo_client = Inr ((demo_response, 700), c') \<and>
     server_receive options_new 0 server_new (demo_io (demo_request Op_Read 8 8)) = Inr (None, demo_request Op_Read 8 8, 100, V', io') \<and>
     parse_cmd w = Inr wc \<and> parse_cmd r = Inr rc \<and> c_type wc = SC_WRITE \<and> c_type rc = SC_READ \<and> \<not> comm_match wc rc"
proof -
  let ?q = "demo_request Op_Read 8 8"
  obtain c' where c: "roundTrip ?q 1 64 8 demo_client = Inr ((demo_response, 700), c')"
    using roundTrip_env[OF demo_client_env demo_response_ok(2), of 1 64 8] by auto
  have "round_env ''a'' ''b'' ?q 100 700 [] (demo_io ?q)" using demo_round[OF demo_request_reads(3), where s = "[]"] by (simp add: demo_io_def)
  from server_receive_env[OF this demo_request_reads(4), of options_new 0 server_new]
  obtain V' io' where s: "server_receive options_new 0 server_new (demo_io ?q) = Inr (None, ?q, 100, V', io')" by blast
  have o': "op_npuX options_new = 0" "op_npuY options_new = 0" "op_ssdX options_new = 1" "op_ssdY options_new = 0" "0 < q_id ?q" "q_id ?q \<le> nat LONG_MAX"
    "64 \<le> nat INT_MAX" "in_time (int 1)" "in_time (int (sv_cycle server_new))"
    by (simp_all add: options_new_def demo_request_def LONG_MAX_def INT_MAX_def in_time_def server_new_def ULL_MAX_def)
  from demo_client_unmatched[OF c s o'] show ?thesis using c s by blast
qed

text \<open>Greedy victim selection can reclaim a full block that is still the open block of its slot: on a drive with two slots and one-page blocks the second write panics.\<close>

theorem ftl_collect_open_panics:
  "fault_of (rbind (pm_new (demo_env 2 1)) (\<lambda>s.
     rbind (pm_write (demo_env 2 1) (demo_req 0 [0, 1]) 0 s ()) (\<lambda>(t, s, w).
       pm_write (demo_env 2 1) (demo_req 1 [0, 1]) 0 s ()))) = Some (Panic ''Corrupted'')"
  by code_simp

text \<open>For blocks with one I/O unit per page, getPageInfo reports every page as valid, whatever its valid bit is.\<close>

theorem block_single_unit_info:
  assumes "blk_rep b" and "b_ioUnitInPage b = 1" and "p < b_pageCount b" and "bs_wf m" and "bs_dataSize m = 1"
  shows "\<exists>m'. blk_getPageInfo b p m = Inr (True, [blk_lpn b p 0], m') \<and> bs_test m' 0"
  using assms by (auto simp: blk_getPageInfo_def blk_rep_def bs_size_def blk_lpn_def bs_any_iff)

theorem block_single_unit_info_witness:
  "\<exists>b m'. \<not> blk_valid b 0 0 \<and> blk_getPageInfo b 0 (bs_new 1) = Inr (True, [blk_lpn b 0 0], m')"
proof -
  obtain b where b: "blk_inv b" "b_pageCount b = 2" "b_ioUnitInPage b = 1"
    "\<And>p i. p < 2 \<Longrightarrow> i < 1 \<Longrightarrow> \<not> blk_valid b p i" by (rule blk_new_ok[of 2 1 0]) auto
  obtain m' where "blk_getPageInfo b 0 (bs_new 1) = Inr (True, [blk_lpn b 0 0], m')"
    using block_single_unit_info[of b 0 "bs_new 1"] b blk_inv_rep[OF b(1)] bs_new_wf[of 1] by auto
  moreover have "\<not> blk_valid b 0 0" using b(4) by simp
  ultimately show ?thesis by blast
qed

text \<open>An UNLOCK releases the mutex whoever sends it: from a source that does not hold it, with nobody waiting, it is answered and the mutex is free while its holder is still inside.\<close>

theorem bridge_unlock_by_any_source:
  assumes "isLocked (uid_of c) (ss_lock s)" and "map_option c_src (getLastCmd (uid_of c) (ss_lock s)) \<noteq> Some (c_src c)"
    and "\<not> hasLock (c_dst c) (ss_delay s)" and "lk_pending (uid_of c) (ss_lock s) = []"
  shows "\<exists>s'. handle_unlock_cmd c s = Inr ([(c_stdin_fd c, sendResultCmd)], s') \<and> \<not> isLocked (uid_of c) (ss_lock s')"
  using assms by (simp add: handle_unlock_cmd_def Let_def hasLockCmd_def lk_unlock_def lk_pending_def isLocked_def)

theorem bridge_unlock_by_any_source_witness:
  "\<exists>s s'. handle_unlock_cmd (demo_cmd SC_UNLOCK 2 1 0 8) s = Inr ([(8, sendResultCmd)], s') \<and>
     map_option c_src (getLastCmd 1 (ss_lock s)) = Some [0, 0] \<and> \<not> isLocked 1 (ss_lock s')"
proof -
  let ?s = "ss_new\<lparr>ss_lock := lk_lock 1 (demo_cmd SC_LOCK 0 1 0 7) lk_new\<rparr>"
  have s: "isLocked 1 (ss_lock ?s)" "getLastCmd 1 (ss_lock ?s) = Some (demo_cmd SC_LOCK 0 1 0 7)" "lk_pending 1 (ss_lock ?s) = []"
    "\<not> hasLock [1, 0] (ss_delay ?s)"
    by (simp_all add: lk_lock_def lk_new_def isLocked_def getLastCmd_def lk_pending_def hasLock_def dm_hasAddr_def ss_new_def ds_new_def)
  obtain s' where s': "handle_unlock_cmd (demo_cmd SC_UNLOCK 2 1 0 8) ?s = Inr ([(8, sendResultCmd)], s')" "\<not> isLocked 1 (ss_lock s')"
    using bridge_unlock_by_any_source[of "demo_cmd SC_UNLOCK 2 1 0 8" ?s] s by (auto simp del: sync_struct.simps)
  show ?thesis by (intro exI[of _ ?s] exI[of _ s'] conjI s') (simp_all only: s(2), simp)
qed

text \<open>A write with the LOCK flag between two nodes whose delay item is that of a plain packet reads the delay list past its end.\<close>

theorem bridge_short_delay_undefined:
  "\<exists>ds. loadDelayInfo (Some demo_delay_text) (Fin 1) 2 ds_new = Inr ds \<and>
     getEndCycle ((demo_cmd SC_WRITE 0 1 16 7)\<lparr>c_desc := SPD_LOCK\<rparr>) (demo_cmd SC_READ 0 1 16 8) ds =
       Inl (Undefined ''vector index'')"
  by (rule demo_short_delay)

end
